(* ===== verification/Prelude.thy ===== *)
theory Prelude
  imports Main "HOL-Library.Word" "HOL-Library.Multiset"
begin

text \<open>
  Shared material of the development: the machine types of the C++ sources, the
  outcomes a C++ expression can have besides a value (an exception, or undefined
  behaviour such as a use after free), raw memory as an array of cells that may be
  uninitialised, little-endian integers in memory, and the parts of the C and C++
  standard libraries the sources call.
\<close>

unbundle bit_operations_syntax

section \<open>Machine types\<close>

type_synonym byte = "8 word"
type_synonym u8 = "8 word"
type_synonym u16 = "16 word"
type_synonym u32 = "32 word"
type_synonym u64 = "64 word"

text \<open>A signed 32-bit integer is the same bit pattern, read with \<^const>\<open>sint\<close>.\<close>

type_synonym i32 = "32 word"

text \<open>A pointer to a heap object is its address; the null pointer is \<^const>\<open>None\<close>.\<close>

type_synonym addr = nat

section \<open>Exceptions and undefined behaviour\<close>

datatype exn =
    Runtime_error string
  | Invalid_argument string
  | Out_of_range string
  | Type_error string
  | Syntax_error string
  | Internal_error string
  | Format_error string

datatype fault =
    Null_deref
  | Out_of_bounds
  | Uninit_read
  | Use_after_free
  | Bad_cast
  | Diverge
  | Div_by_zero
  | Uncaught exn

text \<open>
  A call either runs into undefined behaviour, never returns, or lets an exception escape
  from a thread, which terminates the program (\<^const>\<open>Inl\<close>); or it ends;
  the monadic bind of this sum stops at the first fault.
\<close>

type_synonym 'a run = "fault + 'a"

definition bind_run :: "'a run \<Rightarrow> ('a \<Rightarrow> 'b run) \<Rightarrow> 'b run" where
  "bind_run m f = (case m of Inl e \<Rightarrow> Inl e | Inr x \<Rightarrow> f x)"

definition guard_run :: "fault \<Rightarrow> bool \<Rightarrow> 'a run \<Rightarrow> 'a run" where
  "guard_run e b m = (if b then m else Inl e)"

definition deref :: "'a option \<Rightarrow> 'a run" where
  "deref p = (case p of None \<Rightarrow> Inl Null_deref | Some x \<Rightarrow> Inr x)"

text \<open>Following a pointer into a heap: a freed or never allocated address is an error.\<close>

definition load :: "(addr \<rightharpoonup> 'a) \<Rightarrow> addr \<Rightarrow> 'a run" where
  "load h a = (case h a of None \<Rightarrow> Inl Use_after_free | Some x \<Rightarrow> Inr x)"

section \<open>Raw memory\<close>

text \<open>The cells of a \<^verbatim>\<open>new char[n]\<close>: uninitialised until they are written.\<close>

type_synonym cells = "byte option list"

definition new_array :: "nat \<Rightarrow> cells" where
  "new_array n = replicate n None"

definition write_cells :: "cells \<Rightarrow> nat \<Rightarrow> byte list \<Rightarrow> cells run" where
  "write_cells cs off bs =
     (if off + length bs \<le> length cs
      then Inr (take off cs @ map Some bs @ drop (off + length bs) cs)
      else Inl Out_of_bounds)"

definition read_cells :: "cells \<Rightarrow> nat \<Rightarrow> nat \<Rightarrow> byte list run" where
  "read_cells cs off n =
     (if off + n \<le> length cs
      then (if None \<in> set (take n (drop off cs)) then Inl Uninit_read
            else Inr (map the (take n (drop off cs))))
      else Inl Out_of_bounds)"

section \<open>Little-endian integers in memory\<close>

fun le_bytes :: "nat \<Rightarrow> 'a::len word \<Rightarrow> byte list" where
  "le_bytes 0 w = []"
| "le_bytes (Suc n) w = ucast w # le_bytes n (drop_bit 8 w)"

fun un_le :: "byte list \<Rightarrow> 'a::len word" where
  "un_le [] = 0"
| "un_le (b # bs) = ucast b OR push_bit 8 (un_le bs)"

section \<open>Library functions of C and C++\<close>

definition bytes_of_string :: "string \<Rightarrow> byte list" where
  "bytes_of_string s = map of_char s"

text \<open>\<^verbatim>\<open>strncmp(a, b, n)\<close>: it stops at the first difference, at a NUL in both, or after n bytes.\<close>

fun strncmp :: "byte list \<Rightarrow> byte list \<Rightarrow> nat \<Rightarrow> int" where
  "strncmp xs ys 0 = 0"
| "strncmp (x # xs) (y # ys) (Suc n) =
     (if x = y then (if x = 0 then 0 else strncmp xs ys n) else uint x - uint y)"
| "strncmp [] (y # ys) (Suc n) = - uint y"
| "strncmp (x # xs) [] (Suc n) = uint x"
| "strncmp [] [] (Suc n) = 0"

text \<open>\<^verbatim>\<open>std::count_if\<close> over a list.\<close>

fun count_if :: "('a \<Rightarrow> bool) \<Rightarrow> 'a list \<Rightarrow> nat" where
  "count_if p [] = 0"
| "count_if p (x # xs) = (if p x then Suc (count_if p xs) else count_if p xs)"

section \<open>Collections of facts\<close>

named_theorems run_simps \<open>evaluation of runs that may fault\<close>
named_theorems mem_simps \<open>reading and writing cells\<close>
named_theorems shbk_defs \<open>definitions that every proof of a component unfolds\<close>

lemma bind_run_simps [simp, run_simps]:
  "bind_run (Inl e) f = Inl e"
  "bind_run (Inr x) f = f x"
  by (simp_all add: bind_run_def)

lemma bind_run_Inr_conv:
  "bind_run m f = Inr y \<longleftrightarrow> (\<exists>x. m = Inr x \<and> f x = Inr y)"
  by (cases m) auto

lemma bind_run_Inl_conv:
  "bind_run m f = Inl e \<longleftrightarrow> m = Inl e \<or> (\<exists>x. m = Inr x \<and> f x = Inl e)"
  by (cases m) auto

lemma guard_run_simps [simp, run_simps]:
  "guard_run e True m = m"
  "guard_run e False m = Inl e"
  by (simp_all add: guard_run_def)

lemma deref_simps [simp, run_simps]:
  "deref None = Inl Null_deref"
  "deref (Some x) = Inr x"
  by (simp_all add: deref_def)

lemma deref_Inr_conv: "deref p = Inr x \<longleftrightarrow> p = Some x"
  by (cases p) auto

lemma load_Inr_conv: "load h a = Inr x \<longleftrightarrow> h a = Some x"
  by (simp add: load_def split: option.split)

lemma load_Inl_conv: "load h a = Inl e \<longleftrightarrow> h a = None \<and> e = Use_after_free"
  by (auto simp: load_def split: option.split)

section \<open>Facts about memory\<close>

lemma length_new_array [simp, mem_simps]: "length (new_array n) = n"
  by (simp add: new_array_def)

lemma write_cells_Inr_conv:
  "write_cells cs off bs = Inr cs' \<longleftrightarrow>
     off + length bs \<le> length cs \<and> cs' = take off cs @ map Some bs @ drop (off + length bs) cs"
  by (auto simp: write_cells_def)

lemma write_cells_length:
  "write_cells cs off bs = Inr cs' \<Longrightarrow> length cs' = length cs"
  by (auto simp: write_cells_Inr_conv)

text \<open>A prefix of cells that is initialised with given bytes.\<close>

definition holds_prefix :: "cells \<Rightarrow> byte list \<Rightarrow> bool" where
  "holds_prefix cs bs \<longleftrightarrow> take (length bs) cs = map Some bs"

lemma holds_prefix_Nil [simp, mem_simps]: "holds_prefix cs []"
  by (simp add: holds_prefix_def)

lemma holds_prefix_length: "holds_prefix cs bs \<Longrightarrow> length bs \<le> length cs"
  unfolding holds_prefix_def by (metis length_map length_take min.cobounded1)

lemma holds_prefix_write:
  assumes "holds_prefix cs bs" and "length bs + length bs' \<le> length cs"
  shows "\<exists>cs'. write_cells cs (length bs) bs' = Inr cs' \<and> holds_prefix cs' (bs @ bs')
              \<and> length cs' = length cs"
  using assms by (auto simp: write_cells_def holds_prefix_def)

lemma read_cells_holds_prefix:
  assumes "holds_prefix cs bs" and "off + n \<le> length bs"
  shows "read_cells cs off n = Inr (take n (drop off bs))"
proof -
  have len: "off + n \<le> length cs"
    using assms holds_prefix_length le_trans by blast
  have "take n (drop off cs) = take n (drop off (take (length bs) cs))"
    using assms(2) by (simp add: drop_take min_def)
  also have "\<dots> = map Some (take n (drop off bs))"
    using assms(1) by (simp add: holds_prefix_def take_map drop_map)
  finally have eq: "take n (drop off cs) = map Some (take n (drop off bs))" .
  show ?thesis
    by (simp add: read_cells_def len eq comp_def)
qed

lemma holds_prefix_full: "holds_prefix cs bs \<Longrightarrow> length bs = length cs \<Longrightarrow> cs = map Some bs"
  by (simp add: holds_prefix_def)

section \<open>Facts about little-endian integers\<close>

locale fixed_codec =
  fixes enc :: "'a \<Rightarrow> byte list" and dec :: "byte list \<Rightarrow> 'a" and width :: nat
  assumes enc_width: "length (enc x) = width"
    and dec_enc: "dec (enc x) = x"
begin

lemma enc_inj: "enc x = enc y \<Longrightarrow> x = y"
  by (metis dec_enc)

lemma dec_take_append: "dec (take width (enc x @ rest)) = x"
  by (simp add: enc_width dec_enc)

lemma drop_enc_append: "drop width (enc x @ rest) = rest"
  by (simp add: enc_width)

end

lemma length_le_bytes [simp, mem_simps]: "length (le_bytes n w) = n"
  by (induction n arbitrary: w) auto

lemma un_le_le_bytes: "un_le (le_bytes n w) = take_bit (8 * n) w" for w :: "'a::len word"
proof (induction n arbitrary: w)
  case 0
  then show ?case by simp
next
  case (Suc n)
  show ?case
  proof (rule bit_word_eqI)
    fix k assume k: "k < LENGTH('a)"
    show "bit (un_le (le_bytes (Suc n) w) :: 'a word) k = bit (take_bit (8 * Suc n) w) k"
      using k by (cases "k < 8")
        (auto simp: Suc.IH bit_or_iff bit_push_bit_iff bit_unsigned_iff bit_take_bit_iff
           bit_drop_bit_eq)
  qed
qed

lemma le_bytes_un_le:
  "8 * length bs \<le> LENGTH('a::len) \<Longrightarrow> le_bytes (length bs) (un_le bs :: 'a word) = bs"
proof (induction bs)
  case Nil
  then show ?case by simp
next
  case (Cons b bs)
  let ?w = "un_le bs :: 'a word"
  have small: "take_bit (8 * length bs) ?w = ?w"
    using un_le_le_bytes [of "length bs" ?w] Cons by simp
  have "ucast (ucast b OR push_bit 8 ?w) = b"
    using Cons.prems
    by (intro bit_word_eqI) (auto simp: bit_unsigned_iff bit_or_iff bit_push_bit_iff)
  moreover have "drop_bit 8 (ucast b OR push_bit 8 ?w) = ?w"
  proof (rule bit_word_eqI)
    fix k assume "k < LENGTH('a)"
    have "bit ?w k \<Longrightarrow> k < 8 * length bs"
      by (metis bit_take_bit_iff small)
    with Cons.prems show "bit (drop_bit 8 (ucast b OR push_bit 8 ?w)) k = bit ?w k"
      by (auto simp: bit_drop_bit_eq bit_or_iff bit_push_bit_iff bit_unsigned_iff
          dest: bit_imp_le_length)
  qed
  ultimately show ?case
    using Cons by simp
qed

interpretation le16: fixed_codec "le_bytes 2 :: u16 \<Rightarrow> byte list" un_le 2
  by unfold_locales (simp_all add: un_le_le_bytes take_bit_length_eq [where 'a = 16, simplified])

interpretation le32: fixed_codec "le_bytes 4 :: u32 \<Rightarrow> byte list" un_le 4
  by unfold_locales (simp_all add: un_le_le_bytes take_bit_length_eq [where 'a = 32, simplified])

section \<open>Facts about words\<close>

lemma unat_lt_u32: "unat (w :: u32) < 4294967296"
  using unsigned_less [where w = w and 'a = nat] by simp

lemma unat_of_nat_u32: "n < 4294967296 \<Longrightarrow> unat (of_nat n :: u32) = n"
  by (simp add: unat_of_nat)

lemma sint_unat_small:
  assumes "unat (w :: i32) < 2147483648"
  shows "sint w = int (unat w)"
proof -
  have "int (unat w) < 2147483648" using assms by linarith
  then have "uint w < 2147483648" by simp
  moreover have "- 2147483648 \<le> uint w" by (rule order_trans [of _ 0]) simp_all
  ultimately have "signed_take_bit 31 (uint w) = uint w"
    by (intro signed_take_bit_int_eq_self) simp_all
  then show ?thesis by (simp add: sint_uint)
qed

section \<open>Facts about the library functions\<close>

lemma length_bytes_of_string [simp]: "length (bytes_of_string s) = length s"
  by (simp add: bytes_of_string_def)

text \<open>
  Against a pattern without a NUL byte, \<^const>\<open>strncmp\<close> over its whole length decides
  whether the bytes start with the pattern.
\<close>

lemma strncmp_pattern:
  "0 \<notin> set ys \<Longrightarrow> strncmp xs ys (length ys) = 0 \<longleftrightarrow> take (length ys) xs = ys"
proof (induction ys arbitrary: xs)
  case Nil
  then show ?case by simp
next
  case (Cons y ys)
  then show ?case
    by (cases xs) (auto simp: uint_0_iff dest: word_uint_eqI)
qed

lemma count_if_eq: "count_if p xs = length (filter p xs)"
  by (induction xs) auto

lemma count_if_append: "count_if p (xs @ ys) = count_if p xs + count_if p ys"
  by (simp add: count_if_eq)

lemma count_if_le: "count_if p xs \<le> length xs"
  by (simp add: count_if_eq)

lemma count_if_update_False:
  "i < length xs \<Longrightarrow> p (xs ! i) \<Longrightarrow> \<not> p y \<Longrightarrow> Suc (count_if p (xs[i := y])) = count_if p xs"
proof (induction xs arbitrary: i)
  case Nil
  then show ?case by simp
next
  case (Cons x xs)
  then show ?case by (cases i) auto
qed

lemma count_if_update_True:
  "i < length xs \<Longrightarrow> \<not> p (xs ! i) \<Longrightarrow> p y \<Longrightarrow> count_if p (xs[i := y]) = Suc (count_if p xs)"
proof (induction xs arbitrary: i)
  case Nil
  then show ?case by simp
next
  case (Cons x xs)
  then show ?case by (cases i) auto
qed

lemma count_if_all: "count_if p xs = length xs \<longleftrightarrow> (\<forall>i < length xs. p (xs ! i))"
proof (induction xs)
  case Nil
  then show ?case by simp
next
  case (Cons x xs)
  have "count_if p xs \<le> length xs" by (rule count_if_le)
  with Cons show ?case
    by (auto simp: less_Suc_eq_0_disj)
qed

text \<open>Replacing an element of a list, seen as multisets of the selected elements.\<close>

lemma mset_map_filter_update:
  assumes "i < length xs"
  shows "mset (List.map_filter f (xs[i := y])) + mset (List.map_filter f [xs ! i]) =
         mset (List.map_filter f xs) + mset (List.map_filter f [y])"
proof -
  have xs: "xs = take i xs @ xs ! i # drop (Suc i) xs"
    by (rule id_take_nth_drop [OF assms])
  have up: "xs[i := y] = take i xs @ y # drop (Suc i) xs"
    using assms by (rule upd_conv_take_nth_drop)
  have app: "List.map_filter f (us @ vs) = List.map_filter f us @ List.map_filter f vs" for us vs
    by (induction us) (simp_all add: map_filter_simps split: option.split)
  have "mset (List.map_filter f xs) = mset (List.map_filter f (take i xs)) +
      mset (List.map_filter f [xs ! i]) + mset (List.map_filter f (drop (Suc i) xs))"
    by (subst xs) (simp add: app map_filter_simps split: option.split)
  moreover have "mset (List.map_filter f (xs[i := y])) = mset (List.map_filter f (take i xs)) +
      mset (List.map_filter f [y]) + mset (List.map_filter f (drop (Suc i) xs))"
    by (subst up) (simp add: app map_filter_simps split: option.split)
  ultimately show ?thesis by (simp add: ac_simps)
qed

lemma sum_list_update_nat:
  fixes f :: "'a \<Rightarrow> nat"
  assumes "i < length xs"
  shows "sum_list (map f (xs[i := y])) + f (xs ! i) = sum_list (map f xs) + f y"
proof -
  have "xs = take i xs @ xs ! i # drop (Suc i) xs" "xs[i := y] = take i xs @ y # drop (Suc i) xs"
    using assms by (simp_all add: id_take_nth_drop upd_conv_take_nth_drop)
  then have "sum_list (map f xs) = sum_list (map f (take i xs)) + f (xs ! i) + sum_list (map f (drop (Suc i) xs))"
      "sum_list (map f (xs[i := y])) = sum_list (map f (take i xs)) + f y + sum_list (map f (drop (Suc i) xs))"
    by (metis add.assoc list.simps(9) map_append sum_list.Cons sum_list_append)+
  then show ?thesis by simp
qed

end
