(* ===== verification/Globals.thy ===== *)
theory Globals
  imports Prelude
begin

text \<open>
  \<^verbatim>\<open>src/globals\<close>: the error codes of a response and the table of their descriptions.
\<close>

datatype ErrorCode = kSuccess | kInvalidData | kMethodNotAllowed | kProcessFailed

fun ErrorCode_value :: "ErrorCode \<Rightarrow> i32" where
  "ErrorCode_value kSuccess = 200"
| "ErrorCode_value kInvalidData = 400"
| "ErrorCode_value kMethodNotAllowed = 401"
| "ErrorCode_value kProcessFailed = 402"

definition kErrorCodeDescMap :: "(ErrorCode \<times> string) list" where
  "kErrorCodeDescMap =
     [(kSuccess, ''ok.''),
      (kInvalidData, ''invalid data.''),
      (kMethodNotAllowed, ''method not allowed.''),
      (kProcessFailed, ''Process failed.'')]"

text \<open>\<^verbatim>\<open>unordered_map::at\<close> throws for a missing key.\<close>

definition desc_at :: "ErrorCode \<Rightarrow> exn + string" where
  "desc_at c = (case map_of kErrorCodeDescMap c of
                  None \<Rightarrow> Inl (Out_of_range ''unordered_map::at'') | Some s \<Rightarrow> Inr s)"

text \<open>The description of a code, where the table has it.\<close>

fun ErrorCode_desc :: "ErrorCode \<Rightarrow> string" where
  "ErrorCode_desc kSuccess = ''ok.''"
| "ErrorCode_desc kInvalidData = ''invalid data.''"
| "ErrorCode_desc kMethodNotAllowed = ''method not allowed.''"
| "ErrorCode_desc kProcessFailed = ''Process failed.''"

lemma desc_at_total: "desc_at c = Inr (ErrorCode_desc c)"
  by (cases c) (simp_all add: desc_at_def kErrorCodeDescMap_def)

lemma ErrorCode_value_inj: "ErrorCode_value c = ErrorCode_value c' \<longleftrightarrow> c = c'"
  by (cases c; cases c') simp_all

end
