(* ===== verification/Libevent.thy ===== *)
theory Libevent
  imports Prelude
begin

text \<open>
  The buffered sockets of libevent, which is not part of the repository. The model takes
  its functions as an argument: a record of the calls the sources make on a
  \<^verbatim>\<open>bufferevent\<close> of an arbitrary type. What the sources rely on is the predicate
  \<open>libevent_ok\<close>: the documented behaviour of reading, writing and receiving, stated over
  the contents of the input and output buffers. The last section gives a concrete
  instance, used where a theorem is evaluated on concrete data.
\<close>

record 'b libevent =
  bufferevent_socket_new :: "i32 \<Rightarrow> 'b"
  bufferevent_read :: "'b \<Rightarrow> nat \<Rightarrow> byte list \<times> 'b"
  evbuffer_get_length :: "'b \<Rightarrow> nat"
  bufferevent_write :: "'b \<Rightarrow> byte list \<Rightarrow> 'b"
  socket_readable :: "'b \<Rightarrow> byte list \<Rightarrow> 'b"
  input_of :: "'b \<Rightarrow> byte list"
  output_of :: "'b \<Rightarrow> byte list"

text \<open>
  \<^const>\<open>bufferevent_read\<close> removes at most the requested number of bytes from the front of
  the input buffer and returns them; \<^const>\<open>bufferevent_write\<close> appends to the output
  buffer; the event loop appends what the socket delivers to the input buffer
  (\<^const>\<open>socket_readable\<close>) before it runs the read callback.
\<close>

definition read_ok :: "'b libevent \<Rightarrow> bool" where
  "read_ok ev \<longleftrightarrow> (\<forall>b n.
     fst (bufferevent_read ev b n) = take n (input_of ev b) \<and>
     input_of ev (snd (bufferevent_read ev b n)) = drop n (input_of ev b) \<and>
     output_of ev (snd (bufferevent_read ev b n)) = output_of ev b)"

definition length_ok :: "'b libevent \<Rightarrow> bool" where
  "length_ok ev \<longleftrightarrow> (\<forall>b. evbuffer_get_length ev b = length (input_of ev b))"

definition write_ok :: "'b libevent \<Rightarrow> bool" where
  "write_ok ev \<longleftrightarrow> (\<forall>b bs.
     output_of ev (bufferevent_write ev b bs) = output_of ev b @ bs \<and>
     input_of ev (bufferevent_write ev b bs) = input_of ev b)"

definition receive_ok :: "'b libevent \<Rightarrow> bool" where
  "receive_ok ev \<longleftrightarrow> (\<forall>b bs.
     input_of ev (socket_readable ev b bs) = input_of ev b @ bs \<and>
     output_of ev (socket_readable ev b bs) = output_of ev b)"

definition new_ok :: "'b libevent \<Rightarrow> bool" where
  "new_ok ev \<longleftrightarrow> (\<forall>fd. input_of ev (bufferevent_socket_new ev fd) = [] \<and>
     output_of ev (bufferevent_socket_new ev fd) = [])"

definition libevent_ok :: "'b libevent \<Rightarrow> bool" where
  "libevent_ok ev \<longleftrightarrow> read_ok ev \<and> length_ok ev \<and> write_ok ev \<and> receive_ok ev \<and> new_ok ev"

text \<open>A bufferevent as a pair of byte queues.\<close>

definition mem_libevent :: "(byte list \<times> byte list) libevent" where
  "mem_libevent =
     \<lparr>bufferevent_socket_new = (\<lambda>_. ([], [])),
      bufferevent_read = (\<lambda>(i, q) n. (take n i, (drop n i, q))),
      evbuffer_get_length = (\<lambda>(i, _). length i),
      bufferevent_write = (\<lambda>(i, q) bs. (i, q @ bs)),
      socket_readable = (\<lambda>(i, q) bs. (i @ bs, q)),
      input_of = fst, output_of = snd\<rparr>"

lemma libevent_okD:
  assumes "libevent_ok ev"
  shows "fst (bufferevent_read ev b n) = take n (input_of ev b)"
    and "input_of ev (snd (bufferevent_read ev b n)) = drop n (input_of ev b)"
    and "output_of ev (snd (bufferevent_read ev b n)) = output_of ev b"
    and "evbuffer_get_length ev b = length (input_of ev b)"
    and "output_of ev (bufferevent_write ev b bs) = output_of ev b @ bs"
    and "input_of ev (bufferevent_write ev b bs) = input_of ev b"
    and "input_of ev (socket_readable ev b bs) = input_of ev b @ bs"
    and "output_of ev (socket_readable ev b bs) = output_of ev b"
    and "input_of ev (bufferevent_socket_new ev fd) = []"
    and "output_of ev (bufferevent_socket_new ev fd) = []"
  using assms
  by (simp_all add: libevent_ok_def read_ok_def length_ok_def write_ok_def receive_ok_def new_ok_def)

lemma mem_libevent_ok [simp]: "libevent_ok mem_libevent"
  by (simp add: libevent_ok_def read_ok_def length_ok_def write_ok_def receive_ok_def new_ok_def
      mem_libevent_def split_beta)

end
