(* ===== verification/Session_Buffer.thy ===== *)
theory Session_Buffer
  imports Libevent
begin

text \<open>
  \<^verbatim>\<open>src/session\<close>: the request buffer of a connection (class \<^verbatim>\<open>Buffer\<close>) and the session
  object of a connection (class \<^verbatim>\<open>Session\<close>). The memory behind a buffer is an array of
  cells that stay uninitialised until they are written; the buffer's contents are the
  first \<^verbatim>\<open>last_\<close> cells.
\<close>

section \<open>Class Buffer\<close>

record Buffer =
  buf_total :: u32
  buf_last :: u32
  buf_ptr :: "cells option"

definition Buffer_new :: Buffer where
  "Buffer_new = \<lparr>buf_total = 0, buf_last = 0, buf_ptr = None\<rparr>"

definition IncrementLast :: "Buffer \<Rightarrow> u32 \<Rightarrow> Buffer" where
  "IncrementLast b num = b\<lparr>buf_last := buf_last b + num\<rparr>"

definition IsEnough :: "Buffer \<Rightarrow> bool" where
  "IsEnough b \<longleftrightarrow> buf_last b = buf_total b"

definition Alloc :: "Buffer \<Rightarrow> u32 \<Rightarrow> bool \<times> Buffer" where
  "Alloc b sz =
     (if buf_ptr b \<noteq> None then (False, b)
      else (True, b\<lparr>buf_total := sz, buf_last := 0, buf_ptr := Some (new_array (unat sz))\<rparr>))"

definition Reset :: "Buffer \<Rightarrow> Buffer" where
  "Reset b =
     (if buf_ptr b = None then b
      else b\<lparr>buf_total := 0, buf_last := 0, buf_ptr := None\<rparr>)"

definition Realloc :: "Buffer \<Rightarrow> u32 \<Rightarrow> Buffer" where
  "Realloc b sz =
     (if buf_ptr b = None then snd (Alloc b sz)
      else b\<lparr>buf_total := sz, buf_last := 0, buf_ptr := Some (new_array (unat sz))\<rparr>)"

section \<open>Class Session\<close>

text \<open>
  \<^verbatim>\<open>EventType\<close> is an enumeration with underlying type \<^verbatim>\<open>uint16_t\<close>, and a session's event
  type is cast from two bytes of the peer, so every 16-bit value can occur. It is not
  initialised by the constructor.
\<close>

type_synonym EventType = u16

datatype State = WAITING_REQUEST | PARSING_HEAD | PARSING_BODY | HANDLING

record 'b Session =
  s_socket :: i32
  s_ip :: string
  s_port :: u16
  s_count :: u8
  s_bufev :: "'b option"
  s_event_type :: "EventType option"
  s_req_buf :: Buffer
  s_stat :: State
  s_identifier :: i32
  s_phone_number :: string
  s_is_login :: bool

definition Session_new :: "i32 \<Rightarrow> string \<Rightarrow> u16 \<Rightarrow> 'b Session" where
  "Session_new socket ip port =
     \<lparr>s_socket = socket, s_ip = ip, s_port = port, s_count = 0, s_bufev = None,
      s_event_type = None, s_req_buf = Buffer_new, s_stat = WAITING_REQUEST,
      s_identifier = 0, s_phone_number = [], s_is_login = False\<rparr>"

definition IncrementCount :: "'b Session \<Rightarrow> 'b Session" where
  "IncrementCount s = s\<lparr>s_count := s_count s + 1\<rparr>"

definition set_bufev :: "'b Session \<Rightarrow> 'b \<Rightarrow> 'b Session" where
  "set_bufev s bufev = s\<lparr>s_bufev := Some bufev\<rparr>"

definition set_state :: "'b Session \<Rightarrow> State \<Rightarrow> 'b Session" where
  "set_state s st = s\<lparr>s_stat := st\<rparr>"

definition set_event_type :: "'b Session \<Rightarrow> EventType \<Rightarrow> 'b Session" where
  "set_event_type s t = s\<lparr>s_event_type := Some t\<rparr>"

definition set_identifier :: "'b Session \<Rightarrow> i32 \<Rightarrow> 'b Session" where
  "set_identifier s i = s\<lparr>s_identifier := i\<rparr>"

definition set_phone_number :: "'b Session \<Rightarrow> string \<Rightarrow> 'b Session" where
  "set_phone_number s p = s\<lparr>s_phone_number := p\<rparr>"

section \<open>The contents of a buffer and its invariant\<close>

definition buf_got :: "Buffer \<Rightarrow> byte list" where
  "buf_got b = (case buf_ptr b of None \<Rightarrow> [] | Some cs \<Rightarrow> map the (take (unat (buf_last b)) cs))"

definition buf_inv :: "Buffer \<Rightarrow> bool" where
  "buf_inv b \<longleftrightarrow> (case buf_ptr b of
      None \<Rightarrow> buf_total b = 0 \<and> buf_last b = 0
    | Some cs \<Rightarrow> length cs = unat (buf_total b) \<and> buf_last b \<le> buf_total b \<and>
                 None \<notin> set (take (unat (buf_last b)) cs))"

text \<open>
  Storing received bytes: they are written behind the bytes already there and counted,
  as both reads of \<^verbatim>\<open>MsgProxy::Pack\<close> do.
\<close>

definition buf_fill :: "Buffer \<Rightarrow> byte list \<Rightarrow> Buffer run" where
  "buf_fill b bs =
     bind_run (deref (buf_ptr b)) (\<lambda>cs.
     bind_run (write_cells cs (unat (buf_last b)) bs) (\<lambda>cs'.
     Inr (IncrementLast (b\<lparr>buf_ptr := Some cs'\<rparr>) (of_nat (length bs)))))"

fun buf_fill_all :: "Buffer \<Rightarrow> byte list list \<Rightarrow> Buffer run" where
  "buf_fill_all b [] = Inr b"
| "buf_fill_all b (bs # bss) = bind_run (buf_fill b bs) (\<lambda>b'. buf_fill_all b' bss)"

text \<open>
  The interface \<^verbatim>\<open>MsgProxy\<close> relies on: a receiver of at most \<open>cap\<close> bytes that keeps the
  bytes in the order of their arrival, however they are cut into pieces.
\<close>

locale receiver =
  fixes invar :: "'q \<Rightarrow> bool"
    and cap :: "'q \<Rightarrow> nat"
    and got :: "'q \<Rightarrow> byte list"
    and full :: "'q \<Rightarrow> bool"
    and fill :: "'q \<Rightarrow> byte list \<Rightarrow> 'q run"
  assumes got_le_cap: "invar q \<Longrightarrow> length (got q) \<le> cap q"
    and full_iff: "invar q \<Longrightarrow> full q \<longleftrightarrow> length (got q) = cap q"
    and fill_ok: "invar q \<Longrightarrow> 0 < cap q \<Longrightarrow> length (got q) + length bs \<le> cap q \<Longrightarrow>
       \<exists>q'. fill q bs = Inr q' \<and> invar q' \<and> cap q' = cap q \<and> got q' = got q @ bs"
begin

lemma fill_full_iff:
  assumes "invar q" and "0 < cap q" and "length (got q) + length bs \<le> cap q"
  shows "\<exists>q'. fill q bs = Inr q' \<and> got q' = got q @ bs \<and>
              (full q' \<longleftrightarrow> length (got q) + length bs = cap q)"
  using fill_ok [OF assms] full_iff by (metis length_append)

lemma fold_fill:
  assumes "invar q" and "0 < cap q" and "length (got q) + length (concat bss) \<le> cap q"
  shows "\<exists>q'. foldl (\<lambda>m bs. bind_run m (\<lambda>r. fill r bs)) (Inr q) bss = Inr q' \<and> invar q' \<and>
              cap q' = cap q \<and> got q' = got q @ concat bss"
  using assms
proof (induction bss arbitrary: q)
  case Nil
  then show ?case by simp
next
  case (Cons bs bss)
  have "length (got q) + length bs \<le> cap q"
    using Cons.prems(3) by simp
  then obtain q1 where q1: "fill q bs = Inr q1" "invar q1" "cap q1 = cap q" "got q1 = got q @ bs"
    using fill_ok Cons.prems(1,2) by blast
  have "\<exists>q'. foldl (\<lambda>m bs. bind_run m (\<lambda>r. fill r bs)) (Inr q1) bss = Inr q' \<and> invar q' \<and>
              cap q' = cap q1 \<and> got q' = got q1 @ concat bss"
    by (rule Cons.IH) (use Cons.prems q1 in simp_all)
  with q1 show ?case by simp
qed

end

section \<open>Facts about buffers\<close>

lemma buf_inv_new [simp, intro]: "buf_inv Buffer_new"
  by (simp add: buf_inv_def Buffer_new_def)

lemma buf_got_new [simp]: "buf_got Buffer_new = []"
  by (simp add: buf_got_def Buffer_new_def)

lemma buf_inv_Alloc: "buf_inv b \<Longrightarrow> buf_inv (snd (Alloc b n))"
  by (simp add: buf_inv_def Alloc_def split: option.splits)

lemma buf_inv_Reset: "buf_inv b \<Longrightarrow> buf_inv (Reset b)"
  by (auto simp: buf_inv_def Reset_def)

lemma buf_inv_Realloc: "buf_inv b \<Longrightarrow> buf_inv (Realloc b n)"
  by (simp add: buf_inv_def Realloc_def Alloc_def split: option.splits)

lemma Realloc_fresh:
  "buf_total (Realloc b n) = n" "buf_last (Realloc b n) = 0"
  "buf_ptr (Realloc b n) = Some (new_array (unat n))" "buf_got (Realloc b n) = []"
  by (simp_all add: Realloc_def Alloc_def buf_got_def)

lemma Alloc_fresh:
  assumes "buf_ptr b = None"
  shows "buf_total (snd (Alloc b n)) = n" "buf_last (snd (Alloc b n)) = 0"
    "buf_ptr (snd (Alloc b n)) = Some (new_array (unat n))" "buf_got (snd (Alloc b n)) = []"
    "fst (Alloc b n)"
  using assms by (simp_all add: Alloc_def buf_got_def)

lemma Reset_ptr [simp]: "buf_ptr (Reset b) = None"
  by (simp add: Reset_def)

lemma length_buf_got: "buf_inv b \<Longrightarrow> length (buf_got b) = unat (buf_last b)"
  by (auto simp: buf_inv_def buf_got_def word_le_nat_alt split: option.splits)

lemma buf_inv_holds_prefix:
  assumes "buf_inv b" and "buf_ptr b = Some cs"
  shows "holds_prefix cs (buf_got b)"
proof -
  have "unat (buf_last b) \<le> length cs" and "None \<notin> set (take (unat (buf_last b)) cs)"
    using assms by (auto simp: buf_inv_def word_le_nat_alt)
  moreover have "map (\<lambda>x. Some (the x)) xs = xs" if "None \<notin> set xs" for xs :: cells
    using that by (induction xs) auto
  ultimately show ?thesis
    using assms by (simp add: holds_prefix_def buf_got_def min_def comp_def)
qed

lemma buf_invI:
  assumes "length cs = unat n" and "holds_prefix cs bs" and "unat m = length bs"
  shows "buf_inv \<lparr>buf_total = n, buf_last = m, buf_ptr = Some cs\<rparr>"
    and "buf_got \<lparr>buf_total = n, buf_last = m, buf_ptr = Some cs\<rparr> = bs"
  using assms holds_prefix_length [OF assms(2)]
  by (auto simp: buf_inv_def buf_got_def word_le_nat_alt holds_prefix_def comp_def)

lemma buf_fill_ok:
  assumes inv: "buf_inv b" and ptr: "buf_ptr b \<noteq> None"
    and room: "length (buf_got b) + length bs \<le> unat (buf_total b)"
  shows "\<exists>b'. buf_fill b bs = Inr b' \<and> buf_inv b' \<and> buf_total b' = buf_total b \<and>
              buf_ptr b' \<noteq> None \<and> buf_got b' = buf_got b @ bs"
proof -
  obtain cs where cs: "buf_ptr b = Some cs" using ptr by auto
  have pre: "holds_prefix cs (buf_got b)" by (rule buf_inv_holds_prefix [OF inv cs])
  have len: "length cs = unat (buf_total b)" using inv cs by (simp add: buf_inv_def)
  have last: "unat (buf_last b) = length (buf_got b)" using length_buf_got [OF inv] by simp
  obtain cs' where cs': "write_cells cs (unat (buf_last b)) bs = Inr cs'"
      "holds_prefix cs' (buf_got b @ bs)" "length cs' = length cs"
    using holds_prefix_write [OF pre, of bs] room len last by auto
  have "length (buf_got b) + length bs < 2 ^ 32"
    using room unat_lt_u32 [of "buf_total b"] by simp
  then have "unat (buf_last b + of_nat (length bs)) = length (buf_got b @ bs)"
    using last by (simp add: unat_word_ariths unat_of_nat)
  from buf_invI [OF _ cs'(2) this, of "buf_total b"] show ?thesis
    by (cases b) (use cs cs' len in \<open>auto simp: buf_fill_def IncrementLast_def\<close>)
qed

interpretation req: receiver "\<lambda>b. buf_inv b" "\<lambda>b. unat (buf_total b)" buf_got IsEnough buf_fill
proof
  fix b bs
  show "length (buf_got b) \<le> unat (buf_total b)" if "buf_inv b"
    using that by (auto simp: length_buf_got buf_inv_def word_le_nat_alt split: option.splits)
  show "IsEnough b \<longleftrightarrow> length (buf_got b) = unat (buf_total b)" if "buf_inv b"
    using that by (simp add: length_buf_got IsEnough_def word_unat_eq_iff)
  show "\<exists>q'. buf_fill b bs = Inr q' \<and> buf_inv q' \<and> unat (buf_total q') = unat (buf_total b) \<and>
             buf_got q' = buf_got b @ bs"
    if "buf_inv b" "0 < unat (buf_total b)" "length (buf_got b) + length bs \<le> unat (buf_total b)"
  proof -
    have "buf_ptr b \<noteq> None"
      using that(1,2) by (auto simp: buf_inv_def split: option.splits)
    from buf_fill_ok [OF that(1) this that(3)] show ?thesis by auto
  qed
qed

lemma buf_fill_all_foldl:
  "buf_fill_all b bss = foldl (\<lambda>m bs. bind_run m (\<lambda>r. buf_fill r bs)) (Inr b) bss"
proof -
  have "foldl (\<lambda>m bs. bind_run m (\<lambda>r. buf_fill r bs)) m bss = bind_run m (\<lambda>b. buf_fill_all b bss)" for m
  proof (induction bss arbitrary: m)
    case Nil
    then show ?case by (cases m) auto
  next
    case (Cons bs bss)
    then show ?case by (cases m) auto
  qed
  then show ?thesis by simp
qed

end
