(* ===== verification/Pb_Runtime.thy ===== *)
theory Pb_Runtime
  imports Prelude
begin

text \<open>
  The runtime of Protocol Buffers, which the generated classes of \<^verbatim>\<open>src/shbk2pb\<close> call and
  which is not part of the repository: the size and write functions of the wire format,
  the table-driven parse loop, and the entry points \<^verbatim>\<open>ByteSize\<close> and \<^verbatim>\<open>SerializeToArray\<close> of
  \<^verbatim>\<open>MessageLite\<close>. They are fields of a record that the generated code takes as an argument;
  \<open>runtime_ok\<close> states the documented behaviour the generated code relies on. The last
  section implements the wire format of int32 and string fields, as a concrete instance.
\<close>

section \<open>The interface of the runtime\<close>

datatype pb_value = VInt32 i32 | VString string

datatype pb_kind = KInt32 | KRawString

text \<open>A field entry of a parse table: field number, index of its has-bit, kind.\<close>

record tc_field =
  tc_number :: nat
  tc_hasbit :: nat
  tc_kind :: pb_kind

text \<open>
  \<open>ParseLoop\<close> writes the fields it decodes through the parse table into the message. It
  is represented by the sequence of stores it makes, the unknown fields it collects (in
  their wire encoding), and whether it accepted the input.
\<close>

record pb_runtime =
  StringSize :: "string \<Rightarrow> nat"
  Int32SizePlusOne :: "i32 \<Rightarrow> nat"
  WriteString :: "nat \<Rightarrow> string \<Rightarrow> byte list"
  WriteInt32 :: "nat \<Rightarrow> i32 \<Rightarrow> byte list"
  ParseLoop :: "tc_field list \<Rightarrow> byte list \<Rightarrow> (nat \<times> pb_value) list \<times> byte list \<times> bool"
  ByteSizeInt :: "nat \<Rightarrow> i32"
  SerializeTo :: "bool \<Rightarrow> nat \<Rightarrow> byte list \<Rightarrow> i32 \<Rightarrow> bool \<times> byte list"

definition has_field :: "tc_field list \<Rightarrow> nat \<Rightarrow> pb_kind \<Rightarrow> bool" where
  "has_field T n k \<longleftrightarrow> (\<exists>f \<in> set T. tc_number f = n \<and> tc_kind f = k)"

definition table_numbers_ok :: "tc_field list \<Rightarrow> bool" where
  "table_numbers_ok T \<longleftrightarrow> distinct (map tc_number T) \<and> (\<forall>f \<in> set T. 1 \<le> tc_number f \<and> tc_number f \<le> 15)"

text \<open>
  Documented behaviour of the wire format: a field number up to 15 makes a tag of one
  byte, and parsing what was written for a field of the table stores that value and goes
  on behind it.
\<close>

definition sizes_ok :: "('x) pb_runtime_scheme \<Rightarrow> bool" where
  "sizes_ok rt \<longleftrightarrow> (\<forall>n s v. 1 \<le> n \<longrightarrow> n \<le> 15 \<longrightarrow>
     length (WriteString rt n s) = 1 + StringSize rt s \<and>
     length (WriteInt32 rt n v) = Int32SizePlusOne rt v)"

definition parse_loop_ok :: "('x) pb_runtime_scheme \<Rightarrow> bool" where
  "parse_loop_ok rt \<longleftrightarrow> (\<forall>T. table_numbers_ok T \<longrightarrow>
     ParseLoop rt T [] = ([], [], True) \<and>
     (\<forall>n s bs. has_field T n KRawString \<longrightarrow>
        ParseLoop rt T (WriteString rt n s @ bs) =
          (case ParseLoop rt T bs of (st, u, r) \<Rightarrow> ((n, VString s) # st, u, r))) \<and>
     (\<forall>n v bs. has_field T n KInt32 \<longrightarrow>
        ParseLoop rt T (WriteInt32 rt n v @ bs) =
          (case ParseLoop rt T bs of (st, u, r) \<Rightarrow> ((n, VInt32 v) # st, u, r))))"

text \<open>
  \<^verbatim>\<open>ByteSize\<close> is the byte size as an \<^verbatim>\<open>int\<close>; \<^verbatim>\<open>SerializeToArray\<close> on an initialised message
  writes the serialised bytes when the array is large enough.
\<close>

definition entry_points_ok :: "('x) pb_runtime_scheme \<Rightarrow> bool" where
  "entry_points_ok rt \<longleftrightarrow>
     (\<forall>n. n < 2147483648 \<longrightarrow> unat (ByteSizeInt rt n) = n) \<and>
     (\<forall>bs sz. length bs < 2147483648 \<longrightarrow> int (length bs) \<le> sint sz \<longrightarrow>
        SerializeTo rt True (length bs) bs sz = (True, bs))"

text \<open>
  A varint of 64 bits takes at most ten bytes, the length of a string at most five.
\<close>

definition sizes_bounded :: "('x) pb_runtime_scheme \<Rightarrow> bool" where
  "sizes_bounded rt \<longleftrightarrow> (\<forall>v. Int32SizePlusOne rt v \<le> 11) \<and>
     (\<forall>s. length s < 2147483648 \<longrightarrow> StringSize rt s \<le> length s + 5)"

definition runtime_ok :: "('x) pb_runtime_scheme \<Rightarrow> bool" where
  "runtime_ok rt \<longleftrightarrow> sizes_ok rt \<and> parse_loop_ok rt \<and> entry_points_ok rt \<and> sizes_bounded rt"

section \<open>An implementation of the wire format\<close>

fun varint :: "nat \<Rightarrow> byte list" where
  "varint n = (if n < 128 then [of_nat n] else of_nat (n mod 128 + 128) # varint (n div 128))"

declare varint.simps [simp del]

fun un_varint :: "byte list \<Rightarrow> (nat \<times> byte list) option" where
  "un_varint [] = None"
| "un_varint (b # bs) =
     (if unat b < 128 then Some (unat b, bs)
      else (case un_varint bs of None \<Rightarrow> None
            | Some (v, r) \<Rightarrow> Some (unat b - 128 + 128 * v, r)))"

definition string_of_bytes :: "byte list \<Rightarrow> string" where
  "string_of_bytes bs = map (\<lambda>b. char_of (unat b)) bs"

definition int32_varint :: "i32 \<Rightarrow> byte list" where
  "int32_varint v = varint (unat (scast v :: u64))"

definition len_delimited :: "string \<Rightarrow> byte list" where
  "len_delimited s = varint (length s) @ bytes_of_string s"

definition wire_tag :: "nat \<Rightarrow> nat \<Rightarrow> byte" where
  "wire_tag n k = of_nat (8 * n + k)"

definition field_of :: "tc_field list \<Rightarrow> nat \<Rightarrow> pb_kind option" where
  "field_of T n = map_option tc_kind (find (\<lambda>f. tc_number f = n) T)"

text \<open>One field: its tag, then the value of the kind the table gives for its number.\<close>

definition parse_field :: "tc_field list \<Rightarrow> byte list \<Rightarrow> ((nat \<times> pb_value) \<times> byte list) option" where
  "parse_field T bs =
     (case un_varint bs of None \<Rightarrow> None
      | Some (tag, r) \<Rightarrow>
          (case un_varint r of None \<Rightarrow> None
           | Some (v, r') \<Rightarrow>
               (if tag mod 8 = 0 \<and> field_of T (tag div 8) = Some KInt32
                then Some ((tag div 8, VInt32 (of_nat v)), r')
                else if tag mod 8 = 2 \<and> field_of T (tag div 8) = Some KRawString \<and> v \<le> length r'
                then Some ((tag div 8, VString (string_of_bytes (take v r'))), drop v r')
                else None)))"

lemma un_varint_shorter: "un_varint bs = Some (v, r) \<Longrightarrow> length r < length bs"
  by (induction bs arbitrary: v r) (fastforce split: if_splits option.splits)+

lemma parse_field_shorter: "parse_field T bs = Some (x, r) \<Longrightarrow> length r < length bs"
  by (auto simp: parse_field_def split: option.splits prod.splits if_splits
      dest!: un_varint_shorter)

function wire_parse :: "tc_field list \<Rightarrow> byte list \<Rightarrow> (nat \<times> pb_value) list \<times> byte list \<times> bool" where
  "wire_parse T bs =
     (if bs = [] then ([], [], True)
      else (case parse_field T bs of None \<Rightarrow> ([], [], False)
            | Some (x, r) \<Rightarrow> (case wire_parse T r of (st, u, ok) \<Rightarrow> (x # st, u, ok))))"
  by pat_completeness auto
termination
  by (relation "measure (\<lambda>(T, bs). length bs)") (auto dest: parse_field_shorter)

declare wire_parse.simps [simp del]

definition wire_runtime :: pb_runtime where
  "wire_runtime =
     \<lparr>StringSize = (\<lambda>s. length (len_delimited s)),
      Int32SizePlusOne = (\<lambda>v. 1 + length (int32_varint v)),
      WriteString = (\<lambda>n s. wire_tag n 2 # len_delimited s),
      WriteInt32 = (\<lambda>n v. wire_tag n 0 # int32_varint v),
      ParseLoop = wire_parse,
      ByteSizeInt = (\<lambda>n. of_nat n),
      SerializeTo = (\<lambda>init n bs sz. if init \<and> int n \<le> sint sz then (True, bs) else (False, []))\<rparr>"

section \<open>The implementation has the documented behaviour\<close>

lemma un_varint_varint: "un_varint (varint n @ bs) = Some (n, bs)"
proof (induction n rule: varint.induct)
  case (1 n)
  show ?case
  proof (cases "n < 128")
    case True
    then show ?thesis
      by (subst varint.simps) (simp add: unat_of_nat)
  next
    case False
    have "n mod 128 + 128 < 256"
      using mod_less_divisor [of 128 n] by linarith
    then have u: "unat (of_nat (n mod 128 + 128) :: byte) = n mod 128 + 128"
      by (simp only: unat_of_nat) simp
    have "n mod 128 + 128 * (n div 128) = n" by simp
    with False u show ?thesis
      by (subst varint.simps) (simp add: 1 del: of_nat_add)
  qed
qed

lemma string_of_bytes_inverse: "string_of_bytes (bytes_of_string s) = s"
proof -
  have "char_of (unat (of_char c :: byte)) = c" for c
  proof -
    have "(of_char c :: nat) < 256"
      by (rule nat_of_char_less_256)
    then have "unat (of_nat (of_char c) :: byte) = (of_char c :: nat)"
      by (simp only: unat_of_nat) simp
    moreover have "(of_nat (of_char c) :: byte) = of_char c"
      by (rule of_nat_of_char)
    ultimately show ?thesis by simp
  qed
  then show ?thesis
    by (simp add: string_of_bytes_def bytes_of_string_def comp_def)
qed

lemma unat_of_nat_tag: "n \<le> 15 \<Longrightarrow> k < 8 \<Longrightarrow> unat (wire_tag n k) = 8 * n + k"
  by (simp only: wire_tag_def unat_of_nat) simp

lemma field_of_has_field:
  assumes "table_numbers_ok T" and "has_field T n k"
  shows "field_of T n = Some k" and "1 \<le> n" and "n \<le> 15"
proof -
  from assms(2) obtain f where f: "f \<in> set T" "tc_number f = n" "tc_kind f = k"
    by (auto simp: has_field_def)
  with assms(1) show "1 \<le> n" and "n \<le> 15"
    by (auto simp: table_numbers_ok_def)
  have "find (\<lambda>f. tc_number f = n) T = Some f"
    using f assms(1) unfolding table_numbers_ok_def
    by (induction T) (auto simp: image_iff)
  with f show "field_of T n = Some k"
    by (simp add: field_of_def)
qed

lemma wire_parse_cons:
  "parse_field T bs = Some (x, r) \<Longrightarrow>
     wire_parse T bs = (case wire_parse T r of (st, u, ok) \<Rightarrow> (x # st, u, ok))"
  using parse_field_shorter [of T bs x r]
  by (subst wire_parse.simps) auto

lemma un_varint_tag:
  "n \<le> 15 \<Longrightarrow> k < 8 \<Longrightarrow> un_varint (wire_tag n k # bs) = Some (8 * n + k, bs)"
  using unat_of_nat_tag [of n k] by simp

lemma wire_parse_string:
  assumes "table_numbers_ok T" and "has_field T n KRawString"
  shows "parse_field T (wire_tag n 2 # len_delimited s @ bs) = Some ((n, VString s), bs)"
proof -
  note f = field_of_has_field [OF assms]
  have "un_varint (wire_tag n 2 # len_delimited s @ bs) = Some (8 * n + 2, len_delimited s @ bs)"
    by (rule un_varint_tag) (use f in simp_all)
  moreover have "un_varint (len_delimited s @ bs) = Some (length s, bytes_of_string s @ bs)"
    by (simp add: len_delimited_def un_varint_varint)
  moreover have "(8 * n + 2) mod 8 = 2" and "(8 * n + 2) div 8 = n"
    by presburger+
  ultimately show ?thesis
    using f(1) by (simp add: parse_field_def string_of_bytes_inverse del: un_varint.simps)
qed

lemma wire_parse_int32:
  assumes "table_numbers_ok T" and "has_field T n KInt32"
  shows "parse_field T (wire_tag n 0 # int32_varint v @ bs) = Some ((n, VInt32 v), bs)"
proof -
  note f = field_of_has_field [OF assms]
  have "un_varint (wire_tag n 0 # int32_varint v @ bs) = Some (8 * n, int32_varint v @ bs)"
    using un_varint_tag [of n 0] f by simp
  moreover have "un_varint (int32_varint v @ bs) = Some (unat (scast v :: u64), bs)"
    by (simp add: int32_varint_def un_varint_varint)
  moreover have "(of_nat (unat (scast v :: u64)) :: i32) = v"
  proof -
    have "(of_nat (unat (scast v :: u64)) :: i32) = ucast (scast v :: u64)"
      by (simp add: unsigned_of_nat)
    also have "\<dots> = v"
      by (rule bit_word_eqI) (simp add: bit_unsigned_iff bit_signed_iff)
    finally show ?thesis .
  qed
  ultimately show ?thesis
    using f(1) by (simp add: parse_field_def del: un_varint.simps)
qed

lemma wire_runtime_sizes: "sizes_ok wire_runtime"
  by (simp add: sizes_ok_def wire_runtime_def)

lemma wire_runtime_parse: "parse_loop_ok wire_runtime"
proof -
  have "wire_parse T [] = ([], [], True)" for T
    by (simp add: wire_parse.simps)
  then show ?thesis
    by (simp add: parse_loop_ok_def wire_runtime_def wire_parse_cons [OF wire_parse_string]
        wire_parse_cons [OF wire_parse_int32])
qed

lemma wire_runtime_entry: "entry_points_ok wire_runtime"
  by (simp add: entry_points_ok_def wire_runtime_def unat_of_nat)

lemma length_varint: "n < 128 ^ k \<Longrightarrow> 0 < k \<Longrightarrow> length (varint n) \<le> k"
proof (induction n arbitrary: k rule: varint.induct)
  case (1 n)
  show ?case
  proof (cases "n < 128")
    case True
    then show ?thesis using 1 by (subst varint.simps) simp
  next
    case False
    then obtain j where k: "k = Suc j" "0 < j"
      using 1(2,3) by (cases k; cases "k - 1") auto
    then have "n div 128 < 128 ^ j" using 1(2) by (simp add: less_mult_imp_div_less mult.commute)
    then have "length (varint (n div 128)) \<le> j" using 1(1) False k(2) by blast
    then show ?thesis using False k by (subst varint.simps) simp
  qed
qed

lemma wire_runtime_bounded: "sizes_bounded wire_runtime"
proof -
  have "length (int32_varint v) \<le> 10" for v
  proof -
    have "unat (scast v :: u64) < 2 ^ 64"
      using unsigned_less [where w = "scast v :: u64" and 'a = nat] by simp
    then have "unat (scast v :: u64) < 128 ^ 10" by (rule less_trans) simp
    then show ?thesis unfolding int32_varint_def by (rule length_varint) simp
  qed
  moreover have "length (varint n) \<le> 5" if "n < 2147483648" for n
    by (rule length_varint) (use that in simp_all)
  ultimately show ?thesis
    by (simp add: sizes_bounded_def wire_runtime_def len_delimited_def)
qed

lemma wire_runtime_ok [simp]: "runtime_ok wire_runtime"
  by (simp add: runtime_ok_def wire_runtime_sizes wire_runtime_parse wire_runtime_entry
      wire_runtime_bounded)

section \<open>Consequences of the documented behaviour\<close>

lemma runtime_okD:
  assumes "runtime_ok rt"
  shows "1 \<le> n \<Longrightarrow> n \<le> 15 \<Longrightarrow> length (WriteString rt n s) = 1 + StringSize rt s"
    and "1 \<le> n \<Longrightarrow> n \<le> 15 \<Longrightarrow> length (WriteInt32 rt n v) = Int32SizePlusOne rt v"
    and "table_numbers_ok T \<Longrightarrow> ParseLoop rt T [] = ([], [], True)"
    and "table_numbers_ok T \<Longrightarrow> has_field T n KRawString \<Longrightarrow>
        ParseLoop rt T (WriteString rt n s @ bs) =
          (case ParseLoop rt T bs of (st, u, r) \<Rightarrow> ((n, VString s) # st, u, r))"
    and "table_numbers_ok T \<Longrightarrow> has_field T n KInt32 \<Longrightarrow>
        ParseLoop rt T (WriteInt32 rt n v @ bs) =
          (case ParseLoop rt T bs of (st, u, r) \<Rightarrow> ((n, VInt32 v) # st, u, r))"
    and "m < 2147483648 \<Longrightarrow> unat (ByteSizeInt rt m) = m"
    and "length bs < 2147483648 \<Longrightarrow> int (length bs) \<le> sint sz \<Longrightarrow>
        SerializeTo rt True (length bs) bs sz = (True, bs)"
    and "Int32SizePlusOne rt v \<le> 11"
    and "length s < 2147483648 \<Longrightarrow> StringSize rt s \<le> length s + 5"
  using assms
  by (simp_all add: runtime_ok_def sizes_ok_def parse_loop_ok_def entry_points_ok_def sizes_bounded_def)

end
