(* ===== verification/Pb_Class.thy ===== *)
theory Pb_Class
  imports Pb_Runtime
begin

text \<open>
  What the four generated message classes of \<^verbatim>\<open>src/shbk2pb\<close> have in common: the bits that
  record which fields are present, and the contract of a message class. The contract is
  a locale; each class interprets it, and the facts derived here (copying, the size of
  the encoding, decoding an encoding, injectivity of the encoding) hold for all of them.
\<close>

section \<open>Has-bits\<close>

lemma bit_u32_lt: "bit (w :: u32) k \<Longrightarrow> k < 32"
  using bit_imp_le_length [of w k] by simp

lemma bit_u32_masks:
  "bit (1 :: u32) k \<longleftrightarrow> k = 0" "bit (2 :: u32) k \<longleftrightarrow> k = 1" "bit (4 :: u32) k \<longleftrightarrow> k = 2"
  "bit (3 :: u32) k \<longleftrightarrow> k = 0 \<or> k = 1" "bit (6 :: u32) k \<longleftrightarrow> k = 1 \<or> k = 2"
  "bit (7 :: u32) k \<longleftrightarrow> k = 0 \<or> k = 1 \<or> k = 2"
  by (simp_all add: bit_numeral_rec bit_1_iff split: nat.split) presburger+

lemma has_bit_iff [simp]:
  fixes w :: u32
  shows "w AND 1 = 0 \<longleftrightarrow> \<not> bit w 0"
    and "w AND 2 = 0 \<longleftrightarrow> \<not> bit w 1"
    and "w AND 4 = 0 \<longleftrightarrow> \<not> bit w 2"
    and "w AND 3 = 0 \<longleftrightarrow> \<not> bit w 0 \<and> \<not> bit w 1"
    and "w AND 6 = 0 \<longleftrightarrow> \<not> bit w 1 \<and> \<not> bit w 2"
    and "w AND 7 = 0 \<longleftrightarrow> \<not> bit w 0 \<and> \<not> bit w 1 \<and> \<not> bit w 2"
proof -
  have m: "w AND mask_w = 0 \<longleftrightarrow> (\<forall>k. bit mask_w k \<longrightarrow> \<not> bit w k)" for mask_w :: u32
    by (auto simp: bit_eq_iff bit_and_iff dest: bit_u32_lt)
  show "w AND 1 = 0 \<longleftrightarrow> \<not> bit w 0"
    and "w AND 2 = 0 \<longleftrightarrow> \<not> bit w 1"
    and "w AND 4 = 0 \<longleftrightarrow> \<not> bit w 2"
    and "w AND 3 = 0 \<longleftrightarrow> \<not> bit w 0 \<and> \<not> bit w 1"
    and "w AND 6 = 0 \<longleftrightarrow> \<not> bit w 1 \<and> \<not> bit w 2"
    and "w AND 7 = 0 \<longleftrightarrow> \<not> bit w 0 \<and> \<not> bit w 1 \<and> \<not> bit w 2"
    unfolding m bit_u32_masks by auto
qed

lemma has_bit_sets [simp]:
  fixes w :: u32
  shows "bit (w OR 1) k \<longleftrightarrow> bit w k \<or> k = 0"
    and "bit (w OR 2) k \<longleftrightarrow> bit w k \<or> k = 1"
    and "bit (w OR 4) k \<longleftrightarrow> bit w k \<or> k = 2"
    and "bit (w AND NOT 1) k \<longleftrightarrow> bit w k \<and> k \<noteq> 0"
    and "bit (w AND NOT 2) k \<longleftrightarrow> bit w k \<and> k \<noteq> 1"
    and "bit (w AND NOT 4) k \<longleftrightarrow> bit w k \<and> k \<noteq> 2"
  by (auto simp only: bit_or_iff bit_and_iff bit_not_iff bit_u32_masks possible_bit_word
      dest: bit_imp_le_length)

lemmas has_bit_clears [simp] = has_bit_sets(4-6) [simplified]

text \<open>
  Only the first \<open>n\<close> bits are used: no bit outside them is ever set.
\<close>

definition only_bits :: "nat \<Rightarrow> u32 \<Rightarrow> bool" where
  "only_bits n w \<longleftrightarrow> take_bit n w = w"

lemma only_bits_iff: "only_bits n w \<longleftrightarrow> (\<forall>k. bit w k \<longrightarrow> k < n)"
  unfolding only_bits_def by (auto simp: bit_eq_iff bit_take_bit_iff dest: bit_u32_lt)

lemma only_bits_simps [simp]:
  "only_bits n 0"
  "only_bits n v \<Longrightarrow> only_bits n w \<Longrightarrow> only_bits n (v OR w)"
  "only_bits n w \<Longrightarrow> 0 < n \<Longrightarrow> only_bits n (w OR 1)"
  "only_bits n w \<Longrightarrow> 1 < n \<Longrightarrow> only_bits n (w OR 2)"
  "only_bits n w \<Longrightarrow> 2 < n \<Longrightarrow> only_bits n (w OR 4)"
  "only_bits n w \<Longrightarrow> only_bits n (w AND v)"
  by (auto simp only: only_bits_iff bit_or_iff bit_and_iff bit_u32_masks bit_0_eq bot_apply bot_bool_def)

lemma has_bits_decode:
  "only_bits 1 w \<Longrightarrow> w = (if bit w 0 then 1 else 0)"
  "only_bits 2 w \<Longrightarrow> w = (if bit w 0 then 1 else 0) OR (if bit w 1 then 2 else 0)"
  "only_bits 3 w \<Longrightarrow> w = (if bit w 0 then 1 else 0) OR (if bit w 1 then 2 else 0) OR (if bit w 2 then 4 else 0)"
proof -
  have lt: "k < 1 \<longleftrightarrow> k = 0" "k < 2 \<longleftrightarrow> k = 0 \<or> k = 1" "k < 3 \<longleftrightarrow> k = 0 \<or> k = 1 \<or> k = 2" for k :: nat
    by auto
  have z: "bit (if b then (v :: u32) else 0) k \<longleftrightarrow> b \<and> bit v k" for b v k
    by simp
  show "only_bits 1 w \<Longrightarrow> w = (if bit w 0 then 1 else 0)"
    by (rule bit_word_eqI) (auto simp only: z bit_or_iff bit_u32_masks only_bits_iff lt)
  show "only_bits 2 w \<Longrightarrow> w = (if bit w 0 then 1 else 0) OR (if bit w 1 then 2 else 0)"
    by (rule bit_word_eqI) (auto simp only: z bit_or_iff bit_u32_masks only_bits_iff lt)
  show "only_bits 3 w \<Longrightarrow> w = (if bit w 0 then 1 else 0) OR (if bit w 1 then 2 else 0) OR (if bit w 2 then 4 else 0)"
    by (rule bit_word_eqI) (auto simp only: z bit_or_iff bit_u32_masks only_bits_iff lt)
qed

lemma or_own_bit: "bit w 0 \<Longrightarrow> 1 OR w = w" for w :: u32
  by (rule bit_word_eqI) (auto simp only: bit_or_iff bit_u32_masks)

section \<open>The contract of a message class\<close>

text \<open>
  What \<^verbatim>\<open>MessageLite::ParseFromArray\<close> documents: it clears the message, parses the array and
  reports whether parsing succeeded and all required fields are present.
\<close>

definition parse_array ::
    "('m \<Rightarrow> 'm) \<Rightarrow> ('m \<Rightarrow> byte list \<Rightarrow> 'm \<times> bool) \<Rightarrow> ('m \<Rightarrow> bool) \<Rightarrow> 'm \<Rightarrow> byte list \<Rightarrow> bool \<times> 'm" where
  "parse_array clear parse initialized m bs =
     (case parse (clear m) bs of (m', r) \<Rightarrow> (r \<and> initialized m', m'))"

text \<open>
  \<open>norm\<close> forgets what is not content (the arena and the cached size); \<open>fresh\<close> is the
  content of a new message. A message is well formed when a field whose has-bit is clear
  holds its default value: \<^verbatim>\<open>Clear\<close> relies on it, since it resets a field only when its
  bit is set.
\<close>

locale pb_class =
  fixes wf :: "'m \<Rightarrow> bool"
    and norm :: "'m \<Rightarrow> 'm"
    and fresh :: "'m"
    and unknown :: "'m \<Rightarrow> byte list"
    and clear :: "'m \<Rightarrow> 'm"
    and merge :: "'m \<Rightarrow> 'm \<Rightarrow> 'm"
    and ser :: "'x pb_runtime_scheme \<Rightarrow> 'm \<Rightarrow> byte list"
    and bsize :: "'x pb_runtime_scheme \<Rightarrow> 'm \<Rightarrow> nat \<times> 'm"
    and parse :: "'x pb_runtime_scheme \<Rightarrow> 'm \<Rightarrow> byte list \<Rightarrow> 'm \<times> bool"
    and initialized :: "'m \<Rightarrow> bool"
  assumes wf_clear: "wf m \<Longrightarrow> wf (clear m)"
    and norm_clear: "wf m \<Longrightarrow> norm (clear m) = fresh"
    and wf_merge: "wf m \<Longrightarrow> wf m' \<Longrightarrow> wf (merge m m')"
    and norm_merge: "wf m' \<Longrightarrow> norm m = fresh \<Longrightarrow> norm (merge m m') = norm m'"
    and ser_cong: "norm m = norm m' \<Longrightarrow> ser rt m = ser rt m'"
    and initialized_cong: "norm m = norm m' \<Longrightarrow> initialized m = initialized m'"
    and bsize_ser: "runtime_ok rt \<Longrightarrow> fst (bsize rt m) = length (ser rt m)"
    and bsize_norm: "norm (snd (bsize rt m)) = norm m"
    and parse_ser: "runtime_ok rt \<Longrightarrow> wf m \<Longrightarrow> unknown m = [] \<Longrightarrow> wf m0 \<Longrightarrow> norm m0 = fresh \<Longrightarrow>
          snd (parse rt m0 (ser rt m)) \<and> norm (fst (parse rt m0 (ser rt m))) = norm m \<and>
          wf (fst (parse rt m0 (ser rt m)))"
begin

lemma copy_content: "wf m \<Longrightarrow> wf m' \<Longrightarrow> norm (merge (clear m) m') = norm m'"
  by (simp add: norm_merge norm_clear)

lemma copy_wf: "wf m \<Longrightarrow> wf m' \<Longrightarrow> wf (merge (clear m) m')"
  by (simp add: wf_merge wf_clear)

lemma copy_ser: "wf m \<Longrightarrow> wf m' \<Longrightarrow> ser rt (merge (clear m) m') = ser rt m'"
  by (rule ser_cong) (rule copy_content)

lemma bsize_ser_again: "runtime_ok rt \<Longrightarrow> length (ser rt (snd (bsize rt m))) = fst (bsize rt m)"
  by (simp add: bsize_ser ser_cong [OF bsize_norm])

lemma reparse:
  assumes "runtime_ok rt" and "wf m0" and "wf m" and "unknown m = []"
  shows "\<exists>m'. parse rt (clear m0) (ser rt m) = (m', True) \<and> norm m' = norm m \<and> wf m'"
  using parse_ser [OF assms(1,3,4) wf_clear norm_clear] assms(2)
  by (metis prod.collapse)

lemma parse_array_ser:
  assumes "runtime_ok rt" and "wf m0" and "wf m" and "initialized m" and "unknown m = []"
  shows "\<exists>m'. parse_array clear (parse rt) initialized m0 (ser rt m) = (True, m') \<and>
              norm m' = norm m \<and> wf m'"
proof -
  obtain m' where m': "parse rt (clear m0) (ser rt m) = (m', True)" "norm m' = norm m" "wf m'"
    using reparse [OF assms(1-3,5)] by blast
  with initialized_cong [OF m'(2)] assms(4) show ?thesis
    by (simp add: parse_array_def)
qed

lemma ser_inj:
  assumes "runtime_ok rt" and "wf m" and "wf m'" and "unknown m = []" and "unknown m' = []"
    and "ser rt m = ser rt m'"
  shows "norm m = norm m'"
  using reparse [OF assms(1,2,2,4)] reparse [OF assms(1,2,3,5)] assms(6) by auto

end

end
