(* ===== verification/Pb_PhoneReq.thy ===== *)
theory Pb_PhoneReq
  imports Pb_Class
begin

text \<open>
  The generated class \<^verbatim>\<open>PhoneReq\<close> of \<^verbatim>\<open>src/shbk2pb\<close>: its data, its accessors, clearing, merging,
  copying and swapping, its parse table and its encoding, one definition per generated
  function, and the interpretation of the contract of a message class.
\<close>

section \<open>Data and construction\<close>

record PhoneReq =
  preq_arena :: "addr option"
  preq_unknown :: "byte list"
  preq_has_bits :: u32
  preq_cached_size :: i32
  preq_phone_number :: string

definition PhoneReq_ctor :: "addr option \<Rightarrow> PhoneReq" where
  "PhoneReq_ctor arena =
     \<lparr>preq_arena = arena, preq_unknown = [], preq_has_bits = 0, preq_cached_size = 0,
      preq_phone_number = []\<rparr>"

definition PhoneReq_copy_ctor :: "addr option \<Rightarrow> PhoneReq \<Rightarrow> PhoneReq" where
  "PhoneReq_copy_ctor arena from =
     \<lparr>preq_arena = arena, preq_unknown = preq_unknown from, preq_has_bits = preq_has_bits from,
      preq_cached_size = 0, preq_phone_number = preq_phone_number from\<rparr>"

definition PhoneReq_default_instance :: PhoneReq where
  "PhoneReq_default_instance =
     \<lparr>preq_arena = None, preq_unknown = [], preq_has_bits = 0, preq_cached_size = 0,
      preq_phone_number = []\<rparr>"

section \<open>Accessors\<close>

definition PhoneReq_has_phone_number :: "PhoneReq \<Rightarrow> bool" where
  "PhoneReq_has_phone_number m \<longleftrightarrow> preq_has_bits m AND 1 \<noteq> 0"

definition PhoneReq_clear_phone_number :: "PhoneReq \<Rightarrow> PhoneReq" where
  "PhoneReq_clear_phone_number m = m\<lparr>preq_phone_number := [], preq_has_bits := preq_has_bits m AND NOT 1\<rparr>"

definition PhoneReq_get_phone_number :: "PhoneReq \<Rightarrow> string" where
  "PhoneReq_get_phone_number m = preq_phone_number m"

definition PhoneReq_set_phone_number :: "PhoneReq \<Rightarrow> string \<Rightarrow> PhoneReq" where
  "PhoneReq_set_phone_number m arg = m\<lparr>preq_has_bits := preq_has_bits m OR 1, preq_phone_number := arg\<rparr>"

definition PhoneReq_internal_set_phone_number :: "PhoneReq \<Rightarrow> string \<Rightarrow> PhoneReq" where
  "PhoneReq_internal_set_phone_number m v = m\<lparr>preq_has_bits := preq_has_bits m OR 1, preq_phone_number := v\<rparr>"

text \<open>\<^verbatim>\<open>mutable_phone_number()\<close> returns a pointer to the field: here, what it points to.\<close>

definition PhoneReq_internal_mutable_phone_number :: "PhoneReq \<Rightarrow> string \<times> PhoneReq" where
  "PhoneReq_internal_mutable_phone_number m = (preq_phone_number m, m\<lparr>preq_has_bits := preq_has_bits m OR 1\<rparr>)"

definition PhoneReq_mutable_phone_number :: "PhoneReq \<Rightarrow> string \<times> PhoneReq" where
  "PhoneReq_mutable_phone_number m = PhoneReq_internal_mutable_phone_number m"

definition PhoneReq_release_phone_number :: "PhoneReq \<Rightarrow> string option \<times> PhoneReq" where
  "PhoneReq_release_phone_number m =
     (if preq_has_bits m AND 1 = 0 then (None, m)
      else (Some (preq_phone_number m), m\<lparr>preq_has_bits := preq_has_bits m AND NOT 1, preq_phone_number := []\<rparr>))"

definition PhoneReq_set_allocated_phone_number :: "PhoneReq \<Rightarrow> string option \<Rightarrow> PhoneReq" where
  "PhoneReq_set_allocated_phone_number m v =
     (let m1 = (if v \<noteq> None then m\<lparr>preq_has_bits := preq_has_bits m OR 1\<rparr>
                else m\<lparr>preq_has_bits := preq_has_bits m AND NOT 1\<rparr>)
      in m1\<lparr>preq_phone_number := (case v of None \<Rightarrow> [] | Some s \<Rightarrow> s)\<rparr>)"

section \<open>Clearing, merging, copying, swapping\<close>

definition PhoneReq_Clear :: "PhoneReq \<Rightarrow> PhoneReq" where
  "PhoneReq_Clear m =
     (let cached_has_bits = preq_has_bits m;
          m1 = (if cached_has_bits AND 1 \<noteq> 0 then m\<lparr>preq_phone_number := []\<rparr> else m)
      in m1\<lparr>preq_has_bits := 0, preq_unknown := []\<rparr>)"

definition PhoneReq_MergeImpl :: "PhoneReq \<Rightarrow> PhoneReq \<Rightarrow> PhoneReq" where
  "PhoneReq_MergeImpl to_msg from =
     (let cached_has_bits = preq_has_bits from;
          m1 = (if cached_has_bits AND 1 \<noteq> 0 then PhoneReq_internal_set_phone_number to_msg (preq_phone_number from) else to_msg)
      in m1\<lparr>preq_has_bits := preq_has_bits m1 OR cached_has_bits,
             preq_unknown := preq_unknown m1 @ preq_unknown from\<rparr>)"

text \<open>The flag tells whether both arguments are the same object.\<close>

definition PhoneReq_CopyFrom :: "bool \<Rightarrow> PhoneReq \<Rightarrow> PhoneReq \<Rightarrow> PhoneReq" where
  "PhoneReq_CopyFrom same m from =
     (if same then m else PhoneReq_MergeImpl (PhoneReq_Clear m) from)"

definition PhoneReq_InternalSwap :: "PhoneReq \<Rightarrow> PhoneReq \<Rightarrow> PhoneReq \<times> PhoneReq" where
  "PhoneReq_InternalSwap m other =
     (m\<lparr>preq_unknown := preq_unknown other, preq_has_bits := preq_has_bits other,
        preq_phone_number := preq_phone_number other\<rparr>,
      other\<lparr>preq_unknown := preq_unknown m, preq_has_bits := preq_has_bits m,
        preq_phone_number := preq_phone_number m\<rparr>)"

text \<open>\<^verbatim>\<open>GenericSwap\<close> belongs to the runtime and is an argument.\<close>

definition PhoneReq_Swap ::
    "(PhoneReq \<Rightarrow> PhoneReq \<Rightarrow> PhoneReq \<times> PhoneReq) \<Rightarrow> bool \<Rightarrow> PhoneReq \<Rightarrow> PhoneReq \<Rightarrow> PhoneReq \<times> PhoneReq" where
  "PhoneReq_Swap GenericSwap same m other =
     (if same then (m, other)
      else if preq_arena m = preq_arena other then PhoneReq_InternalSwap m other
      else GenericSwap m other)"

definition PhoneReq_UnsafeArenaSwap :: "bool \<Rightarrow> PhoneReq \<Rightarrow> PhoneReq \<Rightarrow> PhoneReq \<times> PhoneReq" where
  "PhoneReq_UnsafeArenaSwap same m other =
     (if same then (m, other) else PhoneReq_InternalSwap m other)"

definition PhoneReq_assign :: "bool \<Rightarrow> PhoneReq \<Rightarrow> PhoneReq \<Rightarrow> PhoneReq" where
  "PhoneReq_assign same m from = PhoneReq_CopyFrom same m from"

definition PhoneReq_move_assign :: "bool \<Rightarrow> PhoneReq \<Rightarrow> PhoneReq \<Rightarrow> PhoneReq \<times> PhoneReq" where
  "PhoneReq_move_assign same m from =
     (if same then (m, from)
      else if preq_arena m = preq_arena from then PhoneReq_InternalSwap m from
      else (PhoneReq_CopyFrom same m from, from))"

definition PhoneReq_move_ctor :: "addr option \<Rightarrow> PhoneReq \<Rightarrow> PhoneReq \<times> PhoneReq" where
  "PhoneReq_move_ctor arena from = PhoneReq_move_assign False (PhoneReq_ctor arena) from"

section \<open>Required fields, encoding and decoding\<close>

definition PhoneReq_MissingRequiredFields :: "u32 \<Rightarrow> bool" where
  "PhoneReq_MissingRequiredFields has_bits \<longleftrightarrow> (has_bits AND 1) XOR 1 \<noteq> 0"

definition PhoneReq_IsInitialized :: "PhoneReq \<Rightarrow> bool" where
  "PhoneReq_IsInitialized m =
     (if PhoneReq_MissingRequiredFields (preq_has_bits m) then False else True)"

definition PhoneReq_table :: "tc_field list" where
  "PhoneReq_table =
     [\<lparr>tc_number = 1, tc_hasbit = 0, tc_kind = KRawString\<rparr>]"

text \<open>A store of the parse loop: the field entry gives the field and its has-bit.\<close>

definition PhoneReq_store :: "nat \<times> pb_value \<Rightarrow> PhoneReq \<Rightarrow> PhoneReq" where
  "PhoneReq_store st m =
     (case st of
        (n, VString s) \<Rightarrow> (if n = 1 then m\<lparr>preq_phone_number := s, preq_has_bits := preq_has_bits m OR 1\<rparr> else m)
      | (n, VInt32 v) \<Rightarrow> m)"

definition PhoneReq_InternalParse ::
    "'x pb_runtime_scheme \<Rightarrow> PhoneReq \<Rightarrow> byte list \<Rightarrow> PhoneReq \<times> bool" where
  "PhoneReq_InternalParse rt m bs =
     (case ParseLoop rt PhoneReq_table bs of (sts, u, r) \<Rightarrow>
        let m1 = fold PhoneReq_store sts m in (m1\<lparr>preq_unknown := preq_unknown m1 @ u\<rparr>, r))"

definition PhoneReq_InternalSerialize :: "'x pb_runtime_scheme \<Rightarrow> PhoneReq \<Rightarrow> byte list" where
  "PhoneReq_InternalSerialize rt m =
     (let cached_has_bits = preq_has_bits m
      in (if cached_has_bits AND 1 \<noteq> 0 then WriteString rt 1 (preq_phone_number m) else []) @
         (if preq_unknown m \<noteq> [] then preq_unknown m else []))"

definition PhoneReq_ByteSizeLong :: "'x pb_runtime_scheme \<Rightarrow> PhoneReq \<Rightarrow> nat \<times> PhoneReq" where
  "PhoneReq_ByteSizeLong rt m =
     (let cached_has_bits = preq_has_bits m;
          total_size =
            (if cached_has_bits AND 1 \<noteq> 0 then 1 + StringSize rt (preq_phone_number m) else 0);
          total_size = total_size + length (preq_unknown m)
      in (total_size, m\<lparr>preq_cached_size := of_nat total_size\<rparr>))"

definition PhoneReq_GetCachedSize :: "PhoneReq \<Rightarrow> i32" where
  "PhoneReq_GetCachedSize m = preq_cached_size m"

section \<open>Well-formed messages and the contract\<close>

definition PhoneReq_wf :: "PhoneReq \<Rightarrow> bool" where
  "PhoneReq_wf m \<longleftrightarrow> only_bits 1 (preq_has_bits m)
     \<and> (\<not> bit (preq_has_bits m) 0 \<longrightarrow> preq_phone_number m = [])"

definition PhoneReq_norm :: "PhoneReq \<Rightarrow> PhoneReq" where
  "PhoneReq_norm m = m\<lparr>preq_arena := None, preq_cached_size := 0\<rparr>"

lemmas PhoneReq_defs =
  PhoneReq_wf_def PhoneReq_norm_def PhoneReq_ctor_def PhoneReq_Clear_def PhoneReq_MergeImpl_def
  PhoneReq_internal_set_phone_number_def PhoneReq_set_phone_number_def PhoneReq_clear_phone_number_def
  PhoneReq_release_phone_number_def PhoneReq_set_allocated_phone_number_def PhoneReq_mutable_phone_number_def PhoneReq_internal_mutable_phone_number_def

lemma PhoneReq_wf_new: "PhoneReq_wf (PhoneReq_ctor arena)" "PhoneReq_wf PhoneReq_default_instance"
  by (simp_all add: PhoneReq_wf_def PhoneReq_ctor_def PhoneReq_default_instance_def)

lemma PhoneReq_wf_accessors:
  assumes "PhoneReq_wf m"
  shows "PhoneReq_wf (PhoneReq_set_phone_number m s)"
    and "PhoneReq_wf (PhoneReq_clear_phone_number m)"
    and "PhoneReq_wf (snd (PhoneReq_mutable_phone_number m))"
    and "PhoneReq_wf (snd (PhoneReq_release_phone_number m))"
    and "PhoneReq_wf (PhoneReq_set_allocated_phone_number m q)"
  using assms by (simp_all add: PhoneReq_defs Let_def split: option.split)

lemma PhoneReq_wf_Clear: "PhoneReq_wf m \<Longrightarrow> PhoneReq_wf (PhoneReq_Clear m)"
  by (simp add: PhoneReq_defs Let_def)

lemma PhoneReq_norm_Clear: "PhoneReq_wf m \<Longrightarrow> PhoneReq_norm (PhoneReq_Clear m) = PhoneReq_ctor None"
  by (cases m) (simp add: PhoneReq_defs Let_def)

lemma PhoneReq_wf_MergeImpl: "PhoneReq_wf m \<Longrightarrow> PhoneReq_wf m' \<Longrightarrow> PhoneReq_wf (PhoneReq_MergeImpl m m')"
  by (simp add: PhoneReq_defs Let_def bit_or_iff)

lemma PhoneReq_norm_MergeImpl:
  assumes "PhoneReq_wf m'" and "PhoneReq_norm m = PhoneReq_ctor None"
  shows "PhoneReq_norm (PhoneReq_MergeImpl m m') = PhoneReq_norm m'"
proof -
  have m: "preq_has_bits m = 0" "preq_unknown m = []" "preq_phone_number m = []"
    using assms(2) by (cases m; simp add: PhoneReq_norm_def PhoneReq_ctor_def)+
  show ?thesis
    using assms(1) m by (cases m; cases m') (auto simp: PhoneReq_defs Let_def or_own_bit)
qed

lemma PhoneReq_table_ok [simp]: "table_numbers_ok PhoneReq_table"
  by (simp add: table_numbers_ok_def PhoneReq_table_def)

lemma PhoneReq_table_fields [simp]:
  "has_field PhoneReq_table 1 KRawString"
  by (simp_all add: has_field_def PhoneReq_table_def)

lemma PhoneReq_bsize_ser:
  "runtime_ok rt \<Longrightarrow> fst (PhoneReq_ByteSizeLong rt m) = length (PhoneReq_InternalSerialize rt m)"
  by (simp add: PhoneReq_ByteSizeLong_def PhoneReq_InternalSerialize_def Let_def runtime_okD)

lemma PhoneReq_InternalParse_ser:
  assumes rt: "runtime_ok rt" and wf: "PhoneReq_wf m" and u: "preq_unknown m = []"
    and m0: "PhoneReq_norm m0 = PhoneReq_ctor None"
  shows "snd (PhoneReq_InternalParse rt m0 (PhoneReq_InternalSerialize rt m))"
    and "PhoneReq_norm (fst (PhoneReq_InternalParse rt m0 (PhoneReq_InternalSerialize rt m))) = PhoneReq_norm m"
proof -
  have z: "preq_has_bits m0 = 0" "preq_unknown m0 = []" "preq_phone_number m0 = []"
    using m0 by (cases m0; simp add: PhoneReq_norm_def PhoneReq_ctor_def)+
  have nil: "ParseLoop rt PhoneReq_table [] = ([], [], True)"
    by (simp add: runtime_okD(3) [OF rt])
  note one = runtime_okD(4,5) [OF rt PhoneReq_table_ok, of _ _ "[]", unfolded append_Nil2 nil]
  obtain b0 where b: "bit (preq_has_bits m) 0 = b0"
    by blast
  have bits: "preq_has_bits m = (if b0 then 1 else 0)"
    using has_bits_decode(1) [of "preq_has_bits m"] wf unfolding PhoneReq_wf_def b by blast
  have run: "ParseLoop rt PhoneReq_table (PhoneReq_InternalSerialize rt m) =
      ((if b0 then [(1, VString (preq_phone_number m))] else []), [], True)"
    by (cases b0)
       (simp_all add: PhoneReq_InternalSerialize_def u Let_def nil one b
        runtime_okD(4,5) [OF rt PhoneReq_table_ok] del: One_nat_def)
  show "snd (PhoneReq_InternalParse rt m0 (PhoneReq_InternalSerialize rt m))"
    by (simp add: PhoneReq_InternalParse_def run Let_def)
  show "PhoneReq_norm (fst (PhoneReq_InternalParse rt m0 (PhoneReq_InternalSerialize rt m))) = PhoneReq_norm m"
    using wf z u bits unfolding PhoneReq_wf_def b
    by (cases b0)
       (simp_all add: PhoneReq_InternalParse_def run Let_def PhoneReq_store_def PhoneReq_norm_def del: One_nat_def)
qed

lemma PhoneReq_wf_InternalParse: "PhoneReq_wf m \<Longrightarrow> PhoneReq_wf (fst (PhoneReq_InternalParse rt m bs))"
proof -
  have "PhoneReq_wf (fold PhoneReq_store sts m)" if "PhoneReq_wf m" for sts
    using that
    by (induction sts arbitrary: m) (auto simp: PhoneReq_wf_def PhoneReq_store_def split: prod.splits pb_value.splits)
  then show "PhoneReq_wf m \<Longrightarrow> ?thesis"
    by (auto simp: PhoneReq_InternalParse_def PhoneReq_wf_def Let_def split: prod.splits)
qed

lemma PhoneReq_ser_cong:
  assumes "PhoneReq_norm m = PhoneReq_norm m'"
  shows "PhoneReq_InternalSerialize rt m = PhoneReq_InternalSerialize rt m'"
  using assms by (cases m; cases m') (simp add: PhoneReq_norm_def PhoneReq_InternalSerialize_def)

interpretation preq: pb_class PhoneReq_wf PhoneReq_norm "PhoneReq_ctor None" preq_unknown PhoneReq_Clear
  PhoneReq_MergeImpl PhoneReq_InternalSerialize PhoneReq_ByteSizeLong PhoneReq_InternalParse
  PhoneReq_IsInitialized
proof
  fix m m' m0 :: PhoneReq and rt :: "'x pb_runtime_scheme"
  show "PhoneReq_wf m \<Longrightarrow> PhoneReq_wf (PhoneReq_Clear m)" by (rule PhoneReq_wf_Clear)
  show "PhoneReq_wf m \<Longrightarrow> PhoneReq_norm (PhoneReq_Clear m) = PhoneReq_ctor None" by (rule PhoneReq_norm_Clear)
  show "PhoneReq_wf m \<Longrightarrow> PhoneReq_wf m' \<Longrightarrow> PhoneReq_wf (PhoneReq_MergeImpl m m')" by (rule PhoneReq_wf_MergeImpl)
  show "PhoneReq_wf m' \<Longrightarrow> PhoneReq_norm m = PhoneReq_ctor None \<Longrightarrow>
      PhoneReq_norm (PhoneReq_MergeImpl m m') = PhoneReq_norm m'" by (rule PhoneReq_norm_MergeImpl)
  show "PhoneReq_norm m = PhoneReq_norm m' \<Longrightarrow>
      PhoneReq_InternalSerialize rt m = PhoneReq_InternalSerialize rt m'" by (rule PhoneReq_ser_cong)
  show "PhoneReq_norm m = PhoneReq_norm m' \<Longrightarrow> PhoneReq_IsInitialized m = PhoneReq_IsInitialized m'"
    by (cases m; cases m') (simp add: PhoneReq_norm_def PhoneReq_IsInitialized_def)
  show "runtime_ok rt \<Longrightarrow> fst (PhoneReq_ByteSizeLong rt m) = length (PhoneReq_InternalSerialize rt m)"
    by (rule PhoneReq_bsize_ser)
  show "PhoneReq_norm (snd (PhoneReq_ByteSizeLong rt m)) = PhoneReq_norm m"
    by (simp add: PhoneReq_ByteSizeLong_def PhoneReq_norm_def Let_def)
  show "snd (PhoneReq_InternalParse rt m0 (PhoneReq_InternalSerialize rt m)) \<and>
      PhoneReq_norm (fst (PhoneReq_InternalParse rt m0 (PhoneReq_InternalSerialize rt m))) = PhoneReq_norm m \<and>
      PhoneReq_wf (fst (PhoneReq_InternalParse rt m0 (PhoneReq_InternalSerialize rt m)))"
    if "runtime_ok rt" "PhoneReq_wf m" "preq_unknown m = []" "PhoneReq_wf m0" "PhoneReq_norm m0 = PhoneReq_ctor None"
    using PhoneReq_InternalParse_ser [OF that(1-3,5)] PhoneReq_wf_InternalParse [OF that(4)] by blast
qed

end
