(* ===== verification/Pb_PhoneRes.thy ===== *)
theory Pb_PhoneRes
  imports Pb_Class
begin

text \<open>
  The generated class \<^verbatim>\<open>PhoneRes\<close> of \<^verbatim>\<open>src/shbk2pb\<close>: its data, its accessors, clearing, merging,
  copying and swapping, its parse table and its encoding, one definition per generated
  function, and the interpretation of the contract of a message class.
\<close>

section \<open>Data and construction\<close>

record PhoneRes =
  pres_arena :: "addr option"
  pres_unknown :: "byte list"
  pres_has_bits :: u32
  pres_cached_size :: i32
  pres_desc :: string
  pres_code :: i32
  pres_identifier :: i32

definition PhoneRes_ctor :: "addr option \<Rightarrow> PhoneRes" where
  "PhoneRes_ctor arena =
     \<lparr>pres_arena = arena, pres_unknown = [], pres_has_bits = 0, pres_cached_size = 0,
      pres_desc = [], pres_code = 0, pres_identifier = 0\<rparr>"

definition PhoneRes_copy_ctor :: "addr option \<Rightarrow> PhoneRes \<Rightarrow> PhoneRes" where
  "PhoneRes_copy_ctor arena from =
     \<lparr>pres_arena = arena, pres_unknown = pres_unknown from, pres_has_bits = pres_has_bits from,
      pres_cached_size = 0, pres_desc = pres_desc from, pres_code = pres_code from, pres_identifier = pres_identifier from\<rparr>"

definition PhoneRes_default_instance :: PhoneRes where
  "PhoneRes_default_instance =
     \<lparr>pres_arena = None, pres_unknown = [], pres_has_bits = 0, pres_cached_size = 0,
      pres_desc = [], pres_code = 0, pres_identifier = 0\<rparr>"

section \<open>Accessors\<close>

definition PhoneRes_has_desc :: "PhoneRes \<Rightarrow> bool" where
  "PhoneRes_has_desc m \<longleftrightarrow> pres_has_bits m AND 1 \<noteq> 0"

definition PhoneRes_clear_desc :: "PhoneRes \<Rightarrow> PhoneRes" where
  "PhoneRes_clear_desc m = m\<lparr>pres_desc := [], pres_has_bits := pres_has_bits m AND NOT 1\<rparr>"

definition PhoneRes_get_desc :: "PhoneRes \<Rightarrow> string" where
  "PhoneRes_get_desc m = pres_desc m"

definition PhoneRes_set_desc :: "PhoneRes \<Rightarrow> string \<Rightarrow> PhoneRes" where
  "PhoneRes_set_desc m arg = m\<lparr>pres_has_bits := pres_has_bits m OR 1, pres_desc := arg\<rparr>"

definition PhoneRes_internal_set_desc :: "PhoneRes \<Rightarrow> string \<Rightarrow> PhoneRes" where
  "PhoneRes_internal_set_desc m v = m\<lparr>pres_has_bits := pres_has_bits m OR 1, pres_desc := v\<rparr>"

text \<open>\<^verbatim>\<open>mutable_desc()\<close> returns a pointer to the field: here, what it points to.\<close>

definition PhoneRes_internal_mutable_desc :: "PhoneRes \<Rightarrow> string \<times> PhoneRes" where
  "PhoneRes_internal_mutable_desc m = (pres_desc m, m\<lparr>pres_has_bits := pres_has_bits m OR 1\<rparr>)"

definition PhoneRes_mutable_desc :: "PhoneRes \<Rightarrow> string \<times> PhoneRes" where
  "PhoneRes_mutable_desc m = PhoneRes_internal_mutable_desc m"

definition PhoneRes_release_desc :: "PhoneRes \<Rightarrow> string option \<times> PhoneRes" where
  "PhoneRes_release_desc m =
     (if pres_has_bits m AND 1 = 0 then (None, m)
      else (Some (pres_desc m), m\<lparr>pres_has_bits := pres_has_bits m AND NOT 1, pres_desc := []\<rparr>))"

definition PhoneRes_set_allocated_desc :: "PhoneRes \<Rightarrow> string option \<Rightarrow> PhoneRes" where
  "PhoneRes_set_allocated_desc m v =
     (let m1 = (if v \<noteq> None then m\<lparr>pres_has_bits := pres_has_bits m OR 1\<rparr>
                else m\<lparr>pres_has_bits := pres_has_bits m AND NOT 1\<rparr>)
      in m1\<lparr>pres_desc := (case v of None \<Rightarrow> [] | Some s \<Rightarrow> s)\<rparr>)"

definition PhoneRes_has_code :: "PhoneRes \<Rightarrow> bool" where
  "PhoneRes_has_code m \<longleftrightarrow> pres_has_bits m AND 2 \<noteq> 0"

definition PhoneRes_clear_code :: "PhoneRes \<Rightarrow> PhoneRes" where
  "PhoneRes_clear_code m = m\<lparr>pres_code := 0, pres_has_bits := pres_has_bits m AND NOT 2\<rparr>"

definition PhoneRes_get_code :: "PhoneRes \<Rightarrow> i32" where
  "PhoneRes_get_code m = pres_code m"

definition PhoneRes_internal_set_code :: "PhoneRes \<Rightarrow> i32 \<Rightarrow> PhoneRes" where
  "PhoneRes_internal_set_code m v = m\<lparr>pres_code := v\<rparr>"

definition PhoneRes_set_code :: "PhoneRes \<Rightarrow> i32 \<Rightarrow> PhoneRes" where
  "PhoneRes_set_code m v =
     (let m1 = PhoneRes_internal_set_code m v in m1\<lparr>pres_has_bits := pres_has_bits m1 OR 2\<rparr>)"

definition PhoneRes_has_identifier :: "PhoneRes \<Rightarrow> bool" where
  "PhoneRes_has_identifier m \<longleftrightarrow> pres_has_bits m AND 4 \<noteq> 0"

definition PhoneRes_clear_identifier :: "PhoneRes \<Rightarrow> PhoneRes" where
  "PhoneRes_clear_identifier m = m\<lparr>pres_identifier := 0, pres_has_bits := pres_has_bits m AND NOT 4\<rparr>"

definition PhoneRes_get_identifier :: "PhoneRes \<Rightarrow> i32" where
  "PhoneRes_get_identifier m = pres_identifier m"

definition PhoneRes_internal_set_identifier :: "PhoneRes \<Rightarrow> i32 \<Rightarrow> PhoneRes" where
  "PhoneRes_internal_set_identifier m v = m\<lparr>pres_identifier := v\<rparr>"

definition PhoneRes_set_identifier :: "PhoneRes \<Rightarrow> i32 \<Rightarrow> PhoneRes" where
  "PhoneRes_set_identifier m v =
     (let m1 = PhoneRes_internal_set_identifier m v in m1\<lparr>pres_has_bits := pres_has_bits m1 OR 4\<rparr>)"

section \<open>Clearing, merging, copying, swapping\<close>

definition PhoneRes_Clear :: "PhoneRes \<Rightarrow> PhoneRes" where
  "PhoneRes_Clear m =
     (let cached_has_bits = pres_has_bits m;
          m1 = (if cached_has_bits AND 1 \<noteq> 0 then m\<lparr>pres_desc := []\<rparr> else m);
          m2 = (if cached_has_bits AND 6 \<noteq> 0 then m1\<lparr>pres_code := 0, pres_identifier := 0\<rparr> else m1)
      in m2\<lparr>pres_has_bits := 0, pres_unknown := []\<rparr>)"

definition PhoneRes_MergeImpl :: "PhoneRes \<Rightarrow> PhoneRes \<Rightarrow> PhoneRes" where
  "PhoneRes_MergeImpl to_msg from =
     (let cached_has_bits = pres_has_bits from;
          m1 = (if cached_has_bits AND 7 \<noteq> 0 \<and> cached_has_bits AND 1 \<noteq> 0 then PhoneRes_internal_set_desc to_msg (pres_desc from) else to_msg);
          m2 = (if cached_has_bits AND 7 \<noteq> 0 \<and> cached_has_bits AND 2 \<noteq> 0 then m1\<lparr>pres_code := pres_code from\<rparr> else m1);
          m3 = (if cached_has_bits AND 7 \<noteq> 0 \<and> cached_has_bits AND 4 \<noteq> 0 then m2\<lparr>pres_identifier := pres_identifier from\<rparr> else m2)
      in m3\<lparr>pres_has_bits := pres_has_bits m3 OR cached_has_bits,
             pres_unknown := pres_unknown m3 @ pres_unknown from\<rparr>)"

text \<open>The flag tells whether both arguments are the same object.\<close>

definition PhoneRes_CopyFrom :: "bool \<Rightarrow> PhoneRes \<Rightarrow> PhoneRes \<Rightarrow> PhoneRes" where
  "PhoneRes_CopyFrom same m from =
     (if same then m else PhoneRes_MergeImpl (PhoneRes_Clear m) from)"

definition PhoneRes_InternalSwap :: "PhoneRes \<Rightarrow> PhoneRes \<Rightarrow> PhoneRes \<times> PhoneRes" where
  "PhoneRes_InternalSwap m other =
     (m\<lparr>pres_unknown := pres_unknown other, pres_has_bits := pres_has_bits other,
        pres_desc := pres_desc other, pres_code := pres_code other, pres_identifier := pres_identifier other\<rparr>,
      other\<lparr>pres_unknown := pres_unknown m, pres_has_bits := pres_has_bits m,
        pres_desc := pres_desc m, pres_code := pres_code m, pres_identifier := pres_identifier m\<rparr>)"

text \<open>\<^verbatim>\<open>GenericSwap\<close> belongs to the runtime and is an argument.\<close>

definition PhoneRes_Swap ::
    "(PhoneRes \<Rightarrow> PhoneRes \<Rightarrow> PhoneRes \<times> PhoneRes) \<Rightarrow> bool \<Rightarrow> PhoneRes \<Rightarrow> PhoneRes \<Rightarrow> PhoneRes \<times> PhoneRes" where
  "PhoneRes_Swap GenericSwap same m other =
     (if same then (m, other)
      else if pres_arena m = pres_arena other then PhoneRes_InternalSwap m other
      else GenericSwap m other)"

definition PhoneRes_UnsafeArenaSwap :: "bool \<Rightarrow> PhoneRes \<Rightarrow> PhoneRes \<Rightarrow> PhoneRes \<times> PhoneRes" where
  "PhoneRes_UnsafeArenaSwap same m other =
     (if same then (m, other) else PhoneRes_InternalSwap m other)"

definition PhoneRes_assign :: "bool \<Rightarrow> PhoneRes \<Rightarrow> PhoneRes \<Rightarrow> PhoneRes" where
  "PhoneRes_assign same m from = PhoneRes_CopyFrom same m from"

definition PhoneRes_move_assign :: "bool \<Rightarrow> PhoneRes \<Rightarrow> PhoneRes \<Rightarrow> PhoneRes \<times> PhoneRes" where
  "PhoneRes_move_assign same m from =
     (if same then (m, from)
      else if pres_arena m = pres_arena from then PhoneRes_InternalSwap m from
      else (PhoneRes_CopyFrom same m from, from))"

definition PhoneRes_move_ctor :: "addr option \<Rightarrow> PhoneRes \<Rightarrow> PhoneRes \<times> PhoneRes" where
  "PhoneRes_move_ctor arena from = PhoneRes_move_assign False (PhoneRes_ctor arena) from"

section \<open>Required fields, encoding and decoding\<close>

definition PhoneRes_MissingRequiredFields :: "u32 \<Rightarrow> bool" where
  "PhoneRes_MissingRequiredFields has_bits \<longleftrightarrow> (has_bits AND 6) XOR 6 \<noteq> 0"

definition PhoneRes_IsInitialized :: "PhoneRes \<Rightarrow> bool" where
  "PhoneRes_IsInitialized m =
     (if PhoneRes_MissingRequiredFields (pres_has_bits m) then False else True)"

definition PhoneRes_table :: "tc_field list" where
  "PhoneRes_table =
     [\<lparr>tc_number = 1, tc_hasbit = 1, tc_kind = KInt32\<rparr>,
      \<lparr>tc_number = 2, tc_hasbit = 0, tc_kind = KRawString\<rparr>,
      \<lparr>tc_number = 3, tc_hasbit = 2, tc_kind = KInt32\<rparr>]"

text \<open>A store of the parse loop: the field entry gives the field and its has-bit.\<close>

definition PhoneRes_store :: "nat \<times> pb_value \<Rightarrow> PhoneRes \<Rightarrow> PhoneRes" where
  "PhoneRes_store st m =
     (case st of
        (n, VString s) \<Rightarrow> (if n = 2 then m\<lparr>pres_desc := s, pres_has_bits := pres_has_bits m OR 1\<rparr> else m)
      | (n, VInt32 v) \<Rightarrow> (if n = 1 then m\<lparr>pres_code := v, pres_has_bits := pres_has_bits m OR 2\<rparr> else (if n = 3 then m\<lparr>pres_identifier := v, pres_has_bits := pres_has_bits m OR 4\<rparr> else m)))"

definition PhoneRes_InternalParse ::
    "'x pb_runtime_scheme \<Rightarrow> PhoneRes \<Rightarrow> byte list \<Rightarrow> PhoneRes \<times> bool" where
  "PhoneRes_InternalParse rt m bs =
     (case ParseLoop rt PhoneRes_table bs of (sts, u, r) \<Rightarrow>
        let m1 = fold PhoneRes_store sts m in (m1\<lparr>pres_unknown := pres_unknown m1 @ u\<rparr>, r))"

definition PhoneRes_InternalSerialize :: "'x pb_runtime_scheme \<Rightarrow> PhoneRes \<Rightarrow> byte list" where
  "PhoneRes_InternalSerialize rt m =
     (let cached_has_bits = pres_has_bits m
      in (if cached_has_bits AND 2 \<noteq> 0 then WriteInt32 rt 1 (pres_code m) else []) @
         (if cached_has_bits AND 1 \<noteq> 0 then WriteString rt 2 (pres_desc m) else []) @
         (if cached_has_bits AND 4 \<noteq> 0 then WriteInt32 rt 3 (pres_identifier m) else []) @
         (if pres_unknown m \<noteq> [] then pres_unknown m else []))"

definition PhoneRes_ByteSizeLong :: "'x pb_runtime_scheme \<Rightarrow> PhoneRes \<Rightarrow> nat \<times> PhoneRes" where
  "PhoneRes_ByteSizeLong rt m =
     (let cached_has_bits = pres_has_bits m;
          total_size =
            (if cached_has_bits AND 1 \<noteq> 0 then 1 + StringSize rt (pres_desc m) else 0) +
            (if cached_has_bits AND 6 \<noteq> 0 \<and> cached_has_bits AND 2 \<noteq> 0 then Int32SizePlusOne rt (pres_code m) else 0) +
            (if cached_has_bits AND 6 \<noteq> 0 \<and> cached_has_bits AND 4 \<noteq> 0 then Int32SizePlusOne rt (pres_identifier m) else 0);
          total_size = total_size + length (pres_unknown m)
      in (total_size, m\<lparr>pres_cached_size := of_nat total_size\<rparr>))"

definition PhoneRes_GetCachedSize :: "PhoneRes \<Rightarrow> i32" where
  "PhoneRes_GetCachedSize m = pres_cached_size m"

section \<open>Well-formed messages and the contract\<close>

definition PhoneRes_wf :: "PhoneRes \<Rightarrow> bool" where
  "PhoneRes_wf m \<longleftrightarrow> only_bits 3 (pres_has_bits m)
     \<and> (\<not> bit (pres_has_bits m) 0 \<longrightarrow> pres_desc m = [])
     \<and> (\<not> bit (pres_has_bits m) 1 \<longrightarrow> pres_code m = 0)
     \<and> (\<not> bit (pres_has_bits m) 2 \<longrightarrow> pres_identifier m = 0)"

definition PhoneRes_norm :: "PhoneRes \<Rightarrow> PhoneRes" where
  "PhoneRes_norm m = m\<lparr>pres_arena := None, pres_cached_size := 0\<rparr>"

lemmas PhoneRes_defs =
  PhoneRes_wf_def PhoneRes_norm_def PhoneRes_ctor_def PhoneRes_Clear_def PhoneRes_MergeImpl_def
  PhoneRes_internal_set_desc_def PhoneRes_set_desc_def PhoneRes_clear_desc_def
  PhoneRes_internal_set_code_def PhoneRes_set_code_def PhoneRes_clear_code_def
  PhoneRes_internal_set_identifier_def PhoneRes_set_identifier_def PhoneRes_clear_identifier_def
  PhoneRes_release_desc_def PhoneRes_set_allocated_desc_def PhoneRes_mutable_desc_def PhoneRes_internal_mutable_desc_def

lemma PhoneRes_wf_new: "PhoneRes_wf (PhoneRes_ctor arena)" "PhoneRes_wf PhoneRes_default_instance"
  by (simp_all add: PhoneRes_wf_def PhoneRes_ctor_def PhoneRes_default_instance_def)

lemma PhoneRes_wf_accessors:
  assumes "PhoneRes_wf m"
  shows "PhoneRes_wf (PhoneRes_set_desc m s)"
    and "PhoneRes_wf (PhoneRes_clear_desc m)"
    and "PhoneRes_wf (PhoneRes_set_code m v1)"
    and "PhoneRes_wf (PhoneRes_clear_code m)"
    and "PhoneRes_wf (PhoneRes_set_identifier m v2)"
    and "PhoneRes_wf (PhoneRes_clear_identifier m)"
    and "PhoneRes_wf (snd (PhoneRes_mutable_desc m))"
    and "PhoneRes_wf (snd (PhoneRes_release_desc m))"
    and "PhoneRes_wf (PhoneRes_set_allocated_desc m q)"
  using assms by (simp_all add: PhoneRes_defs Let_def split: option.split)

lemma PhoneRes_wf_Clear: "PhoneRes_wf m \<Longrightarrow> PhoneRes_wf (PhoneRes_Clear m)"
  by (simp add: PhoneRes_defs Let_def)

lemma PhoneRes_norm_Clear: "PhoneRes_wf m \<Longrightarrow> PhoneRes_norm (PhoneRes_Clear m) = PhoneRes_ctor None"
  by (cases m) (simp add: PhoneRes_defs Let_def)

lemma PhoneRes_wf_MergeImpl: "PhoneRes_wf m \<Longrightarrow> PhoneRes_wf m' \<Longrightarrow> PhoneRes_wf (PhoneRes_MergeImpl m m')"
  by (simp add: PhoneRes_defs Let_def bit_or_iff)

lemma PhoneRes_norm_MergeImpl:
  assumes "PhoneRes_wf m'" and "PhoneRes_norm m = PhoneRes_ctor None"
  shows "PhoneRes_norm (PhoneRes_MergeImpl m m') = PhoneRes_norm m'"
proof -
  have m: "pres_has_bits m = 0" "pres_unknown m = []" "pres_desc m = []" "pres_code m = 0" "pres_identifier m = 0"
    using assms(2) by (cases m; simp add: PhoneRes_norm_def PhoneRes_ctor_def)+
  show ?thesis
    using assms(1) m by (cases m; cases m') (auto simp: PhoneRes_defs Let_def or_own_bit)
qed

lemma PhoneRes_table_ok [simp]: "table_numbers_ok PhoneRes_table"
  by (simp add: table_numbers_ok_def PhoneRes_table_def)

lemma PhoneRes_table_fields [simp]:
  "has_field PhoneRes_table 1 KInt32"
  "has_field PhoneRes_table 2 KRawString"
  "has_field PhoneRes_table 3 KInt32"
  by (simp_all add: has_field_def PhoneRes_table_def)

lemma PhoneRes_bsize_ser:
  "runtime_ok rt \<Longrightarrow> fst (PhoneRes_ByteSizeLong rt m) = length (PhoneRes_InternalSerialize rt m)"
  by (simp add: PhoneRes_ByteSizeLong_def PhoneRes_InternalSerialize_def Let_def runtime_okD)

lemma PhoneRes_InternalParse_ser:
  assumes rt: "runtime_ok rt" and wf: "PhoneRes_wf m" and u: "pres_unknown m = []"
    and m0: "PhoneRes_norm m0 = PhoneRes_ctor None"
  shows "snd (PhoneRes_InternalParse rt m0 (PhoneRes_InternalSerialize rt m))"
    and "PhoneRes_norm (fst (PhoneRes_InternalParse rt m0 (PhoneRes_InternalSerialize rt m))) = PhoneRes_norm m"
proof -
  have z: "pres_has_bits m0 = 0" "pres_unknown m0 = []" "pres_desc m0 = []" "pres_code m0 = 0" "pres_identifier m0 = 0"
    using m0 by (cases m0; simp add: PhoneRes_norm_def PhoneRes_ctor_def)+
  have nil: "ParseLoop rt PhoneRes_table [] = ([], [], True)"
    by (simp add: runtime_okD(3) [OF rt])
  note one = runtime_okD(4,5) [OF rt PhoneRes_table_ok, of _ _ "[]", unfolded append_Nil2 nil]
  obtain b0 b1 b2 where b: "bit (pres_has_bits m) 0 = b0" "bit (pres_has_bits m) 1 = b1" "bit (pres_has_bits m) 2 = b2"
    by blast
  have bits: "pres_has_bits m = (if b0 then 1 else 0) OR (if b1 then 2 else 0) OR (if b2 then 4 else 0)"
    using has_bits_decode(3) [of "pres_has_bits m"] wf unfolding PhoneRes_wf_def b by blast
  have run: "ParseLoop rt PhoneRes_table (PhoneRes_InternalSerialize rt m) =
      ((if b1 then [(1, VInt32 (pres_code m))] else []) @ (if b0 then [(2, VString (pres_desc m))] else []) @ (if b2 then [(3, VInt32 (pres_identifier m))] else []), [], True)"
    by (cases b0; cases b1; cases b2)
       (simp_all add: PhoneRes_InternalSerialize_def u Let_def nil one b
        runtime_okD(4,5) [OF rt PhoneRes_table_ok] del: One_nat_def)
  show "snd (PhoneRes_InternalParse rt m0 (PhoneRes_InternalSerialize rt m))"
    by (simp add: PhoneRes_InternalParse_def run Let_def)
  show "PhoneRes_norm (fst (PhoneRes_InternalParse rt m0 (PhoneRes_InternalSerialize rt m))) = PhoneRes_norm m"
    using wf z u bits unfolding PhoneRes_wf_def b
    by (cases b0; cases b1; cases b2)
       (simp_all add: PhoneRes_InternalParse_def run Let_def PhoneRes_store_def PhoneRes_norm_def del: One_nat_def)
qed

lemma PhoneRes_wf_InternalParse: "PhoneRes_wf m \<Longrightarrow> PhoneRes_wf (fst (PhoneRes_InternalParse rt m bs))"
proof -
  have "PhoneRes_wf (fold PhoneRes_store sts m)" if "PhoneRes_wf m" for sts
    using that
    by (induction sts arbitrary: m) (auto simp: PhoneRes_wf_def PhoneRes_store_def split: prod.splits pb_value.splits)
  then show "PhoneRes_wf m \<Longrightarrow> ?thesis"
    by (auto simp: PhoneRes_InternalParse_def PhoneRes_wf_def Let_def split: prod.splits)
qed

lemma PhoneRes_ser_cong:
  assumes "PhoneRes_norm m = PhoneRes_norm m'"
  shows "PhoneRes_InternalSerialize rt m = PhoneRes_InternalSerialize rt m'"
  using assms by (cases m; cases m') (simp add: PhoneRes_norm_def PhoneRes_InternalSerialize_def)

interpretation pres: pb_class PhoneRes_wf PhoneRes_norm "PhoneRes_ctor None" pres_unknown PhoneRes_Clear
  PhoneRes_MergeImpl PhoneRes_InternalSerialize PhoneRes_ByteSizeLong PhoneRes_InternalParse
  PhoneRes_IsInitialized
proof
  fix m m' m0 :: PhoneRes and rt :: "'x pb_runtime_scheme"
  show "PhoneRes_wf m \<Longrightarrow> PhoneRes_wf (PhoneRes_Clear m)" by (rule PhoneRes_wf_Clear)
  show "PhoneRes_wf m \<Longrightarrow> PhoneRes_norm (PhoneRes_Clear m) = PhoneRes_ctor None" by (rule PhoneRes_norm_Clear)
  show "PhoneRes_wf m \<Longrightarrow> PhoneRes_wf m' \<Longrightarrow> PhoneRes_wf (PhoneRes_MergeImpl m m')" by (rule PhoneRes_wf_MergeImpl)
  show "PhoneRes_wf m' \<Longrightarrow> PhoneRes_norm m = PhoneRes_ctor None \<Longrightarrow>
      PhoneRes_norm (PhoneRes_MergeImpl m m') = PhoneRes_norm m'" by (rule PhoneRes_norm_MergeImpl)
  show "PhoneRes_norm m = PhoneRes_norm m' \<Longrightarrow>
      PhoneRes_InternalSerialize rt m = PhoneRes_InternalSerialize rt m'" by (rule PhoneRes_ser_cong)
  show "PhoneRes_norm m = PhoneRes_norm m' \<Longrightarrow> PhoneRes_IsInitialized m = PhoneRes_IsInitialized m'"
    by (cases m; cases m') (simp add: PhoneRes_norm_def PhoneRes_IsInitialized_def)
  show "runtime_ok rt \<Longrightarrow> fst (PhoneRes_ByteSizeLong rt m) = length (PhoneRes_InternalSerialize rt m)"
    by (rule PhoneRes_bsize_ser)
  show "PhoneRes_norm (snd (PhoneRes_ByteSizeLong rt m)) = PhoneRes_norm m"
    by (simp add: PhoneRes_ByteSizeLong_def PhoneRes_norm_def Let_def)
  show "snd (PhoneRes_InternalParse rt m0 (PhoneRes_InternalSerialize rt m)) \<and>
      PhoneRes_norm (fst (PhoneRes_InternalParse rt m0 (PhoneRes_InternalSerialize rt m))) = PhoneRes_norm m \<and>
      PhoneRes_wf (fst (PhoneRes_InternalParse rt m0 (PhoneRes_InternalSerialize rt m)))"
    if "runtime_ok rt" "PhoneRes_wf m" "pres_unknown m = []" "PhoneRes_wf m0" "PhoneRes_norm m0 = PhoneRes_ctor None"
    using PhoneRes_InternalParse_ser [OF that(1-3,5)] PhoneRes_wf_InternalParse [OF that(4)] by blast
qed

end
