(* ===== verification/Pb_LoginReq.thy ===== *)
theory Pb_LoginReq
  imports Pb_Class
begin

text \<open>
  The generated class \<^verbatim>\<open>LoginReq\<close> of \<^verbatim>\<open>src/shbk2pb\<close>: its data, its accessors, clearing, merging,
  copying and swapping, its parse table and its encoding, one definition per generated
  function, and the interpretation of the contract of a message class.
\<close>

section \<open>Data and construction\<close>

record LoginReq =
  lreq_arena :: "addr option"
  lreq_unknown :: "byte list"
  lreq_has_bits :: u32
  lreq_cached_size :: i32
  lreq_phone_number :: string
  lreq_identifier :: i32

definition LoginReq_ctor :: "addr option \<Rightarrow> LoginReq" where
  "LoginReq_ctor arena =
     \<lparr>lreq_arena = arena, lreq_unknown = [], lreq_has_bits = 0, lreq_cached_size = 0,
      lreq_phone_number = [], lreq_identifier = 0\<rparr>"

definition LoginReq_copy_ctor :: "addr option \<Rightarrow> LoginReq \<Rightarrow> LoginReq" where
  "LoginReq_copy_ctor arena from =
     \<lparr>lreq_arena = arena, lreq_unknown = lreq_unknown from, lreq_has_bits = lreq_has_bits from,
      lreq_cached_size = 0, lreq_phone_number = lreq_phone_number from, lreq_identifier = lreq_identifier from\<rparr>"

definition LoginReq_default_instance :: LoginReq where
  "LoginReq_default_instance =
     \<lparr>lreq_arena = None, lreq_unknown = [], lreq_has_bits = 0, lreq_cached_size = 0,
      lreq_phone_number = [], lreq_identifier = 0\<rparr>"

section \<open>Accessors\<close>

definition LoginReq_has_phone_number :: "LoginReq \<Rightarrow> bool" where
  "LoginReq_has_phone_number m \<longleftrightarrow> lreq_has_bits m AND 1 \<noteq> 0"

definition LoginReq_clear_phone_number :: "LoginReq \<Rightarrow> LoginReq" where
  "LoginReq_clear_phone_number m = m\<lparr>lreq_phone_number := [], lreq_has_bits := lreq_has_bits m AND NOT 1\<rparr>"

definition LoginReq_get_phone_number :: "LoginReq \<Rightarrow> string" where
  "LoginReq_get_phone_number m = lreq_phone_number m"

definition LoginReq_set_phone_number :: "LoginReq \<Rightarrow> string \<Rightarrow> LoginReq" where
  "LoginReq_set_phone_number m arg = m\<lparr>lreq_has_bits := lreq_has_bits m OR 1, lreq_phone_number := arg\<rparr>"

definition LoginReq_internal_set_phone_number :: "LoginReq \<Rightarrow> string \<Rightarrow> LoginReq" where
  "LoginReq_internal_set_phone_number m v = m\<lparr>lreq_has_bits := lreq_has_bits m OR 1, lreq_phone_number := v\<rparr>"

text \<open>\<^verbatim>\<open>mutable_phone_number()\<close> returns a pointer to the field: here, what it points to.\<close>

definition LoginReq_internal_mutable_phone_number :: "LoginReq \<Rightarrow> string \<times> LoginReq" where
  "LoginReq_internal_mutable_phone_number m = (lreq_phone_number m, m\<lparr>lreq_has_bits := lreq_has_bits m OR 1\<rparr>)"

definition LoginReq_mutable_phone_number :: "LoginReq \<Rightarrow> string \<times> LoginReq" where
  "LoginReq_mutable_phone_number m = LoginReq_internal_mutable_phone_number m"

definition LoginReq_release_phone_number :: "LoginReq \<Rightarrow> string option \<times> LoginReq" where
  "LoginReq_release_phone_number m =
     (if lreq_has_bits m AND 1 = 0 then (None, m)
      else (Some (lreq_phone_number m), m\<lparr>lreq_has_bits := lreq_has_bits m AND NOT 1, lreq_phone_number := []\<rparr>))"

definition LoginReq_set_allocated_phone_number :: "LoginReq \<Rightarrow> string option \<Rightarrow> LoginReq" where
  "LoginReq_set_allocated_phone_number m v =
     (let m1 = (if v \<noteq> None then m\<lparr>lreq_has_bits := lreq_has_bits m OR 1\<rparr>
                else m\<lparr>lreq_has_bits := lreq_has_bits m AND NOT 1\<rparr>)
      in m1\<lparr>lreq_phone_number := (case v of None \<Rightarrow> [] | Some s \<Rightarrow> s)\<rparr>)"

definition LoginReq_has_identifier :: "LoginReq \<Rightarrow> bool" where
  "LoginReq_has_identifier m \<longleftrightarrow> lreq_has_bits m AND 2 \<noteq> 0"

definition LoginReq_clear_identifier :: "LoginReq \<Rightarrow> LoginReq" where
  "LoginReq_clear_identifier m = m\<lparr>lreq_identifier := 0, lreq_has_bits := lreq_has_bits m AND NOT 2\<rparr>"

definition LoginReq_get_identifier :: "LoginReq \<Rightarrow> i32" where
  "LoginReq_get_identifier m = lreq_identifier m"

definition LoginReq_internal_set_identifier :: "LoginReq \<Rightarrow> i32 \<Rightarrow> LoginReq" where
  "LoginReq_internal_set_identifier m v = m\<lparr>lreq_identifier := v\<rparr>"

definition LoginReq_set_identifier :: "LoginReq \<Rightarrow> i32 \<Rightarrow> LoginReq" where
  "LoginReq_set_identifier m v =
     (let m1 = LoginReq_internal_set_identifier m v in m1\<lparr>lreq_has_bits := lreq_has_bits m1 OR 2\<rparr>)"

section \<open>Clearing, merging, copying, swapping\<close>

definition LoginReq_Clear :: "LoginReq \<Rightarrow> LoginReq" where
  "LoginReq_Clear m =
     (let cached_has_bits = lreq_has_bits m;
          m1 = (if cached_has_bits AND 1 \<noteq> 0 then m\<lparr>lreq_phone_number := []\<rparr> else m);
          m2 = m1\<lparr>lreq_identifier := 0\<rparr>
      in m2\<lparr>lreq_has_bits := 0, lreq_unknown := []\<rparr>)"

definition LoginReq_MergeImpl :: "LoginReq \<Rightarrow> LoginReq \<Rightarrow> LoginReq" where
  "LoginReq_MergeImpl to_msg from =
     (let cached_has_bits = lreq_has_bits from;
          m1 = (if cached_has_bits AND 3 \<noteq> 0 \<and> cached_has_bits AND 1 \<noteq> 0 then LoginReq_internal_set_phone_number to_msg (lreq_phone_number from) else to_msg);
          m2 = (if cached_has_bits AND 3 \<noteq> 0 \<and> cached_has_bits AND 2 \<noteq> 0 then m1\<lparr>lreq_identifier := lreq_identifier from\<rparr> else m1)
      in m2\<lparr>lreq_has_bits := lreq_has_bits m2 OR cached_has_bits,
             lreq_unknown := lreq_unknown m2 @ lreq_unknown from\<rparr>)"

text \<open>The flag tells whether both arguments are the same object.\<close>

definition LoginReq_CopyFrom :: "bool \<Rightarrow> LoginReq \<Rightarrow> LoginReq \<Rightarrow> LoginReq" where
  "LoginReq_CopyFrom same m from =
     (if same then m else LoginReq_MergeImpl (LoginReq_Clear m) from)"

definition LoginReq_InternalSwap :: "LoginReq \<Rightarrow> LoginReq \<Rightarrow> LoginReq \<times> LoginReq" where
  "LoginReq_InternalSwap m other =
     (m\<lparr>lreq_unknown := lreq_unknown other, lreq_has_bits := lreq_has_bits other,
        lreq_phone_number := lreq_phone_number other, lreq_identifier := lreq_identifier other\<rparr>,
      other\<lparr>lreq_unknown := lreq_unknown m, lreq_has_bits := lreq_has_bits m,
        lreq_phone_number := lreq_phone_number m, lreq_identifier := lreq_identifier m\<rparr>)"

text \<open>\<^verbatim>\<open>GenericSwap\<close> belongs to the runtime and is an argument.\<close>

definition LoginReq_Swap ::
    "(LoginReq \<Rightarrow> LoginReq \<Rightarrow> LoginReq \<times> LoginReq) \<Rightarrow> bool \<Rightarrow> LoginReq \<Rightarrow> LoginReq \<Rightarrow> LoginReq \<times> LoginReq" where
  "LoginReq_Swap GenericSwap same m other =
     (if same then (m, other)
      else if lreq_arena m = lreq_arena other then LoginReq_InternalSwap m other
      else GenericSwap m other)"

definition LoginReq_UnsafeArenaSwap :: "bool \<Rightarrow> LoginReq \<Rightarrow> LoginReq \<Rightarrow> LoginReq \<times> LoginReq" where
  "LoginReq_UnsafeArenaSwap same m other =
     (if same then (m, other) else LoginReq_InternalSwap m other)"

definition LoginReq_assign :: "bool \<Rightarrow> LoginReq \<Rightarrow> LoginReq \<Rightarrow> LoginReq" where
  "LoginReq_assign same m from = LoginReq_CopyFrom same m from"

definition LoginReq_move_assign :: "bool \<Rightarrow> LoginReq \<Rightarrow> LoginReq \<Rightarrow> LoginReq \<times> LoginReq" where
  "LoginReq_move_assign same m from =
     (if same then (m, from)
      else if lreq_arena m = lreq_arena from then LoginReq_InternalSwap m from
      else (LoginReq_CopyFrom same m from, from))"

definition LoginReq_move_ctor :: "addr option \<Rightarrow> LoginReq \<Rightarrow> LoginReq \<times> LoginReq" where
  "LoginReq_move_ctor arena from = LoginReq_move_assign False (LoginReq_ctor arena) from"

section \<open>Required fields, encoding and decoding\<close>

definition LoginReq_MissingRequiredFields :: "u32 \<Rightarrow> bool" where
  "LoginReq_MissingRequiredFields has_bits \<longleftrightarrow> (has_bits AND 3) XOR 3 \<noteq> 0"

definition LoginReq_IsInitialized :: "LoginReq \<Rightarrow> bool" where
  "LoginReq_IsInitialized m =
     (if LoginReq_MissingRequiredFields (lreq_has_bits m) then False else True)"

definition LoginReq_table :: "tc_field list" where
  "LoginReq_table =
     [\<lparr>tc_number = 1, tc_hasbit = 0, tc_kind = KRawString\<rparr>,
      \<lparr>tc_number = 2, tc_hasbit = 1, tc_kind = KInt32\<rparr>]"

text \<open>A store of the parse loop: the field entry gives the field and its has-bit.\<close>

definition LoginReq_store :: "nat \<times> pb_value \<Rightarrow> LoginReq \<Rightarrow> LoginReq" where
  "LoginReq_store st m =
     (case st of
        (n, VString s) \<Rightarrow> (if n = 1 then m\<lparr>lreq_phone_number := s, lreq_has_bits := lreq_has_bits m OR 1\<rparr> else m)
      | (n, VInt32 v) \<Rightarrow> (if n = 2 then m\<lparr>lreq_identifier := v, lreq_has_bits := lreq_has_bits m OR 2\<rparr> else m))"

definition LoginReq_InternalParse ::
    "'x pb_runtime_scheme \<Rightarrow> LoginReq \<Rightarrow> byte list \<Rightarrow> LoginReq \<times> bool" where
  "LoginReq_InternalParse rt m bs =
     (case ParseLoop rt LoginReq_table bs of (sts, u, r) \<Rightarrow>
        let m1 = fold LoginReq_store sts m in (m1\<lparr>lreq_unknown := lreq_unknown m1 @ u\<rparr>, r))"

definition LoginReq_InternalSerialize :: "'x pb_runtime_scheme \<Rightarrow> LoginReq \<Rightarrow> byte list" where
  "LoginReq_InternalSerialize rt m =
     (let cached_has_bits = lreq_has_bits m
      in (if cached_has_bits AND 1 \<noteq> 0 then WriteString rt 1 (lreq_phone_number m) else []) @
         (if cached_has_bits AND 2 \<noteq> 0 then WriteInt32 rt 2 (lreq_identifier m) else []) @
         (if lreq_unknown m \<noteq> [] then lreq_unknown m else []))"

definition LoginReq_ByteSizeLong :: "'x pb_runtime_scheme \<Rightarrow> LoginReq \<Rightarrow> nat \<times> LoginReq" where
  "LoginReq_ByteSizeLong rt m =
     (let cached_has_bits = lreq_has_bits m;
          total_size =
            (if cached_has_bits AND 3 \<noteq> 0 \<and> cached_has_bits AND 1 \<noteq> 0 then 1 + StringSize rt (lreq_phone_number m) else 0) +
            (if cached_has_bits AND 3 \<noteq> 0 \<and> cached_has_bits AND 2 \<noteq> 0 then Int32SizePlusOne rt (lreq_identifier m) else 0);
          total_size = total_size + length (lreq_unknown m)
      in (total_size, m\<lparr>lreq_cached_size := of_nat total_size\<rparr>))"

definition LoginReq_GetCachedSize :: "LoginReq \<Rightarrow> i32" where
  "LoginReq_GetCachedSize m = lreq_cached_size m"

section \<open>Well-formed messages and the contract\<close>

definition LoginReq_wf :: "LoginReq \<Rightarrow> bool" where
  "LoginReq_wf m \<longleftrightarrow> only_bits 2 (lreq_has_bits m)
     \<and> (\<not> bit (lreq_has_bits m) 0 \<longrightarrow> lreq_phone_number m = [])
     \<and> (\<not> bit (lreq_has_bits m) 1 \<longrightarrow> lreq_identifier m = 0)"

definition LoginReq_norm :: "LoginReq \<Rightarrow> LoginReq" where
  "LoginReq_norm m = m\<lparr>lreq_arena := None, lreq_cached_size := 0\<rparr>"

lemmas LoginReq_defs =
  LoginReq_wf_def LoginReq_norm_def LoginReq_ctor_def LoginReq_Clear_def LoginReq_MergeImpl_def
  LoginReq_internal_set_phone_number_def LoginReq_set_phone_number_def LoginReq_clear_phone_number_def
  LoginReq_internal_set_identifier_def LoginReq_set_identifier_def LoginReq_clear_identifier_def
  LoginReq_release_phone_number_def LoginReq_set_allocated_phone_number_def LoginReq_mutable_phone_number_def LoginReq_internal_mutable_phone_number_def

lemma LoginReq_wf_new: "LoginReq_wf (LoginReq_ctor arena)" "LoginReq_wf LoginReq_default_instance"
  by (simp_all add: LoginReq_wf_def LoginReq_ctor_def LoginReq_default_instance_def)

lemma LoginReq_wf_accessors:
  assumes "LoginReq_wf m"
  shows "LoginReq_wf (LoginReq_set_phone_number m s)"
    and "LoginReq_wf (LoginReq_clear_phone_number m)"
    and "LoginReq_wf (LoginReq_set_identifier m v1)"
    and "LoginReq_wf (LoginReq_clear_identifier m)"
    and "LoginReq_wf (snd (LoginReq_mutable_phone_number m))"
    and "LoginReq_wf (snd (LoginReq_release_phone_number m))"
    and "LoginReq_wf (LoginReq_set_allocated_phone_number m q)"
  using assms by (simp_all add: LoginReq_defs Let_def split: option.split)

lemma LoginReq_wf_Clear: "LoginReq_wf m \<Longrightarrow> LoginReq_wf (LoginReq_Clear m)"
  by (simp add: LoginReq_defs Let_def)

lemma LoginReq_norm_Clear: "LoginReq_wf m \<Longrightarrow> LoginReq_norm (LoginReq_Clear m) = LoginReq_ctor None"
  by (cases m) (simp add: LoginReq_defs Let_def)

lemma LoginReq_wf_MergeImpl: "LoginReq_wf m \<Longrightarrow> LoginReq_wf m' \<Longrightarrow> LoginReq_wf (LoginReq_MergeImpl m m')"
  by (simp add: LoginReq_defs Let_def bit_or_iff)

lemma LoginReq_norm_MergeImpl:
  assumes "LoginReq_wf m'" and "LoginReq_norm m = LoginReq_ctor None"
  shows "LoginReq_norm (LoginReq_MergeImpl m m') = LoginReq_norm m'"
proof -
  have m: "lreq_has_bits m = 0" "lreq_unknown m = []" "lreq_phone_number m = []" "lreq_identifier m = 0"
    using assms(2) by (cases m; simp add: LoginReq_norm_def LoginReq_ctor_def)+
  show ?thesis
    using assms(1) m by (cases m; cases m') (auto simp: LoginReq_defs Let_def or_own_bit)
qed

lemma LoginReq_table_ok [simp]: "table_numbers_ok LoginReq_table"
  by (simp add: table_numbers_ok_def LoginReq_table_def)

lemma LoginReq_table_fields [simp]:
  "has_field LoginReq_table 1 KRawString"
  "has_field LoginReq_table 2 KInt32"
  by (simp_all add: has_field_def LoginReq_table_def)

lemma LoginReq_bsize_ser:
  "runtime_ok rt \<Longrightarrow> fst (LoginReq_ByteSizeLong rt m) = length (LoginReq_InternalSerialize rt m)"
  by (simp add: LoginReq_ByteSizeLong_def LoginReq_InternalSerialize_def Let_def runtime_okD)

lemma LoginReq_InternalParse_ser:
  assumes rt: "runtime_ok rt" and wf: "LoginReq_wf m" and u: "lreq_unknown m = []"
    and m0: "LoginReq_norm m0 = LoginReq_ctor None"
  shows "snd (LoginReq_InternalParse rt m0 (LoginReq_InternalSerialize rt m))"
    and "LoginReq_norm (fst (LoginReq_InternalParse rt m0 (LoginReq_InternalSerialize rt m))) = LoginReq_norm m"
proof -
  have z: "lreq_has_bits m0 = 0" "lreq_unknown m0 = []" "lreq_phone_number m0 = []" "lreq_identifier m0 = 0"
    using m0 by (cases m0; simp add: LoginReq_norm_def LoginReq_ctor_def)+
  have nil: "ParseLoop rt LoginReq_table [] = ([], [], True)"
    by (simp add: runtime_okD(3) [OF rt])
  note one = runtime_okD(4,5) [OF rt LoginReq_table_ok, of _ _ "[]", unfolded append_Nil2 nil]
  obtain b0 b1 where b: "bit (lreq_has_bits m) 0 = b0" "bit (lreq_has_bits m) 1 = b1"
    by blast
  have bits: "lreq_has_bits m = (if b0 then 1 else 0) OR (if b1 then 2 else 0)"
    using has_bits_decode(2) [of "lreq_has_bits m"] wf unfolding LoginReq_wf_def b by blast
  have run: "ParseLoop rt LoginReq_table (LoginReq_InternalSerialize rt m) =
      ((if b0 then [(1, VString (lreq_phone_number m))] else []) @ (if b1 then [(2, VInt32 (lreq_identifier m))] else []), [], True)"
    by (cases b0; cases b1)
       (simp_all add: LoginReq_InternalSerialize_def u Let_def nil one b
        runtime_okD(4,5) [OF rt LoginReq_table_ok] del: One_nat_def)
  show "snd (LoginReq_InternalParse rt m0 (LoginReq_InternalSerialize rt m))"
    by (simp add: LoginReq_InternalParse_def run Let_def)
  show "LoginReq_norm (fst (LoginReq_InternalParse rt m0 (LoginReq_InternalSerialize rt m))) = LoginReq_norm m"
    using wf z u bits unfolding LoginReq_wf_def b
    by (cases b0; cases b1)
       (simp_all add: LoginReq_InternalParse_def run Let_def LoginReq_store_def LoginReq_norm_def del: One_nat_def)
qed

lemma LoginReq_wf_InternalParse: "LoginReq_wf m \<Longrightarrow> LoginReq_wf (fst (LoginReq_InternalParse rt m bs))"
proof -
  have "LoginReq_wf (fold LoginReq_store sts m)" if "LoginReq_wf m" for sts
    using that
    by (induction sts arbitrary: m) (auto simp: LoginReq_wf_def LoginReq_store_def split: prod.splits pb_value.splits)
  then show "LoginReq_wf m \<Longrightarrow> ?thesis"
    by (auto simp: LoginReq_InternalParse_def LoginReq_wf_def Let_def split: prod.splits)
qed

lemma LoginReq_ser_cong:
  assumes "LoginReq_norm m = LoginReq_norm m'"
  shows "LoginReq_InternalSerialize rt m = LoginReq_InternalSerialize rt m'"
  using assms by (cases m; cases m') (simp add: LoginReq_norm_def LoginReq_InternalSerialize_def)

interpretation lreq: pb_class LoginReq_wf LoginReq_norm "LoginReq_ctor None" lreq_unknown LoginReq_Clear
  LoginReq_MergeImpl LoginReq_InternalSerialize LoginReq_ByteSizeLong LoginReq_InternalParse
  LoginReq_IsInitialized
proof
  fix m m' m0 :: LoginReq and rt :: "'x pb_runtime_scheme"
  show "LoginReq_wf m \<Longrightarrow> LoginReq_wf (LoginReq_Clear m)" by (rule LoginReq_wf_Clear)
  show "LoginReq_wf m \<Longrightarrow> LoginReq_norm (LoginReq_Clear m) = LoginReq_ctor None" by (rule LoginReq_norm_Clear)
  show "LoginReq_wf m \<Longrightarrow> LoginReq_wf m' \<Longrightarrow> LoginReq_wf (LoginReq_MergeImpl m m')" by (rule LoginReq_wf_MergeImpl)
  show "LoginReq_wf m' \<Longrightarrow> LoginReq_norm m = LoginReq_ctor None \<Longrightarrow>
      LoginReq_norm (LoginReq_MergeImpl m m') = LoginReq_norm m'" by (rule LoginReq_norm_MergeImpl)
  show "LoginReq_norm m = LoginReq_norm m' \<Longrightarrow>
      LoginReq_InternalSerialize rt m = LoginReq_InternalSerialize rt m'" by (rule LoginReq_ser_cong)
  show "LoginReq_norm m = LoginReq_norm m' \<Longrightarrow> LoginReq_IsInitialized m = LoginReq_IsInitialized m'"
    by (cases m; cases m') (simp add: LoginReq_norm_def LoginReq_IsInitialized_def)
  show "runtime_ok rt \<Longrightarrow> fst (LoginReq_ByteSizeLong rt m) = length (LoginReq_InternalSerialize rt m)"
    by (rule LoginReq_bsize_ser)
  show "LoginReq_norm (snd (LoginReq_ByteSizeLong rt m)) = LoginReq_norm m"
    by (simp add: LoginReq_ByteSizeLong_def LoginReq_norm_def Let_def)
  show "snd (LoginReq_InternalParse rt m0 (LoginReq_InternalSerialize rt m)) \<and>
      LoginReq_norm (fst (LoginReq_InternalParse rt m0 (LoginReq_InternalSerialize rt m))) = LoginReq_norm m \<and>
      LoginReq_wf (fst (LoginReq_InternalParse rt m0 (LoginReq_InternalSerialize rt m)))"
    if "runtime_ok rt" "LoginReq_wf m" "lreq_unknown m = []" "LoginReq_wf m0" "LoginReq_norm m0 = LoginReq_ctor None"
    using LoginReq_InternalParse_ser [OF that(1-3,5)] LoginReq_wf_InternalParse [OF that(4)] by blast
qed

end
