(* ===== verification/Pb_LoginRes.thy ===== *)
theory Pb_LoginRes
  imports Pb_Class
begin

text \<open>
  The generated class \<^verbatim>\<open>LoginRes\<close> of \<^verbatim>\<open>src/shbk2pb\<close>: its data, its accessors, clearing, merging,
  copying and swapping, its parse table and its encoding, one definition per generated
  function, and the interpretation of the contract of a message class.
\<close>

section \<open>Data and construction\<close>

record LoginRes =
  lres_arena :: "addr option"
  lres_unknown :: "byte list"
  lres_has_bits :: u32
  lres_cached_size :: i32
  lres_desc :: string
  lres_code :: i32

definition LoginRes_ctor :: "addr option \<Rightarrow> LoginRes" where
  "LoginRes_ctor arena =
     \<lparr>lres_arena = arena, lres_unknown = [], lres_has_bits = 0, lres_cached_size = 0,
      lres_desc = [], lres_code = 0\<rparr>"

definition LoginRes_copy_ctor :: "addr option \<Rightarrow> LoginRes \<Rightarrow> LoginRes" where
  "LoginRes_copy_ctor arena from =
     \<lparr>lres_arena = arena, lres_unknown = lres_unknown from, lres_has_bits = lres_has_bits from,
      lres_cached_size = 0, lres_desc = lres_desc from, lres_code = lres_code from\<rparr>"

definition LoginRes_default_instance :: LoginRes where
  "LoginRes_default_instance =
     \<lparr>lres_arena = None, lres_unknown = [], lres_has_bits = 0, lres_cached_size = 0,
      lres_desc = [], lres_code = 0\<rparr>"

section \<open>Accessors\<close>

definition LoginRes_has_desc :: "LoginRes \<Rightarrow> bool" where
  "LoginRes_has_desc m \<longleftrightarrow> lres_has_bits m AND 1 \<noteq> 0"

definition LoginRes_clear_desc :: "LoginRes \<Rightarrow> LoginRes" where
  "LoginRes_clear_desc m = m\<lparr>lres_desc := [], lres_has_bits := lres_has_bits m AND NOT 1\<rparr>"

definition LoginRes_get_desc :: "LoginRes \<Rightarrow> string" where
  "LoginRes_get_desc m = lres_desc m"

definition LoginRes_set_desc :: "LoginRes \<Rightarrow> string \<Rightarrow> LoginRes" where
  "LoginRes_set_desc m arg = m\<lparr>lres_has_bits := lres_has_bits m OR 1, lres_desc := arg\<rparr>"

definition LoginRes_internal_set_desc :: "LoginRes \<Rightarrow> string \<Rightarrow> LoginRes" where
  "LoginRes_internal_set_desc m v = m\<lparr>lres_has_bits := lres_has_bits m OR 1, lres_desc := v\<rparr>"

text \<open>\<^verbatim>\<open>mutable_desc()\<close> returns a pointer to the field: here, what it points to.\<close>

definition LoginRes_internal_mutable_desc :: "LoginRes \<Rightarrow> string \<times> LoginRes" where
  "LoginRes_internal_mutable_desc m = (lres_desc m, m\<lparr>lres_has_bits := lres_has_bits m OR 1\<rparr>)"

definition LoginRes_mutable_desc :: "LoginRes \<Rightarrow> string \<times> LoginRes" where
  "LoginRes_mutable_desc m = LoginRes_internal_mutable_desc m"

definition LoginRes_release_desc :: "LoginRes \<Rightarrow> string option \<times> LoginRes" where
  "LoginRes_release_desc m =
     (if lres_has_bits m AND 1 = 0 then (None, m)
      else (Some (lres_desc m), m\<lparr>lres_has_bits := lres_has_bits m AND NOT 1, lres_desc := []\<rparr>))"

definition LoginRes_set_allocated_desc :: "LoginRes \<Rightarrow> string option \<Rightarrow> LoginRes" where
  "LoginRes_set_allocated_desc m v =
     (let m1 = (if v \<noteq> None then m\<lparr>lres_has_bits := lres_has_bits m OR 1\<rparr>
                else m\<lparr>lres_has_bits := lres_has_bits m AND NOT 1\<rparr>)
      in m1\<lparr>lres_desc := (case v of None \<Rightarrow> [] | Some s \<Rightarrow> s)\<rparr>)"

definition LoginRes_has_code :: "LoginRes \<Rightarrow> bool" where
  "LoginRes_has_code m \<longleftrightarrow> lres_has_bits m AND 2 \<noteq> 0"

definition LoginRes_clear_code :: "LoginRes \<Rightarrow> LoginRes" where
  "LoginRes_clear_code m = m\<lparr>lres_code := 0, lres_has_bits := lres_has_bits m AND NOT 2\<rparr>"

definition LoginRes_get_code :: "LoginRes \<Rightarrow> i32" where
  "LoginRes_get_code m = lres_code m"

definition LoginRes_internal_set_code :: "LoginRes \<Rightarrow> i32 \<Rightarrow> LoginRes" where
  "LoginRes_internal_set_code m v = m\<lparr>lres_code := v\<rparr>"

definition LoginRes_set_code :: "LoginRes \<Rightarrow> i32 \<Rightarrow> LoginRes" where
  "LoginRes_set_code m v =
     (let m1 = LoginRes_internal_set_code m v in m1\<lparr>lres_has_bits := lres_has_bits m1 OR 2\<rparr>)"

section \<open>Clearing, merging, copying, swapping\<close>

definition LoginRes_Clear :: "LoginRes \<Rightarrow> LoginRes" where
  "LoginRes_Clear m =
     (let cached_has_bits = lres_has_bits m;
          m1 = (if cached_has_bits AND 1 \<noteq> 0 then m\<lparr>lres_desc := []\<rparr> else m);
          m2 = m1\<lparr>lres_code := 0\<rparr>
      in m2\<lparr>lres_has_bits := 0, lres_unknown := []\<rparr>)"

definition LoginRes_MergeImpl :: "LoginRes \<Rightarrow> LoginRes \<Rightarrow> LoginRes" where
  "LoginRes_MergeImpl to_msg from =
     (let cached_has_bits = lres_has_bits from;
          m1 = (if cached_has_bits AND 3 \<noteq> 0 \<and> cached_has_bits AND 1 \<noteq> 0 then LoginRes_internal_set_desc to_msg (lres_desc from) else to_msg);
          m2 = (if cached_has_bits AND 3 \<noteq> 0 \<and> cached_has_bits AND 2 \<noteq> 0 then m1\<lparr>lres_code := lres_code from\<rparr> else m1)
      in m2\<lparr>lres_has_bits := lres_has_bits m2 OR cached_has_bits,
             lres_unknown := lres_unknown m2 @ lres_unknown from\<rparr>)"

text \<open>The flag tells whether both arguments are the same object.\<close>

definition LoginRes_CopyFrom :: "bool \<Rightarrow> LoginRes \<Rightarrow> LoginRes \<Rightarrow> LoginRes" where
  "LoginRes_CopyFrom same m from =
     (if same then m else LoginRes_MergeImpl (LoginRes_Clear m) from)"

definition LoginRes_InternalSwap :: "LoginRes \<Rightarrow> LoginRes \<Rightarrow> LoginRes \<times> LoginRes" where
  "LoginRes_InternalSwap m other =
     (m\<lparr>lres_unknown := lres_unknown other, lres_has_bits := lres_has_bits other,
        lres_desc := lres_desc other, lres_code := lres_code other\<rparr>,
      other\<lparr>lres_unknown := lres_unknown m, lres_has_bits := lres_has_bits m,
        lres_desc := lres_desc m, lres_code := lres_code m\<rparr>)"

text \<open>\<^verbatim>\<open>GenericSwap\<close> belongs to the runtime and is an argument.\<close>

definition LoginRes_Swap ::
    "(LoginRes \<Rightarrow> LoginRes \<Rightarrow> LoginRes \<times> LoginRes) \<Rightarrow> bool \<Rightarrow> LoginRes \<Rightarrow> LoginRes \<Rightarrow> LoginRes \<times> LoginRes" where
  "LoginRes_Swap GenericSwap same m other =
     (if same then (m, other)
      else if lres_arena m = lres_arena other then LoginRes_InternalSwap m other
      else GenericSwap m other)"

definition LoginRes_UnsafeArenaSwap :: "bool \<Rightarrow> LoginRes \<Rightarrow> LoginRes \<Rightarrow> LoginRes \<times> LoginRes" where
  "LoginRes_UnsafeArenaSwap same m other =
     (if same then (m, other) else LoginRes_InternalSwap m other)"

definition LoginRes_assign :: "bool \<Rightarrow> LoginRes \<Rightarrow> LoginRes \<Rightarrow> LoginRes" where
  "LoginRes_assign same m from = LoginRes_CopyFrom same m from"

definition LoginRes_move_assign :: "bool \<Rightarrow> LoginRes \<Rightarrow> LoginRes \<Rightarrow> LoginRes \<times> LoginRes" where
  "LoginRes_move_assign same m from =
     (if same then (m, from)
      else if lres_arena m = lres_arena from then LoginRes_InternalSwap m from
      else (LoginRes_CopyFrom same m from, from))"

definition LoginRes_move_ctor :: "addr option \<Rightarrow> LoginRes \<Rightarrow> LoginRes \<times> LoginRes" where
  "LoginRes_move_ctor arena from = LoginRes_move_assign False (LoginRes_ctor arena) from"

section \<open>Required fields, encoding and decoding\<close>

definition LoginRes_MissingRequiredFields :: "u32 \<Rightarrow> bool" where
  "LoginRes_MissingRequiredFields has_bits \<longleftrightarrow> (has_bits AND 2) XOR 2 \<noteq> 0"

definition LoginRes_IsInitialized :: "LoginRes \<Rightarrow> bool" where
  "LoginRes_IsInitialized m =
     (if LoginRes_MissingRequiredFields (lres_has_bits m) then False else True)"

definition LoginRes_table :: "tc_field list" where
  "LoginRes_table =
     [\<lparr>tc_number = 1, tc_hasbit = 1, tc_kind = KInt32\<rparr>,
      \<lparr>tc_number = 2, tc_hasbit = 0, tc_kind = KRawString\<rparr>]"

text \<open>A store of the parse loop: the field entry gives the field and its has-bit.\<close>

definition LoginRes_store :: "nat \<times> pb_value \<Rightarrow> LoginRes \<Rightarrow> LoginRes" where
  "LoginRes_store st m =
     (case st of
        (n, VString s) \<Rightarrow> (if n = 2 then m\<lparr>lres_desc := s, lres_has_bits := lres_has_bits m OR 1\<rparr> else m)
      | (n, VInt32 v) \<Rightarrow> (if n = 1 then m\<lparr>lres_code := v, lres_has_bits := lres_has_bits m OR 2\<rparr> else m))"

definition LoginRes_InternalParse ::
    "'x pb_runtime_scheme \<Rightarrow> LoginRes \<Rightarrow> byte list \<Rightarrow> LoginRes \<times> bool" where
  "LoginRes_InternalParse rt m bs =
     (case ParseLoop rt LoginRes_table bs of (sts, u, r) \<Rightarrow>
        let m1 = fold LoginRes_store sts m in (m1\<lparr>lres_unknown := lres_unknown m1 @ u\<rparr>, r))"

definition LoginRes_InternalSerialize :: "'x pb_runtime_scheme \<Rightarrow> LoginRes \<Rightarrow> byte list" where
  "LoginRes_InternalSerialize rt m =
     (let cached_has_bits = lres_has_bits m
      in (if cached_has_bits AND 2 \<noteq> 0 then WriteInt32 rt 1 (lres_code m) else []) @
         (if cached_has_bits AND 1 \<noteq> 0 then WriteString rt 2 (lres_desc m) else []) @
         (if lres_unknown m \<noteq> [] then lres_unknown m else []))"

definition LoginRes_ByteSizeLong :: "'x pb_runtime_scheme \<Rightarrow> LoginRes \<Rightarrow> nat \<times> LoginRes" where
  "LoginRes_ByteSizeLong rt m =
     (let cached_has_bits = lres_has_bits m;
          total_size =
            (if cached_has_bits AND 1 \<noteq> 0 then 1 + StringSize rt (lres_desc m) else 0) +
            (if cached_has_bits AND 2 \<noteq> 0 then Int32SizePlusOne rt (lres_code m) else 0);
          total_size = total_size + length (lres_unknown m)
      in (total_size, m\<lparr>lres_cached_size := of_nat total_size\<rparr>))"

definition LoginRes_GetCachedSize :: "LoginRes \<Rightarrow> i32" where
  "LoginRes_GetCachedSize m = lres_cached_size m"

section \<open>Well-formed messages and the contract\<close>

definition LoginRes_wf :: "LoginRes \<Rightarrow> bool" where
  "LoginRes_wf m \<longleftrightarrow> only_bits 2 (lres_has_bits m)
     \<and> (\<not> bit (lres_has_bits m) 0 \<longrightarrow> lres_desc m = [])
     \<and> (\<not> bit (lres_has_bits m) 1 \<longrightarrow> lres_code m = 0)"

definition LoginRes_norm :: "LoginRes \<Rightarrow> LoginRes" where
  "LoginRes_norm m = m\<lparr>lres_arena := None, lres_cached_size := 0\<rparr>"

lemmas LoginRes_defs =
  LoginRes_wf_def LoginRes_norm_def LoginRes_ctor_def LoginRes_Clear_def LoginRes_MergeImpl_def
  LoginRes_internal_set_desc_def LoginRes_set_desc_def LoginRes_clear_desc_def
  LoginRes_internal_set_code_def LoginRes_set_code_def LoginRes_clear_code_def
  LoginRes_release_desc_def LoginRes_set_allocated_desc_def LoginRes_mutable_desc_def LoginRes_internal_mutable_desc_def

lemma LoginRes_wf_new: "LoginRes_wf (LoginRes_ctor arena)" "LoginRes_wf LoginRes_default_instance"
  by (simp_all add: LoginRes_wf_def LoginRes_ctor_def LoginRes_default_instance_def)

lemma LoginRes_wf_accessors:
  assumes "LoginRes_wf m"
  shows "LoginRes_wf (LoginRes_set_desc m s)"
    and "LoginRes_wf (LoginRes_clear_desc m)"
    and "LoginRes_wf (LoginRes_set_code m v1)"
    and "LoginRes_wf (LoginRes_clear_code m)"
    and "LoginRes_wf (snd (LoginRes_mutable_desc m))"
    and "LoginRes_wf (snd (LoginRes_release_desc m))"
    and "LoginRes_wf (LoginRes_set_allocated_desc m q)"
  using assms by (simp_all add: LoginRes_defs Let_def split: option.split)

lemma LoginRes_wf_Clear: "LoginRes_wf m \<Longrightarrow> LoginRes_wf (LoginRes_Clear m)"
  by (simp add: LoginRes_defs Let_def)

lemma LoginRes_norm_Clear: "LoginRes_wf m \<Longrightarrow> LoginRes_norm (LoginRes_Clear m) = LoginRes_ctor None"
  by (cases m) (simp add: LoginRes_defs Let_def)

lemma LoginRes_wf_MergeImpl: "LoginRes_wf m \<Longrightarrow> LoginRes_wf m' \<Longrightarrow> LoginRes_wf (LoginRes_MergeImpl m m')"
  by (simp add: LoginRes_defs Let_def bit_or_iff)

lemma LoginRes_norm_MergeImpl:
  assumes "LoginRes_wf m'" and "LoginRes_norm m = LoginRes_ctor None"
  shows "LoginRes_norm (LoginRes_MergeImpl m m') = LoginRes_norm m'"
proof -
  have m: "lres_has_bits m = 0" "lres_unknown m = []" "lres_desc m = []" "lres_code m = 0"
    using assms(2) by (cases m; simp add: LoginRes_norm_def LoginRes_ctor_def)+
  show ?thesis
    using assms(1) m by (cases m; cases m') (auto simp: LoginRes_defs Let_def or_own_bit)
qed

lemma LoginRes_table_ok [simp]: "table_numbers_ok LoginRes_table"
  by (simp add: table_numbers_ok_def LoginRes_table_def)

lemma LoginRes_table_fields [simp]:
  "has_field LoginRes_table 1 KInt32"
  "has_field LoginRes_table 2 KRawString"
  by (simp_all add: has_field_def LoginRes_table_def)

lemma LoginRes_bsize_ser:
  "runtime_ok rt \<Longrightarrow> fst (LoginRes_ByteSizeLong rt m) = length (LoginRes_InternalSerialize rt m)"
  by (simp add: LoginRes_ByteSizeLong_def LoginRes_InternalSerialize_def Let_def runtime_okD)

lemma LoginRes_InternalParse_ser:
  assumes rt: "runtime_ok rt" and wf: "LoginRes_wf m" and u: "lres_unknown m = []"
    and m0: "LoginRes_norm m0 = LoginRes_ctor None"
  shows "snd (LoginRes_InternalParse rt m0 (LoginRes_InternalSerialize rt m))"
    and "LoginRes_norm (fst (LoginRes_InternalParse rt m0 (LoginRes_InternalSerialize rt m))) = LoginRes_norm m"
proof -
  have z: "lres_has_bits m0 = 0" "lres_unknown m0 = []" "lres_desc m0 = []" "lres_code m0 = 0"
    using m0 by (cases m0; simp add: LoginRes_norm_def LoginRes_ctor_def)+
  have nil: "ParseLoop rt LoginRes_table [] = ([], [], True)"
    by (simp add: runtime_okD(3) [OF rt])
  note one = runtime_okD(4,5) [OF rt LoginRes_table_ok, of _ _ "[]", unfolded append_Nil2 nil]
  obtain b0 b1 where b: "bit (lres_has_bits m) 0 = b0" "bit (lres_has_bits m) 1 = b1"
    by blast
  have bits: "lres_has_bits m = (if b0 then 1 else 0) OR (if b1 then 2 else 0)"
    using has_bits_decode(2) [of "lres_has_bits m"] wf unfolding LoginRes_wf_def b by blast
  have run: "ParseLoop rt LoginRes_table (LoginRes_InternalSerialize rt m) =
      ((if b1 then [(1, VInt32 (lres_code m))] else []) @ (if b0 then [(2, VString (lres_desc m))] else []), [], True)"
    by (cases b0; cases b1)
       (simp_all add: LoginRes_InternalSerialize_def u Let_def nil one b
        runtime_okD(4,5) [OF rt LoginRes_table_ok] del: One_nat_def)
  show "snd (LoginRes_InternalParse rt m0 (LoginRes_InternalSerialize rt m))"
    by (simp add: LoginRes_InternalParse_def run Let_def)
  show "LoginRes_norm (fst (LoginRes_InternalParse rt m0 (LoginRes_InternalSerialize rt m))) = LoginRes_norm m"
    using wf z u bits unfolding LoginRes_wf_def b
    by (cases b0; cases b1)
       (simp_all add: LoginRes_InternalParse_def run Let_def LoginRes_store_def LoginRes_norm_def del: One_nat_def)
qed

lemma LoginRes_wf_InternalParse: "LoginRes_wf m \<Longrightarrow> LoginRes_wf (fst (LoginRes_InternalParse rt m bs))"
proof -
  have "LoginRes_wf (fold LoginRes_store sts m)" if "LoginRes_wf m" for sts
    using that
    by (induction sts arbitrary: m) (auto simp: LoginRes_wf_def LoginRes_store_def split: prod.splits pb_value.splits)
  then show "LoginRes_wf m \<Longrightarrow> ?thesis"
    by (auto simp: LoginRes_InternalParse_def LoginRes_wf_def Let_def split: prod.splits)
qed

lemma LoginRes_ser_cong:
  assumes "LoginRes_norm m = LoginRes_norm m'"
  shows "LoginRes_InternalSerialize rt m = LoginRes_InternalSerialize rt m'"
  using assms by (cases m; cases m') (simp add: LoginRes_norm_def LoginRes_InternalSerialize_def)

interpretation lres: pb_class LoginRes_wf LoginRes_norm "LoginRes_ctor None" lres_unknown LoginRes_Clear
  LoginRes_MergeImpl LoginRes_InternalSerialize LoginRes_ByteSizeLong LoginRes_InternalParse
  LoginRes_IsInitialized
proof
  fix m m' m0 :: LoginRes and rt :: "'x pb_runtime_scheme"
  show "LoginRes_wf m \<Longrightarrow> LoginRes_wf (LoginRes_Clear m)" by (rule LoginRes_wf_Clear)
  show "LoginRes_wf m \<Longrightarrow> LoginRes_norm (LoginRes_Clear m) = LoginRes_ctor None" by (rule LoginRes_norm_Clear)
  show "LoginRes_wf m \<Longrightarrow> LoginRes_wf m' \<Longrightarrow> LoginRes_wf (LoginRes_MergeImpl m m')" by (rule LoginRes_wf_MergeImpl)
  show "LoginRes_wf m' \<Longrightarrow> LoginRes_norm m = LoginRes_ctor None \<Longrightarrow>
      LoginRes_norm (LoginRes_MergeImpl m m') = LoginRes_norm m'" by (rule LoginRes_norm_MergeImpl)
  show "LoginRes_norm m = LoginRes_norm m' \<Longrightarrow>
      LoginRes_InternalSerialize rt m = LoginRes_InternalSerialize rt m'" by (rule LoginRes_ser_cong)
  show "LoginRes_norm m = LoginRes_norm m' \<Longrightarrow> LoginRes_IsInitialized m = LoginRes_IsInitialized m'"
    by (cases m; cases m') (simp add: LoginRes_norm_def LoginRes_IsInitialized_def)
  show "runtime_ok rt \<Longrightarrow> fst (LoginRes_ByteSizeLong rt m) = length (LoginRes_InternalSerialize rt m)"
    by (rule LoginRes_bsize_ser)
  show "LoginRes_norm (snd (LoginRes_ByteSizeLong rt m)) = LoginRes_norm m"
    by (simp add: LoginRes_ByteSizeLong_def LoginRes_norm_def Let_def)
  show "snd (LoginRes_InternalParse rt m0 (LoginRes_InternalSerialize rt m)) \<and>
      LoginRes_norm (fst (LoginRes_InternalParse rt m0 (LoginRes_InternalSerialize rt m))) = LoginRes_norm m \<and>
      LoginRes_wf (fst (LoginRes_InternalParse rt m0 (LoginRes_InternalSerialize rt m)))"
    if "runtime_ok rt" "LoginRes_wf m" "lres_unknown m = []" "LoginRes_wf m0" "LoginRes_norm m0 = LoginRes_ctor None"
    using LoginRes_InternalParse_ser [OF that(1-3,5)] LoginRes_wf_InternalParse [OF that(4)] by blast
qed

end
