(* ===== verification/Shbk2_Pb.thy ===== *)
theory Shbk2_Pb
  imports Pb_PhoneReq Pb_PhoneRes Pb_LoginReq Pb_LoginRes
begin

text \<open>
  The four message classes together. \<^verbatim>\<open>ParseFromArray\<close> is inherited from the runtime's
  \<^verbatim>\<open>MessageLite\<close>; for each class it is a further field of the record of library functions,
  with its documented behaviour (\<^const>\<open>parse_array\<close>).
\<close>

record protobuf = pb_runtime +
  ParsePhoneReq :: "PhoneReq \<Rightarrow> byte list \<Rightarrow> i32 \<Rightarrow> bool \<times> PhoneReq"
  ParsePhoneRes :: "PhoneRes \<Rightarrow> byte list \<Rightarrow> i32 \<Rightarrow> bool \<times> PhoneRes"
  ParseLoginReq :: "LoginReq \<Rightarrow> byte list \<Rightarrow> i32 \<Rightarrow> bool \<times> LoginReq"
  ParseLoginRes :: "LoginRes \<Rightarrow> byte list \<Rightarrow> i32 \<Rightarrow> bool \<times> LoginRes"

definition parse_entries_ok :: "protobuf \<Rightarrow> bool" where
  "parse_entries_ok pb \<longleftrightarrow> (\<forall>bs sz. length bs < 2147483648 \<longrightarrow> unat sz = length bs \<longrightarrow>
     (\<forall>m. ParsePhoneReq pb m bs sz =
        parse_array PhoneReq_Clear (PhoneReq_InternalParse pb) PhoneReq_IsInitialized m bs) \<and>
     (\<forall>m. ParsePhoneRes pb m bs sz =
        parse_array PhoneRes_Clear (PhoneRes_InternalParse pb) PhoneRes_IsInitialized m bs) \<and>
     (\<forall>m. ParseLoginReq pb m bs sz =
        parse_array LoginReq_Clear (LoginReq_InternalParse pb) LoginReq_IsInitialized m bs) \<and>
     (\<forall>m. ParseLoginRes pb m bs sz =
        parse_array LoginRes_Clear (LoginRes_InternalParse pb) LoginRes_IsInitialized m bs))"

definition protobuf_ok :: "protobuf \<Rightarrow> bool" where
  "protobuf_ok pb \<longleftrightarrow> runtime_ok pb \<and> parse_entries_ok pb"

text \<open>The concrete runtime, with the entry points as documented.\<close>

definition wire_protobuf :: protobuf where
  "wire_protobuf = pb_runtime.extend wire_runtime
     \<lparr>ParsePhoneReq = (\<lambda>m bs sz.
        parse_array PhoneReq_Clear (PhoneReq_InternalParse wire_runtime) PhoneReq_IsInitialized m bs),
      ParsePhoneRes = (\<lambda>m bs sz.
        parse_array PhoneRes_Clear (PhoneRes_InternalParse wire_runtime) PhoneRes_IsInitialized m bs),
      ParseLoginReq = (\<lambda>m bs sz.
        parse_array LoginReq_Clear (LoginReq_InternalParse wire_runtime) LoginReq_IsInitialized m bs),
      ParseLoginRes = (\<lambda>m bs sz.
        parse_array LoginRes_Clear (LoginRes_InternalParse wire_runtime) LoginRes_IsInitialized m bs)\<rparr>"

lemma wire_protobuf_runtime [simp]:
  "StringSize wire_protobuf = StringSize wire_runtime"
  "Int32SizePlusOne wire_protobuf = Int32SizePlusOne wire_runtime"
  "WriteString wire_protobuf = WriteString wire_runtime"
  "WriteInt32 wire_protobuf = WriteInt32 wire_runtime"
  "ParseLoop wire_protobuf = ParseLoop wire_runtime"
  "ByteSizeInt wire_protobuf = ByteSizeInt wire_runtime"
  "SerializeTo wire_protobuf = SerializeTo wire_runtime"
  by (simp_all add: wire_protobuf_def pb_runtime.defs)

lemma wire_protobuf_InternalParse [simp]:
  "PhoneReq_InternalParse wire_protobuf = PhoneReq_InternalParse wire_runtime"
  "PhoneRes_InternalParse wire_protobuf = PhoneRes_InternalParse wire_runtime"
  "LoginReq_InternalParse wire_protobuf = LoginReq_InternalParse wire_runtime"
  "LoginRes_InternalParse wire_protobuf = LoginRes_InternalParse wire_runtime"
  by (simp_all add: fun_eq_iff PhoneReq_InternalParse_def PhoneRes_InternalParse_def
      LoginReq_InternalParse_def LoginRes_InternalParse_def)

lemma wire_protobuf_ok [simp]: "protobuf_ok wire_protobuf"
proof -
  have "runtime_ok wire_protobuf"
    using wire_runtime_ok
    by (simp add: runtime_ok_def sizes_ok_def parse_loop_ok_def entry_points_ok_def sizes_bounded_def)
  moreover have "parse_entries_ok wire_protobuf"
    by (simp add: parse_entries_ok_def) (simp add: wire_protobuf_def pb_runtime.defs)
  ultimately show ?thesis
    by (simp add: protobuf_ok_def)
qed

lemma protobuf_ok_runtime: "protobuf_ok pb \<Longrightarrow> runtime_ok pb"
  by (simp add: protobuf_ok_def)

section \<open>Required fields\<close>

lemma IsInitialized_iff:
  "PhoneReq_IsInitialized a \<longleftrightarrow> PhoneReq_has_phone_number a"
  "PhoneRes_IsInitialized b \<longleftrightarrow> PhoneRes_has_code b \<and> PhoneRes_has_identifier b"
  "LoginReq_IsInitialized c \<longleftrightarrow> LoginReq_has_phone_number c \<and> LoginReq_has_identifier c"
  "LoginRes_IsInitialized d \<longleftrightarrow> LoginRes_has_code d"
proof -
  have x: "(w AND v) XOR v \<noteq> 0 \<longleftrightarrow> NOT w AND v \<noteq> 0" for w v :: u32
  proof -
    have "(w AND v) XOR v = NOT w AND v"
      by (rule bit_word_eqI) (auto simp: bit_xor_iff bit_and_iff bit_not_iff)
    then show ?thesis by simp
  qed
  show "PhoneReq_IsInitialized a \<longleftrightarrow> PhoneReq_has_phone_number a"
    and "PhoneRes_IsInitialized b \<longleftrightarrow> PhoneRes_has_code b \<and> PhoneRes_has_identifier b"
    and "LoginReq_IsInitialized c \<longleftrightarrow> LoginReq_has_phone_number c \<and> LoginReq_has_identifier c"
    and "LoginRes_IsInitialized d \<longleftrightarrow> LoginRes_has_code d"
    by (simp_all add: x bit_not_iff
        PhoneReq_IsInitialized_def PhoneReq_MissingRequiredFields_def PhoneReq_has_phone_number_def
        PhoneRes_IsInitialized_def PhoneRes_MissingRequiredFields_def PhoneRes_has_code_def
        PhoneRes_has_identifier_def
        LoginReq_IsInitialized_def LoginReq_MissingRequiredFields_def LoginReq_has_phone_number_def
        LoginReq_has_identifier_def
        LoginRes_IsInitialized_def LoginRes_MissingRequiredFields_def LoginRes_has_code_def)
qed


section \<open>Properties\<close>

text \<open>
  For each of the four message classes the computed byte size is the exact
  number of bytes the serialiser writes, for every message, whether or not it is
  complete and with whatever unknown fields it carries.
\<close>

theorem ByteSizeLong_is_serialized_length:
  assumes "runtime_ok rt"
  shows "fst (PhoneReq_ByteSizeLong rt a) = length (PhoneReq_InternalSerialize rt a) \<and>
    fst (PhoneRes_ByteSizeLong rt b) = length (PhoneRes_InternalSerialize rt b) \<and>
    fst (LoginReq_ByteSizeLong rt c) = length (LoginReq_InternalSerialize rt c) \<and>
    fst (LoginRes_ByteSizeLong rt d) = length (LoginRes_InternalSerialize rt d)"
  using assms by (simp add: preq.bsize_ser pres.bsize_ser lreq.bsize_ser lres.bsize_ser)

theorem ByteSizeLong_is_serialized_length_witness:
  "fst (PhoneReq_ByteSizeLong wire_runtime (PhoneReq_set_phone_number (PhoneReq_ctor None) ''13'')) =
   length (PhoneReq_InternalSerialize wire_runtime (PhoneReq_set_phone_number (PhoneReq_ctor None) ''13''))"
  using ByteSizeLong_is_serialized_length [OF wire_runtime_ok] by blast



text \<open>
  Copying replaces the content: after \<^verbatim>\<open>CopyFrom\<close> (and assignment) the target has
  the content of the source, whatever it held before, and is well formed; from itself it
  changes nothing.
\<close>

theorem CopyFrom_copies_content:
  shows "PhoneReq_CopyFrom True a a' = a \<and> PhoneRes_CopyFrom True b b' = b \<and>
    LoginReq_CopyFrom True c c' = c \<and> LoginRes_CopyFrom True d d' = d \<and>
    (PhoneReq_wf a \<and> PhoneReq_wf a' \<longrightarrow>
      PhoneReq_norm (PhoneReq_CopyFrom False a a') = PhoneReq_norm a' \<and> PhoneReq_wf (PhoneReq_assign False a a')) \<and>
    (PhoneRes_wf b \<and> PhoneRes_wf b' \<longrightarrow>
      PhoneRes_norm (PhoneRes_CopyFrom False b b') = PhoneRes_norm b' \<and> PhoneRes_wf (PhoneRes_assign False b b')) \<and>
    (LoginReq_wf c \<and> LoginReq_wf c' \<longrightarrow>
      LoginReq_norm (LoginReq_CopyFrom False c c') = LoginReq_norm c' \<and> LoginReq_wf (LoginReq_assign False c c')) \<and>
    (LoginRes_wf d \<and> LoginRes_wf d' \<longrightarrow>
      LoginRes_norm (LoginRes_CopyFrom False d d') = LoginRes_norm d' \<and> LoginRes_wf (LoginRes_assign False d d'))"
  by (simp add: PhoneReq_CopyFrom_def PhoneRes_CopyFrom_def LoginReq_CopyFrom_def LoginRes_CopyFrom_def
      PhoneReq_assign_def PhoneRes_assign_def LoginReq_assign_def LoginRes_assign_def
      preq.copy_content pres.copy_content lreq.copy_content lres.copy_content
      preq.copy_wf pres.copy_wf lreq.copy_wf lres.copy_wf)

theorem CopyFrom_copies_content_witness:
  "PhoneRes_norm (PhoneRes_CopyFrom False (PhoneRes_set_code (PhoneRes_ctor None) 7) (PhoneRes_ctor (Some 1))) =
   PhoneRes_norm (PhoneRes_ctor (Some 1))"
  using CopyFrom_copies_content PhoneRes_wf_new(1) PhoneRes_wf_accessors(3) [OF PhoneRes_wf_new(1)] by blast

text \<open>
  A message counts as initialised exactly when its required fields are
  present: the phone number of a phone request, code and identifier of a phone response,
  phone number and identifier of a login request, the code of a login response.
\<close>

theorem IsInitialized_required_fields:
  shows "(PhoneReq_IsInitialized a \<longleftrightarrow> PhoneReq_has_phone_number a) \<and>
    (PhoneRes_IsInitialized b \<longleftrightarrow> PhoneRes_has_code b \<and> PhoneRes_has_identifier b) \<and>
    (LoginReq_IsInitialized c \<longleftrightarrow> LoginReq_has_phone_number c \<and> LoginReq_has_identifier c) \<and>
    (LoginRes_IsInitialized d \<longleftrightarrow> LoginRes_has_code d)"
  by (simp only: IsInitialized_iff simp_thms)



end
