(* ===== verification/Events.thy ===== *)
theory Events
  imports Globals Session_Buffer Shbk2_Pb
begin

text \<open>
  \<^verbatim>\<open>src/events\<close>: the event types, the base class \<^verbatim>\<open>IEvent\<close> and its four subclasses, each of
  which wraps one protobuf message. The subclass of an event is the constructor of its
  body, and the virtual functions are defined by cases over it. The static counter
  \<^verbatim>\<open>IEvent::sequence_\<close> is passed along explicitly.
\<close>

section \<open>Event types\<close>

definition kPhoneReq :: EventType where "kPhoneReq = 0x01"
definition kPhoneRes :: EventType where "kPhoneRes = 0x02"
definition kLoginReq :: EventType where "kLoginReq = 0x03"
definition kLoginRes :: EventType where "kLoginRes = 0x04"
definition kCloseSession :: EventType where "kCloseSession = 0xfe"
definition kUnknown :: EventType where "kUnknown = 0xff"

lemmas event_type_defs =
  kPhoneReq_def kPhoneRes_def kLoginReq_def kLoginRes_def kCloseSession_def kUnknown_def

section \<open>Class IEvent\<close>

datatype ev_body =
    EvPhoneReq PhoneReq
  | EvPhoneRes PhoneRes
  | EvLoginReq LoginReq
  | EvLoginRes LoginRes

record IEvent =
  ev_type :: EventType
  ev_id :: u32
  ev_session :: "addr option"
  ev_body :: ev_body

text \<open>The constructor numbers the event and advances the counter, which wraps around.\<close>

definition IEvent_new :: "EventType \<Rightarrow> ev_body \<Rightarrow> u32 \<Rightarrow> IEvent \<times> u32" where
  "IEvent_new t body sequence =
     (\<lparr>ev_type = t, ev_id = sequence, ev_session = None, ev_body = body\<rparr>, sequence + 1)"

definition set_session :: "IEvent \<Rightarrow> addr \<Rightarrow> IEvent" where
  "set_session e s = e\<lparr>ev_session := Some s\<rparr>"

section \<open>The subclasses\<close>

definition EvPhoneReq_new :: "u32 \<Rightarrow> IEvent \<times> u32" where
  "EvPhoneReq_new sequence = IEvent_new kPhoneReq (EvPhoneReq (PhoneReq_ctor None)) sequence"

definition EvLoginReq_new :: "u32 \<Rightarrow> IEvent \<times> u32" where
  "EvLoginReq_new sequence = IEvent_new kLoginReq (EvLoginReq (LoginReq_ctor None)) sequence"

definition EvPhoneRes_new :: "i32 \<Rightarrow> ErrorCode \<Rightarrow> u32 \<Rightarrow> (exn + IEvent) \<times> u32" where
  "EvPhoneRes_new identifier code sequence =
     (let (e, sequence') = IEvent_new kPhoneRes (EvPhoneRes (PhoneRes_ctor None)) sequence;
          m1 = PhoneRes_set_code (PhoneRes_ctor None) (ErrorCode_value code)
      in case desc_at code of
           Inl x \<Rightarrow> (Inl x, sequence')
         | Inr d \<Rightarrow>
             (let m2 = PhoneRes_set_desc m1 d;
                  m3 = PhoneRes_set_identifier m2 identifier
              in (Inr (e\<lparr>ev_body := EvPhoneRes m3\<rparr>), sequence')))"

definition EvLoginRes_new :: "ErrorCode \<Rightarrow> u32 \<Rightarrow> (exn + IEvent) \<times> u32" where
  "EvLoginRes_new code sequence =
     (let (e, sequence') = IEvent_new kLoginRes (EvLoginRes (LoginRes_ctor None)) sequence;
          m1 = LoginRes_set_code (LoginRes_ctor None) (ErrorCode_value code)
      in case desc_at code of
           Inl x \<Rightarrow> (Inl x, sequence')
         | Inr d \<Rightarrow> (Inr (e\<lparr>ev_body := EvLoginRes (LoginRes_set_desc m1 d)\<rparr>), sequence'))"

section \<open>The virtual functions\<close>

text \<open>
  \<^verbatim>\<open>ByteSize\<close> also refreshes the size cached in the message, which no code of the
  repository reads; the model leaves the event unchanged.
\<close>

definition ev_ByteSize :: "protobuf \<Rightarrow> IEvent \<Rightarrow> i32" where
  "ev_ByteSize pb e = ByteSizeInt pb (case ev_body e of
      EvPhoneReq m \<Rightarrow> fst (PhoneReq_ByteSizeLong pb m)
    | EvPhoneRes m \<Rightarrow> fst (PhoneRes_ByteSizeLong pb m)
    | EvLoginReq m \<Rightarrow> fst (LoginReq_ByteSizeLong pb m)
    | EvLoginRes m \<Rightarrow> fst (LoginRes_ByteSizeLong pb m))"

definition ev_SerializeToArray :: "protobuf \<Rightarrow> IEvent \<Rightarrow> i32 \<Rightarrow> bool \<times> byte list" where
  "ev_SerializeToArray pb e sz = (case ev_body e of
      EvPhoneReq m \<Rightarrow> SerializeTo pb (PhoneReq_IsInitialized m)
        (fst (PhoneReq_ByteSizeLong pb m)) (PhoneReq_InternalSerialize pb m) sz
    | EvPhoneRes m \<Rightarrow> SerializeTo pb (PhoneRes_IsInitialized m)
        (fst (PhoneRes_ByteSizeLong pb m)) (PhoneRes_InternalSerialize pb m) sz
    | EvLoginReq m \<Rightarrow> SerializeTo pb (LoginReq_IsInitialized m)
        (fst (LoginReq_ByteSizeLong pb m)) (LoginReq_InternalSerialize pb m) sz
    | EvLoginRes m \<Rightarrow> SerializeTo pb (LoginRes_IsInitialized m)
        (fst (LoginRes_ByteSizeLong pb m)) (LoginRes_InternalSerialize pb m) sz)"

definition ev_ParseFromArray :: "protobuf \<Rightarrow> IEvent \<Rightarrow> byte list \<Rightarrow> i32 \<Rightarrow> bool \<times> IEvent" where
  "ev_ParseFromArray pb e data sz = (case ev_body e of
      EvPhoneReq m \<Rightarrow> (case ParsePhoneReq pb m data sz of (r, m') \<Rightarrow> (r, e\<lparr>ev_body := EvPhoneReq m'\<rparr>))
    | EvPhoneRes m \<Rightarrow> (case ParsePhoneRes pb m data sz of (r, m') \<Rightarrow> (r, e\<lparr>ev_body := EvPhoneRes m'\<rparr>))
    | EvLoginReq m \<Rightarrow> (case ParseLoginReq pb m data sz of (r, m') \<Rightarrow> (r, e\<lparr>ev_body := EvLoginReq m'\<rparr>))
    | EvLoginRes m \<Rightarrow> (case ParseLoginRes pb m data sz of (r, m') \<Rightarrow> (r, e\<lparr>ev_body := EvLoginRes m'\<rparr>)))"

text \<open>Getters of the request events; on another subclass the static cast is undefined.\<close>

definition EvPhoneReq_phone_number :: "IEvent \<Rightarrow> string run" where
  "EvPhoneReq_phone_number e = (case ev_body e of
      EvPhoneReq m \<Rightarrow> Inr (PhoneReq_get_phone_number m) | _ \<Rightarrow> Inl Bad_cast)"

definition EvLoginReq_phone_number :: "IEvent \<Rightarrow> string run" where
  "EvLoginReq_phone_number e = (case ev_body e of
      EvLoginReq m \<Rightarrow> Inr (LoginReq_get_phone_number m) | _ \<Rightarrow> Inl Bad_cast)"

definition EvLoginReq_identifier :: "IEvent \<Rightarrow> i32 run" where
  "EvLoginReq_identifier e = (case ev_body e of
      EvLoginReq m \<Rightarrow> Inr (LoginReq_get_identifier m) | _ \<Rightarrow> Inl Bad_cast)"

section \<open>The content of an event and its encoding\<close>

fun body_norm :: "ev_body \<Rightarrow> ev_body" where
  "body_norm (EvPhoneReq m) = EvPhoneReq (PhoneReq_norm m)"
| "body_norm (EvPhoneRes m) = EvPhoneRes (PhoneRes_norm m)"
| "body_norm (EvLoginReq m) = EvLoginReq (LoginReq_norm m)"
| "body_norm (EvLoginRes m) = EvLoginRes (LoginRes_norm m)"

text \<open>A body that can be sent: well formed, complete, and without unknown fields.\<close>

fun body_ok :: "ev_body \<Rightarrow> bool" where
  "body_ok (EvPhoneReq m) \<longleftrightarrow> PhoneReq_wf m \<and> PhoneReq_IsInitialized m \<and> preq_unknown m = []"
| "body_ok (EvPhoneRes m) \<longleftrightarrow> PhoneRes_wf m \<and> PhoneRes_IsInitialized m \<and> pres_unknown m = []"
| "body_ok (EvLoginReq m) \<longleftrightarrow> LoginReq_wf m \<and> LoginReq_IsInitialized m \<and> lreq_unknown m = []"
| "body_ok (EvLoginRes m) \<longleftrightarrow> LoginRes_wf m \<and> LoginRes_IsInitialized m \<and> lres_unknown m = []"

fun body_wf :: "ev_body \<Rightarrow> bool" where
  "body_wf (EvPhoneReq m) \<longleftrightarrow> PhoneReq_wf m"
| "body_wf (EvPhoneRes m) \<longleftrightarrow> PhoneRes_wf m"
| "body_wf (EvLoginReq m) \<longleftrightarrow> LoginReq_wf m"
| "body_wf (EvLoginRes m) \<longleftrightarrow> LoginRes_wf m"

fun body_type :: "ev_body \<Rightarrow> EventType" where
  "body_type (EvPhoneReq m) = kPhoneReq"
| "body_type (EvPhoneRes m) = kPhoneRes"
| "body_type (EvLoginReq m) = kLoginReq"
| "body_type (EvLoginRes m) = kLoginRes"

fun body_bytes :: "protobuf \<Rightarrow> ev_body \<Rightarrow> byte list" where
  "body_bytes pb (EvPhoneReq m) = PhoneReq_InternalSerialize pb m"
| "body_bytes pb (EvPhoneRes m) = PhoneRes_InternalSerialize pb m"
| "body_bytes pb (EvLoginReq m) = LoginReq_InternalSerialize pb m"
| "body_bytes pb (EvLoginRes m) = LoginRes_InternalSerialize pb m"

lemma ev_ByteSize_bytes:
  assumes "protobuf_ok pb" and "length (body_bytes pb (ev_body e)) < 2147483648"
  shows "unat (ev_ByteSize pb e) = length (body_bytes pb (ev_body e))"
  using assms(2) runtime_okD(6) [OF protobuf_ok_runtime [OF assms(1)]]
  by (cases "ev_body e")
     (simp_all add: ev_ByteSize_def protobuf_ok_runtime [OF assms(1)] PhoneReq_bsize_ser
      PhoneRes_bsize_ser LoginReq_bsize_ser LoginRes_bsize_ser)

lemma ev_Serialize_bytes:
  assumes "protobuf_ok pb" and "length (body_bytes pb (ev_body e)) < 2147483648" and "body_ok (ev_body e)"
  shows "ev_SerializeToArray pb e (ev_ByteSize pb e) = (True, body_bytes pb (ev_body e))"
proof -
  note rt = protobuf_ok_runtime [OF assms(1)]
  have "sint (ev_ByteSize pb e) = int (length (body_bytes pb (ev_body e)))"
    using ev_ByteSize_bytes [OF assms(1,2)] assms(2) by (simp add: sint_unat_small)
  then show ?thesis
    using assms(2,3) runtime_okD(7) [OF rt]
    by (cases "ev_body e")
       (simp_all add: ev_SerializeToArray_def rt PhoneReq_bsize_ser
        PhoneRes_bsize_ser LoginReq_bsize_ser LoginRes_bsize_ser)
qed

text \<open>
  Parsing the encoding of a body into an event of the same subclass gives that body back,
  up to what is not content.
\<close>

lemma ev_Parse_bytes:
  assumes pb: "protobuf_ok pb" and ok: "body_ok b" and len: "length (body_bytes pb b) < 2147483648"
    and sz: "unat sz = length (body_bytes pb b)"
    and same: "body_type (ev_body e) = body_type b" and wf: "body_wf (ev_body e)"
  shows "\<exists>b'. ev_ParseFromArray pb e (body_bytes pb b) sz = (True, e\<lparr>ev_body := b'\<rparr>) \<and>
              body_norm b' = body_norm b \<and> body_wf b'"
proof -
  note rt = protobuf_ok_runtime [OF pb]
  have entries: "parse_entries_ok pb" using pb by (simp add: protobuf_ok_def)
  show ?thesis
  proof (cases b)
    case (EvPhoneReq m)
    then obtain m0 where e: "ev_body e = EvPhoneReq m0"
      using same by (cases "ev_body e") (auto simp: event_type_defs)
    with preq.parse_array_ser [OF rt, of m0 m] show ?thesis
      using entries len sz ok wf EvPhoneReq by (auto simp: ev_ParseFromArray_def parse_entries_ok_def)
  next
    case (EvPhoneRes m)
    then obtain m0 where e: "ev_body e = EvPhoneRes m0"
      using same by (cases "ev_body e") (auto simp: event_type_defs)
    with pres.parse_array_ser [OF rt, of m0 m] show ?thesis
      using entries len sz ok wf EvPhoneRes by (auto simp: ev_ParseFromArray_def parse_entries_ok_def)
  next
    case (EvLoginReq m)
    then obtain m0 where e: "ev_body e = EvLoginReq m0"
      using same by (cases "ev_body e") (auto simp: event_type_defs)
    with lreq.parse_array_ser [OF rt, of m0 m] show ?thesis
      using entries len sz ok wf EvLoginReq by (auto simp: ev_ParseFromArray_def parse_entries_ok_def)
  next
    case (EvLoginRes m)
    then obtain m0 where e: "ev_body e = EvLoginRes m0"
      using same by (cases "ev_body e") (auto simp: event_type_defs)
    with lres.parse_array_ser [OF rt, of m0 m] show ?thesis
      using entries len sz ok wf EvLoginRes by (auto simp: ev_ParseFromArray_def parse_entries_ok_def)
  qed
qed

text \<open>The responses are complete and carry the code, its description and the identifier.\<close>

lemma EvPhoneRes_new_ok:
  "EvPhoneRes_new i c n = (Inr \<lparr>ev_type = kPhoneRes, ev_id = n, ev_session = None,
     ev_body = EvPhoneRes \<lparr>pres_arena = None, pres_unknown = [], pres_has_bits = 7, pres_cached_size = 0,
       pres_desc = ErrorCode_desc c, pres_code = ErrorCode_value c, pres_identifier = i\<rparr>\<rparr>, n + 1)"
  by (simp add: EvPhoneRes_new_def IEvent_new_def desc_at_total PhoneRes_set_code_def Let_def
      PhoneRes_internal_set_code_def PhoneRes_set_desc_def PhoneRes_set_identifier_def
      PhoneRes_internal_set_identifier_def PhoneRes_ctor_def)

lemma EvLoginRes_new_ok:
  "EvLoginRes_new c n = (Inr \<lparr>ev_type = kLoginRes, ev_id = n, ev_session = None,
     ev_body = EvLoginRes \<lparr>lres_arena = None, lres_unknown = [], lres_has_bits = 3, lres_cached_size = 0,
       lres_desc = ErrorCode_desc c, lres_code = ErrorCode_value c\<rparr>\<rparr>, n + 1)"
  by (simp add: EvLoginRes_new_def IEvent_new_def desc_at_total LoginRes_set_code_def Let_def
      LoginRes_internal_set_code_def LoginRes_set_desc_def LoginRes_ctor_def)

lemma response_body_ok:
  "body_ok (EvPhoneRes \<lparr>pres_arena = None, pres_unknown = [], pres_has_bits = 7, pres_cached_size = z,
       pres_desc = d, pres_code = c, pres_identifier = i\<rparr>)"
  "body_ok (EvLoginRes \<lparr>lres_arena = None, lres_unknown = [], lres_has_bits = 3, lres_cached_size = z,
       lres_desc = d, lres_code = c\<rparr>)"
  by (simp_all add: PhoneRes_wf_def LoginRes_wf_def only_bits_def
      PhoneRes_IsInitialized_def PhoneRes_MissingRequiredFields_def
      LoginRes_IsInitialized_def LoginRes_MissingRequiredFields_def)


text \<open>The encoding of a response is short, so its size fits an \<^verbatim>\<open>int\<close>.\<close>

lemma LoginRes_bytes_le:
  assumes "runtime_ok pb" and "lres_unknown m = []" and "length (lres_desc m) < 2147483648"
  shows "length (LoginRes_InternalSerialize pb m) \<le> length (lres_desc m) + 17"
  using assms runtime_okD(1) [OF assms(1), of 2 "lres_desc m"] runtime_okD(9) [OF assms(1), of "lres_desc m"]
    runtime_okD(2) [OF assms(1), of 1 "lres_code m"] runtime_okD(8) [OF assms(1), of "lres_code m"]
  by (simp add: LoginRes_InternalSerialize_def Let_def)

lemma PhoneRes_bytes_le:
  assumes "runtime_ok pb" and "pres_unknown m = []" and "length (pres_desc m) < 2147483648"
  shows "length (PhoneRes_InternalSerialize pb m) \<le> length (pres_desc m) + 28"
  using assms runtime_okD(1) [OF assms(1), of 2 "pres_desc m"] runtime_okD(9) [OF assms(1), of "pres_desc m"]
    runtime_okD(2) [OF assms(1), of 1 "pres_code m"] runtime_okD(8) [OF assms(1), of "pres_code m"]
    runtime_okD(2) [OF assms(1), of 3 "pres_identifier m"] runtime_okD(8) [OF assms(1), of "pres_identifier m"]
  by (simp add: PhoneRes_InternalSerialize_def Let_def)

lemma PhoneReq_bytes_le:
  assumes "runtime_ok pb" and "preq_unknown m = []" and "length (preq_phone_number m) < 2147483648"
  shows "length (PhoneReq_InternalSerialize pb m) \<le> length (preq_phone_number m) + 6"
  using assms runtime_okD(1) [OF assms(1), of 1 "preq_phone_number m"]
    runtime_okD(9) [OF assms(1), of "preq_phone_number m"]
  by (simp add: PhoneReq_InternalSerialize_def Let_def)

fun short_body :: "ev_body \<Rightarrow> bool" where
  "short_body (EvPhoneRes m) \<longleftrightarrow> length (pres_desc m) \<le> 19"
| "short_body (EvLoginRes m) \<longleftrightarrow> length (lres_desc m) \<le> 19"
| "short_body _ \<longleftrightarrow> False"

lemma short_body_bytes:
  assumes "protobuf_ok pb" and "body_ok b" and "short_body b"
  shows "length (body_bytes pb b) < 2147483648"
proof (cases b)
  case (EvPhoneRes m)
  then show ?thesis
    using assms PhoneRes_bytes_le [OF protobuf_ok_runtime [OF assms(1)], of m] by simp
next
  case (EvLoginRes m)
  then show ?thesis
    using assms LoginRes_bytes_le [OF protobuf_ok_runtime [OF assms(1)], of m] by simp
qed (use assms in simp_all)

lemma ErrorCode_desc_short: "length (ErrorCode_desc c) \<le> 19"
  by (cases c) simp_all

end
