(* ===== verification/Msg_Proxy.thy ===== *)
theory Msg_Proxy
  imports Events
begin

text \<open>
  \<^verbatim>\<open>src/msg_proxy\<close>: \<^verbatim>\<open>Pack\<close> turns the bytes of a connection into a request event, across as
  many read callbacks as the bytes need to arrive, and \<^verbatim>\<open>Unpack\<close> turns a response event
  into the bytes to send. The specification \<open>frame_spec\<close> is a function of the bytes received
  so far, however they were cut into pieces; \<open>Pack_meets\<close> shows that \<^verbatim>\<open>Pack\<close> computes it.
\<close>

section \<open>The code\<close>

definition HEADER_CONT :: "byte list" where
  "HEADER_CONT = bytes_of_string ''SHBK''"

definition HEADER_SIZE :: u32 where
  "HEADER_SIZE = 10"

datatype pack_ret = Threw exn | Ret "IEvent option"

text \<open>Both reads of \<^verbatim>\<open>Pack\<close>: as many bytes as the request buffer still wants.\<close>

definition read_req_buf :: "'b libevent \<Rightarrow> 'b Session \<Rightarrow> 'b Session run" where
  "read_req_buf ev s =
     bind_run (deref (s_bufev s)) (\<lambda>bev.
     let (bs, bev') = bufferevent_read ev bev
           (unat (buf_total (s_req_buf s) - buf_last (s_req_buf s)))
     in bind_run (buf_fill (s_req_buf s) bs) (\<lambda>b.
        Inr (s\<lparr>s_bufev := Some bev', s_req_buf := b\<rparr>)))"

text \<open>The header: four bytes of identification, two of event type, four of body size.\<close>

definition Pack_head :: "'b libevent \<Rightarrow> 'b Session \<Rightarrow> (exn option \<times> 'b Session) run" where
  "Pack_head ev s =
     (if s_stat s = PARSING_HEAD then
        bind_run (read_req_buf ev s) (\<lambda>s1.
        if IsEnough (s_req_buf s1) then
          bind_run (deref (buf_ptr (s_req_buf s1))) (\<lambda>cs.
          bind_run (read_cells cs 0 4) (\<lambda>ident.
          if strncmp ident HEADER_CONT 4 \<noteq> 0 then
            Inr (Some (Invalid_argument ''unknown identifier''), s1)
          else
            bind_run (read_cells cs (length HEADER_CONT) 2) (\<lambda>t.
            bind_run (read_cells cs (length HEADER_CONT + 2) 4) (\<lambda>n.
            let s2 = set_event_type s1 (un_le t);
                s3 = set_state s2 PARSING_BODY
            in Inr (None, s3\<lparr>s_req_buf := Realloc (s_req_buf s3) (un_le n)\<rparr>)))))
        else Inr (None, s1))
      else Inr (None, s))"

definition Pack_event :: "EventType \<Rightarrow> u32 \<Rightarrow> exn + (IEvent \<times> u32)" where
  "Pack_event t sequence =
     (if t = kPhoneReq then Inr (EvPhoneReq_new sequence)
      else if t = kLoginReq then Inr (EvLoginReq_new sequence)
      else Inl (Invalid_argument ''unknown event type''))"

text \<open>The result of \<^verbatim>\<open>ParseFromArray\<close> is not looked at.\<close>

definition Pack_body ::
    "'b libevent \<Rightarrow> protobuf \<Rightarrow> addr \<Rightarrow> 'b Session \<Rightarrow> u32 \<Rightarrow> (pack_ret \<times> 'b Session \<times> u32) run" where
  "Pack_body ev pb sid s sequence =
     (if s_stat s = PARSING_BODY then
        bind_run (deref (s_bufev s)) (\<lambda>bev.
        if evbuffer_get_length ev bev > 0 then
          bind_run (read_req_buf ev s) (\<lambda>s1.
          if IsEnough (s_req_buf s1) then
            (case s_event_type s1 of
               None \<Rightarrow> Inl Uninit_read
             | Some t \<Rightarrow>
                 (case Pack_event t sequence of
                    Inl x \<Rightarrow> Inr (Threw x, s1, sequence)
                  | Inr (e, sequence') \<Rightarrow>
                      bind_run (deref (buf_ptr (s_req_buf s1))) (\<lambda>cs.
                      bind_run (read_cells cs 0 (unat (buf_total (s_req_buf s1)))) (\<lambda>data.
                      let (r, e') = ev_ParseFromArray pb (set_session e sid) data
                                      (buf_total (s_req_buf s1))
                      in Inr (Ret (Some e'), s1\<lparr>s_req_buf := Reset (s_req_buf s1)\<rparr>, sequence')))))
          else Inr (Ret None, s1, sequence))
        else Inr (Ret None, s, sequence))
      else Inr (Ret None, s, sequence))"

definition Pack ::
    "'b libevent \<Rightarrow> protobuf \<Rightarrow> addr \<Rightarrow> 'b Session \<Rightarrow> u32 \<Rightarrow> (pack_ret \<times> 'b Session \<times> u32) run" where
  "Pack ev pb sid s sequence =
     (if s_stat s = HANDLING then Inr (Threw (Runtime_error ''invalid session state''), s, sequence)
      else
        let s1 = (if s_stat s = WAITING_REQUEST then
                    (let s' = set_state s PARSING_HEAD
                     in s'\<lparr>s_req_buf := snd (Alloc (s_req_buf s') HEADER_SIZE)\<rparr>)
                  else s)
        in bind_run (Pack_head ev s1) (\<lambda>(x, s2).
           case x of
             Some x \<Rightarrow> Inr (Threw x, s2, sequence)
           | None \<Rightarrow> Pack_body ev pb sid s2 sequence))"

text \<open>
  \<^verbatim>\<open>Unpack\<close> follows the event's session pointer for its log lines, so the heap of sessions
  is an argument; the message is a fresh array, written piece by piece.
\<close>

definition Unpack :: "protobuf \<Rightarrow> (addr \<rightharpoonup> 'b Session) \<Rightarrow> IEvent \<Rightarrow> (cells \<times> u32) run" where
  "Unpack pb sessions e =
     bind_run (deref (ev_session e)) (\<lambda>sid.
     bind_run (load sessions sid) (\<lambda>_.
     let msg_size = HEADER_SIZE + ev_ByteSize pb e;
         msg = new_array (unat msg_size)
     in bind_run (write_cells msg 0 HEADER_CONT) (\<lambda>m1.
        bind_run (write_cells m1 4 (le_bytes 2 (ev_type e))) (\<lambda>m2.
        bind_run (write_cells m2 6 (le_bytes 4 (ev_ByteSize pb e))) (\<lambda>m3.
        let (r, bytes) = ev_SerializeToArray pb e (ev_ByteSize pb e)
        in bind_run (write_cells m3 10 bytes) (\<lambda>m4. Inr (m4, msg_size)))))))"

text \<open>
  The read callbacks of one request: the event loop appends what the socket delivers and
  calls \<^verbatim>\<open>Pack\<close>, until it returns an event or throws.
\<close>

definition receive :: "'b libevent \<Rightarrow> 'b Session \<Rightarrow> byte list \<Rightarrow> 'b Session" where
  "receive ev s c = s\<lparr>s_bufev := map_option (\<lambda>b. socket_readable ev b c) (s_bufev s)\<rparr>"

fun Pack_chunks ::
    "'b libevent \<Rightarrow> protobuf \<Rightarrow> addr \<Rightarrow> 'b Session \<Rightarrow> u32 \<Rightarrow> byte list list \<Rightarrow>
     (pack_ret \<times> 'b Session \<times> u32) run" where
  "Pack_chunks ev pb sid s sequence [] = Inr (Ret None, s, sequence)"
| "Pack_chunks ev pb sid s sequence (c # cs) =
     bind_run (Pack ev pb sid (receive ev s c) sequence) (\<lambda>(r, s', sequence').
     if r = Ret None then Pack_chunks ev pb sid s' sequence' cs else Inr (r, s', sequence'))"

section \<open>The specification: frames on a byte stream\<close>

definition header :: "EventType \<Rightarrow> u32 \<Rightarrow> byte list" where
  "header t n = HEADER_CONT @ le_bytes 2 t @ le_bytes 4 n"

definition frame :: "EventType \<Rightarrow> byte list \<Rightarrow> byte list" where
  "frame t body = header t (of_nat (length body)) @ body"

datatype frame_result = More | Bad string | Done EventType "byte list" "byte list"

text \<open>
  A request is complete when its header and its body have arrived and at least one byte
  behind the header is there; a body of size 0 therefore waits for the next byte.
\<close>

definition frame_spec :: "byte list \<Rightarrow> frame_result" where
  "frame_spec bs =
     (if length bs < 10 then More
      else if take 4 bs \<noteq> HEADER_CONT then Bad ''unknown identifier''
      else
        let t = un_le (take 2 (drop 4 bs)) :: EventType;
            n = unat (un_le (take 4 (drop 6 bs)) :: u32);
            rest = drop 10 bs
        in if rest = [] \<or> length rest < n then More
           else if t \<noteq> kPhoneReq \<and> t \<noteq> kLoginReq then Bad ''unknown event type''
           else Done t (take n rest) (drop n rest))"

section \<open>Sessions between two callbacks\<close>

definition session_inv :: "'b Session \<Rightarrow> bool" where
  "session_inv s \<longleftrightarrow> s_bufev s \<noteq> None \<and> buf_inv (s_req_buf s) \<and>
     (case s_stat s of
        WAITING_REQUEST \<Rightarrow> buf_ptr (s_req_buf s) = None
      | PARSING_HEAD \<Rightarrow> buf_ptr (s_req_buf s) \<noteq> None \<and> buf_total (s_req_buf s) = HEADER_SIZE \<and>
                        \<not> IsEnough (s_req_buf s)
      | PARSING_BODY \<Rightarrow> buf_ptr (s_req_buf s) \<noteq> None \<and> s_event_type s \<noteq> None \<and>
                        (buf_total (s_req_buf s) = 0 \<or> \<not> IsEnough (s_req_buf s))
      | HANDLING \<Rightarrow> buf_ptr (s_req_buf s) = None)"

definition s_input :: "'b libevent \<Rightarrow> 'b Session \<Rightarrow> byte list" where
  "s_input ev s = (case s_bufev s of None \<Rightarrow> [] | Some b \<Rightarrow> input_of ev b)"

definition s_output :: "'b libevent \<Rightarrow> 'b Session \<Rightarrow> byte list" where
  "s_output ev s = (case s_bufev s of None \<Rightarrow> [] | Some b \<Rightarrow> output_of ev b)"

text \<open>The bytes of the current request that \<^verbatim>\<open>Pack\<close> has taken from the socket already.\<close>

definition s_taken :: "'b Session \<Rightarrow> byte list" where
  "s_taken s = (case s_stat s of
      PARSING_HEAD \<Rightarrow> buf_got (s_req_buf s)
    | PARSING_BODY \<Rightarrow> header (the (s_event_type s)) (buf_total (s_req_buf s)) @ buf_got (s_req_buf s)
    | _ \<Rightarrow> [])"

definition s_stream :: "'b libevent \<Rightarrow> 'b Session \<Rightarrow> byte list" where
  "s_stream ev s = s_taken s @ s_input ev s"

text \<open>What \<^verbatim>\<open>Pack\<close> never changes.\<close>

definition same_client :: "'b libevent \<Rightarrow> 'b Session \<Rightarrow> 'b Session \<Rightarrow> bool" where
  "same_client ev s s' \<longleftrightarrow>
     s_socket s' = s_socket s \<and> s_ip s' = s_ip s \<and> s_port s' = s_port s \<and> s_count s' = s_count s \<and>
     s_identifier s' = s_identifier s \<and> s_phone_number s' = s_phone_number s \<and>
     s_is_login s' = s_is_login s \<and> s_output ev s' = s_output ev s"

text \<open>The event \<^verbatim>\<open>Pack\<close> returns for a complete request.\<close>

definition request_event :: "protobuf \<Rightarrow> addr \<Rightarrow> u32 \<Rightarrow> EventType \<Rightarrow> byte list \<Rightarrow> IEvent" where
  "request_event pb sid sequence t body =
     snd (ev_ParseFromArray pb
       (set_session (fst (if t = kPhoneReq then EvPhoneReq_new sequence else EvLoginReq_new sequence)) sid)
       body (of_nat (length body)))"

lemma length_HEADER_CONT [simp]: "length HEADER_CONT = 4"
  by (simp add: HEADER_CONT_def)

lemma HEADER_CONT_no_NUL: "0 \<notin> set HEADER_CONT"
  by (simp add: HEADER_CONT_def bytes_of_string_def)

lemma strncmp_HEADER_CONT: "length xs = 4 \<Longrightarrow> strncmp xs HEADER_CONT 4 = 0 \<longleftrightarrow> xs = HEADER_CONT"
  using strncmp_pattern [OF HEADER_CONT_no_NUL, of xs] by simp

lemma length_header [simp]: "length (header t n) = 10"
  by (simp add: header_def)

lemma header_parts [simp]:
  "take 4 (header t n) = HEADER_CONT"
  "un_le (take 2 (drop 4 (header t n))) = t"
  "un_le (drop 6 (header t n)) = n"
  using le16.dec_enc [of t] le32.dec_enc [of n] by (simp_all add: header_def)

lemma header_of_parts:
  assumes "length bs = 10" and "take 4 bs = HEADER_CONT"
  shows "header (un_le (take 2 (drop 4 bs))) (un_le (take 4 (drop 6 bs))) = bs"
proof -
  have "le_bytes 2 (un_le (take 2 (drop 4 bs)) :: u16) = take 2 (drop 4 bs)"
    using le_bytes_un_le [of "take 2 (drop 4 bs)", where 'a = 16] assms(1) by simp
  moreover have "le_bytes 4 (un_le (take 4 (drop 6 bs)) :: u32) = drop 6 bs"
    using le_bytes_un_le [of "take 4 (drop 6 bs)", where 'a = 32] assms(1) by simp
  moreover have "take 4 bs @ take 2 (drop 4 bs) @ drop 6 bs = bs"
    using append_take_drop_id [of 4 bs] append_take_drop_id [of 2 "drop 4 bs"] by simp
  ultimately show ?thesis
    using assms by (simp add: header_def)
qed

lemma frame_spec_frame:
  assumes "t = kPhoneReq \<or> t = kLoginReq" and "length body < 4294967296" and "body \<noteq> [] \<or> rest \<noteq> []"
  shows "frame_spec (frame t body @ rest) = Done t body rest"
  using assms by (auto simp: frame_spec_def frame_def Let_def unat_of_nat_u32)

text \<open>What one call of \<^verbatim>\<open>Pack\<close> owes for the stream it sees.\<close>

definition pack_meets ::
    "'b libevent \<Rightarrow> protobuf \<Rightarrow> addr \<Rightarrow> 'b Session \<Rightarrow> u32 \<Rightarrow> byte list \<Rightarrow>
     (pack_ret \<times> 'b Session \<times> u32) run \<Rightarrow> bool" where
  "pack_meets ev pb sid s sequence bs r \<longleftrightarrow> (case frame_spec bs of
      More \<Rightarrow> (\<exists>s'. r = Inr (Ret None, s', sequence) \<and> session_inv s' \<and>
                 (s_stat s' = PARSING_HEAD \<or> s_stat s' = PARSING_BODY) \<and>
                 s_stream ev s' = bs \<and> s_input ev s' = [] \<and> same_client ev s s')
    | Bad msg \<Rightarrow> (\<exists>s'. r = Inr (Threw (Invalid_argument msg), s', sequence) \<and> same_client ev s s')
    | Done t body rest \<Rightarrow>
        (\<exists>s'. r = Inr (Ret (Some (request_event pb sid sequence t body)), s', sequence + 1) \<and>
              session_inv (set_state s' HANDLING) \<and> s_input ev s' = rest \<and> same_client ev s s'))"

section \<open>Pack computes the specification\<close>

lemma frame_spec_short: "length bs < 10 \<Longrightarrow> frame_spec bs = More"
  by (simp add: frame_spec_def)

lemma frame_spec_bad: "10 \<le> length bs \<Longrightarrow> take 4 bs \<noteq> HEADER_CONT \<Longrightarrow> frame_spec bs = Bad ''unknown identifier''"
  by (simp add: frame_spec_def)

lemma frame_spec_header:
  "frame_spec (header t n @ r) =
     (if r = [] \<or> length r < unat n then More
      else if t \<noteq> kPhoneReq \<and> t \<noteq> kLoginReq then Bad ''unknown event type''
      else Done t (take (unat n) r) (drop (unat n) r))"
  by (simp add: frame_spec_def Let_def)

text \<open>
  Reading tops the buffer up from the stream: it then holds the first bytes of the stream,
  as many as it wants, and the rest stays in the socket.
\<close>

lemma read_req_buf_ok:
  assumes ev: "libevent_ok ev" and bev: "s_bufev s = Some bev"
    and inv: "buf_inv (s_req_buf s)" and ptr: "buf_ptr (s_req_buf s) \<noteq> None"
  defines "n \<equiv> unat (buf_total (s_req_buf s))"
    and "str \<equiv> buf_got (s_req_buf s) @ input_of ev bev"
  shows "\<exists>bev' b cs. read_req_buf ev s = Inr (s\<lparr>s_bufev := Some bev', s_req_buf := b\<rparr>) \<and>
     buf_inv b \<and> buf_ptr b = Some cs \<and> buf_total b = buf_total (s_req_buf s) \<and>
     buf_got b = take n str \<and> input_of ev bev' = drop n str \<and>
     output_of ev bev' = output_of ev bev \<and> (IsEnough b \<longleftrightarrow> n \<le> length str)"
proof -
  let ?b = "s_req_buf s"
  let ?k = "n - length (buf_got ?b)"
  have got: "length (buf_got ?b) \<le> n" using req.got_le_cap [OF inv] by (simp add: n_def)
  have k: "unat (buf_total ?b - buf_last ?b) = ?k"
    using inv ptr length_buf_got [OF inv] by (auto simp: n_def buf_inv_def unat_sub split: option.splits)
  obtain bs bev' where r: "bufferevent_read ev bev ?k = (bs, bev')" by fastforce
  have bs: "bs = take ?k (input_of ev bev)" "input_of ev bev' = drop ?k (input_of ev bev)"
      "output_of ev bev' = output_of ev bev"
    using libevent_okD(1-3) [OF ev, of bev ?k] r by simp_all
  have "length (buf_got ?b) + length bs \<le> unat (buf_total ?b)"
    using got by (simp add: bs n_def)
  from buf_fill_ok [OF inv ptr this] obtain b where b: "buf_fill ?b bs = Inr b" "buf_inv b"
      "buf_total b = buf_total ?b" "buf_ptr b \<noteq> None" "buf_got b = buf_got ?b @ bs"
    by blast
  have "buf_got b = take n str" "input_of ev bev' = drop n str"
    using got by (simp_all add: b bs str_def)
  moreover have "IsEnough b \<longleftrightarrow> n \<le> length str"
    using req.full_iff [OF b(2)] got by (auto simp: b bs str_def n_def)
  ultimately show ?thesis
    using b bs(3) by (auto simp: read_req_buf_def bev k r)
qed

lemma read_header_bytes:
  assumes "buf_inv b" and "buf_ptr b = Some cs" and "length (buf_got b) = 10"
  shows "read_cells cs 0 4 = Inr (take 4 (buf_got b))"
    and "read_cells cs 4 2 = Inr (take 2 (drop 4 (buf_got b)))"
    and "read_cells cs 6 4 = Inr (take 4 (drop 6 (buf_got b)))"
  using read_cells_holds_prefix [OF buf_inv_holds_prefix [OF assms(1,2)], of 0 4]
    read_cells_holds_prefix [OF buf_inv_holds_prefix [OF assms(1,2)], of 4 2]
    read_cells_holds_prefix [OF buf_inv_holds_prefix [OF assms(1,2)], of 6 4] assms(3)
  by simp_all

lemma same_client_bufs:
  assumes "s_bufev s = Some bev" and "output_of ev bev' = output_of ev bev"
  shows "same_client ev s (s\<lparr>s_bufev := Some bev', s_req_buf := b\<rparr>)"
    and "same_client ev s (s\<lparr>s_bufev := Some bev', s_event_type := t, s_req_buf := b, s_stat := st\<rparr>)"
  using assms by (simp_all add: same_client_def s_output_def)

lemma same_client_trans: "same_client ev s1 s2 \<Longrightarrow> same_client ev s2 s3 \<Longrightarrow> same_client ev s1 s3"
  by (simp add: same_client_def)

lemma pack_meets_trans:
  "same_client ev s s1 \<Longrightarrow> pack_meets ev pb sid s1 n bs r \<Longrightarrow> pack_meets ev pb sid s n bs r"
  by (auto simp: pack_meets_def split: frame_result.splits intro: same_client_trans)

lemma Pack_event_request:
  "t = kPhoneReq \<or> t = kLoginReq \<Longrightarrow> Pack_event t n =
     Inr (fst (if t = kPhoneReq then EvPhoneReq_new n else EvLoginReq_new n), n + 1)"
  by (auto simp: Pack_event_def EvPhoneReq_new_def EvLoginReq_new_def IEvent_new_def event_type_defs)

text \<open>A complete body: the event is made and parsed, or its type is refused.\<close>

lemma Pack_body_full:
  assumes "s_stat s = PARSING_BODY" and "s_bufev s = Some bev" and "evbuffer_get_length ev bev > 0"
    and "read_req_buf ev s = Inr s1" and "IsEnough (s_req_buf s1)" and "s_event_type s1 = Some t"
    and inv: "buf_inv (s_req_buf s1)" and cs: "buf_ptr (s_req_buf s1) = Some cs"
  shows "Pack_body ev pb sid s n =
    (if t = kPhoneReq \<or> t = kLoginReq
     then Inr (Ret (Some (request_event pb sid n t (buf_got (s_req_buf s1)))),
               s1\<lparr>s_req_buf := Reset (s_req_buf s1)\<rparr>, n + 1)
     else Inr (Threw (Invalid_argument ''unknown event type''), s1, n))"
proof -
  have len: "length (buf_got (s_req_buf s1)) = unat (buf_total (s_req_buf s1))"
    using req.full_iff [OF inv] assms(5) by simp
  then have "read_cells cs 0 (unat (buf_total (s_req_buf s1))) = Inr (buf_got (s_req_buf s1))"
    using read_cells_holds_prefix [OF buf_inv_holds_prefix [OF inv cs], of 0] by simp
  moreover have "(of_nat (length (buf_got (s_req_buf s1))) :: u32) = buf_total (s_req_buf s1)"
    by (simp add: len)
  ultimately show ?thesis
    using assms(1-6) cs
    by (auto simp: Pack_body_def Pack_event_request request_event_def split_beta)
       (simp add: Pack_event_def)
qed

lemma Pack_body_meets:
  assumes ev: "libevent_ok ev" and st: "s_stat s = PARSING_BODY" and inv: "session_inv s"
  shows "pack_meets ev pb sid s sequence (s_stream ev s) (Pack_body ev pb sid s sequence)"
proof -
  obtain bev t where bev: "s_bufev s = Some bev" and t: "s_event_type s = Some t"
    and buf: "buf_inv (s_req_buf s)" "buf_ptr (s_req_buf s) \<noteq> None"
    and fresh: "buf_total (s_req_buf s) = 0 \<or> \<not> IsEnough (s_req_buf s)"
    using inv st by (auto simp: session_inv_def)
  let ?n = "buf_total (s_req_buf s)"
  define str where "str = buf_got (s_req_buf s) @ input_of ev bev"
  have stream: "s_stream ev s = header t ?n @ str"
    by (simp add: s_stream_def s_taken_def s_input_def st t bev str_def)
  have room: "?n = 0 \<and> buf_got (s_req_buf s) = [] \<or> length (buf_got (s_req_buf s)) < unat ?n"
    using fresh req.full_iff [OF buf(1)] req.got_le_cap [OF buf(1)] by fastforce
  obtain bev' b cs where r: "read_req_buf ev s = Inr (s\<lparr>s_bufev := Some bev', s_req_buf := b\<rparr>)"
    and b: "buf_inv b" "buf_ptr b = Some cs" "buf_total b = ?n" "buf_got b = take (unat ?n) str"
    and i: "input_of ev bev' = drop (unat ?n) str" "output_of ev bev' = output_of ev bev"
    and enough: "IsEnough b \<longleftrightarrow> unat ?n \<le> length str"
    using read_req_buf_ok [OF ev bev buf] unfolding str_def by blast
  note client = same_client_bufs(1) [OF bev i(2)]
  consider (empty) "input_of ev bev = []" | (short) "input_of ev bev \<noteq> []" "length str < unat ?n"
    | (full) "input_of ev bev \<noteq> []" "unat ?n \<le> length str"
    by linarith
  then show ?thesis
  proof cases
    case empty
    then have "frame_spec (s_stream ev s) = More"
      using room by (auto simp: stream frame_spec_header str_def)
    with empty show ?thesis
      using inv st bev
      by (simp add: pack_meets_def Pack_body_def libevent_okD(4) [OF ev] s_input_def same_client_def)
  next
    case short
    let ?s1 = "s\<lparr>s_bufev := Some bev', s_req_buf := b\<rparr>"
    have "s_stream ev ?s1 = header t ?n @ str" "s_input ev ?s1 = []" "session_inv ?s1"
      using short enough b i st t
      by (simp_all add: s_stream_def s_taken_def s_input_def session_inv_def)
    with short show ?thesis
      using client [of b] enough st bev
      by (simp add: pack_meets_def stream frame_spec_header Pack_body_def libevent_okD(4) [OF ev] r)
  next
    case full
    then have "str \<noteq> []" by (auto simp: str_def)
    then show ?thesis
      using full client enough b i t bev buf_inv_Reset [OF b(1)]
      by (auto simp: pack_meets_def stream frame_spec_header session_inv_def set_state_def s_input_def
          Pack_body_full [OF st bev _ r] libevent_okD(4) [OF ev])
  qed
qed

text \<open>
  The header: either it is still incomplete, or it is refused, or the session goes on to
  the body with the stream unchanged.
\<close>

lemma Pack_head_cases:
  assumes ev: "libevent_ok ev" and st: "s_stat s = PARSING_HEAD" and inv: "session_inv s"
  shows "\<exists>x s'. Pack_head ev s = Inr (x, s') \<and> same_client ev s s' \<and>
     (if length (s_stream ev s) < 10
      then x = None \<and> session_inv s' \<and> s_stat s' = PARSING_HEAD \<and> s_stream ev s' = s_stream ev s \<and>
           s_input ev s' = []
      else if take 4 (s_stream ev s) \<noteq> HEADER_CONT
      then x = Some (Invalid_argument ''unknown identifier'')
      else x = None \<and> session_inv s' \<and> s_stat s' = PARSING_BODY \<and> s_stream ev s' = s_stream ev s)"
proof -
  obtain bev where bev: "s_bufev s = Some bev"
    and buf: "buf_inv (s_req_buf s)" "buf_ptr (s_req_buf s) \<noteq> None"
    and ten: "buf_total (s_req_buf s) = 10" and fresh: "\<not> IsEnough (s_req_buf s)"
    using inv st by (auto simp: session_inv_def HEADER_SIZE_def)
  define str where "str = buf_got (s_req_buf s) @ input_of ev bev"
  have stream: "s_stream ev s = str"
    by (simp add: s_stream_def s_taken_def s_input_def st bev str_def)
  obtain bev' b cs where r: "read_req_buf ev s = Inr (s\<lparr>s_bufev := Some bev', s_req_buf := b\<rparr>)"
    and b: "buf_inv b" "buf_ptr b = Some cs" "buf_total b = 10" "buf_got b = take 10 str"
    and i: "input_of ev bev' = drop 10 str" "output_of ev bev' = output_of ev bev"
    and enough: "IsEnough b \<longleftrightarrow> 10 \<le> length str"
    using read_req_buf_ok [OF ev bev buf] unfolding str_def by (auto simp: ten)
  note client = same_client_bufs [OF bev i(2)]
  consider (short) "length str < 10" | (bad) "10 \<le> length str" "take 4 str \<noteq> HEADER_CONT"
    | (good) "10 \<le> length str" "take 4 str = HEADER_CONT"
    by linarith
  then show ?thesis
  proof cases
    case short
    let ?s1 = "s\<lparr>s_bufev := Some bev', s_req_buf := b\<rparr>"
    have "s_stream ev ?s1 = str" "s_input ev ?s1 = []" "session_inv ?s1"
      using short enough b i st
      by (simp_all add: s_stream_def s_taken_def s_input_def session_inv_def HEADER_SIZE_def)
    with short show ?thesis
      using client(1) [of b] enough st by (simp add: Pack_head_def r stream)
  next
    case bad
    then have "strncmp (take 4 str) HEADER_CONT 4 \<noteq> 0"
      by (subst strncmp_HEADER_CONT) auto
    then show ?thesis
      using client(1) [of b] bad enough read_header_bytes(1) [OF b(1,2)]
      by (auto simp: Pack_head_def st r stream b)
  next
    case good
    let ?t = "un_le (take 2 (drop 4 (buf_got b))) :: EventType"
      and ?n = "un_le (take 4 (drop 6 (buf_got b))) :: u32"
    let ?s3 = "s\<lparr>s_bufev := Some bev', s_event_type := Some ?t, s_req_buf := Realloc b ?n,
                 s_stat := PARSING_BODY\<rparr>"
    have "strncmp HEADER_CONT HEADER_CONT 4 = 0" by (subst strncmp_HEADER_CONT) auto
    then have "Pack_head ev s = Inr (None, ?s3)"
      using good enough read_header_bytes [OF b(1,2)]
      by (simp add: Pack_head_def st r b set_event_type_def set_state_def)
    moreover have "header ?t ?n = buf_got b"
      by (rule header_of_parts) (use good b(4) in auto)
    then have "s_stream ev ?s3 = str"
      by (simp add: s_stream_def s_taken_def s_input_def Realloc_fresh i b(4))
    moreover have "session_inv ?s3"
      by (auto simp: session_inv_def buf_inv_Realloc [OF b(1)] Realloc_fresh IsEnough_def)
    ultimately show ?thesis
      using client(2) good by (auto simp: stream)
  qed
qed

lemma Pack_parsing_meets:
  assumes ev: "libevent_ok ev" and inv: "session_inv s" and st: "s_stat s = PARSING_HEAD"
  shows "pack_meets ev pb sid s n (s_stream ev s) (Pack ev pb sid s n)"
proof -
  obtain x s' where h: "Pack_head ev s = Inr (x, s')" and client: "same_client ev s s'"
    and c: "if length (s_stream ev s) < 10
      then x = None \<and> session_inv s' \<and> s_stat s' = PARSING_HEAD \<and> s_stream ev s' = s_stream ev s \<and>
           s_input ev s' = []
      else if take 4 (s_stream ev s) \<noteq> HEADER_CONT
      then x = Some (Invalid_argument ''unknown identifier'')
      else x = None \<and> session_inv s' \<and> s_stat s' = PARSING_BODY \<and> s_stream ev s' = s_stream ev s"
    using Pack_head_cases [OF ev st inv] by blast
  have pack: "Pack ev pb sid s n = (case x of Some x \<Rightarrow> Inr (Threw x, s', n) | None \<Rightarrow> Pack_body ev pb sid s' n)"
    by (simp add: Pack_def st h)
  consider "length (s_stream ev s) < 10"
    | "10 \<le> length (s_stream ev s)" "take 4 (s_stream ev s) \<noteq> HEADER_CONT"
    | "10 \<le> length (s_stream ev s)" "take 4 (s_stream ev s) = HEADER_CONT"
    by linarith
  then show ?thesis
  proof cases
    case 1
    with c client show ?thesis
      by (simp add: pack pack_meets_def frame_spec_short Pack_body_def)
  next
    case 2
    with c client show ?thesis
      by (simp add: pack pack_meets_def frame_spec_bad)
  next
    case 3
    with c pack Pack_body_meets [OF ev, of s' pb sid n] show ?thesis
      by (auto intro: pack_meets_trans [OF client])
  qed
qed

lemma Pack_meets:
  assumes ev: "libevent_ok ev" and inv: "session_inv s" and st: "s_stat s \<noteq> HANDLING"
  shows "pack_meets ev pb sid s n (s_stream ev s) (Pack ev pb sid s n)"
proof (cases "s_stat s")
  case WAITING_REQUEST
  let ?b = "snd (Alloc (s_req_buf s) HEADER_SIZE)"
  let ?s1 = "s\<lparr>s_stat := PARSING_HEAD, s_req_buf := ?b\<rparr>"
  have ptr: "buf_ptr (s_req_buf s) = None"
    using inv WAITING_REQUEST by (simp add: session_inv_def)
  have "Pack ev pb sid s n = Pack ev pb sid ?s1 n"
    by (simp add: Pack_def WAITING_REQUEST set_state_def)
  moreover have "session_inv ?s1"
    using inv WAITING_REQUEST
    by (simp add: session_inv_def buf_inv_Alloc Alloc_fresh [OF ptr] IsEnough_def HEADER_SIZE_def)
  moreover have "s_stream ev ?s1 = s_stream ev s"
    by (simp add: s_stream_def s_taken_def s_input_def WAITING_REQUEST Alloc_fresh [OF ptr])
  moreover have "same_client ev s ?s1"
    by (simp add: same_client_def s_output_def)
  ultimately show ?thesis
    using Pack_parsing_meets [OF ev, of ?s1] by (auto intro: pack_meets_trans)
next
  case PARSING_HEAD
  with ev inv show ?thesis by (rule Pack_parsing_meets)
next
  case PARSING_BODY
  moreover from this have "Pack ev pb sid s n = Pack_body ev pb sid s n"
    by (simp add: Pack_def Pack_head_def)
  ultimately show ?thesis
    using Pack_body_meets [OF ev _ inv] by simp
next
  case HANDLING
  with st show ?thesis by simp
qed

section \<open>Splitting a request does not matter\<close>

lemma frame_spec_strict_prefix:
  assumes "bs @ c = frame t body" and "c \<noteq> []" and "length body < 4294967296"
  shows "frame_spec bs = More"
proof (cases "length bs < 10")
  case True
  then show ?thesis by (rule frame_spec_short)
next
  case False
  let ?h = "header t (of_nat (length body))"
  have "take 10 (bs @ c) = ?h" and d: "drop 10 (bs @ c) = body"
    unfolding assms(1) by (simp_all add: frame_def)
  then have "take 10 bs = ?h" using False by simp
  then have r: "bs = ?h @ drop 10 bs" "drop 10 bs @ c = body"
    using False d by (metis append_take_drop_id, simp)
  let ?r = "drop 10 bs"
  have "length ?r < length body" using r(2) assms(2) by (metis length_append less_add_same_cancel1 length_greater_0_conv)
  then show ?thesis
    using assms(3) by (subst r(1)) (simp add: frame_spec_header unat_of_nat_u32)
qed

lemma receive_stream:
  assumes "libevent_ok ev" and "session_inv s"
  shows "session_inv (receive ev s c)" and "s_stream ev (receive ev s c) = s_stream ev s @ c"
    and "same_client ev s (receive ev s c)" and "s_stat (receive ev s c) = s_stat s"
  using assms(2) unfolding receive_def
  by (auto simp: session_inv_def s_stream_def s_taken_def s_input_def same_client_def s_output_def
      libevent_okD [OF assms(1)] split: State.splits)

lemma Pack_chunks_frame:
  assumes ev: "libevent_ok ev" and t: "t = kPhoneReq \<or> t = kLoginReq"
    and len: "body \<noteq> []" "length body < 4294967296"
    and "session_inv s" "s_stat s \<noteq> HANDLING" "s_stream ev s @ concat chunks = frame t body"
    and "s_stream ev s \<noteq> frame t body"
  shows "\<exists>s'. Pack_chunks ev pb sid s n chunks =
              Inr (Ret (Some (request_event pb sid n t body)), s', n + 1) \<and>
            session_inv (set_state s' HANDLING) \<and> s_input ev s' = [] \<and> same_client ev s s'"
  using assms(5-8)
proof (induction chunks arbitrary: s)
  case Nil
  then show ?case by simp
next
  case (Cons c cs)
  let ?s1 = "receive ev s c"
  note s1 = receive_stream [OF ev Cons.prems(1), of c]
  have meets: "pack_meets ev pb sid ?s1 n (s_stream ev s @ c) (Pack ev pb sid ?s1 n)"
    using Pack_meets [OF ev s1(1)] s1(2,4) Cons.prems(2) by simp
  show ?case
  proof (cases "concat cs = [] \<and> s_stream ev s @ c = frame t body")
    case True
    then have "frame_spec (s_stream ev s @ c) = Done t body []"
      using frame_spec_frame [OF t len(2), of "[]"] len(1) by simp
    with meets show ?thesis
      by (auto simp: pack_meets_def intro: same_client_trans [OF s1(3)])
  next
    case False
    with Cons.prems(3) have "concat cs \<noteq> []" by (metis append.assoc append_Nil2 concat.simps(2))
    then have "frame_spec (s_stream ev s @ c) = More"
      using frame_spec_strict_prefix [of "s_stream ev s @ c"] Cons.prems(3) len(2) by simp
    with meets obtain s2 where s2: "Pack ev pb sid ?s1 n = Inr (Ret None, s2, n)" "session_inv s2"
        "s_stat s2 \<noteq> HANDLING" "s_stream ev s2 = s_stream ev s @ c" "same_client ev ?s1 s2"
      by (auto simp: pack_meets_def)
    have "s_stream ev s2 @ concat cs = frame t body" "s_stream ev s2 \<noteq> frame t body"
      using s2(4) Cons.prems(3) \<open>concat cs \<noteq> []\<close> by (simp, metis append.assoc concat.simps(2) self_append_conv)
    from Cons.IH [OF s2(2,3) this] s2 show ?thesis
      by (auto intro: same_client_trans [OF same_client_trans [OF s1(3) s2(5)]])
  qed
qed

section \<open>Unpack writes a frame\<close>

lemma write_cells_append:
  "write_cells (map Some xs @ replicate (length bs + k) None) (length xs) bs =
     Inr (map Some (xs @ bs) @ replicate k None)"
  by (simp add: write_cells_def)

lemma Unpack_frame:
  assumes pb: "protobuf_ok pb" and ok: "body_ok (ev_body e)"
    and len: "length (body_bytes pb (ev_body e)) < 2147483648"
    and sess: "ev_session e = Some sid" "sessions sid = Some s"
  defines "bytes \<equiv> frame (ev_type e) (body_bytes pb (ev_body e))"
  shows "Unpack pb sessions e = Inr (map Some bytes, of_nat (length bytes))"
proof -
  let ?b = "body_bytes pb (ev_body e)"
  have sz: "ev_ByteSize pb e = of_nat (length ?b)"
    using arg_cong [OF ev_ByteSize_bytes [OF pb len], of "of_nat :: nat \<Rightarrow> i32"] by simp
  have total: "unat (HEADER_SIZE + ev_ByteSize pb e) = length bytes"
    using len by (simp add: sz HEADER_SIZE_def bytes_def frame_def unat_word_ariths unat_of_nat)
  note w = write_cells_append
  have w1: "write_cells (new_array (length bytes)) 0 HEADER_CONT =
      Inr (map Some HEADER_CONT @ replicate (6 + length ?b) None)"
    using w [of "[]" HEADER_CONT "6 + length ?b"] by (simp add: new_array_def bytes_def frame_def)
  have w2: "write_cells (map Some HEADER_CONT @ replicate (6 + length ?b) None) 4 (le_bytes 2 (ev_type e)) =
      Inr (map Some HEADER_CONT @ map Some (le_bytes 2 (ev_type e)) @ replicate (4 + length ?b) None)"
    using w [of HEADER_CONT "le_bytes 2 (ev_type e)" "4 + length ?b"] by simp
  have w3: "write_cells (map Some HEADER_CONT @ map Some (le_bytes 2 (ev_type e)) @ replicate (4 + length ?b) None) 6
        (le_bytes 4 (ev_ByteSize pb e)) =
      Inr (map Some (header (ev_type e) (of_nat (length ?b))) @ replicate (length ?b) None)"
    using w [of "HEADER_CONT @ le_bytes 2 (ev_type e)" "le_bytes 4 (ev_ByteSize pb e)" "length ?b"]
    by (simp add: header_def sz)
  have w4: "write_cells (map Some (header (ev_type e) (of_nat (length ?b))) @ replicate (length ?b) None) 10 ?b =
      Inr (map Some bytes)"
    using w [of "header (ev_type e) (of_nat (length ?b))" ?b 0] by (simp add: bytes_def frame_def)
  have "HEADER_SIZE + ev_ByteSize pb e = of_nat (length bytes)"
    by (simp add: sz HEADER_SIZE_def bytes_def frame_def)
  then show ?thesis
    using total by (simp add: Unpack_def sess load_def w1 w2 w3 w4 ev_Serialize_bytes [OF pb len ok])
qed


text \<open>The event of a complete request carries the content that was encoded.\<close>

lemma request_event_body:
  assumes "protobuf_ok pb" and "body_ok b" and "t = body_type b" and "t = kPhoneReq \<or> t = kLoginReq"
    and "length (body_bytes pb b) < 2147483648"
  shows "ev_type (request_event pb sid n t (body_bytes pb b)) = t \<and>
    ev_id (request_event pb sid n t (body_bytes pb b)) = n \<and>
    ev_session (request_event pb sid n t (body_bytes pb b)) = Some sid \<and>
    body_norm (ev_body (request_event pb sid n t (body_bytes pb b))) = body_norm b"
proof -
  let ?e = "set_session (fst (if t = kPhoneReq then EvPhoneReq_new n else EvLoginReq_new n)) sid"
  have e: "ev_type ?e = t" "ev_id ?e = n" "ev_session ?e = Some sid" "body_type (ev_body ?e) = body_type b"
      "body_wf (ev_body ?e)"
    using assms(3,4) PhoneReq_wf_new LoginReq_wf_new
    by (auto simp: set_session_def EvPhoneReq_new_def EvLoginReq_new_def IEvent_new_def event_type_defs)
  have "unat (of_nat (length (body_bytes pb b)) :: i32) = length (body_bytes pb b)"
    using assms(5) by (intro unat_of_nat_u32) simp
  from ev_Parse_bytes [OF assms(1,2,5) this e(4,5)] show ?thesis
    using e by (auto simp: request_event_def)
qed

section \<open>Properties\<close>

text \<open>A session as \<^verbatim>\<open>ListenerCallback\<close> leaves it, with the contents of its socket.\<close>

definition waiting_session :: "byte list \<Rightarrow> (byte list \<times> byte list) Session" where
  "waiting_session bs = set_bufev (Session_new 7 ''10.0.0.1'' 4000) (bs, [])"

lemma waiting_session_inv [simp]:
  "session_inv (waiting_session bs)" "s_stat (waiting_session bs) = WAITING_REQUEST"
  "s_stream mem_libevent (waiting_session bs) = bs" "s_input mem_libevent (waiting_session bs) = bs"
  by (simp_all add: waiting_session_def session_inv_def set_bufev_def Session_new_def Buffer_new_def
      buf_inv_def s_stream_def s_taken_def s_input_def mem_libevent_def)

lemma Pack_frame:
  assumes "libevent_ok ev" and "session_inv s" and "s_stat s \<noteq> HANDLING"
    and "t = kPhoneReq \<or> t = kLoginReq" and "length body < 4294967296" and "body \<noteq> [] \<or> rest \<noteq> []"
    and "s_stream ev s = frame t body @ rest"
  shows "\<exists>s'. Pack ev pb sid s n = Inr (Ret (Some (request_event pb sid n t body)), s', n + 1) \<and>
    session_inv (set_state s' HANDLING) \<and> s_input ev s' = rest \<and> same_client ev s s'"
  using Pack_meets [OF assms(1-3), of pb sid n] assms(4-7)
  by (simp add: pack_meets_def frame_spec_frame)



text \<open>
  Claim C7: however the network cuts a request frame into pieces, the read callbacks
  return exactly one event, the one for the frame's body, with the last piece, and no
  byte is left over.
\<close>

theorem Pack_fragmentation:
  assumes "libevent_ok ev" and "t = kPhoneReq \<or> t = kLoginReq"
    and "body \<noteq> []" and "length body < 4294967296"
    and "session_inv s" and "s_stat s = WAITING_REQUEST" and "s_input ev s = []"
    and "concat chunks = frame t body"
  shows "\<exists>s'. Pack_chunks ev pb sid s n chunks =
              Inr (Ret (Some (request_event pb sid n t body)), s', n + 1) \<and>
            session_inv (set_state s' HANDLING) \<and> s_input ev s' = [] \<and> same_client ev s s'"
proof -
  have "s_stream ev s = []" using assms(6,7) by (simp add: s_stream_def s_taken_def)
  moreover have "[] \<noteq> frame t body" using assms(3) by (simp add: frame_def)
  ultimately show ?thesis
    using Pack_chunks_frame [OF assms(1-5), of chunks pb sid n] assms(6,8) by simp
qed

theorem Pack_fragmentation_witness:
  "\<exists>s'. Pack_chunks mem_libevent wire_protobuf 5 (waiting_session []) 41
      [take 3 (frame kPhoneReq [10, 1, 49]), [], drop 3 (frame kPhoneReq [10, 1, 49])] =
      Inr (Ret (Some (request_event wire_protobuf 5 41 kPhoneReq [10, 1, 49])), s', 42)"
  using Pack_fragmentation [of mem_libevent kPhoneReq "[10, 1, 49]" "waiting_session []"
      "[take 3 (frame kPhoneReq [10, 1, 49]), [], drop 3 (frame kPhoneReq [10, 1, 49])]" wire_protobuf 5 41]
  by auto

text \<open>
  \<^verbatim>\<open>MsgProxy::Unpack\<close> allocates an array of exactly the frame's size and fills every
  cell of it with the frame of the event: identifier, event type, body size and body.
\<close>

theorem Unpack_writes_frame:
  assumes "protobuf_ok pb" and "body_ok (ev_body e)"
    and "length (body_bytes pb (ev_body e)) < 2147483648"
    and "ev_session e = Some sid" and "sessions sid = Some s"
  shows "Unpack pb sessions e =
    Inr (map Some (frame (ev_type e) (body_bytes pb (ev_body e))),
         of_nat (length (frame (ev_type e) (body_bytes pb (ev_body e)))))"
  using Unpack_frame [of pb e sid sessions s] assms by simp

text \<open>A login response on the wire.\<close>

definition ok_response :: "addr \<Rightarrow> IEvent" where
  "ok_response sid = \<lparr>ev_type = kLoginRes, ev_id = 0, ev_session = Some sid, ev_body = EvLoginRes
     \<lparr>lres_arena = None, lres_unknown = [], lres_has_bits = 3, lres_cached_size = 0, lres_desc = ''ok.'',
      lres_code = 200\<rparr>\<rparr>"

theorem Unpack_writes_frame_witness:
  "\<exists>bytes. Unpack wire_protobuf [3 \<mapsto> waiting_session []] (ok_response 3) =
     Inr (map Some (header kLoginRes (of_nat (length bytes)) @ bytes), of_nat (10 + length bytes))"
proof -
  have "length (body_bytes wire_protobuf (ev_body (ok_response 3))) \<le> 20"
    using LoginRes_bytes_le [OF protobuf_ok_runtime [OF wire_protobuf_ok],
        of "case ev_body (ok_response 3) of EvLoginRes m \<Rightarrow> m"]
    by (simp add: ok_response_def)
  then show ?thesis
    using Unpack_writes_frame [of wire_protobuf "ok_response 3" 3 "[3 \<mapsto> waiting_session []]" "waiting_session []"]
      response_body_ok(2)
    by (auto simp: ok_response_def frame_def)
qed

text \<open>
  Claim C14: a request event that one side unpacks and the other side packs, whatever the
  pieces in which the bytes travel, arrives with its event type and its content.
\<close>

theorem Unpack_Pack_roundtrip:
  assumes "protobuf_ok pb" and "libevent_ok ev" and "body_ok (ev_body e)"
    and "ev_type e = body_type (ev_body e)" and "ev_type e = kPhoneReq \<or> ev_type e = kLoginReq"
    and "body_bytes pb (ev_body e) \<noteq> []" and "length (body_bytes pb (ev_body e)) < 2147483648"
    and "ev_session e = Some a" and "sessions a = Some peer"
    and "session_inv s" and "s_stat s = WAITING_REQUEST" and "s_input ev s = []"
    and "Unpack pb sessions e = Inr (cells, len)" and "concat chunks = map the cells"
  shows "\<exists>s' e'. Pack_chunks ev pb sid s n chunks = Inr (Ret (Some e'), s', n + 1) \<and>
    ev_type e' = ev_type e \<and> ev_id e' = n \<and> ev_session e' = Some sid \<and>
    body_norm (ev_body e') = body_norm (ev_body e)"
proof -
  let ?b = "body_bytes pb (ev_body e)"
  have "Unpack pb sessions e = Inr (map Some (frame (ev_type e) ?b), of_nat (length (frame (ev_type e) ?b)))"
    using Unpack_frame [of pb e a sessions peer] assms by simp
  then have "concat chunks = frame (ev_type e) ?b"
    using assms(13,14) by (simp add: comp_def)
  moreover have "s_stream ev s = []" using assms(11,12) by (simp add: s_stream_def s_taken_def)
  moreover have "[] \<noteq> frame (ev_type e) ?b" using assms(6) by (simp add: frame_def)
  ultimately obtain s' where "Pack_chunks ev pb sid s n chunks =
      Inr (Ret (Some (request_event pb sid n (ev_type e) ?b)), s', n + 1)"
    using Pack_chunks_frame [OF assms(2,5,6) _ assms(10), of chunks pb sid n] assms(7,11) by auto
  moreover have "ev_type (request_event pb sid n (ev_type e) ?b) = ev_type e \<and>
      ev_id (request_event pb sid n (ev_type e) ?b) = n \<and>
      ev_session (request_event pb sid n (ev_type e) ?b) = Some sid \<and>
      body_norm (ev_body (request_event pb sid n (ev_type e) ?b)) = body_norm (ev_body e)"
    by (rule request_event_body [OF assms(1,3,4,5,7)])
  ultimately show ?thesis by blast
qed

text \<open>A request for an identifier, as a client builds it.\<close>

definition phone_request :: "addr \<Rightarrow> IEvent" where
  "phone_request a = \<lparr>ev_type = kPhoneReq, ev_id = 0, ev_session = Some a,
     ev_body = EvPhoneReq (PhoneReq_set_phone_number (PhoneReq_ctor None) ''13'')\<rparr>"


lemma phone_request_facts:
  "body_ok (ev_body (phone_request a))" "ev_type (phone_request a) = kPhoneReq"
  "body_type (ev_body (phone_request a)) = kPhoneReq" "ev_session (phone_request a) = Some a"
  "body_bytes wire_protobuf (ev_body (phone_request a)) \<noteq> []"
  "length (body_bytes wire_protobuf (ev_body (phone_request a))) < 2147483648"
proof -
  let ?m = "PhoneReq_set_phone_number (PhoneReq_ctor None) ''13''"
  show "body_ok (ev_body (phone_request a))"
    using PhoneReq_wf_accessors(1) [OF PhoneReq_wf_new(1)]
    by (simp add: phone_request_def IsInitialized_iff PhoneReq_has_phone_number_def
        PhoneReq_set_phone_number_def PhoneReq_ctor_def)
  have "length (PhoneReq_InternalSerialize wire_protobuf ?m) \<le> 8"
    using PhoneReq_bytes_le [OF protobuf_ok_runtime [OF wire_protobuf_ok], of ?m]
    by (simp add: PhoneReq_set_phone_number_def PhoneReq_ctor_def)
  then show "length (body_bytes wire_protobuf (ev_body (phone_request a))) < 2147483648"
    by (simp add: phone_request_def)
  show "body_bytes wire_protobuf (ev_body (phone_request a)) \<noteq> []"
    by (simp add: phone_request_def PhoneReq_InternalSerialize_def PhoneReq_set_phone_number_def
        PhoneReq_ctor_def wire_runtime_def)
qed (simp_all add: phone_request_def)

theorem Unpack_Pack_roundtrip_witness:
  "\<exists>cells len. Unpack wire_protobuf [3 \<mapsto> waiting_session []] (phone_request 3) = Inr (cells, len) \<and>
     (\<exists>s' e'. Pack_chunks mem_libevent wire_protobuf 5 (waiting_session []) 8
        [take 7 (map the cells), drop 7 (map the cells)] = Inr (Ret (Some e'), s', 9) \<and>
        ev_type e' = kPhoneReq \<and> body_norm (ev_body e') = body_norm (ev_body (phone_request 3)))"
proof -
  let ?b = "frame kPhoneReq (body_bytes wire_protobuf (ev_body (phone_request 3)))"
  have un: "Unpack wire_protobuf [3 \<mapsto> waiting_session []] (phone_request 3) =
      Inr (map Some ?b, of_nat (length ?b))"
    using Unpack_frame [of wire_protobuf "phone_request 3" 3 "[3 \<mapsto> waiting_session []]" "waiting_session []"]
    by (simp add: phone_request_facts)
  then have "\<exists>s' e'. Pack_chunks mem_libevent wire_protobuf 5 (waiting_session []) 8 [take 7 ?b, drop 7 ?b] =
      Inr (Ret (Some e'), s', 9) \<and> ev_type e' = kPhoneReq \<and>
      body_norm (ev_body e') = body_norm (ev_body (phone_request 3))"
    using Unpack_Pack_roundtrip [of wire_protobuf mem_libevent "phone_request 3" 3 "[3 \<mapsto> waiting_session []]"
        "waiting_session []" "waiting_session []" "map Some ?b" "of_nat (length ?b)" "[take 7 ?b, drop 7 ?b]" 5 8]
    by (simp add: phone_request_facts comp_def) blast
  then show ?thesis
    by (intro exI [of _ "map Some ?b"] exI [of _ "of_nat (length ?b)"])
       (simp add: un map_map comp_def del: Pack_chunks.simps)
qed

text \<open>
  A request with an empty body is not recognised when it is complete: \<^verbatim>\<open>Pack\<close>
  returns no event for it, and returns one only when the first byte of whatever the
  client sends next has arrived.
\<close>

theorem Pack_empty_body_waits:
  assumes "libevent_ok ev" and "t = kPhoneReq \<or> t = kLoginReq"
    and "session_inv s" and "s_stat s = WAITING_REQUEST" and "s_input ev s = frame t []"
  shows "\<exists>s1. Pack ev pb sid s n = Inr (Ret None, s1, n) \<and>
    (\<forall>b bs. \<exists>s2. Pack ev pb sid (receive ev s1 (b # bs)) n =
       Inr (Ret (Some (request_event pb sid n t [])), s2, n + 1) \<and> s_input ev s2 = b # bs)"
proof -
  have stream: "s_stream ev s = frame t []"
    using assms(4,5) by (simp add: s_stream_def s_taken_def)
  have "frame_spec (frame t []) = More"
    using frame_spec_header [of t 0 "[]"] by (simp add: frame_def)
  with Pack_meets [OF assms(1,3), of pb sid n] stream assms(4) obtain s1 where
    s1: "Pack ev pb sid s n = Inr (Ret None, s1, n)" "session_inv s1" "s_stat s1 \<noteq> HANDLING"
      "s_stream ev s1 = frame t []"
    by (auto simp: pack_meets_def)
  have "\<exists>s2. Pack ev pb sid (receive ev s1 (b # bs)) n =
       Inr (Ret (Some (request_event pb sid n t [])), s2, n + 1) \<and> s_input ev s2 = b # bs" for b bs
    using Pack_frame [OF assms(1) receive_stream(1) [OF assms(1) s1(2)] _ assms(2), of "b # bs" "[]" "b # bs" pb sid n]
      receive_stream(2,4) [OF assms(1) s1(2), of "b # bs"] s1(3,4) by auto
  with s1(1) show ?thesis by blast
qed

theorem Pack_empty_body_waits_witness:
  "\<exists>s1. Pack mem_libevent wire_protobuf 5 (waiting_session (frame kLoginReq [])) 2 = Inr (Ret None, s1, 2)"
  using Pack_empty_body_waits [of mem_libevent kLoginReq "waiting_session (frame kLoginReq [])" wire_protobuf 5 2]
  by auto

text \<open>
  When two requests arrive in one piece, the read callback returns the event of
  the first only; every byte of the second one stays in the socket's buffer.
\<close>

theorem Pack_leaves_second_request:
  assumes "libevent_ok ev" and "session_inv s" and "s_stat s = WAITING_REQUEST" and "s_input ev s = []"
    and "t = kPhoneReq \<or> t = kLoginReq" and "body \<noteq> []" and "length body < 4294967296"
  shows "\<exists>s'. Pack_chunks ev pb sid s n [frame t body @ frame t' body'] =
      Inr (Ret (Some (request_event pb sid n t body)), s', n + 1) \<and>
    s_input ev s' = frame t' body' \<and> session_inv (set_state s' HANDLING)"
proof -
  have "s_stream ev s = []" using assms(3,4) by (simp add: s_stream_def s_taken_def)
  then have "s_stream ev (receive ev s (frame t body @ frame t' body')) = frame t body @ frame t' body'"
    using receive_stream(2) [OF assms(1,2)] by simp
  from Pack_frame [OF assms(1) receive_stream(1) [OF assms(1,2)] _ assms(5,7) _ this, of pb sid n]
  show ?thesis using receive_stream(4) [OF assms(1,2)] assms(3,6) by auto
qed

theorem Pack_leaves_second_request_witness:
  "\<exists>s'. Pack_chunks mem_libevent wire_protobuf 5 (waiting_session [])  0
      [frame kPhoneReq [10, 1, 49] @ frame kPhoneReq [10, 1, 50]] =
      Inr (Ret (Some (request_event wire_protobuf 5 0 kPhoneReq [10, 1, 49])), s', 1) \<and>
    s_input mem_libevent s' = frame kPhoneReq [10, 1, 50]"
  using Pack_leaves_second_request [of mem_libevent "waiting_session []" kPhoneReq "[10, 1, 49]" wire_protobuf 5 0
      kPhoneReq "[10, 1, 50]"]
  by auto

end
