(* ===== verification/Toml_Lexer.thy ===== *)
theory Toml_Lexer
  imports Prelude
begin

text \<open>
  The lexer of \<^verbatim>\<open>toml11\<close>: the combinators of \<^verbatim>\<open>combinator.hpp\<close> and the lexers \<^verbatim>\<open>lexer.hpp\<close> builds of
  them. A location is the text from its iterator to the end of the source, a region the text between
  its iterators; line numbers serve the messages of errors only and are left out. A lexer returns
  the region it matched, or none, and the location it leaves.
\<close>

section \<open>combinator.hpp\<close>

type_synonym location = string
type_synonym region = string
type_synonym lexer = "location \<Rightarrow> region option \<times> location"

text \<open>A \<^verbatim>\<open>char\<close> is signed where the library is used.\<close>

definition schar :: "char \<Rightarrow> int" where
  "schar c = (let n = of_char c :: int in if n < 128 then n else n - 256)"

fun character :: "char \<Rightarrow> lexer" where
  "character target [] = (None, [])"
| "character target (c # cs) = (if c \<noteq> target then (None, c # cs) else (Some [c], cs))"

fun in_range :: "char \<Rightarrow> char \<Rightarrow> lexer" where
  "in_range lower upper [] = (None, [])"
| "in_range lower upper (c # cs) =
     (if schar c < schar lower \<or> schar upper < schar c then (None, c # cs) else (Some [c], cs))"

fun exclude :: "lexer \<Rightarrow> lexer" where
  "exclude T [] = (None, [])"
| "exclude T (c # cs) = (case T (c # cs) of (Some r, loc) \<Rightarrow> (None, c # cs) | (None, loc) \<Rightarrow> (Some [c], cs))"

definition maybe :: "lexer \<Rightarrow> lexer" where
  "maybe T loc = (case T loc of (Some r, loc') \<Rightarrow> (Some r, loc') | (None, loc') \<Rightarrow> (Some [], loc'))"

fun seq_from :: "location \<Rightarrow> region \<Rightarrow> lexer list \<Rightarrow> lexer" where
  "seq_from first reg [] loc = (Some reg, loc)"
| "seq_from first reg (T # Ts) loc =
     (case T loc of (None, loc') \<Rightarrow> (None, first) | (Some r, loc') \<Rightarrow> seq_from first (reg @ r) Ts loc')"

definition lex_sequence :: "lexer list \<Rightarrow> lexer" where
  "lex_sequence Ts loc = seq_from loc [] Ts loc"

fun either :: "lexer list \<Rightarrow> lexer" where
  "either [] loc = (None, loc)"
| "either (T # Ts) loc = (case T loc of (Some r, loc') \<Rightarrow> (Some r, loc') | (None, loc') \<Rightarrow> either Ts loc')"

fun repeat_from :: "location \<Rightarrow> region \<Rightarrow> nat \<Rightarrow> lexer \<Rightarrow> lexer" where
  "repeat_from first reg 0 T loc = (Some reg, loc)"
| "repeat_from first reg (Suc n) T loc =
     (case T loc of (None, loc') \<Rightarrow> (None, first) | (Some r, loc') \<Rightarrow> repeat_from first (reg @ r) n T loc')"

definition repeat_exactly :: "nat \<Rightarrow> lexer \<Rightarrow> lexer" where
  "repeat_exactly n T loc = repeat_from loc [] n T loc"

text \<open>
  The loop of an unlimited repetition. Its fuel is one more than the text has characters, enough
  for a lexer that consumes: \<open>repeat_unlimited_unfold\<close>.
\<close>

fun repeat_loop :: "nat \<Rightarrow> region \<Rightarrow> lexer \<Rightarrow> lexer" where
  "repeat_loop 0 reg T loc = (Some reg, loc)"
| "repeat_loop (Suc n) reg T loc =
     (case T loc of (None, loc') \<Rightarrow> (Some reg, loc') | (Some r, loc') \<Rightarrow> repeat_loop n (reg @ r) T loc')"

definition repeat_unlimited :: "lexer \<Rightarrow> lexer" where
  "repeat_unlimited T loc = repeat_loop (Suc (length loc)) [] T loc"

definition repeat_at_least :: "nat \<Rightarrow> lexer \<Rightarrow> lexer" where
  "repeat_at_least n T loc =
     (case repeat_from loc [] n T loc of
        (None, loc') \<Rightarrow> (None, loc')
      | (Some r, loc') \<Rightarrow> repeat_loop (Suc (length loc')) r T loc')"

section \<open>lexer.hpp: white space and integers\<close>

definition newline_char :: char where "newline_char = CHR 10"
definition carriage_return :: char where "carriage_return = CHR 13"
definition tab_char :: char where "tab_char = CHR 9"
definition quote_char :: char where "quote_char = CHR 34"
definition apostrophe_char :: char where "apostrophe_char = CHR 39"
definition backslash_char :: char where "backslash_char = CHR 92"

definition lex_wschar :: lexer where
  "lex_wschar = either [character CHR '' '', character tab_char]"
definition lex_ws :: lexer where
  "lex_ws = repeat_at_least 1 lex_wschar"
definition lex_newline :: lexer where
  "lex_newline = either [character newline_char, lex_sequence [character carriage_return, character newline_char]]"
definition lex_lower :: lexer where "lex_lower = in_range CHR ''a'' CHR ''z''"
definition lex_upper :: lexer where "lex_upper = in_range CHR ''A'' CHR ''Z''"
definition lex_alpha :: lexer where "lex_alpha = either [lex_lower, lex_upper]"
definition lex_digit :: lexer where "lex_digit = in_range CHR ''0'' CHR ''9''"
definition lex_nonzero :: lexer where "lex_nonzero = in_range CHR ''1'' CHR ''9''"
definition lex_oct_dig :: lexer where "lex_oct_dig = in_range CHR ''0'' CHR ''7''"
definition lex_bin_dig :: lexer where "lex_bin_dig = in_range CHR ''0'' CHR ''1''"
definition lex_hex_dig :: lexer where
  "lex_hex_dig = either [lex_digit, in_range CHR ''A'' CHR ''F'', in_range CHR ''a'' CHR ''f'']"

definition lex_hex_prefix :: lexer where "lex_hex_prefix = lex_sequence [character CHR ''0'', character CHR ''x'']"
definition lex_oct_prefix :: lexer where "lex_oct_prefix = lex_sequence [character CHR ''0'', character CHR ''o'']"
definition lex_bin_prefix :: lexer where "lex_bin_prefix = lex_sequence [character CHR ''0'', character CHR ''b'']"
definition lex_underscore :: lexer where "lex_underscore = character CHR ''_''"
definition lex_plus :: lexer where "lex_plus = character CHR ''+''"
definition lex_minus :: lexer where "lex_minus = character CHR ''-''"
definition lex_sign :: lexer where "lex_sign = either [lex_plus, lex_minus]"

definition lex_unsigned_dec_int :: lexer where
  "lex_unsigned_dec_int =
     either [lex_sequence [lex_nonzero, repeat_at_least 1 (either [lex_digit, lex_sequence [lex_underscore, lex_digit]])],
             lex_digit]"
definition lex_dec_int :: lexer where
  "lex_dec_int = lex_sequence [maybe lex_sign, lex_unsigned_dec_int]"
definition lex_hex_int :: lexer where
  "lex_hex_int = lex_sequence [lex_hex_prefix, lex_sequence [lex_hex_dig,
     repeat_unlimited (either [lex_hex_dig, lex_sequence [lex_underscore, lex_hex_dig]])]]"
definition lex_oct_int :: lexer where
  "lex_oct_int = lex_sequence [lex_oct_prefix, lex_sequence [lex_oct_dig,
     repeat_unlimited (either [lex_oct_dig, lex_sequence [lex_underscore, lex_oct_dig]])]]"
definition lex_bin_int :: lexer where
  "lex_bin_int = lex_sequence [lex_bin_prefix, lex_sequence [lex_bin_dig,
     repeat_unlimited (either [lex_bin_dig, lex_sequence [lex_underscore, lex_bin_dig]])]]"
definition lex_integer :: lexer where
  "lex_integer = either [lex_bin_int, lex_oct_int, lex_hex_int, lex_dec_int]"

section \<open>lexer.hpp: floating point numbers, booleans, dates and times\<close>

definition lex_inf :: lexer where
  "lex_inf = lex_sequence [character CHR ''i'', character CHR ''n'', character CHR ''f'']"
definition lex_nan :: lexer where
  "lex_nan = lex_sequence [character CHR ''n'', character CHR ''a'', character CHR ''n'']"
definition lex_special_float :: lexer where
  "lex_special_float = lex_sequence [maybe lex_sign, either [lex_inf, lex_nan]]"
definition lex_zero_prefixable_int :: lexer where
  "lex_zero_prefixable_int =
     lex_sequence [lex_digit, repeat_unlimited (either [lex_digit, lex_sequence [lex_underscore, lex_digit]])]"
definition lex_fractional_part :: lexer where
  "lex_fractional_part = lex_sequence [character CHR ''.'', lex_zero_prefixable_int]"
definition lex_exponent_part :: lexer where
  "lex_exponent_part =
     lex_sequence [either [character CHR ''e'', character CHR ''E''], maybe lex_sign, lex_zero_prefixable_int]"
definition lex_float :: lexer where
  "lex_float = either [lex_special_float,
     lex_sequence [lex_dec_int, either [lex_exponent_part, lex_sequence [lex_fractional_part, maybe lex_exponent_part]]]]"

definition lex_true :: lexer where
  "lex_true = lex_sequence [character CHR ''t'', character CHR ''r'', character CHR ''u'', character CHR ''e'']"
definition lex_false :: lexer where
  "lex_false =
     lex_sequence [character CHR ''f'', character CHR ''a'', character CHR ''l'', character CHR ''s'', character CHR ''e'']"
definition lex_boolean :: lexer where "lex_boolean = either [lex_true, lex_false]"

definition lex_date_fullyear :: lexer where "lex_date_fullyear = repeat_exactly 4 lex_digit"
definition lex_date_month :: lexer where "lex_date_month = repeat_exactly 2 lex_digit"
definition lex_date_mday :: lexer where "lex_date_mday = repeat_exactly 2 lex_digit"
definition lex_time_delim :: lexer where
  "lex_time_delim = either [character CHR ''T'', character CHR ''t'', character CHR '' '']"
definition lex_time_hour :: lexer where "lex_time_hour = repeat_exactly 2 lex_digit"
definition lex_time_minute :: lexer where "lex_time_minute = repeat_exactly 2 lex_digit"
definition lex_time_second :: lexer where "lex_time_second = repeat_exactly 2 lex_digit"
definition lex_time_secfrac :: lexer where
  "lex_time_secfrac = lex_sequence [character CHR ''.'', repeat_at_least 1 lex_digit]"
definition lex_time_numoffset :: lexer where
  "lex_time_numoffset = lex_sequence [either [character CHR ''+'', character CHR ''-''],
     lex_sequence [lex_time_hour, character CHR '':'', lex_time_minute]]"
definition lex_time_offset :: lexer where
  "lex_time_offset = either [character CHR ''Z'', character CHR ''z'', lex_time_numoffset]"
definition lex_partial_time :: lexer where
  "lex_partial_time = lex_sequence [lex_time_hour, character CHR '':'', lex_time_minute, character CHR '':'',
     lex_time_second, maybe lex_time_secfrac]"
definition lex_full_date :: lexer where
  "lex_full_date = lex_sequence [lex_date_fullyear, character CHR ''-'', lex_date_month, character CHR ''-'', lex_date_mday]"
definition lex_full_time :: lexer where
  "lex_full_time = lex_sequence [lex_partial_time, lex_time_offset]"
definition lex_offset_date_time :: lexer where
  "lex_offset_date_time = lex_sequence [lex_full_date, lex_time_delim, lex_full_time]"
definition lex_local_date_time :: lexer where
  "lex_local_date_time = lex_sequence [lex_full_date, lex_time_delim, lex_partial_time]"
definition lex_local_date :: lexer where "lex_local_date = lex_full_date"
definition lex_local_time :: lexer where "lex_local_time = lex_partial_time"

section \<open>lexer.hpp: strings\<close>

definition lex_quotation_mark :: lexer where "lex_quotation_mark = character quote_char"
definition lex_basic_unescaped :: lexer where
  "lex_basic_unescaped = exclude (either [in_range CHR 0x00 CHR 0x08, in_range CHR 0x0A CHR 0x1F,
     character CHR 0x22, character CHR 0x5C, character CHR 0x7F])"
definition lex_escape :: lexer where "lex_escape = character backslash_char"
definition lex_escape_unicode_short :: lexer where
  "lex_escape_unicode_short = lex_sequence [character CHR ''u'', repeat_exactly 4 lex_hex_dig]"
definition lex_escape_unicode_long :: lexer where
  "lex_escape_unicode_long = lex_sequence [character CHR ''U'', repeat_exactly 8 lex_hex_dig]"
definition lex_escape_seq_char :: lexer where
  "lex_escape_seq_char = either [character quote_char, character backslash_char, character CHR ''b'', character CHR ''f'',
     character CHR ''n'', character CHR ''r'', character CHR ''t'', lex_escape_unicode_short, lex_escape_unicode_long]"
definition lex_escaped :: lexer where "lex_escaped = lex_sequence [lex_escape, lex_escape_seq_char]"
definition lex_basic_char :: lexer where "lex_basic_char = either [lex_basic_unescaped, lex_escaped]"
definition lex_basic_string :: lexer where
  "lex_basic_string = lex_sequence [lex_quotation_mark, repeat_unlimited lex_basic_char, lex_quotation_mark]"

definition lex_ml_basic_string_delim :: lexer where
  "lex_ml_basic_string_delim = repeat_exactly 3 lex_quotation_mark"
definition lex_ml_basic_string_open :: lexer where "lex_ml_basic_string_open = lex_ml_basic_string_delim"
definition lex_ml_basic_string_close :: lexer where
  "lex_ml_basic_string_close =
     lex_sequence [repeat_exactly 3 lex_quotation_mark, maybe lex_quotation_mark, maybe lex_quotation_mark]"
definition lex_ml_basic_unescaped :: lexer where
  "lex_ml_basic_unescaped = exclude (either [in_range CHR 0x00 CHR 0x08, in_range CHR 0x0A CHR 0x1F,
     character CHR 0x5C, character CHR 0x7F, lex_ml_basic_string_delim])"
definition lex_ml_basic_escaped_newline :: lexer where
  "lex_ml_basic_escaped_newline = lex_sequence [lex_escape, maybe lex_ws, lex_newline,
     repeat_unlimited (either [lex_ws, lex_newline])]"
definition lex_ml_basic_char :: lexer where "lex_ml_basic_char = either [lex_ml_basic_unescaped, lex_escaped]"
definition lex_ml_basic_body :: lexer where
  "lex_ml_basic_body = repeat_unlimited (either [lex_ml_basic_char, lex_newline, lex_ml_basic_escaped_newline])"
definition lex_ml_basic_string :: lexer where
  "lex_ml_basic_string = lex_sequence [lex_ml_basic_string_open, lex_ml_basic_body, lex_ml_basic_string_close]"

definition lex_literal_char :: lexer where
  "lex_literal_char = exclude (either [in_range CHR 0x00 CHR 0x08, in_range CHR 0x0A CHR 0x1F,
     character CHR 0x7F, character CHR 0x27])"
definition lex_apostrophe :: lexer where "lex_apostrophe = character apostrophe_char"
definition lex_literal_string :: lexer where
  "lex_literal_string = lex_sequence [lex_apostrophe, repeat_unlimited lex_literal_char, lex_apostrophe]"
definition lex_ml_literal_string_delim :: lexer where
  "lex_ml_literal_string_delim = repeat_exactly 3 lex_apostrophe"
definition lex_ml_literal_string_open :: lexer where "lex_ml_literal_string_open = lex_ml_literal_string_delim"
definition lex_ml_literal_string_close :: lexer where
  "lex_ml_literal_string_close =
     lex_sequence [repeat_exactly 3 lex_apostrophe, maybe lex_apostrophe, maybe lex_apostrophe]"
definition lex_ml_literal_char :: lexer where
  "lex_ml_literal_char = exclude (either [in_range CHR 0x00 CHR 0x08, in_range CHR 0x0A CHR 0x1F,
     character CHR 0x7F, lex_ml_literal_string_delim])"
definition lex_ml_literal_body :: lexer where
  "lex_ml_literal_body = repeat_unlimited (either [lex_ml_literal_char, lex_newline])"
definition lex_ml_literal_string :: lexer where
  "lex_ml_literal_string = lex_sequence [lex_ml_literal_string_open, lex_ml_literal_body, lex_ml_literal_string_close]"

section \<open>lexer.hpp: keys, tables, UTF-8 and comments\<close>

definition lex_dot_sep :: lexer where
  "lex_dot_sep = lex_sequence [maybe lex_ws, character CHR ''.'', maybe lex_ws]"
definition lex_unquoted_key :: lexer where
  "lex_unquoted_key = repeat_at_least 1 (either [lex_alpha, lex_digit, character CHR ''-'', character CHR ''_''])"
definition lex_quoted_key :: lexer where "lex_quoted_key = either [lex_basic_string, lex_literal_string]"
definition lex_simple_key :: lexer where "lex_simple_key = either [lex_unquoted_key, lex_quoted_key]"
definition lex_dotted_key :: lexer where
  "lex_dotted_key = lex_sequence [lex_simple_key, repeat_at_least 1 (lex_sequence [lex_dot_sep, lex_simple_key])]"
definition lex_key :: lexer where "lex_key = either [lex_dotted_key, lex_simple_key]"
definition lex_keyval_sep :: lexer where
  "lex_keyval_sep = lex_sequence [maybe lex_ws, character CHR ''='', maybe lex_ws]"
definition lex_std_table_open :: lexer where "lex_std_table_open = character CHR ''[''"
definition lex_std_table_close :: lexer where "lex_std_table_close = character CHR '']''"
definition lex_std_table :: lexer where
  "lex_std_table = lex_sequence [lex_std_table_open, maybe lex_ws, lex_key, maybe lex_ws, lex_std_table_close]"
definition lex_array_table_open :: lexer where
  "lex_array_table_open = lex_sequence [lex_std_table_open, lex_std_table_open]"
definition lex_array_table_close :: lexer where
  "lex_array_table_close = lex_sequence [lex_std_table_close, lex_std_table_close]"
definition lex_array_table :: lexer where
  "lex_array_table = lex_sequence [lex_array_table_open, maybe lex_ws, lex_key, maybe lex_ws, lex_array_table_close]"

definition lex_utf8_1byte :: lexer where "lex_utf8_1byte = in_range CHR 0x00 CHR 0x7F"
definition lex_utf8_2byte :: lexer where
  "lex_utf8_2byte = lex_sequence [in_range CHR 0xC2 CHR 0xDF, in_range CHR 0x80 CHR 0xBF]"
definition lex_utf8_3byte :: lexer where
  "lex_utf8_3byte = lex_sequence [either [
     lex_sequence [character CHR 0xE0, in_range CHR 0xA0 CHR 0xBF],
     lex_sequence [in_range CHR 0xE1 CHR 0xEC, in_range CHR 0x80 CHR 0xBF],
     lex_sequence [character CHR 0xED, in_range CHR 0x80 CHR 0x9F],
     lex_sequence [in_range CHR 0xEE CHR 0xEF, in_range CHR 0x80 CHR 0xBF]], in_range CHR 0x80 CHR 0xBF]"
definition lex_utf8_4byte :: lexer where
  "lex_utf8_4byte = lex_sequence [either [
     lex_sequence [character CHR 0xF0, in_range CHR 0x90 CHR 0xBF],
     lex_sequence [in_range CHR 0xF1 CHR 0xF3, in_range CHR 0x80 CHR 0xBF],
     lex_sequence [character CHR 0xF4, in_range CHR 0x80 CHR 0x8F]], in_range CHR 0x80 CHR 0xBF, in_range CHR 0x80 CHR 0xBF]"
definition lex_utf8_code :: lexer where
  "lex_utf8_code = either [lex_utf8_1byte, lex_utf8_2byte, lex_utf8_3byte, lex_utf8_4byte]"

definition lex_comment_start_symbol :: lexer where "lex_comment_start_symbol = character CHR ''#''"
definition lex_non_eol_ascii :: lexer where
  "lex_non_eol_ascii = either [character CHR 0x09, in_range CHR 0x20 CHR 0x7E]"
definition lex_comment :: lexer where
  "lex_comment = lex_sequence [lex_comment_start_symbol,
     repeat_unlimited (either [lex_non_eol_ascii, lex_utf8_2byte, lex_utf8_3byte, lex_utf8_4byte])]"

section \<open>The contract of a lexer\<close>

text \<open>
  What the comment of \<^verbatim>\<open>combinator.hpp\<close> says of every lexer: where it fails it leaves the location as
  it was; where it matches, its region is what it has moved over.
\<close>

locale lexer =
  fixes T :: lexer
  assumes fails_back: "T loc = (None, loc') \<Longrightarrow> loc' = loc"
    and splits_text: "T loc = (Some r, loc') \<Longrightarrow> loc = r @ loc'"
begin

lemma result_cases: "T loc = (None, loc) \<or> (\<exists>r loc'. T loc = (Some r, loc') \<and> loc = r @ loc')"
proof (cases "T loc")
  case (Pair x loc')
  then show ?thesis using fails_back splits_text by (cases x) fastforce+
qed

lemma shorter: "T loc = (x, loc') \<Longrightarrow> length loc' \<le> length loc"
  using result_cases [of loc] by auto

lemma is_lexer: "lexer T" by (rule lexer_axioms)

end

locale consuming_lexer = lexer +
  assumes nonempty: "T loc \<noteq> (Some [], loc')"
begin

lemma strictly_shorter: "T loc = (Some r, loc') \<Longrightarrow> length loc' < length loc"
  using splits_text [of loc r loc'] nonempty [of loc loc'] by (cases r) auto

text \<open>With enough fuel the loop of a repetition does not depend on it.\<close>

lemma repeat_loop_fuel:
  "length loc < n \<Longrightarrow> length loc < m \<Longrightarrow> repeat_loop n reg T loc = repeat_loop m reg T loc"
proof (induction n arbitrary: m reg loc)
  case (Suc n)
  then obtain k where k: "m = Suc k" "length loc \<le> k" by (cases m) auto
  show ?case
  proof (cases "T loc")
    case (Pair x loc')
    then show ?thesis using Suc.IH [of loc' k] Suc.prems k strictly_shorter [of loc] by (cases x) force+
  qed
qed simp

lemma repeat_loop_reg: "repeat_loop n reg T loc = (case repeat_loop n [] T loc of (x, loc') \<Rightarrow> (map_option (\<lambda>r. reg @ r) x, loc'))"
proof (induction n arbitrary: reg loc)
  case (Suc n)
  show ?case
  proof (cases "T loc")
    case (Pair x loc')
    then show ?thesis
      using Suc.IH [of "reg @ the x" loc'] Suc.IH [of "the x" loc']
      by (cases x) (auto split: prod.split simp: option.map_comp comp_def)
  qed
qed simp

text \<open>A repetition runs as the loop of the source does, so the fuel is enough.\<close>

lemma repeat_unlimited_unfold:
  "repeat_unlimited T loc =
     (case T loc of
        (None, loc') \<Rightarrow> (Some [], loc')
      | (Some r, loc') \<Rightarrow> (case repeat_unlimited T loc' of (x, loc'') \<Rightarrow> (map_option (\<lambda>y. r @ y) x, loc'')))"
proof (cases "T loc")
  case (Pair x loc')
  show ?thesis
  proof (cases x)
    case (Some r)
    then have "length loc' < length loc" using Pair strictly_shorter by simp
    then have "repeat_loop (length loc) r T loc' = repeat_loop (Suc (length loc')) r T loc'"
      by (intro repeat_loop_fuel) auto
    then show ?thesis
      using Pair Some repeat_loop_reg [of "Suc (length loc')" r loc'] by (simp add: repeat_unlimited_def)
  qed (simp add: Pair repeat_unlimited_def)
qed

lemma repeat_unlimited_lexes: "\<exists>r loc'. repeat_unlimited T loc = (Some r, loc') \<and> loc = r @ loc' \<and> fst (T loc') = None"
proof (induction "length loc" arbitrary: loc rule: less_induct)
  case less
  consider "T loc = (None, loc)" | r loc' where "T loc = (Some r, loc')" "loc = r @ loc'" using result_cases [of loc] by blast
  then show ?case
  proof cases
    case 1
    then show ?thesis by (subst repeat_unlimited_unfold) simp
  next
    case 2
    obtain r2 loc2 where "repeat_unlimited T loc' = (Some r2, loc2)" "loc' = r2 @ loc2" "fst (T loc2) = None"
      using less [OF strictly_shorter [OF 2(1)]] by blast
    then show ?thesis using 2 by (subst repeat_unlimited_unfold) simp
  qed
qed

end

section \<open>Combinators keep the contract\<close>

named_theorems lexer_rules \<open>which combinations are lexers, and which consume\<close>

lemma lexerI:
  assumes "\<And>loc. T loc = (None, loc) \<or> (\<exists>r loc'. T loc = (Some r, loc') \<and> loc = r @ loc')"
  shows "lexer T"
proof
  fix loc r loc'
  show "T loc = (None, loc') \<Longrightarrow> loc' = loc" "T loc = (Some r, loc') \<Longrightarrow> loc = r @ loc'" using assms [of loc] by auto
qed

lemma consumingI:
  assumes "\<And>loc. T loc = (None, loc) \<or> (\<exists>r loc'. T loc = (Some r, loc') \<and> loc = r @ loc' \<and> r \<noteq> [])"
  shows "consuming_lexer T"
proof
  fix loc r loc'
  show "T loc = (None, loc') \<Longrightarrow> loc' = loc" "T loc = (Some r, loc') \<Longrightarrow> loc = r @ loc'" using assms [of loc] by auto
  show "T loc \<noteq> (Some [], loc')" using assms [of loc] by auto
qed

lemma lexer_result: "lexer T \<Longrightarrow> T loc = (None, loc) \<or> (\<exists>r loc'. T loc = (Some r, loc') \<and> loc = r @ loc')"
  by (rule lexer.result_cases)

lemma consuming_result:
  assumes "consuming_lexer T"
  shows "T loc = (None, loc) \<or> (\<exists>r loc'. T loc = (Some r, loc') \<and> loc = r @ loc' \<and> r \<noteq> [])"
  using lexer_result [of T loc] consuming_lexer.nonempty [OF assms, of loc] assms by (auto simp: consuming_lexer_def)

lemma consuming_is_lexer [lexer_rules]: "consuming_lexer T \<Longrightarrow> lexer T"
  by (simp add: consuming_lexer_def)

lemma consuming_character [lexer_rules]: "consuming_lexer (character c)"
proof (rule consumingI)
  show "character c loc = (None, loc) \<or> (\<exists>r loc'. character c loc = (Some r, loc') \<and> loc = r @ loc' \<and> r \<noteq> [])" for loc
    by (cases loc) auto
qed

lemma consuming_in_range [lexer_rules]: "consuming_lexer (in_range lower upper)"
proof (rule consumingI)
  show "in_range lower upper loc = (None, loc) \<or>
      (\<exists>r loc'. in_range lower upper loc = (Some r, loc') \<and> loc = r @ loc' \<and> r \<noteq> [])" for loc
    by (cases loc) auto
qed

lemma consuming_exclude [lexer_rules]: "consuming_lexer (exclude T)"
proof (rule consumingI)
  show "exclude T loc = (None, loc) \<or> (\<exists>r loc'. exclude T loc = (Some r, loc') \<and> loc = r @ loc' \<and> r \<noteq> [])" for loc
    by (cases loc) (auto split: prod.split option.split)
qed

lemma lexer_maybe [lexer_rules]: "lexer T \<Longrightarrow> lexer (maybe T)"
proof (rule lexerI)
  show "maybe T loc = (None, loc) \<or> (\<exists>r loc'. maybe T loc = (Some r, loc') \<and> loc = r @ loc')" if "lexer T" for loc
    using lexer_result [OF that, of loc] by (auto simp: maybe_def)
qed

lemma maybe_matches: "lexer T \<Longrightarrow> \<exists>r loc'. maybe T loc = (Some r, loc') \<and> loc = r @ loc'"
  using lexer.result_cases [of T loc] by (auto simp: maybe_def)

lemma seq_from_lexes:
  "list_all lexer Ts \<Longrightarrow> seq_from first reg Ts loc = (None, first) \<or>
     (\<exists>r loc'. seq_from first reg Ts loc = (Some (reg @ r), loc') \<and> loc = r @ loc' \<and> (list_ex consuming_lexer Ts \<longrightarrow> r \<noteq> []))"
proof (induction Ts arbitrary: reg loc)
  case (Cons T Ts)
  then consider "T loc = (None, loc)" | r loc' where "T loc = (Some r, loc')" "loc = r @ loc'"
    using lexer_result [of T loc] by auto
  then show ?case
  proof cases
    case 2
    have "r \<noteq> []" if "consuming_lexer T" using consuming_result [OF that, of loc] 2(1) by auto
    then show ?thesis using Cons.IH [of "reg @ r" loc'] Cons.prems 2 by auto
  qed simp
qed simp

lemma lexer_sequence [lexer_rules]: "list_all lexer Ts \<Longrightarrow> lexer (lex_sequence Ts)"
  using seq_from_lexes [of Ts _ "[]"] by (intro lexerI) (auto simp: lex_sequence_def)

lemma consuming_sequence [lexer_rules]:
  "list_all lexer Ts \<Longrightarrow> list_ex consuming_lexer Ts \<Longrightarrow> consuming_lexer (lex_sequence Ts)"
  using seq_from_lexes [of Ts _ "[]"] by (intro consumingI) (auto simp: lex_sequence_def)

lemma lexer_either [lexer_rules]: "list_all lexer Ts \<Longrightarrow> lexer (either Ts)"
proof (induction Ts)
  case (Cons T Ts)
  then have *: "lexer T" "lexer (either Ts)" by auto
  show ?case
  proof (rule lexerI)
    show "either (T # Ts) loc = (None, loc) \<or> (\<exists>r loc'. either (T # Ts) loc = (Some r, loc') \<and> loc = r @ loc')" for loc
      using lexer_result [OF *(1), of loc] lexer_result [OF *(2), of loc] by (elim disjE exE conjE) simp_all
  qed
qed (simp add: lexer_def)

lemma consuming_either [lexer_rules]: "list_all consuming_lexer Ts \<Longrightarrow> consuming_lexer (either Ts)"
proof (induction Ts)
  case (Cons T Ts)
  then have *: "consuming_lexer T" "consuming_lexer (either Ts)" by auto
  show ?case
  proof (rule consumingI)
    show "either (T # Ts) loc = (None, loc) \<or> (\<exists>r loc'. either (T # Ts) loc = (Some r, loc') \<and> loc = r @ loc' \<and> r \<noteq> [])" for loc
      using consuming_result [OF *(1), of loc] consuming_result [OF *(2), of loc] by (elim disjE exE conjE) simp_all
  qed
qed (simp add: consumingI)

lemma repeat_from_lexes:
  "lexer T \<Longrightarrow> repeat_from first reg n T loc = (None, first) \<or>
     (\<exists>r loc'. repeat_from first reg n T loc = (Some (reg @ r), loc') \<and> loc = r @ loc' \<and>
        (consuming_lexer T \<and> 0 < n \<longrightarrow> r \<noteq> []))"
proof (induction n arbitrary: reg loc)
  case (Suc n)
  then consider "T loc = (None, loc)" | r loc' where "T loc = (Some r, loc')" "loc = r @ loc'"
    using lexer_result [of T loc] by auto
  then show ?case
  proof cases
    case 2
    have "r \<noteq> []" if "consuming_lexer T" using consuming_result [OF that, of loc] 2(1) by auto
    then show ?thesis using Suc.IH [OF Suc.prems, of "reg @ r" loc'] 2 by auto
  qed simp
qed simp

lemma lexer_repeat_exactly [lexer_rules]: "lexer T \<Longrightarrow> lexer (repeat_exactly n T)"
  using repeat_from_lexes [of T _ "[]" n] by (intro lexerI) (metis append_Nil repeat_exactly_def)

lemma consuming_repeat_exactly [lexer_rules]: "consuming_lexer T \<Longrightarrow> 0 < n \<Longrightarrow> consuming_lexer (repeat_exactly n T)"
  using repeat_from_lexes [OF consuming_is_lexer, of T _ "[]" n] by (intro consumingI) (metis append_Nil repeat_exactly_def)

lemma lexer_repeat_unlimited [lexer_rules]: "consuming_lexer T \<Longrightarrow> lexer (repeat_unlimited T)"
  using consuming_lexer.repeat_unlimited_lexes [of T] by (intro lexerI) blast

lemma repeat_at_least_lexes:
  assumes "consuming_lexer T"
  shows "repeat_at_least n T loc = (None, loc) \<or>
    (\<exists>r loc'. repeat_at_least n T loc = (Some r, loc') \<and> loc = r @ loc' \<and> (0 < n \<longrightarrow> r \<noteq> []))"
proof -
  consider "repeat_from loc [] n T loc = (None, loc)"
    | r loc1 where "repeat_from loc [] n T loc = (Some r, loc1)" "loc = r @ loc1" "0 < n \<longrightarrow> r \<noteq> []"
    using repeat_from_lexes [OF consuming_is_lexer [OF assms], of loc "[]" n loc] assms by auto
  then show ?thesis
  proof cases
    case 1
    then show ?thesis by (simp add: repeat_at_least_def)
  next
    case (2 r loc1)
    obtain r2 loc2 where 3: "repeat_unlimited T loc1 = (Some r2, loc2)" "loc1 = r2 @ loc2"
      using consuming_lexer.repeat_unlimited_lexes [OF assms, of loc1] by blast
    then have "repeat_loop (Suc (length loc1)) r T loc1 = (Some (r @ r2), loc2)"
      using consuming_lexer.repeat_loop_reg [OF assms, of "Suc (length loc1)" r loc1] by (simp add: repeat_unlimited_def)
    then have "repeat_at_least n T loc = (Some (r @ r2), loc2)" using 2(1) by (simp add: repeat_at_least_def del: repeat_loop.simps)
    then show ?thesis using 2(2,3) 3(2) by simp
  qed
qed

lemma lexer_repeat_at_least [lexer_rules]: "consuming_lexer T \<Longrightarrow> lexer (repeat_at_least n T)"
  using repeat_at_least_lexes [of T n] by (intro lexerI) blast

lemma consuming_repeat_at_least [lexer_rules]: "consuming_lexer T \<Longrightarrow> 0 < n \<Longrightarrow> consuming_lexer (repeat_at_least n T)"
  using repeat_at_least_lexes [of T n] by (intro consumingI) blast

section \<open>Every lexer keeps the contract\<close>

lemmas lex_token_defs =
  lex_wschar_def lex_ws_def lex_newline_def lex_lower_def lex_upper_def lex_alpha_def lex_digit_def lex_nonzero_def
  lex_oct_dig_def lex_bin_dig_def lex_hex_dig_def lex_hex_prefix_def lex_oct_prefix_def lex_bin_prefix_def
  lex_underscore_def lex_plus_def lex_minus_def lex_sign_def lex_unsigned_dec_int_def lex_dec_int_def lex_hex_int_def
  lex_oct_int_def lex_bin_int_def lex_integer_def lex_inf_def lex_nan_def lex_special_float_def
  lex_zero_prefixable_int_def lex_fractional_part_def lex_exponent_part_def lex_float_def lex_true_def lex_false_def
  lex_boolean_def

lemmas lex_time_defs =
  lex_date_fullyear_def lex_date_month_def lex_date_mday_def lex_time_delim_def lex_time_hour_def lex_time_minute_def
  lex_time_second_def lex_time_secfrac_def lex_time_numoffset_def lex_time_offset_def lex_partial_time_def
  lex_full_date_def lex_full_time_def lex_offset_date_time_def lex_local_date_time_def lex_local_date_def
  lex_local_time_def

lemmas lex_string_defs =
  lex_quotation_mark_def lex_basic_unescaped_def lex_escape_def lex_escape_unicode_short_def lex_escape_unicode_long_def
  lex_escape_seq_char_def lex_escaped_def lex_basic_char_def lex_basic_string_def lex_ml_basic_string_delim_def
  lex_ml_basic_string_open_def lex_ml_basic_string_close_def lex_ml_basic_unescaped_def
  lex_ml_basic_escaped_newline_def lex_ml_basic_char_def lex_ml_basic_body_def lex_ml_basic_string_def
  lex_literal_char_def lex_apostrophe_def lex_literal_string_def lex_ml_literal_string_delim_def
  lex_ml_literal_string_open_def lex_ml_literal_string_close_def lex_ml_literal_char_def lex_ml_literal_body_def
  lex_ml_literal_string_def

lemmas lex_key_defs =
  lex_dot_sep_def lex_unquoted_key_def lex_quoted_key_def lex_simple_key_def lex_dotted_key_def lex_key_def
  lex_keyval_sep_def lex_std_table_open_def lex_std_table_close_def lex_std_table_def lex_array_table_open_def
  lex_array_table_close_def lex_array_table_def lex_utf8_1byte_def lex_utf8_2byte_def lex_utf8_3byte_def
  lex_utf8_4byte_def lex_utf8_code_def lex_comment_start_symbol_def lex_non_eol_ascii_def lex_comment_def

lemma consuming_tokens [lexer_rules]:
  "consuming_lexer lex_ws" "consuming_lexer lex_wschar" "consuming_lexer lex_newline" "consuming_lexer lex_dec_int"
  "consuming_lexer lex_bin_int" "consuming_lexer lex_oct_int" "consuming_lexer lex_hex_int" "consuming_lexer lex_integer"
  "consuming_lexer lex_float" "consuming_lexer lex_boolean" "consuming_lexer lex_digit" "consuming_lexer lex_hex_dig"
  "consuming_lexer lex_alpha"
  by (simp_all add: lex_token_defs lexer_rules)

lemma consuming_times [lexer_rules]:
  "consuming_lexer lex_offset_date_time" "consuming_lexer lex_local_date_time" "consuming_lexer lex_local_date"
  "consuming_lexer lex_local_time" "consuming_lexer lex_time_numoffset" "consuming_lexer lex_time_secfrac"
  by (simp_all add: lex_time_defs lexer_rules)

lemma consuming_strings [lexer_rules]:
  "consuming_lexer lex_basic_unescaped" "consuming_lexer lex_escaped" "consuming_lexer lex_basic_char"
  "consuming_lexer lex_basic_string" "consuming_lexer lex_ml_basic_string" "consuming_lexer lex_literal_char"
  "consuming_lexer lex_literal_string" "consuming_lexer lex_ml_literal_string" "consuming_lexer lex_ml_basic_unescaped"
  "consuming_lexer lex_ml_basic_escaped_newline" "consuming_lexer lex_ml_literal_char"
  "consuming_lexer lex_quotation_mark" "consuming_lexer lex_apostrophe" "consuming_lexer lex_escape_unicode_short"
  "consuming_lexer lex_escape_unicode_long" "consuming_lexer lex_ml_basic_string_open"
  "consuming_lexer lex_ml_basic_string_close" "consuming_lexer lex_ml_literal_string_open"
  "consuming_lexer lex_ml_literal_string_close"
  by (simp_all add: lex_string_defs lexer_rules)

lemma consuming_keys [lexer_rules]:
  "consuming_lexer lex_unquoted_key" "consuming_lexer lex_simple_key" "consuming_lexer lex_dotted_key"
  "consuming_lexer lex_key" "consuming_lexer lex_keyval_sep" "consuming_lexer lex_std_table" "consuming_lexer lex_array_table"
  "consuming_lexer lex_utf8_code" "consuming_lexer lex_comment" "consuming_lexer lex_std_table_open"
  "consuming_lexer lex_std_table_close" "consuming_lexer lex_array_table_open" "consuming_lexer lex_array_table_close"
  "consuming_lexer lex_dot_sep"
  by (simp_all add: lex_key_defs lexer_rules)

end
