(* ===== verification/Toml_Value.thy ===== *)
theory Toml_Value
  imports Toml_Lexer
begin

text \<open>
  The values of \<^verbatim>\<open>toml11\<close>. Each carries the region of the file it comes from, which the parser itself
  consults when tables are reopened. A table is an association list. A floating point number is kept as the
  decimal it is written as, before the reading rounds it.
\<close>

section \<open>Scalars: types.hpp, string.hpp, datetime.hpp\<close>

datatype value_t =
    vt_empty | vt_boolean | vt_integer | vt_floating | vt_string | vt_offset_datetime | vt_local_datetime
  | vt_local_date | vt_local_time | vt_array | vt_table

datatype floating = Infinite bool | Not_a_number bool | Decimal bool nat int

datatype string_t = Basic_string | Literal_string

record local_date =
  ld_year :: u16
  ld_month :: u8
  ld_day :: u8

record local_time =
  lt_hour :: u8
  lt_minute :: u8
  lt_second :: u8
  lt_millisecond :: u16
  lt_microsecond :: u16
  lt_nanosecond :: u16

record time_offset =
  to_hour :: u8
  to_minute :: u8

type_synonym local_datetime = "local_date \<times> local_time"
type_synonym offset_datetime = "local_date \<times> local_time \<times> time_offset"

section \<open>Class basic\_value\<close>

datatype toml_value =
    TEmpty
  | TBoolean bool region
  | TInteger u64 region
  | TFloating floating region
  | TString string string_t region
  | TOffset_datetime offset_datetime region
  | TLocal_datetime local_datetime region
  | TLocal_date local_date region
  | TLocal_time local_time region
  | TArray "toml_value list" region
  | TTable "(string \<times> toml_value) list" region

type_synonym table_type = "(string \<times> toml_value) list"

fun type_of :: "toml_value \<Rightarrow> value_t" where
  "type_of TEmpty = vt_empty"
| "type_of (TBoolean b r) = vt_boolean"
| "type_of (TInteger i r) = vt_integer"
| "type_of (TFloating f r) = vt_floating"
| "type_of (TString s k r) = vt_string"
| "type_of (TOffset_datetime d r) = vt_offset_datetime"
| "type_of (TLocal_datetime d r) = vt_local_datetime"
| "type_of (TLocal_date d r) = vt_local_date"
| "type_of (TLocal_time d r) = vt_local_time"
| "type_of (TArray vs r) = vt_array"
| "type_of (TTable t r) = vt_table"

definition is_table :: "toml_value \<Rightarrow> bool" where
  "is_table v \<longleftrightarrow> type_of v = vt_table"

definition is_array :: "toml_value \<Rightarrow> bool" where
  "is_array v \<longleftrightarrow> type_of v = vt_array"

fun get_region :: "toml_value \<Rightarrow> region" where
  "get_region TEmpty = []"
| "get_region (TBoolean b r) = r"
| "get_region (TInteger i r) = r"
| "get_region (TFloating f r) = r"
| "get_region (TString s k r) = r"
| "get_region (TOffset_datetime d r) = r"
| "get_region (TLocal_datetime d r) = r"
| "get_region (TLocal_date d r) = r"
| "get_region (TLocal_time d r) = r"
| "get_region (TArray vs r) = r"
| "get_region (TTable t r) = r"

definition as_table :: "toml_value \<Rightarrow> exn + table_type" where
  "as_table v = (case v of TTable t r \<Rightarrow> Inr t | _ \<Rightarrow> Inl (Type_error ''toml::value::as_table(): ''))"

definition as_integer :: "toml_value \<Rightarrow> exn + u64" where
  "as_integer v = (case v of TInteger i r \<Rightarrow> Inr i | _ \<Rightarrow> Inl (Type_error ''toml::value::as_integer(): ''))"

definition as_string :: "toml_value \<Rightarrow> exn + string" where
  "as_string v = (case v of TString s k r \<Rightarrow> Inr s | _ \<Rightarrow> Inl (Type_error ''toml::value::as_string(): ''))"

end
