(* ===== verification/Toml_Scalar.thy ===== *)
theory Toml_Scalar
  imports Toml_Value
begin

text \<open>
  \<^verbatim>\<open>parser.hpp\<close>, first half: booleans, numbers, strings, dates and times. A parser returns a value or
  an error message, and the location it leaves; it can also throw, which nothing in the library or the program catches.
  Of a message only its first words are kept, without the underlined line of the file.
\<close>

section \<open>Results\<close>

type_synonym 'a parsed = "((string + 'a) \<times> location) run"

definition ok_at :: "location \<Rightarrow> 'a \<Rightarrow> 'a parsed" where
  "ok_at loc x = Inr (Inr x, loc)"

definition err_at :: "location \<Rightarrow> string \<Rightarrow> 'a parsed" where
  "err_at loc msg = Inr (Inl msg, loc)"

definition throw_syntax :: "string \<Rightarrow> 'a run" where
  "throw_syntax msg = Inl (Uncaught (Syntax_error msg))"

definition throw_internal :: "string \<Rightarrow> 'a run" where
  "throw_internal msg = Inl (Uncaught (Internal_error msg))"

section \<open>Booleans and integers\<close>

definition parse_boolean :: "location \<Rightarrow> (bool \<times> region) parsed" where
  "parse_boolean loc =
     (case lex_boolean loc of
        (Some reg, loc') \<Rightarrow>
          if reg = ''true'' then ok_at loc' (True, reg)
          else if reg = ''false'' then ok_at loc' (False, reg)
          else throw_internal ''toml::parse_boolean: internal error''
      | (None, loc') \<Rightarrow> err_at loc ''toml::parse_boolean: the next token is not a boolean'')"

text \<open>Digits as a number, and \<^verbatim>\<open>>>\<close> of a stream into 64 signed bits.\<close>

definition digit_of :: "char \<Rightarrow> nat" where
  "digit_of c = (let n = of_char c :: nat in if 97 \<le> n then n - 87 else if 65 \<le> n then n - 55 else n - 48)"

definition number_of :: "nat \<Rightarrow> string \<Rightarrow> nat" where
  "number_of base s = foldl (\<lambda>n c. n * base + digit_of c) 0 s"

definition signed_text :: "string \<Rightarrow> bool \<times> string" where
  "signed_text s =
     (case s of [] \<Rightarrow> (False, [])
      | c # cs \<Rightarrow> if c = CHR ''-'' then (True, cs) else if c = CHR ''+'' then (False, cs) else (False, c # cs))"

definition read_int64 :: "nat \<Rightarrow> string \<Rightarrow> u64 option" where
  "read_int64 base s =
     (case signed_text s of (negative, ds) \<Rightarrow>
        let n = int (number_of base ds); v = if negative then - n else n
        in if - (2 ^ 63) \<le> v \<and> v < 2 ^ 63 then Some (word_of_int v) else None)"

definition without_underscores :: "string \<Rightarrow> string" where
  "without_underscores s = filter (\<lambda>c. c \<noteq> CHR ''_'') s"

text \<open>The loop over the binary digits from the last to the first, with the weight of the current one.\<close>

definition next_base :: "u64 \<Rightarrow> u64" where
  "next_base base = (if 4611686018427387903 < sint base then 0 else base) * 2"

fun bin_loop :: "string \<Rightarrow> u64 \<Rightarrow> u64 \<Rightarrow> u64 run" where
  "bin_loop [] retval base = Inr retval"
| "bin_loop (c # cs) retval base =
     (if c = CHR ''1'' then bin_loop cs (retval + base) (next_base base)
      else if c = CHR ''0'' then bin_loop cs retval (next_base base)
      else if c = CHR ''_'' then bin_loop cs retval base
      else throw_internal ''toml::parse_binary_integer: internal error'')"

definition parse_binary_integer :: "location \<Rightarrow> (u64 \<times> region) parsed" where
  "parse_binary_integer loc =
     (case lex_bin_int loc of
        (Some reg, loc') \<Rightarrow>
          (let str = dropWhile (\<lambda>c. c \<noteq> CHR ''1'') (drop 2 reg)
           in if 63 + length (filter (\<lambda>c. c = CHR ''_'') str) < length str then
                err_at loc ''toml::parse_binary_integer: only signed 64bit integer is available''
              else bind_run (bin_loop (rev str) 0 1) (\<lambda>retval. ok_at loc' (retval, reg)))
      | (None, loc') \<Rightarrow> err_at loc ''toml::parse_binary_integer: the next token is not an integer'')"

definition parse_octal_integer :: "location \<Rightarrow> (u64 \<times> region) parsed" where
  "parse_octal_integer loc =
     (case lex_oct_int loc of
        (Some reg, loc') \<Rightarrow>
          (case read_int64 8 (drop 2 (without_underscores reg)) of
             None \<Rightarrow> err_at loc ''toml::parse_octal_integer: out of range''
           | Some retval \<Rightarrow> ok_at loc' (retval, reg))
      | (None, loc') \<Rightarrow> err_at loc ''toml::parse_octal_integer: the next token is not an integer'')"

definition parse_hexadecimal_integer :: "location \<Rightarrow> (u64 \<times> region) parsed" where
  "parse_hexadecimal_integer loc =
     (case lex_hex_int loc of
        (Some reg, loc') \<Rightarrow>
          (case read_int64 16 (drop 2 (without_underscores reg)) of
             None \<Rightarrow> err_at loc ''toml::parse_hexadecimal_integer: out of range''
           | Some retval \<Rightarrow> ok_at loc' (retval, reg))
      | (None, loc') \<Rightarrow> err_at loc ''toml::parse_hexadecimal_integer the next token is not an integer'')"

definition is_digit :: "char \<Rightarrow> bool" where
  "is_digit c \<longleftrightarrow> (let n = of_char c :: nat in 48 \<le> n \<and> n \<le> 57)"

definition is_alpha :: "char \<Rightarrow> bool" where
  "is_alpha c \<longleftrightarrow> (let n = of_char c :: nat in 65 \<le> n \<and> n \<le> 90 \<or> 97 \<le> n \<and> n \<le> 122)"

definition parse_decimal :: "location \<Rightarrow> (u64 \<times> region) parsed" where
  "parse_decimal loc =
     (case lex_dec_int loc of
        (Some reg, loc') \<Rightarrow>
          (case read_int64 10 (without_underscores reg) of
             None \<Rightarrow> err_at loc ''toml::parse_integer: out of range''
           | Some retval \<Rightarrow> ok_at loc' (retval, reg))
      | (None, loc') \<Rightarrow> err_at loc ''toml::parse_integer: the next token is not an integer'')"

definition parse_integer :: "location \<Rightarrow> (u64 \<times> region) parsed" where
  "parse_integer loc =
     (case loc of
        [] \<Rightarrow> parse_decimal loc
      | c # rest \<Rightarrow>
          if c \<noteq> CHR ''0'' then parse_decimal loc
          else (case rest of
                  [] \<Rightarrow> ok_at [] (0, [c])
                | d # _ \<Rightarrow>
                    if d = CHR ''b'' then parse_binary_integer loc
                    else if d = CHR ''o'' then parse_octal_integer loc
                    else if d = CHR ''x'' then parse_hexadecimal_integer loc
                    else if is_digit d then err_at loc ''toml::parse_integer: leading zero in an Integer is not allowed.''
                    else if is_alpha d then err_at loc ''toml::parse_integer: unknown integer prefix appeared.''
                    else parse_decimal loc))"

section \<open>Floating point numbers\<close>

definition exponent_of :: "string \<Rightarrow> int" where
  "exponent_of s =
     (case s of [] \<Rightarrow> 0
      | e # cs \<Rightarrow> (case signed_text cs of (negative, ds) \<Rightarrow>
                    if negative then - int (number_of 10 ds) else int (number_of 10 ds)))"

text \<open>Reading a decimal fails where rounding it gives no finite number of 64 bits.\<close>

definition overflows :: "nat \<Rightarrow> int \<Rightarrow> bool" where
  "overflows m e \<longleftrightarrow> int m * 10 ^ nat e \<ge> (2 ^ 1024 - 2 ^ 970) * 10 ^ nat (- e)"

definition read_double :: "string \<Rightarrow> floating option" where
  "read_double s =
     (case signed_text s of (negative, t) \<Rightarrow>
        let whole = takeWhile is_digit t; r = dropWhile is_digit t;
            fraction = (case r of [] \<Rightarrow> [] | c # cs \<Rightarrow> if c = CHR ''.'' then takeWhile is_digit cs else []);
            r' = (case r of [] \<Rightarrow> [] | c # cs \<Rightarrow> if c = CHR ''.'' then dropWhile is_digit cs else r);
            m = number_of 10 (whole @ fraction); e = exponent_of r' - int (length fraction)
        in if overflows m e then None else Some (Decimal negative m e))"

definition parse_floating :: "location \<Rightarrow> (floating \<times> region) parsed" where
  "parse_floating loc =
     (case lex_float loc of
        (Some reg, loc') \<Rightarrow>
          if reg = ''inf'' \<or> reg = ''+inf'' then ok_at loc' (Infinite False, reg)
          else if reg = ''-inf'' then ok_at loc' (Infinite True, reg)
          else if reg = ''nan'' \<or> reg = ''+nan'' then ok_at loc' (Not_a_number False, reg)
          else if reg = ''-nan'' then ok_at loc' (Not_a_number True, reg)
          else (case read_double (without_underscores reg) of
                  None \<Rightarrow> err_at loc ''toml::parse_floating: out of range''
                | Some v \<Rightarrow> ok_at loc' (v, reg))
      | (None, loc') \<Rightarrow> err_at loc ''toml::parse_floating: the next token is not a float'')"

section \<open>Strings\<close>

definition utf8_char :: "u32 \<Rightarrow> char" where
  "utf8_char i = char_of (unat i mod 256)"

definition read_utf8_codepoint :: "region \<Rightarrow> string run" where
  "read_utf8_codepoint reg =
     (let codepoint = of_nat (number_of 16 (drop 1 reg)) :: u32
      in if codepoint < 0x80 then Inr [utf8_char codepoint]
         else if codepoint < 0x800 then
           Inr [utf8_char (0xC0 OR drop_bit 6 codepoint), utf8_char (0x80 OR (codepoint AND 0x3F))]
         else if codepoint < 0x10000 then
           (if 0xD800 \<le> codepoint \<and> codepoint \<le> 0xDFFF then
              throw_syntax ''toml::read_utf8_codepoint: codepoints in the range [0xD800, 0xDFFF] are not valid UTF-8.''
            else Inr [utf8_char (0xE0 OR drop_bit 12 codepoint), utf8_char (0x80 OR (drop_bit 6 codepoint AND 0x3F)),
                      utf8_char (0x80 OR (codepoint AND 0x3F))])
         else if codepoint < 0x110000 then
           Inr [utf8_char (0xF0 OR drop_bit 18 codepoint), utf8_char (0x80 OR (drop_bit 12 codepoint AND 0x3F)),
                utf8_char (0x80 OR (drop_bit 6 codepoint AND 0x3F)), utf8_char (0x80 OR (codepoint AND 0x3F))]
         else throw_syntax ''toml::read_utf8_codepoint: input codepoint is too large.'')"

definition unicode_escape :: "lexer \<Rightarrow> location \<Rightarrow> string parsed" where
  "unicode_escape T loc =
     (case T loc of
        (Some reg, loc') \<Rightarrow> bind_run (read_utf8_codepoint reg) (ok_at loc')
      | (None, loc') \<Rightarrow> err_at loc' ''parse_escape_sequence: invalid token found in UTF-8 codepoint'')"

text \<open>Behind a backslash at the end of the text there is no character to read.\<close>

definition parse_escape_sequence :: "location \<Rightarrow> string parsed" where
  "parse_escape_sequence loc =
     (case loc of
        [] \<Rightarrow> err_at loc ''toml::parse_escape_sequence: the next token is not a backslash''
      | b # rest \<Rightarrow>
          if b \<noteq> backslash_char then err_at loc ''toml::parse_escape_sequence: the next token is not a backslash''
          else (case rest of
                  [] \<Rightarrow> Inl Out_of_bounds
                | c # rest' \<Rightarrow>
                    if c = backslash_char then ok_at rest' [backslash_char]
                    else if c = quote_char then ok_at rest' [quote_char]
                    else if c = CHR ''b'' then ok_at rest' [CHR 8]
                    else if c = CHR ''t'' then ok_at rest' [tab_char]
                    else if c = CHR ''n'' then ok_at rest' [newline_char]
                    else if c = CHR ''f'' then ok_at rest' [CHR 12]
                    else if c = CHR ''r'' then ok_at rest' [carriage_return]
                    else if c = CHR ''u'' then unicode_escape lex_escape_unicode_short rest
                    else if c = CHR ''U'' then unicode_escape lex_escape_unicode_long rest
                    else err_at loc ''parse_escape_sequence: unknown escape sequence appeared.''))"

text \<open>The position of the first byte that is not valid UTF-8.\<close>

definition check_utf8_validity :: "string \<Rightarrow> nat option" where
  "check_utf8_validity reg =
     (case repeat_unlimited lex_utf8_code reg of
        (Some r, []) \<Rightarrow> None
      | (_, loc) \<Rightarrow> Some (length reg - length loc))"

definition utf8_checked :: "region \<Rightarrow> string \<Rightarrow> 'a run \<Rightarrow> 'a run" where
  "utf8_checked token msg m = (if check_utf8_validity token = None then m else throw_syntax msg)"

definition append_matched :: "string \<Rightarrow> region option \<Rightarrow> string" where
  "append_matched retval r = (case r of Some s \<Rightarrow> retval @ s | None \<Rightarrow> retval)"

definition append_parsed :: "string \<Rightarrow> string + string \<Rightarrow> string" where
  "append_parsed retval r = (case r of Inr s \<Rightarrow> retval @ s | Inl e \<Rightarrow> retval)"

text \<open>
  The loops that read the inside of a string again. Each round passes at least one character of a token,
  so one round more than the text has characters is enough.
\<close>

fun basic_string_loop :: "nat \<Rightarrow> string \<Rightarrow> location \<Rightarrow> string run" where
  "basic_string_loop 0 retval inner = Inl Diverge"
| "basic_string_loop (Suc n) retval inner =
     (case repeat_unlimited lex_basic_unescaped inner of (unescaped, loc1) \<Rightarrow>
      bind_run (parse_escape_sequence loc1) (\<lambda>(escaped, loc2).
        let retval' = append_parsed (append_matched retval unescaped) escaped
        in if loc2 = [] then throw_internal ''parse_basic_string: unexpected end of region''
           else (case lex_quotation_mark loc2 of
                   (Some q, loc3) \<Rightarrow> Inr retval'
                 | (None, loc3) \<Rightarrow> basic_string_loop n retval' loc3)))"

definition parse_basic_string :: "location \<Rightarrow> ((string \<times> string_t) \<times> region) parsed" where
  "parse_basic_string loc =
     (case lex_basic_string loc of
        (None, loc') \<Rightarrow> err_at loc ''toml::parse_basic_string: the next token is not a valid string''
      | (Some token, loc') \<Rightarrow>
          (case lex_quotation_mark loc of
             (None, inner) \<Rightarrow> throw_internal ''parse_basic_string: invalid token''
           | (Some quot, inner) \<Rightarrow>
               bind_run (basic_string_loop (Suc (length inner)) [] inner) (\<lambda>retval.
               utf8_checked token ''parse_basic_string: invalid utf8 sequence found''
                 (ok_at loc' ((retval, Basic_string), token)))))"

fun ml_basic_string_loop :: "nat \<Rightarrow> string \<Rightarrow> location \<Rightarrow> (string \<times> region) run" where
  "ml_basic_string_loop 0 retval inner = Inl Diverge"
| "ml_basic_string_loop (Suc n) retval inner =
     (case repeat_unlimited (either [lex_ml_basic_unescaped, lex_newline]) inner of (unescaped, loc1) \<Rightarrow>
      bind_run (parse_escape_sequence loc1) (\<lambda>(escaped, loc2).
        let retval' = append_parsed (append_matched retval unescaped) escaped;
            loc3 = snd (lex_ml_basic_escaped_newline loc2)
        in if loc3 = [] then throw_internal ''parse_ml_basic_string: unexpected end of region''
           else (case lex_ml_basic_string_close loc3 of
                   (Some delim, loc4) \<Rightarrow> Inr (retval', delim)
                 | (None, loc4) \<Rightarrow> ml_basic_string_loop n retval' loc4)))"

text \<open>One or two quotes before the closing three belong to the string.\<close>

definition close_quotes :: "char \<Rightarrow> string \<Rightarrow> region \<Rightarrow> string \<Rightarrow> string run" where
  "close_quotes q msg delim retval =
     (if length delim = 3 then Inr retval
      else if length delim = 4 then Inr (retval @ [q])
      else if length delim = 5 then Inr (retval @ [q, q])
      else throw_internal msg)"

definition parse_ml_basic_string :: "location \<Rightarrow> ((string \<times> string_t) \<times> region) parsed" where
  "parse_ml_basic_string loc =
     (case lex_ml_basic_string loc of
        (None, loc') \<Rightarrow> err_at loc ''toml::parse_ml_basic_string: the next token is not a valid multiline string''
      | (Some token, loc') \<Rightarrow>
          (case lex_ml_basic_string_open loc of
             (None, inner) \<Rightarrow> throw_internal ''parse_ml_basic_string: invalid token''
           | (Some delim, inner) \<Rightarrow>
               (let inner1 = snd (lex_newline inner)
                in bind_run (ml_basic_string_loop (Suc (length inner1)) [] inner1) (\<lambda>(body, delim').
                   bind_run (close_quotes quote_char ''parse_ml_basic_string: closing delimiter has invalid length'' delim' body) (\<lambda>retval.
                   utf8_checked token ''parse_ml_basic_string: invalid utf8 sequence found''
                     (ok_at loc' ((retval, Basic_string), token)))))))"

definition parse_ml_literal_string :: "location \<Rightarrow> ((string \<times> string_t) \<times> region) parsed" where
  "parse_ml_literal_string loc =
     (case lex_ml_literal_string loc of
        (None, loc') \<Rightarrow> err_at loc ''toml::parse_ml_literal_string: the next token is not a valid multiline literal string''
      | (Some token, loc') \<Rightarrow>
          (case lex_ml_literal_string_open loc of
             (None, inner) \<Rightarrow> throw_internal ''parse_ml_literal_string: invalid token''
           | (Some open_delim, inner) \<Rightarrow>
               (case lex_ml_literal_body (snd (lex_newline inner)) of (body, inner2) \<Rightarrow>
                  (case lex_ml_literal_string_close inner2 of
                     (None, inner3) \<Rightarrow> throw_internal ''parse_ml_literal_string: invalid token''
                   | (Some delim, inner3) \<Rightarrow>
                       bind_run (close_quotes apostrophe_char
                         ''parse_ml_literal_string: closing delimiter has invalid length'' delim (append_matched [] body)) (\<lambda>retval.
                       utf8_checked token ''parse_ml_literal_string: invalid utf8 sequence found''
                         (ok_at loc' ((retval, Literal_string), token)))))))"

definition parse_literal_string :: "location \<Rightarrow> ((string \<times> string_t) \<times> region) parsed" where
  "parse_literal_string loc =
     (case lex_literal_string loc of
        (None, loc') \<Rightarrow> err_at loc ''toml::parse_literal_string: the next token is not a valid literal string''
      | (Some token, loc') \<Rightarrow>
          (case lex_apostrophe loc of
             (None, inner) \<Rightarrow> throw_internal ''parse_literal_string: invalid token''
           | (Some open_delim, inner) \<Rightarrow>
               (case repeat_unlimited lex_literal_char inner of (body, inner2) \<Rightarrow>
                  (case lex_apostrophe inner2 of
                     (None, inner3) \<Rightarrow> throw_internal ''parse_literal_string: invalid token''
                   | (Some close_delim, inner3) \<Rightarrow>
                       utf8_checked token ''parse_literal_string: invalid utf8 sequence found''
                         (ok_at loc' ((append_matched [] body, Literal_string), token))))))"

definition starts_with :: "string \<Rightarrow> location \<Rightarrow> bool" where
  "starts_with p loc \<longleftrightarrow> take (length p) loc = p"

definition parse_string :: "location \<Rightarrow> ((string \<times> string_t) \<times> region) parsed" where
  "parse_string loc =
     (if starts_with [quote_char] loc then
        (if starts_with [quote_char, quote_char, quote_char] loc then parse_ml_basic_string loc else parse_basic_string loc)
      else if starts_with [apostrophe_char] loc then
        (if starts_with [apostrophe_char, apostrophe_char, apostrophe_char] loc then parse_ml_literal_string loc
         else parse_literal_string loc)
      else err_at loc ''toml::parse_string: the next token is not a string'')"

section \<open>Dates and times\<close>

definition days_in_month :: "int \<Rightarrow> int \<Rightarrow> int" where
  "days_in_month year month =
     (let is_leap = year mod 4 = 0 \<and> (year mod 100 \<noteq> 0 \<or> year mod 400 = 0)
      in if month = 2 then (if is_leap then 29 else 28)
         else if month = 4 \<or> month = 6 \<or> month = 9 \<or> month = 11 then 30 else 31)"

text \<open>A token, and the character that has to follow it.\<close>

definition lex_then :: "lexer \<Rightarrow> char \<Rightarrow> string \<Rightarrow> location \<Rightarrow> (region \<times> location) run" where
  "lex_then T c msg loc =
     (case T loc of
        (Some r, d # loc') \<Rightarrow> if d = c then Inr (r, loc') else throw_internal msg
      | _ \<Rightarrow> throw_internal msg)"

definition lex_or_throw :: "lexer \<Rightarrow> string \<Rightarrow> location \<Rightarrow> (region \<times> location) run" where
  "lex_or_throw T msg loc = (case T loc of (Some r, loc') \<Rightarrow> Inr (r, loc') | (None, loc') \<Rightarrow> throw_internal msg)"

definition parse_local_date :: "location \<Rightarrow> (local_date \<times> region) parsed" where
  "parse_local_date loc =
     (case lex_local_date loc of
        (None, loc') \<Rightarrow> err_at loc ''toml::parse_local_date: the next token is not a local_date''
      | (Some token, loc') \<Rightarrow>
          bind_run (lex_then lex_date_fullyear CHR ''-'' ''toml::parse_local_date: invalid year format'' token) (\<lambda>(y, inner1).
          bind_run (lex_then lex_date_month CHR ''-'' ''toml::parse_local_date: invalid month format'' inner1) (\<lambda>(m, inner2).
          bind_run (lex_or_throw lex_date_mday ''toml::parse_local_date: invalid day format'' inner2) (\<lambda>(d, inner3).
            let year = sint (of_nat (number_of 10 y) :: u16); month = sint (of_nat (number_of 10 m) :: u8);
                day = sint (of_nat (number_of 10 d) :: u8)
            in if month < 1 \<or> 12 < month \<or> day < 1 \<or> days_in_month year month < day then
                 throw_syntax ''toml::parse_date: invalid date: it does not conform RFC3339.''
               else ok_at loc' (\<lparr>ld_year = word_of_int year, ld_month = word_of_int (month - 1), ld_day = word_of_int day\<rparr>, token)))))"

text \<open>The digits of a fraction in groups of three.\<close>

definition three_digits :: "string \<Rightarrow> u16" where
  "three_digits s = of_nat (number_of 10 s)"

definition add_secfrac :: "string \<Rightarrow> local_time \<Rightarrow> local_time" where
  "add_secfrac secfrac t =
     (let sf0 = drop 1 secfrac;
          sf = (if length sf0 mod 3 = 2 then sf0 @ ''0'' else if length sf0 mod 3 = 1 then sf0 @ ''00'' else sf0)
      in if length sf \<ge> 9 then
           t\<lparr>lt_millisecond := three_digits (take 3 sf), lt_microsecond := three_digits (take 3 (drop 3 sf)),
             lt_nanosecond := three_digits (take 3 (drop 6 sf))\<rparr>
         else if length sf \<ge> 6 then
           t\<lparr>lt_millisecond := three_digits (take 3 sf), lt_microsecond := three_digits (take 3 (drop 3 sf))\<rparr>
         else if length sf \<ge> 3 then t\<lparr>lt_millisecond := three_digits sf, lt_microsecond := 0\<rparr>
         else t)"

definition parse_local_time :: "location \<Rightarrow> (local_time \<times> region) parsed" where
  "parse_local_time loc =
     (case lex_local_time loc of
        (None, loc') \<Rightarrow> err_at loc ''toml::parse_local_time: the next token is not a local_time''
      | (Some token, loc') \<Rightarrow>
          bind_run (lex_then lex_time_hour CHR '':'' ''toml::parse_local_time: invalid year format'' token) (\<lambda>(h, inner1).
          bind_run (lex_then lex_time_minute CHR '':'' ''toml::parse_local_time: invalid month format'' inner1) (\<lambda>(m, inner2).
          bind_run (lex_or_throw lex_time_second ''toml::parse_local_time: invalid second format'' inner2) (\<lambda>(s, inner3).
            let hour = number_of 10 h; minute = number_of 10 m; second = number_of 10 s
            in if 23 < hour \<or> 59 < minute \<or> 60 < second then
                 throw_syntax ''toml::parse_local_time: invalid time: it does not conform RFC3339.''
               else
                 (let time = \<lparr>lt_hour = of_nat hour, lt_minute = of_nat minute, lt_second = of_nat second,
                              lt_millisecond = 0, lt_microsecond = 0, lt_nanosecond = 0\<rparr>
                  in case lex_time_secfrac inner3 of
                       (Some secfrac, inner4) \<Rightarrow> ok_at loc' (add_secfrac secfrac time, token)
                     | (None, inner4) \<Rightarrow>
                         if inner3 \<noteq> inner4 then throw_internal ''toml::parse_local_time: invalid subsecond format''
                         else ok_at loc' (time, token))))))"

definition parse_local_datetime :: "location \<Rightarrow> (local_datetime \<times> region) parsed" where
  "parse_local_datetime loc =
     (case lex_local_date_time loc of
        (None, loc') \<Rightarrow> err_at loc ''toml::parse_local_datetime: the next token is not a local_datetime''
      | (Some token, loc') \<Rightarrow>
          bind_run (parse_local_date token) (\<lambda>(date, inner1).
            case (date, inner1) of
              (Inr (d, reg), delim # inner2) \<Rightarrow>
                if delim \<noteq> CHR ''T'' \<and> delim \<noteq> CHR ''t'' \<and> delim \<noteq> CHR '' '' then
                  throw_internal ''toml::parse_local_datetime: invalid datetime format''
                else
                  bind_run (parse_local_time inner2) (\<lambda>(time, inner3).
                    case time of
                      Inl e \<Rightarrow> throw_internal ''toml::parse_local_datetime: invalid datetime format''
                    | Inr (t, reg') \<Rightarrow> ok_at loc' ((d, t), token))
            | _ \<Rightarrow> throw_internal ''toml::parse_local_datetime: invalid datetime format''))"

definition parse_offset_datetime :: "location \<Rightarrow> (offset_datetime \<times> region) parsed" where
  "parse_offset_datetime loc =
     (case lex_offset_date_time loc of
        (None, loc') \<Rightarrow> err_at loc ''toml::parse_offset_datetime: the next token is not a offset_datetime''
      | (Some token, loc') \<Rightarrow>
          bind_run (parse_local_datetime token) (\<lambda>(datetime, inner1).
            case (datetime, inner1) of
              (Inr ((d, t), reg), c # inner2) \<Rightarrow>
                (case lex_time_numoffset inner1 of
                   (Some str, inner3) \<Rightarrow>
                     (let hour = int (number_of 10 (take 2 (drop 1 str))); minute = int (number_of 10 (take 2 (drop 4 str)))
                      in if 23 < hour \<or> 59 < minute then
                           throw_syntax ''toml::parse_offset_datetime: invalid offset: it does not conform RFC3339.''
                         else if take 1 str = ''+'' then
                           ok_at loc' ((d, t, \<lparr>to_hour = word_of_int hour, to_minute = word_of_int minute\<rparr>), token)
                         else
                           ok_at loc' ((d, t, \<lparr>to_hour = word_of_int (- hour), to_minute = word_of_int (- minute)\<rparr>), token))
                 | (None, inner3) \<Rightarrow>
                     if c \<noteq> CHR ''Z'' \<and> c \<noteq> CHR ''z'' then
                       throw_internal ''toml::parse_offset_datetime: invalid datetime format''
                     else ok_at loc' ((d, t, \<lparr>to_hour = 0, to_minute = 0\<rparr>), token))
            | _ \<Rightarrow> throw_internal ''toml::parse_offset_datetime: invalid datetime format''))"

end
