(* ===== verification/Toml_Parser.thy ===== *)
theory Toml_Parser
  imports Toml_Scalar
begin

text \<open>
  \<^verbatim>\<open>parser.hpp\<close>, second half: keys, the kind of a value, arrays and inline tables, the insertion of a
  value under a dotted key, table headers, tables and files. The functions that call each other take
  fuel, one unit for every call and every round of a loop.
\<close>

section \<open>Keys\<close>

definition parse_simple_key :: "location \<Rightarrow> (string \<times> region) parsed" where
  "parse_simple_key loc =
     bind_run (parse_basic_string loc) (\<lambda>(bstr, loc1).
     case bstr of
       Inr ((s, k), reg) \<Rightarrow> ok_at loc1 (s, reg)
     | Inl e1 \<Rightarrow>
         bind_run (parse_literal_string loc1) (\<lambda>(lstr, loc2).
         case lstr of
           Inr ((s, k), reg) \<Rightarrow> ok_at loc2 (s, reg)
         | Inl e2 \<Rightarrow>
             (case lex_unquoted_key loc2 of
                (Some reg, loc3) \<Rightarrow> ok_at loc3 (reg, reg)
              | (None, loc3) \<Rightarrow> err_at loc3 ''toml::parse_simple_key: the next token is not a simple key'')))"

definition skip :: "lexer \<Rightarrow> location \<Rightarrow> location" where
  "skip T loc = snd (T loc)"

text \<open>The keys of a dotted key, read from its region; each round passes a key.\<close>

fun dotted_loop :: "nat \<Rightarrow> string list \<Rightarrow> location \<Rightarrow> string list run" where
  "dotted_loop 0 keys inner = Inl Diverge"
| "dotted_loop (Suc n) keys inner =
     (if inner = [] then Inr keys
      else
        bind_run (parse_simple_key (skip lex_ws inner)) (\<lambda>(k, loc1).
        case k of
          Inl e \<Rightarrow> throw_internal ''toml::parse_key: dotted key contains invalid key''
        | Inr (key, reg) \<Rightarrow>
            (case skip lex_ws loc1 of
               [] \<Rightarrow> Inr (keys @ [key])
             | c # loc2 \<Rightarrow>
                 if c = CHR ''.'' then dotted_loop n (keys @ [key]) loc2
                 else throw_internal ''toml::parse_key: dotted key contains invalid key '')))"

definition parse_key :: "location \<Rightarrow> (string list \<times> region) parsed" where
  "parse_key loc =
     (case lex_dotted_key loc of
        (Some reg, loc') \<Rightarrow> bind_run (dotted_loop (Suc (length reg)) [] reg) (\<lambda>keys. ok_at loc' (keys, reg))
      | (None, loc') \<Rightarrow>
          bind_run (parse_simple_key loc) (\<lambda>(smpl, loc1).
          case smpl of
            Inr (key, reg) \<Rightarrow> ok_at loc1 ([key], reg)
          | Inl e \<Rightarrow> err_at loc1 ''toml::parse_key: an invalid key appeared.''))"

definition lex_newline_after_table_key :: lexer where
  "lex_newline_after_table_key = lex_sequence [maybe lex_ws, maybe lex_comment, lex_newline]"

text \<open>\<^verbatim>\<open>parse_table_key\<close> and \<^verbatim>\<open>parse_array_table_key\<close> differ in their brackets and the texts of their errors.\<close>

definition bracketed_key :: "string \<Rightarrow> lexer \<Rightarrow> lexer \<Rightarrow> lexer \<Rightarrow> location \<Rightarrow> (string list \<times> region) parsed" where
  "bracketed_key fn whole open_bracket close_bracket loc =
     (case whole loc of
        (None, loc') \<Rightarrow> err_at loc' (fn @ '': not a valid table key'')
      | (Some token, loc') \<Rightarrow>
          (case open_bracket token of
             (Some r, inner # rest) \<Rightarrow>
               bind_run (parse_key (skip lex_ws (inner # rest))) (\<lambda>(keys, loc1).
               case keys of
                 Inl e \<Rightarrow> throw_internal (fn @ '': invalid key'')
               | Inr (ks, reg) \<Rightarrow>
                   (case close_bracket (skip lex_ws loc1) of
                      (None, loc2) \<Rightarrow> throw_internal (fn @ '': no closing bracket'')
                    | (Some r2, loc2) \<Rightarrow>
                        if loc' \<noteq> [] then
                          (case lex_newline_after_table_key loc' of
                             (None, loc3) \<Rightarrow> throw_syntax (fn @ '': newline required after [table.key]'')
                           | (Some nl, loc3) \<Rightarrow> ok_at loc3 (ks, token))
                        else ok_at loc' (ks, token)))
           | _ \<Rightarrow> throw_internal (fn @ '': no opening bracket'')))"

definition parse_table_key :: "location \<Rightarrow> (string list \<times> region) parsed" where
  "parse_table_key = bracketed_key ''toml::parse_table_key'' lex_std_table lex_std_table_open lex_std_table_close"

definition parse_array_table_key :: "location \<Rightarrow> (string list \<times> region) parsed" where
  "parse_array_table_key =
     bracketed_key ''toml::parse_array_table_key'' lex_array_table lex_array_table_open lex_array_table_close"

section \<open>The kind of a value\<close>

text \<open>The character at a location, if there is one.\<close>

definition at_char :: "(char \<Rightarrow> bool) \<Rightarrow> location \<Rightarrow> bool" where
  "at_char p loc = (case loc of [] \<Rightarrow> False | c # cs \<Rightarrow> p c)"

definition between :: "char \<Rightarrow> char \<Rightarrow> char \<Rightarrow> bool" where
  "between lower upper c \<longleftrightarrow> schar lower \<le> schar c \<and> schar c \<le> schar upper"

definition guess_date :: "location \<Rightarrow> string + value_t" where
  "guess_date loc =
     (if at_char (\<lambda>c. c = CHR ''T'' \<or> c = CHR ''t'') loc then Inl ''bad time: should be HH:MM:SS.subsec''
      else if at_char (between CHR ''0'' CHR ''9'') loc then Inl ''bad time: missing T''
      else if at_char (\<lambda>c. c = CHR '' '') loc \<and> at_char (between CHR ''0'' CHR ''9'') (tl loc) then
        Inl ''bad time: should be HH:MM:SS.subsec''
      else Inr vt_local_date)"

definition guess_integer :: "location \<Rightarrow> string + value_t" where
  "guess_integer loc =
     (if at_char (\<lambda>c. c = CHR ''_'') loc then Inl ''bad integer: `_` should be surrounded by digits''
      else if at_char (between CHR ''0'' CHR ''9'') loc then Inl ''bad integer: leading zero''
      else if at_char (\<lambda>c. c = CHR '':'' \<or> c = CHR ''-'') loc then Inl ''bad datetime: invalid format''
      else if at_char (\<lambda>c. c = CHR ''.'' \<or> c = CHR ''e'' \<or> c = CHR ''E'') loc then Inl ''bad float: invalid format''
      else Inr vt_integer)"

definition guess_number_type :: "location \<Rightarrow> string + value_t" where
  "guess_number_type l =
     (if fst (lex_offset_date_time l) \<noteq> None then Inr vt_offset_datetime
      else case lex_local_date_time l of
        (Some r, loc) \<Rightarrow>
          if at_char (\<lambda>c. c = CHR ''+'' \<or> c = CHR ''-'' \<or> c = CHR ''Z'' \<or> c = CHR ''z'') loc
          then Inl ''bad offset: should be [+-]HH:MM or Z'' else Inr vt_local_datetime
      | (None, _) \<Rightarrow>
      (case lex_local_date l of
        (Some r, loc) \<Rightarrow> guess_date loc
      | (None, _) \<Rightarrow>
        if fst (lex_local_time l) \<noteq> None then Inr vt_local_time
        else case lex_float l of
          (Some r, loc) \<Rightarrow>
            if at_char (\<lambda>c. c = CHR ''_'') loc then Inl ''bad float: `_` should be surrounded by digits'' else Inr vt_floating
        | (None, _) \<Rightarrow>
        (case lex_integer l of
          (Some r, loc) \<Rightarrow> guess_integer loc
        | (None, loc) \<Rightarrow>
            if at_char (\<lambda>c. c = CHR ''.'') loc then Inl ''bad float: invalid format''
            else if at_char (\<lambda>c. c = CHR ''_'') loc then Inl ''bad number: `_` should be surrounded by digits''
            else Inl ''bad format: unknown value appeared'')))"

definition guess_value_type :: "location \<Rightarrow> (string + value_t) run" where
  "guess_value_type loc =
     (case loc of
        [] \<Rightarrow> Inl Out_of_bounds
      | c # cs \<Rightarrow>
          Inr (if c = quote_char then Inr vt_string
               else if c = apostrophe_char then Inr vt_string
               else if c = CHR ''t'' then Inr vt_boolean
               else if c = CHR ''f'' then Inr vt_boolean
               else if c = CHR ''['' then Inr vt_array
               else if c = CHR ''{'' then Inr vt_table
               else if c = CHR ''i'' then Inr vt_floating
               else if c = CHR ''n'' then Inr vt_floating
               else guess_number_type loc))"

section \<open>Inserting a value under a dotted key\<close>

text \<open>A table keeps the place of a key whose value is replaced; a new key comes last.\<close>

fun table_put :: "string \<Rightarrow> toml_value \<Rightarrow> table_type \<Rightarrow> table_type" where
  "table_put k v [] = [(k, v)]"
| "table_put k v ((k', v') # tab) = (if k = k' then (k, v) # tab else (k', v') # table_put k v tab)"

text \<open>
  Whether a table may be reopened. Regions are parsed again: the one of the value that is inserted, to see
  whether it is an inline table (\<open>inline_at\<close> is the parser of those), and the one of the table that is there.
\<close>

definition is_valid_forward_table_definition ::
    "(location \<Rightarrow> (table_type \<times> region) parsed) \<Rightarrow> toml_value \<Rightarrow> toml_value \<Rightarrow> string list \<Rightarrow> string list \<Rightarrow> bool run" where
  "is_valid_forward_table_definition inline_at fwd inserting keys remaining =
     bind_run (inline_at (get_region inserting)) (\<lambda>(inlinetable, inserting_def).
     case inlinetable of
       Inr t \<Rightarrow> Inr False
     | Inl e \<Rightarrow>
         bind_run (parse_table_key (get_region fwd)) (\<lambda>(tabkeys, def1).
         case tabkeys of
           Inr (tks, r) \<Rightarrow> Inr (tks \<noteq> keys)
         | Inl e1 \<Rightarrow>
             bind_run (parse_array_table_key def1) (\<lambda>(atabkeys, def2).
             case atabkeys of
               Inr (tks, r) \<Rightarrow> Inr (tks \<noteq> keys)
             | Inl e2 \<Rightarrow>
                 bind_run (parse_key def2) (\<lambda>(dotkeys, def3).
                 case dotkeys of
                   Inl e3 \<Rightarrow> Inr False
                 | Inr (dks, r) \<Rightarrow>
                     bind_run (parse_table_key inserting_def) (\<lambda>(reopening, def4).
                     case reopening of Inr x \<Rightarrow> Inr False | Inl e4 \<Rightarrow> Inr (dks \<noteq> remaining))))))"

fun merge_table :: "table_type \<Rightarrow> table_type \<Rightarrow> table_type run" where
  "merge_table t [] = Inr t"
| "merge_table t ((k, v) # kvs) =
     (if map_of t k \<noteq> None then throw_syntax ''toml::insert_value: value already exists.''
      else merge_table (table_put k v t) kvs)"

definition append_to_array_of_tables :: "toml_value \<Rightarrow> toml_value \<Rightarrow> toml_value run" where
  "append_to_array_of_tables x v =
     (case x of
        TTable t r \<Rightarrow> throw_syntax ''toml::insert_value: array of table cannot be defined''
      | TArray a r \<Rightarrow>
          if a = [] \<or> \<not> is_table (hd a) then throw_syntax ''toml::insert_value: array of table collides with existing value''
          else if take 2 (get_region (hd a)) \<noteq> ''[['' then
            throw_syntax ''toml::insert_value: array of table collides with existing array-of-tables''
          else Inr (TArray (a @ [v]) r)
      | _ \<Rightarrow> throw_syntax ''toml::insert_value: array of table collides with existing value'')"

definition redefine_value ::
    "(location \<Rightarrow> (table_type \<times> region) parsed) \<Rightarrow> toml_value \<Rightarrow> toml_value \<Rightarrow> region \<Rightarrow> string list \<Rightarrow> string list \<Rightarrow> toml_value run" where
  "redefine_value inline_at x v key_reg keys remaining =
     (case (x, v) of
        (TTable t r, TTable t' r') \<Rightarrow>
          bind_run (is_valid_forward_table_definition inline_at x v keys remaining) (\<lambda>valid.
            if \<not> valid then throw_syntax ''toml::insert_value: table already exists.''
            else bind_run (merge_table t t') (\<lambda>merged. Inr (TTable merged key_reg)))
      | (TArray a r, TTable t' r') \<Rightarrow>
          if a \<noteq> [] \<and> is_table (hd a) then throw_syntax ''toml::insert_value: array of tables already exists.''
          else throw_syntax ''toml::insert_value: value already exists.''
      | _ \<Rightarrow> throw_syntax ''toml::insert_value: value already exists.'')"

text \<open>
  The walk along the keys. An array on the way stands for its last table; of an empty array the
  code asks for the last element before it asks whether there is one.
\<close>

fun insert_along ::
    "(location \<Rightarrow> (table_type \<times> region) parsed) \<Rightarrow> bool \<Rightarrow> toml_value \<Rightarrow> region \<Rightarrow> string list \<Rightarrow> string list \<Rightarrow> table_type \<Rightarrow>
     (string + table_type) run" where
  "insert_along inline_at aot v key_reg keys [] tab = Inr (Inl ''toml::detail::insert_nested_key: never reach here'')"
| "insert_along inline_at aot v key_reg keys [k] tab =
     (case map_of tab k of
        None \<Rightarrow> Inr (Inr (table_put k (if aot then TArray [v] key_reg else v) tab))
      | Some x \<Rightarrow>
          bind_run (if aot then append_to_array_of_tables x v else redefine_value inline_at x v key_reg keys [k]) (\<lambda>x'.
            Inr (Inr (table_put k x' tab))))"
| "insert_along inline_at aot v key_reg keys (k # k' # ks) tab =
     (case (case map_of tab k of None \<Rightarrow> TTable [] key_reg | Some x \<Rightarrow> x) of
        TTable t r \<Rightarrow>
          (case r of
             [] \<Rightarrow> Inl Out_of_bounds
           | c # cs \<Rightarrow>
               if c = CHR ''{'' then throw_syntax ''toml::insert_value: inserting to an inline table but inline tables are immutable''
               else bind_run (insert_along inline_at aot v key_reg keys (k' # ks) t) (\<lambda>res.
                 Inr (map_sum id (\<lambda>t'. table_put k (TTable t' r) tab) res)))
      | TArray a r \<Rightarrow>
          if a = [] then Inl Out_of_bounds
          else (case last a of
                  TTable t r' \<Rightarrow>
                    if take 2 (get_region (hd a)) \<noteq> ''[['' then
                      throw_syntax ''toml::insert_value: a table cannot be inserted to an existing inline array-of-tables''
                    else bind_run (insert_along inline_at aot v key_reg keys (k' # ks) t) (\<lambda>res.
                      Inr (map_sum id (\<lambda>t'. table_put k (TArray (butlast a @ [TTable t' r']) r) tab) res))
                | _ \<Rightarrow> throw_syntax ''toml::insert_value: target is neither table nor an array of tables'')
      | _ \<Rightarrow> throw_syntax ''toml::insert_value: target is neither table nor an array of tables'')"

definition insert_nested_key ::
    "(location \<Rightarrow> (table_type \<times> region) parsed) \<Rightarrow> table_type \<Rightarrow> toml_value \<Rightarrow> string list \<Rightarrow> region \<Rightarrow> bool \<Rightarrow>
     (string + table_type) run" where
  "insert_nested_key inline_at root v keys key_reg is_array_of_table =
     insert_along inline_at is_array_of_table v key_reg keys keys root"

section \<open>Values, arrays and inline tables\<close>

definition value_recursion_limit :: nat where "value_recursion_limit = 64"

definition lex_ws_comment_newline :: lexer where
  "lex_ws_comment_newline = repeat_unlimited (either [lex_wschar, lex_newline, lex_comment])"

definition lex_array_separator :: lexer where
  "lex_array_separator = lex_sequence [maybe lex_ws_comment_newline, character CHR '','']"

definition lex_table_separator :: lexer where
  "lex_table_separator = lex_sequence [maybe lex_ws, character CHR '','']"

definition region_between :: "location \<Rightarrow> location \<Rightarrow> region" where
  "region_between first end_loc = take (length first - length end_loc) first"

definition parse_value_helper :: "('a \<Rightarrow> region \<Rightarrow> toml_value) \<Rightarrow> ('a \<times> region) parsed \<Rightarrow> toml_value parsed" where
  "parse_value_helper mk rslt =
     bind_run rslt (\<lambda>(res, loc). Inr (map_sum id (\<lambda>(x, reg). mk x reg) res, loc))"

definition parse_scalar :: "value_t \<Rightarrow> location \<Rightarrow> toml_value parsed" where
  "parse_scalar ty loc =
     (case ty of
        vt_boolean \<Rightarrow> parse_value_helper TBoolean (parse_boolean loc)
      | vt_integer \<Rightarrow> parse_value_helper TInteger (parse_integer loc)
      | vt_floating \<Rightarrow> parse_value_helper TFloating (parse_floating loc)
      | vt_string \<Rightarrow> parse_value_helper (\<lambda>(s, k). TString s k) (parse_string loc)
      | vt_offset_datetime \<Rightarrow> parse_value_helper TOffset_datetime (parse_offset_datetime loc)
      | vt_local_datetime \<Rightarrow> parse_value_helper TLocal_datetime (parse_local_datetime loc)
      | vt_local_date \<Rightarrow> parse_value_helper TLocal_date (parse_local_date loc)
      | vt_local_time \<Rightarrow> parse_value_helper TLocal_time (parse_local_time loc)
      | _ \<Rightarrow> err_at loc ''toml::parse_value: unknown token appeared'')"

text \<open>The messages where a key, a separator or a value is missing.\<close>

definition no_key_error :: "location \<Rightarrow> location \<Rightarrow> string \<Rightarrow> 'a parsed" where
  "no_key_error first loc msg =
     (case lex_keyval_sep loc of
        (Some r, loc') \<Rightarrow> err_at first ''toml::parse_key_value_pair: empty key is not allowed.''
      | (None, loc') \<Rightarrow> err_at loc' msg)"

definition no_separator_error :: "location \<Rightarrow> location \<Rightarrow> 'a parsed" where
  "no_separator_error first loc =
     err_at first (if CHR ''='' \<in> set (takeWhile (\<lambda>c. c \<noteq> newline_char) loc)
                   then ''toml::parse_key_value_pair: invalid format for key''
                   else ''toml::parse_key_value_pair: missing key-value separator `=`'')"

definition no_value_error :: "location \<Rightarrow> location \<Rightarrow> string \<Rightarrow> 'a parsed" where
  "no_value_error first after_kvsp msg =
     err_at first (if fst (lex_sequence [maybe lex_ws, maybe lex_comment, lex_newline] after_kvsp) \<noteq> None
                   then ''toml::parse_key_value_pair: missing value after key-value separator =''
                   else msg)"

text \<open>The bodies of the functions that call each other, with those they call as arguments.\<close>

definition value_body ::
    "(location \<Rightarrow> (toml_value list \<times> region) parsed) \<Rightarrow> (location \<Rightarrow> (table_type \<times> region) parsed) \<Rightarrow> location \<Rightarrow> toml_value parsed" where
  "value_body array_at inline_at loc =
     (if loc = [] then err_at loc ''toml::parse_value: input is empty''
      else bind_run (guess_value_type loc) (\<lambda>type.
        case type of
          Inl e \<Rightarrow> err_at loc e
        | Inr ty \<Rightarrow>
            if ty = vt_array then parse_value_helper TArray (array_at loc)
            else if ty = vt_table then parse_value_helper TTable (inline_at loc)
            else parse_scalar ty loc))"

definition array_body ::
    "(location \<Rightarrow> toml_value list \<Rightarrow> location \<Rightarrow> (toml_value list \<times> region) parsed) \<Rightarrow> nat \<Rightarrow> location \<Rightarrow>
     (toml_value list \<times> region) parsed" where
  "array_body elements_at n_rec loc =
     (if n_rec > value_recursion_limit then throw_syntax ''toml::parse_array: recursion limit (64) exceeded''
      else case loc of
        [] \<Rightarrow> err_at loc ''toml::parse_array: input is empty''
      | c # rest \<Rightarrow>
          if c \<noteq> CHR ''['' then err_at loc ''toml::parse_array: token is not an array''
          else elements_at loc [] rest)"

text \<open>The end of a round: a comma, or the closing bracket.\<close>

definition array_separator ::
    "(toml_value list \<Rightarrow> location \<Rightarrow> (toml_value list \<times> region) parsed) \<Rightarrow>
     location \<Rightarrow> toml_value list \<Rightarrow> location \<Rightarrow> (toml_value list \<times> region) parsed" where
  "array_separator elements_at first retval loc =
     (case lex_array_separator loc of
        (Some sp, loc1) \<Rightarrow> elements_at retval loc1
      | (None, loc1) \<Rightarrow>
          let loc2 = skip lex_ws_comment_newline loc1
          in if at_char (\<lambda>c. c = CHR '']'') loc2
             then ok_at (tl loc2) (retval, region_between first (tl loc2))
             else throw_syntax ''toml::parse_array: missing array separator `,` after a value'')"

definition array_round ::
    "(location \<Rightarrow> toml_value parsed) \<Rightarrow> (toml_value list \<Rightarrow> location \<Rightarrow> (toml_value list \<times> region) parsed) \<Rightarrow>
     location \<Rightarrow> toml_value list \<Rightarrow> location \<Rightarrow> (toml_value list \<times> region) parsed" where
  "array_round value_at elements_at first retval loc =
     (if loc = [] then throw_syntax ''toml::parse_array: array did not closed by `]`''
      else let loc1 = skip lex_ws_comment_newline loc
        in if at_char (\<lambda>c. c = CHR '']'') loc1 then ok_at (tl loc1) (retval, region_between first (tl loc1))
           else bind_run (value_at loc1) (\<lambda>(val, loc2).
             case val of
               Inl e \<Rightarrow> throw_syntax ''toml::parse_array: value having invalid format appeared in an array''
             | Inr v \<Rightarrow> array_separator elements_at first (retval @ [v]) loc2))"

definition pair_body :: "(location \<Rightarrow> toml_value parsed) \<Rightarrow> location \<Rightarrow> ((string list \<times> region) \<times> toml_value) parsed" where
  "pair_body value_at loc =
     bind_run (parse_key loc) (\<lambda>(key_reg, loc1).
     case key_reg of
       Inl msg \<Rightarrow> no_key_error loc loc1 msg
     | Inr kr \<Rightarrow>
         (case lex_keyval_sep loc1 of
            (None, loc2) \<Rightarrow> no_separator_error loc loc2
          | (Some kvsp, loc2) \<Rightarrow>
              bind_run (value_at loc2) (\<lambda>(val, loc3).
              case val of
                Inl msg \<Rightarrow> no_value_error loc loc2 msg
              | Inr v \<Rightarrow> ok_at loc3 (kr, v))))"

definition inline_body ::
    "(location \<Rightarrow> table_type \<Rightarrow> location \<Rightarrow> (table_type \<times> region) parsed) \<Rightarrow> nat \<Rightarrow> location \<Rightarrow> (table_type \<times> region) parsed" where
  "inline_body pairs_at n_rec loc =
     (if n_rec > value_recursion_limit then throw_syntax ''toml::parse_inline_table: recursion limit (64) exceeded''
      else if \<not> at_char (\<lambda>c. c = CHR ''{'') loc then err_at loc ''toml::parse_inline_table: the next token is not an inline table''
      else let loc1 = skip (maybe lex_ws) (tl loc)
        in if at_char (\<lambda>c. c = CHR ''}'') loc1 then ok_at (tl loc1) ([], region_between loc (tl loc1))
           else pairs_at loc [] loc1)"

text \<open>The end of a round: a comma, or the closing brace.\<close>

definition inline_separator ::
    "(table_type \<Rightarrow> location \<Rightarrow> (table_type \<times> region) parsed) \<Rightarrow> location \<Rightarrow> table_type \<Rightarrow> location \<Rightarrow> (table_type \<times> region) parsed" where
  "inline_separator pairs_at first tab loc =
     (case lex_table_separator loc of
        (None, loc1) \<Rightarrow>
          (case skip (maybe lex_ws) loc1 of
             [] \<Rightarrow> throw_syntax ''toml::parse_inline_table: missing table separator `}`''
           | c # loc2 \<Rightarrow>
               if c = CHR ''}'' then ok_at loc2 (tab, region_between first loc2)
               else if c = CHR ''#'' \<or> c = carriage_return \<or> c = newline_char then
                 throw_syntax ''toml::parse_inline_table: missing curly brace `}`''
               else throw_syntax ''toml::parse_inline_table: missing table separator `,`'')
      | (Some sp, loc1) \<Rightarrow>
          let loc2 = skip (maybe lex_ws) loc1
          in if at_char (\<lambda>c. c = CHR ''}'') loc2 then
               throw_syntax ''toml::parse_inline_table: trailing comma is not allowed in an inline table''
             else pairs_at tab loc2)"

definition inline_round ::
    "(location \<Rightarrow> ((string list \<times> region) \<times> toml_value) parsed) \<Rightarrow> (location \<Rightarrow> (table_type \<times> region) parsed) \<Rightarrow>
     (table_type \<Rightarrow> location \<Rightarrow> (table_type \<times> region) parsed) \<Rightarrow> location \<Rightarrow> table_type \<Rightarrow> location \<Rightarrow> (table_type \<times> region) parsed" where
  "inline_round pair_at inline_at pairs_at first retval loc =
     (if loc = [] then throw_syntax ''toml::parse_inline_table: inline table did not closed by `}`''
      else bind_run (pair_at loc) (\<lambda>(kv_r, loc1).
        case kv_r of
          Inl e \<Rightarrow> err_at loc1 e
        | Inr ((keys, key_reg), val) \<Rightarrow>
            bind_run (insert_nested_key inline_at retval val keys key_reg False) (\<lambda>inserted.
            case inserted of
              Inl e \<Rightarrow> throw_internal ''toml::parse_inline_table: failed to insert value into table''
            | Inr tab \<Rightarrow> inline_separator pairs_at first tab loc1)))"

text \<open>The functions at one level of fuel call those of the level below.\<close>

record toml_parsers =
  tp_value :: "nat \<Rightarrow> location \<Rightarrow> toml_value parsed"
  tp_array :: "nat \<Rightarrow> location \<Rightarrow> (toml_value list \<times> region) parsed"
  tp_elements :: "nat \<Rightarrow> location \<Rightarrow> toml_value list \<Rightarrow> location \<Rightarrow> (toml_value list \<times> region) parsed"
  tp_pair :: "nat \<Rightarrow> location \<Rightarrow> ((string list \<times> region) \<times> toml_value) parsed"
  tp_inline :: "nat \<Rightarrow> location \<Rightarrow> (table_type \<times> region) parsed"
  tp_pairs :: "nat \<Rightarrow> location \<Rightarrow> table_type \<Rightarrow> location \<Rightarrow> (table_type \<times> region) parsed"

definition no_parsers :: toml_parsers where
  "no_parsers =
     \<lparr>tp_value = (\<lambda>_ _. Inl Diverge), tp_array = (\<lambda>_ _. Inl Diverge), tp_elements = (\<lambda>_ _ _ _. Inl Diverge),
      tp_pair = (\<lambda>_ _. Inl Diverge), tp_inline = (\<lambda>_ _. Inl Diverge), tp_pairs = (\<lambda>_ _ _ _. Inl Diverge)\<rparr>"

definition next_parsers :: "toml_parsers \<Rightarrow> toml_parsers" where
  "next_parsers p =
     \<lparr>tp_value = (\<lambda>n_rec. value_body (tp_array p n_rec) (tp_inline p n_rec)),
      tp_array = (\<lambda>n_rec. array_body (tp_elements p n_rec) n_rec),
      tp_elements = (\<lambda>n_rec first. array_round (tp_value p (n_rec + 1)) (tp_elements p n_rec first) first),
      tp_pair = (\<lambda>n_rec. pair_body (tp_value p n_rec)),
      tp_inline = (\<lambda>n_rec. inline_body (tp_pairs p n_rec) n_rec),
      tp_pairs = (\<lambda>n_rec first. inline_round (tp_pair p (n_rec + 1)) (tp_inline p 0) (tp_pairs p n_rec first) first)\<rparr>"

primrec parsers_at :: "nat \<Rightarrow> toml_parsers" where
  "parsers_at 0 = no_parsers"
| "parsers_at (Suc n) = next_parsers (parsers_at n)"

definition parse_value :: "nat \<Rightarrow> nat \<Rightarrow> location \<Rightarrow> toml_value parsed" where
  "parse_value n = tp_value (parsers_at n)"

definition parse_array :: "nat \<Rightarrow> nat \<Rightarrow> location \<Rightarrow> (toml_value list \<times> region) parsed" where
  "parse_array n = tp_array (parsers_at n)"

definition array_loop :: "nat \<Rightarrow> nat \<Rightarrow> location \<Rightarrow> toml_value list \<Rightarrow> location \<Rightarrow> (toml_value list \<times> region) parsed" where
  "array_loop n = tp_elements (parsers_at n)"

definition parse_key_value_pair :: "nat \<Rightarrow> nat \<Rightarrow> location \<Rightarrow> ((string list \<times> region) \<times> toml_value) parsed" where
  "parse_key_value_pair n = tp_pair (parsers_at n)"

definition parse_inline_table :: "nat \<Rightarrow> nat \<Rightarrow> location \<Rightarrow> (table_type \<times> region) parsed" where
  "parse_inline_table n = tp_inline (parsers_at n)"

definition inline_table_loop :: "nat \<Rightarrow> nat \<Rightarrow> location \<Rightarrow> table_type \<Rightarrow> location \<Rightarrow> (table_type \<times> region) parsed" where
  "inline_table_loop n = tp_pairs (parsers_at n)"

text \<open>How much fuel a text needs: \<open>parse_value_ends\<close>.\<close>

definition fuel_for :: "location \<Rightarrow> nat" where
  "fuel_for loc = 4 * length loc + 8"

section \<open>Tables and files\<close>

definition skip_line :: lexer where
  "skip_line = repeat_at_least 1 (lex_sequence [maybe lex_ws, maybe lex_comment, lex_newline])"

definition no_newline_error :: "location \<Rightarrow> 'a parsed" where
  "no_newline_error loc =
     (case skip lex_ws loc of
        [] \<Rightarrow> Inl Out_of_bounds
      | c # cs \<Rightarrow> err_at loc ''toml::parse_table: invalid line format'')"

text \<open>The end of a line of a table, and a whole line, with what reads the lines after it.\<close>

definition after_pair :: "(table_type \<Rightarrow> location \<Rightarrow> table_type parsed) \<Rightarrow> table_type \<Rightarrow> location \<Rightarrow> table_type parsed" where
  "after_pair lines_at tab loc =
     (case skip_line (skip lex_comment (skip lex_ws loc)) of (newline, loc') \<Rightarrow>
        if newline = None \<and> loc' \<noteq> [] then no_newline_error loc'
        else lines_at tab (skip lex_comment (skip lex_ws loc')))"

definition table_line :: "(table_type \<Rightarrow> location \<Rightarrow> table_type parsed) \<Rightarrow> table_type \<Rightarrow> location \<Rightarrow> table_type parsed" where
  "table_line lines_at tab loc =
     bind_run (parse_key_value_pair (fuel_for loc) 0 loc) (\<lambda>(kv, loc1).
     case kv of
       Inl msg \<Rightarrow> err_at loc1 msg
     | Inr ((keys, key_reg), val) \<Rightarrow>
         bind_run (insert_nested_key (\<lambda>l. parse_inline_table (fuel_for l) 0 l) tab val keys key_reg False) (\<lambda>inserted.
         case inserted of
           Inl msg \<Rightarrow> err_at loc1 msg
         | Inr tab' \<Rightarrow> after_pair lines_at tab' loc1))"

text \<open>The pairs of a table up to the next header; each round passes at least a character.\<close>

primrec ml_table_loop :: "nat \<Rightarrow> table_type \<Rightarrow> location \<Rightarrow> table_type parsed" where
  "ml_table_loop 0 tab loc = Inl Diverge"
| "ml_table_loop (Suc n) tab loc =
     (if loc = [] then ok_at loc tab
      else let start = skip lex_ws loc in
        bind_run (parse_array_table_key start) (\<lambda>(tmp, loc1).
        case tmp of
          Inr x \<Rightarrow> ok_at start tab
        | Inl e \<Rightarrow>
            bind_run (parse_table_key loc1) (\<lambda>(tmp', loc2).
            case tmp' of
              Inr x \<Rightarrow> ok_at start tab
            | Inl e' \<Rightarrow> table_line (ml_table_loop n) tab loc2)))"

definition parse_ml_table :: "location \<Rightarrow> table_type parsed" where
  "parse_ml_table loc =
     (if loc = [] then ok_at loc []
      else let loc1 = skip lex_ws (skip skip_line loc) in ml_table_loop (Suc (length loc1)) [] loc1)"

definition lex_first_comments :: lexer where
  "lex_first_comments = lex_sequence [
     repeat_at_least 1 (lex_sequence [maybe lex_ws, lex_comment, lex_newline]), lex_sequence [maybe lex_ws, lex_newline]]"

text \<open>One header with the table below it, which is inserted into the file.\<close>

definition insert_section ::
    "bool \<Rightarrow> string list \<times> region \<Rightarrow> table_type \<Rightarrow> location \<Rightarrow> table_type parsed" where
  "insert_section aot key data loc =
     bind_run (parse_ml_table loc) (\<lambda>(tab, loc1).
     case tab of
       Inl e \<Rightarrow> err_at loc1 e
     | Inr t \<Rightarrow>
         bind_run (insert_nested_key (\<lambda>l. parse_inline_table (fuel_for l) 0 l) data (TTable t (snd key)) (fst key) (snd key) aot) (\<lambda>inserted.
         case inserted of Inl e \<Rightarrow> err_at loc1 e | Inr data' \<Rightarrow> ok_at loc1 data'))"

fun sections_loop :: "nat \<Rightarrow> table_type \<Rightarrow> location \<Rightarrow> table_type parsed" where
  "sections_loop 0 data loc = Inl Diverge"
| "sections_loop (Suc n) data loc =
     (if loc = [] then ok_at loc data
      else
        bind_run (parse_array_table_key loc) (\<lambda>(atabkey, loc1).
        case atabkey of
          Inr tk \<Rightarrow>
            bind_run (insert_section True tk data loc1) (\<lambda>(res, loc2).
            case res of Inl e \<Rightarrow> err_at loc2 e | Inr data' \<Rightarrow> sections_loop n data' loc2)
        | Inl e \<Rightarrow>
            bind_run (parse_table_key loc1) (\<lambda>(tabkey, loc2).
            case tabkey of
              Inr tk \<Rightarrow>
                bind_run (insert_section False tk data loc2) (\<lambda>(res, loc3).
                case res of Inl e \<Rightarrow> err_at loc3 e | Inr data' \<Rightarrow> sections_loop n data' loc3)
            | Inl e' \<Rightarrow> err_at loc2 ''toml::parse_toml_file: unknown line appeared'')))"

text \<open>Comments are passed over: the program's values discard them.\<close>

definition parse_toml_file :: "location \<Rightarrow> toml_value parsed" where
  "parse_toml_file loc =
     (if loc = [] then ok_at loc (TTable [] [])
      else let file = take 1 loc; loc1 = skip lex_first_comments loc in
        bind_run (parse_ml_table loc1) (\<lambda>(tab, loc2).
        case tab of
          Inl e \<Rightarrow> err_at loc2 e
        | Inr data \<Rightarrow>
            bind_run (sections_loop (Suc (length loc2)) data loc2) (\<lambda>(res, loc3).
            Inr (map_sum id (\<lambda>data'. TTable data' file) res, loc3))))"

definition with_final_newline :: "string \<Rightarrow> string" where
  "with_final_newline letters =
     (if letters \<noteq> [] \<and> last letters \<noteq> newline_char \<and> last letters \<noteq> carriage_return
      then letters @ [newline_char] else letters)"

definition skip_bom :: "string \<Rightarrow> location" where
  "skip_bom letters =
     (if take 3 letters = [CHR 0xEF, CHR 0xBB, CHR 0xBF] then drop 3 letters else letters)"

definition parse_letters :: "string \<Rightarrow> toml_value run" where
  "parse_letters letters =
     bind_run (parse_toml_file (skip_bom (with_final_newline letters))) (\<lambda>(data, loc).
     case data of Inr v \<Rightarrow> Inr v | Inl msg \<Rightarrow> throw_syntax msg)"

text \<open>The files that can be opened, with their contents.\<close>

definition toml_parse :: "(string \<Rightarrow> string option) \<Rightarrow> string \<Rightarrow> toml_value run" where
  "toml_parse files fname =
     (case files fname of
        None \<Rightarrow> Inl (Uncaught (Runtime_error (''toml::parse: Error opening file '' @ [quote_char] @ fname @ [quote_char])))
      | Some letters \<Rightarrow> parse_letters letters)"

section \<open>The equations of the parsers\<close>

lemma no_fuel [simp]:
  "parse_value 0 n_rec loc = Inl Diverge" "parse_array 0 n_rec loc = Inl Diverge"
  "array_loop 0 n_rec first retval loc = Inl Diverge" "parse_key_value_pair 0 n_rec loc = Inl Diverge"
  "parse_inline_table 0 n_rec loc = Inl Diverge" "inline_table_loop 0 n_rec first tab loc = Inl Diverge"
  by (simp_all add: parse_value_def parse_array_def array_loop_def parse_key_value_pair_def parse_inline_table_def
      inline_table_loop_def no_parsers_def)

lemma parser_equations:
  "parse_value (Suc n) n_rec = value_body (parse_array n n_rec) (parse_inline_table n n_rec)"
  "parse_array (Suc n) n_rec = array_body (array_loop n n_rec) n_rec"
  "array_loop (Suc n) n_rec first = array_round (parse_value n (n_rec + 1)) (array_loop n n_rec first) first"
  "parse_key_value_pair (Suc n) n_rec = pair_body (parse_value n n_rec)"
  "parse_inline_table (Suc n) n_rec = inline_body (inline_table_loop n n_rec) n_rec"
  "inline_table_loop (Suc n) n_rec first =
     inline_round (parse_key_value_pair n (n_rec + 1)) (parse_inline_table n 0) (inline_table_loop n n_rec first) first"
  by (simp_all add: parse_value_def parse_array_def array_loop_def parse_key_value_pair_def parse_inline_table_def
      inline_table_loop_def next_parsers_def)

end
