(* ===== verification/Toml_Ends.thy ===== *)
theory Toml_Ends
  imports Toml_Parser
begin

text \<open>
  The parser of \<^verbatim>\<open>toml11\<close> ends on every text: its loops make progress, the fuel of the model is enough,
  and where it gives no value it has thrown an exception or asked an empty array for its last element.
\<close>

section \<open>Parsers that move on\<close>

definition fine :: "fault \<Rightarrow> bool" where
  "fine f \<longleftrightarrow> f = Out_of_bounds \<or> (\<exists>e. f = Uncaught e)"

text \<open>A parser that succeeds has moved on, over at least the region of its result; one that fails has not moved back.\<close>

definition moves :: "('a \<Rightarrow> region) \<Rightarrow> location \<Rightarrow> 'a parsed \<Rightarrow> bool" where
  "moves rg loc m \<longleftrightarrow>
     (case m of
        Inl f \<Rightarrow> fine f
      | Inr (res, loc') \<Rightarrow> length loc' \<le> length loc \<and>
          (case res of Inl e \<Rightarrow> True | Inr x \<Rightarrow> length loc' < length loc \<and> length (rg x) + length loc' \<le> length loc))"

definition runs :: "'a run \<Rightarrow> bool" where
  "runs m \<longleftrightarrow> (case m of Inl f \<Rightarrow> fine f | Inr x \<Rightarrow> True)"

named_theorems moving \<open>parsers that move on\<close>

lemma fine_simps [simp]:
  "fine Out_of_bounds" "fine (Uncaught e)" "\<not> fine Diverge"
  by (auto simp: fine_def)

lemma moves_simps [simp]:
  "moves rg loc (Inl f) = fine f"
  "moves rg loc (Inr (Inl e, loc')) = (length loc' \<le> length loc)"
  "moves rg loc (Inr (Inr x, loc')) = (length loc' < length loc \<and> length (rg x) + length loc' \<le> length loc)"
  "moves rg loc (err_at loc' msg) = (length loc' \<le> length loc)"
  "moves rg loc (ok_at loc' x) = (length loc' < length loc \<and> length (rg x) + length loc' \<le> length loc)"
  "moves rg loc (throw_syntax msg)" "moves rg loc (throw_internal msg)"
  by (auto simp: moves_def err_at_def ok_at_def throw_syntax_def throw_internal_def)

lemma runs_simps [simp]:
  "runs (Inl f) = fine f" "runs (Inr x)" "runs (throw_syntax msg)" "runs (throw_internal msg)" "runs (ok_at loc y)"
  "runs (err_at loc msg)"
  by (auto simp: runs_def throw_syntax_def throw_internal_def ok_at_def err_at_def)

lemma runs_bind: "runs m \<Longrightarrow> (\<And>x. m = Inr x \<Longrightarrow> runs (f x)) \<Longrightarrow> runs (bind_run m f)"
  by (cases m) auto

lemma moves_bind_run: "runs m \<Longrightarrow> (\<And>x. m = Inr x \<Longrightarrow> moves rg loc (f x)) \<Longrightarrow> moves rg loc (bind_run m f)"
  by (cases m) auto

text \<open>After a parser that moved on, the next one starts at what is left.\<close>

lemma moves_bind:
  assumes "moves rg loc m"
    and "\<And>e loc'. m = Inr (Inl e, loc') \<Longrightarrow> length loc' \<le> length loc \<Longrightarrow> moves rg' loc (f (Inl e, loc'))"
    and "\<And>x loc'. m = Inr (Inr x, loc') \<Longrightarrow> length loc' < length loc \<Longrightarrow> length (rg x) + length loc' \<le> length loc \<Longrightarrow>
       moves rg' loc (f (Inr x, loc'))"
  shows "moves rg' loc (bind_run m f)"
proof (cases m)
  case (Inr y)
  then show ?thesis using assms by (cases y; cases "fst y") auto
qed (use assms(1) in simp)

lemma moves_runs: "moves rg loc m \<Longrightarrow> runs m"
  by (auto simp: moves_def runs_def split: sum.splits)

lemma moves_later: "moves rg loc m \<Longrightarrow> length loc \<le> length loc' \<Longrightarrow> moves rg loc' m"
  by (auto simp: moves_def split: sum.splits)

lemma lexed: "consuming_lexer T \<Longrightarrow> T loc = (Some r, loc') \<Longrightarrow> length loc = length r + length loc' \<and> r \<noteq> []"
  using consuming_result [of T loc] by auto

lemma lexed_le: "lexer T \<Longrightarrow> T loc = (x, loc') \<Longrightarrow> length loc' \<le> length loc"
  by (rule lexer.shorter)

lemma skip_le: "lexer T \<Longrightarrow> length (skip T loc) \<le> length loc"
  using lexer.shorter [of T loc "fst (T loc)" "snd (T loc)"] by (simp add: skip_def)

lemma not_lexed: "lexer T \<Longrightarrow> T loc = (None, loc') \<Longrightarrow> loc' = loc"
  by (rule lexer.fails_back)

section \<open>Booleans, numbers, dates and times\<close>

lemma moves_boolean [moving]: "moves snd loc (parse_boolean loc)"
  using lexed [OF consuming_tokens(10), of loc] by (auto simp: parse_boolean_def split: prod.split option.split)

lemma runs_bin_loop: "runs (bin_loop cs retval base)"
  by (induction cs retval base rule: bin_loop.induct) auto

lemma moves_binary [moving]: "moves snd loc (parse_binary_integer loc)"
  using lexed [OF consuming_tokens(5), of loc]
  by (auto simp: parse_binary_integer_def Let_def runs_bin_loop intro!: moves_bind_run split: prod.split option.split)

lemma moves_octal [moving]: "moves snd loc (parse_octal_integer loc)"
  using lexed [OF consuming_tokens(6), of loc] by (auto simp: parse_octal_integer_def split: prod.split option.split)

lemma moves_hexadecimal [moving]: "moves snd loc (parse_hexadecimal_integer loc)"
  using lexed [OF consuming_tokens(7), of loc] by (auto simp: parse_hexadecimal_integer_def split: prod.split option.split)

lemma moves_decimal [moving]: "moves snd loc (parse_decimal loc)"
  using lexed [OF consuming_tokens(4), of loc] by (auto simp: parse_decimal_def split: prod.split option.split)

lemma moves_integer [moving]: "moves snd loc (parse_integer loc)"
  by (auto simp: parse_integer_def moving split: list.split)

lemma moves_floating [moving]: "moves snd loc (parse_floating loc)"
  using lexed [OF consuming_tokens(9), of loc] by (auto simp: parse_floating_def split: prod.split option.split)

lemma runs_lex_then: "runs (lex_then T c msg loc)" "runs (lex_or_throw T msg loc)"
  by (auto simp: lex_then_def lex_or_throw_def split: prod.split option.split list.split)

lemma moves_local_date [moving]: "moves snd loc (parse_local_date loc)"
  using lexed [OF consuming_times(3), of loc]
  by (auto simp: parse_local_date_def Let_def runs_lex_then intro!: moves_bind_run split: prod.split option.split)

lemma moves_local_time [moving]: "moves snd loc (parse_local_time loc)"
  using lexed [OF consuming_times(4), of loc]
  by (auto simp: parse_local_time_def Let_def runs_lex_then intro!: moves_bind_run split: prod.split option.split)

lemma moves_local_datetime [moving]: "moves snd loc (parse_local_datetime loc)"
  using lexed [OF consuming_times(2), of loc] moves_runs [OF moves_local_date] moves_runs [OF moves_local_time]
  by (auto simp: parse_local_datetime_def intro!: moves_bind_run split: prod.split option.split sum.split list.split)

lemma moves_offset_datetime [moving]: "moves snd loc (parse_offset_datetime loc)"
  using lexed [OF consuming_times(1), of loc] moves_runs [OF moves_local_datetime]
  by (auto simp: parse_offset_datetime_def Let_def intro!: moves_bind_run split: prod.split option.split sum.split list.split)

section \<open>Strings\<close>

text \<open>
  The inside of a string is lexed as a whole first and read again by a loop; the loop arrives where the
  lexer did.
\<close>

abbreviation stop :: "lexer \<Rightarrow> location \<Rightarrow> location" where
  "stop T loc \<equiv> skip (repeat_unlimited T) loc"

context consuming_lexer
begin

lemma stop_unfold: "stop T loc = (case T loc of (None, loc') \<Rightarrow> loc | (Some r, loc') \<Rightarrow> stop T loc')"
proof (cases "T loc")
  case (Pair x loc')
  then show ?thesis
    using fails_back [of loc loc'] repeat_unlimited_unfold [of loc] by (cases x) (simp_all add: skip_def split: prod.split)
qed

lemma stop_le: "length (stop T loc) \<le> length loc"
  using repeat_unlimited_lexes [of loc] by (auto simp: skip_def)

lemma stop_fails: "T (stop T loc) = (None, stop T loc)"
  using repeat_unlimited_lexes [of loc] result_cases [of "stop T loc"] by (auto simp: skip_def)

lemma repeated: "repeat_unlimited T loc = (x, loc') \<Longrightarrow> loc' = stop T loc \<and> x \<noteq> None"
  using repeat_unlimited_lexes [of loc] by (auto simp: skip_def)

end

text \<open>Where one lexer matches, a wider one matches the same.\<close>

lemma stop_wider:
  assumes "consuming_lexer T" and "consuming_lexer U" and wide: "\<And>loc r loc'. T loc = (Some r, loc') \<Longrightarrow> U loc = (Some r, loc')"
  shows "stop U (stop T loc) = stop U loc"
proof (induction "length loc" arbitrary: loc rule: less_induct)
  case less
  show ?case
  proof (cases "T loc")
    case (Pair x loc')
    show ?thesis
    proof (cases x)
      case (Some r)
      then have "stop U (stop T loc') = stop U loc'"
        using less consuming_lexer.strictly_shorter [OF assms(1)] Pair by blast
      then show ?thesis
        using Pair Some wide [of loc r loc'] consuming_lexer.stop_unfold [OF assms(1), of loc]
          consuming_lexer.stop_unfold [OF assms(2), of loc] by simp
    qed (use Pair consuming_lexer.stop_unfold [OF assms(1), of loc] in simp)
  qed
qed

interpretation basic_char: consuming_lexer lex_basic_char by (rule lexer_rules)
interpretation basic_unescaped: consuming_lexer lex_basic_unescaped by (rule lexer_rules)

lemma throws_through [simp]:
  "bind_run (throw_syntax msg) f = throw_syntax msg" "bind_run (throw_internal msg) f = throw_internal msg"
  by (simp_all add: throw_syntax_def throw_internal_def)

lemma runs_utf8_checked: "runs m \<Longrightarrow> runs (utf8_checked token msg m)" "moves rg loc m \<Longrightarrow> moves rg loc (utf8_checked token msg m)"
  by (simp_all add: utf8_checked_def)

lemma runs_close_quotes: "runs (close_quotes q msg delim retval)"
  by (simp add: close_quotes_def)

lemma unicode_lexers_head:
  "c \<noteq> CHR ''u'' \<Longrightarrow> lex_escape_unicode_short (c # rest) = (None, c # rest)"
  "c \<noteq> CHR ''U'' \<Longrightarrow> lex_escape_unicode_long (c # rest) = (None, c # rest)"
  by (simp_all add: lex_escape_unicode_short_def lex_escape_unicode_long_def lex_sequence_def)

definition simple_escape :: "char \<Rightarrow> bool" where
  "simple_escape c \<longleftrightarrow> c \<in> {quote_char, backslash_char, CHR ''b'', CHR ''f'', CHR ''n'', CHR ''r'', CHR ''t''}"

lemma escape_seq_char:
  "lex_escape_seq_char (c # rest) =
     (if simple_escape c then (Some [c], rest)
      else if c = CHR ''u'' then lex_escape_unicode_short (c # rest)
      else if c = CHR ''U'' then lex_escape_unicode_long (c # rest) else (None, c # rest))"
proof -
  have short: "lex_escape_unicode_short loc = (None, l) \<Longrightarrow> l = loc"
    and long: "lex_escape_unicode_long loc = (None, l) \<Longrightarrow> l = loc" for loc l
    using not_lexed [OF consuming_is_lexer] consuming_strings(14,15) by blast+
  show ?thesis
  proof (cases "simple_escape c")
    case True
    then show ?thesis by (auto simp: simple_escape_def lex_escape_seq_char_def)
  next
    case False
    then have "lex_escape_seq_char (c # rest) = either [lex_escape_unicode_short, lex_escape_unicode_long] (c # rest)"
      by (simp add: lex_escape_seq_char_def simple_escape_def)
    then show ?thesis
      using False unicode_lexers_head [of c rest] short [of "c # rest"] long [of "c # rest"]
      by (auto split: prod.split option.split)
  qed
qed

lemma unicode_escape_agrees:
  "T loc = (Some r, loc') \<Longrightarrow> (\<exists>s. unicode_escape T loc = Inr (Inr s, loc')) \<or> (\<exists>e. unicode_escape T loc = Inl (Uncaught e))"
  by (auto simp: unicode_escape_def read_utf8_codepoint_def Let_def ok_at_def throw_syntax_def)

lemma escaped_agrees:
  assumes "lex_escaped loc = (Some r, loc')"
  shows "(\<exists>s. parse_escape_sequence loc = Inr (Inr s, loc')) \<or> (\<exists>e. parse_escape_sequence loc = Inl (Uncaught e))"
proof -
  obtain c rest r' where l: "loc = backslash_char # c # rest" "lex_escape_seq_char (c # rest) = (Some r', loc')"
  proof (cases loc)
    case (Cons b t)
    then have b: "b = backslash_char" "\<exists>r'. lex_escape_seq_char t = (Some r', loc')"
      using assms by (auto simp: lex_escaped_def lex_sequence_def lex_escape_def split: if_splits prod.splits option.splits)
    then show ?thesis using that Cons by (cases t) (auto simp: lex_escape_seq_char_def lex_escape_unicode_short_def
          lex_escape_unicode_long_def lex_sequence_def)
  qed (use assms in \<open>simp add: lex_escaped_def lex_sequence_def lex_escape_def\<close>)
  show ?thesis
  proof (cases "simple_escape c")
    case True
    then have "loc' = rest" using l(2) by (simp add: escape_seq_char)
    then show ?thesis using True l(1) by (auto simp: simple_escape_def parse_escape_sequence_def ok_at_def)
  next
    case False
    then have f: "\<not> (c = backslash_char \<or> c = quote_char \<or> c = CHR ''b'' \<or> c = CHR ''t'' \<or> c = CHR ''n'' \<or> c = CHR ''f'' \<or> c = CHR ''r'')"
      by (auto simp: simple_escape_def)
    show ?thesis
      using l f False unicode_escape_agrees [of _ "c # rest" r' loc']
      by (auto simp: parse_escape_sequence_def escape_seq_char split: if_splits)
  qed
qed

lemma basic_string_loop_runs:
  "stop lex_basic_char inner = quote_char # x \<Longrightarrow> length inner < n \<Longrightarrow> runs (basic_string_loop n retval inner)"
proof (induction n arbitrary: inner retval)
  case (Suc n)
  obtain u where u: "repeat_unlimited lex_basic_unescaped inner = (u, stop lex_basic_unescaped inner)"
    by (metis skip_def prod.collapse)
  let ?l = "stop lex_basic_unescaped inner"
  have wide: "lex_basic_unescaped loc = (Some r, loc') \<Longrightarrow> lex_basic_char loc = (Some r, loc')" for loc r loc'
    by (simp add: lex_basic_char_def)
  have st: "stop lex_basic_char ?l = quote_char # x"
    using stop_wider [OF basic_unescaped.consuming_lexer_axioms basic_char.consuming_lexer_axioms wide] Suc.prems(1) by simp
  have un: "lex_basic_unescaped ?l = (None, ?l)" by (rule basic_unescaped.stop_fails)
  show ?case
  proof (cases "lex_escaped ?l")
    case (Pair y l2)
    show ?thesis
    proof (cases y)
      case None
      then have "?l = quote_char # x"
        using st un Pair basic_char.stop_unfold [of ?l] by (simp add: lex_basic_char_def)
      then show ?thesis
        using u by (simp add: parse_escape_sequence_def err_at_def quote_char_def backslash_char_def lex_quotation_mark_def)
    next
      case (Some r)
      then have l2: "length l2 < length ?l" "stop lex_basic_char l2 = quote_char # x"
        using st un Pair basic_char.stop_unfold [of ?l] lexed [OF consuming_strings(2), of ?l r l2]
        by (auto simp: lex_basic_char_def)
      then have "l2 \<noteq> []" using basic_char.stop_le [of l2] by auto
      moreover have "runs (basic_string_loop n t l2)" for t
        using Suc.IH [OF l2(2)] Suc.prems(2) l2(1) basic_unescaped.stop_le [of inner] by simp
      moreover have "lex_quotation_mark l2 = (None, l3) \<Longrightarrow> l3 = l2" for l3
        using not_lexed [OF consuming_is_lexer [OF consuming_strings(12)]] by blast
      ultimately show ?thesis
        using u escaped_agrees [of ?l r l2] Pair Some by (auto simp: Let_def split: prod.split option.split)
    qed
  qed
qed simp

lemma moves_basic_string [moving]: "moves snd loc (parse_basic_string loc)"
proof (cases "lex_basic_string loc")
  case (Pair y loc')
  show ?thesis
  proof (cases y)
    case (Some token)
    obtain rest where rest: "loc = quote_char # rest" "lex_quotation_mark loc = (Some [quote_char], rest)"
        "stop lex_basic_char rest = quote_char # loc'"
      using Pair Some
      by (cases loc) (auto simp: lex_basic_string_def lex_sequence_def lex_quotation_mark_def skip_def
          split: if_splits prod.splits option.splits elim!: character.elims)
    have "runs (basic_string_loop (Suc (length rest)) [] rest)" by (rule basic_string_loop_runs [OF rest(3)]) simp
    then show ?thesis
      using Pair Some rest(2) lexed [OF consuming_strings(4), of loc token loc']
      by (auto simp: parse_basic_string_def utf8_checked_def simp del: basic_string_loop.simps intro!: moves_bind_run)
  qed (use Pair in \<open>simp add: parse_basic_string_def\<close>)
qed

lemma moves_literal_string [moving]: "moves snd loc (parse_literal_string loc)"
  using lexed [OF consuming_strings(7), of loc]
  by (auto simp: parse_literal_string_def utf8_checked_def split: prod.split option.split)

lemma moves_ml_literal_string [moving]: "moves snd loc (parse_ml_literal_string loc)"
  using lexed [OF consuming_strings(8), of loc]
  by (auto simp: parse_ml_literal_string_def runs_close_quotes intro!: moves_bind_run runs_utf8_checked split: prod.split option.split)

text \<open>The same for a string over several lines, whose items are characters, escapes, newlines and escaped newlines.\<close>

definition ml_item :: lexer where
  "ml_item = either [lex_ml_basic_char, lex_newline, lex_ml_basic_escaped_newline]"

definition ml_plain :: lexer where
  "ml_plain = either [lex_ml_basic_unescaped, lex_newline]"

lemma consuming_ml [lexer_rules]: "consuming_lexer ml_item" "consuming_lexer ml_plain" "consuming_lexer lex_ml_basic_char"
  by (simp_all add: ml_item_def ml_plain_def lexer_rules lex_ml_basic_char_def)

interpretation ml_item: consuming_lexer ml_item by (rule lexer_rules)
interpretation ml_plain: consuming_lexer ml_plain by (rule lexer_rules)

lemma newline_head: "lex_newline loc = (Some r, loc') \<Longrightarrow> \<exists>c rest. loc = c # rest \<and> (c = newline_char \<or> c = carriage_return)"
  by (cases loc) (auto simp: lex_newline_def lex_sequence_def split: if_splits)

lemma backslash_only:
  "c \<noteq> backslash_char \<Longrightarrow> lex_escaped (c # rest) = (None, c # rest)"
  "c \<noteq> backslash_char \<Longrightarrow> lex_ml_basic_escaped_newline (c # rest) = (None, c # rest)"
  by (simp_all add: lex_escaped_def lex_ml_basic_escaped_newline_def lex_sequence_def lex_escape_def)

lemma newline_not_plain:
  "c = newline_char \<or> c = carriage_return \<or> c = backslash_char \<Longrightarrow> lex_ml_basic_unescaped (c # rest) = (None, c # rest)"
  by (auto simp: lex_ml_basic_unescaped_def newline_char_def carriage_return_def backslash_char_def schar_def)

lemma plain_is_item: "ml_plain loc = (Some r, loc') \<Longrightarrow> ml_item loc = (Some r, loc')"
proof -
  assume p: "ml_plain loc = (Some r, loc')"
  show ?thesis
  proof (cases "lex_ml_basic_unescaped loc")
    case (Pair x l)
    show ?thesis
    proof (cases x)
      case None
      then have "l = loc" "lex_newline loc = (Some r, loc')"
        using p Pair not_lexed [OF consuming_is_lexer [OF consuming_strings(9)]] by (auto simp: ml_plain_def split: prod.splits option.splits)
      moreover then obtain c rest where "loc = c # rest" "c = newline_char \<or> c = carriage_return" using newline_head by blast
      moreover then have "lex_escaped loc = (None, loc)"
        using backslash_only(1) [of c rest] by (auto simp: newline_char_def carriage_return_def backslash_char_def)
      ultimately show ?thesis using Pair None by (simp add: ml_item_def lex_ml_basic_char_def)
    qed (use p Pair in \<open>simp add: ml_plain_def ml_item_def lex_ml_basic_char_def\<close>)
  qed
qed

text \<open>An escaped newline is no escape sequence, and the other way round.\<close>

lemma escaped_newline_not_escape:
  assumes "lex_ml_basic_escaped_newline loc = (Some r, loc')"
  shows "\<exists>e. parse_escape_sequence loc = Inr (Inl e, loc)" and "lex_escaped loc = (None, loc)"
proof -
  have ws: "c \<noteq> CHR '' '' \<Longrightarrow> c \<noteq> tab_char \<Longrightarrow> maybe lex_ws (c # rest) = (Some [], c # rest)" for c rest
    by (simp add: maybe_def lex_ws_def repeat_at_least_def lex_wschar_def)
  obtain t where t: "loc = backslash_char # t" using assms backslash_only(2) by (cases loc) (force simp: lex_ml_basic_escaped_newline_def
        lex_sequence_def lex_escape_def)+
  have "t \<noteq> [] \<and> \<not> simple_escape (hd t) \<and> hd t \<noteq> CHR ''u'' \<and> hd t \<noteq> CHR ''U''"
  proof (cases t)
    case Nil
    then show ?thesis using assms t
      by (simp add: lex_ml_basic_escaped_newline_def lex_sequence_def lex_escape_def maybe_def lex_ws_def repeat_at_least_def
          lex_wschar_def lex_newline_def)
  next
    case (Cons c rest)
    have "c = CHR '' '' \<or> c = tab_char \<or> c = newline_char \<or> c = carriage_return"
      using assms t Cons ws [of c rest] newline_head [of t]
      by (auto simp: lex_ml_basic_escaped_newline_def lex_sequence_def lex_escape_def split: prod.splits option.splits)
    then show ?thesis using Cons
      by (auto simp: simple_escape_def quote_char_def backslash_char_def tab_char_def newline_char_def carriage_return_def)
  qed
  then obtain c rest where c: "t = c # rest" "\<not> simple_escape c" "c \<noteq> CHR ''u''" "c \<noteq> CHR ''U''" by (cases t) auto
  show "\<exists>e. parse_escape_sequence loc = Inr (Inl e, loc)"
    using t c by (auto simp: parse_escape_sequence_def simple_escape_def err_at_def)
  show "lex_escaped loc = (None, loc)"
    using t c by (simp add: lex_escaped_def lex_sequence_def lex_escape_def escape_seq_char)
qed

lemma ml_item_after_escape:
  assumes "lex_ml_basic_escaped_newline loc = (Some r, loc')"
  shows "ml_item loc = (Some r, loc')"
proof -
  obtain rest where l: "loc = backslash_char # rest"
    using assms backslash_only(2) by (cases loc) (force simp: lex_ml_basic_escaped_newline_def lex_sequence_def lex_escape_def)+
  have "lex_newline loc = (None, loc)"
    using l by (simp add: lex_newline_def lex_sequence_def newline_char_def carriage_return_def backslash_char_def)
  then show ?thesis
    using assms l escaped_newline_not_escape(2) [OF assms] newline_not_plain [of backslash_char rest]
    by (simp add: ml_item_def lex_ml_basic_char_def)
qed

lemma stop_after_newline: "stop ml_item (snd (lex_ml_basic_escaped_newline loc)) = stop ml_item loc"
proof (cases "lex_ml_basic_escaped_newline loc")
  case (Pair x loc')
  then show ?thesis
    using ml_item_after_escape [of loc _ loc'] ml_item.stop_unfold [of loc]
      not_lexed [OF consuming_is_lexer [OF consuming_strings(10)], of loc loc'] by (cases x) auto
qed

lemma close_matches: "lex_ml_basic_string_close loc = (Some d, x) \<Longrightarrow> \<exists>rest. loc = quote_char # rest"
  by (cases loc) (auto simp: lex_ml_basic_string_close_def lex_sequence_def repeat_exactly_def numeral_3_eq_3 lex_quotation_mark_def
      split: if_splits)

text \<open>At an item that is not plain, an escape sequence and an escaped newline are passed together.\<close>

lemma ml_round:
  assumes "ml_plain loc = (None, loc)" and "ml_item loc = (Some r, loc')"
  shows "(\<exists>e. parse_escape_sequence loc = Inl (Uncaught e)) \<or>
    (\<exists>x loc2. parse_escape_sequence loc = Inr (x, loc2) \<and> stop ml_item (snd (lex_ml_basic_escaped_newline loc2)) = stop ml_item loc \<and>
       length (snd (lex_ml_basic_escaped_newline loc2)) < length loc)"
proof -
  have le: "length (snd (lex_ml_basic_escaped_newline l)) \<le> length l" for l
    using skip_le [OF consuming_is_lexer [OF consuming_strings(10)], of l] by (simp add: skip_def)
  have np: "lex_ml_basic_unescaped loc = (None, loc)" "lex_newline loc = (None, loc)"
    using assms(1) not_lexed [OF consuming_is_lexer [OF consuming_strings(9)], of loc] by (auto simp: ml_plain_def split: prod.splits option.splits)
  have short: "length loc' < length loc" using lexed [OF consuming_ml(1) assms(2)] by auto
  show ?thesis
  proof (cases "lex_escaped loc")
    case (Pair x l)
    show ?thesis
    proof (cases x)
      case (Some r1)
      then have "l = loc'" using Pair assms(2) np by (simp add: ml_item_def lex_ml_basic_char_def)
      moreover have "stop ml_item loc' = stop ml_item loc" using ml_item.stop_unfold [of loc] assms(2) by simp
      ultimately show ?thesis
        using escaped_agrees [of loc r1 l] Pair Some stop_after_newline [of loc'] le [of loc'] short by auto
    next
      case None
      then have e: "lex_ml_basic_escaped_newline loc = (Some r, loc')"
        using Pair assms(2) np not_lexed [OF consuming_is_lexer [OF consuming_strings(2)], of loc l]
        by (simp add: ml_item_def lex_ml_basic_char_def split: prod.splits option.splits)
      then show ?thesis
        using escaped_newline_not_escape(1) [OF e] stop_after_newline [of loc] short by auto
    qed
  qed
qed

lemma ml_basic_string_loop_runs:
  "lex_ml_basic_string_close (stop ml_item inner) = (Some d, x) \<Longrightarrow> length inner < n \<Longrightarrow> runs (ml_basic_string_loop n retval inner)"
proof (induction n arbitrary: inner retval)
  case (Suc n)
  obtain u where u: "repeat_unlimited ml_plain inner = (u, stop ml_plain inner)" by (metis skip_def prod.collapse)
  let ?l = "stop ml_plain inner"
  have st: "stop ml_item ?l = stop ml_item inner"
    by (rule stop_wider [OF ml_plain.consuming_lexer_axioms ml_item.consuming_lexer_axioms plain_is_item])
  have np: "ml_plain ?l = (None, ?l)" by (rule ml_plain.stop_fails)
  note loop = ml_basic_string_loop.simps(2) [folded ml_plain_def]
  show ?case
  proof (cases "ml_item ?l")
    case (Pair y l2)
    show ?thesis
    proof (cases y)
      case None
      then have l: "?l = stop ml_item inner" using st Pair ml_item.stop_unfold [of ?l] by simp
      then obtain rest where rest: "?l = quote_char # rest" using close_matches [OF Suc.prems(1)] by auto
      have "\<exists>e. parse_escape_sequence ?l = Inr (Inl e, ?l)" "lex_ml_basic_escaped_newline ?l = (None, ?l)"
        using rest backslash_only(2) [of quote_char rest] by (auto simp: parse_escape_sequence_def err_at_def quote_char_def backslash_char_def)
      then show ?thesis using u l rest [symmetric] Suc.prems(1) by (auto simp: loop Let_def simp del: ml_basic_string_loop.simps)
    next
      case (Some r)
      consider e where "parse_escape_sequence ?l = Inl (Uncaught e)"
        | z loc2 where "parse_escape_sequence ?l = Inr (z, loc2)"
            "stop ml_item (snd (lex_ml_basic_escaped_newline loc2)) = stop ml_item inner"
            "length (snd (lex_ml_basic_escaped_newline loc2)) < length ?l"
        using ml_round [OF np, of r l2] Pair Some st by auto
      then show ?thesis
      proof cases
        case (2 z loc2)
        let ?l3 = "snd (lex_ml_basic_escaped_newline loc2)"
        have "runs (ml_basic_string_loop n t ?l3)" for t
          using Suc.IH [of ?l3] Suc.prems 2(2,3) ml_plain.stop_le [of inner] by simp
        moreover have "lex_ml_basic_string_close ?l3 = (None, l4) \<Longrightarrow> l4 = ?l3" for l4
          using not_lexed [OF consuming_is_lexer [OF consuming_strings(17)]] by blast
        ultimately show ?thesis
          using u 2(1) by (auto simp: loop Let_def simp del: ml_basic_string_loop.simps split: prod.split option.split)
      qed (use u in \<open>simp add: loop del: ml_basic_string_loop.simps\<close>)
    qed
  qed
qed simp

lemma moves_ml_basic_string [moving]: "moves snd loc (parse_ml_basic_string loc)"
proof (cases "lex_ml_basic_string loc")
  case (Pair y loc')
  show ?thesis
  proof (cases y)
    case (Some token)
    obtain q rest d where rest: "lex_ml_basic_string_open loc = (Some q, rest)"
        "lex_ml_basic_string_close (stop ml_item rest) = (Some d, loc')"
      using Pair Some
      by (auto simp: lex_ml_basic_string_def lex_sequence_def lex_ml_basic_body_def ml_item_def skip_def split: prod.splits option.splits)
    let ?inner = "snd (lex_newline rest)"
    have "stop ml_item ?inner = stop ml_item rest"
    proof (cases "lex_newline rest")
      case (Pair z l)
      show ?thesis
      proof (cases z)
        case None
        then show ?thesis using Pair not_lexed [OF consuming_is_lexer [OF consuming_tokens(3)], of rest l] by simp
      next
        case (Some r)
        then have "ml_plain rest = (Some r, l)"
          using Pair newline_head [of rest r l] newline_not_plain by (auto simp: ml_plain_def)
        then show ?thesis using plain_is_item ml_item.stop_unfold [of rest] Pair by simp
      qed
    qed
    then have "runs (ml_basic_string_loop (Suc (length ?inner)) [] ?inner)"
      using rest(2) by (intro ml_basic_string_loop_runs) auto
    then show ?thesis
      using Pair Some rest(1) lexed [OF consuming_strings(5), of loc token loc']
      by (auto simp: parse_ml_basic_string_def Let_def runs_close_quotes simp del: ml_basic_string_loop.simps
          intro!: moves_bind_run runs_utf8_checked)
  qed (use Pair in \<open>simp add: parse_ml_basic_string_def\<close>)
qed

lemma moves_string [moving]: "moves snd loc (parse_string loc)"
  by (simp add: parse_string_def moving)

section \<open>Keys and headers\<close>

lemma moves_unquoted_key:
  "moves snd loc (case lex_unquoted_key loc of
      (Some reg, l3) \<Rightarrow> ok_at l3 (reg, reg)
    | (None, l3) \<Rightarrow> err_at l3 msg)"
  using lexed [OF consuming_keys(1), of loc] not_lexed [OF consuming_is_lexer [OF consuming_keys(1)], of loc]
  by (cases "lex_unquoted_key loc"; cases "fst (lex_unquoted_key loc)") (auto simp: neq_Nil_conv)

lemma moves_simple_key [moving]: "moves snd loc (parse_simple_key loc)"
  unfolding parse_simple_key_def
proof (rule moves_bind [OF moves_basic_string], goal_cases)
  case outer: (1 e1 l1)
  have "moves snd l1 (bind_run (parse_literal_string l1) (\<lambda>(lstr, loc2).
         case lstr of
           Inr ((s, k), reg) \<Rightarrow> ok_at loc2 (s, reg)
         | Inl e2 \<Rightarrow>
             (case lex_unquoted_key loc2 of
                (Some reg, loc3) \<Rightarrow> ok_at loc3 (reg, reg)
              | (None, loc3) \<Rightarrow> err_at loc3 ''toml::parse_simple_key: the next token is not a simple key'')))"
    by (rule moves_bind [OF moves_literal_string])
      (simp_all add: split_def moves_later [OF moves_unquoted_key [unfolded split_def]])
  with outer(2) show ?case by (simp add: moves_later)
qed (simp add: split_def)

lemma lexer_ws: "lexer lex_ws" "lexer lex_comment" "lexer lex_newline"
  by (simp_all add: lexer_rules)

lemma dotted_loop_runs: "length inner < n \<Longrightarrow> runs (dotted_loop n keys inner)"
proof (induction n arbitrary: keys inner)
  case (Suc n)
  have le: "length (skip lex_ws l) \<le> length l" for l by (rule skip_le [OF lexer_ws(1)])
  show ?case
  proof (cases "parse_simple_key (skip lex_ws inner)")
    case (Inl f)
    then show ?thesis using moves_simple_key [of "skip lex_ws inner"] by simp
  next
    case (Inr y)
    obtain k l where y: "y = (k, l)" by (cases y)
    show ?thesis
    proof (cases k)
      case (Inr kr)
      then have "length l < length inner"
        using moves_simple_key [of "skip lex_ws inner"] \<open>parse_simple_key (skip lex_ws inner) = Inr y\<close> y le [of inner] by simp
      then have "length l2 < n" if "skip lex_ws l = c # l2" for c l2 using that Suc.prems le [of l] by simp
      then show ?thesis using Suc.IH y Inr \<open>parse_simple_key (skip lex_ws inner) = Inr y\<close> by (auto split: list.split prod.split)
    qed (use y \<open>parse_simple_key (skip lex_ws inner) = Inr y\<close> in simp)
  qed
qed simp

lemma moves_key [moving]: "moves snd loc (parse_key loc)"
proof (cases "lex_dotted_key loc")
  case (Pair y loc')
  show ?thesis
  proof (cases y)
    case (Some reg)
    then show ?thesis
      using Pair lexed [OF consuming_keys(3), of loc reg loc'] dotted_loop_runs [of reg "Suc (length reg)" "[]"]
      by (auto simp: parse_key_def simp del: dotted_loop.simps intro!: moves_bind_run)
  next
    case None
    then show ?thesis
      using Pair unfolding parse_key_def by (auto intro!: moves_bind [OF moves_simple_key])
  qed
qed

lemma lexer_newline_after: "lexer lex_newline_after_table_key"
  by (simp add: lex_newline_after_table_key_def lexer_rules)

lemma moves_bracketed_key:
  assumes "consuming_lexer whole"
  shows "moves snd loc (bracketed_key fn whole open_bracket close_bracket loc)"
proof (cases "whole loc")
  case (Pair y loc')
  show ?thesis
  proof (cases y)
    case None
    then show ?thesis using Pair not_lexed [OF consuming_is_lexer [OF assms], of loc loc'] by (simp add: bracketed_key_def)
  next
    case (Some token)
    have "length loc = length token + length loc'" "token \<noteq> []" using lexed [OF assms] Pair Some by auto
    moreover have "length l \<le> length loc'" if "lex_newline_after_table_key loc' = (x, l)" for x l
      by (rule lexed_le [OF lexer_newline_after that])
    ultimately have fin: "moves snd loc
        (if loc' \<noteq> [] then
           (case lex_newline_after_table_key loc' of
              (None, loc3) \<Rightarrow> throw_syntax (fn @ '': newline required after [table.key]'')
            | (Some nl, loc3) \<Rightarrow> ok_at loc3 (ks, token))
         else ok_at loc' (ks, token))" for ks :: "string list"
      by (cases "lex_newline_after_table_key loc'"; cases "fst (lex_newline_after_table_key loc')") (auto simp: neq_Nil_conv)
    show ?thesis
    proof (cases "open_bracket token")
      case (Pair ob l)
      show ?thesis
      proof (cases ob)
        case None
        then show ?thesis using Pair Some \<open>whole loc = (y, loc')\<close> by (simp add: bracketed_key_def)
      next
        case (Some r)
        show ?thesis
        proof (cases l)
          case Nil
          then show ?thesis
            using Pair Some \<open>y = Some token\<close> \<open>whole loc = (y, loc')\<close> by (simp add: bracketed_key_def)
        next
          case (Cons c rest)
          have "bracketed_key fn whole open_bracket close_bracket loc =
              bind_run (parse_key (skip lex_ws l)) (\<lambda>(keys, loc1).
               case keys of
                 Inl e \<Rightarrow> throw_internal (fn @ '': invalid key'')
               | Inr (ks, reg) \<Rightarrow>
                   (case close_bracket (skip lex_ws loc1) of
                      (None, loc2) \<Rightarrow> throw_internal (fn @ '': no closing bracket'')
                    | (Some r2, loc2) \<Rightarrow>
                        if loc' \<noteq> [] then
                          (case lex_newline_after_table_key loc' of
                             (None, loc3) \<Rightarrow> throw_syntax (fn @ '': newline required after [table.key]'')
                           | (Some nl, loc3) \<Rightarrow> ok_at loc3 (ks, token))
                        else ok_at loc' (ks, token)))"
            using Pair Some Cons \<open>y = Some token\<close> \<open>whole loc = (y, loc')\<close> by (simp add: bracketed_key_def)
          moreover have "moves snd loc \<dots>"
          proof (rule moves_bind_run [OF moves_runs [OF moves_key]], goal_cases)
            case (1 x)
            show ?case using fin
              by (cases x; cases "fst x"; cases "close_bracket (skip lex_ws (snd x))"; cases "fst (close_bracket (skip lex_ws (snd x)))")
                (auto simp: split_def simp del: moves_simps(5))
          qed
          ultimately show ?thesis by simp
        qed
      qed
    qed
  qed
qed

lemma moves_table_keys [moving]: "moves snd loc (parse_table_key loc)" "moves snd loc (parse_array_table_key loc)"
  unfolding parse_table_key_def parse_array_table_key_def by (rule moves_bracketed_key; simp add: lexer_rules)+

section \<open>Values, arrays and inline tables\<close>

lemma moves_value_helper:
  assumes "moves snd loc m" and "\<And>x r. get_region (mk x r) = r"
  shows "moves get_region loc (parse_value_helper mk m)"
  unfolding parse_value_helper_def
  by (rule moves_bind [OF assms(1)]) (auto simp: assms(2) split_def)

lemma moves_scalar [moving]: "moves get_region loc (parse_scalar ty loc)"
  by (cases ty) (simp_all add: parse_scalar_def moving moves_value_helper split_def)

lemma guess_value_type_runs: "runs (guess_value_type loc)"
  by (simp add: guess_value_type_def split: list.split)

lemma lexer_ws_newline: "lexer lex_ws_comment_newline" "lexer (maybe lex_ws)"
  by (simp_all add: lex_ws_comment_newline_def lexer_rules)

lemma separators: "consuming_lexer lex_array_separator" "consuming_lexer lex_table_separator" "consuming_lexer lex_keyval_sep"
  by (simp_all add: lex_array_separator_def lex_table_separator_def lex_keyval_sep_def lex_ws_comment_newline_def lexer_rules)

text \<open>A lexer leaves something shorter, at most.\<close>

lemma left_of:
  assumes "T loc = (x, loc')" and "lexer T"
  shows "length loc' \<le> length loc"
  using assms by (rule_tac lexed_le)

lemma region_between_le: "length loc \<le> length first \<Longrightarrow> length (region_between first loc) + length loc \<le> length first"
  by (simp add: region_between_def)

lemma at_char_tl: "at_char p loc \<Longrightarrow> length (tl loc) < length loc"
  by (cases loc) (simp_all add: at_char_def)

lemma moves_closed:
  "at_char p loc \<Longrightarrow> length loc \<le> length first \<Longrightarrow> moves snd first (ok_at (tl loc) (x, region_between first (tl loc)))"
  using at_char_tl [of p loc] region_between_le [of "tl loc" first] by simp

lemma moves_value_body:
  "moves snd loc (array_at loc) \<Longrightarrow> moves snd loc (inline_at loc) \<Longrightarrow> moves get_region loc (value_body array_at inline_at loc)"
  using guess_value_type_runs [of loc]
  by (auto simp: value_body_def moving intro!: moves_bind_run moves_value_helper split: sum.split)

lemma moves_array_body:
  "(\<And>rest. length rest < length loc \<Longrightarrow> moves snd loc (elements_at loc [] rest)) \<Longrightarrow> moves snd loc (array_body elements_at n_rec loc)"
  by (cases loc) (auto simp: array_body_def)

lemma moves_array_separator:
  assumes "length loc < length first"
    and elements: "\<And>r l. length l \<le> length loc \<Longrightarrow> moves snd first (elements_at r l)"
  shows "moves snd first (array_separator elements_at first retval loc)"
proof (cases "lex_array_separator loc")
  case (Pair x l3)
  then have "length l3 \<le> length loc" using left_of consuming_is_lexer separators(1) by blast
  then show ?thesis
    using Pair elements [of l3] skip_le [OF lexer_ws_newline(1), of l3] assms(1)
      moves_closed [of _ "skip lex_ws_comment_newline l3" first]
    by (cases x) (simp_all add: array_separator_def Let_def)
qed

lemma moves_array_round:
  assumes "length loc < length first"
    and val: "\<And>l. length l \<le> length loc \<Longrightarrow> moves get_region l (value_at l)"
    and elements: "\<And>r l. length l < length loc \<Longrightarrow> moves snd first (elements_at r l)"
  shows "moves snd first (array_round value_at elements_at first retval loc)"
proof -
  let ?loc1 = "skip lex_ws_comment_newline loc"
  have le: "length ?loc1 \<le> length loc" by (rule skip_le [OF lexer_ws_newline(1)])
  have "moves snd first (bind_run (value_at ?loc1) (\<lambda>(val, loc2).
             case val of
               Inl e \<Rightarrow> throw_syntax ''toml::parse_array: value having invalid format appeared in an array''
             | Inr v \<Rightarrow> array_separator elements_at first (retval @ [v]) loc2))"
  proof (rule moves_bind_run [OF moves_runs [OF val [OF le]]], goal_cases)
    case (1 x)
    then show ?case
      using val [OF le] le assms(1) moves_array_separator [of "snd x" first elements_at] elements
      by (cases x; cases "fst x") auto
  qed
  then show ?thesis
    using le assms(1) moves_closed [of _ ?loc1 first] by (auto simp: array_round_def Let_def)
qed

section \<open>Insertion\<close>

lemma is_valid_forward_runs:
  "runs (inline_at (get_region v)) \<Longrightarrow> runs (is_valid_forward_table_definition inline_at fwd v keys remaining)"
  unfolding is_valid_forward_table_definition_def
  by (auto intro!: runs_bind moves_runs [OF moves_table_keys(1)] moves_runs [OF moves_table_keys(2)] moves_runs [OF moves_key]
      split: sum.split prod.split)

lemma merge_table_runs: "runs (merge_table t kvs)"
  by (induction t kvs rule: merge_table.induct) auto

lemma redefine_value_runs:
  "runs (inline_at (get_region v)) \<Longrightarrow> runs (redefine_value inline_at x v key_reg keys remaining)"
  by (cases x; cases v)
    (auto simp: redefine_value_def is_valid_forward_runs merge_table_runs intro!: runs_bind)

lemma append_to_array_runs: "runs (append_to_array_of_tables x v)"
  by (auto simp: append_to_array_of_tables_def split: toml_value.split)

lemma insert_along_runs:
  "runs (inline_at (get_region v)) \<Longrightarrow> runs (insert_along inline_at aot v key_reg keys ks tab)"
proof (induction inline_at aot v key_reg keys ks tab rule: insert_along.induct)
  case (2 inline_at aot v key_reg keys k tab)
  then show ?case
    by (auto simp: redefine_value_runs append_to_array_runs intro!: runs_bind split: option.split)
next
  case (3 inline_at aot v key_reg keys k k' ks tab)
  then show ?case
    by (auto intro!: runs_bind split: toml_value.split list.split)
qed simp

lemma insert_nested_key_runs:
  "runs (inline_at (get_region v)) \<Longrightarrow> runs (insert_nested_key inline_at root v keys key_reg aot)"
  by (simp add: insert_nested_key_def insert_along_runs)

section \<open>The functions that call each other\<close>

lemma moves_pair_body:
  assumes "\<And>l. length l < length loc \<Longrightarrow> moves get_region l (value_at l)"
  shows "moves (\<lambda>p. get_region (snd p)) loc (pair_body value_at loc)"
  unfolding pair_body_def
proof (rule moves_bind [OF moves_key], goal_cases)
  case (1 e l)
  have "length l' \<le> length l" if "lex_keyval_sep l = (x, l')" for x l'
    using that left_of consuming_is_lexer separators(3) by blast
  then show ?case using 1 by (cases "lex_keyval_sep l"; cases "fst (lex_keyval_sep l)") (auto simp: no_key_error_def)
next
  case (2 kr l)
  have le: "length l' \<le> length l" if "lex_keyval_sep l = (x, l')" for x l'
    using that left_of consuming_is_lexer separators(3) by blast
  show ?case
  proof (cases "lex_keyval_sep l")
    case (Pair x l2)
    then have l2: "length l2 < length loc" using le [of x l2] 2 by simp
    then show ?thesis
      using Pair assms [OF l2]
      by (cases x) (auto simp: no_separator_error_def no_value_error_def split_def intro!: moves_bind [OF moves_later [OF assms [OF l2]]])
  qed
qed

lemma moves_inline_body:
  assumes "\<And>l. length l < length loc \<Longrightarrow> moves snd loc (pairs_at loc [] l)"
  shows "moves snd loc (inline_body pairs_at n_rec loc)"
proof (cases loc)
  case (Cons c rest)
  have "length (skip (maybe lex_ws) rest) < length loc"
    using skip_le [OF lexer_ws_newline(2), of rest] Cons by simp
  then show ?thesis
    using assms Cons moves_closed [of _ "skip (maybe lex_ws) rest" loc] by (auto simp: inline_body_def Let_def)
qed (simp add: inline_body_def at_char_def)

lemma moves_inline_separator:
  assumes "length loc < length first"
    and pairs: "\<And>t l. length l \<le> length loc \<Longrightarrow> moves snd first (pairs_at t l)"
  shows "moves snd first (inline_separator pairs_at first tab loc)"
proof (cases "lex_table_separator loc")
  case (Pair x l)
  then have "length l \<le> length loc" using left_of consuming_is_lexer separators(2) by blast
  moreover have ws: "length (skip (maybe lex_ws) l) \<le> length l" by (rule skip_le [OF lexer_ws_newline(2)])
  ultimately have "length (skip (maybe lex_ws) l) \<le> length loc" by simp
  then show ?thesis
    using Pair pairs [of "skip (maybe lex_ws) l"] assms(1) region_between_le [of "tl (skip (maybe lex_ws) l)" first]
    by (cases x) (auto simp: inline_separator_def Let_def split: list.split)
qed

lemma moves_inline_round:
  assumes "length loc < length first"
    and pair: "moves (\<lambda>p. get_region (snd p)) loc (pair_at loc)"
    and inline: "\<And>l. length l \<le> length loc \<Longrightarrow> runs (inline_at l)"
    and pairs: "\<And>t l. length l < length loc \<Longrightarrow> moves snd first (pairs_at t l)"
  shows "moves snd first (inline_round pair_at inline_at pairs_at first retval loc)"
proof (cases "loc = []")
  case False
  have "moves snd first (bind_run (pair_at loc) (\<lambda>(kv_r, loc1).
        case kv_r of
          Inl e \<Rightarrow> err_at loc1 e
        | Inr ((keys, key_reg), val) \<Rightarrow>
            bind_run (insert_nested_key inline_at retval val keys key_reg False) (\<lambda>inserted.
            case inserted of
              Inl e \<Rightarrow> throw_internal ''toml::parse_inline_table: failed to insert value into table''
            | Inr tab \<Rightarrow> inline_separator pairs_at first tab loc1)))"
  proof (rule moves_bind_run [OF moves_runs [OF pair]], goal_cases)
    case (1 x)
    obtain kv l where x: "x = (kv, l)" by (cases x)
    show ?case
    proof (cases kv)
      case (Inr p)
      obtain ks kr v where p: "p = ((ks, kr), v)" by (cases p) auto
      have m: "length l < length loc" "length (get_region v) + length l \<le> length loc"
        using pair 1 x Inr p by simp_all
      then have "moves snd first (inline_separator pairs_at first t l)" for t
        using assms(1) pairs by (intro moves_inline_separator) auto
      moreover have "runs (insert_nested_key inline_at retval v ks kr False)"
        using inline m(2) by (intro insert_nested_key_runs) simp
      ultimately show ?thesis using x Inr p by (auto intro!: moves_bind_run split: sum.split)
    qed (use pair 1 x assms(1) in simp)
  qed
  then show ?thesis using False by (simp add: inline_round_def)
qed (simp add: inline_round_def)

text \<open>How much fuel each function needs for a text of a given length.\<close>

definition enough_fuel :: "nat \<Rightarrow> bool" where
  "enough_fuel n \<longleftrightarrow>
     (\<forall>loc n_rec. 4 * length loc + 2 \<le> n \<longrightarrow> moves get_region loc (parse_value n n_rec loc)) \<and>
     (\<forall>loc n_rec. 4 * length loc + 1 \<le> n \<longrightarrow> moves snd loc (parse_array n n_rec loc)) \<and>
     (\<forall>loc n_rec first retval. 4 * length loc + 4 \<le> n \<longrightarrow> length loc < length first \<longrightarrow>
        moves snd first (array_loop n n_rec first retval loc)) \<and>
     (\<forall>loc n_rec. 4 * length loc + 1 \<le> n \<longrightarrow> moves (\<lambda>p. get_region (snd p)) loc (parse_key_value_pair n n_rec loc)) \<and>
     (\<forall>loc n_rec. 4 * length loc + 1 \<le> n \<longrightarrow> moves snd loc (parse_inline_table n n_rec loc)) \<and>
     (\<forall>loc n_rec first tab. 4 * length loc + 4 \<le> n \<longrightarrow> length loc < length first \<longrightarrow>
        moves snd first (inline_table_loop n n_rec first tab loc))"

lemma enough_fuelD:
  assumes "enough_fuel n"
  shows "4 * length loc + 2 \<le> n \<Longrightarrow> moves get_region loc (parse_value n n_rec loc)"
    and "4 * length loc + 1 \<le> n \<Longrightarrow> moves snd loc (parse_array n n_rec loc)"
    and "4 * length loc + 4 \<le> n \<Longrightarrow> length loc < length first \<Longrightarrow> moves snd first (array_loop n n_rec first retval loc)"
    and "4 * length loc + 1 \<le> n \<Longrightarrow> moves (\<lambda>p. get_region (snd p)) loc (parse_key_value_pair n n_rec loc)"
    and "4 * length loc + 1 \<le> n \<Longrightarrow> moves snd loc (parse_inline_table n n_rec loc)"
    and "4 * length loc + 4 \<le> n \<Longrightarrow> length loc < length first \<Longrightarrow> moves snd first (inline_table_loop n n_rec first tab loc)"
  using assms by (auto simp: enough_fuel_def)

lemma enough_fuel: "enough_fuel n"
proof (induction n)
  case (Suc n)
  note IH = enough_fuelD [OF Suc]
  have "moves get_region loc (parse_value (Suc n) n_rec loc)" if "4 * length loc + 2 \<le> Suc n" for loc n_rec
    unfolding parser_equations using that by (intro moves_value_body IH) simp_all
  moreover have "moves snd loc (parse_array (Suc n) n_rec loc)" if "4 * length loc + 1 \<le> Suc n" for loc n_rec
    unfolding parser_equations using that by (intro moves_array_body IH) simp_all
  moreover have "moves snd first (array_loop (Suc n) n_rec first retval loc)"
    if "4 * length loc + 4 \<le> Suc n" "length loc < length first" for loc n_rec first retval
    unfolding parser_equations using that by (intro moves_array_round IH) simp_all
  moreover have "moves (\<lambda>p. get_region (snd p)) loc (parse_key_value_pair (Suc n) n_rec loc)"
    if "4 * length loc + 1 \<le> Suc n" for loc n_rec
    unfolding parser_equations using that by (intro moves_pair_body IH) simp_all
  moreover have "moves snd loc (parse_inline_table (Suc n) n_rec loc)" if "4 * length loc + 1 \<le> Suc n" for loc n_rec
    unfolding parser_equations using that by (intro moves_inline_body IH) simp_all
  moreover have "moves snd first (inline_table_loop (Suc n) n_rec first tab loc)"
    if "4 * length loc + 4 \<le> Suc n" "length loc < length first" for loc n_rec first tab
    unfolding parser_equations using that by (intro moves_inline_round moves_runs [OF IH(5)] IH) simp_all
  ultimately show ?case unfolding enough_fuel_def by blast
qed (simp add: enough_fuel_def)

lemma parse_value_ends: "moves get_region loc (parse_value (fuel_for loc) n_rec loc)"
  by (rule enough_fuelD(1) [OF enough_fuel]) (simp add: fuel_for_def)

lemma parse_pair_ends: "moves (\<lambda>p. get_region (snd p)) loc (parse_key_value_pair (fuel_for loc) n_rec loc)"
  by (rule enough_fuelD(4) [OF enough_fuel]) (simp add: fuel_for_def)

lemma parse_inline_ends: "moves snd loc (parse_inline_table (fuel_for loc) n_rec loc)"
  by (rule enough_fuelD(5) [OF enough_fuel]) (simp add: fuel_for_def)

section \<open>Tables and files\<close>

definition stays :: "location \<Rightarrow> 'a parsed \<Rightarrow> bool" where
  "stays loc m \<longleftrightarrow> (case m of Inl f \<Rightarrow> fine f | Inr (res, loc') \<Rightarrow> length loc' \<le> length loc)"

lemma stays_simps [simp]:
  "stays loc (Inl f) = fine f" "stays loc (Inr (res, loc')) = (length loc' \<le> length loc)"
  "stays loc (err_at loc' msg) = (length loc' \<le> length loc)" "stays loc (ok_at loc' x) = (length loc' \<le> length loc)"
  "stays loc (throw_syntax msg)" "stays loc (throw_internal msg)"
  by (auto simp: stays_def err_at_def ok_at_def throw_syntax_def throw_internal_def)

lemma stays_runs: "stays loc m \<Longrightarrow> runs m"
  by (auto simp: stays_def runs_def split: sum.splits)

lemma stays_later: "stays loc m \<Longrightarrow> length loc \<le> length loc' \<Longrightarrow> stays loc' m"
  by (auto simp: stays_def split: sum.splits)

lemma moves_stays:
  assumes "moves rg loc m"
  shows "stays loc m"
proof (cases m)
  case (Inr y)
  obtain res loc' where "y = (res, loc')" by (cases y)
  then show ?thesis using assms Inr by (cases res) auto
qed (use assms in simp)

lemma stays_bind_run: "runs m \<Longrightarrow> (\<And>x. m = Inr x \<Longrightarrow> stays loc (f x)) \<Longrightarrow> stays loc (bind_run m f)"
  by (cases m) auto

lemma stays_bind:
  assumes "moves rg loc m"
    and "\<And>e loc'. m = Inr (Inl e, loc') \<Longrightarrow> length loc' \<le> length loc \<Longrightarrow> stays loc (f (Inl e, loc'))"
    and "\<And>x loc'. m = Inr (Inr x, loc') \<Longrightarrow> length loc' < length loc \<Longrightarrow> length (rg x) + length loc' \<le> length loc \<Longrightarrow>
       stays loc (f (Inr x, loc'))"
  shows "stays loc (bind_run m f)"
proof (cases m)
  case (Inr y)
  obtain res loc' where y: "y = (res, loc')" by (cases y)
  show ?thesis
  proof (cases res)
    case (Inl e)
    then show ?thesis using assms(1) assms(2) [of e loc'] \<open>m = Inr y\<close> y by simp
  next
    case (Inr x)
    then show ?thesis using assms(1) assms(3) [of x loc'] \<open>m = Inr y\<close> y by simp
  qed
qed (use assms(1) in simp)

lemma lexer_lines: "lexer skip_line" "lexer lex_first_comments"
  by (simp_all add: skip_line_def lex_first_comments_def lexer_rules)

lemma no_newline_error_stays: "length loc' \<le> length loc \<Longrightarrow> stays loc (no_newline_error loc')"
  by (simp add: no_newline_error_def split: list.split)

lemma after_pair_stays:
  assumes "\<And>t l. length l \<le> length loc \<Longrightarrow> stays l (lines_at t l)"
  shows "stays loc (after_pair lines_at tab loc)"
proof -
  have ws: "length (skip lex_comment (skip lex_ws l)) \<le> length l" for l
    using skip_le [OF lexer_ws(1), of l] skip_le [OF lexer_ws(2), of "skip lex_ws l"] by simp
  show ?thesis
  proof (cases "skip_line (skip lex_comment (skip lex_ws loc))")
    case (Pair x l)
    then have l: "length l \<le> length loc" using left_of [OF Pair lexer_lines(1)] ws [of loc] by simp
    then have "length (skip lex_comment (skip lex_ws l)) \<le> length loc" using ws [of l] by simp
    then show ?thesis
      using Pair l assms no_newline_error_stays [OF l] by (auto simp: after_pair_def intro: stays_later)
  qed
qed

lemma table_line_stays:
  assumes "\<And>t l. length l < length loc \<Longrightarrow> stays l (lines_at t l)"
  shows "stays loc (table_line lines_at tab loc)"
  unfolding table_line_def
proof (rule stays_bind [OF parse_pair_ends], goal_cases)
  case (2 p l)
  have "stays loc (after_pair lines_at t l)" for t
    using 2 assms by (intro stays_later [OF after_pair_stays]) auto
  moreover obtain ks kr v where "p = ((ks, kr), v)" by (cases p) auto
  ultimately show ?case
    using 2 by (auto intro!: stays_bind_run insert_nested_key_runs moves_runs [OF parse_inline_ends] split: sum.split)
qed simp

lemma ml_table_loop_stays: "length loc < n \<Longrightarrow> stays loc (ml_table_loop n tab loc)"
proof (induction n arbitrary: tab loc)
  case (Suc n)
  let ?start = "skip lex_ws loc"
  have start: "length ?start \<le> length loc" by (rule skip_le [OF lexer_ws(1)])
  have line: "stays l (table_line (ml_table_loop n) tab l)" if "length l \<le> length loc" for l
    using that Suc by (intro table_line_stays) simp
  show ?case
  proof (cases "loc = []")
    case False
    have "stays ?start (ml_table_loop (Suc n) tab loc)"
      unfolding ml_table_loop.simps Let_def if_not_P [OF False]
    proof (rule stays_bind [OF moves_table_keys(2)], goal_cases)
      case (1 e l)
      then have "length l \<le> length loc" using start by simp
      then have "stays l (bind_run (parse_table_key l) (\<lambda>(tmp', loc2).
            case tmp' of Inr x \<Rightarrow> ok_at l tab | Inl e' \<Rightarrow> table_line (ml_table_loop n) tab loc2))"
        by (intro stays_bind [OF moves_table_keys(1)]) (auto intro: stays_later [OF line])
      then show ?case using 1
        by (cases "parse_table_key l") (auto simp: stays_later split: sum.split)
    qed simp
    then show ?thesis using start by (rule stays_later)
  qed simp
qed simp

lemma parse_ml_table_stays: "stays loc (parse_ml_table loc)"
proof -
  have "length (skip lex_ws (skip skip_line loc)) \<le> length loc"
    using skip_le [OF lexer_ws(1), of "skip skip_line loc"] skip_le [OF lexer_lines(1), of loc] by simp
  from stays_later [OF ml_table_loop_stays this] show ?thesis
    by (simp add: parse_ml_table_def Let_def del: ml_table_loop.simps)
qed

lemma insert_section_stays: "stays loc (insert_section aot key data loc)"
proof (cases "parse_ml_table loc")
  case (Inr y)
  obtain res loc' where "y = (res, loc')" by (cases y)
  then show ?thesis
    using Inr parse_ml_table_stays [of loc]
    by (cases res)
      (auto simp: insert_section_def intro!: stays_bind_run insert_nested_key_runs moves_runs [OF parse_inline_ends] split: sum.split)
qed (use parse_ml_table_stays [of loc] in \<open>simp add: insert_section_def\<close>)

text \<open>After a header and its table, the rest of the file.\<close>

lemma after_section_stays:
  assumes "\<And>d l. length l \<le> length loc \<Longrightarrow> stays l (rest_at d l)"
  shows "stays loc (bind_run (insert_section aot key data loc) (\<lambda>(res, loc').
     case res of Inl e \<Rightarrow> err_at loc' e | Inr data' \<Rightarrow> rest_at data' loc'))"
proof (cases "insert_section aot key data loc")
  case (Inr y)
  obtain res loc' where y: "y = (res, loc')" by (cases y)
  then have "length loc' \<le> length loc" using Inr insert_section_stays [of loc aot key data] by simp
  then show ?thesis using Inr y assms by (cases res) (auto intro: stays_later)
qed (use insert_section_stays [of loc aot key data] in simp)

lemma sections_loop_stays: "length loc < n \<Longrightarrow> stays loc (sections_loop n data loc)"
proof (induction n arbitrary: data loc)
  case (Suc n)
  have sect: "stays l (bind_run (insert_section aot key data l) (\<lambda>(res, loc2).
      case res of Inl e \<Rightarrow> err_at loc2 e | Inr data' \<Rightarrow> sections_loop n data' loc2))"
    if "length l < length loc" for l aot key
    using that Suc by (intro after_section_stays) simp
  show ?case
  proof (cases "loc = []")
    case False
    show ?thesis
      unfolding sections_loop.simps if_not_P [OF False]
    proof (rule stays_bind [OF moves_table_keys(2)], goal_cases)
      case (1 e l)
      have "stays l (bind_run (parse_table_key l) (\<lambda>(tabkey, loc2).
            case tabkey of
              Inr tk \<Rightarrow>
                bind_run (insert_section False tk data loc2) (\<lambda>(res, loc3).
                case res of Inl e \<Rightarrow> err_at loc3 e | Inr data' \<Rightarrow> sections_loop n data' loc3)
            | Inl e' \<Rightarrow> err_at loc2 ''toml::parse_toml_file: unknown line appeared''))"
        using 1 by (intro stays_bind [OF moves_table_keys(1)]) (auto intro!: stays_later [OF sect])
      then show ?case using 1 by (simp add: stays_later)
    next
      case (2 x l)
      then show ?case by (simp add: stays_later [OF sect])
    qed
  qed simp
qed simp

lemma parse_toml_file_runs: "runs (parse_toml_file loc)"
  by (auto simp: parse_toml_file_def Let_def simp del: sections_loop.simps
      intro!: runs_bind stays_runs [OF parse_ml_table_stays] stays_runs [OF sections_loop_stays] split: sum.split)

lemma toml_parse_runs: "runs (toml_parse files fname)"
proof -
  have "runs (parse_letters letters)" for letters
    unfolding parse_letters_def by (auto intro!: runs_bind parse_toml_file_runs split: sum.split)
  then show ?thesis by (simp add: toml_parse_def split: option.split)
qed


end
