(* ===== verification/Fmt_Int.thy ===== *)
theory Fmt_Int
  imports Prelude
begin

text \<open>
  The integer formatting of \<^verbatim>\<open>fmt\<close> (\<^verbatim>\<open>spdlog/fmt/bundled/format.h\<close>), which writes the numbers
  of the log lines: two digits at a time from the end of a fixed buffer to its front, and
  the number of digits of an integer from the position of its highest bit and a table.
  The reference is the decimal notation of a number, one digit at a time.
\<close>

section \<open>Decimal notation\<close>

definition digit :: "nat \<Rightarrow> char" where
  "digit d = char_of (48 + d)"

fun decimal :: "nat \<Rightarrow> string" where
  "decimal n = (if n < 10 then [digit n] else decimal (n div 10) @ [digit (n mod 10)])"

declare decimal.simps [simp del]

section \<open>format\_decimal and format\_int\<close>

definition digits2_table :: string where
  "digits2_table =
     ''0001020304050607080910111213141516171819'' @
     ''2021222324252627282930313233343536373839'' @
     ''4041424344454647484950515253545556575859'' @
     ''6061626364656667686970717273747576777879'' @
     ''8081828384858687888990919293949596979899''"

definition digits2 :: "nat \<Rightarrow> string" where
  "digits2 value = take 2 (drop (value * 2) digits2_table)"

text \<open>
  \<open>out\<close> is the index of the buffer the next character is written before, \<open>written\<close> what
  stands from there on.
\<close>

fun format_decimal_loop :: "nat \<Rightarrow> nat \<Rightarrow> string \<Rightarrow> (nat \<times> string) run" where
  "format_decimal_loop out value written =
     (if value \<ge> 100 then
        guard_run Out_of_bounds (2 \<le> out)
          (format_decimal_loop (out - 2) (value div 100) (digits2 (value mod 100) @ written))
      else if value < 10 then
        guard_run Out_of_bounds (1 \<le> out) (Inr (out - 1, digit value # written))
      else guard_run Out_of_bounds (2 \<le> out) (Inr (out - 2, digits2 value @ written)))"

declare format_decimal_loop.simps [simp del]

definition format_decimal :: "nat \<Rightarrow> nat \<Rightarrow> (nat \<times> string) run" where
  "format_decimal value room = format_decimal_loop room value []"

text \<open>\<^verbatim>\<open>digits10 + 3\<close> characters: all digits of 64 bits, a sign and a NUL.\<close>

definition buffer_size :: nat where
  "buffer_size = 22"

definition format_unsigned :: "nat \<Rightarrow> (nat \<times> string) run" where
  "format_unsigned n = format_decimal n (buffer_size - 1)"

definition format_signed :: "'a::len word \<Rightarrow> (nat \<times> string) run" where
  "format_signed value =
     (let negative = sint value < 0;
          abs_value = (if negative then 0 - value else value)
      in bind_run (format_unsigned (unat abs_value)) (\<lambda>(out, s).
         if negative then guard_run Out_of_bounds (1 \<le> out) (Inr (out - 1, CHR ''-'' # s))
         else Inr (out, s)))"

section \<open>count\_digits\<close>

fun count_digits_loop :: "nat \<Rightarrow> nat \<Rightarrow> nat" where
  "count_digits_loop n cnt =
     (if n < 10 then cnt
      else if n < 100 then cnt + 1
      else if n < 1000 then cnt + 2
      else if n < 10000 then cnt + 3
      else count_digits_loop (n div 10000) (cnt + 4))"

declare count_digits_loop.simps [simp del]

definition count_digits_fallback :: "nat \<Rightarrow> nat" where
  "count_digits_fallback n = count_digits_loop n 1"

text \<open>The compiler's \<^verbatim>\<open>__builtin_clz\<close> for a width: the zero bits above the highest one bit.\<close>

fun highest_bit :: "nat \<Rightarrow> nat" where
  "highest_bit n = (if n \<le> 1 then 0 else Suc (highest_bit (n div 2)))"

declare highest_bit.simps [simp del]

definition builtin_clz :: "nat \<Rightarrow> nat \<Rightarrow> nat" where
  "builtin_clz w n = w - 1 - highest_bit n"

definition bsr2log10 :: "nat list" where
  "bsr2log10 =
     [1,  1,  1,  2,  2,  2,  3,  3,  3,  4,  4,  4,  4,  5,  5,  5,
      6,  6,  6,  7,  7,  7,  7,  8,  8,  8,  9,  9,  9,  10, 10, 10,
      10, 11, 11, 11, 12, 12, 12, 13, 13, 13, 13, 14, 14, 14, 15, 15,
      15, 16, 16, 16, 16, 17, 17, 17, 18, 18, 18, 19, 19, 19, 19, 20]"

definition powers_of_10 :: "nat \<Rightarrow> nat list" where
  "powers_of_10 factor =
     [factor * 10, factor * 100, factor * 1000, factor * 10000, factor * 100000, factor * 1000000,
      factor * 10000000, factor * 100000000, factor * 1000000000]"

definition zero_or_powers_of_10 :: "nat list" where
  "zero_or_powers_of_10 = [0, 0] @ powers_of_10 1 @ powers_of_10 1000000000 @ [10000000000000000000]"

definition do_count_digits64 :: "nat \<Rightarrow> nat" where
  "do_count_digits64 n =
     (let t = bsr2log10 ! (builtin_clz 64 (n OR 1) XOR 63)
      in t - (if n < zero_or_powers_of_10 ! t then 1 else 0))"

text \<open>The 32-bit version: \<^verbatim>\<open>FMT_INC(T)\<close> from the number of characters of \<open>T\<close> and \<open>T\<close>.\<close>

definition fmt_inc :: "nat \<Rightarrow> nat \<Rightarrow> u64" where
  "fmt_inc chars t = push_bit 32 (of_nat chars) - of_nat t"

definition count_digits_table :: "u64 list" where
  "count_digits_table =
     [fmt_inc 1 0,          fmt_inc 1 0,          fmt_inc 1 0,
      fmt_inc 2 10,         fmt_inc 2 10,         fmt_inc 2 10,
      fmt_inc 3 100,        fmt_inc 3 100,        fmt_inc 3 100,
      fmt_inc 4 1000,       fmt_inc 4 1000,       fmt_inc 4 1000,
      fmt_inc 5 10000,      fmt_inc 5 10000,      fmt_inc 5 10000,
      fmt_inc 6 100000,     fmt_inc 6 100000,     fmt_inc 6 100000,
      fmt_inc 7 1000000,    fmt_inc 7 1000000,    fmt_inc 7 1000000,
      fmt_inc 8 10000000,   fmt_inc 8 10000000,   fmt_inc 8 10000000,
      fmt_inc 9 100000000,  fmt_inc 9 100000000,  fmt_inc 9 100000000,
      fmt_inc 10 1000000000, fmt_inc 10 1000000000, fmt_inc 10 1000000000,
      fmt_inc 10 1000000000, fmt_inc 10 1000000000]"

definition do_count_digits32 :: "u32 \<Rightarrow> u32" where
  "do_count_digits32 n =
     (let inc = count_digits_table ! (builtin_clz 32 (unat n OR 1) XOR 31)
      in ucast (drop_bit 32 (ucast n + inc)))"

section \<open>The decimal notation\<close>

lemma decimal_nonempty [simp]: "decimal n \<noteq> []" "[] \<noteq> decimal n"
  by (simp_all add: decimal.simps [of n])

lemma decimal_digit: "n < 10 \<Longrightarrow> decimal n = [digit n]"
  by (simp add: decimal.simps)

lemma decimal_step: "10 \<le> n \<Longrightarrow> decimal n = decimal (n div 10) @ [digit (n mod 10)]"
  by (simp add: decimal.simps [of n])

lemma length_decimal_less: "n < 10 ^ k \<Longrightarrow> 0 < k \<Longrightarrow> length (decimal n) \<le> k"
proof (induction k arbitrary: n)
  case (Suc k)
  show ?case
  proof (cases "n < 10")
    case False
    then have "n div 10 < 10 ^ k" and "0 < k" using Suc.prems(1) by (cases k; simp)+
    then show ?thesis using Suc.IH False by (simp add: decimal_step)
  qed (simp add: decimal_digit)
qed simp

lemma length_decimal_ge: "10 ^ k \<le> n \<Longrightarrow> Suc k \<le> length (decimal n)"
proof (induction k arbitrary: n)
  case (Suc k)
  have "10 \<le> 10 * (10::nat) ^ k" using mult_le_mono2 [of 1 "10 ^ k" 10] by simp
  also have "\<dots> \<le> n" using Suc.prems by simp
  finally have "10 \<le> n" .
  moreover have "10 ^ k \<le> n div 10" using div_le_mono [OF Suc.prems, of 10] by simp
  ultimately show ?case using Suc.IH by (simp add: decimal_step)
qed (simp add: Suc_le_eq)

lemma length_decimal: "10 ^ k \<le> n \<Longrightarrow> n < 10 ^ Suc k \<Longrightarrow> length (decimal n) = Suc k"
  using length_decimal_less [of n "Suc k"] length_decimal_ge [of k n] by simp

lemma take_drop_concat_pairs:
  assumes "\<And>x. length (f x) = 2" and "v < length xs"
  shows "take 2 (drop (v * 2) (concat (map f xs))) = f (xs ! v)"
  using assms(2)
proof (induction xs arbitrary: v)
  case (Cons x xs)
  then show ?case using assms(1) by (cases v) simp_all
qed simp

lemma digits2_table_eq: "digits2_table = concat (map (\<lambda>v. [digit (v div 10), digit (v mod 10)]) [0..<100])"
  by code_simp

lemma digits2_digits:
  assumes "v < 100"
  shows "digits2 v = [digit (v div 10), digit (v mod 10)]"
  using take_drop_concat_pairs [of "\<lambda>v. [digit (v div 10), digit (v mod 10)]" v "[0..<100]"] assms
  by (simp add: digits2_def digits2_table_eq)

lemma decimal_digits2: "v < 100 \<Longrightarrow> 10 \<le> v \<Longrightarrow> decimal v = digits2 v"
  by (simp add: decimal_step decimal_digit digits2_digits)

lemma decimal_pair: "100 \<le> n \<Longrightarrow> decimal n = decimal (n div 100) @ digits2 (n mod 100)"
proof -
  assume n: "100 \<le> n"
  have "n div 10 div 10 = n div 100" by (simp add: div_mult2_eq [symmetric])
  moreover have "n div 10 mod 10 = n mod 100 div 10" using mod_mult2_eq [of n 10 10] by simp
  ultimately show ?thesis
    using n by (simp add: decimal_step digits2_digits mod_mod_cancel)
qed

lemma decimal_inject: "decimal m = decimal n \<Longrightarrow> m = n"
proof (induction m arbitrary: n rule: decimal.induct)
  case (1 m)
  have inj: "digit a = digit b \<Longrightarrow> a < 10 \<Longrightarrow> b < 10 \<Longrightarrow> a = b" for a b
    by (simp add: digit_def char_of_eq_iff take_bit_eq_mod)
  show ?case
  proof (cases "m < 10 \<or> n < 10")
    case True
    then show ?thesis using "1.prems" inj [of m n]
      by (cases "m < 10"; cases "n < 10") (simp_all add: decimal_digit decimal_step)
  next
    case False
    then have "decimal (m div 10) = decimal (n div 10)" "digit (m mod 10) = digit (n mod 10)"
      using "1.prems" by (simp_all add: decimal_step)
    then have "m div 10 = n div 10" "m mod 10 = n mod 10" using "1.IH" False inj by simp_all
    then show ?thesis by (metis div_mult_mod_eq)
  qed
qed

section \<open>Two digits at a time\<close>

lemma format_decimal_loop_eq:
  assumes "length (decimal value) \<le> out"
  shows "format_decimal_loop out value written = Inr (out - length (decimal value), decimal value @ written)"
  using assms
proof (induction out "value" written rule: format_decimal_loop.induct)
  case (1 out v written)
  show ?case
  proof (cases "v < 100")
    case True
    then show ?thesis
      using "1.prems" by (cases "v < 10") (simp_all add: format_decimal_loop.simps decimal_digit decimal_digits2
          digits2_digits)
  next
    case False
    then have d: "decimal v = decimal (v div 100) @ digits2 (v mod 100)" and l: "length (digits2 (v mod 100)) = 2"
      by (simp_all add: decimal_pair digits2_digits)
    then have "length (decimal (v div 100)) \<le> out - 2" "2 \<le> out" using "1.prems" by simp_all
    with "1.IH" False d l show ?thesis
      by (simp add: format_decimal_loop.simps [of out])
  qed
qed

lemma length_decimal_64: "n < 2 ^ 64 \<Longrightarrow> length (decimal n) \<le> 20"
  by (rule length_decimal_less) simp_all

lemma format_unsigned_eq: "n < 2 ^ 64 \<Longrightarrow> format_unsigned n = Inr (21 - length (decimal n), decimal n)"
  using length_decimal_64 [of n] by (simp add: format_unsigned_def format_decimal_def buffer_size_def format_decimal_loop_eq)

section \<open>Counting digits\<close>

lemma count_digits_loop_eq: "Suc (count_digits_loop n k) = length (decimal n) + k"
proof (induction n k rule: count_digits_loop.induct)
  case (1 n k)
  have four: "length (decimal n) = length (decimal (n div 10000)) + 4" if "10000 \<le> n"
    using that by (simp add: decimal_pair digits2_digits div_mult2_eq [symmetric])
  show ?case
  proof (cases "n < 10000")
    case True
    then consider "n < 10" | "10 \<le> n" "n < 100" | "100 \<le> n" "n < 1000" | "1000 \<le> n" "n < 10000" by linarith
    then show ?thesis
      using length_decimal [of 1 n] length_decimal [of 2 n] length_decimal [of 3 n]
      by cases (simp_all add: count_digits_loop.simps [of n] decimal_digit)
  next
    case False
    then show ?thesis using "1.IH" four by (simp add: count_digits_loop.simps [of n])
  qed
qed

lemma highest_bit_bounds: "0 < n \<Longrightarrow> 2 ^ highest_bit n \<le> n \<and> n < 2 ^ Suc (highest_bit n)"
proof (induction n rule: highest_bit.induct)
  case (1 n)
  show ?case
  proof (cases "n \<le> 1")
    case True
    with 1 show ?thesis by (simp add: highest_bit.simps)
  next
    case False
    with 1 have "2 ^ highest_bit (n div 2) \<le> n div 2" "n div 2 < 2 * 2 ^ highest_bit (n div 2)" by simp_all
    then have "2 * 2 ^ highest_bit (n div 2) \<le> n" "n < 4 * 2 ^ highest_bit (n div 2)" by linarith+
    then show ?thesis using False by (simp add: highest_bit.simps [of n])
  qed
qed

lemma highest_bit_less:
  assumes "0 < n" and "n < 2 ^ w"
  shows "highest_bit n < w"
proof -
  have "(2::nat) ^ highest_bit n < 2 ^ w" using highest_bit_bounds [OF assms(1)] assms(2) by linarith
  then show ?thesis by simp
qed

text \<open>Setting the lowest bit does not change the highest, except for zero.\<close>

lemma or_one: "(n :: nat) OR 1 = (if even n then Suc n else n)"
  by (simp add: Suc_0_or_eq or_Suc_0_eq)

lemma highest_bit_or_one:
  assumes "n < 2 ^ w" and "0 < w"
  shows "highest_bit (n OR 1) < w" and "n < 2 ^ Suc (highest_bit (n OR 1))"
    and "0 < highest_bit (n OR 1) \<Longrightarrow> 2 ^ highest_bit (n OR 1) \<le> n"
proof -
  let ?m = "n OR 1"
  have pos: "0 < ?m" unfolding or_one by (auto intro: odd_pos)
  have lt: "?m < 2 ^ w"
  proof (cases "even n")
    case True
    then have "Suc n \<noteq> 2 ^ w" using assms(2) by (metis even_Suc even_power even_two_times_div_two dvd_refl)
    then show ?thesis using assms(1) by (simp add: or_one [unfolded One_nat_def] True)
  qed (use assms(1) in \<open>simp add: or_one [unfolded One_nat_def]\<close>)
  note b = highest_bit_bounds [OF pos]
  show "highest_bit ?m < w" by (rule highest_bit_less [OF pos lt])
  show "n < 2 ^ Suc (highest_bit ?m)" using b by (simp add: or_one [unfolded One_nat_def] split: if_splits)
  show "2 ^ highest_bit ?m \<le> n" if "0 < highest_bit ?m"
  proof (cases "even n")
    case True
    then have "Suc n \<noteq> 2 ^ highest_bit ?m" using that by (metis even_Suc even_power even_two_times_div_two dvd_refl)
    then show ?thesis using b True by (simp add: or_one [unfolded One_nat_def])
  qed (use b in \<open>simp add: or_one [unfolded One_nat_def]\<close>)
qed

text \<open>
  What makes a table right: for numbers with highest bit \<open>m\<close> the entry \<open>t\<close> is the number
  of digits of the largest, and the smallest has one digit less at most.
\<close>

definition entry_ok :: "nat \<Rightarrow> nat \<Rightarrow> bool" where
  "entry_ok m t \<longleftrightarrow> 0 < t \<and> 2 ^ Suc m \<le> (10::nat) ^ t \<and> (1 < t \<longrightarrow> 0 < m \<and> (10::nat) ^ (t - 2) \<le> 2 ^ m)"

lemma entry_ok_digits:
  assumes ok: "entry_ok m t" and "n < 2 ^ Suc m" and "0 < m \<Longrightarrow> 2 ^ m \<le> n"
  shows "length (decimal n) = (if 1 < t \<and> n < 10 ^ (t - 1) then t - 1 else t)"
proof -
  have n: "n < 10 ^ t" using ok assms(2) by (simp add: entry_ok_def)
  show ?thesis
  proof (cases "1 < t")
    case True
    then have k: "t = Suc (Suc (t - 2))" by simp
    define k where "k = t - 2"
    note k = k [folded k_def]
    have "10 ^ k \<le> n" using ok assms(3) True k by (simp add: entry_ok_def)
    then show ?thesis
      using length_decimal [of k n] length_decimal [of "Suc k" n] n k by (simp add: not_less)
  next
    case False
    then have "t = 1" using ok by (simp add: entry_ok_def)
    then show ?thesis using n by (simp add: decimal_digit)
  qed
qed

lemma upt_from_two: "2 \<le> n \<Longrightarrow> [0..<n] = 0 # 1 # [2..<n]"
  by (simp add: upt_conv_Cons numeral_2_eq_2)

lemma clz_xor: "m < 64 \<Longrightarrow> (63 - m) XOR 63 = (m::nat)" "m < 32 \<Longrightarrow> (31 - m) XOR 31 = (m::nat)"
proof -
  have "list_all (\<lambda>m. (63 - m) XOR 63 = (m::nat)) [0..<64]" by (simp add: upt_from_two)
  then show "m < 64 \<Longrightarrow> (63 - m) XOR 63 = m" by (simp add: list_all_iff)
  have "list_all (\<lambda>m. (31 - m) XOR 31 = (m::nat)) [0..<32]" by (simp add: upt_from_two)
  then show "m < 32 \<Longrightarrow> (31 - m) XOR 31 = m" by (simp add: list_all_iff)
qed

lemma table64_ok:
  assumes "m < 64"
  shows "entry_ok m (bsr2log10 ! m)"
    and "zero_or_powers_of_10 ! (bsr2log10 ! m) = (if 1 < bsr2log10 ! m then 10 ^ (bsr2log10 ! m - 1) else 0)"
proof -
  have "list_all (\<lambda>m. entry_ok m (bsr2log10 ! m) \<and>
      zero_or_powers_of_10 ! (bsr2log10 ! m) = (if 1 < bsr2log10 ! m then 10 ^ (bsr2log10 ! m - 1) else 0)) [0..<64]"
    by (simp add: upt_from_two bsr2log10_def zero_or_powers_of_10_def powers_of_10_def entry_ok_def)
  then show "entry_ok m (bsr2log10 ! m)"
    and "zero_or_powers_of_10 ! (bsr2log10 ! m) = (if 1 < bsr2log10 ! m then 10 ^ (bsr2log10 ! m - 1) else 0)"
    using assms by (simp_all add: list_all_iff)
qed

lemma do_count_digits64_eq:
  assumes "n < 2 ^ 64"
  shows "do_count_digits64 n = length (decimal n)"
proof -
  define m where "m = highest_bit (n OR 1)"
  note hb = highest_bit_or_one [OF assms, folded m_def]
  have m: "m < 64" by (rule hb(1)) simp
  have idx: "builtin_clz 64 (n OR 1) XOR 63 = m"
    unfolding builtin_clz_def m_def [symmetric] using clz_xor(1) [OF m] by simp
  have len: "length (decimal n) =
      (if 1 < bsr2log10 ! m \<and> n < 10 ^ (bsr2log10 ! m - 1) then bsr2log10 ! m - 1 else bsr2log10 ! m)"
    by (rule entry_ok_digits [OF table64_ok(1) [OF m]]) (use hb(2,3) in simp_all)
  show ?thesis
    unfolding do_count_digits64_def idx Let_def table64_ok(2) [OF m] len by simp
qed

lemma fmt_inc_of_nat:
  assumes "t \<le> c * 2 ^ 32"
  shows "fmt_inc c t = of_nat (c * 2 ^ 32 - t)"
  using assms by (simp add: fmt_inc_def push_bit_eq_mult of_nat_diff)

lemma fmt_inc_carry:
  fixes n :: u32
  assumes "0 < c" and "c \<le> 10" and "t \<le> 2 ^ 32"
  shows "unat (drop_bit 32 (ucast n + fmt_inc c t)) = (if unat n < t then c - 1 else c)"
proof -
  have le: "t \<le> c * 2 ^ 32" using assms(1,3) by (cases c) auto
  have "ucast n + fmt_inc c t = (of_nat (unat n) + of_nat (c * 2 ^ 32 - t) :: u64)"
    by (simp only: fmt_inc_of_nat [OF le] of_nat_unat)
  then have "ucast n + fmt_inc c t = (of_nat (unat n + (c * 2 ^ 32 - t)) :: u64)"
    by (simp only: of_nat_add)
  moreover have n: "unat n < 2 ^ 32" using unsigned_less [of n, where ?'a = nat] by simp
  moreover have "unat n + (c * 2 ^ 32 - t) < 2 ^ 64" using n assms(2) by simp
  ultimately have "unat (drop_bit 32 (ucast n + fmt_inc c t)) = (unat n + (c * 2 ^ 32 - t)) div 2 ^ 32"
    by (simp only: unat_drop_bit_eq unat_of_nat) (simp add: drop_bit_eq_div)
  also have "\<dots> = (if unat n < t then c - 1 else c)"
  proof (cases "unat n < t")
    case True
    have "unat n + (c * 2 ^ 32 - t) = (2 ^ 32 - (t - unat n)) + (c - 1) * 2 ^ 32"
      using True assms(1,3) by (cases c) auto
    then show ?thesis using True assms(3) by (simp add: div_add1_eq)
  next
    case False
    have "unat n + (c * 2 ^ 32 - t) = (unat n - t) + c * 2 ^ 32" using False le by simp
    then show ?thesis using False n by simp
  qed
  finally show ?thesis .
qed

text \<open>The table of the 32-bit version, as the pairs its entries are made of.\<close>

definition table32 :: "(nat \<times> nat) list" where
  "table32 =
     [(1, 0), (1, 0), (1, 0),
      (2, 10), (2, 10), (2, 10),
      (3, 100), (3, 100), (3, 100),
      (4, 1000), (4, 1000), (4, 1000),
      (5, 10000), (5, 10000), (5, 10000),
      (6, 100000), (6, 100000), (6, 100000),
      (7, 1000000), (7, 1000000), (7, 1000000),
      (8, 10000000), (8, 10000000), (8, 10000000),
      (9, 100000000), (9, 100000000), (9, 100000000),
      (10, 1000000000), (10, 1000000000), (10, 1000000000),
      (10, 1000000000), (10, 1000000000)]"

lemma count_digits_table_eq: "count_digits_table = map (\<lambda>(c, t). fmt_inc c t) table32"
  by (simp add: count_digits_table_def table32_def)

lemma table32_ok:
  assumes "m < 32"
  shows "entry_ok m (fst (table32 ! m))"
    and "snd (table32 ! m) = (if 1 < fst (table32 ! m) then 10 ^ (fst (table32 ! m) - 1) else 0)"
    and "fst (table32 ! m) \<le> 10" and "snd (table32 ! m) \<le> 2 ^ 32" and "m < length table32"
proof -
  have "list_all (\<lambda>m. entry_ok m (fst (table32 ! m)) \<and>
      snd (table32 ! m) = (if 1 < fst (table32 ! m) then 10 ^ (fst (table32 ! m) - 1) else 0) \<and>
      fst (table32 ! m) \<le> 10 \<and> snd (table32 ! m) \<le> 2 ^ 32 \<and> m < length table32) [0..<32]"
    by (simp add: upt_from_two table32_def entry_ok_def)
  from bspec [OF this [unfolded list_all_iff], of m] assms
  show "entry_ok m (fst (table32 ! m))"
    and "snd (table32 ! m) = (if 1 < fst (table32 ! m) then 10 ^ (fst (table32 ! m) - 1) else 0)"
    and "fst (table32 ! m) \<le> 10" and "snd (table32 ! m) \<le> 2 ^ 32" and "m < length table32"
    unfolding set_upt atLeastLessThan_iff by blast+
qed

lemma do_count_digits32_eq: "unat (do_count_digits32 n) = length (decimal (unat n))"
proof -
  have n: "unat n < 2 ^ 32" using unsigned_less [of n, where ?'a = nat] by simp
  define m where "m = highest_bit (unat n OR 1)"
  note hb = highest_bit_or_one [OF n, folded m_def]
  have m: "m < 32" by (rule hb(1)) simp
  obtain c t where ct: "table32 ! m = (c, t)" by (cases "table32 ! m")
  note ok = table32_ok [OF m, unfolded ct fst_conv snd_conv]
  have idx: "builtin_clz 32 (unat n OR 1) XOR 31 = m"
    unfolding builtin_clz_def m_def [symmetric] using clz_xor(2) [OF m] by simp
  have c: "0 < c" using ok(1) by (simp add: entry_ok_def)
  have "count_digits_table ! m = fmt_inc c t" using ok(5) ct by (simp add: count_digits_table_eq)
  then have "unat (do_count_digits32 n) = unat (ucast (drop_bit 32 (ucast n + fmt_inc c t)) :: u32)"
    unfolding do_count_digits32_def idx Let_def by simp
  also have "\<dots> = (if unat n < t then c - 1 else c)"
    using fmt_inc_carry [OF c ok(3,4), of n] ok(3)
    by (simp add: unsigned_ucast_eq take_bit_nat_eq_self split: if_splits)
  also have "\<dots> = length (decimal (unat n))"
    using entry_ok_digits [OF ok(1), of "unat n"] hb(2,3) ok(2) by auto
  finally show ?thesis .
qed

lemma format_signed_text:
  fixes v :: u64
  shows "\<exists>out. format_signed v = Inr (out, if sint v < 0 then CHR ''-'' # decimal (nat (- sint v))
      else decimal (nat (sint v)))"
proof -
  have n: "unat (w::u64) < 2 ^ 64" for w using unsigned_less [of w, where ?'a = nat] by simp
  have l: "length (decimal (unat (w::u64))) \<le> 20" for w using length_decimal_64 [OF n] .
  have sv: "uint v = sint v mod 2 ^ 64" "- (2 ^ 63) \<le> sint v" "sint v < 2 ^ 63"
    using uint_sint [of v] sint_ge [of v] sint_lt [of v] by (simp_all add: take_bit_eq_mod)
  have pos: "unat v = nat (sint v)" if "0 \<le> sint v"
    using that sv by (simp add: unat_eq_nat_uint)
  have neg: "unat (- v) = nat (- sint v)" if "sint v < 0"
  proof -
    have "uint (- v) = (- sint v) mod 2 ^ 64" by (simp add: uint_word_ariths sv(1) mod_minus_eq)
    then show ?thesis using that sv by (simp add: unat_eq_nat_uint)
  qed
  show ?thesis
  proof (cases "sint v < 0")
    case True
    have "1 \<le> 21 - length (decimal (unat (- v)))" using l [of "- v"] by simp
    then show ?thesis using True neg n by (simp add: format_signed_def format_unsigned_eq Let_def)
  next
    case False
    then show ?thesis using pos n by (simp add: format_signed_def format_unsigned_eq Let_def)
  qed
qed

section \<open>Properties\<close>

text \<open>
  Claim C35: the three ways in which the number of digits of an integer is computed agree
  for all 64-bit and all 32-bit integers, and give the length of its decimal notation:
  the loop over groups of four digits, the table indexed by the highest bit, and the
  32-bit table whose entries carry into the upper half of the sum.
\<close>

theorem count_digits_agree:
  fixes n :: u64 and m :: u32
  shows "do_count_digits64 (unat n) = count_digits_fallback (unat n) \<and>
    unat (do_count_digits32 m) = count_digits_fallback (unat m) \<and>
    count_digits_fallback (unat n) = length (decimal (unat n))"
proof -
  have f: "count_digits_fallback k = length (decimal k)" for k
    using count_digits_loop_eq [of k 1] by (simp add: count_digits_fallback_def)
  have "unat n < 2 ^ 64" using unsigned_less [of n, where ?'a = nat] by simp
  then show ?thesis by (simp add: f do_count_digits64_eq do_count_digits32_eq)
qed

text \<open>
  Claim C36: \<^verbatim>\<open>format_int\<close> never writes outside its fixed buffer, whatever the 64-bit value,
  and the characters from its start on are the decimal notation of the value, with a
  minus sign for a negative one, the most negative included.
\<close>

theorem format_int_in_bounds:
  fixes n v :: u64
  shows "format_unsigned (unat n) = Inr (21 - length (decimal (unat n)), decimal (unat n)) \<and>
    length (decimal (unat n)) \<le> 20 \<and>
    (\<exists>out. format_signed v = Inr (out, if sint v < 0 then CHR ''-'' # decimal (nat (- sint v))
                                      else decimal (nat (sint v))))"
proof -
  have n: "unat (w::u64) < 2 ^ 64" for w using unsigned_less [of w, where ?'a = nat] by simp
  show ?thesis
    using format_unsigned_eq [OF n, of n] length_decimal_64 [OF n, of n] format_signed_text [of v] by simp
qed

end
