(* ===== verification/Toml_Config.thy ===== *)
theory Toml_Config
  imports Toml_Ends Fmt_Int
begin

text \<open>
  Configuration files: tables with bare keys, integers and strings, written one setting to a line. The
  parser reads back exactly what was written.
\<close>

section \<open>Repetitions of known pieces\<close>

text \<open>A repetition over pieces its lexer matches one by one, up to where it fails.\<close>

lemma repeat_pieces:
  assumes "consuming_lexer T"
    and "\<And>p ps qs. pieces = qs @ p # ps \<Longrightarrow> T (p @ concat ps @ rest) = (Some p, concat ps @ rest)"
    and "fst (T rest) = None"
  shows "repeat_unlimited T (concat pieces @ rest) = (Some (concat pieces), rest)"
  using assms(2)
proof (induction pieces)
  case Nil
  then show ?case
    using assms(3) consuming_lexer.repeat_unlimited_unfold [OF assms(1), of rest] consuming_result [OF assms(1), of rest] by auto
next
  case (Cons p ps)
  have "T (p @ concat ps @ rest) = (Some p, concat ps @ rest)" using Cons.prems [of "[]" p ps] by simp
  moreover have "repeat_unlimited T (concat ps @ rest) = (Some (concat ps), rest)"
    by (rule Cons.IH) (rule Cons.prems, simp)
  ultimately show ?case using consuming_lexer.repeat_unlimited_unfold [OF assms(1), of "p @ concat ps @ rest"] by simp
qed

text \<open>The same for characters of a class.\<close>

lemma repeat_chars:
  assumes "consuming_lexer T" and "\<And>c l. c \<in> set s \<Longrightarrow> T (c # l) = (Some [c], l)" and "fst (T rest) = None"
  shows "repeat_unlimited T (s @ rest) = (Some s, rest)"
proof -
  have "concat (map (\<lambda>c. [c]) s) = s" by (induction s) auto
  moreover have "T (p @ concat ps @ rest) = (Some p, concat ps @ rest)" if "map (\<lambda>c. [c]) s = qs @ p # ps" for p ps qs
  proof -
    have "p \<in> set (map (\<lambda>c. [c]) s)" using that by simp
    then show ?thesis using assms(2) by auto
  qed
  ultimately show ?thesis using repeat_pieces [OF assms(1), of "map (\<lambda>c. [c]) s" rest] assms(3) by simp
qed

lemma repeat_at_least_one:
  assumes "consuming_lexer T"
  shows "repeat_at_least 1 T loc = (if fst (T loc) = None then (None, loc) else repeat_unlimited T loc)"
proof (cases "T loc")
  case (Pair x loc')
  show ?thesis
  proof (cases x)
    case (Some r)
    have "repeat_at_least 1 T loc = repeat_loop (Suc (length loc')) r T loc'"
      using Pair Some by (simp add: repeat_at_least_def del: repeat_loop.simps)
    moreover have "\<dots> = repeat_loop (length loc) r T loc'"
      using consuming_lexer.strictly_shorter [OF assms] Pair Some by (intro consuming_lexer.repeat_loop_fuel [OF assms]) auto
    ultimately show ?thesis using Pair Some by (simp add: repeat_unlimited_def)
  qed (simp add: Pair repeat_at_least_def)
qed

section \<open>Classes of characters\<close>

definition bare_char :: "char \<Rightarrow> bool" where
  "bare_char c \<longleftrightarrow> is_alpha c \<or> is_digit c \<or> c = CHR ''-'' \<or> c = CHR ''_''"

lemma schar_nat: "schar c = (let n = int (of_char c) in if n < 128 then n else n - 256)"
  by (simp add: schar_def Let_def of_nat_of_char)

lemma in_range_ascii:
  assumes "of_char upper < (128::nat)" "of_char lower < (128::nat)"
  shows "in_range lower upper (c # l) =
     (if (of_char lower :: nat) \<le> of_char c \<and> (of_char c :: nat) \<le> of_char upper then (Some [c], l) else (None, c # l))"
proof -
  obtain m n k :: nat where "of_char lower = m" "of_char upper = n" "of_char c = k" "k < 256"
    using nat_of_char_less_256 by blast
  then show ?thesis using assms by (auto simp: schar_nat Let_def)
qed

lemma lex_digit_char: "lex_digit (c # l) = (if is_digit c then (Some [c], l) else (None, c # l))"
  by (simp add: lex_digit_def is_digit_def in_range_ascii Let_def del: in_range.simps)

lemma lex_alpha_char: "lex_alpha (c # l) = (if is_alpha c then (Some [c], l) else (None, c # l))"
  by (auto simp: lex_alpha_def lex_lower_def lex_upper_def is_alpha_def in_range_ascii Let_def simp del: in_range.simps)

lemma lex_class_empty [simp]: "lex_digit [] = (None, [])" "lex_alpha [] = (None, [])"
  by (simp_all add: lex_digit_def lex_alpha_def lex_lower_def lex_upper_def)

lemma lex_unquoted_key_text:
  assumes "k \<noteq> []" "\<forall>c\<in>set k. bare_char c" "rest = [] \<or> \<not> bare_char (hd rest)"
  shows "lex_unquoted_key (k @ rest) = (Some k, rest)"
proof -
  let ?T = "either [lex_alpha, lex_digit, character CHR ''-'', character CHR ''_'']"
  have T: "?T (c # l) = (if bare_char c then (Some [c], l) else (None, c # l))" for c l
    by (auto simp: lex_alpha_char lex_digit_char bare_char_def)
  have cons: "consuming_lexer ?T" by (simp add: lexer_rules)
  have "fst (?T rest) = None" using assms(3) T by (cases rest) auto
  then have "repeat_unlimited ?T (k @ rest) = (Some k, rest)"
    using assms(2) T by (intro repeat_chars [OF cons]) auto
  moreover have "fst (?T (k @ rest)) \<noteq> None" using assms(1,2) T by (cases k) auto
  ultimately show ?thesis unfolding lex_unquoted_key_def using repeat_at_least_one [OF cons] by simp
qed

lemma bare_head:
  assumes "bare_char c"
  shows "c \<noteq> quote_char" "c \<noteq> apostrophe_char" "c \<noteq> CHR '' ''" "c \<noteq> tab_char" "c \<noteq> newline_char" "c \<noteq> carriage_return"
    "c \<noteq> CHR ''[''" "c \<noteq> CHR ''#''" "c \<noteq> CHR '']''" "c \<noteq> CHR ''=''" "c \<noteq> CHR ''.''"
  using assms by (auto simp: bare_char_def is_alpha_def is_digit_def Let_def quote_char_def apostrophe_char_def tab_char_def
      newline_char_def carriage_return_def)

text \<open>White space and comments that are not there.\<close>

definition solid :: "location \<Rightarrow> bool" where
  "solid loc \<longleftrightarrow> (case loc of [] \<Rightarrow> True | c # cs \<Rightarrow> c \<noteq> CHR '' '' \<and> c \<noteq> tab_char)"

lemma lex_ws_solid: "solid loc \<Longrightarrow> lex_ws loc = (None, loc)"
  by (cases loc) (simp_all add: solid_def lex_ws_def repeat_at_least_def lex_wschar_def)

lemma lex_ws_space: "solid loc \<Longrightarrow> lex_ws (CHR '' '' # loc) = (Some '' '', loc)"
  by (cases loc) (simp_all add: solid_def lex_ws_def repeat_at_least_def lex_wschar_def)

lemma lex_comment_other: "c \<noteq> CHR ''#'' \<Longrightarrow> lex_comment (c # l) = (None, c # l)" "lex_comment [] = (None, [])"
  by (simp_all add: lex_comment_def lex_sequence_def lex_comment_start_symbol_def)

lemma skip_solid [simp]:
  "solid loc \<Longrightarrow> skip lex_ws loc = loc" "solid loc \<Longrightarrow> skip (maybe lex_ws) loc = loc"
  by (simp_all add: skip_def lex_ws_solid maybe_def)

section \<open>Keys and headers\<close>

definition bare_key :: "string \<Rightarrow> bool" where
  "bare_key k \<longleftrightarrow> k \<noteq> [] \<and> list_all bare_char k"

text \<open>What can follow a bare key that is not dotted.\<close>

definition key_ends :: "location \<Rightarrow> bool" where
  "key_ends rest \<longleftrightarrow> (\<exists>c l. rest = c # l \<and> \<not> bare_char c) \<and> fst (lex_dot_sep rest) = None"

lemma key_ends_examples: "solid l \<Longrightarrow> key_ends ('' ='' @ l)" "key_ends ('']'' @ l)"
  using lex_ws_space [of "CHR ''='' # l"]
  by (auto simp: key_ends_def bare_char_def is_alpha_def is_digit_def Let_def lex_dot_sep_def lex_sequence_def maybe_def solid_def
      tab_char_def lex_ws_solid)

lemma lex_string_heads:
  "c \<noteq> quote_char \<Longrightarrow> lex_basic_string (c # l) = (None, c # l)"
  "c \<noteq> apostrophe_char \<Longrightarrow> lex_literal_string (c # l) = (None, c # l)"
  by (simp_all add: lex_basic_string_def lex_literal_string_def lex_sequence_def lex_quotation_mark_def lex_apostrophe_def)

lemma bare_key_cons: "bare_key k \<Longrightarrow> \<exists>c cs. k = c # cs \<and> bare_char c"
  by (cases k) (auto simp: bare_key_def)

lemma lex_bare_key:
  assumes "bare_key k" and "key_ends rest"
  shows "lex_unquoted_key (k @ rest) = (Some k, rest)" and "lex_dotted_key (k @ rest) = (None, k @ rest)"
    and "lex_key (k @ rest) = (Some k, rest)"
proof -
  show u: "lex_unquoted_key (k @ rest) = (Some k, rest)"
    using assms by (intro lex_unquoted_key_text) (auto simp: bare_key_def key_ends_def list_all_iff)
  then have s: "lex_simple_key (k @ rest) = (Some k, rest)" by (simp add: lex_simple_key_def)
  have "lex_dot_sep rest = (None, rest)"
    using assms(2) consuming_result [OF consuming_keys(14), of rest] by (auto simp: key_ends_def)
  then have "repeat_at_least 1 (lex_sequence [lex_dot_sep, lex_simple_key]) rest = (None, rest)"
    by (simp add: repeat_at_least_def lex_sequence_def)
  with s show d: "lex_dotted_key (k @ rest) = (None, k @ rest)" by (simp add: lex_dotted_key_def lex_sequence_def)
  show "lex_key (k @ rest) = (Some k, rest)" using s d by (simp add: lex_key_def)
qed

lemma parse_bare_key:
  assumes "bare_key k" and "key_ends rest"
  shows "parse_key (k @ rest) = ok_at rest ([k], k)"
proof -
  obtain c cs where c: "k = c # cs" "bare_char c" using bare_key_cons [OF assms(1)] by blast
  have "parse_simple_key (k @ rest) = ok_at rest (k, k)"
    using lex_bare_key(1) [OF assms] c lex_string_heads [of c "cs @ rest"] bare_head [OF c(2)]
    by (simp add: parse_simple_key_def parse_basic_string_def parse_literal_string_def err_at_def)
  then show ?thesis using lex_bare_key(2) [OF assms] by (simp add: parse_key_def ok_at_def)
qed

lemma not_a_header:
  assumes "c \<noteq> CHR ''[''"
  shows "parse_table_key (c # l) = err_at (c # l) ''toml::parse_table_key: not a valid table key''"
    and "parse_array_table_key (c # l) = err_at (c # l) ''toml::parse_array_table_key: not a valid table key''"
  using assms by (simp_all add: parse_table_key_def parse_array_table_key_def bracketed_key_def lex_std_table_def
      lex_array_table_def lex_array_table_open_def lex_std_table_open_def lex_sequence_def)

definition table_header :: "string \<Rightarrow> string" where
  "table_header name = CHR ''['' # name @ '']''"

lemma solid_bare: "bare_char c \<Longrightarrow> solid (c # l)"
  using bare_head [of c] by (simp add: solid_def)

lemma header_is_table:
  assumes "bare_key name"
  shows "parse_table_key (table_header name @ newline_char # l) = ok_at l ([name], table_header name)"
    and "parse_array_table_key (table_header name @ newline_char # l) =
      err_at (table_header name @ newline_char # l) ''toml::parse_array_table_key: not a valid table key''"
proof -
  obtain c cs where c: "name = c # cs" "bare_char c" using bare_key_cons [OF assms] by blast
  have nb: "lex_ws (c # cs @ r) = (None, c # cs @ r)" for r using solid_bare [OF c(2)] by (simp add: lex_ws_solid)
  have k: "lex_key (c # cs @ '']'' @ r) = (Some name, '']'' @ r)" for r
    using lex_bare_key(3) [OF assms key_ends_examples(2)] c by simp
  have cl: "lex_ws (CHR '']'' # r) = (None, CHR '']'' # r)" for r
    by (intro lex_ws_solid) (simp add: solid_def tab_char_def)
  have nl: "lex_ws (newline_char # r) = (None, newline_char # r)" for r
    by (intro lex_ws_solid) (simp add: solid_def tab_char_def newline_char_def)
  have whole: "lex_std_table (table_header name @ newline_char # l) = (Some (table_header name), newline_char # l)"
    using k [of "newline_char # l"] nb [of "'']'' @ newline_char # l"] cl c
    by (simp add: lex_std_table_def table_header_def lex_sequence_def lex_std_table_open_def lex_std_table_close_def maybe_def)
  have key: "parse_key (skip lex_ws (c # cs @ '']'')) = ok_at '']'' ([name], name)"
    using parse_bare_key [OF assms key_ends_examples(2) [of "[]"]] solid_bare [OF c(2)] c by simp
  have after: "lex_newline_after_table_key (newline_char # l) = (Some [newline_char], l)"
    using nl [of l] lex_comment_other(1) [of newline_char l]
    by (simp add: lex_newline_after_table_key_def lex_sequence_def maybe_def lex_newline_def newline_char_def)
  show "parse_table_key (table_header name @ newline_char # l) = ok_at l ([name], table_header name)"
    using whole key after c
    by (simp add: parse_table_key_def bracketed_key_def table_header_def lex_std_table_open_def lex_std_table_close_def ok_at_def skip_def cl)
  have "lex_array_table (table_header name @ newline_char # l) = (None, table_header name @ newline_char # l)"
    using c bare_head(7) [OF c(2)]
    by (simp add: table_header_def lex_array_table_def lex_array_table_open_def lex_std_table_open_def lex_sequence_def)
  then show "parse_array_table_key (table_header name @ newline_char # l) =
      err_at (table_header name @ newline_char # l) ''toml::parse_array_table_key: not a valid table key''"
    by (simp add: parse_array_table_key_def bracketed_key_def)
qed

section \<open>Integers\<close>

definition print_int :: "int \<Rightarrow> string" where
  "print_int i = (if i < 0 then [CHR ''-''] else []) @ decimal (nat \<bar>i\<bar>)"

lemma digit_char: "d < 10 \<Longrightarrow> is_digit (digit d)" "d < 10 \<Longrightarrow> digit_of (digit d) = d" "d < 10 \<Longrightarrow> digit d = CHR ''0'' \<longleftrightarrow> d = 0"
proof -
  show "d < 10 \<Longrightarrow> is_digit (digit d)" "d < 10 \<Longrightarrow> digit_of (digit d) = d"
    by (simp_all add: digit_def is_digit_def digit_of_def Let_def)
  show "d < 10 \<Longrightarrow> digit d = CHR ''0'' \<longleftrightarrow> d = 0"
    using char_of_eq_iff [of "48 + d" "CHR ''0''"] by (auto simp: digit_def take_bit_eq_mod)
qed

lemma decimal_is_digits: "list_all is_digit (decimal n)"
  by (induction n rule: decimal.induct) (subst decimal.simps, simp add: digit_char)

lemma number_of_decimal: "number_of 10 (decimal n) = n"
proof (induction n rule: decimal.induct)
  case (1 n)
  show ?case
  proof (cases "n < 10")
    case False
    then have "number_of 10 (decimal (n div 10)) = n div 10" using 1 by simp
    then show ?thesis using False by (simp add: decimal_step number_of_def digit_char)
  qed (simp add: decimal_digit number_of_def digit_char)
qed

lemma decimal_head: "0 < n \<Longrightarrow> hd (decimal n) \<noteq> CHR ''0''"
proof (induction n rule: decimal.induct)
  case (1 n)
  then show ?case by (cases "n < 10") (auto simp: decimal_digit decimal_step digit_char)
qed

lemma decimal_cases: obtains d where "n < 10" "decimal n = [digit d]" "d < 10" "d = n"
  | c s where "10 \<le> n" "decimal n = c # s" "s \<noteq> []" "is_digit c" "c \<noteq> CHR ''0''" "list_all is_digit s"
proof (cases "n < 10")
  case False
  obtain c s where c: "decimal n = c # s" by (cases "decimal n") auto
  moreover have "s \<noteq> []" using length_decimal_ge [of 1 n] False c by auto
  ultimately show ?thesis using that(2) [of c s] False decimal_is_digits [of n] decimal_head [of n] by auto
qed (use that(1) in \<open>auto simp: decimal_digit\<close>)

lemma not_digit: "\<not> is_digit newline_char" "\<not> is_digit CHR ''-''" "\<not> is_digit CHR ''_''" "\<not> is_digit CHR '':''" "\<not> is_digit CHR ''+''"
  by (simp_all add: is_digit_def newline_char_def Let_def)

lemma newline_other [simp]:
  "newline_char \<noteq> CHR ''_''" "newline_char \<noteq> CHR ''-''" "newline_char \<noteq> CHR '':''" "newline_char \<noteq> CHR ''.''"
  "newline_char \<noteq> CHR ''e''" "newline_char \<noteq> CHR ''E''" "newline_char \<noteq> CHR '' ''" "newline_char \<noteq> tab_char"
  "newline_char \<noteq> CHR ''#''" "newline_char \<noteq> CHR ''[''" "newline_char \<noteq> quote_char" "newline_char \<noteq> CHR ''=''"
  "newline_char \<noteq> CHR ''i''" "newline_char \<noteq> CHR ''n''" "newline_char \<noteq> CHR ''x''" "newline_char \<noteq> CHR ''o''"
  "newline_char \<noteq> CHR ''b''"
  by (simp_all add: newline_char_def tab_char_def quote_char_def)

lemma lex_nonzero_char: "lex_nonzero (c # l) = (if is_digit c \<and> c \<noteq> CHR ''0'' then (Some [c], l) else (None, c # l))"
proof -
  have "c = CHR ''0'' \<longleftrightarrow> (of_char c :: nat) = 48" using of_char_eq_iff [of c "CHR ''0''", where 'a = nat] by simp
  then show ?thesis by (auto simp: lex_nonzero_def is_digit_def in_range_ascii Let_def simp del: in_range.simps)
qed

lemma lex_decimal: "lex_unsigned_dec_int (decimal n @ newline_char # l) = (Some (decimal n), newline_char # l)"
proof -
  let ?T = "either [lex_digit, lex_sequence [lex_underscore, lex_digit]]"
  have cons: "consuming_lexer ?T" by (simp add: lexer_rules lex_underscore_def)
  have T: "?T (c # r) = (Some [c], r)" if "is_digit c" for c r using that by (simp add: lex_digit_char)
  have nl: "fst (?T (newline_char # l)) = None"
    by (simp add: lex_digit_char not_digit lex_sequence_def lex_underscore_def)
  show ?thesis
  proof (cases n rule: decimal_cases)
    case (1 d)
    have "repeat_at_least 1 ?T (newline_char # l) = (None, newline_char # l)"
      using nl by (subst repeat_at_least_one [OF cons]) simp
    then show ?thesis
      using 1 by (simp add: lex_unsigned_dec_int_def lex_sequence_def lex_nonzero_char lex_digit_char digit_char del: either.simps(2))
        (simp add: lex_sequence_def lex_nonzero_char lex_digit_char digit_char)
  next
    case (2 c s)
    have "repeat_unlimited ?T (s @ newline_char # l) = (Some s, newline_char # l)"
      using 2(6) by (intro repeat_chars [OF cons] T nl) (auto simp: list_all_iff)
    moreover have "fst (?T (s @ newline_char # l)) \<noteq> None" using 2(3,6) T by (cases s) auto
    ultimately have "repeat_at_least 1 ?T (s @ newline_char # l) = (Some s, newline_char # l)"
      by (subst repeat_at_least_one [OF cons]) simp
    then show ?thesis
      using 2 by (simp add: lex_unsigned_dec_int_def lex_sequence_def lex_nonzero_char)
  qed
qed

lemma sign_head:
  "lex_sign (CHR ''-'' # l) = (Some ''-'', l)"
  "is_digit c \<Longrightarrow> lex_sign (c # l) = (None, c # l)"
  by (auto simp: lex_sign_def lex_plus_def lex_minus_def is_digit_def)

lemma decimal_cons: "\<exists>c s. decimal n = c # s \<and> is_digit c"
  using decimal_is_digits [of n] by (cases "decimal n") auto

lemma lex_dec_print: "lex_dec_int (print_int i @ newline_char # l) = (Some (print_int i), newline_char # l)"
proof -
  obtain c s where "decimal (nat \<bar>i\<bar>) = c # s" "is_digit c" using decimal_cons by blast
  then show ?thesis
    using lex_decimal [of "nat \<bar>i\<bar>" l] by (simp add: lex_dec_int_def print_int_def lex_sequence_def maybe_def sign_head)
qed

text \<open>A number before the end of a line is none of the other tokens that start with a digit.\<close>

lemma repeat_digits_then:
  assumes "list_all is_digit s" and "\<not> is_digit c" and "c \<noteq> newline_char"
  shows "lex_sequence (repeat_exactly n lex_digit # character c # Ts) (s @ newline_char # l) = (None, s @ newline_char # l)"
proof -
  have "repeat_from first reg n lex_digit (s @ newline_char # l) = (None, first) \<or>
      (\<exists>r s'. repeat_from first reg n lex_digit (s @ newline_char # l) = (Some r, s' @ newline_char # l) \<and> list_all is_digit s')"
    for first reg
    using assms(1)
  proof (induction n arbitrary: s reg)
    case (Suc n)
    show ?case
    proof (cases s)
      case (Cons d s')
      then show ?thesis using Suc.IH [of s' "reg @ [d]"] Suc.prems by (simp add: lex_digit_char)
    qed (simp add: lex_digit_char not_digit)
  qed auto
  then consider "repeat_exactly n lex_digit (s @ newline_char # l) = (None, s @ newline_char # l)"
    | r s' where "repeat_exactly n lex_digit (s @ newline_char # l) = (Some r, s' @ newline_char # l)" "list_all is_digit s'"
    unfolding repeat_exactly_def by blast
  then show ?thesis
  proof cases
    case (2 r s')
    then have "fst (character c (s' @ newline_char # l)) = None" using assms by (cases s') auto
    then show ?thesis using 2(1) by (auto simp: lex_sequence_def split: prod.split option.split)
  qed (simp add: lex_sequence_def)
qed

lemma no_digits_first: "\<not> is_digit c \<Longrightarrow> 0 < n \<Longrightarrow> lex_sequence (repeat_exactly n lex_digit # Ts) (c # l) = (None, c # l)"
  by (cases n) (simp_all add: lex_sequence_def repeat_exactly_def lex_digit_char)

lemma print_int_no_date:
  "lex_full_date (print_int i @ newline_char # l) = (None, print_int i @ newline_char # l)"
  "lex_partial_time (print_int i @ newline_char # l) = (None, print_int i @ newline_char # l)"
  using repeat_digits_then [OF decimal_is_digits not_digit(2)] repeat_digits_then [OF decimal_is_digits not_digit(4)]
    no_digits_first [OF not_digit(2)] newline_other(2,3) [symmetric]
  by (simp_all add: print_int_def lex_full_date_def lex_partial_time_def lex_date_fullyear_def lex_time_hour_def)

lemma print_int_no_float: "lex_float (print_int i @ newline_char # l) = (None, print_int i @ newline_char # l)"
proof -
  obtain c s where c: "decimal (nat \<bar>i\<bar>) = c # s" "is_digit c" using decimal_cons by blast
  moreover have "c \<noteq> CHR ''i''" "c \<noteq> CHR ''n''" using c(2) by (auto simp: is_digit_def)
  ultimately have "lex_special_float (print_int i @ newline_char # l) = (None, print_int i @ newline_char # l)"
    by (simp add: print_int_def lex_special_float_def lex_sequence_def maybe_def sign_head lex_inf_def lex_nan_def)
  then show ?thesis
    using lex_dec_print [of i l]
    by (simp add: lex_float_def lex_sequence_def lex_exponent_part_def lex_fractional_part_def)
qed

lemma print_int_prefix:
  "T \<in> {lex_bin_int, lex_oct_int, lex_hex_int} \<Longrightarrow> T (print_int i @ newline_char # l) = (None, print_int i @ newline_char # l)"
  "\<exists>c s. print_int i = c # s \<and> (c = CHR ''-'' \<or> is_digit c) \<and> (c = CHR ''0'' \<longrightarrow> s = [])"
proof -
  show head: "\<exists>c s. print_int i = c # s \<and> (c = CHR ''-'' \<or> is_digit c) \<and> (c = CHR ''0'' \<longrightarrow> s = [])"
    by (cases "nat \<bar>i\<bar>" rule: decimal_cases) (auto simp: print_int_def digit_char)
  show "T \<in> {lex_bin_int, lex_oct_int, lex_hex_int} \<Longrightarrow> T (print_int i @ newline_char # l) = (None, print_int i @ newline_char # l)"
    using head by (auto simp: lex_bin_int_def lex_oct_int_def lex_hex_int_def lex_bin_prefix_def lex_oct_prefix_def lex_hex_prefix_def
        lex_sequence_def)
qed

lemma guess_print_int: "guess_value_type (print_int i @ newline_char # l) = Inr (Inr vt_integer)"
proof -
  let ?loc = "print_int i @ newline_char # l"
  obtain c s where c: "print_int i = c # s" "c = CHR ''-'' \<or> is_digit c" using print_int_prefix(2) by blast
  have "lex_offset_date_time ?loc = (None, ?loc)" "lex_local_date_time ?loc = (None, ?loc)" "lex_local_date ?loc = (None, ?loc)"
    "lex_local_time ?loc = (None, ?loc)"
    by (simp_all add: lex_offset_date_time_def lex_local_date_time_def lex_local_date_def lex_local_time_def lex_sequence_def
        print_int_no_date)
  moreover have "lex_integer ?loc = (Some (print_int i), newline_char # l)"
    by (simp add: lex_integer_def print_int_prefix(1) lex_dec_print)
  moreover have "guess_integer (newline_char # l) = Inr vt_integer"
    by (simp add: guess_integer_def at_char_def between_def schar_def newline_char_def)
  ultimately have "guess_number_type ?loc = Inr vt_integer"
    by (simp add: guess_number_type_def print_int_no_float)
  moreover have "c \<notin> {quote_char, apostrophe_char, CHR ''t'', CHR ''f'', CHR ''['', CHR ''{'', CHR ''i'', CHR ''n''}"
    using c(2) by (auto simp: is_digit_def quote_char_def apostrophe_char_def)
  ultimately show ?thesis using c(1) by (simp add: guess_value_type_def)
qed

lemma parse_print_int:
  assumes "- (2 ^ 63) \<le> i" and "i < 2 ^ 63"
  shows "parse_integer (print_int i @ newline_char # l) = ok_at (newline_char # l) (word_of_int i, print_int i)"
proof -
  have und: "without_underscores (print_int i) = print_int i"
    using decimal_is_digits [of "nat \<bar>i\<bar>"] not_digit(3)
    by (auto simp: without_underscores_def print_int_def list_all_iff intro!: filter_True)
  obtain c s where c: "decimal (nat \<bar>i\<bar>) = c # s" "is_digit c" using decimal_cons by blast
  then have "signed_text (print_int i) = (i < 0, decimal (nat \<bar>i\<bar>))"
    using not_digit(2,5) by (auto simp: signed_text_def print_int_def)
  then have "read_int64 10 (print_int i) = Some (word_of_int i)"
    using assms by (auto simp: read_int64_def number_of_decimal Let_def)
  then have dec: "parse_decimal (print_int i @ newline_char # l) = ok_at (newline_char # l) (word_of_int i, print_int i)"
    by (simp add: parse_decimal_def lex_dec_print und)
  obtain d t where d: "print_int i = d # t" "d = CHR ''0'' \<longrightarrow> t = []" using print_int_prefix(2) [of i] by blast
  have na: "\<not> is_alpha newline_char" by (simp add: is_alpha_def newline_char_def Let_def)
  show ?thesis
    using dec d na not_digit(1) by (cases "d = CHR ''0''") (auto simp: parse_integer_def)
qed

section \<open>Strings\<close>

text \<open>Characters a basic string holds as they are, and those it escapes with a letter.\<close>

definition plain_char :: "char \<Rightarrow> bool" where
  "plain_char c \<longleftrightarrow> (let n = of_char c :: nat in 32 \<le> n \<and> n < 127 \<and> c \<noteq> quote_char \<and> c \<noteq> backslash_char)"

definition escapes :: "(char \<times> char) list" where
  "escapes = [(quote_char, quote_char), (backslash_char, backslash_char), (CHR 8, CHR ''b''), (tab_char, CHR ''t''),
     (newline_char, CHR ''n''), (CHR 12, CHR ''f''), (carriage_return, CHR ''r'')]"

definition text_char :: "char \<Rightarrow> bool" where
  "text_char c \<longleftrightarrow> plain_char c \<or> map_of escapes c \<noteq> None"

definition escape :: "char \<Rightarrow> string" where
  "escape c = (case map_of escapes c of None \<Rightarrow> [c] | Some e \<Rightarrow> [backslash_char, e])"

definition print_string :: "string \<Rightarrow> string" where
  "print_string s = quote_char # concat (map escape s) @ [quote_char]"

lemma escapes_cases:
  assumes "map_of escapes c = Some e"
  shows "\<not> plain_char c" "simple_escape e" "parse_escape_sequence (backslash_char # e # l) = ok_at l [c]"
  using assms by (auto simp: escapes_def plain_char_def Let_def simple_escape_def parse_escape_sequence_def quote_char_def backslash_char_def
      tab_char_def newline_char_def carriage_return_def split: if_splits)

lemma escape_plain: "plain_char c \<Longrightarrow> escape c = [c]"
  using escapes_cases(1) [of c] by (cases "map_of escapes c") (auto simp: escape_def)

lemma lex_unescaped_char:
  "plain_char c \<Longrightarrow> lex_basic_unescaped (c # l) = (Some [c], l)"
  "c = quote_char \<or> c = backslash_char \<Longrightarrow> lex_basic_unescaped (c # l) = (None, c # l)"
  by (auto simp: lex_basic_unescaped_def plain_char_def in_range_ascii Let_def quote_char_def backslash_char_def simp del: in_range.simps)

lemma lex_escape_piece:
  assumes "text_char c"
  shows "lex_basic_char (escape c @ l) = (Some (escape c), l)"
proof (cases "map_of escapes c")
  case None
  then show ?thesis using assms by (simp add: text_char_def escape_def lex_basic_char_def lex_unescaped_char(1))
next
  case (Some e)
  then have "escape c = [backslash_char, e]" by (simp add: escape_def)
  then show ?thesis using escapes_cases(2) [OF Some] lex_unescaped_char(2) [of backslash_char "e # l"]
    by (simp add: lex_basic_char_def lex_escaped_def lex_sequence_def lex_escape_def escape_seq_char)
qed

lemma lex_print_string:
  assumes "list_all text_char s"
  shows "lex_basic_string (print_string s @ l) = (Some (print_string s), l)"
proof -
  have "fst (lex_basic_char (quote_char # l)) = None"
    using lex_unescaped_char(2) [of quote_char l]
    by (simp add: lex_basic_char_def lex_escaped_def lex_sequence_def lex_escape_def quote_char_def backslash_char_def)
  moreover have "lex_basic_char (p @ concat ps @ quote_char # l) = (Some p, concat ps @ quote_char # l)"
    if "map escape s = qs @ p # ps" for p ps qs
  proof -
    have "p \<in> set (map escape s)" using that by simp
    then show ?thesis using assms lex_escape_piece by (auto simp: list_all_iff)
  qed
  ultimately have "repeat_unlimited lex_basic_char (concat (map escape s) @ quote_char # l) =
      (Some (concat (map escape s)), quote_char # l)"
    by (intro repeat_pieces [OF consuming_strings(3)])
  then show ?thesis by (simp add: lex_basic_string_def print_string_def lex_sequence_def lex_quotation_mark_def)
qed

lemma ascii_valid: "\<forall>c\<in>set r. (of_char c :: nat) < 128 \<Longrightarrow> check_utf8_validity r = None"
proof -
  assume a: "\<forall>c\<in>set r. (of_char c :: nat) < 128"
  then have "(of_char c :: nat) \<le> 127" if "c \<in> set r" for c using that by fastforce
  then have "lex_utf8_code (c # l) = (Some [c], l)" if "c \<in> set r" for c l
    using that by (simp add: lex_utf8_code_def lex_utf8_1byte_def in_range_ascii del: in_range.simps)
  moreover have "fst (lex_utf8_code []) = None"
    by (simp add: lex_utf8_code_def lex_utf8_1byte_def lex_utf8_2byte_def lex_utf8_3byte_def lex_utf8_4byte_def lex_sequence_def)
  ultimately have "repeat_unlimited lex_utf8_code (r @ []) = (Some r, [])"
    by (intro repeat_chars [OF consuming_keys(8)])
  then show ?thesis by (simp add: check_utf8_validity_def)
qed

lemma print_string_ascii: "list_all text_char s \<Longrightarrow> check_utf8_validity (print_string s) = None"
proof (rule ascii_valid, rule ballI)
  fix x assume t: "list_all text_char s" and "x \<in> set (print_string s)"
  then consider "x = quote_char" | c where "c \<in> set s" "x \<in> set (escape c)" "text_char c"
    by (auto simp: print_string_def list_all_iff)
  then show "(of_char x :: nat) < 128"
  proof cases
    case (2 c)
    then show ?thesis
      by (auto simp: escape_def text_char_def plain_char_def escapes_def Let_def quote_char_def backslash_char_def tab_char_def
          newline_char_def carriage_return_def split: option.splits if_splits)
  qed (simp add: quote_char_def)
qed

text \<open>The loop reads the plain characters, then an escape, up to the closing quote.\<close>

lemma basic_string_loop_text:
  "list_all text_char s \<Longrightarrow> length s < n \<Longrightarrow>
     basic_string_loop n retval (concat (map escape s) @ quote_char # l) = Inr (retval @ s)"
proof (induction n arbitrary: s retval)
  case (Suc n)
  let ?u = "takeWhile plain_char s" and ?v = "dropWhile plain_char s"
  have tail: "lex_quotation_mark (concat (map escape t) @ quote_char # l) =
      (if t = [] then (Some [quote_char], l) else (None, concat (map escape t) @ quote_char # l))" if "list_all text_char t" for t
    using that
    by (cases t) (auto simp: lex_quotation_mark_def escape_def text_char_def plain_char_def Let_def quote_char_def backslash_char_def
        split: option.split)
  have "concat (map escape ?u) = ?u" by (induction s) (auto simp: escape_plain)
  then have split: "concat (map escape s) = ?u @ concat (map escape ?v)"
    by (metis concat_append map_append takeWhile_dropWhile_id)
  have v: "list_all text_char ?v" using Suc.prems(1) by (auto simp: list_all_iff dest: set_dropWhileD)
  show ?case
  proof (cases ?v)
    case Nil
    have u: "?u = s" using Nil by (metis append_Nil2 takeWhile_dropWhile_id)
    have "repeat_unlimited lex_basic_unescaped (s @ quote_char # l) = (Some s, quote_char # l)"
      using u lex_unescaped_char(2) [of quote_char l]
      by (intro repeat_chars [OF consuming_strings(1)]) (auto simp: lex_unescaped_char(1))
    moreover have "concat (map escape s) = s" using split Nil u by (metis append_Nil2 concat.simps(1) list.simps(8))
    moreover have "\<exists>e. parse_escape_sequence (quote_char # l) = Inr (Inl e, quote_char # l)"
      by (simp add: parse_escape_sequence_def err_at_def quote_char_def backslash_char_def)
    ultimately show ?thesis
      using tail [of "[]"] by (auto simp: append_matched_def append_parsed_def)
  next
    case (Cons c t)
    then have "\<not> plain_char c" by (metis hd_dropWhile list.distinct(1) list.sel(1))
    then obtain e where e: "map_of escapes c = Some e" using v Cons by (auto simp: text_char_def)
    let ?l = "concat (map escape t) @ quote_char # l"
    have "repeat_unlimited lex_basic_unescaped (?u @ backslash_char # e # ?l) = (Some ?u, backslash_char # e # ?l)"
      using lex_unescaped_char(2) [of backslash_char "e # ?l"]
      by (intro repeat_chars [OF consuming_strings(1)]) (auto simp: lex_unescaped_char(1) dest: set_takeWhileD)
    moreover have "length t < n" using Suc.prems(2) Cons length_dropWhile_le [of plain_char s] by simp
    then have "basic_string_loop n (retval @ ?u @ [c]) ?l = Inr (retval @ ?u @ [c] @ t)"
      using Suc.IH [of t "retval @ ?u @ [c]"] v Cons by simp
    moreover have "?u @ [c] @ t = s" using Cons by (metis append_Cons append_Nil takeWhile_dropWhile_id)
    moreover have "escape c = [backslash_char, e]" using e by (simp add: escape_def)
    ultimately show ?thesis
      using split Cons tail [of t] v
      by (auto simp: escapes_cases(3) [OF e] ok_at_def append_matched_def append_parsed_def Let_def)
  qed
qed simp

lemma parse_print_string:
  assumes "list_all text_char s"
  shows "parse_string (print_string s @ newline_char # l) = ok_at (newline_char # l) ((s, Basic_string), print_string s)"
proof -
  let ?loc = "print_string s @ newline_char # l" and ?inner = "concat (map escape s) @ quote_char # newline_char # l"
  have "\<not> starts_with [quote_char, quote_char, quote_char] ?loc"
  proof (cases s)
    case (Cons c t)
    then have "hd (escape c) \<noteq> quote_char" "escape c \<noteq> []" using assms
      by (auto simp: escape_def text_char_def plain_char_def Let_def quote_char_def backslash_char_def split: option.split)
    then show ?thesis using Cons by (cases "escape c") (auto simp: starts_with_def print_string_def)
  qed (simp add: starts_with_def print_string_def)
  moreover have "length s \<le> length (concat (map escape s))"
    by (induction s) (auto simp: escape_def split: option.split)
  then have "basic_string_loop (Suc (length ?inner)) [] ?inner = Inr s"
    using basic_string_loop_text [OF assms, of "Suc (length ?inner)" "[]" "newline_char # l"] by simp
  ultimately show ?thesis
    using lex_print_string [OF assms, of "newline_char # l"] print_string_ascii [OF assms]
    by (simp add: parse_string_def starts_with_def parse_basic_string_def utf8_checked_def print_string_def lex_quotation_mark_def
        del: basic_string_loop.simps)
qed

section \<open>Settings\<close>

datatype setting = Number int | Text string

fun print_setting :: "setting \<Rightarrow> string" where
  "print_setting (Number i) = print_int i"
| "print_setting (Text s) = print_string s"

fun setting_value :: "setting \<Rightarrow> toml_value" where
  "setting_value (Number i) = TInteger (word_of_int i) (print_int i)"
| "setting_value (Text s) = TString s Basic_string (print_string s)"

fun setting_ok :: "setting \<Rightarrow> bool" where
  "setting_ok (Number i) \<longleftrightarrow> - (2 ^ 63) \<le> i \<and> i < 2 ^ 63"
| "setting_ok (Text s) \<longleftrightarrow> list_all text_char s"

definition print_line :: "string \<times> setting \<Rightarrow> string" where
  "print_line p = fst p @ '' = '' @ print_setting (snd p) @ [newline_char]"

definition print_table :: "(string \<times> setting) list \<Rightarrow> string" where
  "print_table xs = concat (map print_line xs)"

definition table_value :: "(string \<times> setting) list \<Rightarrow> table_type" where
  "table_value xs = map (\<lambda>(k, x). (k, setting_value x)) xs"

definition table_ok :: "(string \<times> setting) list \<Rightarrow> bool" where
  "table_ok xs \<longleftrightarrow> distinct (map fst xs) \<and> list_all (\<lambda>(k, x). bare_key k \<and> setting_ok x) xs"

lemma print_setting_cons:
  "\<exists>c s. print_setting x = c # s \<and> (c = quote_char \<or> c = CHR ''-'' \<or> is_digit c)"
proof (cases x)
  case (Number i)
  then show ?thesis using print_int_prefix(2) [of i] by auto
qed (simp add: print_string_def)

lemma solid_setting: "solid (print_setting x @ l)"
  using print_setting_cons [of x] by (auto simp: solid_def quote_char_def tab_char_def is_digit_def)

lemma parse_value_setting:
  assumes "setting_ok x"
  shows "parse_value (Suc n) n_rec (print_setting x @ newline_char # l) = ok_at (newline_char # l) (setting_value x)"
proof (cases x)
  case (Number i)
  have "print_int i \<noteq> []" using print_int_prefix(2) [of i] by auto
  then show ?thesis
    using assms Number guess_print_int [of i l] parse_print_int [of i l]
    by (simp add: parser_equations value_body_def parse_scalar_def parse_value_helper_def ok_at_def)
next
  case (Text s)
  have "guess_value_type (print_string s @ newline_char # l) = Inr (Inr vt_string)"
    by (simp add: guess_value_type_def print_string_def)
  then show ?thesis
    using assms Text parse_print_string [of s l]
    by (simp add: parser_equations value_body_def parse_scalar_def parse_value_helper_def ok_at_def print_string_def)
qed

lemma parse_pair_line:
  assumes "bare_key k" and "setting_ok x"
  shows "parse_key_value_pair (Suc (Suc n)) n_rec (print_line (k, x) @ l) = ok_at (newline_char # l) (([k], k), setting_value x)"
proof -
  let ?v = "print_setting x @ newline_char # l"
  have "solid (CHR ''='' # CHR '' '' # ?v)" by (simp add: solid_def tab_char_def)
  then have sep: "lex_keyval_sep ('' = '' @ ?v) = (Some '' = '', ?v)"
    by (simp add: lex_keyval_sep_def lex_sequence_def maybe_def lex_ws_space solid_setting)
  have "key_ends ('' ='' @ CHR '' '' # ?v)"
  proof -
    have "solid ([]::string)" by (simp add: solid_def)
    then show ?thesis
      using lex_ws_space [of "CHR ''='' # CHR '' '' # ?v"]
      by (simp add: key_ends_def bare_char_def is_alpha_def is_digit_def Let_def lex_dot_sep_def lex_sequence_def maybe_def
          solid_def tab_char_def)
  qed
  then have "parse_key (k @ '' = '' @ ?v) = ok_at ('' = '' @ ?v) ([k], k)" using parse_bare_key [OF assms(1)] by simp
  then show ?thesis
    using sep parse_value_setting [OF assms(2), of n n_rec l]
    by (simp add: print_line_def parser_equations(4) pair_body_def ok_at_def)
qed

section \<open>Tables\<close>

text \<open>What follows a line: nothing, a setting or a header.\<close>

definition line_starts :: "location \<Rightarrow> bool" where
  "line_starts loc \<longleftrightarrow> (case loc of [] \<Rightarrow> True | c # cs \<Rightarrow> bare_char c \<or> c = CHR ''['')"

lemma line_starts_blank:
  assumes "line_starts loc"
  shows "solid loc" "skip lex_comment loc = loc" "fst (lex_newline loc) = None"
proof -
  have "c \<notin> {CHR '' '', tab_char, CHR ''#'', newline_char, carriage_return}" if "loc = c # cs" for c cs
    using that assms bare_head [of c] by (auto simp: line_starts_def tab_char_def newline_char_def carriage_return_def)
  then show "solid loc" "skip lex_comment loc = loc" "fst (lex_newline loc) = None"
    by (cases loc; force simp: solid_def skip_def lex_comment_other lex_newline_def lex_sequence_def)+
qed

lemma newline_blank: "solid (newline_char # l)" "skip lex_comment (newline_char # l) = newline_char # l"
  by (simp_all add: solid_def skip_def lex_comment_other)

definition blank_line :: lexer where
  "blank_line = lex_sequence [maybe lex_ws, maybe lex_comment, lex_newline]"

lemma consuming_blank_line: "consuming_lexer blank_line"
  by (simp add: blank_line_def lexer_rules)

lemma blank_line_newline: "blank_line (newline_char # l) = (Some [newline_char], l)"
  using lex_ws_solid [OF newline_blank(1)] lex_comment_other(1) [of newline_char]
  by (simp add: blank_line_def lex_sequence_def maybe_def lex_newline_def)

lemma no_blank_line:
  assumes "line_starts loc"
  shows "fst (blank_line loc) = None"
proof (cases loc)
  case (Cons c cs)
  then have "lex_comment loc = (None, loc)" using assms bare_head(8) [of c] by (auto simp: line_starts_def intro: lex_comment_other)
  moreover have "lex_newline loc = (None, loc)"
    using line_starts_blank(3) [OF assms] consuming_result [OF consuming_tokens(3), of loc] by auto
  ultimately show ?thesis
    using lex_ws_solid [OF line_starts_blank(1) [OF assms]] by (simp add: blank_line_def lex_sequence_def maybe_def)
qed (simp add: blank_line_def lex_sequence_def maybe_def lex_ws_def repeat_at_least_def lex_wschar_def lex_comment_other lex_newline_def)

lemma skip_line_blanks:
  assumes "line_starts loc"
  shows "skip_line (replicate j newline_char @ loc) =
    (if j = 0 then (None, loc) else (Some (replicate j newline_char), loc))"
proof (cases j)
  case 0
  then show ?thesis
    unfolding skip_line_def blank_line_def [symmetric] repeat_at_least_one [OF consuming_blank_line]
    using no_blank_line [OF assms] by simp
next
  case (Suc k)
  have "repeat_unlimited blank_line (replicate j newline_char @ loc) = (Some (replicate j newline_char), loc)"
    using no_blank_line [OF assms] blank_line_newline by (intro repeat_chars [OF consuming_blank_line]) auto
  then show ?thesis
    unfolding skip_line_def blank_line_def [symmetric] repeat_at_least_one [OF consuming_blank_line]
    using Suc blank_line_newline by simp
qed

lemma table_put_new: "map_of tab k = None \<Longrightarrow> table_put k v tab = tab @ [(k, v)]"
  by (induction k v tab rule: table_put.induct) (auto split: if_splits)

lemma insert_new_key: "map_of tab k = None \<Longrightarrow> insert_nested_key f tab v [k] r False = Inr (Inr (tab @ [(k, v)]))"
  by (simp add: insert_nested_key_def table_put_new)

lemma map_of_none: "map_of tab k = None \<longleftrightarrow> k \<notin> fst ` set tab"
  by (simp add: map_of_eq_None_iff)

lemma line_head:
  assumes "bare_key k"
  shows "\<exists>c cs. print_line (k, x) @ l = c # cs \<and> bare_char c"
  using bare_key_cons [OF assms] by (auto simp: print_line_def)

lemma after_pair_line:
  assumes "line_starts loc"
  shows "after_pair rest_at tab (newline_char # replicate j newline_char @ loc) = rest_at tab loc"
proof -
  have "skip_line (newline_char # replicate j newline_char @ loc) = (Some (replicate (Suc j) newline_char), loc)"
    using skip_line_blanks [OF assms, of "Suc j"] by simp
  then show ?thesis
    using newline_blank [of "replicate j newline_char @ loc"] line_starts_blank [OF assms] by (simp add: after_pair_def)
qed

lemma table_line_print:
  assumes "bare_key k" and "setting_ok x" and "map_of tab k = None" and "line_starts loc"
  shows "table_line rest_at tab (print_line (k, x) @ replicate j newline_char @ loc) = rest_at (tab @ [(k, setting_value x)]) loc"
proof -
  let ?l = "replicate j newline_char @ loc"
  have "fuel_for (print_line (k, x) @ ?l) = Suc (Suc (4 * length (print_line (k, x) @ ?l) + 6))" by (simp add: fuel_for_def)
  then have "parse_key_value_pair (fuel_for (print_line (k, x) @ ?l)) 0 (print_line (k, x) @ ?l) =
      ok_at (newline_char # ?l) (([k], k), setting_value x)"
    using parse_pair_line [OF assms(1,2)] by metis
  then show ?thesis
    using insert_new_key [OF assms(3)] after_pair_line [OF assms(4)] by (simp add: table_line_def ok_at_def)
qed

text \<open>The header of the next table, or the end of the file.\<close>

definition table_ends :: "location \<Rightarrow> bool" where
  "table_ends loc \<longleftrightarrow> loc = [] \<or> (\<exists>name l. bare_key name \<and> loc = table_header name @ newline_char # l)"

lemma table_ends_line: "table_ends loc \<Longrightarrow> line_starts loc"
  by (auto simp: table_ends_def line_starts_def table_header_def)

lemma ml_table_loop_ends:
  assumes "table_ends loc"
  shows "ml_table_loop (Suc n) tab loc = ok_at loc tab"
proof (cases "loc = []")
  case False
  then obtain name l where l: "bare_key name" "loc = table_header name @ newline_char # l" using assms by (auto simp: table_ends_def)
  have "skip lex_ws loc = loc" using line_starts_blank(1) [OF table_ends_line [OF assms]] by simp
  then show ?thesis
    using False header_is_table(1) [OF l(1), of l, folded l(2)] header_is_table(2) [OF l(1), of l, folded l(2)]
    by (simp add: err_at_def ok_at_def)
qed simp

lemma ml_table_loop_print:
  assumes "table_ends loc"
  shows "table_ok xs \<Longrightarrow> list_all (\<lambda>(k, x). map_of tab k = None) xs \<Longrightarrow>
    length (print_table xs) + length loc < n \<Longrightarrow> (xs = [] \<Longrightarrow> j = 0) \<Longrightarrow>
    ml_table_loop n tab (print_table xs @ replicate j newline_char @ loc) = ok_at loc (tab @ table_value xs)"
proof (induction xs arbitrary: tab n j)
  case Nil
  then obtain m where "n = Suc m" by (cases n) auto
  then show ?case using ml_table_loop_ends [OF assms] Nil by (simp add: print_table_def table_value_def del: ml_table_loop.simps)
next
  case (Cons p xs)
  obtain k x where p: "p = (k, x)" by (cases p)
  obtain m where n: "n = Suc m" using Cons.prems by (cases n) auto
  have ok: "bare_key k" "setting_ok x" "table_ok xs" "k \<notin> fst ` set xs" "map_of tab k = None"
    using Cons.prems(1,2) p by (auto simp: table_ok_def)
  define i l where "i = (if xs = [] then j else 0)"
    and "l = (if xs = [] then loc else print_table xs @ replicate j newline_char @ loc)"
  have shape: "print_table (p # xs) @ replicate j newline_char @ loc = print_line (k, x) @ replicate i newline_char @ l"
    by (simp add: print_table_def p i_def l_def)
  have starts: "line_starts l"
  proof (cases xs)
    case (Cons q ys)
    obtain k' x' where q: "q = (k', x')" by (cases q)
    then have "bare_key k'" using ok(3) Cons by (simp add: table_ok_def)
    then obtain c cs where "print_line (k', x') @ (print_table ys @ replicate j newline_char @ loc) = c # cs" "bare_char c"
      using line_head by blast
    then show ?thesis using Cons q by (simp add: l_def print_table_def line_starts_def)
  qed (simp add: l_def table_ends_line [OF assms])
  obtain c cs where c: "print_line (k, x) @ replicate i newline_char @ l = c # cs" "bare_char c"
    using line_head [OF ok(1)] by blast
  have rest: "ml_table_loop m (tab @ [(k, setting_value x)]) l = ok_at loc (tab @ (k, setting_value x) # table_value xs)"
  proof -
    have new: "list_all (\<lambda>(k', x'). map_of (tab @ [(k, setting_value x)]) k' = None) xs"
      using Cons.prems(2) ok(4) p by (auto simp: list_all_iff map_of_none image_iff)
    have "length (print_line p) > 0" by (simp add: print_line_def)
    then have len: "length (print_table xs) + length loc < m" using Cons.prems(3) n by (simp add: print_table_def del: length_greater_0_conv)
    have "ml_table_loop m (tab @ [(k, setting_value x)]) (print_table xs @ replicate (if xs = [] then 0 else j) newline_char @ loc) =
        ok_at loc ((tab @ [(k, setting_value x)]) @ table_value xs)"
      by (rule Cons.IH [OF ok(3) new len]) simp
    then show ?thesis by (simp add: l_def print_table_def split: if_splits)
  qed
  have ws: "skip lex_ws (c # cs) = c # cs" using c(2) solid_bare by simp
  have "ml_table_loop (Suc m) tab (c # cs) = table_line (ml_table_loop m) tab (c # cs)"
    using ws not_a_header [OF bare_head(7) [OF c(2)]] by (simp add: err_at_def)
  then show ?case
    using table_line_print [OF ok(1,2,5) starts, of "ml_table_loop m" i] rest shape c(1) n p by (simp add: table_value_def)
qed

lemma parse_ml_table_print:
  assumes "table_ok xs" and "table_ends loc"
  shows "parse_ml_table (print_table xs @ replicate j newline_char @ loc) = ok_at loc (table_value xs)"
proof (cases xs)
  case Nil
  have s: "skip lex_ws (skip skip_line (replicate j newline_char @ loc)) = loc"
    using skip_line_blanks [OF table_ends_line [OF assms(2)], of j] line_starts_blank(1) [OF table_ends_line [OF assms(2)]]
    by (simp add: skip_def lex_ws_solid)
  show ?thesis
  proof (cases "replicate j newline_char @ loc = []")
    case False
    then show ?thesis using s Nil ml_table_loop_ends [OF assms(2)]
      by (simp add: parse_ml_table_def print_table_def table_value_def Let_def del: ml_table_loop.simps)
  qed (use Nil in \<open>simp add: parse_ml_table_def print_table_def table_value_def\<close>)
next
  case (Cons p ys)
  obtain k x where p: "p = (k, x)" by (cases p)
  let ?loc = "print_table xs @ replicate j newline_char @ loc"
  have "bare_key k" using assms(1) Cons p by (simp add: table_ok_def)
  then obtain c cs where c: "?loc = c # cs" "bare_char c"
    using line_head [of k x "print_table ys @ replicate j newline_char @ loc"] Cons p by (auto simp: print_table_def)
  then have ls: "line_starts ?loc" by (simp add: line_starts_def)
  have "skip lex_ws (skip skip_line ?loc) = ?loc"
    using skip_line_blanks [OF ls, of 0] line_starts_blank(1) [OF ls] by (simp add: skip_def lex_ws_solid)
  moreover have "ml_table_loop (Suc (length ?loc)) [] ?loc = ok_at loc ([] @ table_value xs)"
    using Cons by (intro ml_table_loop_print [OF assms(2,1)]) (auto simp: list_all_iff)
  ultimately show ?thesis using c(1) by (simp add: parse_ml_table_def Let_def del: ml_table_loop.simps)
qed

section \<open>Files\<close>

type_synonym config_file = "(string \<times> (string \<times> setting) list) list"

definition print_section :: "string \<times> (string \<times> setting) list \<Rightarrow> string" where
  "print_section s = table_header (fst s) @ newline_char # print_table (snd s)"

text \<open>The tables of a file, with an empty line between two of them.\<close>

fun print_file :: "config_file \<Rightarrow> string" where
  "print_file [] = []"
| "print_file [s] = print_section s"
| "print_file (s # s' # ss) = print_section s @ newline_char # print_file (s' # ss)"

definition sections_value :: "config_file \<Rightarrow> table_type" where
  "sections_value cf = map (\<lambda>(name, xs). (name, TTable (table_value xs) (table_header name))) cf"

definition file_value :: "config_file \<Rightarrow> toml_value" where
  "file_value cf = TTable (sections_value cf) (take 1 (print_file cf))"

definition config_ok :: "config_file \<Rightarrow> bool" where
  "config_ok cf \<longleftrightarrow> distinct (map fst cf) \<and> list_all (\<lambda>(name, xs). bare_key name \<and> table_ok xs) cf"

lemma print_file_cons: "\<exists>l. print_file ((name, xs) # cf) = table_header name @ newline_char # l"
  by (cases cf) (simp_all add: print_section_def)

lemma table_ends_file: "config_ok cf \<Longrightarrow> table_ends (print_file cf)"
proof (cases cf)
  case (Cons s ss)
  obtain name xs where s: "s = (name, xs)" by (cases s)
  assume "config_ok cf"
  then show ?thesis using Cons s print_file_cons [of name xs ss] by (auto simp: config_ok_def table_ends_def)
qed (simp add: table_ends_def)

lemma insert_section_print:
  assumes "table_ok xs" and "table_ends loc" and "map_of data name = None"
  shows "insert_section False ([name], table_header name) data (print_table xs @ replicate j newline_char @ loc) =
    ok_at loc (data @ [(name, TTable (table_value xs) (table_header name))])"
  using parse_ml_table_print [OF assms(1,2), of j] insert_new_key [OF assms(3)]
  by (simp add: insert_section_def ok_at_def)

lemma sections_loop_print:
  "config_ok cf \<Longrightarrow> list_all (\<lambda>(name, xs). map_of data name = None) cf \<Longrightarrow> length (print_file cf) < n \<Longrightarrow>
     sections_loop n data (print_file cf) = ok_at [] (data @ sections_value cf)"
proof (induction cf arbitrary: data n)
  case Nil
  then obtain m where "n = Suc m" by (cases n) auto
  then show ?case by (simp add: sections_value_def)
next
  case (Cons s cf)
  obtain name xs where s: "s = (name, xs)" by (cases s)
  obtain m where n: "n = Suc m" using Cons.prems(3) by (cases n) auto
  have ok: "bare_key name" "table_ok xs" "config_ok cf" "name \<notin> fst ` set cf" "map_of data name = None"
    using Cons.prems(1,2) s by (auto simp: config_ok_def)
  define j where "j = (if cf = [] then 0 else 1 :: nat)"
  have shape: "print_file (s # cf) = table_header name @ newline_char # print_table xs @ replicate j newline_char @ print_file cf"
    by (cases cf) (simp_all add: j_def s print_section_def)
  let ?data = "data @ [(name, TTable (table_value xs) (table_header name))]"
  have "list_all (\<lambda>(name', xs'). map_of ?data name' = None) cf"
    using Cons.prems(2) ok(4) by (auto simp: list_all_iff map_of_none image_iff)
  moreover have "length (print_file cf) < m" using Cons.prems(3) n shape by simp
  ultimately have rest: "sections_loop m ?data (print_file cf) = ok_at [] (?data @ sections_value cf)"
    by (rule Cons.IH [OF ok(3)])
  have ne: "print_file (s # cf) \<noteq> []" using shape by (simp add: table_header_def)
  show ?case
    using ne header_is_table [OF ok(1), of "print_table xs @ replicate j newline_char @ print_file cf", folded shape]
      insert_section_print [OF ok(2) table_ends_file [OF ok(3)] ok(5), of j] rest n
    by (simp add: err_at_def ok_at_def sections_value_def s)
qed

lemma last_print_file: "cf \<noteq> [] \<Longrightarrow> last (print_file cf) = newline_char"
proof (induction cf rule: print_file.induct)
  case (2 s)
  have "last (newline_char # print_table xs) = newline_char" for xs
    by (induction xs rule: rev_induct) (simp_all add: print_table_def print_line_def)
  then show ?case by (simp add: print_section_def)
next
  case (3 s s' ss)
  obtain name xs where "s' = (name, xs)" by (cases s')
  then have "print_file (s' # ss) \<noteq> []" using print_file_cons [of name xs ss] by (auto simp: table_header_def)
  then show ?case using 3 by simp
qed simp

lemma parse_file_text:
  assumes "config_ok cf"
  shows "parse_letters (print_file cf) = Inr (file_value cf)"
proof (cases cf)
  case Nil
  then show ?thesis
    by (simp add: parse_letters_def with_final_newline_def skip_bom_def parse_toml_file_def ok_at_def file_value_def sections_value_def)
next
  case (Cons s ss)
  obtain name xs where s: "s = (name, xs)" by (cases s)
  let ?f = "print_file cf"
  obtain l where l: "?f = table_header name @ newline_char # l" using print_file_cons [of name xs ss] Cons s by blast
  have te: "table_ends ?f" by (rule table_ends_file [OF assms])
  have final: "with_final_newline ?f = ?f" using last_print_file [of cf] Cons by (simp add: with_final_newline_def)
  have bom: "skip_bom ?f = ?f" using l by (simp add: skip_bom_def table_header_def)
  have no_comment: "skip lex_first_comments ?f = ?f"
  proof -
    have w: "lex_ws ?f = (None, ?f)" using lex_ws_solid line_starts_blank(1) [OF table_ends_line [OF te]] by blast
    have "lex_comment ?f = (None, ?f)" using l by (simp add: table_header_def lex_comment_other)
    then show ?thesis
      using w by (simp add: lex_first_comments_def skip_def lex_sequence_def repeat_at_least_def maybe_def)
  qed
  have "parse_ml_table ?f = ok_at ?f []"
    using parse_ml_table_print [of "[]" ?f 0] te by (simp add: table_ok_def print_table_def table_value_def)
  moreover have "sections_loop (Suc (length ?f)) [] ?f = ok_at [] ([] @ sections_value cf)"
    by (rule sections_loop_print [OF assms]) (auto simp: list_all_iff)
  ultimately have "parse_toml_file ?f = Inr (Inr (file_value cf), [])"
    using l no_comment by (simp add: parse_toml_file_def Let_def ok_at_def file_value_def table_header_def del: sections_loop.simps)
  then show ?thesis using final bom by (simp add: parse_letters_def)
qed

section \<open>The configuration file of the repository\<close>

text \<open>\<^verbatim>\<open>conf/shbk2.toml\<close>.\<close>

definition shbk2_config :: config_file where
  "shbk2_config =
     [(''server'', [(''ip'', Text ''127.0.0.1''), (''port'', Number 9000), (''backlog'', Number 128),
        (''req-timeout'', Number 10), (''res-timeout'', Number 5)]),
      (''database'', [(''host'', Text ''127.0.0.1''), (''port'', Number 3306), (''user'', Text ''root''),
        (''pwd'', Text ''1234''), (''db'', Text ''shbk2''), (''min-size'', Number 2), (''max-size'', Number 4),
        (''waiting-seconds'', Number 10)])]"

lemma shbk2_config_ok: "config_ok shbk2_config"
  by code_simp

lemma shbk2_config_parsed: "parse_letters (print_file shbk2_config) = Inr (file_value shbk2_config)"
  by (rule parse_file_text [OF shbk2_config_ok])

lemma shbk2_letters:
  "print_file shbk2_config =
     concat (map (\<lambda>s. s @ [newline_char])
       [''[server]'',
        ''ip = '' @ [quote_char] @ ''127.0.0.1'' @ [quote_char],
        ''port = 9000'',
        ''backlog = 128'',
        ''req-timeout = 10'',
        ''res-timeout = 5'',
        '''',
        ''[database]'',
        ''host = '' @ [quote_char] @ ''127.0.0.1'' @ [quote_char],
        ''port = 3306'',
        ''user = '' @ [quote_char] @ ''root'' @ [quote_char],
        ''pwd = '' @ [quote_char] @ ''1234'' @ [quote_char],
        ''db = '' @ [quote_char] @ ''shbk2'' @ [quote_char],
        ''min-size = 2'',
        ''max-size = 4'',
        ''waiting-seconds = 10''])"
proof -
  have t: "map_of escapes c = None \<Longrightarrow> escape c = [c]" for c by (simp add: escape_def)
  have "decimal 9000 = ''9000''" "decimal 3306 = ''3306''" "decimal 128 = ''128''" "decimal 10 = ''10''" "decimal 5 = ''5''"
    "decimal 4 = ''4''" "decimal 2 = ''2''"
    by (simp_all add: decimal.simps digit_def char_of_def bit_0)
  then show ?thesis
    by (simp add: shbk2_config_def print_section_def table_header_def print_table_def print_line_def print_string_def print_int_def t
        escapes_def quote_char_def backslash_char_def tab_char_def newline_char_def carriage_return_def)
qed

section \<open>Properties\<close>

lemma sint_int64: "- (2 ^ 63) \<le> i \<Longrightarrow> i < 2 ^ 63 \<Longrightarrow> sint (word_of_int i :: u64) = i"
  by (simp add: signed_of_int signed_take_bit_int_eq_self)

lemma setting_value_inj: "setting_ok x \<Longrightarrow> setting_ok y \<Longrightarrow> setting_value x = setting_value y \<Longrightarrow> x = y"
  using sint_int64 by (cases x; cases y) (simp_all, metis)

lemma map_pairs_inj:
  assumes "map (\<lambda>(k, x). (k, f x)) xs = map (\<lambda>(k, x). (k, f x)) ys" and "\<And>k x. (k, x) \<in> set xs \<Longrightarrow> P x" "\<And>k x. (k, x) \<in> set ys \<Longrightarrow> P x"
    and "\<And>x y. P x \<Longrightarrow> P y \<Longrightarrow> f x = f y \<Longrightarrow> x = y"
  shows "xs = ys"
  using assms(1-3)
proof (induction xs arbitrary: ys)
  case (Cons p xs)
  obtain q zs where q: "ys = q # zs" using Cons.prems(1) by (cases ys) auto
  obtain k x where p: "p = (k, x)" by (cases p)
  obtain k' y where y: "q = (k', y)" by (cases q)
  have "f x = f y" "k = k'" using Cons.prems(1) p q y by simp_all
  moreover have "P x" "P y" using Cons.prems(2,3) p q y by auto
  moreover have "xs = zs"
  proof (rule Cons.IH)
    show "map (\<lambda>(k, x). (k, f x)) xs = map (\<lambda>(k, x). (k, f x)) zs" using Cons.prems(1) q by simp
    show "P x" if "(k, x) \<in> set xs" for k x using Cons.prems(2) that by (meson list.set_intros(2))
    show "P x" if "(k, x) \<in> set zs" for k x using Cons.prems(3) that q by (meson list.set_intros(2))
  qed
  ultimately show ?case using assms(4) p q y by blast
qed simp

lemma file_value_inj:
  assumes "config_ok cf" and "config_ok cf'" and "file_value cf = file_value cf'"
  shows "cf = cf'"
proof -
  have table: "xs = ys" if "table_ok xs" "table_ok ys" "TTable (table_value xs) r = TTable (table_value ys) r'" for xs ys r r'
    by (rule map_pairs_inj [where f = setting_value and P = setting_ok])
      (use that setting_value_inj in \<open>auto simp: table_ok_def table_value_def list_all_iff\<close>)
  have "map (\<lambda>(name, v). (name, projr (as_table v))) (sections_value c) = map (\<lambda>(name, xs). (name, table_value xs)) c" for c
    unfolding sections_value_def by (induction c) (auto simp: as_table_def)
  moreover have "sections_value cf = sections_value cf'" using assms(3) by (simp add: file_value_def)
  ultimately have "map (\<lambda>(name, xs). (name, table_value xs)) cf = map (\<lambda>(name, xs). (name, table_value xs)) cf'" by metis
  then show ?thesis
    by (rule map_pairs_inj [where P = table_ok])
      (use assms(1,2) table in \<open>auto simp: config_ok_def list_all_iff\<close>)
qed

text \<open>
  Claim C5: what is written is read back. A file of tables with bare keys, 64-bit integers and strings, as the
  configuration of the repository is written, parses to exactly its tables, keys and values; so two such
  configurations are never written alike.
\<close>

theorem parse_print_file:
  assumes "config_ok cf"
  shows "parse_letters (print_file cf) = Inr (file_value cf) \<and>
    (config_ok cf' \<and> print_file cf' = print_file cf \<longrightarrow> cf' = cf)"
proof -
  note parsed = parse_file_text [OF assms]
  have "cf' = cf" if "config_ok cf'" "print_file cf' = print_file cf"
    by (rule file_value_inj [OF that(1) assms]) (use parse_file_text [OF that(1)] parsed that(2) in simp)
  then show ?thesis using parsed by blast
qed

theorem parse_print_file_witness:
  "config_ok shbk2_config \<and> parse_letters (print_file shbk2_config) = Inr (file_value shbk2_config)"
  using parse_print_file [OF shbk2_config_ok, of shbk2_config] shbk2_config_ok by blast

end
