(* ===== verification/Sys_Config.thy ===== *)
theory Sys_Config
  imports Toml_Config
begin

text \<open>
  \<^verbatim>\<open>src/sys_config\<close>: the configuration file, and the part of \<^verbatim>\<open>toml11\<close> that reads its values: looking up a key
  of a table, and the conversions to strings and integers. The files that can be opened are an argument. An
  integer of the file has 64 bits and is cut to the type it is asked for. The texts of
  the exceptions are abbreviated to their first words.
\<close>

section \<open>Looking up values\<close>

definition bind_exn :: "exn + 'a \<Rightarrow> ('a \<Rightarrow> exn + 'b) \<Rightarrow> exn + 'b" where
  "bind_exn m f = (case m of Inl e \<Rightarrow> Inl e | Inr x \<Rightarrow> f x)"

definition toml_find :: "toml_value \<Rightarrow> string \<Rightarrow> exn + toml_value" where
  "toml_find v ky =
     bind_exn (as_table v) (\<lambda>tab.
     case map_of tab ky of
       None \<Rightarrow> Inl (Out_of_range (''key '' @ ky @ '' not found''))
     | Some x \<Rightarrow> Inr x)"

definition get_string :: "toml_value \<Rightarrow> exn + string" where
  "get_string v = as_string v"

text \<open>\<^verbatim>\<open>get<T>\<close> for an integral type: a \<^verbatim>\<open>static_cast\<close> from 64 bits.\<close>

definition get_integral :: "toml_value \<Rightarrow> exn + 'a::len word" where
  "get_integral v = bind_exn (as_integer v) (\<lambda>i. Inr (ucast i))"

section \<open>Class SysConfig\<close>

record SysConfig =
  cfg_config :: toml_value
  cfg_loaded :: bool
  cfg_server :: toml_value
  cfg_database :: toml_value

definition SysConfig_new :: SysConfig where
  "SysConfig_new = \<lparr>cfg_config = TEmpty, cfg_loaded = False, cfg_server = TEmpty, cfg_database = TEmpty\<rparr>"

text \<open>
  \<^verbatim>\<open>Load\<close>: the members are assigned one after the other, so an exception leaves those
  behind that were assigned before it.
\<close>

definition Load :: "(string \<Rightarrow> string option) \<Rightarrow> SysConfig \<Rightarrow> string \<Rightarrow> fault option \<times> SysConfig" where
  "Load files cfg filename =
     (if cfg_loaded cfg then (None, cfg)
      else (case toml_parse files filename of
              Inl f \<Rightarrow> (Some f, cfg)
            | Inr v \<Rightarrow>
                (let c1 = cfg\<lparr>cfg_config := v\<rparr>
                 in case toml_find v ''server'' of
                      Inl e \<Rightarrow> (Some (Uncaught e), c1)
                    | Inr srv \<Rightarrow>
                        (let c2 = c1\<lparr>cfg_server := srv\<rparr>
                         in case toml_find v ''database'' of
                              Inl e \<Rightarrow> (Some (Uncaught e), c2)
                            | Inr db \<Rightarrow> (None, c2\<lparr>cfg_database := db, cfg_loaded := True\<rparr>)))))"

definition IsLoaded :: "SysConfig \<Rightarrow> bool" where
  "IsLoaded cfg = cfg_loaded cfg"

definition ServerGet_string :: "SysConfig \<Rightarrow> string \<Rightarrow> exn + string" where
  "ServerGet_string cfg key = bind_exn (toml_find (cfg_server cfg) key) get_string"

definition ServerGet_int :: "SysConfig \<Rightarrow> string \<Rightarrow> exn + 'a::len word" where
  "ServerGet_int cfg key = bind_exn (toml_find (cfg_server cfg) key) get_integral"

definition DatabaseGet_string :: "SysConfig \<Rightarrow> string \<Rightarrow> exn + string" where
  "DatabaseGet_string cfg key = bind_exn (toml_find (cfg_database cfg) key) get_string"

definition DatabaseGet_int :: "SysConfig \<Rightarrow> string \<Rightarrow> exn + 'a::len word" where
  "DatabaseGet_int cfg key = bind_exn (toml_find (cfg_database cfg) key) get_integral"

section \<open>Facts\<close>

lemma bind_exn_simps [simp]: "bind_exn (Inl e) f = Inl e" "bind_exn (Inr x) f = f x"
  by (simp_all add: bind_exn_def)

lemma bind_exn_Inr_conv: "bind_exn m f = Inr y \<longleftrightarrow> (\<exists>x. m = Inr x \<and> f x = Inr y)"
  by (cases m) auto

text \<open>What a loaded configuration has: a file that was parsed, with both tables.\<close>

definition cfg_ok :: "SysConfig \<Rightarrow> bool" where
  "cfg_ok cfg \<longleftrightarrow> (cfg_loaded cfg \<longrightarrow>
     toml_find (cfg_config cfg) ''server'' = Inr (cfg_server cfg) \<and>
     toml_find (cfg_config cfg) ''database'' = Inr (cfg_database cfg))"

lemma cfg_ok_Load: "cfg_ok cfg \<Longrightarrow> cfg_ok (snd (Load files cfg f))"
  by (auto simp: Load_def cfg_ok_def Let_def split: sum.splits)

section \<open>Written files\<close>

lemma map_of_table_value: "map_of (table_value xs) k = map_option setting_value (map_of xs k)"
  unfolding table_value_def by (induction xs) auto

lemma toml_find_file:
  "toml_find (file_value cf) k =
     (case map_of cf k of None \<Rightarrow> Inl (Out_of_range (''key '' @ k @ '' not found''))
      | Some xs \<Rightarrow> Inr (TTable (table_value xs) (table_header k)))"
proof -
  have "map_of (sections_value cf) k = map_option (\<lambda>xs. TTable (table_value xs) (table_header k)) (map_of cf k)"
    unfolding sections_value_def by (induction cf) auto
  then show ?thesis by (simp add: toml_find_def file_value_def as_table_def split: option.split)
qed

lemma toml_find_table:
  "toml_find (TTable (table_value xs) r) k =
     (case map_of xs k of None \<Rightarrow> Inl (Out_of_range (''key '' @ k @ '' not found'')) | Some x \<Rightarrow> Inr (setting_value x))"
  by (simp add: toml_find_def as_table_def map_of_table_value split: option.split)

text \<open>What the server is to find under a key.\<close>

definition text_setting :: "(string \<times> setting) list \<Rightarrow> string \<Rightarrow> exn + string" where
  "text_setting xs k =
     (case map_of xs k of
        None \<Rightarrow> Inl (Out_of_range (''key '' @ k @ '' not found''))
      | Some (Text s) \<Rightarrow> Inr s
      | Some (Number i) \<Rightarrow> Inl (Type_error ''toml::value::as_string(): ''))"

definition number_setting :: "(string \<times> setting) list \<Rightarrow> string \<Rightarrow> exn + 'a::len word" where
  "number_setting xs k =
     (case map_of xs k of
        None \<Rightarrow> Inl (Out_of_range (''key '' @ k @ '' not found''))
      | Some (Text s) \<Rightarrow> Inl (Type_error ''toml::value::as_integer(): '')
      | Some (Number i) \<Rightarrow> Inr (word_of_int i))"

lemma get_text_setting: "bind_exn (toml_find (TTable (table_value xs) r) k) get_string = text_setting xs k"
proof -
  have "get_string (setting_value x) = (case x of Text s \<Rightarrow> Inr s | Number i \<Rightarrow> Inl (Type_error ''toml::value::as_string(): ''))" for x
    by (cases x) (simp_all add: get_string_def as_string_def)
  then show ?thesis by (simp add: toml_find_table text_setting_def split: option.split setting.split)
qed

lemma cut_int64: "LENGTH('a::len) \<le> 64 \<Longrightarrow> ucast (word_of_int i :: u64) = (word_of_int i :: 'a word)"
  by (rule bit_word_eqI) (simp add: bit_simps)

lemma get_number_setting:
  assumes "LENGTH('a::len) \<le> 64"
  shows "bind_exn (toml_find (TTable (table_value xs) r) k) get_integral = (number_setting xs k :: exn + 'a word)"
proof -
  have "get_integral (setting_value x) =
      (case x of Number i \<Rightarrow> Inr (word_of_int i :: 'a word) | Text s \<Rightarrow> Inl (Type_error ''toml::value::as_integer(): ''))" for x
    using cut_int64 [OF assms] by (cases x) (simp_all add: get_integral_def as_integer_def)
  then show ?thesis by (simp add: toml_find_table number_setting_def split: option.split setting.split)
qed

text \<open>The configuration that \<open>Load\<close> leaves for a written file.\<close>

definition written_config :: "config_file \<Rightarrow> (string \<times> setting) list \<Rightarrow> (string \<times> setting) list \<Rightarrow> SysConfig" where
  "written_config cf srv db =
     \<lparr>cfg_config = file_value cf, cfg_loaded = True, cfg_server = TTable (table_value srv) (table_header ''server''),
      cfg_database = TTable (table_value db) (table_header ''database'')\<rparr>"

lemma Load_written:
  assumes "config_ok cf" and "files f = Some (print_file cf)" and "map_of cf ''server'' = Some srv" and "map_of cf ''database'' = Some db"
  shows "Load files SysConfig_new f = (None, written_config cf srv db)"
  using assms(2-) parse_file_text [OF assms(1)]
  by (simp add: Load_def SysConfig_new_def toml_parse_def toml_find_file written_config_def)

lemma Get_written:
  "ServerGet_string (written_config cf srv db) k = text_setting srv k"
  "DatabaseGet_string (written_config cf srv db) k = text_setting db k"
  "LENGTH('a::len) \<le> 64 \<Longrightarrow> ServerGet_int (written_config cf srv db) k = (number_setting srv k :: exn + 'a word)"
  "LENGTH('a::len) \<le> 64 \<Longrightarrow> DatabaseGet_int (written_config cf srv db) k = (number_setting db k :: exn + 'a word)"
  by (simp_all add: ServerGet_string_def DatabaseGet_string_def ServerGet_int_def DatabaseGet_int_def written_config_def
      get_text_setting get_number_setting)

text \<open>The files of a machine that has the configuration of the repository.\<close>

definition shbk2_files :: "string \<Rightarrow> string option" where
  "shbk2_files f = Some (print_file shbk2_config)"

definition shbk2_cfg :: SysConfig where
  "shbk2_cfg = written_config shbk2_config (the (map_of shbk2_config ''server'')) (the (map_of shbk2_config ''database''))"

lemma Load_shbk2: "Load shbk2_files SysConfig_new f = (None, shbk2_cfg)"
  unfolding shbk2_cfg_def by (rule Load_written [OF shbk2_config_ok]) (simp_all add: shbk2_files_def shbk2_config_def)

section \<open>Properties\<close>

text \<open>
  A configuration counts as loaded exactly when the file was parsed and has
  both tables; if \<^verbatim>\<open>Load\<close> throws, it is not loaded; and loading again changes nothing.
\<close>

theorem Load_all_or_nothing:
  assumes "\<not> cfg_loaded cfg" and "Load files cfg f = (x, cfg')"
  shows "(x = None \<longleftrightarrow> IsLoaded cfg') \<and>
    (IsLoaded cfg' \<longleftrightarrow> (\<exists>v srv db. toml_parse files f = Inr v \<and> toml_find v ''server'' = Inr srv \<and>
       toml_find v ''database'' = Inr db \<and> cfg_server cfg' = srv \<and> cfg_database cfg' = db)) \<and>
    (IsLoaded cfg' \<longrightarrow> Load files' cfg' f' = (None, cfg'))"
  using assms by (auto simp: Load_def IsLoaded_def Let_def split: sum.splits)

theorem Load_all_or_nothing_witness:
  "IsLoaded shbk2_cfg \<and> Load (\<lambda>_. None) shbk2_cfg ''other'' = (None, shbk2_cfg)"
proof -
  have "\<not> cfg_loaded SysConfig_new" by (simp add: SysConfig_new_def)
  from Load_all_or_nothing [OF this Load_shbk2] show ?thesis by blast
qed

text \<open>
  Claim C38: from the letters of the file to the values the server asks for. A written configuration with both tables
  is loaded, and every key gives its string, or its number in the width it is asked for, or the exception for a
  key that is missing or holds the other kind of value.
\<close>

theorem Load_reads_what_is_written:
  assumes "config_ok cf" and "files f = Some (print_file cf)" and "map_of cf ''server'' = Some srv" and "map_of cf ''database'' = Some db"
    and "LENGTH('a::len) \<le> 64"
  shows "\<exists>cfg. Load files SysConfig_new f = (None, cfg) \<and> IsLoaded cfg \<and>
    (\<forall>k. ServerGet_string cfg k = text_setting srv k \<and> DatabaseGet_string cfg k = text_setting db k \<and>
         ServerGet_int cfg k = (number_setting srv k :: exn + 'a word) \<and> DatabaseGet_int cfg k = (number_setting db k :: exn + 'a word))"
  using Load_written [of cf files f srv db, OF assms(1-4)] Get_written(1-2) Get_written(3-4) [where 'a = 'a, OF assms(5)]
  by (auto simp: IsLoaded_def written_config_def)

theorem Load_reads_what_is_written_witness:
  "\<exists>cfg. Load shbk2_files SysConfig_new ''shbk2.toml'' = (None, cfg) \<and> IsLoaded cfg \<and> ServerGet_string cfg ''ip'' = Inr ''127.0.0.1'' \<and>
     ServerGet_int cfg ''port'' = Inr (9000 :: u16) \<and> ServerGet_string cfg ''port'' = Inl (Type_error ''toml::value::as_string(): '')"
proof -
  have s: "map_of shbk2_config ''server'' = Some (snd (shbk2_config ! 0))" "map_of shbk2_config ''database'' = Some (snd (shbk2_config ! 1))"
    by (simp_all add: shbk2_config_def)
  have f: "shbk2_files ''shbk2.toml'' = Some (print_file shbk2_config)" by (simp add: shbk2_files_def)
  have "LENGTH(16) \<le> 64" by simp
  from Load_reads_what_is_written [of shbk2_config shbk2_files "''shbk2.toml''", OF shbk2_config_ok f s this] obtain cfg where
    "Load shbk2_files SysConfig_new ''shbk2.toml'' = (None, cfg)" "IsLoaded cfg"
    "ServerGet_string cfg ''ip'' = text_setting (snd (shbk2_config ! 0)) ''ip''"
    "ServerGet_string cfg ''port'' = text_setting (snd (shbk2_config ! 0)) ''port''"
    "ServerGet_int cfg ''port'' = (number_setting (snd (shbk2_config ! 0)) ''port'' :: exn + u16)" by blast
  then show ?thesis by (auto simp: text_setting_def number_setting_def shbk2_config_def)
qed

end
