(* ===== verification/Dbcp_Mysql.thy ===== *)
theory Dbcp_Mysql
  imports Prelude
begin

text \<open>
  \<^verbatim>\<open>src/dbcp_mysql\<close>: the pool of database connections. The MySQL client library is not part
  of the repository; its functions are a record that the model takes as an argument, over
  an arbitrary type of library state. Handlers and result sets are addresses the library
  hands out.
\<close>

section \<open>The client library\<close>

record DbInfo =
  db_host :: string
  db_user :: string
  db_pwd :: string
  db_db :: string
  db_port :: u32

type_synonym MYSQL_ROW = "string option list"

record 'd mysql =
  mysql_library_init :: "'d \<Rightarrow> 'd"
  mysql_init :: "'d \<Rightarrow> addr option \<times> 'd"
  mysql_real_connect :: "addr option \<Rightarrow> DbInfo \<Rightarrow> 'd \<Rightarrow> addr option \<times> 'd"
  mysql_real_query :: "addr \<Rightarrow> string \<Rightarrow> 'd \<Rightarrow> i32 \<times> 'd"
  mysql_error :: "addr \<Rightarrow> 'd \<Rightarrow> string"
  mysql_store_result :: "addr \<Rightarrow> 'd \<Rightarrow> addr option \<times> 'd"
  mysql_affected_rows :: "addr \<Rightarrow> 'd \<Rightarrow> u64"
  mysql_fetch_row :: "addr \<Rightarrow> 'd \<Rightarrow> MYSQL_ROW option \<times> 'd"
  mysql_fetch_field :: "addr \<Rightarrow> 'd \<Rightarrow> string option \<times> 'd"
  mysql_free_result :: "addr \<Rightarrow> 'd \<Rightarrow> 'd"

text \<open>
  A stored result is finite: every row or field that is fetched leaves fewer behind.
\<close>

definition results_finite :: "'d mysql \<Rightarrow> bool" where
  "results_finite my \<longleftrightarrow> (\<exists>(rows :: addr \<Rightarrow> 'd \<Rightarrow> nat) (fields :: addr \<Rightarrow> 'd \<Rightarrow> nat). \<forall>r d.
     (fst (mysql_fetch_row my r d) \<noteq> None \<longrightarrow> rows r (snd (mysql_fetch_row my r d)) < rows r d) \<and>
     (fst (mysql_fetch_field my r d) \<noteq> None \<longrightarrow> fields r (snd (mysql_fetch_field my r d)) < fields r d))"

section \<open>Class SelectResult\<close>

record SelectResult =
  sr_result :: addr
  sr_rows :: "MYSQL_ROW list"
  sr_fields_name :: "string list"

text \<open>Both loops of the constructor: they end when the library returns a null pointer.\<close>

partial_function (option) fetch_loop ::
    "(addr \<Rightarrow> 'd \<Rightarrow> 'a option \<times> 'd) \<Rightarrow> addr \<Rightarrow> 'd \<Rightarrow> 'a list \<Rightarrow> ('a list \<times> 'd) option" where
  "fetch_loop fetch r d acc =
     (case fetch r d of
        (None, d') \<Rightarrow> Some (acc, d')
      | (Some x, d') \<Rightarrow> fetch_loop fetch r d' (acc @ [x]))"

definition or_diverge :: "'a option \<Rightarrow> 'a run" where
  "or_diverge x = (case x of None \<Rightarrow> Inl Diverge | Some y \<Rightarrow> Inr y)"

definition SelectResult_new :: "'d mysql \<Rightarrow> addr \<Rightarrow> 'd \<Rightarrow> (SelectResult \<times> 'd) run" where
  "SelectResult_new my result d =
     bind_run (or_diverge (fetch_loop (mysql_fetch_row my) result d [])) (\<lambda>(rows, d1).
     bind_run (or_diverge (fetch_loop (mysql_fetch_field my) result d1 [])) (\<lambda>(names, d2).
     Inr (\<lparr>sr_result = result, sr_rows = rows, sr_fields_name = names\<rparr>, d2)))"

definition SelectResult_free :: "'d mysql \<Rightarrow> SelectResult option \<Rightarrow> 'd \<Rightarrow> 'd" where
  "SelectResult_free my sr d =
     (case sr of None \<Rightarrow> d | Some x \<Rightarrow> mysql_free_result my (sr_result x) d)"

section \<open>Class ConnPool\<close>

record HandlerWrapper =
  hw_handler :: "addr option"
  hw_is_using :: bool

record ConnPool =
  kMinCount :: u32
  kMaxCount :: u32
  db_info :: DbInfo
  using_handler_count :: i32
  handler_wrappers :: "HandlerWrapper list"

definition kDefaultMinConnCount :: u32 where "kDefaultMinConnCount = 4"
definition kDefaultMaxConnCount :: u32 where "kDefaultMaxConnCount = 8"

text \<open>A failed connection leaves a null handler in the wrapper.\<close>

definition HandlerWrapper_new :: "'d mysql \<Rightarrow> DbInfo \<Rightarrow> 'd \<Rightarrow> HandlerWrapper \<times> 'd" where
  "HandlerWrapper_new my info d =
     (let (h, d1) = mysql_init my d;
          (h', d2) = mysql_real_connect my h info d1
      in (\<lparr>hw_handler = h', hw_is_using = False\<rparr>, d2))"

fun open_wrappers :: "'d mysql \<Rightarrow> DbInfo \<Rightarrow> nat \<Rightarrow> 'd \<Rightarrow> HandlerWrapper list \<times> 'd" where
  "open_wrappers my info 0 d = ([], d)"
| "open_wrappers my info (Suc n) d =
     (let (w, d1) = HandlerWrapper_new my info d;
          (ws, d2) = open_wrappers my info n d1
      in (w # ws, d2))"

definition ConnPool_new :: "'d mysql \<Rightarrow> DbInfo \<Rightarrow> u32 \<Rightarrow> u32 \<Rightarrow> 'd \<Rightarrow> ConnPool \<times> 'd" where
  "ConnPool_new my info min_conn_count max_conn_count d =
     (let (ws, d') = open_wrappers my info (unat min_conn_count) (mysql_library_init my d)
      in (\<lparr>kMinCount = min_conn_count, kMaxCount = max_conn_count, db_info = info,
           using_handler_count = 0, handler_wrappers = ws\<rparr>, d'))"

record ConnHandler =
  ch_handler :: "addr option"
  ch_index :: nat

definition AllocateConnHandler :: "ConnPool \<Rightarrow> nat \<Rightarrow> ConnHandler \<times> ConnPool" where
  "AllocateConnHandler pool idx =
     (let w = handler_wrappers pool ! idx
      in (\<lparr>ch_handler = hw_handler w, ch_index = idx\<rparr>,
          pool\<lparr>using_handler_count := using_handler_count pool + 1,
               handler_wrappers := (handler_wrappers pool)[idx := w\<lparr>hw_is_using := True\<rparr>]\<rparr>))"

text \<open>
  The wait's predicate: the sizes are compared as 64-bit unsigned numbers, so the counter
  is sign-extended.
\<close>

definition can_request :: "ConnPool \<Rightarrow> bool" where
  "can_request pool \<longleftrightarrow>
     (of_nat (length (handler_wrappers pool)) :: u64) \<noteq> scast (using_handler_count pool) \<or>
     length (handler_wrappers pool) < unat (kMaxCount pool)"

fun first_free :: "HandlerWrapper list \<Rightarrow> nat \<Rightarrow> nat option" where
  "first_free [] i = None"
| "first_free (w # ws) i = (if \<not> hw_is_using w then Some i else first_free ws (Suc i))"

text \<open>
  The pool is the one at the moment the wait ends, by a notification or by the timeout;
  from there on the lock is held.
\<close>

definition RequestHandler :: "'d mysql \<Rightarrow> ConnPool \<Rightarrow> 'd \<Rightarrow> ConnHandler option \<times> ConnPool \<times> 'd" where
  "RequestHandler my pool d =
     (if \<not> can_request pool then (None, pool, d)
      else (case first_free (handler_wrappers pool) 0 of
              Some i \<Rightarrow> (case AllocateConnHandler pool i of (c, pool') \<Rightarrow> (Some c, pool', d))
            | None \<Rightarrow>
                (if length (handler_wrappers pool) < unat (kMaxCount pool) then
                   (let (w, d') = HandlerWrapper_new my (db_info pool) d;
                        pool1 = pool\<lparr>handler_wrappers := handler_wrappers pool @ [w]\<rparr>;
                        (c, pool') = AllocateConnHandler pool1 (length (handler_wrappers pool1) - 1)
                    in (Some c, pool', d'))
                 else (None, pool, d))))"

definition ReleaseConnHandler :: "ConnPool \<Rightarrow> nat \<Rightarrow> ConnPool run" where
  "ReleaseConnHandler pool idx =
     guard_run Out_of_bounds (idx < length (handler_wrappers pool))
       (Inr (pool\<lparr>using_handler_count := using_handler_count pool - 1,
                  handler_wrappers := (handler_wrappers pool)
                    [idx := (handler_wrappers pool ! idx)\<lparr>hw_is_using := False\<rparr>]\<rparr>))"

section \<open>Class ConnHandler\<close>

type_synonym SqlResult = "SelectResult option \<times> u64"

definition Conn_Execute :: "'d mysql \<Rightarrow> ConnHandler \<Rightarrow> string \<Rightarrow> 'd \<Rightarrow> ((exn + SqlResult) \<times> 'd) run" where
  "Conn_Execute my c sql d =
     (case ch_handler c of
        None \<Rightarrow> Inr (Inl (Runtime_error ''handler is invalid...''), d)
      | Some h \<Rightarrow>
          (case mysql_real_query my h sql d of (rc, d1) \<Rightarrow>
             if rc \<noteq> 0 then Inr (Inl (Runtime_error (mysql_error my h d1)), d1)
             else (case mysql_store_result my h d1 of
                     (None, d2) \<Rightarrow> Inr (Inr (None, mysql_affected_rows my h d2), d2)
                   | (Some r, d2) \<Rightarrow>
                       bind_run (SelectResult_new my r d2) (\<lambda>(sr, d3).
                       Inr (Inr (Some sr, mysql_affected_rows my h d3), d3)))))"

text \<open>
  The use every client makes of the pool: a handler is requested, used if there is one,
  and given back by the destructor of the \<^verbatim>\<open>unique_ptr\<close> however the use ends.
\<close>

definition with_handler ::
    "'d mysql \<Rightarrow> ConnPool \<Rightarrow> 'd \<Rightarrow> (ConnHandler \<Rightarrow> 'd \<Rightarrow> ('r \<times> 'd) run) \<Rightarrow> ('r option \<times> ConnPool \<times> 'd) run" where
  "with_handler my pool d body =
     (case RequestHandler my pool d of
        (None, pool', d') \<Rightarrow> Inr (None, pool', d')
      | (Some c, pool', d') \<Rightarrow>
          bind_run (body c d') (\<lambda>(r, d'').
          bind_run (ReleaseConnHandler pool' (ch_index c)) (\<lambda>pool''. Inr (Some r, pool'', d''))))"

section \<open>The pool's clients, interleaved\<close>

text \<open>
  The handlers that are out: each is released once, by its destructor. What clients do
  with the library in between does not touch the pool.
\<close>

datatype conn_label = CRequest "ConnHandler option" | CRelease ConnHandler | CUse

inductive conn_step ::
    "'d mysql \<Rightarrow> ConnPool \<times> ConnHandler list \<times> 'd \<Rightarrow> conn_label \<Rightarrow> ConnPool \<times> ConnHandler list \<times> 'd \<Rightarrow> bool"
  for my where
  request: "RequestHandler my pool d = (r, pool', d') \<Longrightarrow>
     conn_step my (pool, cs, d) (CRequest r) (pool', (case r of None \<Rightarrow> cs | Some c \<Rightarrow> c # cs), d')"
| release: "c \<in> set cs \<Longrightarrow> ReleaseConnHandler pool (ch_index c) = Inr pool' \<Longrightarrow>
     conn_step my (pool, cs, d) (CRelease c) (pool', remove1 c cs, d)"
| use: "conn_step my (pool, cs, d) CUse (pool, cs, d')"

inductive conn_reach ::
    "'d mysql \<Rightarrow> ConnPool \<times> ConnHandler list \<times> 'd \<Rightarrow> ConnPool \<times> ConnHandler list \<times> 'd \<Rightarrow> bool"
  for my where
  start: "conn_reach my c c"
| step: "conn_reach my c c' \<Longrightarrow> conn_step my c' l c'' \<Longrightarrow> conn_reach my c c''"

section \<open>The invariant of the pool\<close>

definition pool_sizes_ok :: "u32 \<Rightarrow> u32 \<Rightarrow> bool" where
  "pool_sizes_ok mn mx \<longleftrightarrow> max (unat mn) (unat mx) < 2147483648"

definition pool_inv :: "ConnPool \<Rightarrow> bool" where
  "pool_inv pool \<longleftrightarrow>
     unat (using_handler_count pool) = count_if hw_is_using (handler_wrappers pool) \<and>
     length (handler_wrappers pool) \<le> max (unat (kMinCount pool)) (unat (kMaxCount pool)) \<and>
     pool_sizes_ok (kMinCount pool) (kMaxCount pool)"

text \<open>
  The interface of a pool of resources: a resource that was granted can be given back,
  which restores the number of resources in use; a refused request changes nothing.
\<close>

locale resource_pool =
  fixes inv :: "'p \<Rightarrow> bool"
    and used :: "'p \<Rightarrow> nat"
    and request :: "'p \<Rightarrow> 'd \<Rightarrow> 'c option \<times> 'p \<times> 'd"
    and release :: "'p \<Rightarrow> 'c \<Rightarrow> 'p run"
  assumes request_none: "inv p \<Longrightarrow> request p d = (None, p', d') \<Longrightarrow> p' = p"
    and request_some: "inv p \<Longrightarrow> request p d = (Some c, p', d') \<Longrightarrow>
       \<exists>p''. release p' c = Inr p'' \<and> inv p'' \<and> used p'' = used p"
begin

lemma bracket:
  assumes "inv p" and body: "\<And>c d. \<exists>r d'. body c d = Inr (r, d')"
  shows "\<exists>r p'' d''. (case request p d of
        (None, p', d') \<Rightarrow> Inr (None, p', d')
      | (Some c, p', d') \<Rightarrow> bind_run (body c d') (\<lambda>(r, d'').
          bind_run (release p' c) (\<lambda>p''. Inr (Some r, p'', d'')))) = Inr (r, p'', d'') \<and>
      inv p'' \<and> used p'' = used p"
proof -
  obtain r p' d' where req: "request p d = (r, p', d')" by (cases "request p d")
  show ?thesis
  proof (cases r)
    case None
    then show ?thesis using request_none [OF assms(1), of d p' d'] req assms(1) by simp
  next
    case (Some c)
    then obtain p'' where "release p' c = Inr p''" "inv p''" "used p'' = used p"
      using request_some [OF assms(1), of d c p' d'] req by blast
    moreover obtain x d'' where "body c d' = Inr (x, d'')" using body by blast
    ultimately show ?thesis using Some req by simp
  qed
qed

end

section \<open>Facts about the pool\<close>

lemma first_free_Some:
  "first_free ws i = Some j \<Longrightarrow>
     i \<le> j \<and> j - i < length ws \<and> \<not> hw_is_using (ws ! (j - i)) \<and> (\<forall>k < j - i. hw_is_using (ws ! k))"
proof (induction ws i rule: first_free.induct)
  case (2 w ws i)
  show ?case
  proof (cases "hw_is_using w")
    case True
    with 2 have "Suc i \<le> j \<and> j - Suc i < length ws \<and> \<not> hw_is_using (ws ! (j - Suc i)) \<and>
        (\<forall>k < j - Suc i. hw_is_using (ws ! k))" by simp
    moreover from this obtain m where "j = Suc (i + m)" by (metis add_Suc le_Suc_ex)
    ultimately show ?thesis using True by (auto simp: less_Suc_eq_0_disj nth_Cons split: nat.split)
  qed (use 2 in auto)
qed simp

lemma first_free_None: "first_free ws i = None \<longleftrightarrow> count_if hw_is_using ws = length ws"
proof (induction ws i rule: first_free.induct)
  case (2 w ws i)
  then show ?case using count_if_le [of hw_is_using ws] by auto
qed simp

lemma can_request_iff:
  assumes "pool_inv pool"
  shows "can_request pool \<longleftrightarrow> count_if hw_is_using (handler_wrappers pool) \<noteq> length (handler_wrappers pool) \<or>
    length (handler_wrappers pool) < unat (kMaxCount pool)"
proof -
  have u: "unat (using_handler_count pool) = count_if hw_is_using (handler_wrappers pool)"
    and len: "length (handler_wrappers pool) < 2147483648"
    using assms by (auto simp: pool_inv_def pool_sizes_ok_def)
  have small: "unat (using_handler_count pool) < 2147483648"
    using u len count_if_le [of hw_is_using "handler_wrappers pool"] by simp
  have "(scast (using_handler_count pool) :: u64) = of_nat (unat (using_handler_count pool))"
    using sint_unat_small [OF small] by (metis of_int_of_nat_eq of_int_sint)
  moreover have "(of_nat n :: u64) = of_nat m \<longleftrightarrow> n = m" if "n < 2147483648" "m < 2147483648" for n m
    using that by (simp add: word_unat_eq_iff unat_of_nat)
  ultimately show ?thesis
    using len small by (auto simp: can_request_def u)
qed

lemma pool_inv_new:
  assumes "pool_sizes_ok mn mx" and "ConnPool_new my info mn mx d = (pool, d')"
  shows "pool_inv pool \<and> length (handler_wrappers pool) = unat mn \<and> kMinCount pool = mn \<and> kMaxCount pool = mx \<and>
    count_if hw_is_using (handler_wrappers pool) = 0"
proof -
  have "length (fst (open_wrappers my info n d)) = n \<and>
      count_if hw_is_using (fst (open_wrappers my info n d)) = 0" for n d
    by (induction n arbitrary: d) (auto simp: HandlerWrapper_new_def Let_def split_beta)
  from this [of "unat mn" "mysql_library_init my d"] assms show ?thesis
    by (auto simp: ConnPool_new_def pool_inv_def split: prod.splits)
qed


text \<open>Taking a free wrapper, and giving one back.\<close>

lemma Allocate_ok:
  assumes inv: "pool_inv pool" and i: "i < length (handler_wrappers pool)"
    and free: "\<not> hw_is_using (handler_wrappers pool ! i)"
    and alloc: "AllocateConnHandler pool i = (c, pool')"
  shows "pool_inv pool'" and "ch_index c = i" and "ch_handler c = hw_handler (handler_wrappers pool' ! i)"
    and "handler_wrappers pool' = (handler_wrappers pool)[i := (handler_wrappers pool ! i)\<lparr>hw_is_using := True\<rparr>]"
    and "count_if hw_is_using (handler_wrappers pool') = Suc (count_if hw_is_using (handler_wrappers pool))"
    and "kMinCount pool' = kMinCount pool" "kMaxCount pool' = kMaxCount pool"
proof -
  let ?ws = "handler_wrappers pool"
  let ?ws' = "?ws[i := (?ws ! i)\<lparr>hw_is_using := True\<rparr>]"
  have c: "c = \<lparr>ch_handler = hw_handler (?ws ! i), ch_index = i\<rparr>"
    "pool' = pool\<lparr>using_handler_count := using_handler_count pool + 1, handler_wrappers := ?ws'\<rparr>"
    using alloc by (auto simp: AllocateConnHandler_def Let_def)
  have n: "count_if hw_is_using ?ws' = Suc (count_if hw_is_using ?ws)"
    using i free by (rule count_if_update_True) simp
  have le: "count_if hw_is_using ?ws' \<le> length ?ws" using count_if_le [of hw_is_using ?ws'] by simp
  have "Suc (unat (using_handler_count pool)) < 4294967296"
    using inv n le by (auto simp: pool_inv_def pool_sizes_ok_def)
  then have "unat (using_handler_count pool + 1) = Suc (unat (using_handler_count pool))"
    by (simp add: unat_word_ariths)
  with inv n show "pool_inv pool'" by (simp add: pool_inv_def c)
  show "ch_index c = i" "ch_handler c = hw_handler (handler_wrappers pool' ! i)" "handler_wrappers pool' = ?ws'"
    "count_if hw_is_using (handler_wrappers pool') = Suc (count_if hw_is_using ?ws)"
    "kMinCount pool' = kMinCount pool" "kMaxCount pool' = kMaxCount pool"
    using c n i by simp_all
qed

lemma Release_ok:
  assumes inv: "pool_inv pool" and i: "i < length (handler_wrappers pool)"
    and busy: "hw_is_using (handler_wrappers pool ! i)"
  shows "\<exists>pool'. ReleaseConnHandler pool i = Inr pool' \<and> pool_inv pool' \<and>
    handler_wrappers pool' = (handler_wrappers pool)[i := (handler_wrappers pool ! i)\<lparr>hw_is_using := False\<rparr>] \<and>
    Suc (count_if hw_is_using (handler_wrappers pool')) = count_if hw_is_using (handler_wrappers pool) \<and>
    kMinCount pool' = kMinCount pool \<and> kMaxCount pool' = kMaxCount pool"
proof -
  let ?ws = "handler_wrappers pool"
  let ?ws' = "?ws[i := (?ws ! i)\<lparr>hw_is_using := False\<rparr>]"
  have n: "Suc (count_if hw_is_using ?ws') = count_if hw_is_using ?ws"
    using i busy by (rule count_if_update_False) simp
  then have "1 \<le> unat (using_handler_count pool)" using inv by (simp add: pool_inv_def)
  then have "unat (using_handler_count pool - 1) = unat (using_handler_count pool) - 1"
    by (metis unat_1 unat_sub word_le_nat_alt)
  then show ?thesis
    using inv n i by (simp add: ReleaseConnHandler_def pool_inv_def)
qed

text \<open>The outcomes of a request.\<close>

lemma RequestHandler_refused:
  assumes "pool_inv pool" and "RequestHandler my pool d = (None, pool', d')"
  shows "pool' = pool \<and> d' = d \<and> count_if hw_is_using (handler_wrappers pool) = length (handler_wrappers pool) \<and>
    unat (kMaxCount pool) \<le> length (handler_wrappers pool)"
  using assms(2) can_request_iff [OF assms(1)]
  by (auto simp: RequestHandler_def Let_def first_free_None split: if_splits option.splits prod.splits)

lemma RequestHandler_granted_all:
  assumes inv: "pool_inv pool" and req: "RequestHandler my pool d = (Some c, pool', d')"
  shows "pool_inv pool' \<and> ch_index c < length (handler_wrappers pool') \<and>
    hw_is_using (handler_wrappers pool' ! ch_index c) \<and>
    ch_handler c = hw_handler (handler_wrappers pool' ! ch_index c) \<and>
    count_if hw_is_using (handler_wrappers pool') = Suc (count_if hw_is_using (handler_wrappers pool)) \<and>
    (\<forall>k < length (handler_wrappers pool). k \<noteq> ch_index c \<longrightarrow> handler_wrappers pool' ! k = handler_wrappers pool ! k) \<and>
    (if ch_index c < length (handler_wrappers pool)
     then \<not> hw_is_using (handler_wrappers pool ! ch_index c) \<and> d' = d \<and>
          length (handler_wrappers pool') = length (handler_wrappers pool)
     else ch_index c = length (handler_wrappers pool) \<and>
          length (handler_wrappers pool') = Suc (length (handler_wrappers pool)) \<and>
          count_if hw_is_using (handler_wrappers pool) = length (handler_wrappers pool)) \<and>
    kMinCount pool' = kMinCount pool \<and> kMaxCount pool' = kMaxCount pool"
proof (cases "first_free (handler_wrappers pool) 0")
  case (Some i)
  then have i: "i < length (handler_wrappers pool)" "\<not> hw_is_using (handler_wrappers pool ! i)"
    using first_free_Some by fastforce+
  have alloc: "AllocateConnHandler pool i = (c, pool')" and d: "d' = d"
    using req Some by (auto simp: RequestHandler_def split: if_splits prod.splits)
  show ?thesis using Allocate_ok [OF inv i alloc] i d by simp
next
  case None
  let ?w = "fst (HandlerWrapper_new my (db_info pool) d)"
  let ?pool1 = "pool\<lparr>handler_wrappers := handler_wrappers pool @ [?w]\<rparr>"
  let ?n = "length (handler_wrappers pool)"
  have room: "?n < unat (kMaxCount pool)" and alloc: "AllocateConnHandler ?pool1 ?n = (c, pool')"
    using req None by (auto simp: RequestHandler_def Let_def split: if_splits prod.splits)
  have w: "\<not> hw_is_using ?w" by (simp add: HandlerWrapper_new_def split_beta Let_def)
  have inv1: "pool_inv ?pool1"
    using inv room w by (auto simp: pool_inv_def count_if_append)
  have busy: "count_if hw_is_using (handler_wrappers pool) = ?n" using None first_free_None by blast
  show ?thesis using Allocate_ok [OF inv1 _ _ alloc] w busy by (simp add: nth_append count_if_append)
qed

text \<open>The parts of the last fact.\<close>

lemmas RequestHandler_granted =
  RequestHandler_granted_all [THEN conjunct1]
  RequestHandler_granted_all [THEN conjunct2, THEN conjunct1]
  RequestHandler_granted_all [THEN conjunct2, THEN conjunct2, THEN conjunct1]
  RequestHandler_granted_all [THEN conjunct2, THEN conjunct2, THEN conjunct2, THEN conjunct1]
  RequestHandler_granted_all [THEN conjunct2, THEN conjunct2, THEN conjunct2, THEN conjunct2, THEN conjunct1]
  RequestHandler_granted_all [THEN conjunct2, THEN conjunct2, THEN conjunct2, THEN conjunct2, THEN conjunct2, THEN conjunct1]
  RequestHandler_granted_all [THEN conjunct2, THEN conjunct2, THEN conjunct2, THEN conjunct2, THEN conjunct2, THEN conjunct2, THEN conjunct1]
  RequestHandler_granted_all [THEN conjunct2, THEN conjunct2, THEN conjunct2, THEN conjunct2, THEN conjunct2, THEN conjunct2, THEN conjunct2, THEN conjunct1]
  RequestHandler_granted_all [THEN conjunct2, THEN conjunct2, THEN conjunct2, THEN conjunct2, THEN conjunct2, THEN conjunct2, THEN conjunct2, THEN conjunct2]

interpretation conn: resource_pool pool_inv "\<lambda>p. count_if hw_is_using (handler_wrappers p)"
  "RequestHandler my" "\<lambda>p c. ReleaseConnHandler p (ch_index c)" for my
proof
  fix p p' :: ConnPool and d d' :: 'a and c
  show "pool_inv p \<Longrightarrow> RequestHandler my p d = (None, p', d') \<Longrightarrow> p' = p"
    by (rule RequestHandler_refused [THEN conjunct1])
  assume "pool_inv p" "RequestHandler my p d = (Some c, p', d')"
  note g = RequestHandler_granted [OF this]
  obtain q where q: "ReleaseConnHandler p' (ch_index c) = Inr q" "pool_inv q"
      "Suc (count_if hw_is_using (handler_wrappers q)) = count_if hw_is_using (handler_wrappers p')"
    using Release_ok [OF g(1-3)] by blast
  then have "count_if hw_is_using (handler_wrappers q) = count_if hw_is_using (handler_wrappers p)"
    using g(5) by linarith
  with q(1,2)
  show "\<exists>p''. ReleaseConnHandler p' (ch_index c) = Inr p'' \<and> pool_inv p'' \<and>
      count_if hw_is_using (handler_wrappers p'') = count_if hw_is_using (handler_wrappers p)"
    by blast
qed

lemma with_handler_ok:
  assumes "pool_inv pool" and "\<And>c d. \<exists>r d'. body c d = Inr (r, d')"
  shows "\<exists>r pool' d'. with_handler my pool d body = Inr (r, pool', d') \<and> pool_inv pool' \<and>
    count_if hw_is_using (handler_wrappers pool') = count_if hw_is_using (handler_wrappers pool)"
  unfolding with_handler_def by (rule conn.bracket [OF assms])


section \<open>Exclusive use under every interleaving\<close>

text \<open>The handlers that are out have different indices, exactly those marked as used.\<close>

definition leases_inv :: "ConnPool \<times> ConnHandler list \<times> 'd \<Rightarrow> bool" where
  "leases_inv c \<longleftrightarrow> (case c of (pool, cs, d) \<Rightarrow>
     pool_inv pool \<and> distinct (map ch_index cs) \<and>
     set (map ch_index cs) = {i. i < length (handler_wrappers pool) \<and> hw_is_using (handler_wrappers pool ! i)} \<and>
     (\<forall>h \<in> set cs. ch_handler h = hw_handler (handler_wrappers pool ! ch_index h)))"

lemma leases_inv_request:
  assumes "leases_inv (pool, cs, d)" and "RequestHandler my pool d = (Some c, pool', d')"
  shows "leases_inv (pool', c # cs, d')"
proof -
  have inv: "pool_inv pool" and dist: "distinct (map ch_index cs)"
    and used: "ch_index ` set cs = {i. i < length (handler_wrappers pool) \<and> hw_is_using (handler_wrappers pool ! i)}"
    and hs: "\<forall>h \<in> set cs. ch_handler h = hw_handler (handler_wrappers pool ! ch_index h)"
    using assms(1) by (auto simp: leases_inv_def)
  let ?i = "ch_index c" and ?ws = "handler_wrappers pool" and ?ws' = "handler_wrappers pool'"
  note g = RequestHandler_granted [OF inv assms(2)]
  have others: "\<And>k. k < length ?ws \<Longrightarrow> k \<noteq> ?i \<Longrightarrow> ?ws' ! k = ?ws ! k" using g(6) by simp
  have new: "?i \<notin> ch_index ` set cs" using g(7) used by (auto split: if_splits)
  have len: "k < length ?ws' \<longleftrightarrow> k < length ?ws \<or> k = ?i" for k
    using g(7) by (auto split: if_splits)
  have "k \<in> insert ?i (ch_index ` set cs) \<longleftrightarrow> k < length ?ws' \<and> hw_is_using (?ws' ! k)" for k
    using g(3) new len [of k] others [of k] by (cases "k = ?i") (auto simp: used)
  then have "insert ?i (ch_index ` set cs) = {i. i < length ?ws' \<and> hw_is_using (?ws' ! i)}" by blast
  moreover have "ch_handler h = hw_handler (?ws' ! ch_index h)" if "h \<in> set cs" for h
  proof -
    have "ch_index h \<in> ch_index ` set cs" using that by blast
    then have "ch_index h < length ?ws" "ch_index h \<noteq> ?i" using used new by auto
    then show ?thesis using others hs that by simp
  qed
  ultimately show ?thesis using g(1,4) dist new by (simp add: leases_inv_def)
qed

lemma leases_inv_release:
  assumes "leases_inv (pool, cs, d)" and c: "c \<in> set cs"
  shows "\<exists>pool'. ReleaseConnHandler pool (ch_index c) = Inr pool' \<and> leases_inv (pool', remove1 c cs, d')"
proof -
  have inv: "pool_inv pool" and dist: "distinct (map ch_index cs)"
    and used: "ch_index ` set cs = {i. i < length (handler_wrappers pool) \<and> hw_is_using (handler_wrappers pool ! i)}"
    and hs: "\<forall>h \<in> set cs. ch_handler h = hw_handler (handler_wrappers pool ! ch_index h)"
    using assms(1) by (auto simp: leases_inv_def)
  let ?i = "ch_index c"
  have i: "?i < length (handler_wrappers pool)" "hw_is_using (handler_wrappers pool ! ?i)"
    using c used by blast+
  obtain pool' where r: "ReleaseConnHandler pool ?i = Inr pool'" "pool_inv pool'"
      "handler_wrappers pool' = (handler_wrappers pool)[?i := (handler_wrappers pool ! ?i)\<lparr>hw_is_using := False\<rparr>]"
    using Release_ok [OF inv i] by blast
  have inj: "inj_on ch_index (set cs)" and "distinct cs" using dist by (simp_all add: distinct_map)
  then have rest: "set (remove1 c cs) = set cs - {c}" by simp
  have "ch_index ` set (remove1 c cs) = ch_index ` set cs - {?i}"
    unfolding rest using inj_on_image_set_diff [OF inj, of "set cs" "{c}"] c by simp
  moreover have "k < length (handler_wrappers pool') \<and> hw_is_using (handler_wrappers pool' ! k) \<longleftrightarrow>
      k < length (handler_wrappers pool) \<and> hw_is_using (handler_wrappers pool ! k) \<and> k \<noteq> ?i" for k
    unfolding r(3) by (cases "k = ?i") (auto simp: nth_list_update)
  ultimately have "ch_index ` set (remove1 c cs) =
      {i. i < length (handler_wrappers pool') \<and> hw_is_using (handler_wrappers pool' ! i)}"
    unfolding used by blast
  moreover have "distinct (map ch_index (remove1 c cs))"
    using inj \<open>distinct cs\<close> by (simp add: distinct_map rest inj_on_diff)
  moreover have "\<forall>h \<in> set (remove1 c cs). ch_handler h = hw_handler (handler_wrappers pool' ! ch_index h)"
    unfolding rest r(3) using hs i by (simp add: nth_list_update)
  ultimately show ?thesis using r(1,2) by (simp add: leases_inv_def)
qed

lemma leases_inv_step:
  assumes "conn_step my c l c'" and "leases_inv c"
  shows "leases_inv c'"
  using assms
proof (cases rule: conn_step.cases)
  case (request pool d r pool' d' cs)
  show ?thesis
  proof (cases r)
    case None
    then have "pool' = pool" using RequestHandler_refused [of pool my d] request assms(2)
      by (auto simp: leases_inv_def)
    then show ?thesis using request assms(2) None by (simp add: leases_inv_def)
  next
    case (Some h)
    then show ?thesis using request assms(2) leases_inv_request [of pool cs d my h] by simp
  qed
next
  case (release h cs pool pool' d)
  then show ?thesis using leases_inv_release [of pool cs d h d] assms(2) by auto
next
  case (use pool cs d d')
  then show ?thesis using assms(2) by (simp add: leases_inv_def)
qed

lemma leases_inv_reach: "conn_reach my c c' \<Longrightarrow> leases_inv c \<Longrightarrow> leases_inv c'"
  by (induction rule: conn_reach.induct) (auto intro: leases_inv_step)

lemma reach_sizes:
  assumes "conn_reach my c c'" and "leases_inv c"
  shows "kMinCount (fst c') = kMinCount (fst c) \<and> kMaxCount (fst c') = kMaxCount (fst c)"
  using assms
proof (induction rule: conn_reach.induct)
  case (step c c' l c'')
  then have inv: "leases_inv c'" using leases_inv_reach by blast
  from step.hyps(2) have "kMinCount (fst c'') = kMinCount (fst c') \<and> kMaxCount (fst c'') = kMaxCount (fst c')"
  proof (cases rule: conn_step.cases)
    case (request pool d r pool' d' cs)
    then have "pool_inv pool" using inv by (simp add: leases_inv_def)
    then have "kMinCount pool' = kMinCount pool \<and> kMaxCount pool' = kMaxCount pool"
      using RequestHandler_refused [of pool my d pool' d'] request(4)
        RequestHandler_granted(8,9) [of pool my d _ pool' d'] by (cases r) simp_all
    then show ?thesis using request(1,3) by simp
  qed (auto simp: ReleaseConnHandler_def guard_run_def split: if_splits)
  with step show ?case by simp
qed simp

lemma leases_inv_new:
  assumes "pool_sizes_ok mn mx" and "ConnPool_new my info mn mx d = (pool, d')"
  shows "leases_inv (pool, [], d')"
proof -
  have "pool_inv pool" "count_if hw_is_using (handler_wrappers pool) = 0"
    using pool_inv_new [OF assms] by blast+
  then show ?thesis by (auto simp: leases_inv_def count_if_eq filter_empty_conv)
qed

section \<open>Executing a statement returns\<close>

lemma fetch_loop_returns:
  fixes size :: "addr \<Rightarrow> 'd \<Rightarrow> nat"
  assumes "\<And>r d. fst (fetch r d) \<noteq> None \<Longrightarrow> size r (snd (fetch r d)) < size r d"
  shows "\<exists>xs d'. fetch_loop fetch r d acc = Some (xs, d')"
proof (induction "size r d" arbitrary: d acc rule: less_induct)
  case less
  obtain x d1 where f: "fetch r d = (x, d1)" by (cases "fetch r d")
  show ?case
  proof (cases x)
    case None
    then show ?thesis using f by (subst fetch_loop.simps) simp
  next
    case (Some y)
    then have "size r d1 < size r d" using assms [of r d] f by simp
    from less [OF this, of "acc @ [y]"] show ?thesis using f Some by (subst fetch_loop.simps) simp
  qed
qed

lemma SelectResult_new_returns:
  assumes "results_finite my"
  shows "\<exists>sr d'. SelectResult_new my r d = Inr (sr, d')"
proof -
  obtain rows :: "addr \<Rightarrow> 'a \<Rightarrow> nat" and fields :: "addr \<Rightarrow> 'a \<Rightarrow> nat" where
    "\<And>r d. fst (mysql_fetch_row my r d) \<noteq> None \<Longrightarrow> rows r (snd (mysql_fetch_row my r d)) < rows r d"
    "\<And>r d. fst (mysql_fetch_field my r d) \<noteq> None \<Longrightarrow> fields r (snd (mysql_fetch_field my r d)) < fields r d"
    using assms unfolding results_finite_def by blast
  then have "\<exists>xs d'. fetch_loop (mysql_fetch_row my) r d [] = Some (xs, d')"
    "\<And>d. \<exists>xs d'. fetch_loop (mysql_fetch_field my) r d [] = Some (xs, d')"
    using fetch_loop_returns [of "mysql_fetch_row my" rows] fetch_loop_returns [of "mysql_fetch_field my" fields]
    by blast+
  then show ?thesis by (auto simp: SelectResult_new_def or_diverge_def) (metis bind_run_simps(2) case_prod_conv option.simps(5))
qed

lemma Conn_Execute_returns:
  assumes "results_finite my"
  shows "\<exists>r d'. Conn_Execute my c sql d = Inr (r, d')"
proof (cases "ch_handler c")
  case (Some h)
  obtain rc d1 x d2 where q: "mysql_real_query my h sql d = (rc, d1)" "mysql_store_result my h d1 = (x, d2)"
    by (metis surj_pair)
  show ?thesis
  proof (cases x)
    case None
    then show ?thesis using Some q by (simp add: Conn_Execute_def)
  next
    case (Some r)
    obtain sr d3 where "SelectResult_new my r d2 = Inr (sr, d3)" using SelectResult_new_returns [OF assms] by blast
    then show ?thesis using \<open>ch_handler c = Some h\<close> q Some by (simp add: Conn_Execute_def)
  qed
qed (simp add: Conn_Execute_def)

text \<open>A wrapper keeps the handler it was made with, even when connecting failed.\<close>

lemma hw_handler_update [simp]:
  "hw_handler (ws[j := (ws ! j)\<lparr>hw_is_using := b\<rparr>] ! i) = hw_handler (ws ! i)"
  by (cases "j < length ws") (simp_all add: nth_list_update list_update_beyond)

lemma step_keeps_handlers:
  assumes "conn_step my c l c'" and "i < length (handler_wrappers (fst c))"
  shows "i < length (handler_wrappers (fst c')) \<and>
    hw_handler (handler_wrappers (fst c') ! i) = hw_handler (handler_wrappers (fst c) ! i)"
  using assms(1)
proof (cases rule: conn_step.cases)
  case (request pool d r pool' d' cs)
  show ?thesis
  proof (cases "first_free (handler_wrappers pool) 0")
    case None
    then show ?thesis using request assms(2)
      by (auto simp: RequestHandler_def AllocateConnHandler_def Let_def nth_append nth_list_update
          split: if_splits prod.splits)
  next
    case (Some j)
    then show ?thesis using request assms(2)
      by (auto simp: RequestHandler_def AllocateConnHandler_def Let_def nth_list_update
          split: if_splits prod.splits)
  qed
next
  case (release h cs pool pool' d)
  then show ?thesis using assms(2)
    by (auto simp: ReleaseConnHandler_def guard_run_def nth_list_update split: if_splits)
next
  case (use pool cs d d')
  then show ?thesis using assms(2) by simp
qed

lemma reach_keeps_handlers:
  assumes "conn_reach my c c'" and "i < length (handler_wrappers (fst c))"
  shows "i < length (handler_wrappers (fst c')) \<and>
    hw_handler (handler_wrappers (fst c') ! i) = hw_handler (handler_wrappers (fst c) ! i)"
  using assms
proof (induction rule: conn_reach.induct)
  case (step c c' l c'')
  then have "i < length (handler_wrappers (fst c'))"
    "hw_handler (handler_wrappers (fst c') ! i) = hw_handler (handler_wrappers (fst c) ! i)" by simp_all
  with step_keeps_handlers [OF step.hyps(2), of i] show ?case by simp
qed simp

section \<open>A database in memory\<close>

text \<open>
  A concrete client library: one connection, a table of phone numbers, and the two kinds
  of statement the sources send, told apart by their first word; the phone number is what
  stands between the first quotes, and a query returns at most 255 rows.
\<close>

record mem_db =
  mem_users :: "string list"
  mem_affected :: nat
  mem_rows :: nat

definition quoted :: "string \<Rightarrow> string" where
  "quoted sql = takeWhile (\<lambda>c. c \<noteq> CHR 0x27) (drop 1 (dropWhile (\<lambda>c. c \<noteq> CHR 0x27) sql))"

definition mem_query :: "addr \<Rightarrow> string \<Rightarrow> mem_db \<Rightarrow> i32 \<times> mem_db" where
  "mem_query h sql db =
     (if take 6 sql = ''SELECT'' then
        (let n = min 255 (count_list (mem_users db) (quoted sql)) in (0, db\<lparr>mem_affected := n, mem_rows := n\<rparr>))
      else if take 6 sql = ''INSERT'' then
        (0, db\<lparr>mem_users := quoted sql # mem_users db, mem_affected := 1, mem_rows := 0\<rparr>)
      else (0, db\<lparr>mem_affected := 0, mem_rows := 0\<rparr>))"

definition mem_mysql :: "mem_db mysql" where
  "mem_mysql =
     \<lparr>mysql_library_init = id, mysql_init = (\<lambda>d. (Some 1, d)),
      mysql_real_connect = (\<lambda>h info d. (h, d)), mysql_real_query = mem_query,
      mysql_error = (\<lambda>h d. []),
      mysql_store_result = (\<lambda>h d. (if mem_rows d = 0 then None else Some 1, d)),
      mysql_affected_rows = (\<lambda>h d. of_nat (mem_affected d)),
      mysql_fetch_row = (\<lambda>r d. if mem_rows d = 0 then (None, d)
         else (Some [None], d\<lparr>mem_rows := mem_rows d - 1\<rparr>)),
      mysql_fetch_field = (\<lambda>r d. (None, d)), mysql_free_result = (\<lambda>r d. d)\<rparr>"

definition mem_empty :: mem_db where
  "mem_empty = \<lparr>mem_users = [], mem_affected = 0, mem_rows = 0\<rparr>"

definition local_db :: DbInfo where
  "local_db = \<lparr>db_host = ''localhost'', db_user = ''root'', db_pwd = [], db_db = ''shbk2'', db_port = 3306\<rparr>"

lemma mem_results_finite [simp]: "results_finite mem_mysql"
  unfolding results_finite_def
  by (intro exI [of _ "\<lambda>r d. mem_rows d"] exI [of _ "\<lambda>r d. 0"]) (simp add: mem_mysql_def)

section \<open>Properties\<close>



text \<open>
  A request is refused exactly when every connection is in use and the pool
  has reached its maximum, and then it changes nothing; a granted connection was free or
  is new, and it is marked as used.
\<close>

theorem request_refused_iff_exhausted:
  assumes "pool_inv pool"
  shows "(fst (RequestHandler my pool d) = None \<longleftrightarrow>
      (\<forall>i < length (handler_wrappers pool). hw_is_using (handler_wrappers pool ! i)) \<and>
      unat (kMaxCount pool) \<le> length (handler_wrappers pool)) \<and>
    (fst (RequestHandler my pool d) = None \<longrightarrow> snd (RequestHandler my pool d) = (pool, d))"
proof -
  have all: "count_if hw_is_using (handler_wrappers pool) = length (handler_wrappers pool) \<longleftrightarrow>
      (\<forall>i < length (handler_wrappers pool). hw_is_using (handler_wrappers pool ! i))"
    by (rule count_if_all)
  show ?thesis
  proof (cases "can_request pool")
    case True
    then show ?thesis
      using can_request_iff [OF assms] first_free_None [of "handler_wrappers pool" 0]
      by (auto simp: RequestHandler_def Let_def simp flip: all split: option.splits prod.splits)
  next
    case False
    then show ?thesis
      using can_request_iff [OF assms] by (simp add: RequestHandler_def flip: all)
  qed
qed

theorem request_refused_iff_exhausted_witness:
  "fst (RequestHandler mem_mysql \<lparr>kMinCount = 1, kMaxCount = 1, db_info = local_db, using_handler_count = 1,
     handler_wrappers = [\<lparr>hw_handler = Some 1, hw_is_using = True\<rparr>]\<rparr> mem_empty) = None"
  using request_refused_iff_exhausted [of "\<lparr>kMinCount = 1, kMaxCount = 1, db_info = local_db,
      using_handler_count = 1, handler_wrappers = [\<lparr>hw_handler = Some 1, hw_is_using = True\<rparr>]\<rparr>" mem_mysql mem_empty]
  by (simp add: pool_inv_def pool_sizes_ok_def)

text \<open>
  A connection that could not be opened is never repaired: in every later
  state its wrapper holds a null handler, and executing a statement on it throws.
\<close>

theorem failed_connection_stays:
  assumes "conn_reach my (pool, cs, d) (pool', cs', d')" and "leases_inv (pool, cs, d)"
    and "i < length (handler_wrappers pool)" and "hw_handler (handler_wrappers pool ! i) = None"
  shows "hw_handler (handler_wrappers pool' ! i) = None \<and>
    (\<forall>c \<in> set cs'. ch_index c = i \<longrightarrow>
       Conn_Execute my c sql d'' = Inr (Inl (Runtime_error ''handler is invalid...''), d''))"
proof -
  have h: "hw_handler (handler_wrappers pool' ! i) = None"
    using reach_keeps_handlers [OF assms(1)] assms(3,4) by simp
  moreover have "ch_handler c = None" if "c \<in> set cs'" "ch_index c = i" for c
    using leases_inv_reach [OF assms(1,2)] that h by (auto simp: leases_inv_def)
  ultimately show ?thesis by (simp add: Conn_Execute_def)
qed

text \<open>A pool whose only connection failed, and whose handler is out.\<close>

definition broken_pool :: ConnPool where
  "broken_pool = \<lparr>kMinCount = 1, kMaxCount = 1, db_info = local_db, using_handler_count = 1,
     handler_wrappers = [\<lparr>hw_handler = None, hw_is_using = True\<rparr>]\<rparr>"

theorem failed_connection_stays_witness:
  "Conn_Execute mem_mysql \<lparr>ch_handler = None, ch_index = 0\<rparr> ''SELECT 1'' mem_empty =
     Inr (Inl (Runtime_error ''handler is invalid...''), mem_empty)"
proof -
  have "leases_inv (broken_pool, [\<lparr>ch_handler = None, ch_index = 0\<rparr>], mem_empty)"
    by (auto simp: leases_inv_def broken_pool_def pool_inv_def pool_sizes_ok_def)
  from failed_connection_stays [OF conn_reach.start [of mem_mysql] this, of 0 "''SELECT 1''" mem_empty]
  show ?thesis by (simp add: broken_pool_def)
qed

end
