(* ===== verification/Dao.thy ===== *)
theory Dao
  imports Sys_Config Dbcp_Mysql
begin

text \<open>
  \<^verbatim>\<open>src/dao\<close>: the table of users behind the connection pool. Each operation requests a
  handler, executes one statement, and gives the handler back when the \<^verbatim>\<open>unique_ptr\<close> goes
  out of scope, on every path. Log lines are left out.
\<close>

section \<open>Class UserDAO\<close>

record UserDAO =
  dao_pool :: "ConnPool option"
  dao_is_initialized :: bool
  dao_waiting_seconds :: u64

definition UserDAO_new :: UserDAO where
  "UserDAO_new = \<lparr>dao_pool = None, dao_is_initialized = False, dao_waiting_seconds = 0\<rparr>"

text \<open>The settings, in the order in which they are read; a missing one throws.\<close>

definition read_db_settings :: "SysConfig \<Rightarrow> exn + (DbInfo \<times> u32 \<times> u32 \<times> u64)" where
  "read_db_settings cfg =
     bind_exn (DatabaseGet_string cfg ''host'') (\<lambda>host.
     bind_exn (DatabaseGet_string cfg ''user'') (\<lambda>user.
     bind_exn (DatabaseGet_string cfg ''pwd'') (\<lambda>pwd.
     bind_exn (DatabaseGet_string cfg ''db'') (\<lambda>db.
     bind_exn (DatabaseGet_int cfg ''port'') (\<lambda>port.
     bind_exn (DatabaseGet_int cfg ''min-size'') (\<lambda>min_size.
     bind_exn (DatabaseGet_int cfg ''max-size'') (\<lambda>max_size.
     bind_exn (DatabaseGet_int cfg ''waiting-seconds'') (\<lambda>waiting.
     Inr (\<lparr>db_host = host, db_user = user, db_pwd = pwd, db_db = db, db_port = port\<rparr>,
          min_size, max_size, waiting)))))))))"

definition UserDAO_Instance :: "'d mysql \<Rightarrow> SysConfig \<Rightarrow> UserDAO \<Rightarrow> 'd \<Rightarrow> exn option \<times> UserDAO \<times> 'd" where
  "UserDAO_Instance my cfg dao d =
     (if dao_is_initialized dao then (None, dao, d)
      else (case read_db_settings cfg of
              Inl e \<Rightarrow> (Some e, dao, d)
            | Inr (info, min_size, max_size, waiting) \<Rightarrow>
                (case ConnPool_new my info min_size max_size d of (pool, d') \<Rightarrow>
                   (None, \<lparr>dao_pool = Some pool, dao_is_initialized = True, dao_waiting_seconds = waiting\<rparr>, d'))))"

section \<open>Operations\<close>

definition create_table_sql :: string where
  "create_table_sql =
     ''CREATE TABLE IF NOT EXISTS user ('' @
     ''user_id       INT(16)        NOT NULL AUTO_INCREMENT ,'' @
     ''user_phonenum VARCHAR(16)    NOT NULL DEFAULT '' @ [CHR 0x27] @ ''13000000000'' @ [CHR 0x27] @ '' ,'' @
     ''user_name     VARCHAR(128)   NOT NULL DEFAULT '' @ [CHR 0x27, CHR 0x27] @ '' ,'' @
     ''user_register TIMESTAMP      NOT NULL DEFAULT CURRENT_TIMESTAMP ,'' @
     ''user_balance  DECIMAL(6, 2)  NOT NULL DEFAULT 0.0 ,'' @
     ''PRIMARY KEY (user_id)) ENGINE = InnoDB''"

text \<open>The phone number is put between the quotes as it is.\<close>

definition select_sql :: "string \<Rightarrow> string" where
  "select_sql phone_number =
     ''SELECT * FROM user WHERE user_phonenum = '' @ [CHR 0x27] @ phone_number @ [CHR 0x27]"

definition insert_sql :: "string \<Rightarrow> string" where
  "insert_sql phone_number =
     ''INSERT user (user_phonenum)'' @ ''VALUES ('' @ [CHR 0x27] @ phone_number @ [CHR 0x27] @ '')''"

text \<open>
  Executing a statement inside the \<^verbatim>\<open>try\<close> block: an exception is caught and gives nothing;
  the result set is freed when the result goes out of scope.
\<close>

definition run_sql :: "'d mysql \<Rightarrow> string \<Rightarrow> ConnHandler \<Rightarrow> 'd \<Rightarrow> (u64 option \<times> 'd) run" where
  "run_sql my sql c d =
     bind_run (Conn_Execute my c sql d) (\<lambda>(r, d').
     case r of
       Inl e \<Rightarrow> Inr (None, d')
     | Inr (sr, n) \<Rightarrow> Inr (Some n, SelectResult_free my sr d'))"

definition dao_execute ::
    "'d mysql \<Rightarrow> string \<Rightarrow> UserDAO \<Rightarrow> 'd \<Rightarrow> (u64 option \<times> UserDAO \<times> 'd) run" where
  "dao_execute my sql dao d =
     bind_run (deref (dao_pool dao)) (\<lambda>pool.
     bind_run (with_handler my pool d (run_sql my sql)) (\<lambda>(r, pool', d').
     Inr (case r of None \<Rightarrow> None | Some x \<Rightarrow> x, dao\<lparr>dao_pool := Some pool'\<rparr>, d')))"

definition CreateTable :: "'d mysql \<Rightarrow> UserDAO \<Rightarrow> 'd \<Rightarrow> (bool \<times> UserDAO \<times> 'd) run" where
  "CreateTable my dao d =
     (if \<not> dao_is_initialized dao then Inr (False, dao, d)
      else bind_run (dao_execute my create_table_sql dao d) (\<lambda>(r, dao', d').
           Inr (r \<noteq> None, dao', d')))"

definition IsExist :: "'d mysql \<Rightarrow> UserDAO \<Rightarrow> string \<Rightarrow> 'd \<Rightarrow> (bool \<times> UserDAO \<times> 'd) run" where
  "IsExist my dao phone_number d =
     (if \<not> dao_is_initialized dao then Inr (False, dao, d)
      else bind_run (dao_execute my (select_sql phone_number) dao d) (\<lambda>(r, dao', d').
           Inr (case r of None \<Rightarrow> False | Some n \<Rightarrow> n \<noteq> 0, dao', d')))"

definition Insert :: "'d mysql \<Rightarrow> UserDAO \<Rightarrow> string \<Rightarrow> 'd \<Rightarrow> (bool \<times> UserDAO \<times> 'd) run" where
  "Insert my dao phone_number d =
     (if \<not> dao_is_initialized dao then Inr (False, dao, d)
      else bind_run (dao_execute my (insert_sql phone_number) dao d) (\<lambda>(r, dao', d').
           Inr (case r of None \<Rightarrow> False | Some n \<Rightarrow> n = 1, dao', d')))"

section \<open>The invariant: a pool exists, and no connection is lost\<close>

definition dao_inv :: "UserDAO \<Rightarrow> bool" where
  "dao_inv dao \<longleftrightarrow> (dao_is_initialized dao \<longrightarrow> (\<exists>pool. dao_pool dao = Some pool \<and> pool_inv pool))"

definition dao_in_use :: "UserDAO \<Rightarrow> nat" where
  "dao_in_use dao = (case dao_pool dao of None \<Rightarrow> 0 | Some p \<Rightarrow> count_if hw_is_using (handler_wrappers p))"

lemma run_sql_returns: "results_finite my \<Longrightarrow> \<exists>r d'. run_sql my sql c d = Inr (r, d')"
  using Conn_Execute_returns [of my c sql d] by (auto simp: run_sql_def split: sum.split)

lemma dao_execute_ok:
  assumes "results_finite my" and "dao_inv dao" and "dao_is_initialized dao"
  shows "\<exists>r dao' d'. dao_execute my sql dao d = Inr (r, dao', d') \<and> dao_inv dao' \<and>
    dao_is_initialized dao' \<and> dao_in_use dao' = dao_in_use dao"
proof -
  obtain pool where pool: "dao_pool dao = Some pool" "pool_inv pool"
    using assms(2,3) by (auto simp: dao_inv_def)
  obtain r pool' d' where "with_handler my pool d (run_sql my sql) = Inr (r, pool', d')" "pool_inv pool'"
      "count_if hw_is_using (handler_wrappers pool') = count_if hw_is_using (handler_wrappers pool)"
    using with_handler_ok [OF pool(2), of "run_sql my sql" my d] run_sql_returns [OF assms(1)] by blast
  then show ?thesis
    using pool assms(3) by (simp add: dao_execute_def dao_inv_def dao_in_use_def)
qed

lemma dao_ops_ok:
  assumes "results_finite my" and "dao_inv dao"
  shows "\<exists>r dao' d'. CreateTable my dao d = Inr (r, dao', d') \<and> dao_inv dao' \<and> dao_in_use dao' = dao_in_use dao"
    and "\<exists>r dao' d'. IsExist my dao p d = Inr (r, dao', d') \<and> dao_inv dao' \<and>
      dao_is_initialized dao' = dao_is_initialized dao \<and> dao_in_use dao' = dao_in_use dao"
    and "\<exists>r dao' d'. Insert my dao p d = Inr (r, dao', d') \<and> dao_inv dao' \<and>
      dao_is_initialized dao' = dao_is_initialized dao \<and> dao_in_use dao' = dao_in_use dao"
proof -
  show "\<exists>r dao' d'. CreateTable my dao d = Inr (r, dao', d') \<and> dao_inv dao' \<and> dao_in_use dao' = dao_in_use dao"
    using dao_execute_ok [OF assms, of create_table_sql d] assms(2)
    by (cases "dao_is_initialized dao") (auto simp: CreateTable_def)
  show "\<exists>r dao' d'. IsExist my dao p d = Inr (r, dao', d') \<and> dao_inv dao' \<and>
      dao_is_initialized dao' = dao_is_initialized dao \<and> dao_in_use dao' = dao_in_use dao"
    using dao_execute_ok [OF assms, of "select_sql p" d] assms(2)
    by (cases "dao_is_initialized dao") (auto simp: IsExist_def)
  show "\<exists>r dao' d'. Insert my dao p d = Inr (r, dao', d') \<and> dao_inv dao' \<and>
      dao_is_initialized dao' = dao_is_initialized dao \<and> dao_in_use dao' = dao_in_use dao"
    using dao_execute_ok [OF assms, of "insert_sql p" d] assms(2)
    by (cases "dao_is_initialized dao") (auto simp: Insert_def)
qed

section \<open>The table of users as its clients see it\<close>

text \<open>
  Documented behaviour of the database for the two statements, when the phone number has
  no character that is special inside quotes: the query counts the rows with that number,
  the insertion adds one; reading the result changes neither the table nor the count.
\<close>

definition plain :: "string \<Rightarrow> bool" where
  "plain p \<longleftrightarrow> CHR 0x27 \<notin> set p \<and> CHR 0x5C \<notin> set p"

definition statements_ok :: "'d mysql \<Rightarrow> ('d \<Rightarrow> string list) \<Rightarrow> bool" where
  "statements_ok my users \<longleftrightarrow> (\<forall>h d p. plain p \<longrightarrow>
     fst (mysql_real_query my h (select_sql p) d) = 0 \<and>
     users (snd (mysql_real_query my h (select_sql p) d)) = users d \<and>
     (mysql_affected_rows my h (snd (mysql_store_result my h (snd (mysql_real_query my h (select_sql p) d)))) \<noteq> 0 \<longleftrightarrow>
        p \<in> set (users d)) \<and>
     fst (mysql_real_query my h (insert_sql p) d) = 0 \<and>
     users (snd (mysql_real_query my h (insert_sql p) d)) = p # users d \<and>
     mysql_affected_rows my h (snd (mysql_store_result my h (snd (mysql_real_query my h (insert_sql p) d)))) = 1)"

definition reading_ok :: "'d mysql \<Rightarrow> ('d \<Rightarrow> string list) \<Rightarrow> bool" where
  "reading_ok my users \<longleftrightarrow> (\<forall>h r d.
     users (snd (mysql_store_result my h d)) = users d \<and>
     users (snd (mysql_fetch_row my r d)) = users d \<and>
     users (snd (mysql_fetch_field my r d)) = users d \<and>
     users (mysql_free_result my r d) = users d \<and>
     mysql_affected_rows my h (snd (mysql_fetch_row my r d)) = mysql_affected_rows my h d \<and>
     mysql_affected_rows my h (snd (mysql_fetch_field my r d)) = mysql_affected_rows my h d)"

definition user_store :: "'d mysql \<Rightarrow> ('d \<Rightarrow> string list) \<Rightarrow> bool" where
  "user_store my users \<longleftrightarrow> results_finite my \<and> statements_ok my users \<and> reading_ok my users"

text \<open>The data access object can serve a request: the first free connection is open.\<close>

definition dao_ready :: "UserDAO \<Rightarrow> bool" where
  "dao_ready dao \<longleftrightarrow> dao_is_initialized dao \<and> (\<exists>pool i h. dao_pool dao = Some pool \<and> pool_inv pool \<and>
     first_free (handler_wrappers pool) 0 = Some i \<and> hw_handler (handler_wrappers pool ! i) = Some h)"

text \<open>The interface the event handlers rely on.\<close>

locale user_table =
  fixes inv :: "'s \<Rightarrow> bool"
    and users :: "'s \<Rightarrow> string list"
    and is_exist :: "string \<Rightarrow> 's \<Rightarrow> (bool \<times> 's) run"
    and insert_user :: "string \<Rightarrow> 's \<Rightarrow> (bool \<times> 's) run"
  assumes is_exist_ok: "inv s \<Longrightarrow> plain p \<Longrightarrow>
      \<exists>s'. is_exist p s = Inr (p \<in> set (users s), s') \<and> inv s' \<and> users s' = users s"
    and insert_ok: "inv s \<Longrightarrow> plain p \<Longrightarrow>
      \<exists>s'. insert_user p s = Inr (True, s') \<and> inv s' \<and> users s' = p # users s"
begin

text \<open>Registering a number that may be known already.\<close>

lemma register:
  assumes "inv s" and "plain p"
  shows "\<exists>s'. bind_run (is_exist p s) (\<lambda>(b, s1). if b then Inr (True, s1) else insert_user p s1) = Inr (True, s') \<and>
    inv s' \<and> users s' = (if p \<in> set (users s) then users s else p # users s)"
proof -
  obtain s1 where s1: "is_exist p s = Inr (p \<in> set (users s), s1)" "inv s1" "users s1 = users s"
    using is_exist_ok [OF assms] by blast
  then show ?thesis using insert_ok [OF s1(2) assms(2)] by auto
qed

lemma insert_then_exists:
  assumes "inv s" and "plain p" and "plain q"
  shows "\<exists>s1 s2. insert_user p s = Inr (True, s1) \<and> is_exist q s1 = Inr (q = p \<or> q \<in> set (users s), s2)"
proof -
  obtain s1 where "insert_user p s = Inr (True, s1)" "inv s1" "users s1 = p # users s"
    using insert_ok [OF assms(1,2)] by blast
  with is_exist_ok [of s1 q] assms(3) show ?thesis by auto
qed

end

lemma with_handler_free:
  assumes inv: "pool_inv pool" and free: "first_free (handler_wrappers pool) 0 = Some i"
    and body: "body \<lparr>ch_handler = hw_handler (handler_wrappers pool ! i), ch_index = i\<rparr> d = Inr (r, d')"
  shows "with_handler my pool d body = Inr (Some r, pool, d')"
proof -
  have i: "i < length (handler_wrappers pool)" "\<not> hw_is_using (handler_wrappers pool ! i)"
    using first_free_Some [OF free] by simp_all
  have "can_request pool"
    using can_request_iff [OF inv] free first_free_None [of "handler_wrappers pool" 0] by simp
  moreover have "(handler_wrappers pool ! i)\<lparr>hw_is_using := False\<rparr> = handler_wrappers pool ! i"
    using i(2) by (cases "handler_wrappers pool ! i") simp
  then have "(handler_wrappers pool)[i := (handler_wrappers pool ! i)\<lparr>hw_is_using := False\<rparr>] = handler_wrappers pool"
    by (simp only: list_update_id)
  then have "pool\<lparr>handler_wrappers := (handler_wrappers pool)[i := (handler_wrappers pool ! i)\<lparr>hw_is_using := False\<rparr>]\<rparr> = pool"
    by simp
  ultimately show ?thesis
    using i body free
    by (simp add: with_handler_def RequestHandler_def AllocateConnHandler_def ReleaseConnHandler_def Let_def)
qed

lemma fetch_loop_keeps:
  fixes f :: "'b \<Rightarrow> 'c" and fetch :: "addr \<Rightarrow> 'b \<Rightarrow> 'a option \<times> 'b"
  assumes "fetch_loop fetch r d acc = Some (xs, d')" and keep: "\<And>d. f (snd (fetch r d)) = f d"
  shows "f d' = f d"
proof -
  let ?P = "\<lambda>(fetch :: addr \<Rightarrow> 'b \<Rightarrow> 'a option \<times> 'b) r d (acc :: 'a list) (y :: 'a list \<times> 'b). (\<forall>d. f (snd (fetch r d)) = f d) \<longrightarrow> f (snd y) = f d"
  have "?P fetch r d acc (xs, d')"
  proof (rule fetch_loop.raw_induct [of ?P, OF _ assms(1)], rule impI)
    fix loop and fetch :: "addr \<Rightarrow> 'b \<Rightarrow> 'a option \<times> 'b" and r d acc y
    assume IH: "\<And>fetch r d acc y. loop fetch r d acc = Some y \<Longrightarrow> ?P fetch r d acc y"
      and run: "(case fetch r d of (None, d') \<Rightarrow> Some (acc, d') | (Some x, d') \<Rightarrow> loop fetch r d' (acc @ [x])) = Some y"
      and k: "\<forall>d. f (snd (fetch r d)) = f d"
    obtain x d1 where f: "fetch r d = (x, d1)" by (cases "fetch r d")
    have d1: "f d1 = f d" using k f by (metis snd_conv)
    show "f (snd y) = f d"
    proof (cases x)
      case None
      then show ?thesis using run f d1 by auto
    next
      case (Some z)
      then have "loop fetch r d1 (acc @ [z]) = Some y" using run f by simp
      from IH [OF this] k d1 show ?thesis by simp
    qed
  qed
  then show ?thesis using keep by simp
qed

lemma SelectResult_new_keeps:
  assumes "reading_ok my users" and "SelectResult_new my r d = Inr (sr, d')"
  shows "users d' = users d" and "mysql_affected_rows my h d' = mysql_affected_rows my h d"
proof -
  obtain rows d1 names where l: "fetch_loop (mysql_fetch_row my) r d [] = Some (rows, d1)"
      "fetch_loop (mysql_fetch_field my) r d1 [] = Some (names, d')"
    using assms(2) by (auto simp: SelectResult_new_def or_diverge_def bind_run_Inr_conv split: option.splits)
  have keep: "users (snd (mysql_fetch_row my r d)) = users d"
    "users (snd (mysql_fetch_field my r d)) = users d"
    "mysql_affected_rows my h (snd (mysql_fetch_row my r d)) = mysql_affected_rows my h d"
    "mysql_affected_rows my h (snd (mysql_fetch_field my r d)) = mysql_affected_rows my h d" for r d
    using assms(1) by (simp_all add: reading_ok_def)
  show "users d' = users d"
    using fetch_loop_keeps [OF l(1), of users] fetch_loop_keeps [OF l(2), of users] keep by metis
  show "mysql_affected_rows my h d' = mysql_affected_rows my h d"
    using fetch_loop_keeps [OF l(1), of "mysql_affected_rows my h"]
      fetch_loop_keeps [OF l(2), of "mysql_affected_rows my h"] keep by metis
qed

text \<open>A statement that the database accepts, run on an open connection.\<close>

lemma run_sql_accepted:
  assumes store: "user_store my users" and h: "ch_handler c = Some h"
    and q: "mysql_real_query my h sql d = (0, d1)"
  shows "\<exists>d'. run_sql my sql c d =
      Inr (Some (mysql_affected_rows my h (snd (mysql_store_result my h d1))), d') \<and> users d' = users d1"
proof -
  have fin: "results_finite my" and reading: "reading_ok my users"
    using store by (simp_all add: user_store_def)
  obtain x d2 where s: "mysql_store_result my h d1 = (x, d2)" by (cases "mysql_store_result my h d1")
  have u2: "users d2 = users d1" using reading s unfolding reading_ok_def by (metis snd_conv)
  show ?thesis
  proof (cases x)
    case None
    then show ?thesis using h q s u2 by (simp add: run_sql_def Conn_Execute_def SelectResult_free_def)
  next
    case (Some r)
    obtain sr d3 where n: "SelectResult_new my r d2 = Inr (sr, d3)"
      using SelectResult_new_returns [OF fin] by blast
    note k = SelectResult_new_keeps [OF reading n]
    have "users (mysql_free_result my (sr_result sr) d3) = users d1"
      using reading k(1) u2 by (simp add: reading_ok_def)
    then show ?thesis
      using Some h q s n k(2) [of h] by (simp add: run_sql_def Conn_Execute_def SelectResult_free_def)
  qed
qed

lemma dao_execute_accepted:
  assumes "user_store my users" and "dao_ready dao"
    and q: "\<And>h. fst (mysql_real_query my h sql d) = 0"
  shows "\<exists>h d'. dao_execute my sql dao d = Inr (Some (mysql_affected_rows my h
      (snd (mysql_store_result my h (snd (mysql_real_query my h sql d))))), dao, d') \<and>
    users d' = users (snd (mysql_real_query my h sql d))"
proof -
  obtain pool i h where p: "dao_pool dao = Some pool" "pool_inv pool"
      "first_free (handler_wrappers pool) 0 = Some i" "hw_handler (handler_wrappers pool ! i) = Some h"
    using assms(2) by (auto simp: dao_ready_def)
  let ?c = "\<lparr>ch_handler = hw_handler (handler_wrappers pool ! i), ch_index = i\<rparr>"
  let ?d1 = "snd (mysql_real_query my h sql d)"
  have "mysql_real_query my h sql d = (0, ?d1)" using q [of h] by (metis prod.collapse)
  then obtain d' where "run_sql my sql ?c d =
      Inr (Some (mysql_affected_rows my h (snd (mysql_store_result my h ?d1))), d')" "users d' = users ?d1"
    using run_sql_accepted [OF assms(1), of ?c h sql d ?d1] p(4) by auto
  moreover have "dao\<lparr>dao_pool := Some pool\<rparr> = dao" using p(1) by simp
  ultimately show ?thesis
    using with_handler_free [OF p(2,3), of "run_sql my sql" d _ d' my] p(1)
    by (auto simp: dao_execute_def)
qed

lemma IsExist_ok:
  assumes "user_store my users" and "dao_ready dao" and "plain p"
  shows "\<exists>d'. IsExist my dao p d = Inr (p \<in> set (users d), dao, d') \<and> users d' = users d"
proof -
  have st: "statements_ok my users" using assms(1) by (simp add: user_store_def)
  then obtain h d' where "dao_execute my (select_sql p) dao d = Inr (Some (mysql_affected_rows my h
      (snd (mysql_store_result my h (snd (mysql_real_query my h (select_sql p) d))))), dao, d')"
      "users d' = users (snd (mysql_real_query my h (select_sql p) d))"
    using dao_execute_accepted [OF assms(1,2), of "select_sql p" d] assms(3)
    unfolding statements_ok_def by blast
  then show ?thesis
    using st assms(2,3) by (simp add: IsExist_def statements_ok_def dao_ready_def)
qed

lemma Insert_ok:
  assumes "user_store my users" and "dao_ready dao" and "plain p"
  shows "\<exists>d'. Insert my dao p d = Inr (True, dao, d') \<and> users d' = p # users d"
proof -
  have st: "statements_ok my users" using assms(1) by (simp add: user_store_def)
  then obtain h d' where "dao_execute my (insert_sql p) dao d = Inr (Some (mysql_affected_rows my h
      (snd (mysql_store_result my h (snd (mysql_real_query my h (insert_sql p) d))))), dao, d')"
      "users d' = users (snd (mysql_real_query my h (insert_sql p) d))"
    using dao_execute_accepted [OF assms(1,2), of "insert_sql p" d] assms(3)
    unfolding statements_ok_def by blast
  then show ?thesis
    using st assms(2,3) by (simp add: Insert_def statements_ok_def dao_ready_def)
qed

text \<open>The data access object provides the interface.\<close>

definition dao_is_exist :: "'d mysql \<Rightarrow> string \<Rightarrow> UserDAO \<times> 'd \<Rightarrow> (bool \<times> UserDAO \<times> 'd) run" where
  "dao_is_exist my p s = IsExist my (fst s) p (snd s)"

definition dao_insert :: "'d mysql \<Rightarrow> string \<Rightarrow> UserDAO \<times> 'd \<Rightarrow> (bool \<times> UserDAO \<times> 'd) run" where
  "dao_insert my p s = Insert my (fst s) p (snd s)"

interpretation store: user_table "\<lambda>s. user_store my users \<and> dao_ready (fst s)" "\<lambda>s. users (snd s)"
  "dao_is_exist my" "dao_insert my" for my users
proof
  fix s :: "UserDAO \<times> 'a" and p
  assume s: "user_store my users \<and> dao_ready (fst s)" and p: "plain p"
  show "\<exists>s'. dao_is_exist my p s = Inr (p \<in> set (users (snd s)), s') \<and>
      (user_store my users \<and> dao_ready (fst s')) \<and> users (snd s') = users (snd s)"
    using IsExist_ok [of my users "fst s" p "snd s"] s p by (auto simp: dao_is_exist_def)
  show "\<exists>s'. dao_insert my p s = Inr (True, s') \<and>
      (user_store my users \<and> dao_ready (fst s')) \<and> users (snd s') = p # users (snd s)"
    using Insert_ok [of my users "fst s" p "snd s"] s p by (auto simp: dao_insert_def)
qed

section \<open>The database in memory is a user store\<close>

lemma quoted_phone:
  assumes "plain p" and "CHR 0x27 \<notin> set a"
  shows "quoted (a @ [CHR 0x27] @ p @ CHR 0x27 # b) = p"
proof -
  have "dropWhile (\<lambda>c. c \<noteq> CHR 0x27) (a @ CHR 0x27 # x) = CHR 0x27 # x" for x
    using assms(2) by (induction a) auto
  moreover have "takeWhile (\<lambda>c. c \<noteq> CHR 0x27) (p @ CHR 0x27 # b) = p"
    using assms(1) unfolding plain_def by (induction p) auto
  ultimately show ?thesis by (simp add: quoted_def)
qed

lemma mem_statements: "statements_ok mem_mysql mem_users"
proof -
  have "quoted (select_sql p) = p" "quoted (insert_sql p) = p" if "plain p" for p
    using quoted_phone [OF that, of "''SELECT * FROM user WHERE user_phonenum = ''" "[]"]
      quoted_phone [OF that, of "''INSERT user (user_phonenum)VALUES (''" "'')''"]
    by (simp_all add: select_sql_def insert_sql_def)
  moreover have "take 6 (select_sql p) = ''SELECT''" "take 6 (insert_sql p) = ''INSERT''" for p
    by (simp_all add: select_sql_def insert_sql_def)
  moreover have "(of_nat (min 255 (count_list xs x)) :: u64) = 0 \<longleftrightarrow> x \<notin> set xs" for x :: string and xs
  proof -
    have "unat (of_nat (min 255 (count_list xs x)) :: u64) = min 255 (count_list xs x)"
      by (simp add: unat_of_nat)
    then have "(of_nat (min 255 (count_list xs x)) :: u64) = 0 \<longleftrightarrow> min 255 (count_list xs x) = 0"
      by (metis unat_eq_zero)
    also have "\<dots> \<longleftrightarrow> count_list xs x = 0" by (simp add: min_def)
    finally show ?thesis by (simp add: count_list_0_iff)
  qed
  ultimately show ?thesis
    by (simp add: statements_ok_def mem_mysql_def mem_query_def Let_def)
qed

lemma mem_user_store [simp]: "user_store mem_mysql mem_users"
  using mem_statements by (simp add: user_store_def reading_ok_def) (simp add: mem_mysql_def)

text \<open>A data access object over one open connection.\<close>

definition local_dao :: UserDAO where
  "local_dao = \<lparr>dao_pool = Some \<lparr>kMinCount = 1, kMaxCount = 1, db_info = local_db, using_handler_count = 0,
     handler_wrappers = [\<lparr>hw_handler = Some 1, hw_is_using = False\<rparr>]\<rparr>,
     dao_is_initialized = True, dao_waiting_seconds = 10\<rparr>"

lemma local_dao_ready [simp]: "dao_ready local_dao" "dao_inv local_dao" "dao_is_initialized local_dao"
  by (simp_all add: dao_ready_def dao_inv_def local_dao_def pool_inv_def pool_sizes_ok_def)

section \<open>Properties\<close>

text \<open>
  Claim C24: every operation on the table of users returns, whatever the database
  answers, and gives its connection back on every path, the refused request and the
  exception included: the number of connections in use is the same afterwards.
\<close>

theorem dao_returns_connections:
  assumes "results_finite my" and "dao_inv dao"
  shows "(\<exists>r dao' d'. CreateTable my dao d = Inr (r, dao', d') \<and> dao_inv dao' \<and> dao_in_use dao' = dao_in_use dao) \<and>
    (\<exists>r dao' d'. IsExist my dao p d = Inr (r, dao', d') \<and> dao_inv dao' \<and> dao_in_use dao' = dao_in_use dao) \<and>
    (\<exists>r dao' d'. Insert my dao p d = Inr (r, dao', d') \<and> dao_inv dao' \<and> dao_in_use dao' = dao_in_use dao)"
  using dao_ops_ok [OF assms] by blast

theorem dao_returns_connections_witness:
  "\<exists>r dao' d'. Insert mem_mysql local_dao ''13'' mem_empty = Inr (r, dao', d') \<and> dao_in_use dao' = 0"
proof -
  have "dao_in_use local_dao = 0" by (simp add: dao_in_use_def local_dao_def)
  with dao_returns_connections [of mem_mysql local_dao mem_empty "''13''"] show ?thesis by auto
qed



end
