(* ===== verification/Event_Handlers.thy ===== *)
theory Event_Handlers
  imports Events Dao "HOL-Library.Signed_Division"
begin

text \<open>
  \<^verbatim>\<open>src/event_handlers\<close>: what the server does with a request event, in a worker thread. The
  objects a handler reaches are one record: the sessions by address, the static counter
  of events, the data access object with the database behind it, the configuration and
  the clock. \<^verbatim>\<open>std::srand\<close> followed by \<^verbatim>\<open>std::rand\<close> is an argument: the number a seed gives.
\<close>

section \<open>The state the handlers share\<close>

record ('b, 'd) app =
  app_sessions :: "addr \<Rightarrow> 'b Session option"
  app_sequence :: u32
  app_dao :: UserDAO
  app_db :: 'd
  app_config :: SysConfig
  app_now :: u32

definition put_session :: "('b, 'd) app \<Rightarrow> addr \<Rightarrow> 'b Session \<Rightarrow> ('b, 'd) app" where
  "put_session app sid s = app\<lparr>app_sessions := (app_sessions app)(sid := Some s)\<rparr>"

text \<open>
  Constructing a response: the counter has advanced even if the constructor throws, and
  an exception would leave the worker thread.
\<close>

definition new_event :: "('b, 'd) app \<Rightarrow> (u32 \<Rightarrow> (exn + IEvent) \<times> u32) \<Rightarrow> (('b, 'd) app \<times> IEvent) run" where
  "new_event app ctor =
     (case ctor (app_sequence app) of
        (Inl x, n) \<Rightarrow> Inl (Uncaught x)
      | (Inr e, n) \<Rightarrow> Inr (app\<lparr>app_sequence := n\<rparr>, e))"

definition dao_instance :: "'d mysql \<Rightarrow> ('b, 'd) app \<Rightarrow> ('b, 'd) app run" where
  "dao_instance my app =
     (case UserDAO_Instance my (app_config app) (app_dao app) (app_db app) of
        (Some x, dao, d) \<Rightarrow> Inl (Uncaught x)
      | (None, dao, d) \<Rightarrow> Inr (app\<lparr>app_dao := dao, app_db := d\<rparr>))"

section \<open>Class PhoneReqEventHandler\<close>

definition generate_identifier :: "(u32 \<Rightarrow> int) \<Rightarrow> u32 \<Rightarrow> i32" where
  "generate_identifier rand seed = word_of_int (rand seed smod (999999 - 100000) + 100000)"

definition PhoneReq_Handle ::
    "(u32 \<Rightarrow> int) \<Rightarrow> IEvent \<Rightarrow> ('b, 'd) app \<Rightarrow> (('b, 'd) app \<times> IEvent) run" where
  "PhoneReq_Handle rand event app =
     (let identifier = generate_identifier rand (app_now app)
      in bind_run (deref (ev_session event)) (\<lambda>sid.
         bind_run (load (app_sessions app) sid) (\<lambda>s.
         bind_run (EvPhoneReq_phone_number event) (\<lambda>phone.
         let app1 = put_session app sid (set_phone_number (set_identifier s identifier) phone)
         in bind_run (new_event app1 (EvPhoneRes_new identifier kSuccess)) (\<lambda>(app2, result).
            Inr (app2, set_session result sid))))))"

section \<open>Class LoginReqEventHandler\<close>

text \<open>The new user: the table is asked and, if need be, the number inserted.\<close>

definition login_register :: "'d mysql \<Rightarrow> string \<Rightarrow> ('b, 'd) app \<Rightarrow> (bool \<times> ('b, 'd) app) run" where
  "login_register my phone app =
     bind_run (dao_instance my app) (\<lambda>app1.
     bind_run (IsExist my (app_dao app1) phone (app_db app1)) (\<lambda>(known, dao2, d2).
     let app2 = app1\<lparr>app_dao := dao2, app_db := d2\<rparr>
     in if known then Inr (True, app2)
        else bind_run (dao_instance my app2) (\<lambda>app3.
             bind_run (Insert my (app_dao app3) phone (app_db app3)) (\<lambda>(inserted, dao4, d4).
             Inr (inserted, app3\<lparr>app_dao := dao4, app_db := d4\<rparr>)))))"

text \<open>
  When the insertion fails, a response with \<^verbatim>\<open>kProcessFailed\<close> is made, and then replaced:
  the assignment of the successful response follows on every path.
\<close>

definition LoginReq_Handle :: "'d mysql \<Rightarrow> IEvent \<Rightarrow> ('b, 'd) app \<Rightarrow> (('b, 'd) app \<times> IEvent) run" where
  "LoginReq_Handle my event app =
     bind_run (deref (ev_session event)) (\<lambda>sid.
     bind_run (load (app_sessions app) sid) (\<lambda>s.
     bind_run (EvLoginReq_phone_number event) (\<lambda>phone.
     bind_run (EvLoginReq_identifier event) (\<lambda>identifier.
     if s_phone_number s \<noteq> phone \<or> s_identifier s \<noteq> identifier then
       bind_run (new_event app (EvLoginRes_new kInvalidData)) (\<lambda>(app1, result).
       Inr (app1, set_session result sid))
     else
       bind_run (login_register my phone app) (\<lambda>(registered, app1).
       bind_run (if registered then Inr app1
                 else bind_run (new_event app1 (EvLoginRes_new kProcessFailed)) (\<lambda>(app2, _). Inr app2)) (\<lambda>app3.
       bind_run (new_event app3 (EvLoginRes_new kSuccess)) (\<lambda>(app4, result).
       Inr (app4, set_session result sid))))))))"

section \<open>Interface IEventHandler\<close>

datatype IEventHandler = PhoneReqEventHandler | LoginReqEventHandler

fun Handle ::
    "'d mysql \<Rightarrow> (u32 \<Rightarrow> int) \<Rightarrow> IEventHandler \<Rightarrow> IEvent \<Rightarrow> ('b, 'd) app \<Rightarrow> (('b, 'd) app \<times> IEvent) run" where
  "Handle my rand PhoneReqEventHandler event app = PhoneReq_Handle rand event app"
| "Handle my rand LoginReqEventHandler event app = LoginReq_Handle my event app"

section \<open>The contract of a handler\<close>

text \<open>
  On a live session and an event of its own kind a handler answers: it returns a complete
  response for the same session, and of the sessions it changes at most that one, and of
  that one only the identifier and the phone number.
\<close>

definition app_ok :: "'d mysql \<Rightarrow> ('b, 'd) app \<Rightarrow> bool" where
  "app_ok my app \<longleftrightarrow> results_finite my \<and> dao_inv (app_dao app) \<and> dao_is_initialized (app_dao app)"

definition answers :: "addr \<Rightarrow> 'b Session \<Rightarrow> ('b, 'd) app \<Rightarrow> ('b, 'd) app \<Rightarrow> IEvent \<Rightarrow> bool" where
  "answers sid s app app' e' \<longleftrightarrow>
     ev_session e' = Some sid \<and> body_ok (ev_body e') \<and> short_body (ev_body e') \<and>
     ev_type e' = body_type (ev_body e') \<and>
     (\<exists>i p. app_sessions app' = (app_sessions app)(sid := Some (s\<lparr>s_identifier := i, s_phone_number := p\<rparr>)))"

locale event_handler =
  fixes handle :: "IEvent \<Rightarrow> 's \<Rightarrow> ('s \<times> IEvent) run"
    and accepts :: "IEvent \<Rightarrow> bool"
    and inv :: "'s \<Rightarrow> bool"
    and live :: "'s \<Rightarrow> addr \<Rightarrow> bool"
    and answered :: "addr \<Rightarrow> 's \<Rightarrow> 's \<Rightarrow> IEvent \<Rightarrow> bool"
  assumes handle_ok: "inv s \<Longrightarrow> accepts e \<Longrightarrow> ev_session e = Some sid \<Longrightarrow> live s sid \<Longrightarrow>
      \<exists>s' e'. handle e s = Inr (s', e') \<and> inv s' \<and> answered sid s s' e'"
    and handle_freed: "ev_session e = Some sid \<Longrightarrow> \<not> live s sid \<Longrightarrow> handle e s = Inl Use_after_free"
begin

text \<open>A handler runs into undefined behaviour exactly when the session is gone.\<close>

lemma safe_iff_live:
  assumes "inv s" and "accepts e" and "ev_session e = Some sid"
  shows "(\<exists>s' e'. handle e s = Inr (s', e')) \<longleftrightarrow> live s sid"
  using handle_ok [OF assms] handle_freed [OF assms(3), of s] by (cases "live s sid") auto

end

section \<open>Facts\<close>

lemma new_event_responses [simp]:
  "new_event app (EvPhoneRes_new i c) = Inr (app\<lparr>app_sequence := app_sequence app + 1\<rparr>,
     \<lparr>ev_type = kPhoneRes, ev_id = app_sequence app, ev_session = None,
     ev_body = EvPhoneRes \<lparr>pres_arena = None, pres_unknown = [], pres_has_bits = 7, pres_cached_size = 0,
       pres_desc = ErrorCode_desc c, pres_code = ErrorCode_value c, pres_identifier = i\<rparr>\<rparr>)"
  "new_event app (EvLoginRes_new c) = Inr (app\<lparr>app_sequence := app_sequence app + 1\<rparr>,
     \<lparr>ev_type = kLoginRes, ev_id = app_sequence app, ev_session = None,
     ev_body = EvLoginRes \<lparr>lres_arena = None, lres_unknown = [], lres_has_bits = 3, lres_cached_size = 0,
       lres_desc = ErrorCode_desc c, lres_code = ErrorCode_value c\<rparr>\<rparr>)"
  by (simp_all add: new_event_def EvPhoneRes_new_ok EvLoginRes_new_ok)

lemma dao_instance_initialized:
  "dao_is_initialized (app_dao app) \<Longrightarrow> dao_instance my app = Inr app"
  by (simp add: dao_instance_def UserDAO_Instance_def)

lemma login_register_ok:
  assumes "app_ok my app"
  shows "\<exists>b app'. login_register my p app = Inr (b, app') \<and> app_ok my app' \<and>
    app_sessions app' = app_sessions app \<and> app_sequence app' = app_sequence app"
proof -
  have fin: "results_finite my" and inv: "dao_inv (app_dao app)" "dao_is_initialized (app_dao app)"
    using assms by (simp_all add: app_ok_def)
  obtain r2 dao2 d2 where e: "IsExist my (app_dao app) p (app_db app) = Inr (r2, dao2, d2)" "dao_inv dao2"
      "dao_is_initialized dao2"
    using dao_ops_ok(2) [OF fin inv(1)] inv(2) by metis
  obtain r4 dao4 d4 where i: "Insert my dao2 p d2 = Inr (r4, dao4, d4)" "dao_inv dao4" "dao_is_initialized dao4"
    using dao_ops_ok(3) [OF fin e(2)] e(3) by metis
  show ?thesis
    using e i inv fin by (cases r2) (auto simp: login_register_def dao_instance_initialized app_ok_def)
qed

text \<open>What the two handlers return, and what they leave behind.\<close>

lemma PhoneReq_Handle_live:
  assumes "ev_session e = Some sid" and "app_sessions app sid = Some s" and "ev_body e = EvPhoneReq m"
    and "i = generate_identifier rand (app_now app)"
  shows "PhoneReq_Handle rand e app = Inr
    ((put_session app sid (s\<lparr>s_identifier := i, s_phone_number := PhoneReq_get_phone_number m\<rparr>))
       \<lparr>app_sequence := app_sequence app + 1\<rparr>,
     \<lparr>ev_type = kPhoneRes, ev_id = app_sequence app, ev_session = Some sid,
      ev_body = EvPhoneRes \<lparr>pres_arena = None, pres_unknown = [], pres_has_bits = 7, pres_cached_size = 0,
        pres_desc = ''ok.'', pres_code = 200, pres_identifier = i\<rparr>\<rparr>)"
  using assms
  by (simp add: PhoneReq_Handle_def load_def EvPhoneReq_phone_number_def set_phone_number_def set_identifier_def
      put_session_def set_session_def Let_def)

definition login_response :: "addr \<Rightarrow> u32 \<Rightarrow> ErrorCode \<Rightarrow> IEvent" where
  "login_response sid n c =
     \<lparr>ev_type = kLoginRes, ev_id = n, ev_session = Some sid,
      ev_body = EvLoginRes \<lparr>lres_arena = None, lres_unknown = [], lres_has_bits = 3, lres_cached_size = 0,
        lres_desc = ErrorCode_desc c, lres_code = ErrorCode_value c\<rparr>\<rparr>"

definition credentials_match :: "'b Session \<Rightarrow> LoginReq \<Rightarrow> bool" where
  "credentials_match s m \<longleftrightarrow>
     s_phone_number s = LoginReq_get_phone_number m \<and> s_identifier s = LoginReq_get_identifier m"

lemma LoginReq_Handle_refused:
  assumes "ev_session e = Some sid" and "app_sessions app sid = Some s" and "ev_body e = EvLoginReq m"
    and "\<not> credentials_match s m"
  shows "LoginReq_Handle my e app =
    Inr (app\<lparr>app_sequence := app_sequence app + 1\<rparr>, login_response sid (app_sequence app) kInvalidData)"
  using assms
  by (auto simp: LoginReq_Handle_def load_def EvLoginReq_phone_number_def EvLoginReq_identifier_def
      credentials_match_def login_response_def set_session_def)

lemma LoginReq_Handle_match:
  assumes "ev_session e = Some sid" and "app_sessions app sid = Some s" and "ev_body e = EvLoginReq m"
    and "credentials_match s m"
    and "login_register my (LoginReq_get_phone_number m) app = Inr (b, app1)"
  defines "n \<equiv> app_sequence app1 + (if b then 0 else 1)"
  shows "LoginReq_Handle my e app =
    Inr (app1\<lparr>app_sequence := n + 1\<rparr>, login_response sid n kSuccess)"
  using assms
  by (auto simp: LoginReq_Handle_def load_def EvLoginReq_phone_number_def EvLoginReq_identifier_def
      credentials_match_def login_response_def set_session_def n_def)

lemma login_response_ok: "body_ok (ev_body (login_response sid n c))" "short_body (ev_body (login_response sid n c))"
  "ev_session (login_response sid n c) = Some sid" "ev_type (login_response sid n c) = kLoginRes"
  "body_type (ev_body (login_response sid n c)) = kLoginRes"
  using response_body_ok(2) ErrorCode_desc_short by (simp_all add: login_response_def)

definition app_live :: "('b, 'd) app \<Rightarrow> addr \<Rightarrow> bool" where
  "app_live app sid \<longleftrightarrow> app_sessions app sid \<noteq> None"

definition app_answered :: "addr \<Rightarrow> ('b, 'd) app \<Rightarrow> ('b, 'd) app \<Rightarrow> IEvent \<Rightarrow> bool" where
  "app_answered sid app app' e' \<longleftrightarrow> (\<exists>s. app_sessions app sid = Some s \<and> answers sid s app app' e')"

fun accepts_body :: "IEventHandler \<Rightarrow> ev_body \<Rightarrow> bool" where
  "accepts_body PhoneReqEventHandler (EvPhoneReq m) = True"
| "accepts_body LoginReqEventHandler (EvLoginReq m) = True"
| "accepts_body _ _ = False"

lemma PhoneReq_contract:
  assumes "app_ok my app" and "ev_body e = EvPhoneReq m" and "ev_session e = Some sid" and "app_live app sid"
  shows "\<exists>app' e'. PhoneReq_Handle rand e app = Inr (app', e') \<and> app_ok my app' \<and> app_answered sid app app' e'"
proof -
  obtain s where "app_sessions app sid = Some s" using assms(4) by (auto simp: app_live_def)
  with PhoneReq_Handle_live [OF assms(3) this assms(2) refl, of rand] assms(1) response_body_ok(1) show ?thesis
    by (auto simp: app_ok_def app_answered_def answers_def put_session_def)
qed

lemma answers_self:
  assumes "app_sessions app sid = Some s" and "app_sessions app' = app_sessions app"
    and "ev_session e = Some sid" "body_ok (ev_body e)" "short_body (ev_body e)" "ev_type e = body_type (ev_body e)"
  shows "answers sid s app app' e"
proof -
  have "(app_sessions app)(sid := Some (s\<lparr>s_identifier := s_identifier s, s_phone_number := s_phone_number s\<rparr>)) =
      app_sessions app" using assms(1) by auto
  then show ?thesis using assms unfolding answers_def by metis
qed

lemma LoginReq_contract:
  assumes "app_ok my app" and "ev_body e = EvLoginReq m" and "ev_session e = Some sid" and "app_live app sid"
  shows "\<exists>app' e'. LoginReq_Handle my e app = Inr (app', e') \<and> app_ok my app' \<and> app_answered sid app app' e'"
proof -
  obtain s where s: "app_sessions app sid = Some s" using assms(4) by (auto simp: app_live_def)
  show ?thesis
  proof (cases "credentials_match s m")
    case True
    obtain b app1 where r: "login_register my (LoginReq_get_phone_number m) app = Inr (b, app1)" "app_ok my app1"
        "app_sessions app1 = app_sessions app"
      using login_register_ok [OF assms(1)] by blast
    let ?n = "app_sequence app1 + (if b then 0 else 1)"
    have "app_answered sid app (app1\<lparr>app_sequence := ?n + 1\<rparr>) (login_response sid ?n kSuccess)"
      unfolding app_answered_def
      by (intro exI [of _ s] conjI s answers_self) (simp_all add: s r(3) login_response_ok)
    with LoginReq_Handle_match [OF assms(3) s assms(2) True r(1)] r(2) show ?thesis
      by (simp add: app_ok_def)
  next
    case False
    have "app_answered sid app (app\<lparr>app_sequence := app_sequence app + 1\<rparr>)
        (login_response sid (app_sequence app) kInvalidData)"
      unfolding app_answered_def
      by (intro exI [of _ s] conjI s answers_self) (simp_all add: s login_response_ok)
    with LoginReq_Handle_refused [OF assms(3) s assms(2) False] assms(1) show ?thesis
      by (simp add: app_ok_def)
  qed
qed

lemma Handle_freed:
  assumes "ev_session e = Some sid" and "\<not> app_live app sid"
  shows "Handle my rand h e app = Inl Use_after_free"
  using assms by (cases h) (simp_all add: PhoneReq_Handle_def LoginReq_Handle_def load_def app_live_def Let_def)

interpretation handler: event_handler "Handle my rand h" "\<lambda>e. accepts_body h (ev_body e)" "app_ok my"
  app_live app_answered for my rand h
proof
  fix app :: "('b, 'a) app" and e :: IEvent and sid
  assume a: "app_ok my app" "accepts_body h (ev_body e)" "ev_session e = Some sid" "app_live app sid"
  show "\<exists>app' e'. Handle my rand h e app = Inr (app', e') \<and> app_ok my app' \<and> app_answered sid app app' e'"
    using a PhoneReq_contract [OF a(1) _ a(3,4)] LoginReq_contract [OF a(1) _ a(3,4)]
    by (cases h; cases "ev_body e") auto
qed (rule Handle_freed)

section \<open>Properties\<close>

definition rand_ok :: "(u32 \<Rightarrow> int) \<Rightarrow> bool" where
  "rand_ok rand \<longleftrightarrow> (\<forall>seed. 0 \<le> rand seed \<and> rand seed \<le> 2147483647)"

lemma sint_word_of_int_small:
  "- 2147483648 \<le> k \<Longrightarrow> k < 2147483648 \<Longrightarrow> sint (word_of_int k :: i32) = k"
  by (simp add: sint_sbintrunc' signed_take_bit_int_eq_self)

text \<open>
  An identifier has six digits; and the largest number of six digits is never
  generated, since the range is one too short.
\<close>

theorem generate_identifier_range:
  assumes "rand_ok rand"
  shows "100000 \<le> sint (generate_identifier rand seed) \<and> sint (generate_identifier rand seed) \<le> 999998 \<and>
    generate_identifier rand seed \<noteq> 999999"
proof -
  have "0 \<le> rand seed" using assms by (simp add: rand_ok_def)
  then have m: "0 \<le> rand seed smod 899999" "rand seed smod 899999 < 899999"
    by (simp_all add: signed_modulo_int_def sgn_if)
  then have s: "sint (generate_identifier rand seed) = rand seed smod 899999 + 100000"
    using sint_word_of_int_small [of "rand seed smod 899999 + 100000"] by (simp add: generate_identifier_def)
  then have "sint (generate_identifier rand seed) \<noteq> sint (999999 :: i32)" using m by simp
  then show ?thesis using m s by auto
qed

theorem generate_identifier_range_witness:
  "100000 \<le> sint (generate_identifier (\<lambda>seed. 1804289383) 7)"
  using generate_identifier_range [of "\<lambda>seed. 1804289383" 7] by (simp add: rand_ok_def)

lemma login_register_store:
  assumes "user_store my users" and "dao_ready (app_dao app)" and "plain p"
  shows "\<exists>app'. login_register my p app = Inr (True, app') \<and> app_sessions app' = app_sessions app \<and>
    users (app_db app') = (if p \<in> set (users (app_db app)) then users (app_db app) else p # users (app_db app)) \<and>
    dao_ready (app_dao app')"
proof -
  have init: "dao_is_initialized (app_dao app)" using assms(2) by (simp add: dao_ready_def)
  obtain d2 where e: "IsExist my (app_dao app) p (app_db app) = Inr (p \<in> set (users (app_db app)), app_dao app, d2)"
      "users d2 = users (app_db app)"
    using IsExist_ok [OF assms] by blast
  obtain s' where r: "bind_run (dao_is_exist my p (app_dao app, app_db app))
      (\<lambda>(b, s1). if b then Inr (True, s1) else dao_insert my p s1) = Inr (True, s')" "dao_ready (fst s')"
      "users (snd s') = (if p \<in> set (users (app_db app)) then users (app_db app) else p # users (app_db app))"
    using store.register [of my users "(app_dao app, app_db app)" p] assms by auto
  then show ?thesis
    using init e by (cases s') (auto simp: login_register_def dao_instance_initialized dao_is_exist_def
        dao_insert_def split: if_splits)
qed

text \<open>A server with one connected client, for the witnesses.\<close>

definition demo_app :: "(byte list \<times> byte list, mem_db) app" where
  "demo_app = \<lparr>app_sessions = [3 \<mapsto> set_bufev (Session_new 7 ''10.0.0.1'' 4000) ([], [])], app_sequence = 5,
     app_dao = local_dao, app_db = mem_empty, app_config = SysConfig_new, app_now = 0\<rparr>"

definition demo_phone_req :: IEvent where
  "demo_phone_req = \<lparr>ev_type = kPhoneReq, ev_id = 0, ev_session = Some 3,
     ev_body = EvPhoneReq (PhoneReq_set_phone_number (PhoneReq_ctor None) ''13'')\<rparr>"

definition demo_login_req :: "string \<Rightarrow> i32 \<Rightarrow> IEvent" where
  "demo_login_req p i = \<lparr>ev_type = kLoginReq, ev_id = 1, ev_session = Some 3,
     ev_body = EvLoginReq (LoginReq_set_identifier (LoginReq_set_phone_number (LoginReq_ctor None) p) i)\<rparr>"

lemma demo_accessors [simp]:
  "PhoneReq_get_phone_number (PhoneReq_set_phone_number m p) = p"
  "LoginReq_get_phone_number (LoginReq_set_identifier (LoginReq_set_phone_number n p) i) = p"
  "LoginReq_get_identifier (LoginReq_set_identifier n i) = i"
  by (simp_all add: PhoneReq_get_phone_number_def PhoneReq_set_phone_number_def LoginReq_get_phone_number_def
      LoginReq_get_identifier_def LoginReq_set_identifier_def LoginReq_set_phone_number_def
      LoginReq_internal_set_identifier_def Let_def)

text \<open>
  A phone request on a live session is answered for that session with success
  and a fresh identifier; the session remembers exactly that identifier and the phone
  number of the request; no other session and nothing of the database changes.
\<close>

theorem phone_request_handled:
  assumes "ev_session e = Some sid" and "app_sessions app sid = Some s" and "ev_body e = EvPhoneReq m"
  shows "\<exists>app' r mr s'. PhoneReq_Handle rand e app = Inr (app', r) \<and>
    ev_type r = kPhoneRes \<and> ev_session r = Some sid \<and> ev_body r = EvPhoneRes mr \<and> PhoneRes_IsInitialized mr \<and>
    PhoneRes_get_code mr = 200 \<and> PhoneRes_get_identifier mr = generate_identifier rand (app_now app) \<and>
    app_sessions app' = (app_sessions app)(sid := Some s') \<and>
    s_identifier s' = PhoneRes_get_identifier mr \<and> s_phone_number s' = PhoneReq_get_phone_number m \<and>
    s_stat s' = s_stat s \<and> s_req_buf s' = s_req_buf s \<and> s_bufev s' = s_bufev s \<and>
    app_dao app' = app_dao app \<and> app_db app' = app_db app"
  using PhoneReq_Handle_live [OF assms refl, of rand]
  by (simp add: put_session_def PhoneRes_get_code_def PhoneRes_get_identifier_def IsInitialized_iff
      PhoneRes_has_code_def PhoneRes_has_identifier_def)
     (intro exI [of _ "s\<lparr>s_identifier := generate_identifier rand (app_now app),
        s_phone_number := PhoneReq_get_phone_number m\<rparr>"], simp)

theorem phone_request_handled_witness:
  "\<exists>app' r s'. PhoneReq_Handle (\<lambda>_. 17) demo_phone_req demo_app = Inr (app', r) \<and>
    app_sessions app' 3 = Some s' \<and> s_phone_number s' = ''13'' \<and> s_identifier s' = 100017"
  using phone_request_handled [of demo_phone_req 3 demo_app "set_bufev (Session_new 7 ''10.0.0.1'' 4000) ([], [])"
      "PhoneReq_set_phone_number (PhoneReq_ctor None) ''13''" "\<lambda>_. 17"]
  by (force simp: demo_phone_req_def demo_app_def generate_identifier_def)



text \<open>
  A login whose phone number or identifier is not the one the session
  remembers is refused with \<^verbatim>\<open>kInvalidData\<close>, and neither a session nor the database changes.
\<close>

theorem login_wrong_credentials_refused:
  assumes "ev_session e = Some sid" and "app_sessions app sid = Some s" and "ev_body e = EvLoginReq m"
    and "s_phone_number s \<noteq> LoginReq_get_phone_number m \<or> s_identifier s \<noteq> LoginReq_get_identifier m"
  shows "\<exists>app'. LoginReq_Handle my e app = Inr (app', login_response sid (app_sequence app) kInvalidData) \<and>
    app_sessions app' = app_sessions app \<and> app_dao app' = app_dao app \<and> app_db app' = app_db app"
  using LoginReq_Handle_refused [OF assms(1-3), of my] assms(4) by (auto simp: credentials_match_def)

theorem login_wrong_credentials_refused_witness:
  "\<exists>app'. LoginReq_Handle mem_mysql (demo_login_req ''13'' 123456) demo_app =
     Inr (app', login_response 3 5 kInvalidData) \<and> app_db app' = mem_empty"
  using login_wrong_credentials_refused [of "demo_login_req ''13'' 123456" 3 demo_app
      "set_bufev (Session_new 7 ''10.0.0.1'' 4000) ([], [])"
      "LoginReq_set_identifier (LoginReq_set_phone_number (LoginReq_ctor None) ''13'') 123456" mem_mysql]
  by (auto simp: demo_login_req_def demo_app_def set_bufev_def Session_new_def)

text \<open>
  A login whose credentials match is always answered with success, even when
  the user could be neither found nor inserted: the response with \<^verbatim>\<open>kProcessFailed\<close> never
  leaves the handler.
\<close>

theorem login_failure_reported_as_success:
  assumes "app_ok my app" and "ev_session e = Some sid" and "app_sessions app sid = Some s"
    and "ev_body e = EvLoginReq m"
    and "s_phone_number s = LoginReq_get_phone_number m" and "s_identifier s = LoginReq_get_identifier m"
  shows "\<exists>app' n b app1. login_register my (LoginReq_get_phone_number m) app = Inr (b, app1) \<and>
    LoginReq_Handle my e app = Inr (app', login_response sid n kSuccess) \<and>
    app_sequence app' = app_sequence app + (if b then 1 else 2)"
proof -
  have match: "credentials_match s m" using assms(5,6) by (simp add: credentials_match_def)
  obtain b app1 where r: "login_register my (LoginReq_get_phone_number m) app = Inr (b, app1)"
      "app_sequence app1 = app_sequence app"
    using login_register_ok [OF assms(1)] by blast
  with LoginReq_Handle_match [OF assms(2-4) match r(1)] show ?thesis by auto
qed

text \<open>A server whose database cannot be reached.\<close>

definition broken_app :: "(byte list \<times> byte list, mem_db) app" where
  "broken_app = demo_app\<lparr>app_dao := local_dao\<lparr>dao_pool := Some broken_pool\<rparr>\<rparr>"

theorem login_failure_reported_as_success_witness:
  "\<exists>app' n. LoginReq_Handle mem_mysql (demo_login_req [] 0) broken_app =
     Inr (app', login_response 3 n kSuccess) \<and> app_sequence app' = 7"
proof -
  have ok: "app_ok mem_mysql broken_app"
    by (simp add: app_ok_def broken_app_def dao_inv_def broken_pool_def pool_inv_def pool_sizes_ok_def local_dao_def)
  have "RequestHandler mem_mysql broken_pool d = (None, broken_pool, d)" for d
    by (simp add: RequestHandler_def can_request_def broken_pool_def)
  then have "login_register mem_mysql [] broken_app = Inr (False, broken_app)"
    by (simp add: login_register_def dao_instance_def UserDAO_Instance_def IsExist_def Insert_def dao_execute_def
        with_handler_def broken_app_def local_dao_def demo_app_def)
  moreover have "app_sequence broken_app = 5" by (simp add: broken_app_def demo_app_def)
  ultimately show ?thesis
    using login_failure_reported_as_success [OF ok, of "demo_login_req [] 0" 3
        "set_bufev (Session_new 7 ''10.0.0.1'' 4000) ([], [])"
        "LoginReq_set_identifier (LoginReq_set_phone_number (LoginReq_ctor None) []) 0"]
    by (auto simp: demo_login_req_def broken_app_def demo_app_def set_bufev_def Session_new_def)
qed

text \<open>
  A client that never asked for an identifier can log in: on a new session the
  empty phone number with the identifier 0 matches, and the empty number becomes a user.
\<close>

theorem login_without_identifier:
  assumes "user_store my users" and "dao_ready (app_dao app)"
    and "app_sessions app sid = Some (set_bufev (Session_new socket ip port) bev)"
    and "ev_session e = Some sid" and "ev_body e = EvLoginReq m"
    and "LoginReq_get_phone_number m = []" and "LoginReq_get_identifier m = 0"
  shows "\<exists>app' n. LoginReq_Handle my e app = Inr (app', login_response sid n kSuccess) \<and>
    [] \<in> set (users (app_db app'))"
proof -
  let ?s = "set_bufev (Session_new socket ip port) bev"
  have match: "credentials_match ?s m"
    using assms(6,7) by (simp add: credentials_match_def set_bufev_def Session_new_def)
  obtain app1 where r: "login_register my [] app = Inr (True, app1)" "[] \<in> set (users (app_db app1))"
    using login_register_store [OF assms(1,2), of "[]"] by (auto simp: plain_def split: if_splits)
  with LoginReq_Handle_match [OF assms(4,3,5) match, of my True app1] assms(6) show ?thesis by auto
qed

theorem login_without_identifier_witness:
  "\<exists>app' n. LoginReq_Handle mem_mysql (demo_login_req [] 0) demo_app =
     Inr (app', login_response 3 n kSuccess) \<and> [] \<in> set (mem_users (app_db app'))"
  using login_without_identifier [OF mem_user_store, of demo_app 3 7 "''10.0.0.1''" 4000 "([], [])" "demo_login_req [] 0"
      "LoginReq_set_identifier (LoginReq_set_phone_number (LoginReq_ctor None) []) 0"]
  by (simp add: demo_login_req_def demo_app_def)

end
