(* ===== verification/Tiny_Tp.thy ===== *)
theory Tiny_Tp
  imports Prelude
begin

text \<open>
  \<^verbatim>\<open>3rd/include/tinys/tiny_tp.hpp\<close>: the thread pool that runs the event handlers. A
  worker's cycle is cut at its lock operations: taking a task (under the queue's mutex),
  executing it (no lock held), publishing the result (under the results' mutex) and
  marking itself idle. The pool's steps interleave in any order; executing a task may
  change a state \<open>'s\<close> outside the pool and may run into undefined behaviour.
\<close>

section \<open>First in, first out\<close>

text \<open>
  The interface of both queues of the pool. The history of a queue is what was pushed and
  what was popped; the lemma says that nothing is lost, duplicated or reordered.
\<close>

datatype 'a q_op = Pushed 'a | Popped 'a

fun pushes :: "'a q_op list \<Rightarrow> 'a list" where
  "pushes [] = []"
| "pushes (Pushed x # ops) = x # pushes ops"
| "pushes (Popped x # ops) = pushes ops"

fun pops :: "'a q_op list \<Rightarrow> 'a list" where
  "pops [] = []"
| "pops (Pushed x # ops) = pops ops"
| "pops (Popped x # ops) = x # pops ops"

lemma pushes_append [simp]: "pushes (xs @ ys) = pushes xs @ pushes ys"
  by (induction xs rule: pushes.induct) auto

lemma pops_append [simp]: "pops (xs @ ys) = pops xs @ pops ys"
  by (induction xs rule: pops.induct) auto

locale fifo =
  fixes items :: "'q \<Rightarrow> 'a list"
    and moved :: "'q \<Rightarrow> 'a q_op list \<Rightarrow> 'q \<Rightarrow> bool"
  assumes moved_ok: "moved q ops q' \<Longrightarrow> items q @ pushes ops = pops ops @ items q'"
begin

text \<open>A run: the moves of successive steps, with their histories joined.\<close>

lemma history:
  assumes "items q0 @ pushes h = pops h @ items q" and "moved q ops q'"
  shows "items q0 @ pushes (h @ ops) = pops (h @ ops) @ items q'"
proof -
  have "items q0 @ pushes (h @ ops) = pops h @ items q @ pushes ops"
    using assms(1) by (simp flip: append_assoc)
  also have "\<dots> = pops h @ pops ops @ items q'"
    by (simp add: moved_ok [OF assms(2)])
  finally show ?thesis by simp
qed

end

section \<open>The pool\<close>

datatype 't task = Task 't | QuitTask

text \<open>What \<^verbatim>\<open>Execute\<close> returns: a null pointer, the exit mark of a quit task, or a result.\<close>

datatype 'r exec_result = Null | ExitMark | Result 'r

datatype ('t, 'r) thread_pc =
    Waiting
  | Taken "'t task"
  | Executed "'r exec_result"
  | Published
  | Exited

record ('t, 'r) ThreadPool =
  waiting_queue :: "'t task list"
  results_queue :: "'r list"
  threads_idle :: "bool list"
  kMaxQueueSize :: u32
  kNumThreads :: u32
  exit_mark :: u32
  pcs :: "('t, 'r) thread_pc list"

definition kDefaultMaxQueueSize :: u32 where
  "kDefaultMaxQueueSize = 65535"

definition ThreadPool_new :: "u32 \<Rightarrow> u32 \<Rightarrow> ('t, 'r) ThreadPool" where
  "ThreadPool_new num_threads max_queue_size =
     \<lparr>waiting_queue = [], results_queue = [], threads_idle = replicate (unat num_threads) True,
      kMaxQueueSize = max_queue_size, kNumThreads = num_threads, exit_mark = 0,
      pcs = replicate (unat num_threads) Waiting\<rparr>"

text \<open>The default constructor; the number of hardware threads is an argument.\<close>

definition ThreadPool_default :: "u32 \<Rightarrow> ('t, 'r) ThreadPool" where
  "ThreadPool_default hardware_concurrency = ThreadPool_new hardware_concurrency kDefaultMaxQueueSize"

text \<open>The constructor with a number of threads only.\<close>

definition ThreadPool_threads :: "u32 \<Rightarrow> ('t, 'r) ThreadPool" where
  "ThreadPool_threads num_threads = ThreadPool_new num_threads kDefaultMaxQueueSize"

definition Drop :: "('t, 'r) ThreadPool \<Rightarrow> 't task \<Rightarrow> bool \<times> ('t, 'r) ThreadPool" where
  "Drop tp task =
     (if length (waiting_queue tp) \<ge> unat (kMaxQueueSize tp) then (False, tp)
      else (True, tp\<lparr>waiting_queue := waiting_queue tp @ [task]\<rparr>))"

fun grab_loop :: "'r list \<Rightarrow> 'r list \<Rightarrow> 'r list \<times> 'r list" where
  "grab_loop results [] = (results, [])"
| "grab_loop results (x # q) = grab_loop (results @ [x]) q"

definition GrabAllResults :: "('t, 'r) ThreadPool \<Rightarrow> 'r list \<times> ('t, 'r) ThreadPool" where
  "GrabAllResults tp =
     (case grab_loop [] (results_queue tp) of (results, q) \<Rightarrow> (results, tp\<lparr>results_queue := q\<rparr>))"

definition QueryIdleThreadsCount :: "('t, 'r) ThreadPool \<Rightarrow> nat" where
  "QueryIdleThreadsCount tp = count_if (\<lambda>e. e) (threads_idle tp)"

definition QueryWaitingQueueCount :: "('t, 'r) ThreadPool \<Rightarrow> nat" where
  "QueryWaitingQueueCount tp = length (waiting_queue tp)"

definition QueryResultsCount :: "('t, 'r) ThreadPool \<Rightarrow> nat" where
  "QueryResultsCount tp = length (results_queue tp)"

section \<open>A worker's cycle\<close>

text \<open>
  Waiting for a task ends when the queue is not empty; the thread marks itself busy and
  pops the front, all under the queue's mutex.
\<close>

definition Cycle_take :: "nat \<Rightarrow> ('t, 'r) ThreadPool \<Rightarrow> ('t, 'r) ThreadPool option" where
  "Cycle_take i tp =
     (if i < length (pcs tp) \<and> pcs tp ! i = Waiting then
        (case waiting_queue tp of
           [] \<Rightarrow> None
         | task # q \<Rightarrow> Some (tp\<lparr>threads_idle := (threads_idle tp)[i := False], waiting_queue := q,
                                pcs := (pcs tp)[i := Taken task]\<rparr>))
      else None)"

type_synonym ('t, 'r, 's) executor = "'t \<Rightarrow> 's \<Rightarrow> ('s \<times> 'r option) run"

definition Execute :: "('t, 'r, 's) executor \<Rightarrow> 't task \<Rightarrow> 's \<Rightarrow> ('s \<times> 'r exec_result) run" where
  "Execute exec task s =
     (case task of
        QuitTask \<Rightarrow> Inr (s, ExitMark)
      | Task t \<Rightarrow> bind_run (exec t s) (\<lambda>(s', r).
          Inr (s', (case r of None \<Rightarrow> Null | Some x \<Rightarrow> Result x))))"

definition Cycle_execute ::
    "('t, 'r, 's) executor \<Rightarrow> nat \<Rightarrow> ('t, 'r) ThreadPool \<Rightarrow> 's \<Rightarrow> (('t, 'r) ThreadPool \<times> 's) run option" where
  "Cycle_execute exec i tp s =
     (if i < length (pcs tp) then
        (case pcs tp ! i of
           Taken task \<Rightarrow> Some (bind_run (Execute exec task s) (\<lambda>(s', r).
             Inr (tp\<lparr>pcs := (pcs tp)[i := Executed r]\<rparr>, s')))
         | _ \<Rightarrow> None)
      else None)"

definition Cycle_publish :: "nat \<Rightarrow> ('t, 'r) ThreadPool \<Rightarrow> ('t, 'r) ThreadPool option" where
  "Cycle_publish i tp =
     (if i < length (pcs tp) then
        (case pcs tp ! i of
           Executed Null \<Rightarrow> Some (tp\<lparr>pcs := (pcs tp)[i := Published]\<rparr>)
         | Executed ExitMark \<Rightarrow>
             Some (tp\<lparr>exit_mark := exit_mark tp + 1, pcs := (pcs tp)[i := Exited]\<rparr>)
         | Executed (Result x) \<Rightarrow>
             Some (tp\<lparr>results_queue := results_queue tp @ [x], pcs := (pcs tp)[i := Published]\<rparr>)
         | _ \<Rightarrow> None)
      else None)"

definition Cycle_idle :: "nat \<Rightarrow> ('t, 'r) ThreadPool \<Rightarrow> ('t, 'r) ThreadPool option" where
  "Cycle_idle i tp =
     (if i < length (pcs tp) \<and> pcs tp ! i = Published then
        Some (tp\<lparr>threads_idle := (threads_idle tp)[i := True], pcs := (pcs tp)[i := Waiting]\<rparr>)
      else None)"

section \<open>Steps of the pool\<close>

datatype ('t, 'r) label =
    LDrop "'t task" bool
  | LGrab "'r list"
  | LTake nat "'t task"
  | LExec nat "'t task" "'r exec_result"
  | LPublish nat "'r exec_result"
  | LIdle nat

inductive cycle_step ::
    "('t, 'r, 's) executor \<Rightarrow> ('t, 'r) ThreadPool \<times> 's \<Rightarrow> ('t, 'r) label \<Rightarrow> ('t, 'r) ThreadPool \<times> 's \<Rightarrow> bool"
  for exec where
  take: "Cycle_take i tp = Some tp' \<Longrightarrow> waiting_queue tp = task # q \<Longrightarrow>
     cycle_step exec (tp, s) (LTake i task) (tp', s)"
| execute: "Cycle_execute exec i tp s = Some (Inr (tp', s')) \<Longrightarrow> pcs tp ! i = Taken task \<Longrightarrow>
     pcs tp' ! i = Executed r \<Longrightarrow> cycle_step exec (tp, s) (LExec i task r) (tp', s')"
| publish: "Cycle_publish i tp = Some tp' \<Longrightarrow> pcs tp ! i = Executed r \<Longrightarrow>
     cycle_step exec (tp, s) (LPublish i r) (tp', s)"
| idle: "Cycle_idle i tp = Some tp' \<Longrightarrow> cycle_step exec (tp, s) (LIdle i) (tp', s)"

text \<open>The pool with its clients, who drop tasks and grab results at any time.\<close>

inductive tp_step ::
    "('t, 'r, 's) executor \<Rightarrow> ('t, 'r) ThreadPool \<times> 's \<Rightarrow> ('t, 'r) label \<Rightarrow> ('t, 'r) ThreadPool \<times> 's \<Rightarrow> bool"
  for exec where
  cycle: "cycle_step exec c l c' \<Longrightarrow> tp_step exec c l c'"
| drop: "Drop tp task = (r, tp') \<Longrightarrow> tp_step exec (tp, s) (LDrop task r) (tp', s)"
| grab: "GrabAllResults tp = (rs, tp') \<Longrightarrow> tp_step exec (tp, s) (LGrab rs) (tp', s)"

inductive tp_run ::
    "('t, 'r, 's) executor \<Rightarrow> ('t, 'r) ThreadPool \<times> 's \<Rightarrow> ('t, 'r) label list \<Rightarrow> ('t, 'r) ThreadPool \<times> 's \<Rightarrow> bool"
  for exec where
  nil: "tp_run exec c [] c"
| snoc: "tp_run exec c ls c' \<Longrightarrow> tp_step exec c' l c'' \<Longrightarrow> tp_run exec c (ls @ [l]) c''"

section \<open>The destructor\<close>

text \<open>
  The destructor's loop: in round \<open>i\<close> a quit task is dropped, and the loop yields until
  the exit mark has reached \<open>i + 1\<close>. Whether \<^verbatim>\<open>Drop\<close> accepted the task is not looked
  at. The workers' steps interleave with it; a yield changes nothing and is no step.
\<close>

datatype dtor_pc = DStart nat | DWait nat | DDone

definition quit_round_start :: "('t, 'r) ThreadPool \<Rightarrow> ('t, 'r) ThreadPool" where
  "quit_round_start tp = snd (Drop tp QuitTask)"

definition quit_round_done :: "nat \<Rightarrow> ('t, 'r) ThreadPool \<Rightarrow> bool" where
  "quit_round_done i tp \<longleftrightarrow> exit_mark tp = of_nat i + 1"

inductive dtor_step ::
    "('t, 'r, 's) executor \<Rightarrow> dtor_pc \<times> ('t, 'r) ThreadPool \<times> 's \<Rightarrow> dtor_pc \<times> ('t, 'r) ThreadPool \<times> 's \<Rightarrow> bool"
  for exec where
  round_start: "i < unat (kNumThreads tp) \<Longrightarrow>
     dtor_step exec (DStart i, tp, s) (DWait i, quit_round_start tp, s)"
| round_done: "quit_round_done i tp \<Longrightarrow> dtor_step exec (DWait i, tp, s) (DStart (Suc i), tp, s)"
| finished: "unat (kNumThreads tp) \<le> i \<Longrightarrow> dtor_step exec (DStart i, tp, s) (DDone, tp, s)"
| worker: "cycle_step exec c l c' \<Longrightarrow> dtor_step exec (d, c) (d, c')"

section \<open>Histories of the two queues\<close>

fun task_ops :: "('t, 'r) label \<Rightarrow> 't task q_op list" where
  "task_ops (LDrop task r) = (if r then [Pushed task] else [])"
| "task_ops (LTake i task) = [Popped task]"
| "task_ops _ = []"

fun result_ops :: "('t, 'r) label \<Rightarrow> 'r q_op list" where
  "result_ops (LPublish i r) = (case r of Result x \<Rightarrow> [Pushed x] | _ \<Rightarrow> [])"
| "result_ops (LGrab rs) = map Popped rs"
| "result_ops _ = []"

text \<open>The tasks a run executed and the results executing them gave.\<close>

definition executed_tasks :: "('t, 'r) label list \<Rightarrow> 't task multiset" where
  "executed_tasks ls = mset (List.map_filter (\<lambda>l. case l of LExec i t r \<Rightarrow> Some t | _ \<Rightarrow> None) ls)"

definition produced :: "('t, 'r) label list \<Rightarrow> 'r exec_result multiset" where
  "produced ls = mset (List.map_filter (\<lambda>l. case l of LExec i t r \<Rightarrow> Some r | _ \<Rightarrow> None) ls)"

definition published :: "('t, 'r) label list \<Rightarrow> 'r exec_result multiset" where
  "published ls = mset (List.map_filter (\<lambda>l. case l of LPublish i r \<Rightarrow> Some r | _ \<Rightarrow> None) ls)"

definition in_hand :: "('t, 'r) ThreadPool \<Rightarrow> 't task multiset" where
  "in_hand tp = mset (List.map_filter (\<lambda>p. case p of Taken t \<Rightarrow> Some t | _ \<Rightarrow> None) (pcs tp))"

definition unpublished :: "('t, 'r) ThreadPool \<Rightarrow> 'r exec_result multiset" where
  "unpublished tp = mset (List.map_filter (\<lambda>p. case p of Executed r \<Rightarrow> Some r | _ \<Rightarrow> None) (pcs tp))"

definition tasks_of :: "('t, 'r) label list \<Rightarrow> 't task q_op list" where
  "tasks_of ls = concat (map task_ops ls)"

definition results_of :: "('t, 'r) label list \<Rightarrow> 'r q_op list" where
  "results_of ls = concat (map result_ops ls)"

section \<open>Invariants\<close>

definition tp_inv :: "('t, 'r) ThreadPool \<Rightarrow> bool" where
  "tp_inv tp \<longleftrightarrow>
     length (waiting_queue tp) \<le> unat (kMaxQueueSize tp) \<and>
     length (pcs tp) = unat (kNumThreads tp) \<and> length (threads_idle tp) = unat (kNumThreads tp) \<and>
     (\<forall>i < length (pcs tp). threads_idle tp ! i \<longleftrightarrow> pcs tp ! i = Waiting) \<and>
     unat (exit_mark tp) = count_if (\<lambda>p. p = Exited) (pcs tp)"

fun pc_weight :: "('t, 'r) thread_pc \<Rightarrow> nat" where
  "pc_weight Waiting = 0"
| "pc_weight (Taken t) = 3"
| "pc_weight (Executed r) = 2"
| "pc_weight Published = 1"
| "pc_weight Exited = 0"

definition work_left :: "('t, 'r) ThreadPool \<Rightarrow> nat" where
  "work_left tp = 4 * length (waiting_queue tp) + sum_list (map pc_weight (pcs tp))"

inductive_cases cycle_stepE: "cycle_step exec c l c'"
inductive_cases tp_stepE: "tp_step exec c l c'"

lemmas Cycle_defs = Cycle_take_def Cycle_execute_def Cycle_publish_def Cycle_idle_def

lemma grab_loop_eq: "grab_loop rs q = (rs @ q, [])"
  by (induction rs q rule: grab_loop.induct) auto

lemma GrabAllResults_eq: "GrabAllResults tp = (results_queue tp, tp\<lparr>results_queue := []\<rparr>)"
  by (simp add: GrabAllResults_def grab_loop_eq)

lemma Drop_cases:
  "Drop tp task = (r, tp') \<Longrightarrow>
     (if r then length (waiting_queue tp) < unat (kMaxQueueSize tp) \<and>
                tp' = tp\<lparr>waiting_queue := waiting_queue tp @ [task]\<rparr>
      else tp' = tp \<and> unat (kMaxQueueSize tp) \<le> length (waiting_queue tp))"
  by (auto simp: Drop_def split: if_splits)

text \<open>Every step of a worker, by the state of its thread.\<close>

lemma cycle_step_cases [consumes 1, case_names take execute publish_null publish_exit publish_result idle]:
  assumes "cycle_step exec c l c'"
  obtains
    i tp s task q where "c = (tp, s)" "l = LTake i task" "i < length (pcs tp)" "pcs tp ! i = Waiting"
      "waiting_queue tp = task # q"
      "c' = (tp\<lparr>threads_idle := (threads_idle tp)[i := False], waiting_queue := q, pcs := (pcs tp)[i := Taken task]\<rparr>, s)"
  | i tp s task r s' where "c = (tp, s)" "l = LExec i task r" "i < length (pcs tp)" "pcs tp ! i = Taken task"
      "Execute exec task s = Inr (s', r)" "c' = (tp\<lparr>pcs := (pcs tp)[i := Executed r]\<rparr>, s')"
  | i tp s where "c = (tp, s)" "l = LPublish i Null" "i < length (pcs tp)" "pcs tp ! i = Executed Null"
      "c' = (tp\<lparr>pcs := (pcs tp)[i := Published]\<rparr>, s)"
  | i tp s where "c = (tp, s)" "l = LPublish i ExitMark" "i < length (pcs tp)" "pcs tp ! i = Executed ExitMark"
      "c' = (tp\<lparr>exit_mark := exit_mark tp + 1, pcs := (pcs tp)[i := Exited]\<rparr>, s)"
  | i tp s x where "c = (tp, s)" "l = LPublish i (Result x)" "i < length (pcs tp)" "pcs tp ! i = Executed (Result x)"
      "c' = (tp\<lparr>results_queue := results_queue tp @ [x], pcs := (pcs tp)[i := Published]\<rparr>, s)"
  | i tp s where "c = (tp, s)" "l = LIdle i" "i < length (pcs tp)" "pcs tp ! i = Published"
      "c' = (tp\<lparr>threads_idle := (threads_idle tp)[i := True], pcs := (pcs tp)[i := Waiting]\<rparr>, s)"
  using assms
  by (cases rule: cycle_step.cases)
     (auto simp: Cycle_defs bind_run_Inr_conv split: if_splits thread_pc.splits exec_result.splits list.splits)

section \<open>Nothing is lost, duplicated or reordered\<close>

lemma tp_step_tasks:
  assumes "tp_step exec c l c'"
  shows "waiting_queue (fst c) @ pushes (task_ops l) = pops (task_ops l) @ waiting_queue (fst c')"
  using assms
proof (cases rule: tp_step.cases)
  case cycle
  then show ?thesis by (cases rule: cycle_step_cases) auto
qed (auto simp: GrabAllResults_eq dest: Drop_cases)

lemma pops_map_Popped [simp]: "pops (map Popped rs) = rs" "pushes (map Popped rs) = []"
  by (induction rs) auto

lemma tp_step_results:
  assumes "tp_step exec c l c'"
  shows "results_queue (fst c) @ pushes (result_ops l) = pops (result_ops l) @ results_queue (fst c')"
  using assms
proof (cases rule: tp_step.cases)
  case cycle
  then show ?thesis by (cases rule: cycle_step_cases) auto
next
  case (drop tp task r tp' s)
  then show ?thesis by (cases r) (auto dest: Drop_cases)
qed (auto simp: GrabAllResults_eq)

interpretation tasks: fifo "\<lambda>c. waiting_queue (fst c)" "\<lambda>c ops c'. \<exists>l. tp_step exec c l c' \<and> ops = task_ops l"
  for exec
  by unfold_locales (auto intro: tp_step_tasks)

interpretation results: fifo "\<lambda>c. results_queue (fst c)" "\<lambda>c ops c'. \<exists>l. tp_step exec c l c' \<and> ops = result_ops l"
  for exec
  by unfold_locales (auto intro: tp_step_results)

lemma tp_run_fifo:
  assumes "tp_run exec c ls c'"
  shows "waiting_queue (fst c) @ pushes (tasks_of ls) = pops (tasks_of ls) @ waiting_queue (fst c')"
    and "results_queue (fst c) @ pushes (results_of ls) = pops (results_of ls) @ results_queue (fst c')"
  using assms
proof (induction rule: tp_run.induct)
  case (nil c)
  { case 1 show ?case by (simp add: tasks_of_def) }
  { case 2 show ?case by (simp add: results_of_def) }
next
  case (snoc c ls c' l c'')
  { case 1
    have "\<exists>k. tp_step exec c' k c'' \<and> task_ops l = task_ops k" using snoc.hyps by blast
    from tasks.history [OF snoc.IH(1) this] show ?case by (simp add: tasks_of_def) }
  { case 2
    have "\<exists>k. tp_step exec c' k c'' \<and> result_ops l = result_ops k" using snoc.hyps by blast
    from results.history [OF snoc.IH(2) this] show ?case by (simp add: results_of_def) }
qed

lemmas pool_counts = executed_tasks_def produced_def published_def in_hand_def unpublished_def

lemma map_filter_snoc: "List.map_filter f (xs @ [x]) = List.map_filter f xs @ (case f x of None \<Rightarrow> [] | Some y \<Rightarrow> [y])"
  by (induction xs) (auto simp: map_filter_simps split: option.splits)

lemma in_hand_update:
  assumes "i < length (pcs tp)"
  shows "in_hand (tp\<lparr>pcs := (pcs tp)[i := p]\<rparr>) + (case pcs tp ! i of Taken t \<Rightarrow> {#t#} | _ \<Rightarrow> {#}) =
         in_hand tp + (case p of Taken t \<Rightarrow> {#t#} | _ \<Rightarrow> {#})"
  using mset_map_filter_update [OF assms, of "\<lambda>p. case p of Taken t \<Rightarrow> Some t | _ \<Rightarrow> None" p]
  by (simp add: in_hand_def map_filter_simps split: thread_pc.splits)

lemma unpublished_update:
  assumes "i < length (pcs tp)"
  shows "unpublished (tp\<lparr>pcs := (pcs tp)[i := p]\<rparr>) + (case pcs tp ! i of Executed r \<Rightarrow> {#r#} | _ \<Rightarrow> {#}) =
         unpublished tp + (case p of Executed r \<Rightarrow> {#r#} | _ \<Rightarrow> {#})"
  using mset_map_filter_update [OF assms, of "\<lambda>p. case p of Executed r \<Rightarrow> Some r | _ \<Rightarrow> None" p]
  by (simp add: unpublished_def map_filter_simps split: thread_pc.splits)

text \<open>The counts only look at the threads' states.\<close>

lemma pool_counts_frame [simp]:
  "in_hand (tp\<lparr>threads_idle := b\<rparr>) = in_hand tp" "unpublished (tp\<lparr>threads_idle := b\<rparr>) = unpublished tp"
  "in_hand (tp\<lparr>waiting_queue := w\<rparr>) = in_hand tp" "unpublished (tp\<lparr>waiting_queue := w\<rparr>) = unpublished tp"
  "in_hand (tp\<lparr>results_queue := r\<rparr>) = in_hand tp" "unpublished (tp\<lparr>results_queue := r\<rparr>) = unpublished tp"
  "in_hand (tp\<lparr>exit_mark := m\<rparr>) = in_hand tp" "unpublished (tp\<lparr>exit_mark := m\<rparr>) = unpublished tp"
  by (simp_all add: in_hand_def unpublished_def)

lemma tp_step_in_hand:
  assumes "tp_step exec c l c'"
  shows "in_hand (fst c) + mset (pops (task_ops l)) = executed_tasks [l] + in_hand (fst c')"
    and "unpublished (fst c) + produced [l] = published [l] + unpublished (fst c')"
proof -
  have "in_hand (fst c) + mset (pops (task_ops l)) = executed_tasks [l] + in_hand (fst c') \<and>
        unpublished (fst c) + produced [l] = published [l] + unpublished (fst c')"
    using assms
  proof (cases rule: tp_step.cases)
    case cycle
    then show ?thesis
    proof (cases rule: cycle_step_cases)
      case (take i tp s task q)
      then show ?thesis
        using in_hand_update [of i "tp\<lparr>threads_idle := (threads_idle tp)[i := False], waiting_queue := q\<rparr>" "Taken task"]
          unpublished_update [of i "tp\<lparr>threads_idle := (threads_idle tp)[i := False], waiting_queue := q\<rparr>" "Taken task"]
        by (simp add: executed_tasks_def produced_def published_def map_filter_simps)
    next
      case (execute i tp s task r s')
      then show ?thesis
        using in_hand_update [of i tp "Executed r"] unpublished_update [of i tp "Executed r"]
        by (simp add: executed_tasks_def produced_def published_def map_filter_simps)
    next
      case (publish_null i tp s)
      then show ?thesis
        using in_hand_update [of i tp Published] unpublished_update [of i tp Published]
        by (simp add: executed_tasks_def produced_def published_def map_filter_simps)
    next
      case (publish_exit i tp s)
      then show ?thesis
        using in_hand_update [of i "tp\<lparr>exit_mark := exit_mark tp + 1\<rparr>" Exited]
          unpublished_update [of i "tp\<lparr>exit_mark := exit_mark tp + 1\<rparr>" Exited]
        by (simp add: executed_tasks_def produced_def published_def map_filter_simps)
    next
      case (publish_result i tp s x)
      then show ?thesis
        using in_hand_update [of i "tp\<lparr>results_queue := results_queue tp @ [x]\<rparr>" Published]
          unpublished_update [of i "tp\<lparr>results_queue := results_queue tp @ [x]\<rparr>" Published]
        by (simp add: executed_tasks_def produced_def published_def map_filter_simps)
    next
      case (idle i tp s)
      then show ?thesis
        using in_hand_update [of i "tp\<lparr>threads_idle := (threads_idle tp)[i := True]\<rparr>" Waiting]
          unpublished_update [of i "tp\<lparr>threads_idle := (threads_idle tp)[i := True]\<rparr>" Waiting]
        by (simp add: executed_tasks_def produced_def published_def map_filter_simps)
    qed
  qed (auto simp: GrabAllResults_eq executed_tasks_def produced_def published_def map_filter_simps
         dest!: Drop_cases split: if_splits)
  then show "in_hand (fst c) + mset (pops (task_ops l)) = executed_tasks [l] + in_hand (fst c')"
    and "unpublished (fst c) + produced [l] = published [l] + unpublished (fst c')" by auto
qed


lemma pool_counts_snoc:
  "executed_tasks (ls @ [l]) = executed_tasks ls + executed_tasks [l]"
  "produced (ls @ [l]) = produced ls + produced [l]"
  "published (ls @ [l]) = published ls + published [l]"
  by (simp_all add: executed_tasks_def produced_def published_def map_filter_snoc map_filter_simps
      split: option.splits)

lemma tp_run_counts:
  assumes "tp_run exec c ls c'"
  shows "in_hand (fst c) + mset (pops (tasks_of ls)) = executed_tasks ls + in_hand (fst c')"
    and "unpublished (fst c) + produced ls = published ls + unpublished (fst c')"
  using assms
proof (induction rule: tp_run.induct)
  case (nil c)
  { case 1 show ?case by (simp add: tasks_of_def executed_tasks_def map_filter_simps) }
  { case 2 show ?case by (simp add: produced_def published_def map_filter_simps) }
next
  case (snoc c ls c' l c'')
  note step = tp_step_in_hand [OF snoc.hyps(2)]
  { case 1
    have "in_hand (fst c) + mset (pops (tasks_of (ls @ [l]))) =
        (in_hand (fst c) + mset (pops (tasks_of ls))) + mset (pops (task_ops l))"
      by (simp add: tasks_of_def ac_simps)
    also have "\<dots> = executed_tasks ls + (in_hand (fst c') + mset (pops (task_ops l)))"
      by (simp add: snoc.IH(1) ac_simps)
    also have "\<dots> = executed_tasks (ls @ [l]) + in_hand (fst c'')"
      by (simp add: step(1) pool_counts_snoc(1) ac_simps)
    finally show ?case . }
  { case 2
    have "unpublished (fst c) + produced (ls @ [l]) = (unpublished (fst c) + produced ls) + produced [l]"
      by (simp add: pool_counts_snoc(2) ac_simps)
    also have "\<dots> = published ls + (unpublished (fst c') + produced [l])"
      by (simp only: snoc.IH(2) add.assoc)
    also have "\<dots> = published (ls @ [l]) + unpublished (fst c'')"
      by (simp add: step(2) pool_counts_snoc(3) ac_simps)
    finally show ?case . }
qed

lemma new_pool_empty:
  "in_hand (ThreadPool_new n m) = {#}" "unpublished (ThreadPool_new n m) = {#}"
  by (simp_all add: in_hand_def unpublished_def ThreadPool_new_def map_filter_def)

text \<open>The results clients can have seen: those that were published with a value.\<close>

fun result_values :: "'r exec_result \<Rightarrow> 'r multiset" where
  "result_values (Result x) = {#x#}"
| "result_values _ = {#}"

lemma results_pushed:
  "mset (pushes (results_of ls)) = (\<Sum>r\<in>#published ls. result_values r)"
proof (induction ls rule: rev_induct)
  case Nil
  then show ?case by (simp add: results_of_def published_def map_filter_simps)
next
  case (snoc l ls)
  have "mset (pushes (result_ops l)) = (\<Sum>r\<in>#published [l]. result_values r)"
    by (cases l) (auto simp: published_def map_filter_simps split: exec_result.splits)
  with snoc show ?case
    by (simp add: results_of_def pool_counts_snoc)
qed

section \<open>Invariants of the pool\<close>

lemma tp_inv_new: "tp_inv (ThreadPool_new n m)"
  by (simp add: tp_inv_def ThreadPool_new_def count_if_eq)

lemma count_exited_update:
  assumes "i < length ps" and "ps ! i \<noteq> Exited"
  shows "count_if (\<lambda>p. p = Exited) (ps[i := p]) =
    (if p = Exited then Suc (count_if (\<lambda>p. p = Exited) ps) else count_if (\<lambda>p. p = Exited) ps)"
  using assms
proof (induction ps arbitrary: i)
  case Nil
  then show ?case by simp
next
  case (Cons x xs)
  then show ?case by (cases i) auto
qed

lemma count_exited_less:
  assumes "i < length ps" and "ps ! i \<noteq> Exited"
  shows "count_if (\<lambda>p. p = Exited) ps < length ps"
  using assms count_if_le [of "\<lambda>p. p = Exited" ps] count_if_all [of "\<lambda>p. p = Exited" ps]
  by (cases "count_if (\<lambda>p. p = Exited) ps = length ps") auto

lemma exit_mark_Suc:
  assumes "tp_inv tp" and "i < length (pcs tp)" and "pcs tp ! i \<noteq> Exited"
  shows "unat (exit_mark tp + 1) = Suc (unat (exit_mark tp))"
proof -
  have "unat (exit_mark tp) < unat (kNumThreads tp)"
    using assms count_exited_less [OF assms(2,3)] by (simp add: tp_inv_def)
  with unat_lt_u32 [of "kNumThreads tp"] have "Suc (unat (exit_mark tp)) < 4294967296" by linarith
  then show ?thesis by (simp add: unat_word_ariths)
qed

lemma tp_inv_cycle:
  assumes "cycle_step exec c l c'" and "tp_inv (fst c)"
  shows "tp_inv (fst c')"
  using assms(1)
proof (cases rule: cycle_step_cases)
  case (publish_exit i tp s)
  with assms(2) have "unat (exit_mark tp + 1) = Suc (unat (exit_mark tp))"
    by (intro exit_mark_Suc) auto
  with publish_exit assms(2) show ?thesis
    by (auto simp: tp_inv_def count_exited_update nth_list_update)
qed (use assms(2) in \<open>auto simp: tp_inv_def count_exited_update nth_list_update\<close>)

lemma tp_inv_step:
  assumes "tp_step exec c l c'" and "tp_inv (fst c)"
  shows "tp_inv (fst c')"
  using assms(1)
proof (cases rule: tp_step.cases)
  case cycle
  then show ?thesis using tp_inv_cycle assms(2) by blast
next
  case (drop tp task r tp' s)
  with assms(2) show ?thesis
    by (cases r) (auto simp: tp_inv_def dest!: Drop_cases)
next
  case (grab tp rs tp' s)
  with assms(2) show ?thesis by (auto simp: GrabAllResults_eq tp_inv_def)
qed

lemma tp_step_constants:
  assumes "tp_step exec c l c'"
  shows "kMaxQueueSize (fst c') = kMaxQueueSize (fst c)" "kNumThreads (fst c') = kNumThreads (fst c)"
  using assms
  by (auto elim!: tp_stepE cycle_step_cases simp: GrabAllResults_eq dest!: Drop_cases split: if_splits)

lemma tp_run_inv:
  assumes "tp_run exec c ls c'" and "tp_inv (fst c)"
  shows "tp_inv (fst c') \<and> kMaxQueueSize (fst c') = kMaxQueueSize (fst c) \<and>
    kNumThreads (fst c') = kNumThreads (fst c)"
  using assms
  by (induction rule: tp_run.induct) (auto intro: tp_inv_step simp: tp_step_constants)

section \<open>Termination and progress of the workers\<close>

lemma cycle_step_work_left:
  assumes "cycle_step exec c l c'"
  shows "work_left (fst c') < work_left (fst c)"
  using assms
proof (cases rule: cycle_step_cases)
  case (take i tp s task q)
  then show ?thesis
    using sum_list_update_nat [of i "pcs tp" pc_weight "Taken task"] by (simp add: work_left_def)
next
  case (execute i tp s task r s')
  then show ?thesis
    using sum_list_update_nat [of i "pcs tp" pc_weight "Executed r"] by (simp add: work_left_def)
next
  case (publish_null i tp s)
  then show ?thesis
    using sum_list_update_nat [of i "pcs tp" pc_weight Published] by (simp add: work_left_def)
next
  case (publish_exit i tp s)
  then show ?thesis
    using sum_list_update_nat [of i "pcs tp" pc_weight Exited] by (simp add: work_left_def)
next
  case (publish_result i tp s x)
  then show ?thesis
    using sum_list_update_nat [of i "pcs tp" pc_weight Published] by (simp add: work_left_def)
next
  case (idle i tp s)
  then show ?thesis
    using sum_list_update_nat [of i "pcs tp" pc_weight Waiting] by (simp add: work_left_def)
qed

definition exec_returns :: "('t, 'r, 's) executor \<Rightarrow> bool" where
  "exec_returns exec \<longleftrightarrow> (\<forall>t s. \<exists>s' r. exec t s = Inr (s', r))"

lemma Execute_returns:
  assumes "exec_returns exec"
  shows "\<exists>s' r. Execute exec t s = Inr (s', r)"
proof (cases t)
  case (Task x)
  obtain s' r where "exec x s = Inr (s', r)" using assms unfolding exec_returns_def by blast
  with Task show ?thesis by (simp add: Execute_def)
qed (simp add: Execute_def)

lemma worker_can_step:
  assumes "exec_returns exec" and "i < length (pcs tp)" and "pcs tp ! i \<noteq> Exited"
    and "pcs tp ! i = Waiting \<Longrightarrow> waiting_queue tp \<noteq> []"
  shows "\<exists>l c'. cycle_step exec (tp, s) l c'"
proof (cases "pcs tp ! i")
  case Waiting
  with assms obtain t q where "waiting_queue tp = t # q" by (cases "waiting_queue tp") auto
  with Waiting assms have "cycle_step exec (tp, s) (LTake i t)
      (tp\<lparr>threads_idle := (threads_idle tp)[i := False], waiting_queue := q, pcs := (pcs tp)[i := Taken t]\<rparr>, s)"
    by (intro cycle_step.take) (simp_all add: Cycle_take_def)
  then show ?thesis by blast
next
  case (Taken t)
  obtain s' r where "Execute exec t s = Inr (s', r)" using Execute_returns [OF assms(1)] by blast
  with Taken assms have "cycle_step exec (tp, s) (LExec i t r) (tp\<lparr>pcs := (pcs tp)[i := Executed r]\<rparr>, s')"
    by (intro cycle_step.execute) (simp_all add: Cycle_execute_def)
  then show ?thesis by blast
next
  case (Executed r)
  with assms obtain tp' where "Cycle_publish i tp = Some tp'"
    by (cases r) (simp_all add: Cycle_publish_def)
  from cycle_step.publish [OF this Executed, of exec s] show ?thesis by blast
next
  case Published
  with assms have "cycle_step exec (tp, s) (LIdle i)
      (tp\<lparr>threads_idle := (threads_idle tp)[i := True], pcs := (pcs tp)[i := Waiting]\<rparr>, s)"
    by (intro cycle_step.idle) (simp add: Cycle_idle_def)
  then show ?thesis by blast
next
  case Exited
  with assms show ?thesis by simp
qed


section \<open>Termination of the destructor\<close>

text \<open>The quit tasks in the system: queued, taken, or executed and not yet counted.\<close>

definition quits :: "('t, 'r) ThreadPool \<Rightarrow> nat" where
  "quits tp = count (mset (waiting_queue tp)) QuitTask + count (in_hand tp) QuitTask +
     count (unpublished tp) ExitMark"

definition quit_last :: "('t, 'r) ThreadPool \<Rightarrow> bool" where
  "quit_last tp \<longleftrightarrow> waiting_queue tp = [] \<or> last (waiting_queue tp) = QuitTask"

text \<open>Only quit tasks give the exit mark, so a worker's step keeps the number of quits.\<close>

lemma Execute_ExitMark:
  "Execute exec t s = Inr (s', r) \<Longrightarrow> r = ExitMark \<longleftrightarrow> t = QuitTask"
  by (auto simp: Execute_def bind_run_Inr_conv split: task.splits option.splits)

lemma cycle_step_quits:
  assumes "cycle_step exec c l c'" and "tp_inv (fst c)"
  shows "quits (fst c') + unat (exit_mark (fst c')) = quits (fst c) + unat (exit_mark (fst c))"
proof -
  have step: "tp_step exec c l c'" using assms(1) by (rule tp_step.cycle)
  note counts = tp_step_in_hand [OF step] tp_step_tasks [OF step]
  have hand: "count (in_hand (fst c)) QuitTask + count (mset (pops (task_ops l))) QuitTask =
      count (executed_tasks [l]) QuitTask + count (in_hand (fst c')) QuitTask"
    and out: "count (unpublished (fst c)) ExitMark + count (produced [l]) ExitMark =
      count (published [l]) ExitMark + count (unpublished (fst c')) ExitMark"
    and queue: "count (mset (waiting_queue (fst c) @ pushes (task_ops l))) QuitTask =
      count (mset (pops (task_ops l) @ waiting_queue (fst c'))) QuitTask"
    using counts(3) by (simp_all flip: count_union add: counts(1,2))
  from assms(1) show ?thesis
  proof (cases rule: cycle_step_cases)
    case (take i tp s task q)
    with hand out queue show ?thesis
      by (auto simp: quits_def executed_tasks_def produced_def published_def map_filter_simps split: if_splits)
  next
    case (execute i tp s task r s')
    with hand out queue Execute_ExitMark [OF execute(5)] show ?thesis
      by (simp add: quits_def executed_tasks_def produced_def published_def map_filter_simps split: if_splits)
  next
    case (publish_exit i tp s)
    with assms(2) have "unat (exit_mark tp + 1) = Suc (unat (exit_mark tp))"
      by (intro exit_mark_Suc) auto
    with hand out queue publish_exit show ?thesis
      by (simp add: quits_def executed_tasks_def produced_def published_def map_filter_simps)
  qed (use hand out queue in \<open>simp_all add: quits_def executed_tasks_def produced_def published_def map_filter_simps\<close>)
qed

lemma cycle_step_quit_last:
  assumes "cycle_step exec c l c'" and "quit_last (fst c)"
  shows "quit_last (fst c')"
  using assms(1)
proof (cases rule: cycle_step_cases)
  case (take i tp s task q)
  with assms(2) show ?thesis by (auto simp: quit_last_def split: if_splits)
qed (use assms(2) in \<open>auto simp: quit_last_def\<close>)

lemma cycle_step_queue:
  assumes "cycle_step exec c l c'"
  shows "length (waiting_queue (fst c')) \<le> length (waiting_queue (fst c))"
    and "kMaxQueueSize (fst c') = kMaxQueueSize (fst c)" and "kNumThreads (fst c') = kNumThreads (fst c)"
  using assms by (auto elim!: cycle_step_cases)

text \<open>The state of the loop in every round.\<close>

fun dtor_inv :: "dtor_pc \<times> ('t, 'r) ThreadPool \<times> 's \<Rightarrow> bool" where
  "dtor_inv (DStart i, tp, s) \<longleftrightarrow> tp_inv tp \<and> i \<le> unat (kNumThreads tp) \<and> quits tp = 0 \<and>
     unat (exit_mark tp) = i \<and> length (waiting_queue tp) < unat (kMaxQueueSize tp)"
| "dtor_inv (DWait i, tp, s) \<longleftrightarrow> tp_inv tp \<and> i < unat (kNumThreads tp) \<and> quit_last tp \<and>
     quits tp + unat (exit_mark tp) = Suc i \<and> i \<le> unat (exit_mark tp) \<and> 0 < kMaxQueueSize tp"
| "dtor_inv (DDone, tp, s) \<longleftrightarrow> tp_inv tp \<and> unat (exit_mark tp) = unat (kNumThreads tp) \<and> quits tp = 0"

lemma cycle_exit_mark_mono:
  assumes "cycle_step exec c l c'" and "tp_inv (fst c)"
  shows "unat (exit_mark (fst c)) \<le> unat (exit_mark (fst c'))"
  using assms(1)
proof (cases rule: cycle_step_cases)
  case (publish_exit i tp s)
  with assms(2) have "unat (exit_mark tp + 1) = Suc (unat (exit_mark tp))"
    by (intro exit_mark_Suc) auto
  with publish_exit show ?thesis by simp
qed auto

lemma quits_frame_queue: "quits (tp\<lparr>waiting_queue := q @ [QuitTask]\<rparr>) = Suc (quits (tp\<lparr>waiting_queue := q\<rparr>))"
  by (simp add: quits_def)

lemma dtor_inv_start:
  assumes "dtor_inv (DStart i, tp, s)" and "i < unat (kNumThreads tp)"
  shows "dtor_inv (DWait i, quit_round_start tp, s)"
proof -
  have room: "length (waiting_queue tp) < unat (kMaxQueueSize tp)" using assms by simp
  then have "quit_round_start tp = tp\<lparr>waiting_queue := waiting_queue tp @ [QuitTask]\<rparr>"
    by (simp add: quit_round_start_def Drop_def)
  moreover have "0 < kMaxQueueSize tp" using room by (simp add: word_gt_0) (metis less_nat_zero_code unat_0)
  moreover have "unat (exit_mark tp) = i" "quits tp = 0" "tp_inv tp" using assms by simp_all
  ultimately show ?thesis
    using room assms(2) by (simp add: quits_frame_queue quit_last_def tp_inv_def)
qed

lemma quit_round_done_unat:
  assumes "i < unat (kNumThreads tp)"
  shows "quit_round_done i tp \<longleftrightarrow> unat (exit_mark tp) = Suc i"
proof -
  have "Suc i < 4294967296" using assms unat_lt_u32 [of "kNumThreads tp"] by linarith
  then have "unat (of_nat (Suc i) :: u32) = Suc i" by (rule unat_of_nat_u32)
  then show ?thesis
    unfolding quit_round_done_def by (metis add.commute of_nat_Suc word_unat_eq_iff)
qed

lemma dtor_inv_done:
  assumes inv: "dtor_inv (DWait i, tp, s)" and "quit_round_done i tp"
  shows "dtor_inv (DStart (Suc i), tp, s)"
proof -
  have mark: "unat (exit_mark tp) = Suc i" using assms quit_round_done_unat by auto
  with inv have none: "quits tp = 0" by simp
  then have "QuitTask \<notin> set (waiting_queue tp)"
    by (simp add: quits_def count_eq_zero_iff)
  moreover have "quit_last tp" using inv by simp
  ultimately have "waiting_queue tp = []"
    unfolding quit_last_def by (metis last_in_set)
  with inv none mark show ?thesis by (simp add: word_gt_0 unat_gt_0)
qed

lemma dtor_inv_finished:
  assumes "dtor_inv (DStart i, tp, s)" and "unat (kNumThreads tp) \<le> i"
  shows "dtor_inv (DDone, tp, s)"
  using assms by simp

lemma dtor_inv_worker:
  assumes "dtor_inv (d, c)" and step: "cycle_step exec c l c'"
  shows "dtor_inv (d, c')"
proof (cases d)
  case (DStart i)
  have "quits (fst c) = 0" "tp_inv (fst c)" using assms(1) DStart by (cases c; simp)+
  with cycle_step_quits [OF step] cycle_exit_mark_mono [OF step] DStart assms(1)
  show ?thesis
    using tp_inv_cycle [OF step] cycle_step_queue [OF step] by (cases c; cases c') auto
next
  case (DWait i)
  have "tp_inv (fst c)" using assms(1) DWait by (cases c) simp
  with cycle_step_quits [OF step] cycle_exit_mark_mono [OF step] DWait assms(1)
  show ?thesis
    using tp_inv_cycle [OF step] cycle_step_queue [OF step] cycle_step_quit_last [OF step]
    by (cases c; cases c') auto
next
  case DDone
  have "tp_inv (fst c)" using assms(1) DDone by (cases c) simp
  with cycle_step_quits [OF step] cycle_exit_mark_mono [OF step] DDone assms(1)
  show ?thesis
    using tp_inv_cycle [OF step] cycle_step_queue [OF step]
    by (cases c; cases c') auto
qed

lemma dtor_inv_step:
  assumes "dtor_step exec c c'" and "dtor_inv c"
  shows "dtor_inv c'"
  using assms
proof (cases rule: dtor_step.cases)
  case (round_start i tp s)
  with assms(2) show ?thesis using dtor_inv_start [of i tp s] by (simp del: dtor_inv.simps)
next
  case (round_done i tp s)
  with assms(2) show ?thesis using dtor_inv_done [of i tp s] by (simp del: dtor_inv.simps)
next
  case (finished tp i s)
  with assms(2) show ?thesis using dtor_inv_finished [of i tp s] by (simp del: dtor_inv.simps)
next
  case (worker c l c' d)
  with assms(2) show ?thesis using dtor_inv_worker by blast
qed


text \<open>A bound on the steps that are left, which every step of the loop or of a worker lowers.\<close>

fun dtor_left :: "dtor_pc \<times> ('t, 'r) ThreadPool \<times> 's \<Rightarrow> nat" where
  "dtor_left (DStart i, tp, s) = work_left tp + 6 * (unat (kNumThreads tp) - i) + 1"
| "dtor_left (DWait i, tp, s) = work_left tp + 6 * (unat (kNumThreads tp) - i) - 4"
| "dtor_left (DDone, tp, s) = work_left tp"

lemma work_left_Drop: "work_left (quit_round_start tp) \<le> work_left tp + 4"
  by (simp add: quit_round_start_def Drop_def work_left_def)

lemma kNumThreads_quit_round [simp]: "kNumThreads (quit_round_start tp) = kNumThreads tp"
  by (simp add: quit_round_start_def Drop_def)

lemma dtor_left_step:
  assumes "dtor_step exec c c'" and "dtor_inv c"
  shows "dtor_left c' < dtor_left c"
  using assms(1)
proof (cases rule: dtor_step.cases)
  case (round_start i tp s)
  then show ?thesis using work_left_Drop [of tp] by simp
next
  case (round_done i tp s)
  then have "i < unat (kNumThreads tp)" using assms(2) by simp
  with round_done show ?thesis by simp
next
  case (worker c0 l c0' d)
  have left: "work_left (fst c0') < work_left (fst c0)" "kNumThreads (fst c0') = kNumThreads (fst c0)"
    using cycle_step_work_left [OF worker(3)] cycle_step_queue [OF worker(3)] by simp_all
  show ?thesis
  proof (cases d)
    case (DWait i)
    then have "i < unat (kNumThreads (fst c0))" using worker(1) assms(2) by (cases c0) simp
    then show ?thesis using worker(1,2) left DWait by (cases c0; cases c0') simp
  qed (use worker(1,2) left in \<open>cases c0; cases c0'; simp\<close>)+
qed simp

inductive dtor_run ::
    "('t, 'r, 's) executor \<Rightarrow> nat \<Rightarrow> dtor_pc \<times> ('t, 'r) ThreadPool \<times> 's \<Rightarrow> dtor_pc \<times> ('t, 'r) ThreadPool \<times> 's \<Rightarrow> bool"
  for exec where
  stop: "dtor_run exec 0 c c"
| more: "dtor_run exec n c c' \<Longrightarrow> dtor_step exec c' c'' \<Longrightarrow> dtor_run exec (Suc n) c c''"

lemma dtor_run_inv:
  assumes "dtor_run exec n c c'" and "dtor_inv c"
  shows "dtor_inv c'" and "n + dtor_left c' \<le> dtor_left c"
  using assms
proof (induction rule: dtor_run.induct)
  case (more n c c' c'')
  { case 1 then show ?case using more dtor_inv_step by blast }
  { case 2
    have "dtor_left c'' < dtor_left c'" using more 2 dtor_left_step by blast
    then show ?case using more 2 by simp }
qed simp_all

text \<open>Where no step is possible, every thread has left its loop.\<close>

lemma dtor_stuck:
  assumes "exec_returns exec" and "dtor_inv c" and stuck: "\<And>c'. \<not> dtor_step exec c c'"
  shows "\<exists>tp s. c = (DDone, tp, s) \<and> (\<forall>i < length (pcs tp). pcs tp ! i = Exited)"
proof -
  obtain d tp s where c: "c = (d, tp, s)" by (cases c)
  have no_cycle: "\<not> cycle_step exec (tp, s) l c'" for l c'
    using stuck c dtor_step.worker by blast
  have idle: "pcs tp ! i = Exited \<or> pcs tp ! i = Waiting \<and> waiting_queue tp = []" if "i < length (pcs tp)" for i
    using worker_can_step [OF assms(1) that, where s = s] no_cycle by blast
  have marks: "unat (exit_mark tp) = count_if (\<lambda>p. p = Exited) (pcs tp)" "length (pcs tp) = unat (kNumThreads tp)"
    using assms(2) c by (cases d; simp add: tp_inv_def)+
  have empty: "in_hand tp = {#}" "unpublished tp = {#}"
    using idle by (force simp: in_hand_def unpublished_def map_filter_def filter_empty_conv in_set_conv_nth
        split: thread_pc.splits)+
  show ?thesis
  proof (cases d)
    case (DStart i)
    then show ?thesis
      using stuck dtor_step.round_start dtor_step.finished c by (metis not_less)
  next
    case (DWait i)
    with assms(2) c have i: "i < unat (kNumThreads tp)" by simp
    moreover have "\<not> quit_round_done i tp" using stuck dtor_step.round_done [of i tp exec s] c DWait by auto
    ultimately have mark: "unat (exit_mark tp) = i" "quits tp = 1"
      using assms(2) c DWait quit_round_done_unat [of i tp] by auto
    with i marks have "\<not> (\<forall>j < length (pcs tp). pcs tp ! j = Exited)"
      using count_if_all [of "\<lambda>p. p = Exited" "pcs tp"] by simp
    then have "waiting_queue tp = []" using idle by blast
    with mark empty show ?thesis by (simp add: quits_def)
  next
    case DDone
    with assms(2) c marks show ?thesis
      using count_if_all [of "\<lambda>p. p = Exited" "pcs tp"] by simp
  qed
qed

text \<open>
  If the queue is full when the destructor starts, its quit task is refused; no worker
  ever sees a quit task, and the loop waits for ever.
\<close>

lemma dtor_full_stays:
  assumes "dtor_run exec n (DWait 0, tp, s) c'" and "tp_inv tp" and "quits tp = 0" and "exit_mark tp = 0"
  shows "\<exists>tp' s'. c' = (DWait 0, tp', s') \<and> tp_inv tp' \<and> quits tp' = 0 \<and> exit_mark tp' = 0"
  using assms
proof (induction n "(DWait 0, tp, s)" c' rule: dtor_run.induct)
  case (more n c' c'')
  then obtain tp' s' where c': "c' = (DWait 0, tp', s')" "tp_inv tp'" "quits tp' = 0" "exit_mark tp' = 0"
    by blast
  from more.hyps(3) show ?case
  proof (cases rule: dtor_step.cases)
    case (worker c0 l c0' d)
    then have "quits (fst c0') + unat (exit_mark (fst c0')) = 0" "tp_inv (fst c0')"
      using cycle_step_quits [OF worker(3)] tp_inv_cycle [OF worker(3)] c' by auto
    then show ?thesis using worker c' by (cases c0') (auto simp: unat_eq_zero)
  qed (use c' in \<open>auto simp: quit_round_done_def\<close>)
qed simp


section \<open>Properties\<close>

text \<open>A run for the witnesses: one task passes through a pool with one thread.\<close>

definition echo :: "(nat, nat, unit) executor" where
  "echo t s = Inr (s, Some (t + 1))"

definition echo_labels :: "(nat, nat) label list" where
  "echo_labels = [LDrop (Task 5) True, LTake 0 (Task 5), LExec 0 (Task 5) (Result 6), LPublish 0 (Result 6)]"

definition echo_end :: "(nat, nat) ThreadPool" where
  "echo_end = \<lparr>waiting_queue = [], results_queue = [6], threads_idle = [False], kMaxQueueSize = 2,
     kNumThreads = 1, exit_mark = 0, pcs = [Published]\<rparr>"

lemma echo_run: "tp_run echo (ThreadPool_new 1 2, ()) echo_labels (echo_end, ())"
proof -
  let ?p = "\<lambda>q r b p. \<lparr>waiting_queue = q, results_queue = r, threads_idle = [b], kMaxQueueSize = 2,
     kNumThreads = 1, exit_mark = 0, pcs = [p]\<rparr> :: (nat, nat) ThreadPool"
  have new: "ThreadPool_new 1 2 = ?p [] [] True Waiting" by (simp add: ThreadPool_new_def)
  have 1: "tp_step echo (?p [] [] True Waiting, ()) (LDrop (Task 5) True) (?p [Task 5] [] True Waiting, ())"
    by (rule tp_step.drop) (simp add: Drop_def)
  have 2: "tp_step echo (?p [Task 5] [] True Waiting, ()) (LTake 0 (Task 5)) (?p [] [] False (Taken (Task 5)), ())"
    by (rule tp_step.cycle, rule cycle_step.take [where q = "[]"]) (simp_all add: Cycle_take_def)
  have 3: "tp_step echo (?p [] [] False (Taken (Task 5)), ()) (LExec 0 (Task 5) (Result 6))
      (?p [] [] False (Executed (Result 6)), ())"
    by (rule tp_step.cycle, rule cycle_step.execute) (simp_all add: Cycle_execute_def Execute_def echo_def)
  have 4: "tp_step echo (?p [] [] False (Executed (Result 6)), ()) (LPublish 0 (Result 6)) (echo_end, ())"
    by (rule tp_step.cycle, rule cycle_step.publish) (simp_all add: Cycle_publish_def echo_end_def)
  have "tp_run echo (?p [] [] True Waiting, ()) (((([] @ [LDrop (Task 5) True]) @ [LTake 0 (Task 5)]) @
      [LExec 0 (Task 5) (Result 6)]) @ [LPublish 0 (Result 6)]) (echo_end, ())"
    by (rule tp_run.snoc [OF tp_run.snoc [OF tp_run.snoc [OF tp_run.snoc [OF tp_run.nil 1] 2] 3] 4])
  then show ?thesis by (simp add: echo_labels_def new)
qed

text \<open>
  Claim C6: in every interleaving of clients and workers, every task the pool accepted
  has been executed exactly once, or is in the hands of one worker, or waits; every
  result of an execution has been published once or is still in the hands of a worker;
  and what clients grabbed and what still lies in the results queue are exactly the
  published results.
\<close>

theorem pool_accounting:
  assumes "tp_run exec (ThreadPool_new n m, s0) ls (tp, s)"
  shows "mset (pushes (tasks_of ls)) = executed_tasks ls + in_hand tp + mset (waiting_queue tp) \<and>
    produced ls = published ls + unpublished tp \<and>
    mset (pops (results_of ls)) + mset (results_queue tp) = (\<Sum>r\<in>#published ls. result_values r)"
proof -
  have "pushes (tasks_of ls) = pops (tasks_of ls) @ waiting_queue tp"
    "pushes (results_of ls) = pops (results_of ls) @ results_queue tp"
    using tp_run_fifo [OF assms] by (simp_all add: ThreadPool_new_def)
  moreover note tp_run_counts [OF assms, unfolded fst_conv new_pool_empty]
  ultimately show ?thesis by (simp flip: results_pushed)
qed

theorem pool_accounting_witness:
  "{#Task 5#} = executed_tasks echo_labels + in_hand echo_end + mset (waiting_queue echo_end) \<and>
   produced echo_labels = {#Result 6#}"
  using pool_accounting [OF echo_run]
  by (simp add: echo_labels_def tasks_of_def produced_def map_filter_simps)

text \<open>
  Claim C20: tasks are taken in the order in which they were accepted, and results are
  grabbed in the order in which they were published.
\<close>

theorem pool_fifo_order:
  assumes "tp_run exec (ThreadPool_new n m, s0) ls (tp, s)"
  shows "pushes (tasks_of ls) = pops (tasks_of ls) @ waiting_queue tp \<and>
         pushes (results_of ls) = pops (results_of ls) @ results_queue tp"
  using tp_run_fifo [OF assms] by (simp add: ThreadPool_new_def)

theorem pool_fifo_order_witness:
  "pushes (tasks_of echo_labels) = [Task 5] @ waiting_queue echo_end \<and>
   pushes (results_of echo_labels) = [] @ results_queue echo_end"
  using pool_fifo_order [OF echo_run] by (simp add: echo_labels_def tasks_of_def results_of_def)

text \<open>
  Claim C15: the waiting queue never exceeds its bound, the idle flags tell which threads
  wait for a task, and the exit mark counts the threads that have left their loop.
\<close>

theorem pool_invariant:
  assumes "tp_run exec (ThreadPool_new n m, s0) ls (tp, s)"
  shows "QueryWaitingQueueCount tp \<le> unat m \<and>
    QueryIdleThreadsCount tp = count_if (\<lambda>p. p = Waiting) (pcs tp) \<and>
    unat (exit_mark tp) = count_if (\<lambda>p. p = Exited) (pcs tp) \<and> length (pcs tp) = unat n"
proof -
  have inv: "tp_inv tp" "kMaxQueueSize tp = m" "kNumThreads tp = n"
    using tp_run_inv [OF assms] tp_inv_new by (auto simp: ThreadPool_new_def)
  have "threads_idle tp = map (\<lambda>p. p = Waiting) (pcs tp)"
    using inv(1) by (intro nth_equalityI) (auto simp: tp_inv_def)
  then have "QueryIdleThreadsCount tp = count_if (\<lambda>p. p = Waiting) (pcs tp)"
    by (simp add: QueryIdleThreadsCount_def count_if_eq filter_map comp_def)
  then show ?thesis
    using inv by (auto simp: tp_inv_def QueryWaitingQueueCount_def)
qed

theorem pool_invariant_witness: "QueryWaitingQueueCount echo_end \<le> 2 \<and> QueryIdleThreadsCount echo_end = 0"
  using pool_invariant [OF echo_run] by (simp add: echo_end_def)



text \<open>
  Claim C9: when the queue has room as the destructor starts, the destructor's loop ends
  under every schedule, within a bound on the number of steps, with every thread out of
  its loop: where no step is possible any more, it is done.
\<close>

theorem destructor_terminates:
  assumes "exec_returns exec" and "tp_inv tp" and "quits tp = 0" and "exit_mark tp = 0"
    and "length (waiting_queue tp) < unat (kMaxQueueSize tp)"
    and "dtor_run exec k (DStart 0, tp, s) c"
  shows "k \<le> work_left tp + 6 * unat (kNumThreads tp) + 1 \<and>
    ((\<exists>c'. dtor_step exec c c') \<or>
     (\<exists>tp' s'. c = (DDone, tp', s') \<and> (\<forall>i < length (pcs tp'). pcs tp' ! i = Exited)))"
proof -
  have inv: "dtor_inv (DStart 0, tp, s)" using assms by simp
  have "k \<le> work_left tp + 6 * unat (kNumThreads tp) + 1"
    using dtor_run_inv(2) [OF assms(6) inv] by simp
  moreover have "(\<exists>c'. dtor_step exec c c') \<or>
         (\<exists>tp' s'. c = (DDone, tp', s') \<and> (\<forall>i < length (pcs tp'). pcs tp' ! i = Exited))"
    using dtor_stuck [OF assms(1) dtor_run_inv(1) [OF assms(6) inv]] by blast
  ultimately show ?thesis by blast
qed

theorem destructor_terminates_witness:
  "(0::nat) \<le> work_left echo_end + 6 * 1 + 1 \<and>
   ((\<exists>c'. dtor_step echo (DStart 0, echo_end, ()) c') \<or>
    (\<exists>tp' s'. (DStart 0, echo_end, ()) = (DDone, tp', s') \<and> (\<forall>i < length (pcs tp'). pcs tp' ! i = Exited)))"
  using destructor_terminates [of echo echo_end 0 "()" "(DStart 0, echo_end, ())"]
  by (simp add: exec_returns_def echo_def echo_end_def dtor_run.stop tp_inv_def quits_def in_hand_def
      unpublished_def map_filter_simps del: mult_is_0)

text \<open>
  When the queue is full as the destructor starts, its quit task is refused
  and the destructor never gets past its first round: whatever the workers do, it waits
  for an exit mark that stays 0.
\<close>

theorem destructor_hangs_on_full_queue:
  assumes "tp_inv tp" and "quits tp = 0" and "exit_mark tp = 0" and "0 < unat (kNumThreads tp)"
    and "unat (kMaxQueueSize tp) \<le> length (waiting_queue tp)"
    and "dtor_run exec k (DWait 0, quit_round_start tp, s) c"
  shows "\<exists>tp' s'. c = (DWait 0, tp', s') \<and> exit_mark tp' = 0 \<and> \<not> quit_round_done 0 tp'"
proof -
  have "quit_round_start tp = tp" using assms(5) by (simp add: quit_round_start_def Drop_def)
  with dtor_full_stays [of exec k tp s c] assms show ?thesis
    by (auto simp: quit_round_done_def)
qed

theorem destructor_hangs_on_full_queue_witness:
  "\<exists>tp' s'. (DWait 0, quit_round_start ((ThreadPool_new 1 1 :: (nat, nat) ThreadPool)\<lparr>waiting_queue := [Task 5]\<rparr>), ()) =
     (DWait 0, tp', s') \<and> exit_mark tp' = 0 \<and> \<not> quit_round_done 0 tp'"
  using destructor_hangs_on_full_queue [of "(ThreadPool_new 1 1)\<lparr>waiting_queue := [Task 5]\<rparr>" echo 0 "()"
      "(DWait 0, quit_round_start ((ThreadPool_new 1 1)\<lparr>waiting_queue := [Task 5]\<rparr>), ())"]
  by (simp add: dtor_run.stop tp_inv_def quits_def in_hand_def unpublished_def map_filter_simps
      ThreadPool_new_def)

end
