(* ===== verification/Des.thy ===== *)
theory Des
  imports Event_Handlers Tiny_Tp
begin

text \<open>
  \<^verbatim>\<open>src/des\<close>: the service that hands request events to the handlers through the thread pool
  and collects the responses.
\<close>

section \<open>Class EventHandleTask\<close>

record EventHandleTask =
  eht_event :: IEvent
  eht_handler :: IEventHandler

definition EventHandleTask_Execute ::
    "'d mysql \<Rightarrow> (u32 \<Rightarrow> int) \<Rightarrow> (EventHandleTask, IEvent, ('b, 'd) app) executor" where
  "EventHandleTask_Execute my rand t app =
     bind_run (Handle my rand (eht_handler t) (eht_event t) app) (\<lambda>(app', e). Inr (app', Some e))"

section \<open>Class DispatchEventsService\<close>

record DispatchEventsService =
  des_tp :: "(EventHandleTask, IEvent) ThreadPool"
  des_handler_map :: "(EventType \<times> IEventHandler) list"

definition DispatchEventsService_new :: "u32 \<Rightarrow> DispatchEventsService" where
  "DispatchEventsService_new hardware_concurrency =
     \<lparr>des_tp = ThreadPool_default hardware_concurrency, des_handler_map = []\<rparr>"

definition RegisterHandler :: "DispatchEventsService \<Rightarrow> EventType \<Rightarrow> IEventHandler \<Rightarrow> DispatchEventsService" where
  "RegisterHandler des t handler =
     des\<lparr>des_handler_map := (t, handler) # filter (\<lambda>p. fst p \<noteq> t) (des_handler_map des)\<rparr>"

definition Push :: "DispatchEventsService \<Rightarrow> IEvent \<Rightarrow> bool \<times> DispatchEventsService" where
  "Push des event =
     (case map_of (des_handler_map des) (ev_type event) of
        None \<Rightarrow> (False, des)
      | Some handler \<Rightarrow>
          (case Drop (des_tp des) (Task \<lparr>eht_event = event, eht_handler = handler\<rparr>) of
             (r, tp) \<Rightarrow> (r, des\<lparr>des_tp := tp\<rparr>)))"

definition Drag :: "DispatchEventsService \<Rightarrow> IEvent list \<times> DispatchEventsService" where
  "Drag des = (case GrabAllResults (des_tp des) of (rs, tp) \<Rightarrow> (rs, des\<lparr>des_tp := tp\<rparr>))"

section \<open>Events in flight\<close>

text \<open>
  The sessions that have an event in the service: as a request in the queue or in the
  hands of a worker, or as a response on its way back.
\<close>

fun task_event :: "EventHandleTask task \<Rightarrow> IEvent option" where
  "task_event (Task t) = Some (eht_event t)"
| "task_event QuitTask = None"

fun pc_event :: "(EventHandleTask, IEvent) thread_pc \<Rightarrow> IEvent option" where
  "pc_event (Taken t) = task_event t"
| "pc_event (Executed (Result e)) = Some e"
| "pc_event _ = None"

definition flight :: "(EventHandleTask, IEvent) ThreadPool \<Rightarrow> addr option multiset" where
  "flight tp = image_mset ev_session
     (mset (List.map_filter task_event (waiting_queue tp)) + mset (List.map_filter pc_event (pcs tp)) +
      mset (results_queue tp))"

text \<open>Requests are of a kind their handler accepts; responses are complete.\<close>

definition task_ok :: "EventHandleTask task \<Rightarrow> bool" where
  "task_ok t = (case t of Task x \<Rightarrow> accepts_body (eht_handler x) (ev_body (eht_event x)) | QuitTask \<Rightarrow> True)"

definition response_ok :: "IEvent \<Rightarrow> bool" where
  "response_ok e \<longleftrightarrow> body_ok (ev_body e) \<and> short_body (ev_body e) \<and> ev_type e = body_type (ev_body e)"

definition pc_ok :: "(EventHandleTask, IEvent) thread_pc \<Rightarrow> bool" where
  "pc_ok p = (case p of Taken t \<Rightarrow> task_ok t | Executed (Result e) \<Rightarrow> response_ok e | _ \<Rightarrow> True)"

definition service_ok :: "(EventHandleTask, IEvent) ThreadPool \<Rightarrow> bool" where
  "service_ok tp \<longleftrightarrow> (\<forall>t \<in> set (waiting_queue tp). task_ok t) \<and> (\<forall>p \<in> set (pcs tp). pc_ok p) \<and>
     (\<forall>e \<in> set (results_queue tp). response_ok e)"

lemma map_of_filter_neq: "map_of (filter (\<lambda>p. fst p \<noteq> k) xs) k' = (if k' = k then None else map_of xs k')"
  by (induction xs) auto

lemma RegisterHandler_map:
  "map_of (des_handler_map (RegisterHandler des t h)) t' =
     (if t' = t then Some h else map_of (des_handler_map des) t')"
  by (simp add: RegisterHandler_def map_of_filter_neq)

lemma Drag_eq: "Drag des = (results_queue (des_tp des), des\<lparr>des_tp := (des_tp des)\<lparr>results_queue := []\<rparr>\<rparr>)"
  by (simp add: Drag_def GrabAllResults_eq)

lemma map_filter_Cons: "List.map_filter f (x # xs) = (case f x of None \<Rightarrow> [] | Some y \<Rightarrow> [y]) @ List.map_filter f xs"
  by (simp add: map_filter_simps split: option.split)

lemma flight_Drag: "flight (tp\<lparr>results_queue := []\<rparr>) + image_mset ev_session (mset (results_queue tp)) = flight tp"
  by (simp add: flight_def ac_simps)

lemma flight_Push:
  assumes "Push des e = (True, des')"
  shows "flight (des_tp des') = add_mset (ev_session e) (flight (des_tp des))"
  using assms
  by (auto simp: Push_def Drop_def flight_def map_filter_snoc split: option.splits if_splits)

text \<open>
  Replacing the state of one thread: the in-flight events change by what it held before
  and what it holds now.
\<close>

definition held :: "(EventHandleTask, IEvent) thread_pc \<Rightarrow> addr option multiset" where
  "held p = (case pc_event p of None \<Rightarrow> {#} | Some e \<Rightarrow> {#ev_session e#})"

lemma flight_pcs:
  assumes "i < length (pcs tp)"
  shows "image_mset ev_session (mset (List.map_filter pc_event ((pcs tp)[i := p]))) + held (pcs tp ! i) =
    image_mset ev_session (mset (List.map_filter pc_event (pcs tp))) + held p"
proof -
  have "image_mset ev_session (mset (List.map_filter pc_event [q])) = held q" for q
    by (simp add: held_def map_filter_simps split: option.split)
  then show ?thesis
    using arg_cong [OF mset_map_filter_update [OF assms, of pc_event p], of "image_mset ev_session"] by simp
qed

section \<open>Worker steps keep what is in flight\<close>

definition same_conn :: "'b Session \<Rightarrow> 'b Session \<Rightarrow> bool" where
  "same_conn s s' \<longleftrightarrow> (\<exists>i p. s' = s\<lparr>s_identifier := i, s_phone_number := p\<rparr>)"

definition same_conns :: "('b, 'd) app \<Rightarrow> ('b, 'd) app \<Rightarrow> bool" where
  "same_conns app app' \<longleftrightarrow> (\<forall>sid. rel_option same_conn (app_sessions app sid) (app_sessions app' sid))"

lemma same_conn_refl [simp]: "same_conn s s"
  unfolding same_conn_def by (intro exI [of _ "s_identifier s"] exI [of _ "s_phone_number s"]) simp

lemma same_conns_refl [simp]: "same_conns app app"
  by (simp add: same_conns_def option.rel_refl)

lemma same_connI [intro]: "same_conn s (s\<lparr>s_identifier := i, s_phone_number := p\<rparr>)"
  unfolding same_conn_def by blast

lemma same_conns_answered: "app_answered sid app app' e \<Longrightarrow> same_conns app app'"
  by (auto simp: app_answered_def answers_def same_conns_def option.rel_refl)

lemma service_ok_pcs:
  "service_ok tp \<Longrightarrow> pc_ok p \<Longrightarrow> \<forall>t \<in> set q. task_ok t \<Longrightarrow> \<forall>e \<in> set rs. response_ok e \<Longrightarrow>
     waiting_queue tp' = q \<Longrightarrow> results_queue tp' = rs \<Longrightarrow> pcs tp' = (pcs tp)[i := p] \<Longrightarrow> service_ok tp'"
  using set_update_subset_insert [of "pcs tp" i p] by (auto simp: service_ok_def)

text \<open>Executing a task: the response takes the request's place.\<close>

lemma execute_task:
  assumes "Execute (EventHandleTask_Execute my rand) t app = Inr (app', r)"
    and "app_ok my app" and "task_ok t" and "\<And>x. x \<in># held (Taken t) \<Longrightarrow> \<exists>sid. x = Some sid \<and> app_live app sid"
  shows "held (Executed r) = held (Taken t) \<and> pc_ok (Executed r) \<and> app_ok my app' \<and> same_conns app app'"
proof (cases t)
  case (Task x)
  then obtain sid where sid: "ev_session (eht_event x) = Some sid" "app_live app sid"
    using assms(4) by (auto simp: held_def)
  have acc: "accepts_body (eht_handler x) (ev_body (eht_event x))"
    using assms(3) Task by (simp add: task_ok_def)
  obtain app1 e where h: "Handle my rand (eht_handler x) (eht_event x) app = Inr (app1, e)" "app_ok my app1"
      "app_answered sid app app1 e"
    using handler.handle_ok [OF assms(2) acc sid] by blast
  then have "app' = app1" "r = Result e"
    using assms(1) Task by (auto simp: Execute_def EventHandleTask_Execute_def)
  moreover have "ev_session e = Some sid" "response_ok e"
    using h(3) by (auto simp: app_answered_def answers_def response_ok_def)
  ultimately show ?thesis
    using h same_conns_answered [OF h(3)] Task sid by (simp add: held_def pc_ok_def)
next
  case QuitTask
  then show ?thesis using assms(1,2) by (simp add: Execute_def held_def pc_ok_def)
qed

lemma flight_held:
  assumes "i < length (pcs tp)"
  shows "held (pcs tp ! i) \<subseteq># flight tp"
proof -
  have "held (pcs tp ! i) \<subseteq># image_mset ev_session (mset (List.map_filter pc_event (pcs tp)))"
    using flight_pcs [OF assms, of Waiting] by (simp add: held_def [of Waiting]) (metis mset_subset_eq_add_right)
  also have "\<dots> \<subseteq># flight tp" by (simp add: flight_def)
  finally show ?thesis .
qed

lemma worker_step_ok:
  assumes step: "cycle_step (EventHandleTask_Execute my rand) (tp, app) l (tp', app')"
    and app: "app_ok my app" and ok: "service_ok tp"
    and live: "\<And>x. x \<in># flight tp \<Longrightarrow> \<exists>sid. x = Some sid \<and> app_live app sid"
  shows "flight tp' = flight tp \<and> service_ok tp' \<and> app_ok my app' \<and> same_conns app app'"
  using step
proof (cases rule: cycle_step_cases)
  case (take i tp0 s task q)
  have pcs: "image_mset ev_session (mset (List.map_filter pc_event ((pcs tp)[i := Taken task]))) =
      image_mset ev_session (mset (List.map_filter pc_event (pcs tp))) + held (Taken task)"
    using flight_pcs [of i tp "Taken task"] take by (simp add: held_def [of Waiting])
  have "flight tp' = flight tp"
    using take pcs by (simp add: flight_def map_filter_Cons held_def split: option.split)
  moreover have "service_ok tp'"
    using ok take by (intro service_ok_pcs [OF ok, of "Taken task" q "results_queue tp" _ i])
      (auto simp: service_ok_def pc_ok_def)
  ultimately show ?thesis using take app by simp
next
  case (execute i tp0 s task r s')
  have "Taken task \<in> set (pcs tp)" using execute by (metis Pair_inject nth_mem)
  then have "pc_ok (Taken task)" using ok by (simp add: service_ok_def)
  then have "task_ok task" by (simp add: pc_ok_def)
  moreover have "\<exists>sid. x = Some sid \<and> app_live app sid" if "x \<in># held (Taken task)" for x
    using live flight_held [of i tp] that execute by (metis Pair_inject mset_subset_eqD)
  ultimately have ex: "held (Executed r) = held (Taken task) \<and> pc_ok (Executed r) \<and> app_ok my app' \<and> same_conns app app'"
    using execute_task [of my rand task app app' r] execute app by simp
  then have "flight tp' = flight tp"
    using flight_pcs [of i tp "Executed r"] execute by (simp add: flight_def)
  moreover have "service_ok tp'"
    using ok ex execute by (intro service_ok_pcs [OF ok, of "Executed r" "waiting_queue tp" "results_queue tp" _ i])
      (auto simp: service_ok_def)
  ultimately show ?thesis using ex by simp
next
  case (publish_null i tp0 s)
  then show ?thesis
    using flight_pcs [of i tp Published] app ok
      service_ok_pcs [OF ok, of Published "waiting_queue tp" "results_queue tp" tp' i]
    by (simp add: flight_def held_def service_ok_def pc_ok_def)
next
  case (publish_exit i tp0 s)
  then show ?thesis
    using flight_pcs [of i tp Exited] app ok
      service_ok_pcs [OF ok, of Exited "waiting_queue tp" "results_queue tp" tp' i]
    by (simp add: flight_def held_def service_ok_def pc_ok_def)
next
  case (publish_result i tp0 s x)
  have "Executed (Result x) \<in> set (pcs tp)" using publish_result by (metis Pair_inject nth_mem)
  then have "pc_ok (Executed (Result x))" using ok by (simp add: service_ok_def)
  then have "response_ok x" by (simp add: pc_ok_def)
  then show ?thesis
    using publish_result flight_pcs [of i tp Published] app ok
      service_ok_pcs [OF ok, of Published "waiting_queue tp" "results_queue tp @ [x]" tp' i]
    by (simp add: flight_def held_def service_ok_def pc_ok_def)
next
  case (idle i tp0 s)
  then show ?thesis
    using flight_pcs [of i tp Waiting] app ok
      service_ok_pcs [OF ok, of Waiting "waiting_queue tp" "results_queue tp" tp' i]
    by (simp add: flight_def held_def service_ok_def pc_ok_def)
qed

text \<open>No worker runs into undefined behaviour while the sessions in flight are alive.\<close>

lemma worker_execute_safe:
  assumes "Cycle_execute (EventHandleTask_Execute my rand) i tp app = Some r"
    and "app_ok my app" and "service_ok tp"
    and live: "\<And>x. x \<in># flight tp \<Longrightarrow> \<exists>sid. x = Some sid \<and> app_live app sid"
  shows "\<exists>tp' app'. r = Inr (tp', app')"
proof -
  obtain t where i: "i < length (pcs tp)" "pcs tp ! i = Taken t"
    using assms(1) by (auto simp: Cycle_execute_def split: if_splits thread_pc.splits)
  have "pc_ok (pcs tp ! i)" using assms(3) i(1) by (simp add: service_ok_def)
  then have ok: "task_ok t" using i(2) by (simp add: pc_ok_def)
  have "\<exists>app' r'. Execute (EventHandleTask_Execute my rand) t app = Inr (app', r')"
  proof (cases t)
    case (Task x)
    then have "ev_session (eht_event x) \<in># held (pcs tp ! i)" using i(2) by (simp add: held_def)
    then obtain sid where "ev_session (eht_event x) = Some sid" "app_live app sid"
      using live flight_held [OF i(1)] by (meson mset_subset_eqD)
    with handler.handle_ok [OF assms(2), of "eht_handler x" "eht_event x" sid rand] ok Task show ?thesis
      by (auto simp: Execute_def EventHandleTask_Execute_def task_ok_def)
  qed (simp add: Execute_def)
  then show ?thesis using assms(1) i by (auto simp: Cycle_execute_def)
qed

end
