(* ===== verification/Net_Gate.thy ===== *)
theory Net_Gate
  imports Msg_Proxy Des
begin

text \<open>
  \<^verbatim>\<open>src/net_gate\<close>: the callbacks of the event loop and the loop that sends the responses.
  Sessions are heap objects with manual \<^verbatim>\<open>delete\<close>; a pointer to a deleted session is kept
  by nobody who may use it, or its use is a fault of the model. Addresses are not reused,
  so that a dangling pointer stays one.
\<close>

section \<open>The state of the server\<close>

record ('b, 'd) world =
  w_app :: "('b, 'd) app"
  w_des :: DispatchEventsService
  w_next :: addr

definition w_sessions :: "('b, 'd) world \<Rightarrow> addr \<Rightarrow> 'b Session option" where
  "w_sessions w = app_sessions (w_app w)"

definition w_put :: "('b, 'd) world \<Rightarrow> addr \<Rightarrow> 'b Session \<Rightarrow> ('b, 'd) world" where
  "w_put w sid s = w\<lparr>w_app := put_session (w_app w) sid s\<rparr>"

definition delete_session :: "('b, 'd) world \<Rightarrow> addr \<Rightarrow> ('b, 'd) world" where
  "delete_session w sid = w\<lparr>w_app := (w_app w)\<lparr>app_sessions := (app_sessions (w_app w))(sid := None)\<rparr>\<rparr>"

text \<open>A log line prints the socket of the session, and so follows the pointer.\<close>

definition log_session :: "('b, 'd) world \<Rightarrow> addr \<Rightarrow> i32 run" where
  "log_session w sid = bind_run (load (w_sessions w) sid) (\<lambda>s. Inr (s_socket s))"

section \<open>Class NetGate\<close>

record NetGate =
  ng_sin_addr :: u32
  ng_sin_port :: u16
  ng_listener :: bool

text \<open>Both byte orders of a port, on a little-endian machine.\<close>

definition htons :: "u16 \<Rightarrow> u16" where
  "htons p = push_bit 8 p OR drop_bit 8 p"

definition NetGate_new :: "(string \<Rightarrow> u32) \<Rightarrow> string \<Rightarrow> u16 \<Rightarrow> NetGate" where
  "NetGate_new inet_addr ip port =
     \<lparr>ng_sin_addr = inet_addr ip, ng_sin_port = htons port, ng_listener = False\<rparr>"

text \<open>Whether the address can be bound is an argument.\<close>

definition Open :: "(u32 \<Rightarrow> u16 \<Rightarrow> i32 \<Rightarrow> bool) \<Rightarrow> NetGate \<Rightarrow> i32 \<Rightarrow> bool \<times> NetGate" where
  "Open new_bind ng backlog =
     (let r = new_bind (ng_sin_addr ng) (ng_sin_port ng) backlog in (r, ng\<lparr>ng_listener := r\<rparr>))"

definition ListenerCallback ::
    "'b libevent \<Rightarrow> (u32 \<Rightarrow> string) \<Rightarrow> i32 \<Rightarrow> u32 \<Rightarrow> u16 \<Rightarrow> ('b, 'd) world \<Rightarrow> ('b, 'd) world" where
  "ListenerCallback ev inet_ntoa sock sin_addr sin_port w =
     (let sid = w_next w;
          s = Session_new sock (inet_ntoa sin_addr) (htons sin_port);
          s' = set_bufev s (bufferevent_socket_new ev (s_socket s))
      in (w_put w sid s')\<lparr>w_next := Suc sid\<rparr>)"

text \<open>
  After an exception the session is deleted and control reaches the test for a null event,
  whose log line follows the deleted pointer; after a failed push it reaches the change of
  state of the deleted session.
\<close>

definition ReqCallback :: "'b libevent \<Rightarrow> protobuf \<Rightarrow> addr \<Rightarrow> ('b, 'd) world \<Rightarrow> ('b, 'd) world run" where
  "ReqCallback ev pb sid w =
     bind_run (load (w_sessions w) sid) (\<lambda>s.
     bind_run (Pack ev pb sid s (app_sequence (w_app w))) (\<lambda>(r, s', n).
     let w1 = (let w' = w_put w sid s' in w'\<lparr>w_app := (w_app w')\<lparr>app_sequence := n\<rparr>\<rparr>)
     in case r of
          Threw x \<Rightarrow>
            bind_run (log_session w1 sid) (\<lambda>_.
            let w2 = delete_session w1 sid
            in bind_run (log_session w2 sid) (\<lambda>_. Inr w2))
        | Ret None \<Rightarrow> bind_run (log_session w1 sid) (\<lambda>_. Inr w1)
        | Ret (Some event) \<Rightarrow>
            (case Push (w_des w1) event of (pushed, des') \<Rightarrow>
               let w2 = w1\<lparr>w_des := des'\<rparr>
               in bind_run (if pushed then Inr w2
                            else bind_run (log_session w2 sid) (\<lambda>_. Inr (delete_session w2 sid))) (\<lambda>w3.
                  bind_run (load (w_sessions w3) sid) (\<lambda>s3.
                  let w4 = w_put w3 sid (set_state s3 HANDLING)
                  in bind_run (log_session w4 sid) (\<lambda>_. Inr w4))))))"

definition ResCallback :: "addr \<Rightarrow> ('b, 'd) world \<Rightarrow> ('b, 'd) world run" where
  "ResCallback sid w =
     bind_run (load (w_sessions w) sid) (\<lambda>s. Inr (w_put w sid (IncrementCount s)))"

text \<open>Every kind of event ends the session; the kinds differ in their log line.\<close>

definition BEV_EVENT_READING :: u16 where "BEV_EVENT_READING = 0x01"
definition BEV_EVENT_WRITING :: u16 where "BEV_EVENT_WRITING = 0x02"
definition BEV_EVENT_EOF :: u16 where "BEV_EVENT_EOF = 0x10"
definition BEV_EVENT_ERROR :: u16 where "BEV_EVENT_ERROR = 0x20"
definition BEV_EVENT_TIMEOUT :: u16 where "BEV_EVENT_TIMEOUT = 0x40"

definition ErrCallback :: "u16 \<Rightarrow> addr \<Rightarrow> ('b, 'd) world \<Rightarrow> ('b, 'd) world run" where
  "ErrCallback events sid w =
     bind_run
       (if events AND BEV_EVENT_EOF \<noteq> 0 then log_session w sid
        else if events AND BEV_EVENT_ERROR \<noteq> 0 then log_session w sid
        else if events AND BEV_EVENT_TIMEOUT \<noteq> 0 \<and> events AND BEV_EVENT_READING \<noteq> 0 then log_session w sid
        else if events AND BEV_EVENT_TIMEOUT \<noteq> 0 \<and> events AND BEV_EVENT_WRITING \<noteq> 0 then log_session w sid
        else Inr 0) (\<lambda>_.
     bind_run (load (w_sessions w) sid) (\<lambda>_. Inr (delete_session w sid)))"

definition send_result :: "'b libevent \<Rightarrow> protobuf \<Rightarrow> IEvent \<Rightarrow> ('b, 'd) world \<Rightarrow> ('b, 'd) world run" where
  "send_result ev pb event w =
     bind_run (Unpack pb (w_sessions w) event) (\<lambda>(cells, size).
     bind_run (deref (ev_session event)) (\<lambda>sid.
     bind_run (load (w_sessions w) sid) (\<lambda>s.
     bind_run (deref (s_bufev s)) (\<lambda>bev.
     bind_run (read_cells cells 0 (unat size)) (\<lambda>bytes.
     Inr (w_put w sid (set_state (s\<lparr>s_bufev := Some (bufferevent_write ev bev bytes)\<rparr>) WAITING_REQUEST)))))))"

fun send_results :: "'b libevent \<Rightarrow> protobuf \<Rightarrow> IEvent list \<Rightarrow> ('b, 'd) world \<Rightarrow> ('b, 'd) world run" where
  "send_results ev pb [] w = Inr w"
| "send_results ev pb (e # es) w = bind_run (send_result ev pb e w) (\<lambda>w'. send_results ev pb es w')"

definition handle_results :: "'b libevent \<Rightarrow> protobuf \<Rightarrow> ('b, 'd) world \<Rightarrow> ('b, 'd) world run" where
  "handle_results ev pb w =
     (case Drag (w_des w) of (results, des') \<Rightarrow> send_results ev pb results (w\<lparr>w_des := des'\<rparr>))"

section \<open>The event loop\<close>

text \<open>
  What the loop can deliver. Received bytes are in the session's input buffer before the
  read callback runs; a freed bufferevent gets no callbacks.
\<close>

datatype net_event =
    Accept i32 u32 u16
  | Readable addr "byte list"
  | Writable addr
  | Failed addr u16

fun run_event ::
    "'b libevent \<Rightarrow> protobuf \<Rightarrow> (u32 \<Rightarrow> string) \<Rightarrow> net_event \<Rightarrow> ('b, 'd) world \<Rightarrow> ('b, 'd) world run" where
  "run_event ev pb inet_ntoa (Accept sock a p) w = Inr (ListenerCallback ev inet_ntoa sock a p w)"
| "run_event ev pb inet_ntoa (Readable sid bs) w =
     (case w_sessions w sid of
        None \<Rightarrow> Inr w
      | Some s \<Rightarrow> ReqCallback ev pb sid (w_put w sid (receive ev s bs)))"
| "run_event ev pb inet_ntoa (Writable sid) w =
     (if w_sessions w sid = None then Inr w else ResCallback sid w)"
| "run_event ev pb inet_ntoa (Failed sid events) w =
     (if w_sessions w sid = None then Inr w else ErrCallback events sid w)"

fun run_events ::
    "'b libevent \<Rightarrow> protobuf \<Rightarrow> (u32 \<Rightarrow> string) \<Rightarrow> net_event list \<Rightarrow> ('b, 'd) world \<Rightarrow> ('b, 'd) world run" where
  "run_events ev pb inet_ntoa [] w = Inr w"
| "run_events ev pb inet_ntoa (x # xs) w =
     bind_run (run_event ev pb inet_ntoa x w) (\<lambda>w'. run_events ev pb inet_ntoa xs w')"

text \<open>\<^verbatim>\<open>Dispatch\<close>: the callbacks of the events that are ready, then the responses.\<close>

definition Dispatch ::
    "'b libevent \<Rightarrow> protobuf \<Rightarrow> (u32 \<Rightarrow> string) \<Rightarrow> net_event list \<Rightarrow> ('b, 'd) world \<Rightarrow> ('b, 'd) world run" where
  "Dispatch ev pb inet_ntoa ready w =
     bind_run (run_events ev pb inet_ntoa ready w) (\<lambda>w'. handle_results ev pb w')"

section \<open>Steps of the server\<close>

text \<open>
  The main thread's callbacks and sends, the workers and the clock, interleaved. A step is
  labelled with the network event it handles, if any; its result may be a fault.
\<close>

inductive server_step ::
    "'b libevent \<Rightarrow> protobuf \<Rightarrow> (u32 \<Rightarrow> string) \<Rightarrow> 'd mysql \<Rightarrow> (u32 \<Rightarrow> int) \<Rightarrow>
     ('b, 'd) world \<Rightarrow> net_event option \<Rightarrow> ('b, 'd) world run \<Rightarrow> bool"
  for ev pb inet_ntoa my rand where
  event: "server_step ev pb inet_ntoa my rand w (Some x) (run_event ev pb inet_ntoa x w)"
| results: "server_step ev pb inet_ntoa my rand w None (handle_results ev pb w)"
| worker: "cycle_step (EventHandleTask_Execute my rand) (des_tp (w_des w), w_app w) l (tp', app') \<Longrightarrow>
     server_step ev pb inet_ntoa my rand w None (Inr (w\<lparr>w_des := (w_des w)\<lparr>des_tp := tp'\<rparr>, w_app := app'\<rparr>))"
| worker_fault: "Cycle_execute (EventHandleTask_Execute my rand) i (des_tp (w_des w)) (w_app w) = Some (Inl f) \<Longrightarrow>
     server_step ev pb inet_ntoa my rand w None (Inl f)"
| tick: "server_step ev pb inet_ntoa my rand w None (Inr (w\<lparr>w_app := (w_app w)\<lparr>app_now := t\<rparr>\<rparr>))"

text \<open>
  Runs of the server: a sequence of steps, with the network events it handled, each under
  a condition on the state it meets. A fault ends the run.
\<close>

inductive server_run ::
    "'b libevent \<Rightarrow> protobuf \<Rightarrow> (u32 \<Rightarrow> string) \<Rightarrow> 'd mysql \<Rightarrow> (u32 \<Rightarrow> int) \<Rightarrow>
     (('b, 'd) world \<Rightarrow> net_event \<Rightarrow> bool) \<Rightarrow> ('b, 'd) world \<Rightarrow> ('b, 'd) world run \<Rightarrow> bool"
  for ev pb inet_ntoa my rand allowed where
  start: "server_run ev pb inet_ntoa my rand allowed w (Inr w)"
| step: "server_run ev pb inet_ntoa my rand allowed w (Inr w') \<Longrightarrow> server_step ev pb inet_ntoa my rand w' l r \<Longrightarrow>
     (case l of None \<Rightarrow> True | Some x \<Rightarrow> allowed w' x) \<Longrightarrow> server_run ev pb inet_ntoa my rand allowed w r"

inductive_cases server_stepE: "server_step ev pb inet_ntoa my rand w l r"

end
