(* ===== verification/Server_Safety.thy ===== *)
theory Server_Safety
  imports Net_Gate
begin

text \<open>
  The whole server as a state machine: its invariant, the clients for which every step
  keeps it and no step runs into undefined behaviour, the delivery of responses, and the
  clients that break it.
\<close>

section \<open>The invariant\<close>

text \<open>
  A session is in state \<^verbatim>\<open>HANDLING\<close> exactly while one event of it is in the service; no
  event of a deleted session is.
\<close>

definition handling :: "'b Session option \<Rightarrow> nat" where
  "handling x = (case x of None \<Rightarrow> 0 | Some s \<Rightarrow> if s_stat s = HANDLING then 1 else 0)"

definition flight_ok :: "('b, 'd) world \<Rightarrow> bool" where
  "flight_ok w \<longleftrightarrow> count (flight (des_tp (w_des w))) None = 0 \<and>
     (\<forall>sid. count (flight (des_tp (w_des w))) (Some sid) = handling (w_sessions w sid))"

definition handlers_ok :: "DispatchEventsService \<Rightarrow> bool" where
  "handlers_ok des \<longleftrightarrow> map_of (des_handler_map des) kPhoneReq = Some PhoneReqEventHandler \<and>
     map_of (des_handler_map des) kLoginReq = Some LoginReqEventHandler"

definition world_inv :: "'d mysql \<Rightarrow> ('b, 'd) world \<Rightarrow> bool" where
  "world_inv my w \<longleftrightarrow> app_ok my (w_app w) \<and> tp_inv (des_tp (w_des w)) \<and> service_ok (des_tp (w_des w)) \<and>
     handlers_ok (w_des w) \<and> (\<forall>sid s. w_sessions w sid = Some s \<longrightarrow> session_inv s) \<and>
     (\<forall>sid \<ge> w_next w. w_sessions w sid = None) \<and> flight_ok w"

text \<open>
  A client that keeps to the protocol: it sends well-formed requests, and neither sends
  nor closes while a request of its is being handled; and the queue of the pool has room
  when a request is complete.
\<close>

definition queue_has_room :: "('b, 'd) world \<Rightarrow> bool" where
  "queue_has_room w \<longleftrightarrow> length (waiting_queue (des_tp (w_des w))) < unat (kMaxQueueSize (des_tp (w_des w)))"

fun frame_accepted :: "('b, 'd) world \<Rightarrow> frame_result \<Rightarrow> bool" where
  "frame_accepted w More = True"
| "frame_accepted w (Bad msg) = False"
| "frame_accepted w (Done t body rest) = queue_has_room w"

fun polite :: "'b libevent \<Rightarrow> ('b, 'd) world \<Rightarrow> net_event \<Rightarrow> bool" where
  "polite ev w (Accept sock a p) = True"
| "polite ev w (Readable sid bs) =
     (case w_sessions w sid of
        None \<Rightarrow> True
      | Some s \<Rightarrow> s_stat s \<noteq> HANDLING \<and> frame_accepted w (frame_spec (s_stream ev s @ bs)))"
| "polite ev w (Writable sid) = True"
| "polite ev w (Failed sid events) =
     (case w_sessions w sid of None \<Rightarrow> True | Some s \<Rightarrow> s_stat s \<noteq> HANDLING)"

lemma world_simps [simp]:
  "w_sessions (w_put w sid s) = (w_sessions w)(sid := Some s)"
  "w_des (w_put w sid s) = w_des w" "w_next (w_put w sid s) = w_next w"
  "w_sessions (delete_session w sid) = (w_sessions w)(sid := None)"
  "w_des (delete_session w sid) = w_des w" "w_next (delete_session w sid) = w_next w"
  "w_sessions (w\<lparr>w_des := des\<rparr>) = w_sessions w" "w_sessions (w\<lparr>w_next := a\<rparr>) = w_sessions w"
  "w_sessions (w\<lparr>w_app := app\<rparr>) = app_sessions app"
  "app_ok my (w_app (w_put w sid s)) = app_ok my (w_app w)"
  "app_ok my (w_app (delete_session w sid)) = app_ok my (w_app w)"
  "app_sequence (w_app (w_put w sid s)) = app_sequence (w_app w)"
  by (simp_all add: w_sessions_def w_put_def put_session_def delete_session_def app_ok_def)

lemma app_ok_sequence [simp]: "app_ok my (app\<lparr>app_sequence := n\<rparr>) = app_ok my app"
  by (simp add: app_ok_def)

lemma app_sessions_sequence [simp]: "app_sessions (w_app w) = w_sessions w"
  by (simp add: w_sessions_def)

lemma log_session_live [simp]: "w_sessions w sid = Some s \<Longrightarrow> log_session w sid = Inr (s_socket s)"
  by (simp add: log_session_def load_def)

lemma log_session_freed: "w_sessions w sid = None \<Longrightarrow> log_session w sid = Inl Use_after_free"
  by (simp add: log_session_def load_def)

lemma handling_Some: "handling (Some s) = (if s_stat s = HANDLING then 1 else 0)" "handling None = 0"
  by (simp_all add: handling_def)

lemma world_inv_live:
  assumes "world_inv my w" and "x \<in># flight (des_tp (w_des w))"
  shows "\<exists>sid. x = Some sid \<and> app_live (w_app w) sid"
proof (cases x)
  case None
  then show ?thesis using assms by (simp add: world_inv_def flight_ok_def count_eq_zero_iff)
next
  case (Some sid)
  then have "handling (w_sessions w sid) \<noteq> 0"
    using assms by (metis count_eq_zero_iff flight_ok_def world_inv_def)
  then show ?thesis using Some by (auto simp: app_live_def handling_def split: option.splits)
qed

text \<open>Replacing a session by one that is handled as much as before.\<close>

lemma world_inv_put:
  assumes "world_inv my w" and "w_sessions w sid = Some s" and "session_inv s'"
    and "s_stat s' = HANDLING \<longleftrightarrow> s_stat s = HANDLING"
  shows "world_inv my (w_put w sid s')"
proof -
  have "sid < w_next w" using assms(1,2) by (metis not_le option.distinct(1) world_inv_def)
  then show ?thesis
    using assms by (auto simp: world_inv_def flight_ok_def handling_Some)
qed

lemma world_inv_sequence: "world_inv my (w\<lparr>w_app := (w_app w)\<lparr>app_sequence := n\<rparr>\<rparr>) = world_inv my w"
  by (simp add: world_inv_def flight_ok_def)

lemma world_inv_accept:
  assumes "world_inv my w"
  shows "world_inv my (ListenerCallback ev inet_ntoa sock a p w)"
proof -
  have "session_inv (set_bufev (Session_new sock (inet_ntoa a) (htons p)) b)" for b
    by (simp add: session_inv_def set_bufev_def Session_new_def Buffer_new_def buf_inv_def)
  moreover have "w_sessions w (w_next w) = None" using assms by (simp add: world_inv_def)
  ultimately show ?thesis
    using assms
    by (auto simp: ListenerCallback_def Let_def world_inv_def flight_ok_def handling_Some set_bufev_def
        Session_new_def)
qed

lemma world_inv_delete:
  assumes "world_inv my w" and "w_sessions w sid = Some s" and "s_stat s \<noteq> HANDLING"
  shows "world_inv my (delete_session w sid)"
  using assms by (auto simp: world_inv_def flight_ok_def handling_Some)

section \<open>Callbacks of polite clients\<close>

lemma request_event_kind:
  assumes "t = kPhoneReq \<or> t = kLoginReq"
  shows "ev_type (request_event pb sid n t body) = t" and "ev_session (request_event pb sid n t body) = Some sid"
    and "t = kPhoneReq \<Longrightarrow> \<exists>m. ev_body (request_event pb sid n t body) = EvPhoneReq m"
    and "t = kLoginReq \<Longrightarrow> \<exists>m. ev_body (request_event pb sid n t body) = EvLoginReq m"
  using assms
  by (auto simp: request_event_def ev_ParseFromArray_def set_session_def EvPhoneReq_new_def EvLoginReq_new_def
      IEvent_new_def event_type_defs split: prod.splits)

lemma Push_request:
  assumes "handlers_ok des" and "t = kPhoneReq \<or> t = kLoginReq" and "e = request_event pb sid n t body"
    and "length (waiting_queue (des_tp des)) < unat (kMaxQueueSize (des_tp des))"
    and "tp_inv (des_tp des)" and "service_ok (des_tp des)"
  shows "\<exists>des'. Push des e = (True, des') \<and> handlers_ok des' \<and> tp_inv (des_tp des') \<and> service_ok (des_tp des')"
proof -
  note k = request_event_kind [OF assms(2), of pb sid n body]
  obtain h where h: "map_of (des_handler_map des) (ev_type e) = Some h" "accepts_body h (ev_body e)"
    using assms(1-3) k by (auto simp: handlers_ok_def)
  let ?t = "Task \<lparr>eht_event = e, eht_handler = h\<rparr>"
  let ?des = "des\<lparr>des_tp := (des_tp des)\<lparr>waiting_queue := waiting_queue (des_tp des) @ [?t]\<rparr>\<rparr>"
  have "Push des e = (True, ?des)" using h(1) assms(4) by (simp add: Push_def Drop_def)
  moreover have "service_ok (des_tp ?des)" using assms(6) h(2) by (simp add: service_ok_def task_ok_def)
  moreover have "tp_inv (des_tp ?des)" using assms(4,5) by (simp add: tp_inv_def)
  ultimately show ?thesis using assms(1) by (simp add: handlers_ok_def)
qed

lemma ReqCallback_safe:
  assumes ev: "libevent_ok ev" and inv: "world_inv my w" and s: "w_sessions w sid = Some s"
    and st: "s_stat s \<noteq> HANDLING"
    and good: "frame_accepted w (frame_spec (s_stream ev s))"
  shows "\<exists>w'. ReqCallback ev pb sid w = Inr w' \<and> world_inv my w'"
proof -
  let ?n = "app_sequence (w_app w)"
  have sinv: "session_inv s" using inv s by (simp add: world_inv_def)
  note meets = Pack_meets [OF ev sinv st, of pb sid ?n]
  show ?thesis
  proof (cases "frame_spec (s_stream ev s)")
    case More
    with meets obtain s' where s': "Pack ev pb sid s ?n = Inr (Ret None, s', ?n)" "session_inv s'"
        "s_stat s' \<noteq> HANDLING"
      by (auto simp: pack_meets_def)
    have "world_inv my (w_put w sid s')"
      by (rule world_inv_put [OF inv s s'(2)]) (use s'(3) st in simp)
    moreover have "ReqCallback ev pb sid w = Inr ((w_put w sid s')
        \<lparr>w_app := (w_app (w_put w sid s'))\<lparr>app_sequence := ?n\<rparr>\<rparr>)"
      by (simp add: ReqCallback_def load_def s s'(1) Let_def)
    ultimately show ?thesis by (simp add: world_inv_sequence)
  next
    case (Bad msg)
    with good show ?thesis by simp
  next
    case (Done t body rest)
    let ?e = "request_event pb sid ?n t body"
    have t: "t = kPhoneReq \<or> t = kLoginReq"
      using Done by (auto simp: frame_spec_def Let_def split: if_splits)
    have room: "length (waiting_queue (des_tp (w_des w))) < unat (kMaxQueueSize (des_tp (w_des w)))"
      using good Done by (simp add: queue_has_room_def)
    from meets Done obtain s' where s': "Pack ev pb sid s ?n = Inr (Ret (Some ?e), s', ?n + 1)"
        "session_inv (set_state s' HANDLING)"
      by (auto simp: pack_meets_def)
    obtain des' where des': "Push (w_des w) ?e = (True, des')" "handlers_ok des'" "tp_inv (des_tp des')"
        "service_ok (des_tp des')"
      using Push_request [OF _ t refl room, of pb sid ?n body] inv by (auto simp: world_inv_def)
    have fl: "flight (des_tp des') = add_mset (Some sid) (flight (des_tp (w_des w)))"
      using flight_Push [OF des'(1)] request_event_kind(2) [OF t] by simp
    let ?w1 = "(w_put w sid s')\<lparr>w_app := (w_app (w_put w sid s'))\<lparr>app_sequence := ?n + 1\<rparr>\<rparr>"
    let ?w' = "w_put (?w1\<lparr>w_des := des'\<rparr>) sid (set_state s' HANDLING)"
    have "ReqCallback ev pb sid w = Inr ?w'"
      using s s' des'(1) by (simp add: ReqCallback_def load_def Let_def)
    moreover have "world_inv my ?w'"
    proof -
      have "sid < w_next w" using inv s by (metis not_le option.distinct(1) world_inv_def)
      moreover have "handling (w_sessions w sid) = 0" using s st by (simp add: handling_Some)
      ultimately show ?thesis
        using inv des' s'(2) fl by (auto simp: world_inv_def flight_ok_def handling_Some set_state_def)
    qed
    ultimately show ?thesis by blast
  qed
qed

lemma event_safe:
  assumes ev: "libevent_ok ev" and inv: "world_inv my w" and p: "polite ev w x"
  shows "\<exists>w'. run_event ev pb inet_ntoa x w = Inr w' \<and> world_inv my w'"
proof (cases x)
  case (Accept sock a q)
  then show ?thesis using world_inv_accept [OF inv] by simp
next
  case (Readable sid bs)
  show ?thesis
  proof (cases "w_sessions w sid")
    case (Some s)
    have sinv: "session_inv s" using inv Some by (simp add: world_inv_def)
    note r = receive_stream [OF ev sinv, of bs]
    let ?w = "w_put w sid (receive ev s bs)"
    have "world_inv my ?w" by (rule world_inv_put [OF inv Some r(1)]) (simp add: r(4))
    moreover have "frame_accepted ?w x = frame_accepted w x" for x
      by (cases x) (simp_all add: queue_has_room_def)
    ultimately show ?thesis
      using ReqCallback_safe [OF ev, of my ?w sid "receive ev s bs" pb] p Some Readable r by simp
  qed (use inv Readable in simp)
next
  case (Writable sid)
  show ?thesis
  proof (cases "w_sessions w sid")
    case (Some s)
    have "session_inv s" using inv Some by (simp add: world_inv_def)
    then have "session_inv (IncrementCount s)"
      by (cases "s_stat s") (simp_all add: session_inv_def IncrementCount_def)
    then show ?thesis
      using world_inv_put [OF inv Some, of "IncrementCount s"] Some Writable
      by (simp add: ResCallback_def load_def IncrementCount_def)
  qed (use inv Writable in simp)
next
  case (Failed sid events)
  show ?thesis
  proof (cases "w_sessions w sid")
    case (Some s)
    then show ?thesis
      using world_inv_delete [OF inv Some] p Failed
      by (auto simp: ErrCallback_def load_def)
  qed (use inv Failed in simp)
qed

section \<open>Sending the responses\<close>

text \<open>While the loop sends, the results not yet sent count as still in the results queue.\<close>

definition with_results :: "IEvent list \<Rightarrow> ('b, 'd) world \<Rightarrow> ('b, 'd) world" where
  "with_results rs w = w\<lparr>w_des := (w_des w)\<lparr>des_tp := (des_tp (w_des w))\<lparr>results_queue := rs\<rparr>\<rparr>\<rparr>"

text \<open>The session after its response was written to the socket's buffer.\<close>

definition responded :: "'b libevent \<Rightarrow> protobuf \<Rightarrow> IEvent \<Rightarrow> 'b Session \<Rightarrow> 'b Session" where
  "responded ev pb e s = set_state
     (s\<lparr>s_bufev := map_option (\<lambda>b. bufferevent_write ev b (frame (ev_type e) (body_bytes pb (ev_body e)))) (s_bufev s)\<rparr>)
     WAITING_REQUEST"

lemma with_results_simps [simp]:
  "w_sessions (with_results rs w) = w_sessions w" "w_app (with_results rs w) = w_app w"
  "w_next (with_results rs w) = w_next w"
  "results_queue (des_tp (w_des (with_results rs w))) = rs"
  "with_results rs (w_put w sid s) = w_put (with_results rs w) sid s"
  by (simp_all add: with_results_def w_sessions_def w_put_def del: app_sessions_sequence)

lemma with_results_self: "with_results (results_queue (des_tp (w_des w))) w = w"
  by (simp add: with_results_def)

lemma session_inv_responded:
  assumes "session_inv s" and "s_stat s = HANDLING"
  shows "session_inv (responded ev pb e s)"
  using assms by (auto simp: session_inv_def responded_def set_state_def)

lemma flight_with_results:
  "flight (tp\<lparr>results_queue := e # es\<rparr>) = add_mset (ev_session e) (flight (tp\<lparr>results_queue := es\<rparr>))"
  by (simp add: flight_def)

lemma send_result_ok:
  assumes pb: "protobuf_ok pb" and e: "response_ok e" "ev_session e = Some sid"
    and s: "w_sessions w sid = Some s" "s_bufev s = Some bev"
  shows "send_result ev pb e w = Inr (w_put w sid (responded ev pb e s))"
proof -
  let ?bytes = "frame (ev_type e) (body_bytes pb (ev_body e))"
  have len: "length (body_bytes pb (ev_body e)) < 2147483648"
    using short_body_bytes [OF pb] e(1) by (simp add: response_ok_def)
  have u: "Unpack pb (w_sessions w) e = Inr (map Some ?bytes, of_nat (length ?bytes))"
    using Unpack_frame [OF pb _ len e(2), of "w_sessions w" s] e(1) s(1) by (simp add: response_ok_def)
  have "unat (of_nat (length ?bytes) :: u32) = length ?bytes"
    using len by (simp add: frame_def unat_word_ariths unat_of_nat)
  moreover have "read_cells (map Some ?bytes) 0 (length ?bytes) = Inr ?bytes"
    using read_cells_holds_prefix [of "map Some ?bytes" ?bytes 0 "length ?bytes"] by (simp add: holds_prefix_def)
  ultimately show ?thesis
    using u e(2) s by (simp add: send_result_def load_def deref_def responded_def set_state_def)
qed

lemma world_inv_tpD:
  assumes "world_inv my (with_results (e # es) w)"
  shows "\<exists>sid s bev. ev_session e = Some sid \<and> response_ok e \<and> w_sessions w sid = Some s \<and>
    s_stat s = HANDLING \<and> session_inv s \<and> s_bufev s = Some bev \<and> sid < w_next w"
proof -
  let ?f = "flight (des_tp (w_des (with_results (e # es) w)))"
  have c: "0 < count ?f (ev_session e)" by (simp add: with_results_def flight_with_results)
  have ok: "count ?f None = 0" "count ?f (Some x) = handling (w_sessions w x)" for x
    using assms by (simp_all add: world_inv_def flight_ok_def)
  obtain sid where sid: "ev_session e = Some sid"
    using c ok(1) by (metis less_irrefl not_None_eq)
  have "handling (w_sessions w sid) \<noteq> 0" using c ok(2) sid by simp
  then obtain s where s: "w_sessions w sid = Some s" "s_stat s = HANDLING"
    by (auto simp: handling_def split: option.splits if_splits)
  have "session_inv s" using assms s by (simp add: world_inv_def)
  moreover have "response_ok e" using assms by (simp add: world_inv_def service_ok_def)
  moreover have "sid < w_next w"
    using assms s(1) by (metis not_le option.distinct(1) with_results_simps(1,3) world_inv_def)
  ultimately show ?thesis using sid s by (auto simp: session_inv_def)
qed

lemma world_inv_responded:
  assumes inv: "world_inv my (with_results (e # es) w)" and sid: "ev_session e = Some sid"
    and s: "w_sessions w sid = Some s" "s_stat s = HANDLING" "session_inv s" and "sid < w_next w"
  shows "world_inv my (with_results es (w_put w sid (responded ev pb e s)))"
proof -
  have t: "tp_inv (des_tp (w_des (with_results es w)))" "service_ok (des_tp (w_des (with_results es w)))"
      "handlers_ok (w_des (with_results es w))"
    using inv by (simp_all add: world_inv_def with_results_def tp_inv_def service_ok_def handlers_ok_def)
  have f: "flight (des_tp (w_des (with_results (e # es) w))) =
      add_mset (Some sid) (flight (des_tp (w_des (with_results es w))))"
    using sid by (simp add: with_results_def flight_with_results)
  have fl: "flight_ok (with_results (e # es) w)" using inv by (simp add: world_inv_def)
  have "count (flight (des_tp (w_des (with_results es w)))) None = 0"
    using fl by (simp add: flight_ok_def f)
  moreover have "count (flight (des_tp (w_des (with_results es w)))) (Some x) =
      (if x = sid then 0 else handling (w_sessions w x))" for x
  proof -
    have "count (add_mset (Some sid) (flight (des_tp (w_des (with_results es w))))) (Some x) = handling (w_sessions w x)"
      using fl unfolding flight_ok_def f by simp
    then show ?thesis using s by (cases "x = sid") (simp_all add: handling_Some)
  qed
  ultimately have "flight_ok (w_put (with_results es w) sid (responded ev pb e s))"
    by (simp add: flight_ok_def handling_Some responded_def set_state_def)
  moreover have "session_inv (responded ev pb e s)" by (rule session_inv_responded [OF s(3,2)])
  ultimately show ?thesis
    using t inv assms(6) by (auto simp: world_inv_def)
qed

lemma send_results_ok:
  assumes pb: "protobuf_ok pb" and inv: "world_inv my (with_results es w)"
  shows "\<exists>w'. send_results ev pb es w = Inr w' \<and> world_inv my (with_results [] w') \<and>
    w_des w' = w_des w"
  using inv
proof (induction es arbitrary: w)
  case (Cons e es)
  from world_inv_tpD [OF Cons.prems] obtain sid s bev where
    s: "ev_session e = Some sid" "response_ok e" "w_sessions w sid = Some s" "s_stat s = HANDLING"
      "session_inv s" "s_bufev s = Some bev" "sid < w_next w" by blast
  let ?w = "w_put w sid (responded ev pb e s)"
  have "world_inv my (with_results es ?w)"
    by (rule world_inv_responded [OF Cons.prems s(1,3,4,5,7)])
  from Cons.IH [OF this] show ?case
    using send_result_ok [OF pb s(2,1,3,6), of ev] by simp
qed simp

lemma results_safe:
  assumes "protobuf_ok pb" and "world_inv my w"
  shows "\<exists>w'. handle_results ev pb w = Inr w' \<and> world_inv my w'"
proof -
  let ?rs = "results_queue (des_tp (w_des w))"
  have "with_results ?rs (with_results [] w) = w" by (simp add: with_results_def)
  then obtain w' where w': "send_results ev pb ?rs (with_results [] w) = Inr w'" "world_inv my (with_results [] w')"
      "w_des w' = w_des (with_results [] w)"
    using send_results_ok [OF assms(1), of my ?rs "with_results [] w" ev] assms(2) by auto
  have "with_results [] w' = w'" using w'(3) by (simp add: with_results_def)
  moreover have "handle_results ev pb w = send_results ev pb ?rs (with_results [] w)"
    by (simp add: handle_results_def Drag_eq with_results_def)
  ultimately show ?thesis using w' by simp
qed

section \<open>Steps of the workers\<close>

lemma same_connD:
  assumes "same_conn s s'"
  shows "s_stat s' = s_stat s" and "session_inv s' = session_inv s" and "s_bufev s' = s_bufev s"
    and "s_req_buf s' = s_req_buf s"
proof -
  from assms obtain i p where "s' = s\<lparr>s_identifier := i, s_phone_number := p\<rparr>" by (auto simp: same_conn_def)
  then show "s_stat s' = s_stat s" and "session_inv s' = session_inv s" and "s_bufev s' = s_bufev s"
    and "s_req_buf s' = s_req_buf s"
    by (cases "s_stat s"; simp add: session_inv_def)+
qed

lemma same_conns_cases:
  assumes "same_conns app app'"
  obtains "app_sessions app sid = None" "app_sessions app' sid = None"
  | s s' where "app_sessions app sid = Some s" "app_sessions app' sid = Some s'" "same_conn s s'"
proof -
  have "rel_option same_conn (app_sessions app sid) (app_sessions app' sid)"
    using assms by (simp add: same_conns_def)
  then show thesis by (cases rule: option.rel_cases) (use that in auto)
qed

lemma same_conns_handling:
  assumes "same_conns app app'"
  shows "handling (app_sessions app' sid) = handling (app_sessions app sid)"
  by (rule same_conns_cases [OF assms, of sid]) (simp_all add: handling_Some same_connD(1))

lemma same_conns_inv:
  assumes "same_conns app app'" and "\<forall>sid s. app_sessions app sid = Some s \<longrightarrow> session_inv s"
  shows "app_sessions app' sid = Some s \<Longrightarrow> session_inv s"
  by (rule same_conns_cases [OF assms(1), of sid]) (use assms(2) same_connD(2) in auto)

lemma world_inv_worker:
  assumes inv: "world_inv my w"
    and step: "cycle_step (EventHandleTask_Execute my rand) (des_tp (w_des w), w_app w) l (tp', app')"
  shows "world_inv my (w\<lparr>w_des := (w_des w)\<lparr>des_tp := tp'\<rparr>, w_app := app'\<rparr>)"
proof -
  have ok: "flight tp' = flight (des_tp (w_des w)) \<and> service_ok tp' \<and> app_ok my app' \<and> same_conns (w_app w) app'"
    using worker_step_ok [OF step] world_inv_live [OF inv] inv by (simp add: world_inv_def)
  have tp: "tp_inv tp'" using tp_inv_cycle [OF step] inv by (simp add: world_inv_def)
  have none: "app_sessions app' sid = None" if "w_next w \<le> sid" for sid
    by (rule same_conns_cases [of "w_app w" app' sid]) (use ok inv that in \<open>auto simp: world_inv_def\<close>)
  have "flight_ok (w\<lparr>w_des := (w_des w)\<lparr>des_tp := tp'\<rparr>, w_app := app'\<rparr>)"
    using inv ok same_conns_handling [of "w_app w" app'] by (simp add: world_inv_def flight_ok_def)
  moreover have "session_inv s" if "app_sessions app' sid = Some s" for sid s
    using same_conns_inv [of "w_app w" app' sid s] ok inv that by (simp add: world_inv_def)
  ultimately show ?thesis
    using ok tp none inv by (simp add: world_inv_def handlers_ok_def)
qed

section \<open>Polite clients never crash the server\<close>

lemma polite_step:
  assumes "libevent_ok ev" and "protobuf_ok pb" and inv: "world_inv my w"
    and step: "server_step ev pb inet_ntoa my rand w l r"
    and p: "case l of None \<Rightarrow> True | Some x \<Rightarrow> polite ev w x"
  shows "\<exists>w'. r = Inr w' \<and> world_inv my w'"
  using step
proof (cases rule: server_step.cases)
  case (event x)
  then show ?thesis using event_safe [OF assms(1) inv, of x pb inet_ntoa] p by simp
next
  case results
  then show ?thesis using results_safe [OF assms(2) inv] by simp
next
  case (worker l' tp' app')
  then show ?thesis using world_inv_worker [OF inv] by simp
next
  case (worker_fault i f)
  then show ?thesis
    using worker_execute_safe [OF worker_fault(3)] world_inv_live [OF inv] inv by (auto simp: world_inv_def)
next
  case (tick t)
  have "world_inv my (w\<lparr>w_app := (w_app w)\<lparr>app_now := t\<rparr>\<rparr>)"
    using inv by (simp add: world_inv_def flight_ok_def app_ok_def)
  then show ?thesis using tick by simp
qed

lemma polite_run_safe:
  assumes "server_run ev pb inet_ntoa my rand (polite ev) w r" and "libevent_ok ev" and "protobuf_ok pb"
    and "world_inv my w"
  shows "\<exists>w'. r = Inr w' \<and> world_inv my w'"
  using assms(1,4)
proof (induction rule: server_run.induct)
  case (step w w' l r)
  from step.IH [OF step.prems] have "world_inv my w'" by simp
  from polite_step [OF assms(2,3) this step.hyps(2,3)] show ?case .
qed simp

section \<open>Impolite clients\<close>

lemma ReqCallback_faults:
  assumes ev: "libevent_ok ev" and inv: "world_inv my w" and s: "w_sessions w sid = Some s"
    and bad: "s_stat s = HANDLING \<or> \<not> frame_accepted w (frame_spec (s_stream ev s))"
  shows "ReqCallback ev pb sid w = Inl Use_after_free"
proof (cases "s_stat s = HANDLING")
  case True
  then have "Pack ev pb sid s (app_sequence (w_app w)) =
      Inr (Threw (Runtime_error ''invalid session state''), s, app_sequence (w_app w))"
    by (simp add: Pack_def)
  then show ?thesis
    by (simp add: ReqCallback_def load_def s Let_def log_session_freed)
next
  case False
  let ?n = "app_sequence (w_app w)"
  have sinv: "session_inv s" using inv s by (simp add: world_inv_def)
  note meets = Pack_meets [OF ev sinv False, of pb sid ?n]
  show ?thesis
  proof (cases "frame_spec (s_stream ev s)")
    case More
    then show ?thesis using bad False by simp
  next
    case (Bad msg)
    with meets obtain s' where "Pack ev pb sid s ?n = Inr (Threw (Invalid_argument msg), s', ?n)"
      by (auto simp: pack_meets_def)
    then show ?thesis
      by (simp add: ReqCallback_def load_def s Let_def log_session_freed)
  next
    case (Done t body rest)
    let ?e = "request_event pb sid ?n t body"
    from meets Done obtain s' where s': "Pack ev pb sid s ?n = Inr (Ret (Some ?e), s', ?n + 1)"
      by (auto simp: pack_meets_def)
    have "unat (kMaxQueueSize (des_tp (w_des w))) \<le> length (waiting_queue (des_tp (w_des w)))"
      using bad False Done by (simp add: queue_has_room_def)
    then have "\<exists>des'. Push (w_des w) ?e = (False, des')"
      by (auto simp: Push_def Drop_def split: option.splits)
    then show ?thesis
      using s' by (auto simp: ReqCallback_def load_def s Let_def)
  qed
qed

section \<open>A fresh server\<close>

definition registered_service :: "u32 \<Rightarrow> DispatchEventsService" where
  "registered_service n =
     RegisterHandler (RegisterHandler (DispatchEventsService_new n) kPhoneReq PhoneReqEventHandler)
       kLoginReq LoginReqEventHandler"

lemma flight_new: "flight (ThreadPool_new n m) = {#}"
proof -
  have "List.map_filter pc_event (replicate k Waiting) = []" for k
    by (induction k) (simp_all add: map_filter_simps)
  then show ?thesis by (simp add: flight_def ThreadPool_new_def map_filter_simps)
qed

lemma registered_service_ok:
  "handlers_ok (registered_service n)" "des_tp (registered_service n) = ThreadPool_new n kDefaultMaxQueueSize"
  by (simp_all add: handlers_ok_def registered_service_def RegisterHandler_map event_type_defs)
     (simp add: RegisterHandler_def DispatchEventsService_new_def ThreadPool_default_def)

lemma world_inv_fresh:
  assumes "app_ok my app" and "\<And>sid s. app_sessions app sid = Some s \<Longrightarrow> session_inv s \<and> s_stat s \<noteq> HANDLING"
    and "\<And>sid. a \<le> sid \<Longrightarrow> app_sessions app sid = None"
  shows "world_inv my \<lparr>w_app = app, w_des = registered_service n, w_next = a\<rparr>"
proof -
  have "handling (app_sessions app sid) = 0" for sid
    using assms(2) by (simp add: handling_def split: option.split)
  moreover have "service_ok (ThreadPool_new n m)" for n m
    by (simp add: service_ok_def ThreadPool_new_def pc_ok_def)
  ultimately show ?thesis
    using assms
    by (simp add: world_inv_def flight_ok_def registered_service_ok tp_inv_new flight_new w_sessions_def
        del: app_sessions_sequence)
qed

text \<open>One client is connected.\<close>

definition demo_world :: "u32 \<Rightarrow> (byte list \<times> byte list, mem_db) world" where
  "demo_world n = \<lparr>w_app = demo_app, w_des = registered_service n, w_next = 4\<rparr>"

lemma demo_sessions: "w_sessions (demo_world n) = [3 \<mapsto> set_bufev (Session_new 7 ''10.0.0.1'' 4000) ([], [])]"
  by (simp add: w_sessions_def demo_world_def demo_app_def del: app_sessions_sequence)

lemma demo_world_inv: "world_inv mem_mysql (demo_world n)"
  unfolding demo_world_def
proof (rule world_inv_fresh)
  show "app_ok mem_mysql demo_app" by (simp add: app_ok_def demo_app_def)
  show "session_inv s \<and> s_stat s \<noteq> HANDLING" if "app_sessions demo_app sid = Some s" for sid s
    using that by (auto simp: demo_app_def session_inv_def set_bufev_def Session_new_def Buffer_new_def buf_inv_def
        split: if_splits)
  show "app_sessions demo_app sid = None" if "4 \<le> sid" for sid using that by (simp add: demo_app_def)
qed

section \<open>Delivery of the responses\<close>

definition results_for :: "addr \<Rightarrow> IEvent list \<Rightarrow> IEvent list" where
  "results_for sid rs = filter (\<lambda>e. ev_session e = Some sid) rs"

definition response_bytes :: "protobuf \<Rightarrow> IEvent list \<Rightarrow> byte list" where
  "response_bytes pb rs = concat (map (\<lambda>e. frame (ev_type e) (body_bytes pb (ev_body e))) rs)"

text \<open>
  The bytes appended to the output buffer of a session, and its state, after the responses
  \<open>rs\<close> of that session were sent.
\<close>

definition got_responses :: "'b libevent \<Rightarrow> protobuf \<Rightarrow> IEvent list \<Rightarrow> 'b Session \<Rightarrow> 'b Session \<Rightarrow> bool" where
  "got_responses ev pb rs s s' \<longleftrightarrow> s_output ev s' = s_output ev s @ response_bytes pb rs \<and>
     s_input ev s' = s_input ev s \<and> s_stat s' = (if rs = [] then s_stat s else WAITING_REQUEST)"

definition delivered :: "'b libevent \<Rightarrow> protobuf \<Rightarrow> IEvent list \<Rightarrow> ('b, 'd) world \<Rightarrow> ('b, 'd) world \<Rightarrow> bool" where
  "delivered ev pb rs w w' \<longleftrightarrow>
     (\<forall>sid. rel_option (got_responses ev pb (results_for sid rs)) (w_sessions w sid) (w_sessions w' sid))"

lemma got_responses_Nil: "got_responses ev pb [] s s"
  by (simp add: got_responses_def response_bytes_def)

lemma got_responses_Cons:
  assumes "libevent_ok ev" and "s_bufev s = Some bev" and "got_responses ev pb rs (responded ev pb e s) s'"
  shows "got_responses ev pb (e # rs) s s'"
  using assms
  by (auto simp: got_responses_def response_bytes_def responded_def set_state_def s_output_def s_input_def
      libevent_okD split: if_splits)

lemma delivered_Cons:
  assumes "libevent_ok ev" and "ev_session e = Some sid" and "w_sessions w sid = Some s" and "s_bufev s = Some bev"
    and "delivered ev pb es (w_put w sid (responded ev pb e s)) w'"
  shows "delivered ev pb (e # es) w w'"
  unfolding delivered_def
proof
  fix x
  have rel: "rel_option (got_responses ev pb (results_for x es)) (w_sessions (w_put w sid (responded ev pb e s)) x) (w_sessions w' x)"
    using assms(5) by (simp add: delivered_def)
  show "rel_option (got_responses ev pb (results_for x (e # es))) (w_sessions w x) (w_sessions w' x)"
  proof (cases "x = sid")
    case True
    then obtain s' where "w_sessions w' sid = Some s'" "got_responses ev pb (results_for sid es) (responded ev pb e s) s'"
      using rel by (auto simp: option_rel_Some1)
    then show ?thesis using True assms(2,3) got_responses_Cons [OF assms(1,4)] by (simp add: results_for_def)
  next
    case False
    then show ?thesis using rel assms(2) by (simp add: results_for_def)
  qed
qed

lemma send_results_delivered:
  assumes ev: "libevent_ok ev" and pb: "protobuf_ok pb" and inv: "world_inv my (with_results es w)"
    and "send_results ev pb es w = Inr w'"
  shows "delivered ev pb es w w'"
  using inv assms(4)
proof (induction es arbitrary: w)
  case Nil
  then show ?case by (simp add: delivered_def results_for_def option.rel_refl got_responses_Nil)
next
  case (Cons e es)
  from world_inv_tpD [OF Cons.prems(1)] obtain sid s bev where
    s: "ev_session e = Some sid" "response_ok e" "w_sessions w sid = Some s" "s_stat s = HANDLING"
      "session_inv s" "s_bufev s = Some bev" "sid < w_next w" by blast
  have "delivered ev pb es (w_put w sid (responded ev pb e s)) w'"
    using Cons.IH [OF world_inv_responded [OF Cons.prems(1) s(1,3,4,5,7)]] Cons.prems(2)
      send_result_ok [OF pb s(2,1,3,6), of ev] by simp
  then show ?case by (rule delivered_Cons [OF ev s(1,3,6)])
qed

lemma one_result_each:
  assumes "world_inv my w"
  shows "length (results_for sid (results_queue (des_tp (w_des w)))) \<le> 1"
proof -
  let ?tp = "des_tp (w_des w)"
  have "length (results_for sid rs) = count (image_mset ev_session (mset rs)) (Some sid)" for rs
    by (induction rs) (simp_all add: results_for_def)
  then have "length (results_for sid (results_queue ?tp)) \<le> count (flight ?tp) (Some sid)"
    by (simp add: flight_def)
  also have "\<dots> \<le> 1"
    using assms by (auto simp: world_inv_def flight_ok_def handling_def split: option.split)
  finally show ?thesis .
qed

lemma handle_results_delivers:
  assumes "libevent_ok ev" and "protobuf_ok pb" and "world_inv my w"
  defines "rs \<equiv> results_queue (des_tp (w_des w))"
  shows "\<exists>w'. handle_results ev pb w = Inr w' \<and> world_inv my w' \<and> delivered ev pb rs w w' \<and>
    results_queue (des_tp (w_des w')) = []"
proof -
  have put: "with_results rs (with_results [] w) = w" by (simp add: with_results_def rs_def)
  then obtain w' where w': "send_results ev pb rs (with_results [] w) = Inr w'"
      "w_des w' = w_des (with_results [] w)"
    using send_results_ok [OF assms(2), of my rs "with_results [] w" ev] assms(3) by auto
  have h: "handle_results ev pb w = Inr w'"
    using w'(1) by (simp add: handle_results_def Drag_eq with_results_def rs_def)
  have "delivered ev pb rs (with_results [] w) w'"
    using send_results_delivered [OF assms(1,2) _ w'(1), of my] put assms(3) by simp
  then have "delivered ev pb rs w w'" by (simp add: delivered_def)
  moreover have "world_inv my w'" using results_safe [OF assms(2,3), of ev] h by simp
  ultimately show ?thesis using h w'(2) by (simp add: with_results_def)
qed

section \<open>Closing a connection while its request is handled\<close>

definition sendable :: "IEvent \<Rightarrow> ('b, 'd) world \<Rightarrow> bool" where
  "sendable e w \<longleftrightarrow> response_ok e \<and> (\<exists>sid. ev_session e = Some sid \<and>
     (\<forall>s. w_sessions w sid = Some s \<longrightarrow> s_bufev s \<noteq> None))"

definition orphan :: "('b, 'd) world \<Rightarrow> IEvent \<Rightarrow> bool" where
  "orphan w e \<longleftrightarrow> (\<exists>sid. ev_session e = Some sid \<and> w_sessions w sid = None)"

lemma send_result_orphan: "orphan w e \<Longrightarrow> send_result ev pb e w = Inl Use_after_free"
  by (auto simp: orphan_def send_result_def Unpack_def load_def deref_def)

lemma send_results_orphan:
  assumes pb: "protobuf_ok pb" and "\<forall>e \<in> set es. sendable e w" and "\<exists>e \<in> set es. orphan w e"
  shows "send_results ev pb es w = Inl Use_after_free"
  using assms(2,3)
proof (induction es arbitrary: w)
  case (Cons e es)
  show ?case
  proof (cases "orphan w e")
    case True
    then show ?thesis by (simp add: send_result_orphan)
  next
    case False
    then obtain sid s bev where s: "ev_session e = Some sid" "response_ok e" "w_sessions w sid = Some s" "s_bufev s = Some bev"
      using Cons.prems(1) by (auto simp: sendable_def orphan_def)
    let ?w = "w_put w sid (responded ev pb e s)"
    have "s_bufev (responded ev pb e s) \<noteq> None" using s(4) by (simp add: responded_def set_state_def)
    then have "\<forall>e \<in> set es. sendable e ?w" using Cons.prems(1) by (auto simp: sendable_def)
    moreover have "orphan ?w x" if "orphan w x" for x
      using that s(3) unfolding orphan_def by (metis fun_upd_other option.distinct(1) world_simps(1))
    then have "\<exists>e \<in> set es. orphan ?w e" using Cons.prems(2) False by auto
    ultimately have "send_results ev pb es ?w = Inl Use_after_free" by (rule Cons.IH)
    then show ?thesis using send_result_ok [OF pb s(2,1,3,4), of ev] by simp
  qed
qed simp

lemma sendable_deleted:
  assumes inv: "world_inv my w" and e: "e \<in> set (results_queue (des_tp (w_des w)))"
  shows "sendable e (delete_session w sid)"
proof -
  have "ev_session e \<in># flight (des_tp (w_des w))" using e by (auto simp: flight_def)
  then obtain x where "ev_session e = Some x" using world_inv_live [OF inv] by blast
  moreover have "response_ok e" using inv e by (simp add: world_inv_def service_ok_def)
  moreover have "s_bufev s \<noteq> None" if "w_sessions w y = Some s" for y s
    using inv that by (simp add: world_inv_def session_inv_def)
  ultimately show ?thesis by (auto simp: sendable_def)
qed

lemma Handle_orphan:
  assumes "ev_session (eht_event t) = Some sid" and "app_sessions app sid = None"
  shows "EventHandleTask_Execute my rand t app = Inl Use_after_free"
  using handler.handle_freed [OF assms(1), of app my rand "eht_handler t"] assms(2)
  by (simp add: EventHandleTask_Execute_def app_live_def)

lemma ErrCallback_deletes: "w_sessions w sid = Some s \<Longrightarrow> ErrCallback k sid w = Inr (delete_session w sid)"
  by (simp add: ErrCallback_def load_def)

lemma closed_while_handling:
  assumes inv: "world_inv my w" and pb: "protobuf_ok pb" and s: "w_sessions w sid = Some s" "s_stat s = HANDLING"
  defines "w' \<equiv> delete_session w sid"
  shows "Some sid \<in># flight (des_tp (w_des w'))"
    and "i < length (pcs (des_tp (w_des w'))) \<Longrightarrow> pcs (des_tp (w_des w')) ! i = Taken (Task t) \<Longrightarrow>
      ev_session (eht_event t) = Some sid \<Longrightarrow>
      Cycle_execute (EventHandleTask_Execute my rand) i (des_tp (w_des w')) (w_app w') = Some (Inl Use_after_free)"
    and "e \<in> set (results_queue (des_tp (w_des w'))) \<Longrightarrow> ev_session e = Some sid \<Longrightarrow>
      handle_results ev pb w' = Inl Use_after_free"
proof -
  have "count (flight (des_tp (w_des w))) (Some sid) = 1"
    using inv s by (simp add: world_inv_def flight_ok_def handling_Some)
  then show "Some sid \<in># flight (des_tp (w_des w'))"
    unfolding w'_def by (metis count_eq_zero_iff world_simps(5) zero_neq_one)
next
  assume t: "i < length (pcs (des_tp (w_des w')))" "pcs (des_tp (w_des w')) ! i = Taken (Task t)"
    "ev_session (eht_event t) = Some sid"
  have "app_sessions (w_app w') sid = None" by (simp add: w'_def)
  from Handle_orphan [OF t(3) this, of my rand]
  show "Cycle_execute (EventHandleTask_Execute my rand) i (des_tp (w_des w')) (w_app w') = Some (Inl Use_after_free)"
    using t by (simp add: Cycle_execute_def Execute_def)
next
  assume e: "e \<in> set (results_queue (des_tp (w_des w')))" "ev_session e = Some sid"
  let ?rs = "results_queue (des_tp (w_des w'))" and ?w = "with_results [] w'"
  have "\<forall>e \<in> set ?rs. sendable e ?w"
    using sendable_deleted [OF inv, of _ sid] by (simp add: w'_def sendable_def)
  moreover have "\<exists>e \<in> set ?rs. orphan ?w e" using e by (auto simp: orphan_def w'_def)
  ultimately have "send_results ev pb ?rs ?w = Inl Use_after_free" by (rule send_results_orphan [OF pb])
  then show "handle_results ev pb w' = Inl Use_after_free"
    by (simp add: handle_results_def Drag_eq with_results_def)
qed

section \<open>Properties\<close>

text \<open>
  While the clients are polite, no interleaving of callbacks, sends, workers and
  clock runs into undefined behaviour, and every state reached has the invariant: a
  session is being handled exactly while one event of it is in the service, and every
  event in the service belongs to a live session.
\<close>

theorem polite_clients_never_crash:
  assumes "libevent_ok ev" and "protobuf_ok pb" and "world_inv my w"
    and "server_run ev pb inet_ntoa my rand (polite ev) w r"
  shows "\<exists>w'. r = Inr w' \<and> world_inv my w'"
  using polite_run_safe [OF assms(4,1,2,3)] .

theorem polite_clients_never_crash_witness:
  "\<exists>w'. run_event mem_libevent wire_protobuf (\<lambda>_. []) (Readable 3 HEADER_CONT) (demo_world 2) = Inr w' \<and>
    world_inv mem_mysql w'"
proof -
  have "polite mem_libevent (demo_world 2) (Readable 3 HEADER_CONT)"
    by (simp add: demo_sessions frame_spec_short s_stream_def s_taken_def s_input_def set_bufev_def Session_new_def
        mem_libevent_def HEADER_CONT_def)
  then have "server_run mem_libevent wire_protobuf (\<lambda>_. []) mem_mysql (\<lambda>_. 0) (polite mem_libevent) (demo_world 2)
      (run_event mem_libevent wire_protobuf (\<lambda>_. []) (Readable 3 HEADER_CONT) (demo_world 2))"
    by (intro server_run.step [OF server_run.start server_step.event]) simp
  from polite_clients_never_crash [OF mem_libevent_ok wire_protobuf_ok demo_world_inv this] show ?thesis .
qed

text \<open>
  Claim C8: on every reachable state the read callback runs into a use after free exactly
  for the bytes a polite client does not send: bytes that arrive while the session's
  request is being handled, bytes that make a malformed frame, and bytes that complete a
  frame while the queue of the pool is full.
\<close>

theorem read_callback_faults_iff_impolite:
  assumes "libevent_ok ev" and "world_inv my w"
  shows "run_event ev pb inet_ntoa (Readable sid bs) w = Inl Use_after_free \<longleftrightarrow>
    \<not> polite ev w (Readable sid bs)"
proof
  assume fault: "run_event ev pb inet_ntoa (Readable sid bs) w = Inl Use_after_free"
  show "\<not> polite ev w (Readable sid bs)"
  proof
    assume "polite ev w (Readable sid bs)"
    from event_safe [OF assms this, of pb inet_ntoa] fault show False by auto
  qed
next
  assume imp: "\<not> polite ev w (Readable sid bs)"
  then obtain s where s: "w_sessions w sid = Some s" by (auto split: option.splits)
  have sinv: "session_inv s" using assms(2) s by (simp add: world_inv_def)
  note r = receive_stream [OF assms(1) sinv, of bs]
  let ?w = "w_put w sid (receive ev s bs)"
  have inv: "world_inv my ?w" by (rule world_inv_put [OF assms(2) s r(1)]) (simp add: r(4))
  have "frame_accepted ?w x = frame_accepted w x" for x
    by (cases x) (simp_all add: queue_has_room_def)
  then have "s_stat (receive ev s bs) = HANDLING \<or> \<not> frame_accepted ?w (frame_spec (s_stream ev (receive ev s bs)))"
    using imp s r by auto
  from ReqCallback_faults [OF assms(1) inv _ this] show "run_event ev pb inet_ntoa (Readable sid bs) w = Inl Use_after_free"
    using s by simp
qed

theorem read_callback_faults_iff_impolite_witness:
  "run_event mem_libevent wire_protobuf (\<lambda>_. []) (Readable 3 (replicate 10 0)) (demo_world 2) = Inl Use_after_free"
proof -
  have "frame_spec (replicate 10 (0::byte)) = Bad ''unknown identifier''"
  proof (rule frame_spec_bad)
    have "hd (take 4 (replicate 10 (0::byte))) \<noteq> hd HEADER_CONT"
      by (simp add: HEADER_CONT_def bytes_of_string_def)
    then show "take 4 (replicate 10 (0::byte)) \<noteq> HEADER_CONT" by metis
  qed simp
  then have "\<not> polite mem_libevent (demo_world 2) (Readable 3 (replicate 10 0))"
    by (simp add: demo_sessions s_stream_def s_taken_def s_input_def set_bufev_def Session_new_def mem_libevent_def)
  with read_callback_faults_iff_impolite [OF mem_libevent_ok demo_world_inv] show ?thesis by blast
qed



text \<open>
  Claim C13: a client that closes its connection (or fails, or times out) while its request
  is being handled leaves a dangling pointer: the session is deleted, its event stays in
  the service, and the worker that handles the request, or the loop that sends the
  response, runs into a use after free.
\<close>

theorem closing_while_handling_crashes:
  assumes "protobuf_ok pb" and "world_inv my w" and "w_sessions w sid = Some s" and "s_stat s = HANDLING"
  shows "\<exists>w'. run_event ev pb inet_ntoa (Failed sid k) w = Inr w' \<and> w_sessions w' sid = None \<and>
    Some sid \<in># flight (des_tp (w_des w')) \<and>
    (\<forall>i t. i < length (pcs (des_tp (w_des w'))) \<and> pcs (des_tp (w_des w')) ! i = Taken (Task t) \<and>
        ev_session (eht_event t) = Some sid \<longrightarrow>
        server_step ev pb inet_ntoa my rand w' None (Inl Use_after_free)) \<and>
    (\<forall>e \<in> set (results_queue (des_tp (w_des w'))). ev_session e = Some sid \<longrightarrow>
        handle_results ev pb w' = Inl Use_after_free)"
proof -
  note c = closed_while_handling [OF assms(2,1,3,4)]
  have "run_event ev pb inet_ntoa (Failed sid k) w = Inr (delete_session w sid)"
    using assms(3) by (simp add: ErrCallback_deletes)
  moreover have "server_step ev pb inet_ntoa my rand (delete_session w sid) None (Inl Use_after_free)"
    if "i < length (pcs (des_tp (w_des (delete_session w sid))))"
      "pcs (des_tp (w_des (delete_session w sid))) ! i = Taken (Task t)" "ev_session (eht_event t) = Some sid" for i t
    by (rule server_step.worker_fault [OF c(2) [OF that]])
  ultimately show ?thesis using c(1,3) by (intro exI [of _ "delete_session w sid"]) auto
qed

text \<open>The worker has taken the client's request.\<close>

definition busy_session :: "(byte list \<times> byte list) Session" where
  "busy_session = set_state (set_bufev (Session_new 7 ''10.0.0.1'' 4000) ([], [])) HANDLING"

definition busy_world :: "(byte list \<times> byte list, mem_db) world" where
  "busy_world =
     \<lparr>w_app = put_session demo_app 3 busy_session,
      w_des = (registered_service 1)\<lparr>des_tp := (ThreadPool_new 1 kDefaultMaxQueueSize)\<lparr>threads_idle := [False],
        pcs := [Taken (Task \<lparr>eht_event = demo_phone_req, eht_handler = PhoneReqEventHandler\<rparr>)]\<rparr>\<rparr>,
      w_next = 4\<rparr>"

lemma busy_world_sessions: "w_sessions busy_world = [3 \<mapsto> busy_session]"
  by (simp add: busy_world_def w_sessions_def put_session_def demo_app_def del: app_sessions_sequence)

lemma busy_world_inv: "world_inv mem_mysql busy_world"
proof -
  let ?tp = "des_tp (w_des busy_world)"
  have tp: "tp_inv ?tp" by (simp add: busy_world_def ThreadPool_new_def tp_inv_def count_if_eq kDefaultMaxQueueSize_def)
  have srv: "service_ok ?tp"
    by (simp add: busy_world_def ThreadPool_new_def service_ok_def pc_ok_def task_ok_def demo_phone_req_def)
  have h: "handlers_ok (w_des busy_world)"
    using registered_service_ok(1) [of 1] by (simp add: busy_world_def handlers_ok_def)
  have app: "app_ok mem_mysql (w_app busy_world)"
    by (simp add: busy_world_def put_session_def app_ok_def demo_app_def)
  have "flight ?tp = {#Some 3#}"
    by (simp add: busy_world_def ThreadPool_new_def flight_def map_filter_simps demo_phone_req_def)
  then have fl: "flight_ok busy_world"
    by (simp add: flight_ok_def busy_world_sessions handling_Some busy_session_def set_state_def)
  have "session_inv busy_session"
    by (simp add: busy_session_def session_inv_def set_state_def set_bufev_def Session_new_def Buffer_new_def buf_inv_def)
  then show ?thesis
    using tp srv h app fl by (simp add: world_inv_def busy_world_sessions) (simp add: busy_world_def)
qed

theorem closing_while_handling_crashes_witness:
  "\<exists>w'. run_event mem_libevent wire_protobuf (\<lambda>_. []) (Failed 3 BEV_EVENT_EOF) busy_world = Inr w' \<and>
    server_step mem_libevent wire_protobuf (\<lambda>_. []) mem_mysql (\<lambda>_. 0) w' None (Inl Use_after_free)"
proof -
  have run: "run_event mem_libevent wire_protobuf (\<lambda>_. []) (Failed 3 BEV_EVENT_EOF) busy_world =
      Inr (delete_session busy_world 3)"
    by (simp add: busy_world_sessions ErrCallback_deletes)
  have pc: "pcs (des_tp (w_des (delete_session busy_world 3))) =
      [Taken (Task \<lparr>eht_event = demo_phone_req, eht_handler = PhoneReqEventHandler\<rparr>)]"
    by (simp add: busy_world_def)
  have st: "s_stat busy_session = HANDLING" by (simp add: busy_session_def set_state_def)
  have e: "ev_session demo_phone_req = Some 3" by (simp add: demo_phone_req_def)
  from closing_while_handling_crashes [OF wire_protobuf_ok busy_world_inv _ st, of 3 mem_libevent "\<lambda>_. []"
      BEV_EVENT_EOF "\<lambda>_. 0"] run
  have "\<forall>i t. i < length (pcs (des_tp (w_des (delete_session busy_world 3)))) \<and>
      pcs (des_tp (w_des (delete_session busy_world 3))) ! i = Taken (Task t) \<and> ev_session (eht_event t) = Some 3 \<longrightarrow>
      server_step mem_libevent wire_protobuf (\<lambda>_. []) mem_mysql (\<lambda>_. 0) (delete_session busy_world 3) None (Inl Use_after_free)"
    by (auto simp: busy_world_sessions)
  then show ?thesis using run pc e by (intro exI [of _ "delete_session busy_world 3"]) auto
qed

end
