(* ===== verification/Spd_Format.thy ===== *)
theory Spd_Format
  imports Fmt_Int "HOL-Library.Signed_Division"
begin

text \<open>
  The formatters of \<^verbatim>\<open>spdlog\<close> that write one field of a log line each
  (\<^verbatim>\<open>pattern_formatter-inl.h\<close>, \<^verbatim>\<open>details/fmt_helper.h\<close>), with the levels and log messages they
  format (\<^verbatim>\<open>common.h\<close>, \<^verbatim>\<open>common-inl.h\<close>, \<^verbatim>\<open>details/log_msg.h\<close>). A formatter appends to a buffer of
  characters; reading outside an array, or shrinking the buffer below nothing, is a fault.
  The clock, the time zone, the process id and the diagnostic context of the thread are
  read from an environment record. Times are nanoseconds since the epoch.
\<close>

section \<open>Levels\<close>

datatype level_enum = level_trace | level_debug | level_info | level_warn | level_err | level_critical | level_off

fun level_value :: "level_enum \<Rightarrow> nat" where
  "level_value level_trace = 0"
| "level_value level_debug = 1"
| "level_value level_info = 2"
| "level_value level_warn = 3"
| "level_value level_err = 4"
| "level_value level_critical = 5"
| "level_value level_off = 6"

definition levels :: "level_enum list" where
  "levels = [level_trace, level_debug, level_info, level_warn, level_err, level_critical, level_off]"

definition level_string_views :: "string list" where
  "level_string_views = [''trace'', ''debug'', ''info'', ''warning'', ''error'', ''critical'', ''off'']"

definition short_level_names :: "string list" where
  "short_level_names = [''T'', ''D'', ''I'', ''W'', ''E'', ''C'', ''O'']"

definition to_string_view :: "level_enum \<Rightarrow> string" where
  "to_string_view l = level_string_views ! level_value l"

definition to_short_c_str :: "level_enum \<Rightarrow> string" where
  "to_short_c_str l = short_level_names ! level_value l"

fun index_of :: "'a \<Rightarrow> 'a list \<Rightarrow> nat option" where
  "index_of x [] = None"
| "index_of x (y # ys) = (if x = y then Some 0 else map_option Suc (index_of x ys))"

definition from_str :: "string \<Rightarrow> level_enum" where
  "from_str name =
     (case index_of name level_string_views of
        Some i \<Rightarrow> levels ! i
      | None \<Rightarrow> if name = ''warn'' then level_warn
                else if name = ''err'' then level_err
                else level_off)"

section \<open>Log messages\<close>

record source_loc =
  sl_filename :: string
  sl_line :: int
  sl_funcname :: string

definition source_loc_new :: source_loc where
  "source_loc_new = \<lparr>sl_filename = [], sl_line = 0, sl_funcname = []\<rparr>"

definition source_empty :: "source_loc \<Rightarrow> bool" where
  "source_empty l \<longleftrightarrow> sl_line l \<le> 0"

record log_msg =
  lm_logger_name :: string
  lm_level :: level_enum
  lm_time :: int
  lm_thread_id :: u64
  lm_color_range_start :: nat
  lm_color_range_end :: nat
  lm_source :: source_loc
  lm_payload :: string

definition log_msg_new :: "int \<Rightarrow> u64 \<Rightarrow> source_loc \<Rightarrow> string \<Rightarrow> level_enum \<Rightarrow> string \<Rightarrow> log_msg" where
  "log_msg_new log_time thread loc a_logger_name lvl msg =
     \<lparr>lm_logger_name = a_logger_name, lm_level = lvl, lm_time = log_time, lm_thread_id = thread,
      lm_color_range_start = 0, lm_color_range_end = 0, lm_source = loc, lm_payload = msg\<rparr>"

record tm =
  tm_sec :: int
  tm_min :: int
  tm_hour :: int
  tm_mday :: int
  tm_mon :: int
  tm_year :: int
  tm_wday :: int
  tm_gmtoff :: int

text \<open>What the formatters read from the operating system and the thread.\<close>

record log_env =
  env_localtime :: "int \<Rightarrow> tm"
  env_gmtime :: "int \<Rightarrow> tm"
  env_pid :: u32
  env_mdc :: "(string \<times> string) list"

definition utc_minutes_offset :: "tm \<Rightarrow> int" where
  "utc_minutes_offset t = tm_gmtoff t sdiv 60"

section \<open>Writers\<close>

text \<open>A writer appends to the buffer it is given.\<close>

type_synonym writer = "string \<Rightarrow> string run"

definition write_str :: "string \<Rightarrow> writer" where
  "write_str s dest = Inr (dest @ s)"

fun writes :: "writer list \<Rightarrow> writer" where
  "writes [] dest = Inr dest"
| "writes (f # fs) dest = bind_run (f dest) (writes fs)"

definition c_index :: "'a list \<Rightarrow> int \<Rightarrow> 'a run" where
  "c_index xs i = (if 0 \<le> i \<and> i < int (length xs) then Inr (xs ! nat i) else Inl Out_of_bounds)"

definition write_nth :: "string list \<Rightarrow> int \<Rightarrow> writer" where
  "write_nth xs i dest = bind_run (c_index xs i) (\<lambda>s. write_str s dest)"

section \<open>fmt\_helper\<close>

definition append_int :: "int \<Rightarrow> writer" where
  "append_int n dest = bind_run (format_signed (word_of_int n :: u64)) (\<lambda>(_, s). write_str s dest)"

definition append_uint :: "'a::len word \<Rightarrow> writer" where
  "append_uint n dest = bind_run (format_unsigned (unat n)) (\<lambda>(_, s). write_str s dest)"

text \<open>Outside 0 to 99 the number goes through the format string with at least two places.\<close>

definition pad2 :: "int \<Rightarrow> writer" where
  "pad2 n dest =
     (if 0 \<le> n \<and> n < 100 then write_str [digit (nat n div 10), digit (nat n mod 10)] dest
      else append_int n dest)"

definition pad_uint :: "u64 \<Rightarrow> nat \<Rightarrow> writer" where
  "pad_uint n width dest =
     append_uint n (dest @ replicate (width - do_count_digits64 (unat n)) (CHR ''0''))"

definition pad3 :: "u32 \<Rightarrow> writer" where
  "pad3 n dest =
     (if n < 1000 then
        (let n' = n mod 100
         in write_str [digit (unat (n div 100)), digit (unat (n' div 10)), digit (unat (n' mod 10))] dest)
      else append_uint n dest)"

definition pad6 :: "u64 \<Rightarrow> writer" where
  "pad6 n = pad_uint n 6"

definition pad9 :: "u64 \<Rightarrow> writer" where
  "pad9 n = pad_uint n 9"

text \<open>The part of a second, in units of the given number of nanoseconds.\<close>

definition to_secs :: "int \<Rightarrow> int" where
  "to_secs tp = tp sdiv 1000000000"

definition time_fraction :: "int \<Rightarrow> int \<Rightarrow> int" where
  "time_fraction unit tp = tp sdiv unit - to_secs tp * (1000000000 sdiv unit)"

section \<open>Padding\<close>

datatype pad_side = pad_left | pad_right | pad_center

record padding_info =
  pi_width :: nat
  pi_side :: pad_side
  pi_truncate :: bool
  pi_enabled :: bool

definition padding_info_default :: padding_info where
  "padding_info_default = \<lparr>pi_width = 0, pi_side = pad_left, pi_truncate = False, pi_enabled = False\<rparr>"

definition padding_info_new :: "nat \<Rightarrow> pad_side \<Rightarrow> bool \<Rightarrow> padding_info" where
  "padding_info_new width side trunc =
     \<lparr>pi_width = width, pi_side = side, pi_truncate = trunc, pi_enabled = True\<rparr>"

text \<open>The spaces come from a string of 64; more would be read beyond its end.\<close>

definition pad_it :: "int \<Rightarrow> writer" where
  "pad_it n dest = guard_run Out_of_bounds (n \<le> 64) (Inr (dest @ replicate (nat n) (CHR '' '')))"

definition scoped_padder_ctor :: "padding_info \<Rightarrow> nat \<Rightarrow> string \<Rightarrow> (int \<times> string) run" where
  "scoped_padder_ctor padinfo wrapped_size dest =
     (let remaining_pad = int (pi_width padinfo) - int wrapped_size
      in if remaining_pad \<le> 0 then Inr (remaining_pad, dest)
         else (case pi_side padinfo of
                 pad_left \<Rightarrow> bind_run (pad_it remaining_pad dest) (\<lambda>d. Inr (0, d))
               | pad_center \<Rightarrow>
                   (let half_pad = remaining_pad div 2; reminder = remaining_pad mod 2
                    in bind_run (pad_it half_pad dest) (\<lambda>d. Inr (half_pad + reminder, d)))
               | pad_right \<Rightarrow> Inr (remaining_pad, dest)))"

text \<open>A negative new size is cast to a huge one, which cannot be allocated, in a destructor.\<close>

definition scoped_padder_dtor :: "padding_info \<Rightarrow> int \<Rightarrow> writer" where
  "scoped_padder_dtor padinfo remaining_pad dest =
     (if remaining_pad \<ge> 0 then pad_it remaining_pad dest
      else if pi_truncate padinfo then
        (let new_size = int (length dest) + remaining_pad
         in guard_run (Uncaught (Runtime_error ''bad_alloc'')) (0 \<le> new_size) (Inr (take (nat new_size) dest)))
      else Inr dest)"

text \<open>
  A field under a padder: the scoped one if the padding is enabled, else the one that does
  nothing. The size of what is written is announced before it is written.
\<close>

definition padded :: "padding_info \<Rightarrow> nat \<Rightarrow> writer \<Rightarrow> writer" where
  "padded padinfo wrapped_size body dest =
     (if pi_enabled padinfo then
        bind_run (scoped_padder_ctor padinfo wrapped_size dest) (\<lambda>(remaining_pad, d).
        bind_run (body d) (scoped_padder_dtor padinfo remaining_pad))
      else body dest)"

definition padder_count_digits64 :: "padding_info \<Rightarrow> u64 \<Rightarrow> nat" where
  "padder_count_digits64 padinfo n = (if pi_enabled padinfo then do_count_digits64 (unat n) else 0)"

definition padder_count_digits32 :: "padding_info \<Rightarrow> u32 \<Rightarrow> nat" where
  "padder_count_digits32 padinfo n = (if pi_enabled padinfo then unat (do_count_digits32 n) else 0)"

section \<open>The formatters of one flag each\<close>

definition name_formatter :: "padding_info \<Rightarrow> log_msg \<Rightarrow> writer" where
  "name_formatter padinfo msg = padded padinfo (length (lm_logger_name msg)) (write_str (lm_logger_name msg))"

definition level_formatter :: "padding_info \<Rightarrow> log_msg \<Rightarrow> writer" where
  "level_formatter padinfo msg =
     (let level_name = to_string_view (lm_level msg)
      in padded padinfo (length level_name) (write_str level_name))"

definition short_level_formatter :: "padding_info \<Rightarrow> log_msg \<Rightarrow> writer" where
  "short_level_formatter padinfo msg =
     (let level_name = to_short_c_str (lm_level msg)
      in padded padinfo (length level_name) (write_str level_name))"

definition ampm :: "tm \<Rightarrow> string" where
  "ampm t = (if tm_hour t \<ge> 12 then ''PM'' else ''AM'')"

definition to12h :: "tm \<Rightarrow> int" where
  "to12h t = (if tm_hour t > 12 then tm_hour t - 12 else tm_hour t)"

definition days :: "string list" where
  "days = [''Sun'', ''Mon'', ''Tue'', ''Wed'', ''Thu'', ''Fri'', ''Sat'']"

definition full_days :: "string list" where
  "full_days = [''Sunday'', ''Monday'', ''Tuesday'', ''Wednesday'', ''Thursday'', ''Friday'', ''Saturday'']"

definition months :: "string list" where
  "months = [''Jan'', ''Feb'', ''Mar'', ''Apr'', ''May'', ''Jun'', ''Jul'', ''Aug'', ''Sept'', ''Oct'', ''Nov'', ''Dec'']"

definition full_months :: "string list" where
  "full_months = [''January'', ''February'', ''March'', ''April'', ''May'', ''June'', ''July'', ''August'',
     ''September'', ''October'', ''November'', ''December'']"

definition field_value_formatter :: "string list \<Rightarrow> int \<Rightarrow> padding_info \<Rightarrow> writer" where
  "field_value_formatter names i padinfo dest =
     bind_run (c_index names i) (\<lambda>field_value. padded padinfo (length field_value) (write_str field_value) dest)"

definition a_formatter :: "padding_info \<Rightarrow> tm \<Rightarrow> writer" where
  "a_formatter padinfo tm_time = field_value_formatter days (tm_wday tm_time) padinfo"

definition A_formatter :: "padding_info \<Rightarrow> tm \<Rightarrow> writer" where
  "A_formatter padinfo tm_time = field_value_formatter full_days (tm_wday tm_time) padinfo"

definition b_formatter :: "padding_info \<Rightarrow> tm \<Rightarrow> writer" where
  "b_formatter padinfo tm_time = field_value_formatter months (tm_mon tm_time) padinfo"

definition B_formatter :: "padding_info \<Rightarrow> tm \<Rightarrow> writer" where
  "B_formatter padinfo tm_time = field_value_formatter full_months (tm_mon tm_time) padinfo"

definition c_formatter :: "padding_info \<Rightarrow> tm \<Rightarrow> writer" where
  "c_formatter padinfo tm_time =
     padded padinfo 24 (writes
       [write_nth days (tm_wday tm_time), write_str '' '', write_nth months (tm_mon tm_time), write_str '' '',
        append_int (tm_mday tm_time), write_str '' '',
        pad2 (tm_hour tm_time), write_str '':'', pad2 (tm_min tm_time), write_str '':'', pad2 (tm_sec tm_time),
        write_str '' '', append_int (tm_year tm_time + 1900)])"

definition C_formatter :: "padding_info \<Rightarrow> tm \<Rightarrow> writer" where
  "C_formatter padinfo tm_time = padded padinfo 2 (pad2 (tm_year tm_time smod 100))"

definition D_formatter :: "padding_info \<Rightarrow> tm \<Rightarrow> writer" where
  "D_formatter padinfo tm_time =
     padded padinfo 10 (writes
       [pad2 (tm_mon tm_time + 1), write_str ''/'', pad2 (tm_mday tm_time), write_str ''/'',
        pad2 (tm_year tm_time smod 100)])"

definition Y_formatter :: "padding_info \<Rightarrow> tm \<Rightarrow> writer" where
  "Y_formatter padinfo tm_time = padded padinfo 4 (append_int (tm_year tm_time + 1900))"

definition m_formatter :: "padding_info \<Rightarrow> tm \<Rightarrow> writer" where
  "m_formatter padinfo tm_time = padded padinfo 2 (pad2 (tm_mon tm_time + 1))"

definition d_formatter :: "padding_info \<Rightarrow> tm \<Rightarrow> writer" where
  "d_formatter padinfo tm_time = padded padinfo 2 (pad2 (tm_mday tm_time))"

definition H_formatter :: "padding_info \<Rightarrow> tm \<Rightarrow> writer" where
  "H_formatter padinfo tm_time = padded padinfo 2 (pad2 (tm_hour tm_time))"

definition I_formatter :: "padding_info \<Rightarrow> tm \<Rightarrow> writer" where
  "I_formatter padinfo tm_time = padded padinfo 2 (pad2 (to12h tm_time))"

definition M_formatter :: "padding_info \<Rightarrow> tm \<Rightarrow> writer" where
  "M_formatter padinfo tm_time = padded padinfo 2 (pad2 (tm_min tm_time))"

definition S_formatter :: "padding_info \<Rightarrow> tm \<Rightarrow> writer" where
  "S_formatter padinfo tm_time = padded padinfo 2 (pad2 (tm_sec tm_time))"

definition e_formatter :: "padding_info \<Rightarrow> log_msg \<Rightarrow> writer" where
  "e_formatter padinfo msg = padded padinfo 3 (pad3 (word_of_int (time_fraction 1000000 (lm_time msg))))"

definition f_formatter :: "padding_info \<Rightarrow> log_msg \<Rightarrow> writer" where
  "f_formatter padinfo msg = padded padinfo 6 (pad6 (word_of_int (time_fraction 1000 (lm_time msg))))"

definition F_formatter :: "padding_info \<Rightarrow> log_msg \<Rightarrow> writer" where
  "F_formatter padinfo msg = padded padinfo 9 (pad9 (word_of_int (time_fraction 1 (lm_time msg))))"

definition E_formatter :: "padding_info \<Rightarrow> log_msg \<Rightarrow> writer" where
  "E_formatter padinfo msg = padded padinfo 10 (append_int (to_secs (lm_time msg)))"

definition p_formatter :: "padding_info \<Rightarrow> tm \<Rightarrow> writer" where
  "p_formatter padinfo tm_time = padded padinfo 2 (write_str (ampm tm_time))"

definition r_formatter :: "padding_info \<Rightarrow> tm \<Rightarrow> writer" where
  "r_formatter padinfo tm_time =
     padded padinfo 11 (writes
       [pad2 (to12h tm_time), write_str '':'', pad2 (tm_min tm_time), write_str '':'', pad2 (tm_sec tm_time),
        write_str '' '', write_str (ampm tm_time)])"

definition R_formatter :: "padding_info \<Rightarrow> tm \<Rightarrow> writer" where
  "R_formatter padinfo tm_time =
     padded padinfo 5 (writes [pad2 (tm_hour tm_time), write_str '':'', pad2 (tm_min tm_time)])"

definition T_formatter :: "padding_info \<Rightarrow> tm \<Rightarrow> writer" where
  "T_formatter padinfo tm_time =
     padded padinfo 8 (writes
       [pad2 (tm_hour tm_time), write_str '':'', pad2 (tm_min tm_time), write_str '':'', pad2 (tm_sec tm_time)])"

text \<open>The offset from UTC is looked up again after ten seconds.\<close>

definition get_cached_offset :: "log_msg \<Rightarrow> tm \<Rightarrow> int \<times> int \<Rightarrow> int \<times> int" where
  "get_cached_offset msg tm_time = (\<lambda>(last_update, offset_minutes).
     if lm_time msg - last_update \<ge> 10 * 1000000000 then (lm_time msg, utc_minutes_offset tm_time)
     else (last_update, offset_minutes))"

definition z_formatter :: "padding_info \<Rightarrow> int \<Rightarrow> writer" where
  "z_formatter padinfo offset =
     (let total_minutes = \<bar>offset\<bar>
      in padded padinfo 6 (writes
           [write_str (if offset < 0 then ''-'' else ''+''), pad2 (total_minutes sdiv 60), write_str '':'',
            pad2 (total_minutes smod 60)]))"

definition t_formatter :: "padding_info \<Rightarrow> log_msg \<Rightarrow> writer" where
  "t_formatter padinfo msg =
     padded padinfo (padder_count_digits64 padinfo (lm_thread_id msg)) (append_uint (lm_thread_id msg))"

definition pid_formatter :: "padding_info \<Rightarrow> u32 \<Rightarrow> writer" where
  "pid_formatter padinfo pid = padded padinfo (padder_count_digits32 padinfo pid) (append_uint pid)"

definition v_formatter :: "padding_info \<Rightarrow> log_msg \<Rightarrow> writer" where
  "v_formatter padinfo msg = padded padinfo (length (lm_payload msg)) (write_str (lm_payload msg))"

definition source_location_formatter :: "padding_info \<Rightarrow> log_msg \<Rightarrow> writer" where
  "source_location_formatter padinfo msg =
     (if source_empty (lm_source msg) then padded padinfo 0 (write_str [])
      else
        (let filename = sl_filename (lm_source msg); line = sl_line (lm_source msg);
             text_size = (if pi_enabled padinfo
                          then length filename + padder_count_digits32 padinfo (word_of_int line) + 1 else 0)
         in padded padinfo text_size (writes [write_str filename, write_str '':'', append_int line])))"

definition source_filename_formatter :: "padding_info \<Rightarrow> log_msg \<Rightarrow> writer" where
  "source_filename_formatter padinfo msg =
     (if source_empty (lm_source msg) then padded padinfo 0 (write_str [])
      else
        (let filename = sl_filename (lm_source msg);
             text_size = (if pi_enabled padinfo then length filename else 0)
         in padded padinfo text_size (write_str filename)))"

text \<open>The part after the last folder separator.\<close>

definition basename :: "string \<Rightarrow> string" where
  "basename filename = rev (takeWhile (\<lambda>c. c \<noteq> CHR ''/'') (rev filename))"

definition short_filename_formatter :: "padding_info \<Rightarrow> log_msg \<Rightarrow> writer" where
  "short_filename_formatter padinfo msg =
     (if source_empty (lm_source msg) then padded padinfo 0 (write_str [])
      else
        (let filename = basename (sl_filename (lm_source msg));
             text_size = (if pi_enabled padinfo then length filename else 0)
         in padded padinfo text_size (write_str filename)))"

definition source_linenum_formatter :: "padding_info \<Rightarrow> log_msg \<Rightarrow> writer" where
  "source_linenum_formatter padinfo msg =
     (if source_empty (lm_source msg) then padded padinfo 0 (write_str [])
      else
        (let line = sl_line (lm_source msg); field_size = padder_count_digits32 padinfo (word_of_int line)
         in padded padinfo field_size (append_int line)))"

definition source_funcname_formatter :: "padding_info \<Rightarrow> log_msg \<Rightarrow> writer" where
  "source_funcname_formatter padinfo msg =
     (if source_empty (lm_source msg) then padded padinfo 0 (write_str [])
      else
        (let funcname = sl_funcname (lm_source msg);
             text_size = (if pi_enabled padinfo then length funcname else 0)
         in padded padinfo text_size (write_str funcname)))"

text \<open>The time since the last message, in units of the given number of nanoseconds.\<close>

definition elapsed_formatter :: "padding_info \<Rightarrow> int \<Rightarrow> int \<Rightarrow> log_msg \<Rightarrow> writer" where
  "elapsed_formatter padinfo unit last_message_time msg =
     (let delta = max (lm_time msg - last_message_time) 0;
          delta_count = (word_of_int (delta sdiv unit) :: u64);
          n_digits = padder_count_digits64 padinfo delta_count
      in padded padinfo n_digits (append_uint delta_count))"

text \<open>Every entry is padded on its own; all but the last are followed by a space.\<close>

fun format_mdc :: "padding_info \<Rightarrow> (string \<times> string) list \<Rightarrow> writer" where
  "format_mdc padinfo [] dest = Inr dest"
| "format_mdc padinfo ((key, val) # rest) dest =
     (let content_size = length key + length val + 1 + (if rest \<noteq> [] then 1 else 0)
      in bind_run
           (padded padinfo content_size (writes
              ([write_str key, write_str '':'', write_str val] @ (if rest \<noteq> [] then [write_str '' ''] else []))) dest)
           (format_mdc padinfo rest))"

definition mdc_formatter :: "padding_info \<Rightarrow> (string \<times> string) list \<Rightarrow> writer" where
  "mdc_formatter padinfo mdc_map =
     (if mdc_map = [] then padded padinfo 0 (write_str []) else format_mdc padinfo mdc_map)"

section \<open>The default formatter\<close>

definition datetime_writer :: "tm \<Rightarrow> writer" where
  "datetime_writer tm_time = writes
     [write_str ''['', append_int (tm_year tm_time + 1900), write_str ''-'', pad2 (tm_mon tm_time + 1), write_str ''-'',
      pad2 (tm_mday tm_time), write_str '' '', pad2 (tm_hour tm_time), write_str '':'', pad2 (tm_min tm_time),
      write_str '':'', pad2 (tm_sec tm_time), write_str ''.'']"

text \<open>The date and time are written again only when the second changes.\<close>

definition refresh_datetime :: "log_msg \<Rightarrow> tm \<Rightarrow> int \<times> string \<Rightarrow> (int \<times> string) run" where
  "refresh_datetime msg tm_time = (\<lambda>(cache_timestamp, cached_datetime).
     let secs = to_secs (lm_time msg)
     in if cache_timestamp \<noteq> secs \<or> cached_datetime = [] then
          bind_run (datetime_writer tm_time []) (\<lambda>s. Inr (secs, s))
        else Inr (cache_timestamp, cached_datetime))"

definition full_formatter ::
    "(string \<times> string) list \<Rightarrow> log_msg \<Rightarrow> tm \<Rightarrow> int \<times> string \<Rightarrow> string \<Rightarrow> ((int \<times> string) \<times> log_msg \<times> string) run" where
  "full_formatter mdc_map msg tm_time cache dest =
     bind_run (refresh_datetime msg tm_time cache) (\<lambda>cache'.
     bind_run (writes
       ([write_str (snd cache'), pad3 (word_of_int (time_fraction 1000000 (lm_time msg))), write_str ''] ''] @
        (if lm_logger_name msg \<noteq> [] then [write_str ''['', write_str (lm_logger_name msg), write_str ''] ''] else []) @
        [write_str ''['']) dest) (\<lambda>d1.
     bind_run (write_str (to_string_view (lm_level msg)) d1) (\<lambda>d2.
     let msg' = msg\<lparr>lm_color_range_start := length d1, lm_color_range_end := length d2\<rparr>
     in bind_run (writes
          ([write_str ''] ''] @
           (if \<not> source_empty (lm_source msg) then
              [write_str ''['', write_str (basename (sl_filename (lm_source msg))), write_str '':'',
               append_int (sl_line (lm_source msg)), write_str ''] ''] else []) @
           (if mdc_map \<noteq> [] then
              [write_str ''['', format_mdc padding_info_default mdc_map, write_str ''] ''] else []) @
           [write_str (lm_payload msg)]) d2) (\<lambda>d3.
        Inr (cache', msg', d3)))))"

section \<open>Facts about writers\<close>

text \<open>A writer that always succeeds and appends the same text.\<close>

definition appends :: "writer \<Rightarrow> string \<Rightarrow> bool" where
  "appends w s \<longleftrightarrow> (\<forall>d. w d = Inr (d @ s))"

named_theorems writer_intros \<open>what a writer appends\<close>

lemma appendsD: "appends w s \<Longrightarrow> w d = Inr (d @ s)"
  by (simp add: appends_def)

lemma appends_str [writer_intros]: "appends (write_str s) s"
  by (simp add: appends_def write_str_def)

lemma appends_Nil [writer_intros]: "appends (writes []) []"
  by (simp add: appends_def)

lemma appends_Cons [writer_intros]: "appends w s \<Longrightarrow> appends (writes ws) t \<Longrightarrow> appends (writes (w # ws)) (s @ t)"
  by (simp add: appends_def)

lemma writes_append: "writes (ws @ ws') d = bind_run (writes ws d) (writes ws')"
proof (induction ws arbitrary: d)
  case (Cons w ws)
  then show ?case by (cases "w d") simp_all
qed simp

lemma appends_append: "appends (writes ws) s \<Longrightarrow> appends (writes ws') t \<Longrightarrow> appends (writes (ws @ ws')) (s @ t)"
  by (simp add: appends_def writes_append)

lemma appends_nth: "0 \<le> i \<Longrightarrow> i < int (length xs) \<Longrightarrow> appends (write_nth xs i) (xs ! nat i)"
  by (simp add: appends_def write_nth_def c_index_def write_str_def)

definition int_text :: "int \<Rightarrow> string" where
  "int_text n = (if n < 0 then CHR ''-'' # decimal (nat (- n)) else decimal (nat n))"

lemma format_signed_int:
  assumes "- (2 ^ 63) \<le> n" and "n < 2 ^ 63"
  shows "\<exists>out. format_signed (word_of_int n :: u64) = Inr (out, int_text n)"
proof -
  have "sint (word_of_int n :: u64) = n"
    using assms by (simp add: signed_of_int signed_take_bit_int_eq_self)
  with format_signed_text [of "word_of_int n"] show ?thesis unfolding int_text_def by metis
qed

lemma appends_int: "- (2 ^ 63) \<le> n \<Longrightarrow> n < 2 ^ 63 \<Longrightarrow> appends (append_int n) (int_text n)"
  using format_signed_int [of n] by (auto simp: appends_def append_int_def write_str_def)

lemma appends_uint: "unat n < 2 ^ 64 \<Longrightarrow> appends (append_uint n) (decimal (unat n))"
  by (simp add: appends_def append_uint_def format_unsigned_eq write_str_def)

definition two_digits :: "int \<Rightarrow> string" where
  "two_digits n = [digit (nat n div 10), digit (nat n mod 10)]"

lemma appends_pad2: "0 \<le> n \<Longrightarrow> n < 100 \<Longrightarrow> appends (pad2 n) (two_digits n)"
  by (simp add: appends_def pad2_def write_str_def two_digits_def)

definition three_digits :: "int \<Rightarrow> string" where
  "three_digits n = [digit (nat n div 100), digit (nat n mod 100 div 10), digit (nat n mod 100 mod 10)]"

lemma appends_pad3:
  assumes "0 \<le> n" and "n < 1000"
  shows "appends (pad3 (word_of_int n)) (three_digits n)"
proof -
  let ?w = "word_of_int n :: u32"
  have u: "unat ?w = nat n" using assms by (simp add: unat_eq_nat_uint uint_word_of_int)
  then have "?w < 1000" using assms by (simp add: word_less_nat_alt)
  then show ?thesis
    using u by (simp add: appends_def pad3_def write_str_def three_digits_def unat_div unat_mod Let_def)
qed

lemma millis_range: "0 \<le> t \<Longrightarrow> 0 \<le> time_fraction 1000000 t \<and> time_fraction 1000000 t < 1000"
proof -
  assume t: "0 \<le> t"
  have "t div 1000000 div 1000 = t div 1000000000" by (simp add: zdiv_zmult2_eq [symmetric])
  then have "time_fraction 1000000 t = t div 1000000 mod 1000"
    using t by (cases "t = 0") (simp_all add: time_fraction_def to_secs_def signed_divide_int_def
        minus_mult_div_eq_mod [symmetric])
  then show ?thesis by simp
qed

section \<open>Padding\<close>

text \<open>What a field looks like: filled up with spaces, or cut, to the width.\<close>

definition spaces :: "nat \<Rightarrow> string" where
  "spaces n = replicate n (CHR '' '')"

definition pad_text :: "padding_info \<Rightarrow> string \<Rightarrow> string" where
  "pad_text p s =
     (if \<not> pi_enabled p then s
      else if length s \<le> pi_width p then
        (let r = pi_width p - length s
         in case pi_side p of
              pad_left \<Rightarrow> spaces r @ s
            | pad_right \<Rightarrow> s @ spaces r
            | pad_center \<Rightarrow> spaces (r div 2) @ s @ spaces (r - r div 2))
      else if pi_truncate p then take (pi_width p) s
      else s)"

lemma appends_padded:
  assumes "appends w s" and "pi_width p \<le> 64"
  shows "appends (padded p (length s) w) (pad_text p s)"
proof (cases "pi_enabled p")
  case True
  define r where "r = pi_width p - length s"
  show ?thesis
  proof (cases "length s < pi_width p")
    case less: True
    then have r: "int (pi_width p) - int (length s) = int r" "0 < r" "r \<le> 64" using assms(2) by (simp_all add: r_def)
    define h where h: "h = r div 2"
    define k where k: "k = r - h"
    have "int r div 2 = int h" "h \<le> 64" "k \<le> 64" using r(3) by (simp_all add: h k zdiv_int)
    moreover have "int r mod 2 = int k - int h" unfolding k h by presburger
    ultimately have half: "int r div 2 = int h" "int r mod 2 = int k - int h" "h \<le> 64" "k \<le> 64" by blast+
    show ?thesis
      using True less appendsD [OF assms(1)] r half
      by (auto simp: appends_def padded_def pad_text_def scoped_padder_ctor_def scoped_padder_dtor_def pad_it_def
          spaces_def Let_def r_def [symmetric] h [symmetric] k [symmetric] split: pad_side.split)
  next
    case False
    then show ?thesis
      using True appendsD [OF assms(1)]
      by (auto simp: appends_def padded_def pad_text_def scoped_padder_ctor_def scoped_padder_dtor_def pad_it_def
          spaces_def Let_def nat_add_distrib nat_diff_distrib split: pad_side.split)
  qed
qed (use assms(1) in \<open>simp add: appends_def padded_def pad_text_def\<close>)

lemma length_pad_text:
  "length (pad_text p s) =
     (if \<not> pi_enabled p then length s else if pi_truncate p then pi_width p else max (pi_width p) (length s))"
  by (auto simp: pad_text_def spaces_def Let_def split: pad_side.split)

lemma appends_padded_enabled:
  assumes "appends w s" and "pi_width p \<le> 64" and "pi_enabled p \<Longrightarrow> n = length s"
  shows "appends (padded p n w) (pad_text p s)"
  using appends_padded [OF assms(1,2)] assms(1,3)
  by (cases "pi_enabled p") (simp_all add: appends_def padded_def pad_text_def)

lemma u64_less: "unat (n :: u64) < 2 ^ 64" "unat (k :: u32) < 2 ^ 64"
  using unsigned_less [of n, where ?'a = nat] unsigned_less [of k, where ?'a = nat] by simp_all

lemma formatter_texts:
  assumes "pi_width p \<le> 64"
  shows "appends (name_formatter p msg) (pad_text p (lm_logger_name msg))"
    and "appends (level_formatter p msg) (pad_text p (to_string_view (lm_level msg)))"
    and "appends (short_level_formatter p msg) (pad_text p (to_short_c_str (lm_level msg)))"
    and "appends (v_formatter p msg) (pad_text p (lm_payload msg))"
    and "appends (t_formatter p msg) (pad_text p (decimal (unat (lm_thread_id msg))))"
    and "appends (pid_formatter p pid) (pad_text p (decimal (unat pid)))"
proof -
  show "appends (name_formatter p msg) (pad_text p (lm_logger_name msg))"
    and "appends (level_formatter p msg) (pad_text p (to_string_view (lm_level msg)))"
    and "appends (short_level_formatter p msg) (pad_text p (to_short_c_str (lm_level msg)))"
    and "appends (v_formatter p msg) (pad_text p (lm_payload msg))"
    unfolding name_formatter_def level_formatter_def short_level_formatter_def v_formatter_def Let_def
    by (rule appends_padded [OF appends_str assms])+
  show "appends (t_formatter p msg) (pad_text p (decimal (unat (lm_thread_id msg))))"
    unfolding t_formatter_def
    by (rule appends_padded_enabled [OF appends_uint [OF u64_less(1)] assms])
       (simp add: padder_count_digits64_def do_count_digits64_eq [OF u64_less(1)])
  show "appends (pid_formatter p pid) (pad_text p (decimal (unat pid)))"
    unfolding pid_formatter_def
    by (rule appends_padded_enabled [OF appends_uint [OF u64_less(2)] assms])
       (simp add: padder_count_digits32_def do_count_digits32_eq)
qed

section \<open>Properties\<close>

text \<open>
  With a width of at most 64 every one-field formatter succeeds whatever the
  message, and appends exactly its text under the padding: at least the width, exactly
  the width when the pattern asks for truncation, with the spaces on the side that was
  asked for. The text of a number is its decimal notation.
\<close>

theorem padded_fields:
  assumes "pi_width p \<le> 64"
  shows "name_formatter p msg dest = Inr (dest @ pad_text p (lm_logger_name msg)) \<and>
    level_formatter p msg dest = Inr (dest @ pad_text p (to_string_view (lm_level msg))) \<and>
    short_level_formatter p msg dest = Inr (dest @ pad_text p (to_short_c_str (lm_level msg))) \<and>
    v_formatter p msg dest = Inr (dest @ pad_text p (lm_payload msg)) \<and>
    t_formatter p msg dest = Inr (dest @ pad_text p (decimal (unat (lm_thread_id msg)))) \<and>
    pid_formatter p pid dest = Inr (dest @ pad_text p (decimal (unat pid))) \<and>
    length (pad_text p s) = (if \<not> pi_enabled p then length s else if pi_truncate p then pi_width p
                             else max (pi_width p) (length s))"
  using formatter_texts [OF assms] by (simp add: appends_def length_pad_text)

theorem padded_fields_witness:
  "level_formatter (padding_info_new 8 pad_center False)
     (log_msg_new 0 1 source_loc_new ''default'' level_info ''hello'') ''['' = Inr ''[  info  ''"
proof -
  let ?p = "padding_info_new 8 pad_center False"
    and ?msg = "log_msg_new 0 1 source_loc_new ''default'' level_info ''hello''"
  have w: "pi_width ?p \<le> 64" by (simp add: padding_info_new_def)
  have two: "spaces 2 = ''  ''" by (simp add: spaces_def numeral_2_eq_2)
  have "pad_text ?p (to_string_view (lm_level ?msg)) = ''  info  ''"
    by (simp add: padding_info_new_def pad_text_def log_msg_new_def to_string_view_def level_string_views_def two)
  then show ?thesis using padded_fields [OF w, of ?msg "''[''"] by simp
qed

lemma from_str_to_string_view: "from_str (to_string_view l) = l"
  by (cases l) (simp_all add: from_str_def to_string_view_def level_string_views_def levels_def)

end
