(* ===== verification/Spd_Backtrace.thy ===== *)
theory Spd_Backtrace
  imports Spd_Format
begin

text \<open>
  The backtrace of a \<^verbatim>\<open>spdlog\<close> logger: \<^verbatim>\<open>circular_q\<close>, a queue in a fixed vector that overruns
  its oldest item when it is full, and \<^verbatim>\<open>backtracer\<close>, which keeps the last messages in one.
  The queue implements the contract of a bounded list, the locale \<open>bounded_queue\<close>.
\<close>

section \<open>Class circular\_q\<close>

text \<open>One item of the vector is reserved, so a queue of size 0 is disabled by \<^verbatim>\<open>max_items_\<close> 0 only.\<close>

record 'a circular_q =
  cq_max_items :: nat
  cq_head :: nat
  cq_tail :: nat
  cq_overrun_counter :: u64
  cq_v :: "'a list"

definition circular_q_default :: "'a circular_q" where
  "circular_q_default = \<lparr>cq_max_items = 0, cq_head = 0, cq_tail = 0, cq_overrun_counter = 0, cq_v = []\<rparr>"

definition circular_q_new :: "'a \<Rightarrow> u64 \<Rightarrow> 'a circular_q" where
  "circular_q_new default_item max_items =
     \<lparr>cq_max_items = unat (max_items + 1), cq_head = 0, cq_tail = 0, cq_overrun_counter = 0,
      cq_v = replicate (unat (max_items + 1)) default_item\<rparr>"

definition cq_push_back :: "'a \<Rightarrow> 'a circular_q \<Rightarrow> 'a circular_q run" where
  "cq_push_back item q =
     (if cq_max_items q > 0 then
        guard_run Out_of_bounds (cq_tail q < length (cq_v q))
          (let q1 = q\<lparr>cq_v := (cq_v q)[cq_tail q := item], cq_tail := (cq_tail q + 1) mod cq_max_items q\<rparr>
           in Inr (if cq_tail q1 = cq_head q1
                   then q1\<lparr>cq_head := (cq_head q1 + 1) mod cq_max_items q1,
                           cq_overrun_counter := cq_overrun_counter q1 + 1\<rparr>
                   else q1))
      else Inr q)"

definition cq_item :: "'a circular_q \<Rightarrow> nat \<Rightarrow> 'a run" where
  "cq_item q i = guard_run Out_of_bounds (i < length (cq_v q)) (Inr (cq_v q ! i))"

definition cq_front :: "'a circular_q \<Rightarrow> 'a run" where
  "cq_front q = cq_item q (cq_head q)"

definition cq_size :: "'a circular_q \<Rightarrow> nat" where
  "cq_size q = (if cq_tail q \<ge> cq_head q then cq_tail q - cq_head q else cq_max_items q - (cq_head q - cq_tail q))"

definition cq_at :: "'a circular_q \<Rightarrow> nat \<Rightarrow> 'a run" where
  "cq_at q i =
     guard_run Div_by_zero (cq_max_items q \<noteq> 0) (cq_item q ((cq_head q + i) mod cq_max_items q))"

definition cq_pop_front :: "'a circular_q \<Rightarrow> 'a circular_q run" where
  "cq_pop_front q =
     guard_run Div_by_zero (cq_max_items q \<noteq> 0) (Inr (q\<lparr>cq_head := (cq_head q + 1) mod cq_max_items q\<rparr>))"

definition cq_empty :: "'a circular_q \<Rightarrow> bool" where
  "cq_empty q \<longleftrightarrow> cq_tail q = cq_head q"

definition cq_full :: "'a circular_q \<Rightarrow> bool" where
  "cq_full q \<longleftrightarrow> cq_max_items q > 0 \<and> (cq_tail q + 1) mod cq_max_items q = cq_head q"

definition cq_reset_overrun_counter :: "'a circular_q \<Rightarrow> 'a circular_q" where
  "cq_reset_overrun_counter q = q\<lparr>cq_overrun_counter := 0\<rparr>"

text \<open>Moving: the target takes the contents, the other queue is left disabled.\<close>

definition copy_moveable :: "'a circular_q \<Rightarrow> 'a circular_q \<times> 'a circular_q" where
  "copy_moveable other = (other, circular_q_default)"

section \<open>Class log\_msg\_buffer\<close>

text \<open>A message that owns its texts: they are copied into a buffer, and the views look into it.\<close>

record log_msg_buffer =
  lmb_msg :: log_msg
  lmb_buffer :: string

definition update_string_views :: "log_msg_buffer \<Rightarrow> log_msg_buffer" where
  "update_string_views b =
     (let m = lmb_msg b;
          name_size = length (lm_logger_name m);
          payload_size = length (lm_payload m)
      in b\<lparr>lmb_msg := m\<lparr>lm_logger_name := take name_size (lmb_buffer b),
                         lm_payload := take payload_size (drop name_size (lmb_buffer b))\<rparr>\<rparr>)"

definition log_msg_buffer_new :: "log_msg \<Rightarrow> log_msg_buffer" where
  "log_msg_buffer_new orig_msg =
     update_string_views \<lparr>lmb_msg = orig_msg, lmb_buffer = lm_logger_name orig_msg @ lm_payload orig_msg\<rparr>"

definition log_msg_buffer_copy :: "log_msg_buffer \<Rightarrow> log_msg_buffer" where
  "log_msg_buffer_copy other =
     update_string_views \<lparr>lmb_msg = lmb_msg other,
       lmb_buffer = lm_logger_name (lmb_msg other) @ lm_payload (lmb_msg other)\<rparr>"

definition log_msg_default :: log_msg where
  "log_msg_default = log_msg_new 0 0 source_loc_new [] level_off []"

section \<open>Class backtracer\<close>

record backtracer =
  bt_enabled :: bool
  bt_messages :: "log_msg_buffer circular_q"

definition backtracer_new :: backtracer where
  "backtracer_new = \<lparr>bt_enabled = False, bt_messages = circular_q_default\<rparr>"

definition backtracer_copy :: "backtracer \<Rightarrow> backtracer" where
  "backtracer_copy other = \<lparr>bt_enabled = bt_enabled other, bt_messages = bt_messages other\<rparr>"

definition backtracer_move :: "backtracer \<Rightarrow> backtracer \<times> backtracer" where
  "backtracer_move other =
     (case copy_moveable (bt_messages other) of
        (mine, theirs) \<Rightarrow> (\<lparr>bt_enabled = bt_enabled other, bt_messages = mine\<rparr>, other\<lparr>bt_messages := theirs\<rparr>))"

definition bt_enable :: "u64 \<Rightarrow> backtracer \<Rightarrow> backtracer" where
  "bt_enable n bt =
     bt\<lparr>bt_enabled := True, bt_messages := circular_q_new (log_msg_buffer_new log_msg_default) n\<rparr>"

definition bt_disable :: "backtracer \<Rightarrow> backtracer" where
  "bt_disable bt = bt\<lparr>bt_enabled := False\<rparr>"

definition bt_push_back :: "log_msg \<Rightarrow> backtracer \<Rightarrow> backtracer run" where
  "bt_push_back msg bt =
     bind_run (cq_push_back (log_msg_buffer_new msg) (bt_messages bt)) (\<lambda>q. Inr (bt\<lparr>bt_messages := q\<rparr>))"

definition bt_empty :: "backtracer \<Rightarrow> bool" where
  "bt_empty bt \<longleftrightarrow> cq_empty (bt_messages bt)"

text \<open>
  Popping everything, with a function that is applied to each message: a loop that could
  run for ever on a corrupt queue, so it has fuel; \<open>pop_loop_drains\<close> shows that one round per item
  and one more is enough.
\<close>

fun pop_loop ::
    "nat \<Rightarrow> (log_msg \<Rightarrow> 's \<Rightarrow> 's run) \<Rightarrow> log_msg_buffer circular_q \<Rightarrow> 's \<Rightarrow> (log_msg_buffer circular_q \<times> 's) run" where
  "pop_loop 0 fn q s = Inl Diverge"
| "pop_loop (Suc n) fn q s =
     (if cq_empty q then Inr (q, s)
      else bind_run (cq_front q) (\<lambda>front_msg.
           bind_run (fn (lmb_msg front_msg) s) (\<lambda>s'.
           bind_run (cq_pop_front q) (\<lambda>q'. pop_loop n fn q' s'))))"

definition foreach_pop :: "(log_msg \<Rightarrow> 's \<Rightarrow> 's run) \<Rightarrow> backtracer \<Rightarrow> 's \<Rightarrow> (backtracer \<times> 's) run" where
  "foreach_pop fn bt s =
     bind_run (pop_loop (Suc (cq_size (bt_messages bt))) fn (bt_messages bt) s) (\<lambda>(q, s').
     Inr (bt\<lparr>bt_messages := q\<rparr>, s'))"

section \<open>The contract: a bounded list\<close>

definition keep_last :: "nat \<Rightarrow> 'a list \<Rightarrow> 'a list" where
  "keep_last n xs = drop (length xs - n) xs"

lemma keep_last_length [simp]: "length (keep_last n xs) = min n (length xs)"
  by (simp add: keep_last_def min_def)

lemma keep_last_id: "length xs \<le> n \<Longrightarrow> keep_last n xs = xs"
  by (simp add: keep_last_def)

lemma keep_last_step: "keep_last n (keep_last n xs @ ys) = keep_last n (xs @ ys)"
  by (cases "n \<le> length xs") (simp_all add: keep_last_def ac_simps)

locale bounded_queue =
  fixes push :: "'a \<Rightarrow> 'q \<Rightarrow> 'q run"
    and pop :: "'q \<Rightarrow> 'q run"
    and front :: "'q \<Rightarrow> 'a run"
    and is_empty :: "'q \<Rightarrow> bool"
    and count_items :: "'q \<Rightarrow> nat"
    and capacity :: "'q \<Rightarrow> nat"
    and inv :: "'q \<Rightarrow> bool"
    and contents :: "'q \<Rightarrow> 'a list"
  assumes push_law: "inv q \<Longrightarrow> \<exists>q'. push x q = Inr q' \<and> inv q' \<and> capacity q' = capacity q \<and>
      contents q' = keep_last (capacity q) (contents q @ [x])"
    and pop_law: "inv q \<Longrightarrow> contents q \<noteq> [] \<Longrightarrow> \<exists>q'. pop q = Inr q' \<and> inv q' \<and> capacity q' = capacity q \<and>
      contents q' = tl (contents q)"
    and front_law: "inv q \<Longrightarrow> contents q \<noteq> [] \<Longrightarrow> front q = Inr (hd (contents q))"
    and empty_law: "inv q \<Longrightarrow> is_empty q \<longleftrightarrow> contents q = []"
    and count_law: "inv q \<Longrightarrow> count_items q = length (contents q)"
begin

fun push_all :: "'a list \<Rightarrow> 'q \<Rightarrow> 'q run" where
  "push_all [] q = Inr q"
| "push_all (x # xs) q = bind_run (push x q) (push_all xs)"

lemma push_all_keeps_last:
  assumes "inv q" and "length (contents q) \<le> capacity q"
  shows "\<exists>q'. push_all xs q = Inr q' \<and> inv q' \<and> capacity q' = capacity q \<and>
    contents q' = keep_last (capacity q) (contents q @ xs)"
  using assms
proof (induction xs arbitrary: q)
  case Nil
  then show ?case by (simp add: keep_last_id)
next
  case (Cons x xs)
  obtain q1 where q1: "push x q = Inr q1" "inv q1" "capacity q1 = capacity q"
      "contents q1 = keep_last (capacity q) (contents q @ [x])"
    using push_law [OF Cons.prems(1)] by blast
  moreover have "keep_last (capacity q) (contents q1 @ xs) = keep_last (capacity q) (contents q @ x # xs)"
    using q1(4) keep_last_step [of "capacity q" "contents q @ [x]" xs] by simp
  ultimately show ?case using Cons.IH [of q1] by simp
qed

end

section \<open>The circular queue is a bounded list\<close>

definition cq_inv :: "'a circular_q \<Rightarrow> bool" where
  "cq_inv q \<longleftrightarrow> (if cq_max_items q = 0 then cq_head q = 0 \<and> cq_tail q = 0
     else cq_head q < cq_max_items q \<and> cq_tail q < cq_max_items q \<and> length (cq_v q) = cq_max_items q)"

definition cq_contents :: "'a circular_q \<Rightarrow> 'a list" where
  "cq_contents q = map (\<lambda>i. cq_v q ! ((cq_head q + i) mod cq_max_items q)) [0..<cq_size q]"

definition cq_capacity :: "'a circular_q \<Rightarrow> nat" where
  "cq_capacity q = cq_max_items q - 1"

lemma wrap_add: "h < m \<Longrightarrow> i \<le> m \<Longrightarrow> (h + i) mod m = (if h + i < m then h + i else h + i - m)" for h m i :: nat
  by (simp add: mod_if)

lemma wrap_inj: "h < m \<Longrightarrow> i < m \<Longrightarrow> j < m \<Longrightarrow> (h + i) mod m = (h + j) mod m \<Longrightarrow> i = j" for h m i j :: nat
  by (simp add: wrap_add split: if_splits)

lemma cq_inv_size:
  assumes "cq_inv q" and "0 < cq_max_items q"
  shows "cq_size q < cq_max_items q" and "cq_tail q = (cq_head q + cq_size q) mod cq_max_items q"
  using assms by (auto simp: cq_inv_def cq_size_def wrap_add)

lemma cq_capacity_ge: "cq_inv q \<Longrightarrow> cq_size q \<le> cq_capacity q"
  using cq_inv_size(1) [of q] by (cases "cq_max_items q = 0") (auto simp: cq_inv_def cq_size_def cq_capacity_def)

lemma cq_contents_nth: "i < cq_size q \<Longrightarrow> cq_contents q ! i = cq_v q ! ((cq_head q + i) mod cq_max_items q)"
  by (simp add: cq_contents_def)

lemma length_cq_contents [simp]: "length (cq_contents q) = cq_size q"
  by (simp add: cq_contents_def)

text \<open>Writing an item behind the last one, before the head moves.\<close>

lemma cq_written:
  assumes inv: "cq_inv q" "0 < cq_max_items q" and "i \<le> cq_size q"
  shows "(cq_v q)[cq_tail q := x] ! ((cq_head q + i) mod cq_max_items q) = (cq_contents q @ [x]) ! i"
proof -
  note n = cq_inv_size [OF inv]
  have h: "cq_head q < cq_max_items q" "length (cq_v q) = cq_max_items q" using inv by (auto simp: cq_inv_def)
  show ?thesis
  proof (cases "i = cq_size q")
    case True
    then show ?thesis using n h by (simp add: nth_append)
  next
    case False
    then have "(cq_head q + i) mod cq_max_items q \<noteq> cq_tail q"
      using wrap_inj [OF h(1), of i "cq_size q"] n assms(3) by auto
    then show ?thesis using False assms(3) by (simp add: nth_append cq_contents_nth)
  qed
qed

lemma cq_push_law:
  assumes inv: "cq_inv q"
  shows "\<exists>q'. cq_push_back x q = Inr q' \<and> cq_inv q' \<and> cq_capacity q' = cq_capacity q \<and>
    cq_contents q' = keep_last (cq_capacity q) (cq_contents q @ [x]) \<and>
    cq_overrun_counter q' = cq_overrun_counter q + (if cq_full q then 1 else 0)"
proof (cases "cq_max_items q = 0")
  case True
  then show ?thesis
    using inv by (simp add: cq_push_back_def cq_inv_def cq_capacity_def cq_contents_def cq_size_def keep_last_def cq_full_def)
next
  case False
  define m h t where m: "m = cq_max_items q" and h: "h = cq_head q" and t: "t = cq_tail q"
  have b: "h < m" "t < m" "length (cq_v q) = m" "0 < m" using inv False by (simp_all add: cq_inv_def m h t)
  note n = cq_inv_size [OF inv] and w = cq_written [OF inv]
  let ?q1 = "q\<lparr>cq_v := (cq_v q)[t := x], cq_tail := (t + 1) mod m\<rparr>"
  show ?thesis
  proof (cases "(t + 1) mod m = h")
    case full: True
    let ?q' = "?q1\<lparr>cq_head := (h + 1) mod m, cq_overrun_counter := cq_overrun_counter q + 1\<rparr>"
    have push: "cq_push_back x q = Inr ?q'" "cq_full q"
      using b full by (simp_all add: cq_push_back_def cq_full_def guard_run_def m h t Let_def)
    have size: "cq_size q = m - 1" "cq_size ?q' = m - 1"
      using full b by (auto simp: cq_size_def m [symmetric] h [symmetric] t [symmetric] mod_Suc split: if_splits)
    have "cq_contents ?q' = tl (cq_contents q @ [x])"
    proof (rule nth_equalityI)
      fix i assume i: "i < length (cq_contents ?q')"
      then have "cq_contents ?q' ! i = (cq_v q)[t := x] ! ((h + (i + 1)) mod m)"
        using size by (simp add: cq_contents_nth m mod_simps ac_simps)
      also have "\<dots> = (cq_contents q @ [x]) ! (i + 1)" using w [of "i + 1" x] i size b by (simp add: m h t)
      finally show "cq_contents ?q' ! i = tl (cq_contents q @ [x]) ! i" using i size by (simp add: nth_tl)
    qed (use size in simp)
    moreover have "length (cq_contents q @ [x]) - cq_capacity q = 1"
      using size b by (simp add: cq_capacity_def m [symmetric])
    then have "keep_last (cq_capacity q) (cq_contents q @ [x]) = tl (cq_contents q @ [x])"
      by (simp only: keep_last_def One_nat_def drop_Suc drop_0)
    ultimately show ?thesis
      using push b by (simp add: cq_inv_def cq_capacity_def m [symmetric])
  next
    case room: False
    have push: "cq_push_back x q = Inr ?q1" "\<not> cq_full q"
      using b room by (simp_all add: cq_push_back_def cq_full_def guard_run_def m h t Let_def)
    have size: "cq_size ?q1 = cq_size q + 1" "cq_size q + 1 \<le> m - 1"
      using room b by (auto simp: cq_size_def m [symmetric] h [symmetric] t [symmetric] mod_Suc split: if_splits)
    have "cq_contents ?q1 = cq_contents q @ [x]"
    proof (rule nth_equalityI)
      fix i assume i: "i < length (cq_contents ?q1)"
      then show "cq_contents ?q1 ! i = (cq_contents q @ [x]) ! i"
        using w [of i x] size b by (simp add: cq_contents_nth m h t)
    qed (use size in simp)
    moreover have "keep_last (cq_capacity q) (cq_contents q @ [x]) = cq_contents q @ [x]"
      using size by (intro keep_last_id) (simp add: cq_capacity_def m)
    ultimately show ?thesis
      using push b by (simp add: cq_inv_def cq_capacity_def m [symmetric] h [symmetric])
  qed
qed

lemma cq_pop_law:
  assumes inv: "cq_inv q" and "cq_contents q \<noteq> []"
  shows "\<exists>q'. cq_pop_front q = Inr q' \<and> cq_inv q' \<and> cq_capacity q' = cq_capacity q \<and> cq_contents q' = tl (cq_contents q)"
    and "cq_front q = Inr (hd (cq_contents q))"
proof -
  have "0 < cq_size q" using assms(2) by (metis length_cq_contents length_greater_0_conv)
  then have pos: "0 < cq_max_items q" using inv by (auto simp: cq_inv_def cq_size_def split: if_splits)
  define m h where m: "m = cq_max_items q" and h: "h = cq_head q"
  have b: "h < m" "cq_tail q < m" "length (cq_v q) = m" using inv pos by (simp_all add: cq_inv_def m h)
  let ?q' = "q\<lparr>cq_head := (h + 1) mod m\<rparr>"
  have size: "cq_size ?q' = cq_size q - 1"
    using \<open>0 < cq_size q\<close> b by (auto simp: cq_size_def m [symmetric] h [symmetric] mod_Suc split: if_splits)
  have "cq_contents ?q' = tl (cq_contents q)"
  proof (rule nth_equalityI)
    fix i assume i: "i < length (cq_contents ?q')"
    then have "cq_contents ?q' ! i = cq_v q ! ((h + (i + 1)) mod m)"
      using size by (simp add: cq_contents_nth m mod_simps ac_simps)
    then show "cq_contents ?q' ! i = tl (cq_contents q) ! i"
      using i size by (simp add: nth_tl cq_contents_nth m h)
  qed (use size in simp)
  then show "\<exists>q'. cq_pop_front q = Inr q' \<and> cq_inv q' \<and> cq_capacity q' = cq_capacity q \<and> cq_contents q' = tl (cq_contents q)"
    using b pos by (simp add: cq_pop_front_def guard_run_def cq_inv_def cq_capacity_def m h)
  have "hd (cq_contents q) = cq_v q ! h"
    using hd_conv_nth [OF assms(2)] \<open>0 < cq_size q\<close> b by (simp add: cq_contents_nth m h)
  then show "cq_front q = Inr (hd (cq_contents q))"
    using b by (simp add: cq_front_def cq_item_def guard_run_def h)
qed

interpretation cq: bounded_queue cq_push_back cq_pop_front cq_front cq_empty cq_size cq_capacity cq_inv cq_contents
proof
  fix q :: "'a circular_q" and x
  show "cq_inv q \<Longrightarrow> \<exists>q'. cq_push_back x q = Inr q' \<and> cq_inv q' \<and> cq_capacity q' = cq_capacity q \<and>
      cq_contents q' = keep_last (cq_capacity q) (cq_contents q @ [x])"
    using cq_push_law [of q x] by auto
  show "cq_inv q \<Longrightarrow> cq_contents q \<noteq> [] \<Longrightarrow>
      \<exists>q'. cq_pop_front q = Inr q' \<and> cq_inv q' \<and> cq_capacity q' = cq_capacity q \<and> cq_contents q' = tl (cq_contents q)"
    by (rule cq_pop_law(1))
  show "cq_inv q \<Longrightarrow> cq_contents q \<noteq> [] \<Longrightarrow> cq_front q = Inr (hd (cq_contents q))"
    by (rule cq_pop_law(2))
  show "cq_empty q \<longleftrightarrow> cq_contents q = []" if "cq_inv q"
  proof -
    have "cq_empty q \<longleftrightarrow> cq_size q = 0"
      using that by (simp add: cq_empty_def cq_size_def cq_inv_def split: if_splits)
    then show ?thesis by (simp add: cq_contents_def)
  qed
  show "cq_inv q \<Longrightarrow> cq_size q = length (cq_contents q)" by simp
qed

lemma cq_new_law:
  shows "cq_inv (circular_q_new d n)" and "cq_contents (circular_q_new d n) = []"
    and "cq_capacity (circular_q_new d n) = (if n = - 1 then 0 else unat n)"
proof -
  show "cq_inv (circular_q_new d n)" "cq_contents (circular_q_new d n) = []"
    by (simp_all add: circular_q_new_def cq_inv_def cq_contents_def cq_size_def)
  have "unat (n + 1) - 1 = unat n" if "n \<noteq> - 1"
    using that unatSuc [of n] by (simp add: eq_neg_iff_add_eq_0 add.commute)
  then show "cq_capacity (circular_q_new d n) = (if n = - 1 then 0 else unat n)"
    by (simp add: circular_q_new_def cq_capacity_def)
qed

section \<open>The backtrace\<close>

lemma log_msg_buffer_new_msg [simp]: "lmb_msg (log_msg_buffer_new m) = m"
  by (simp add: log_msg_buffer_new_def update_string_views_def)

lemma log_msg_buffer_copy_new: "log_msg_buffer_copy (log_msg_buffer_new m) = log_msg_buffer_new m"
  by (simp add: log_msg_buffer_copy_def log_msg_buffer_new_def update_string_views_def)

primrec run_all :: "('a \<Rightarrow> 's \<Rightarrow> 's run) \<Rightarrow> 'a list \<Rightarrow> 's \<Rightarrow> 's run" where
  "run_all fn [] s = Inr s"
| "run_all fn (x # xs) s = bind_run (fn x s) (run_all fn xs)"

lemma bt_push_all: "run_all bt_push_back msgs bt =
    bind_run (cq.push_all (map log_msg_buffer_new msgs) (bt_messages bt)) (\<lambda>q. Inr (bt\<lparr>bt_messages := q\<rparr>))"
proof (induction msgs arbitrary: bt)
  case (Cons m ms)
  then show ?case
    by (cases "cq_push_back (log_msg_buffer_new m) (bt_messages bt)") (simp_all add: bt_push_back_def)
qed simp

text \<open>One round for each item, and one that finds the queue empty.\<close>

lemma pop_loop_drains:
  assumes "cq_inv q" and "cq_size q = n"
  shows "\<exists>q'. cq_inv q' \<and> cq_contents q' = [] \<and>
    (\<forall>s. pop_loop (Suc n) fn q s = bind_run (run_all fn (map lmb_msg (cq_contents q)) s) (\<lambda>s'. Inr (q', s')))"
  using assms
proof (induction n arbitrary: q)
  case 0
  then have "cq_contents q = []" by (simp add: cq_contents_def)
  moreover from this have "cq_empty q" using cq.empty_law 0(1) by blast
  ultimately show ?case using 0(1) by (intro exI [of _ q]) simp
next
  case (Suc n)
  obtain x xs where c: "cq_contents q = x # xs" using Suc.prems(2) length_cq_contents [of q] by (cases "cq_contents q") auto
  then have busy: "\<not> cq_empty q" and front: "cq_front q = Inr x"
    using cq.empty_law [OF Suc.prems(1)] cq.front_law [OF Suc.prems(1)] c by auto
  obtain q1 where q1: "cq_pop_front q = Inr q1" "cq_inv q1" "cq_contents q1 = xs"
    using cq.pop_law [OF Suc.prems(1)] c by auto
  then have "cq_size q1 = n" using Suc.prems(2) c length_cq_contents [of q] length_cq_contents [of q1] by simp
  then obtain q' where q': "cq_inv q'" "cq_contents q' = []"
      "\<And>s. pop_loop (Suc n) fn q1 s = bind_run (run_all fn (map lmb_msg xs) s) (\<lambda>s'. Inr (q', s'))"
    using Suc.IH [OF q1(2)] q1(3) by auto
  have "pop_loop (Suc (Suc n)) fn q s = bind_run (run_all fn (map lmb_msg (cq_contents q)) s) (\<lambda>s'. Inr (q', s'))" for s
    using busy front q1(1) q'(3) c by (cases "fn (lmb_msg x) s") (simp_all del: pop_loop.simps(2) add: pop_loop.simps(2) [of "Suc n"])
  then show ?case using q'(1,2) by blast
qed

definition bt_holds :: "backtracer \<Rightarrow> log_msg list \<Rightarrow> bool" where
  "bt_holds bt msgs \<longleftrightarrow> bt_enabled bt \<and> cq_inv (bt_messages bt) \<and> map lmb_msg (cq_contents (bt_messages bt)) = msgs"

lemma bt_holds_empty: "bt_holds bt msgs \<Longrightarrow> bt_empty bt \<longleftrightarrow> msgs = []"
  using cq.empty_law [of "bt_messages bt"] by (auto simp: bt_holds_def bt_empty_def)

text \<open>The number of messages a backtrace keeps; the size of the vector wraps around for the largest number.\<close>

definition bt_capacity :: "u64 \<Rightarrow> nat" where
  "bt_capacity n = (if n = - 1 then 0 else unat n)"

lemma bt_pushed: "\<exists>bt1. run_all bt_push_back msgs (bt_enable n bt) = Inr bt1 \<and> bt_holds bt1 (keep_last (bt_capacity n) msgs)"
proof -
  let ?q = "circular_q_new (log_msg_buffer_new log_msg_default) n"
  obtain q1 where q1: "cq.push_all (map log_msg_buffer_new msgs) ?q = Inr q1" "cq_inv q1"
      "cq_contents q1 = keep_last (bt_capacity n) (map log_msg_buffer_new msgs)"
    using cq.push_all_keeps_last [of ?q "map log_msg_buffer_new msgs"] cq_new_law [of "log_msg_buffer_new log_msg_default" n]
    by (auto simp: bt_capacity_def)
  moreover have "map lmb_msg (keep_last k (map log_msg_buffer_new msgs)) = keep_last k msgs" for k
    by (simp add: keep_last_def drop_map comp_def)
  ultimately show ?thesis by (simp add: bt_push_all bt_enable_def bt_holds_def)
qed

lemma bt_popped:
  assumes "bt_holds bt msgs"
  shows "\<exists>bt'. bt_holds bt' [] \<and> (\<forall>s. foreach_pop fn bt s = bind_run (run_all fn msgs s) (\<lambda>s'. Inr (bt', s')))"
proof -
  have b: "bt_enabled bt" "cq_inv (bt_messages bt)" "map lmb_msg (cq_contents (bt_messages bt)) = msgs"
    using assms by (simp_all add: bt_holds_def)
  obtain q where q: "cq_inv q" "cq_contents q = []"
      "\<forall>s. pop_loop (Suc (cq_size (bt_messages bt))) fn (bt_messages bt) s = bind_run (run_all fn msgs s) (\<lambda>s'. Inr (q, s'))"
    using pop_loop_drains [OF b(2) refl, of fn] b(3) by auto
  have "foreach_pop fn bt s = bind_run (run_all fn msgs s) (\<lambda>s'. Inr (bt\<lparr>bt_messages := q\<rparr>, s'))" for s
    using q(3) by (cases "run_all fn msgs s") (simp_all add: foreach_pop_def del: pop_loop.simps)
  then show ?thesis using q(1,2) b(1) by (intro exI [of _ "bt\<lparr>bt_messages := q\<rparr>"]) (simp add: bt_holds_def)
qed

text \<open>
  Together: after a backtrace of n messages is enabled and any messages are pushed, popping them applies the function
  to exactly the last n, oldest first and with their texts unchanged, and leaves the backtrace empty.
\<close>

lemma backtracer_keeps_last:
  "\<exists>bt1 bt2. run_all bt_push_back msgs (bt_enable n bt) = Inr bt1 \<and>
    foreach_pop fn bt1 s = bind_run (run_all fn (keep_last (bt_capacity n) msgs) s) (\<lambda>s'. Inr (bt2, s')) \<and>
    bt_empty bt2 \<and> bt_enabled bt2"
  using bt_pushed [of msgs n bt] bt_popped [of _ "keep_last (bt_capacity n) msgs" fn] bt_holds_empty
  by (metis bt_holds_def)

end
