(* ===== verification/Spd_Pattern.thy ===== *)
theory Spd_Pattern
  imports Spd_Format
begin

text \<open>
  \<^verbatim>\<open>pattern_formatter\<close> of \<^verbatim>\<open>spdlog\<close>: a pattern such as \<^verbatim>\<open>"[%H:%M:%S] %8l %v"\<close> is compiled into a list
  of formatters, which are then run on every message. Formatters that cache keep their
  state in the list. The program registers no flags of its own, so the table of custom
  flags is left out.
\<close>

section \<open>Formatter objects\<close>

datatype flag_formatter =
    Fl_name padding_info
  | Fl_level padding_info
  | Fl_short_level padding_info
  | Fl_t padding_info
  | Fl_v padding_info
  | Fl_a padding_info
  | Fl_A padding_info
  | Fl_b padding_info
  | Fl_B padding_info
  | Fl_c padding_info
  | Fl_C padding_info
  | Fl_Y padding_info
  | Fl_D padding_info
  | Fl_m padding_info
  | Fl_d padding_info
  | Fl_H padding_info
  | Fl_I padding_info
  | Fl_M padding_info
  | Fl_S padding_info
  | Fl_e padding_info
  | Fl_f padding_info
  | Fl_F padding_info
  | Fl_E padding_info
  | Fl_p padding_info
  | Fl_r padding_info
  | Fl_R padding_info
  | Fl_T padding_info
  | Fl_z padding_info int int
  | Fl_pid padding_info
  | Fl_source_location padding_info
  | Fl_short_filename padding_info
  | Fl_source_filename padding_info
  | Fl_source_linenum padding_info
  | Fl_source_funcname padding_info
  | Fl_mdc padding_info
  | Fl_elapsed padding_info int int
  | Fl_full int string
  | Fl_ch char
  | Fl_aggregate string
  | Fl_color_start
  | Fl_color_stop

text \<open>Running one formatter: its new state, the message with its colour range, the buffer.\<close>

definition stateless :: "flag_formatter \<Rightarrow> log_msg \<Rightarrow> string run \<Rightarrow> (flag_formatter \<times> log_msg \<times> string) run" where
  "stateless f msg r = bind_run r (\<lambda>d. Inr (f, msg, d))"

fun flag_format ::
    "log_env \<Rightarrow> flag_formatter \<Rightarrow> log_msg \<Rightarrow> tm \<Rightarrow> string \<Rightarrow> (flag_formatter \<times> log_msg \<times> string) run" where
  "flag_format env (Fl_name p) msg tm_time dest = stateless (Fl_name p) msg (name_formatter p msg dest)"
| "flag_format env (Fl_level p) msg tm_time dest = stateless (Fl_level p) msg (level_formatter p msg dest)"
| "flag_format env (Fl_short_level p) msg tm_time dest = stateless (Fl_short_level p) msg (short_level_formatter p msg dest)"
| "flag_format env (Fl_t p) msg tm_time dest = stateless (Fl_t p) msg (t_formatter p msg dest)"
| "flag_format env (Fl_v p) msg tm_time dest = stateless (Fl_v p) msg (v_formatter p msg dest)"
| "flag_format env (Fl_a p) msg tm_time dest = stateless (Fl_a p) msg (a_formatter p tm_time dest)"
| "flag_format env (Fl_A p) msg tm_time dest = stateless (Fl_A p) msg (A_formatter p tm_time dest)"
| "flag_format env (Fl_b p) msg tm_time dest = stateless (Fl_b p) msg (b_formatter p tm_time dest)"
| "flag_format env (Fl_B p) msg tm_time dest = stateless (Fl_B p) msg (B_formatter p tm_time dest)"
| "flag_format env (Fl_c p) msg tm_time dest = stateless (Fl_c p) msg (c_formatter p tm_time dest)"
| "flag_format env (Fl_C p) msg tm_time dest = stateless (Fl_C p) msg (C_formatter p tm_time dest)"
| "flag_format env (Fl_Y p) msg tm_time dest = stateless (Fl_Y p) msg (Y_formatter p tm_time dest)"
| "flag_format env (Fl_D p) msg tm_time dest = stateless (Fl_D p) msg (D_formatter p tm_time dest)"
| "flag_format env (Fl_m p) msg tm_time dest = stateless (Fl_m p) msg (m_formatter p tm_time dest)"
| "flag_format env (Fl_d p) msg tm_time dest = stateless (Fl_d p) msg (d_formatter p tm_time dest)"
| "flag_format env (Fl_H p) msg tm_time dest = stateless (Fl_H p) msg (H_formatter p tm_time dest)"
| "flag_format env (Fl_I p) msg tm_time dest = stateless (Fl_I p) msg (I_formatter p tm_time dest)"
| "flag_format env (Fl_M p) msg tm_time dest = stateless (Fl_M p) msg (M_formatter p tm_time dest)"
| "flag_format env (Fl_S p) msg tm_time dest = stateless (Fl_S p) msg (S_formatter p tm_time dest)"
| "flag_format env (Fl_e p) msg tm_time dest = stateless (Fl_e p) msg (e_formatter p msg dest)"
| "flag_format env (Fl_f p) msg tm_time dest = stateless (Fl_f p) msg (f_formatter p msg dest)"
| "flag_format env (Fl_F p) msg tm_time dest = stateless (Fl_F p) msg (F_formatter p msg dest)"
| "flag_format env (Fl_E p) msg tm_time dest = stateless (Fl_E p) msg (E_formatter p msg dest)"
| "flag_format env (Fl_p p) msg tm_time dest = stateless (Fl_p p) msg (p_formatter p tm_time dest)"
| "flag_format env (Fl_r p) msg tm_time dest = stateless (Fl_r p) msg (r_formatter p tm_time dest)"
| "flag_format env (Fl_R p) msg tm_time dest = stateless (Fl_R p) msg (R_formatter p tm_time dest)"
| "flag_format env (Fl_T p) msg tm_time dest = stateless (Fl_T p) msg (T_formatter p tm_time dest)"
| "flag_format env (Fl_z p last_update offset) msg tm_time dest =
     (case get_cached_offset msg tm_time (last_update, offset) of
        (u, m) \<Rightarrow> stateless (Fl_z p u m) msg (z_formatter p m dest))"
| "flag_format env (Fl_pid p) msg tm_time dest = stateless (Fl_pid p) msg (pid_formatter p (env_pid env) dest)"
| "flag_format env (Fl_source_location p) msg tm_time dest = stateless (Fl_source_location p) msg (source_location_formatter p msg dest)"
| "flag_format env (Fl_short_filename p) msg tm_time dest = stateless (Fl_short_filename p) msg (short_filename_formatter p msg dest)"
| "flag_format env (Fl_source_filename p) msg tm_time dest = stateless (Fl_source_filename p) msg (source_filename_formatter p msg dest)"
| "flag_format env (Fl_source_linenum p) msg tm_time dest = stateless (Fl_source_linenum p) msg (source_linenum_formatter p msg dest)"
| "flag_format env (Fl_source_funcname p) msg tm_time dest = stateless (Fl_source_funcname p) msg (source_funcname_formatter p msg dest)"
| "flag_format env (Fl_mdc p) msg tm_time dest = stateless (Fl_mdc p) msg (mdc_formatter p (env_mdc env) dest)"
| "flag_format env (Fl_elapsed p unit last_message_time) msg tm_time dest =
     stateless (Fl_elapsed p unit (lm_time msg)) msg (elapsed_formatter p unit last_message_time msg dest)"
| "flag_format env (Fl_full ts cached) msg tm_time dest =
     bind_run (full_formatter (env_mdc env) msg tm_time (ts, cached) dest) (\<lambda>((ts', cached'), msg', d).
     Inr (Fl_full ts' cached', msg', d))"
| "flag_format env (Fl_ch c) msg tm_time dest = stateless (Fl_ch c) msg (write_str [c] dest)"
| "flag_format env (Fl_aggregate s) msg tm_time dest = stateless (Fl_aggregate s) msg (write_str s dest)"
| "flag_format env Fl_color_start msg tm_time dest =
     Inr (Fl_color_start, msg\<lparr>lm_color_range_start := length dest\<rparr>, dest)"
| "flag_format env Fl_color_stop msg tm_time dest =
     Inr (Fl_color_stop, msg\<lparr>lm_color_range_end := length dest\<rparr>, dest)"

section \<open>Compiling a pattern\<close>

text \<open>The formatters a flag stands for, and whether they need the broken-down time.\<close>

definition handle_flag :: "int \<Rightarrow> char \<Rightarrow> padding_info \<Rightarrow> flag_formatter list \<times> bool" where
  "handle_flag now flag padding =
     (if flag = CHR ''+'' then ([Fl_full 0 []], True)
      else if flag = CHR ''n'' then ([Fl_name padding], False)
      else if flag = CHR ''l'' then ([Fl_level padding], False)
      else if flag = CHR ''L'' then ([Fl_short_level padding], False)
      else if flag = CHR ''t'' then ([Fl_t padding], False)
      else if flag = CHR ''v'' then ([Fl_v padding], False)
      else if flag = CHR ''a'' then ([Fl_a padding], True)
      else if flag = CHR ''A'' then ([Fl_A padding], True)
      else if flag = CHR ''b'' \<or> flag = CHR ''h'' then ([Fl_b padding], True)
      else if flag = CHR ''B'' then ([Fl_B padding], True)
      else if flag = CHR ''c'' then ([Fl_c padding], True)
      else if flag = CHR ''C'' then ([Fl_C padding], True)
      else if flag = CHR ''Y'' then ([Fl_Y padding], True)
      else if flag = CHR ''D'' \<or> flag = CHR ''x'' then ([Fl_D padding], True)
      else if flag = CHR ''m'' then ([Fl_m padding], True)
      else if flag = CHR ''d'' then ([Fl_d padding], True)
      else if flag = CHR ''H'' then ([Fl_H padding], True)
      else if flag = CHR ''I'' then ([Fl_I padding], True)
      else if flag = CHR ''M'' then ([Fl_M padding], True)
      else if flag = CHR ''S'' then ([Fl_S padding], True)
      else if flag = CHR ''e'' then ([Fl_e padding], False)
      else if flag = CHR ''f'' then ([Fl_f padding], False)
      else if flag = CHR ''F'' then ([Fl_F padding], False)
      else if flag = CHR ''E'' then ([Fl_E padding], False)
      else if flag = CHR ''p'' then ([Fl_p padding], True)
      else if flag = CHR ''r'' then ([Fl_r padding], True)
      else if flag = CHR ''R'' then ([Fl_R padding], True)
      else if flag = CHR ''T'' \<or> flag = CHR ''X'' then ([Fl_T padding], True)
      else if flag = CHR ''z'' then ([Fl_z padding 0 0], True)
      else if flag = CHR ''P'' then ([Fl_pid padding], False)
      else if flag = CHR ''^'' then ([Fl_color_start], False)
      else if flag = CHR ''$'' then ([Fl_color_stop], False)
      else if flag = CHR ''@'' then ([Fl_source_location padding], False)
      else if flag = CHR ''s'' then ([Fl_short_filename padding], False)
      else if flag = CHR ''g'' then ([Fl_source_filename padding], False)
      else if flag = CHR ''#'' then ([Fl_source_linenum padding], False)
      else if flag = CHR ''!'' then ([Fl_source_funcname padding], False)
      else if flag = CHR ''%'' then ([Fl_ch (CHR ''%'')], False)
      else if flag = CHR ''u'' then ([Fl_elapsed padding 1 now], False)
      else if flag = CHR ''i'' then ([Fl_elapsed padding 1000 now], False)
      else if flag = CHR ''o'' then ([Fl_elapsed padding 1000000 now], False)
      else if flag = CHR ''O'' then ([Fl_elapsed padding 1000000000 now], False)
      else if flag = CHR ''&'' then ([Fl_mdc padding], False)
      else if \<not> pi_truncate padding then ([Fl_aggregate [CHR ''%'', flag]], False)
      else ([Fl_source_funcname (padding\<lparr>pi_truncate := False\<rparr>), Fl_aggregate [flag]], False))"

definition isdigit :: "char \<Rightarrow> bool" where
  "isdigit c \<longleftrightarrow> 48 \<le> (of_char c :: nat) \<and> (of_char c :: nat) \<le> 57"

fun scan_width :: "u64 \<Rightarrow> string \<Rightarrow> u64 \<times> string" where
  "scan_width width [] = (width, [])"
| "scan_width width (c # it) =
     (if isdigit c then scan_width (width * 10 + (of_char c - 48)) it else (width, c # it))"

definition max_width :: u64 where
  "max_width = 64"

definition pad_side_spec :: "string \<Rightarrow> pad_side \<times> string" where
  "pad_side_spec it =
     (case it of
        [] \<Rightarrow> (pad_left, [])
      | c # rest \<Rightarrow>
          if c = CHR ''-'' then (pad_right, rest)
          else if c = CHR ''='' then (pad_center, rest)
          else (pad_left, it))"

definition handle_padspec :: "string \<Rightarrow> padding_info \<times> string" where
  "handle_padspec it =
     (case pad_side_spec it of (side, it1) \<Rightarrow>
        (case it1 of
           [] \<Rightarrow> (padding_info_default, it1)
         | c # rest \<Rightarrow>
             if \<not> isdigit c then (padding_info_default, it1)
             else (case scan_width (of_char c - 48) rest of (width, it2) \<Rightarrow>
                     (case it2 of
                        [] \<Rightarrow> (padding_info_new (unat (min width max_width)) side False, it2)
                      | d # it3 \<Rightarrow>
                          if d = CHR ''!'' then (padding_info_new (unat (min width max_width)) side True, it3)
                          else (padding_info_new (unat (min width max_width)) side False, it2)))))"

lemma scan_width_rest: "length (snd (scan_width w it)) \<le> length it"
  by (induction w it rule: scan_width.induct) auto

lemma handle_padspec_rest:
  assumes "handle_padspec it = (p, it')"
  shows "length it' \<le> length it"
proof -
  obtain side it1 where 1: "pad_side_spec it = (side, it1)" by (cases "pad_side_spec it")
  then have le: "length it1 \<le> length it" by (auto simp: pad_side_spec_def split: list.splits if_splits)
  show ?thesis
  proof (cases it1)
    case Nil
    then show ?thesis using assms 1 by (simp add: handle_padspec_def)
  next
    case (Cons c rest)
    obtain width it2 where 2: "scan_width (of_char c - 48) rest = (width, it2)" by (cases "scan_width (of_char c - 48) rest")
    then have "length it2 \<le> length rest" using scan_width_rest [of "of_char c - 48" rest] by simp
    then show ?thesis
      using assms 1 2 Cons le by (cases it2) (auto simp: handle_padspec_def split: if_splits)
  qed
qed

definition flush_chars :: "string option \<Rightarrow> flag_formatter list" where
  "flush_chars user_chars = (case user_chars of None \<Rightarrow> [] | Some s \<Rightarrow> [Fl_aggregate s])"

function compile_loop :: "int \<Rightarrow> string option \<Rightarrow> string \<Rightarrow> flag_formatter list \<times> bool" where
  "compile_loop now user_chars it =
     (case it of
        [] \<Rightarrow> (flush_chars user_chars, False)
      | c # it' \<Rightarrow>
          if c = CHR ''%'' then
            (case handle_padspec it' of (padding, it'') \<Rightarrow>
               (case it'' of
                  [] \<Rightarrow> (flush_chars user_chars, False)
                | flag # rest \<Rightarrow>
                    (case handle_flag now flag padding of (fs, need) \<Rightarrow>
                     case compile_loop now None rest of (fs', need') \<Rightarrow>
                       (flush_chars user_chars @ fs @ fs', need \<or> need'))))
          else compile_loop now (Some ((case user_chars of None \<Rightarrow> [] | Some s \<Rightarrow> s) @ [c])) it')"
  by pat_completeness auto
termination
  by (relation "measure (\<lambda>(now, u, it). length it)") (auto dest!: handle_padspec_rest [OF sym])

declare compile_loop.simps [simp del]

definition compile_pattern :: "int \<Rightarrow> string \<Rightarrow> flag_formatter list \<times> bool" where
  "compile_pattern now pattern = compile_loop now None pattern"

section \<open>Class pattern\_formatter\<close>

datatype pattern_time_type = time_local | time_utc

record pattern_formatter =
  pf_pattern :: string
  pf_eol :: string
  pf_time_type :: pattern_time_type
  pf_need_localtime :: bool
  pf_cached_tm :: tm
  pf_last_log_secs :: int
  pf_formatters :: "flag_formatter list"

definition zero_tm :: tm where
  "zero_tm = \<lparr>tm_sec = 0, tm_min = 0, tm_hour = 0, tm_mday = 0, tm_mon = 0, tm_year = 0, tm_wday = 0, tm_gmtoff = 0\<rparr>"

definition pattern_formatter_new :: "int \<Rightarrow> string \<Rightarrow> pattern_time_type \<Rightarrow> string \<Rightarrow> pattern_formatter" where
  "pattern_formatter_new now pattern time_type eol =
     (case compile_pattern now pattern of (fs, need) \<Rightarrow>
        \<lparr>pf_pattern = pattern, pf_eol = eol, pf_time_type = time_type, pf_need_localtime = need,
         pf_cached_tm = zero_tm, pf_last_log_secs = 0, pf_formatters = fs\<rparr>)"

definition pattern_formatter_default :: "pattern_time_type \<Rightarrow> string \<Rightarrow> pattern_formatter" where
  "pattern_formatter_default time_type eol =
     \<lparr>pf_pattern = ''%+'', pf_eol = eol, pf_time_type = time_type, pf_need_localtime = True,
      pf_cached_tm = zero_tm, pf_last_log_secs = 0, pf_formatters = [Fl_full 0 []]\<rparr>"

definition need_localtime :: "bool \<Rightarrow> pattern_formatter \<Rightarrow> pattern_formatter" where
  "need_localtime need pf = pf\<lparr>pf_need_localtime := need\<rparr>"

definition pf_clone :: "int \<Rightarrow> pattern_formatter \<Rightarrow> pattern_formatter" where
  "pf_clone now pf =
     need_localtime (pf_need_localtime pf) (pattern_formatter_new now (pf_pattern pf) (pf_time_type pf) (pf_eol pf))"

definition pf_set_pattern :: "int \<Rightarrow> string \<Rightarrow> pattern_formatter \<Rightarrow> pattern_formatter" where
  "pf_set_pattern now pattern pf =
     (case compile_pattern now pattern of (fs, need) \<Rightarrow>
        pf\<lparr>pf_pattern := pattern, pf_need_localtime := need, pf_formatters := fs\<rparr>)"

definition get_time :: "log_env \<Rightarrow> pattern_formatter \<Rightarrow> log_msg \<Rightarrow> tm" where
  "get_time env pf msg =
     (if pf_time_type pf = time_local then env_localtime env (to_secs (lm_time msg))
      else env_gmtime env (to_secs (lm_time msg)))"

fun run_formatters ::
    "log_env \<Rightarrow> tm \<Rightarrow> flag_formatter list \<Rightarrow> log_msg \<Rightarrow> string \<Rightarrow> (flag_formatter list \<times> log_msg \<times> string) run" where
  "run_formatters env tm_time [] msg dest = Inr ([], msg, dest)"
| "run_formatters env tm_time (f # fs) msg dest =
     bind_run (flag_format env f msg tm_time dest) (\<lambda>(f', msg', d).
     bind_run (run_formatters env tm_time fs msg' d) (\<lambda>(fs', msg'', d').
     Inr (f' # fs', msg'', d')))"

definition refresh_tm :: "log_env \<Rightarrow> log_msg \<Rightarrow> pattern_formatter \<Rightarrow> pattern_formatter" where
  "refresh_tm env msg pf =
     (if pf_need_localtime pf \<and> to_secs (lm_time msg) \<noteq> pf_last_log_secs pf
      then pf\<lparr>pf_cached_tm := get_time env pf msg, pf_last_log_secs := to_secs (lm_time msg)\<rparr> else pf)"

definition pf_format :: "log_env \<Rightarrow> pattern_formatter \<Rightarrow> log_msg \<Rightarrow> string \<Rightarrow> (pattern_formatter \<times> log_msg \<times> string) run" where
  "pf_format env pf msg dest =
     (let pf1 = refresh_tm env msg pf
      in bind_run (run_formatters env (pf_cached_tm pf1) (pf_formatters pf1) msg dest) (\<lambda>(fs, msg', d).
         bind_run (write_str (pf_eol pf1) d) (\<lambda>d'.
         Inr (pf1\<lparr>pf_formatters := fs\<rparr>, msg', d'))))"

section \<open>Widths\<close>

fun paddings :: "flag_formatter \<Rightarrow> padding_info list" where
  "paddings (Fl_full ts s) = []"
| "paddings (Fl_ch c) = []"
| "paddings (Fl_aggregate s) = []"
| "paddings Fl_color_start = []"
| "paddings Fl_color_stop = []"
| "paddings (Fl_z p u m) = [p]"
| "paddings (Fl_elapsed p u t) = [p]"
| "paddings (Fl_name p) = [p]" | "paddings (Fl_level p) = [p]" | "paddings (Fl_short_level p) = [p]"
| "paddings (Fl_t p) = [p]" | "paddings (Fl_v p) = [p]" | "paddings (Fl_a p) = [p]" | "paddings (Fl_A p) = [p]"
| "paddings (Fl_b p) = [p]" | "paddings (Fl_B p) = [p]" | "paddings (Fl_c p) = [p]" | "paddings (Fl_C p) = [p]"
| "paddings (Fl_Y p) = [p]" | "paddings (Fl_D p) = [p]" | "paddings (Fl_m p) = [p]" | "paddings (Fl_d p) = [p]"
| "paddings (Fl_H p) = [p]" | "paddings (Fl_I p) = [p]" | "paddings (Fl_M p) = [p]" | "paddings (Fl_S p) = [p]"
| "paddings (Fl_e p) = [p]" | "paddings (Fl_f p) = [p]" | "paddings (Fl_F p) = [p]" | "paddings (Fl_E p) = [p]"
| "paddings (Fl_p p) = [p]" | "paddings (Fl_r p) = [p]" | "paddings (Fl_R p) = [p]" | "paddings (Fl_T p) = [p]"
| "paddings (Fl_pid p) = [p]" | "paddings (Fl_source_location p) = [p]" | "paddings (Fl_short_filename p) = [p]"
| "paddings (Fl_source_filename p) = [p]" | "paddings (Fl_source_linenum p) = [p]"
| "paddings (Fl_source_funcname p) = [p]" | "paddings (Fl_mdc p) = [p]"

definition widths_ok :: "flag_formatter list \<Rightarrow> bool" where
  "widths_ok fs \<longleftrightarrow> (\<forall>f \<in> set fs. \<forall>p \<in> set (paddings f). pi_width p \<le> 64)"

lemma padspec_width: "pi_width (fst (handle_padspec it)) \<le> 64"
proof -
  have "unat (min w max_width) \<le> 64" for w
    using word_le_nat_alt [of "min w max_width" max_width] by (simp add: max_width_def)
  then show ?thesis
    by (auto simp: handle_padspec_def padding_info_default_def padding_info_new_def split: prod.split list.split)
qed

lemma handle_flag_widths: "pi_width padding \<le> 64 \<Longrightarrow> widths_ok (fst (handle_flag now flag padding))"
  by (simp add: handle_flag_def widths_ok_def)

lemma compile_loop_widths: "widths_ok (fst (compile_loop now u it))"
proof (induction now u it rule: compile_loop.induct)
  case (1 now u it)
  have flush: "widths_ok (flush_chars u)" by (cases u) (simp_all add: widths_ok_def flush_chars_def)
  show ?case
  proof (cases it)
    case Nil
    then show ?thesis using flush by (simp add: compile_loop.simps)
  next
    case (Cons c it')
    show ?thesis
    proof (cases "c = CHR ''%''")
      case False
      then show ?thesis using "1.IH"(2) [OF Cons] Cons by (simp add: compile_loop.simps [of now u])
    next
      case True
      obtain p it'' where h: "handle_padspec it' = (p, it'')" by (cases "handle_padspec it'")
      show ?thesis
      proof (cases it'')
        case Nil
        then show ?thesis using True Cons h flush by (simp add: compile_loop.simps [of now u])
      next
        case (Cons flag rest)
        obtain fs need where f: "handle_flag now flag p = (fs, need)" by (cases "handle_flag now flag p")
        have "widths_ok fs" using handle_flag_widths [of p now flag] padspec_width [of it'] h f by simp
        moreover have "widths_ok (fst (compile_loop now None rest))"
          using "1.IH"(1) [OF \<open>it = c # it'\<close> True h [symmetric] Cons f [symmetric]] .
        ultimately show ?thesis
          using True \<open>it = c # it'\<close> h Cons f flush
          by (auto simp: compile_loop.simps [of now u] widths_ok_def split: prod.split)
      qed
    qed
  qed
qed

section \<open>Patterns as they are written\<close>

text \<open>
  The parts of a pattern: literal text and flags with an optional padding. Printing them
  and compiling the printed pattern gives the formatters of the parts.
\<close>

datatype pat_part = Lit string | Pad_flag "(pad_side \<times> nat \<times> bool) option" char

fun side_char :: "pad_side \<Rightarrow> string" where
  "side_char pad_left = []"
| "side_char pad_right = ''-''"
| "side_char pad_center = ''=''"

fun print_part :: "pat_part \<Rightarrow> string" where
  "print_part (Lit s) = s"
| "print_part (Pad_flag None c) = [CHR ''%'', c]"
| "print_part (Pad_flag (Some (side, w, tr)) c) =
     CHR ''%'' # side_char side @ decimal w @ (if tr then ''!'' else []) @ [c]"

text \<open>A flag that its padding cannot swallow.\<close>

fun part_ok :: "pat_part \<Rightarrow> bool" where
  "part_ok (Lit s) \<longleftrightarrow> s \<noteq> [] \<and> CHR ''%'' \<notin> set s"
| "part_ok (Pad_flag None c) \<longleftrightarrow> c \<noteq> CHR ''-'' \<and> c \<noteq> CHR ''='' \<and> \<not> isdigit c"
| "part_ok (Pad_flag (Some (side, w, tr)) c) \<longleftrightarrow> w < 2 ^ 64 \<and> (tr \<or> (c \<noteq> CHR ''!'' \<and> \<not> isdigit c))"

fun part_formatters :: "int \<Rightarrow> pat_part \<Rightarrow> flag_formatter list" where
  "part_formatters now (Lit s) = [Fl_aggregate s]"
| "part_formatters now (Pad_flag None c) = fst (handle_flag now c padding_info_default)"
| "part_formatters now (Pad_flag (Some (side, w, tr)) c) = fst (handle_flag now c (padding_info_new (min w 64) side tr))"

fun no_adjacent_text :: "pat_part list \<Rightarrow> bool" where
  "no_adjacent_text (Lit s # Lit t # ps) = False"
| "no_adjacent_text (p # ps) = no_adjacent_text ps"
| "no_adjacent_text [] = True"

lemma isdigit_digit: "d < 10 \<Longrightarrow> isdigit (digit d)"
  by (simp add: isdigit_def digit_def take_bit_eq_mod)

lemma isdigit_decimal: "c \<in> set (decimal n) \<Longrightarrow> isdigit c"
proof (induction n rule: decimal.induct)
  case (1 n)
  then show ?case by (cases "n < 10") (auto simp: decimal_digit decimal_step isdigit_digit)
qed

lemma scan_width_digits:
  assumes "\<forall>c \<in> set ds. isdigit c" and "rest = [] \<or> \<not> isdigit (hd rest)"
  shows "scan_width w (ds @ rest) = (foldl (\<lambda>w c. w * 10 + (of_char c - 48)) w ds, rest)"
  using assms by (induction ds arbitrary: w) (cases rest; simp)+

lemma digit_value: "d < 10 \<Longrightarrow> of_char (digit d) - 48 = (of_nat d :: u64)"
proof -
  assume d: "d < 10"
  have "(of_char (digit d) :: u64) = of_nat (of_char (digit d))" by (simp only: of_nat_of_char)
  also have "\<dots> = of_nat (48 + d)" using d by (simp add: digit_def take_bit_eq_mod)
  finally show ?thesis by simp
qed

lemma foldl_decimal: "foldl (\<lambda>w c. w * 10 + (of_char c - 48)) 0 (decimal n) = (of_nat n :: u64)"
proof (induction n rule: decimal.induct)
  case (1 n)
  show ?case
  proof (cases "n < 10")
    case True
    then show ?thesis by (simp add: decimal_digit digit_value)
  next
    case False
    have "(of_nat n :: u64) = of_nat (n div 10 * 10 + n mod 10)" by simp
    also have "\<dots> = of_nat (n div 10) * 10 + of_nat (n mod 10)" by (simp only: of_nat_add of_nat_mult of_nat_numeral)
    finally show ?thesis using 1 False by (simp add: decimal_step digit_value)
  qed
qed

lemma min_max_width: "w < 2 ^ 64 \<Longrightarrow> unat (min (of_nat w) max_width) = min w 64"
  by (simp add: min_def max_width_def word_le_nat_alt unat_of_nat)

lemma not_side: "isdigit c \<Longrightarrow> c \<noteq> CHR ''-'' \<and> c \<noteq> CHR ''=''"
  by (auto simp: isdigit_def)

lemma handle_padspec_print:
  assumes "w < 2 ^ 64" and "tr \<or> (c \<noteq> CHR ''!'' \<and> \<not> isdigit c)"
  shows "handle_padspec (side_char side @ decimal w @ (if tr then ''!'' else []) @ c # rest) =
    (padding_info_new (min w 64) side tr, c # rest)"
proof -
  obtain d ds where d: "decimal w = d # ds" by (cases "decimal w") auto
  have dig: "isdigit d" "\<forall>c \<in> set ds. isdigit c" using isdigit_decimal [of _ w] d by auto
  have val: "foldl (\<lambda>w c. w * 10 + (of_char c - 48)) (of_char d - 48) ds = (of_nat w :: u64)"
    using foldl_decimal [of w] d by simp
  let ?r = "(if tr then ''!'' else []) @ c # rest"
  have "\<not> isdigit (hd ?r)" using assms(2) by (auto simp: isdigit_def)
  then have scan: "scan_width (of_char d - 48) (ds @ ?r) = (of_nat w, ?r)"
    using scan_width_digits [OF dig(2), of ?r "of_char d - 48"] val by simp
  have side: "pad_side_spec (side_char side @ decimal w @ ?r) = (side, decimal w @ ?r)"
    using d dig(1) not_side [of d] by (cases side) (simp_all add: pad_side_spec_def)
  show ?thesis
    using side scan d dig(1) assms(2) min_max_width [OF assms(1)]
    by (auto simp: handle_padspec_def)
qed

lemma handle_padspec_plain:
  "c \<noteq> CHR ''-'' \<Longrightarrow> c \<noteq> CHR ''='' \<Longrightarrow> \<not> isdigit c \<Longrightarrow> handle_padspec (c # rest) = (padding_info_default, c # rest)"
  by (simp add: handle_padspec_def pad_side_spec_def)

lemma compile_flag:
  assumes "part_ok (Pad_flag p c)"
  shows "fst (compile_loop now u (print_part (Pad_flag p c) @ rest)) =
    flush_chars u @ part_formatters now (Pad_flag p c) @ fst (compile_loop now None rest)"
proof (cases p)
  case None
  then show ?thesis
    using assms by (simp add: compile_loop.simps [of now u] handle_padspec_plain split: prod.split)
next
  case (Some x)
  obtain side w tr where x: "x = (side, w, tr)" by (cases x)
  have ok: "w < 2 ^ 64" "tr \<or> (c \<noteq> CHR ''!'' \<and> \<not> isdigit c)" using assms Some x by simp_all
  let ?s = "side_char side @ decimal w @ (if tr then ''!'' else []) @ c # rest"
  have "print_part (Pad_flag p c) @ rest = CHR ''%'' # ?s" using Some x by simp
  moreover have "fst (compile_loop now u (CHR ''%'' # ?s)) = flush_chars u @
      fst (handle_flag now c (padding_info_new (min w 64) side tr)) @ fst (compile_loop now None rest)"
    unfolding compile_loop.simps [of now u] by (simp add: handle_padspec_print [OF ok, of side rest, simplified] split: prod.split)
  ultimately show ?thesis using Some x by simp
qed

lemma compile_text:
  assumes "CHR ''%'' \<notin> set s"
  shows "compile_loop now u (s @ rest) =
    compile_loop now (if s = [] then u else Some ((case u of None \<Rightarrow> [] | Some t \<Rightarrow> t) @ s)) rest"
  using assms
proof (induction s arbitrary: u)
  case (Cons c s)
  then have "c \<noteq> CHR ''%''" by auto
  then show ?case using Cons by (simp add: compile_loop.simps [of now u "c # (s @ rest)"])
qed simp

lemma compile_parts:
  assumes "\<forall>p \<in> set ps. part_ok p" and "no_adjacent_text ps" and "u \<noteq> None \<Longrightarrow> \<forall>s qs. ps \<noteq> Lit s # qs"
  shows "fst (compile_loop now u (concat (map print_part ps))) =
    flush_chars u @ concat (map (part_formatters now) ps)"
  using assms
proof (induction ps arbitrary: u)
  case Nil
  then show ?case by (simp add: compile_loop.simps)
next
  case (Cons p ps)
  show ?case
  proof (cases p)
    case (Lit s)
    then have u: "u = None" using Cons.prems(3) by (cases u) auto
    have s: "s \<noteq> []" "CHR ''%'' \<notin> set s" using Cons.prems(1) Lit by auto
    have "no_adjacent_text ps \<and> (\<forall>s qs. ps \<noteq> Lit s # qs)"
    proof (cases ps)
      case (Cons q qs)
      then show ?thesis using Cons.prems(2) Lit by (cases q) auto
    qed simp
    then have "no_adjacent_text ps" "\<forall>s qs. ps \<noteq> Lit s # qs" by blast+
    then have "fst (compile_loop now (Some s) (concat (map print_part ps))) =
        flush_chars (Some s) @ concat (map (part_formatters now) ps)"
      using Cons.IH [of "Some s"] Cons.prems(1) by simp
    then show ?thesis using Lit u s compile_text [of s now None] by (simp add: flush_chars_def)
  next
    case (Pad_flag x c)
    have "no_adjacent_text ps" using Cons.prems(2) Pad_flag by simp
    then have "fst (compile_loop now None (concat (map print_part ps))) = concat (map (part_formatters now) ps)"
      using Cons.IH [of None] Cons.prems(1) by (simp add: flush_chars_def)
    then show ?thesis using compile_flag [of x c now u] Cons.prems(1) Pad_flag by simp
  qed
qed

section \<open>The default line\<close>

text \<open>What a line of the default pattern looks like, computed from the message alone.\<close>

definition tm_ok :: "tm \<Rightarrow> bool" where
  "tm_ok t \<longleftrightarrow> 0 \<le> tm_sec t \<and> tm_sec t \<le> 60 \<and> 0 \<le> tm_min t \<and> tm_min t < 60 \<and> 0 \<le> tm_hour t \<and> tm_hour t < 24 \<and>
     1 \<le> tm_mday t \<and> tm_mday t \<le> 31 \<and> 0 \<le> tm_mon t \<and> tm_mon t < 12 \<and> \<bar>tm_year t\<bar> < 2 ^ 31 \<and>
     0 \<le> tm_wday t \<and> tm_wday t < 7"

definition datetime_text :: "tm \<Rightarrow> string" where
  "datetime_text t = ''['' @ int_text (tm_year t + 1900) @ ''-'' @ two_digits (tm_mon t + 1) @ ''-'' @
     two_digits (tm_mday t) @ '' '' @ two_digits (tm_hour t) @ '':'' @ two_digits (tm_min t) @ '':'' @
     two_digits (tm_sec t) @ ''.''"

fun mdc_text :: "(string \<times> string) list \<Rightarrow> string" where
  "mdc_text [] = []"
| "mdc_text ((k, v) # rest) = k @ '':'' @ v @ (if rest \<noteq> [] then '' '' else []) @ mdc_text rest"

definition line_head :: "tm \<Rightarrow> log_msg \<Rightarrow> string" where
  "line_head t msg = datetime_text t @ three_digits (time_fraction 1000000 (lm_time msg)) @ ''] '' @
     (if lm_logger_name msg \<noteq> [] then ''['' @ lm_logger_name msg @ ''] '' else []) @ ''[''"

definition line_tail :: "(string \<times> string) list \<Rightarrow> log_msg \<Rightarrow> string" where
  "line_tail mdc msg = ''] '' @
     (if \<not> source_empty (lm_source msg)
      then ''['' @ basename (sl_filename (lm_source msg)) @ '':'' @ int_text (sl_line (lm_source msg)) @ ''] '' else []) @
     (if mdc \<noteq> [] then ''['' @ mdc_text mdc @ ''] '' else []) @ lm_payload msg"

definition default_line :: "tm \<Rightarrow> (string \<times> string) list \<Rightarrow> log_msg \<Rightarrow> string" where
  "default_line t mdc msg = line_head t msg @ to_string_view (lm_level msg) @ line_tail mdc msg"

definition colored :: "nat \<Rightarrow> tm \<Rightarrow> log_msg \<Rightarrow> log_msg" where
  "colored n t msg = msg\<lparr>lm_color_range_start := n + length (line_head t msg),
     lm_color_range_end := n + length (line_head t msg) + length (to_string_view (lm_level msg))\<rparr>"

definition msg_ok :: "log_msg \<Rightarrow> bool" where
  "msg_ok msg \<longleftrightarrow> 1000000000 \<le> lm_time msg \<and> \<bar>sl_line (lm_source msg)\<bar> < 2 ^ 31"

lemma append_int_text:
  assumes "\<bar>x\<bar> < 2 ^ 32"
  shows "append_int x d = Inr (d @ int_text x)"
proof -
  have "- (2 ^ 63) \<le> x" "x < 2 ^ 63" using assms by (simp_all add: abs_less_iff)
  then show ?thesis by (rule appendsD [OF appends_int])
qed

lemma datetime_writer_text:
  assumes "tm_ok t"
  shows "appends (datetime_writer t) (datetime_text t)"
proof -
  have "\<bar>tm_year t + 1900\<bar> < 2 ^ 32" using assms by (simp add: tm_ok_def abs_less_iff)
  then have "append_int (tm_year t + 1900) d = Inr (d @ int_text (tm_year t + 1900))" for d
    by (rule append_int_text)
  then show ?thesis
    using assms by (simp add: appends_def datetime_writer_def datetime_text_def tm_ok_def write_str_def
        appendsD [OF appends_pad2])
qed

lemma datetime_text_nonempty [simp]: "datetime_text t \<noteq> []"
  by (simp add: datetime_text_def)

lemma format_mdc_text: "appends (format_mdc padding_info_default mdc) (mdc_text mdc)"
proof (induction mdc)
  case (Cons kv rest)
  obtain k v where "kv = (k, v)" by (cases kv)
  with Cons show ?case
    by (simp add: appends_def padded_def padding_info_default_def write_str_def Let_def)
qed (simp add: appends_def)

text \<open>The cached date and time belong to the second they were made for.\<close>

definition cache_ok :: "(int \<Rightarrow> tm) \<Rightarrow> int \<times> string \<Rightarrow> bool" where
  "cache_ok time_of cache \<longleftrightarrow> snd cache = [] \<or> snd cache = datetime_text (time_of (fst cache))"

lemma refresh_datetime_eq:
  assumes "cache_ok time_of cache" and "tm_ok (time_of (to_secs (lm_time msg)))"
  shows "refresh_datetime msg (time_of (to_secs (lm_time msg))) cache =
    Inr (to_secs (lm_time msg), datetime_text (time_of (to_secs (lm_time msg))))"
  using assms appendsD [OF datetime_writer_text [OF assms(2)], of "[]"]
  by (cases cache) (auto simp: refresh_datetime_def cache_ok_def Let_def)

lemma full_formatter_line:
  assumes "cache_ok time_of cache" and "tm_ok (time_of (to_secs (lm_time msg)))" and "msg_ok msg"
  defines "t \<equiv> time_of (to_secs (lm_time msg))"
  shows "full_formatter mdc msg t cache dest =
    Inr ((to_secs (lm_time msg), datetime_text t), colored (length dest) t msg, dest @ default_line t mdc msg)"
proof -
  have ms: "0 \<le> time_fraction 1000000 (lm_time msg)" "time_fraction 1000000 (lm_time msg) < 1000"
    using millis_range [of "lm_time msg"] assms(3) by (simp_all add: msg_ok_def)
  note pieces = appendsD [OF appends_pad3 [OF ms]] appendsD [OF format_mdc_text] write_str_def
  have line: "append_int (sl_line (lm_source msg)) d = Inr (d @ int_text (sl_line (lm_source msg)))" for d
    using assms(3) by (intro append_int_text) (simp add: msg_ok_def)
  show ?thesis
    using refresh_datetime_eq [OF assms(1,2)]
    by (simp add: full_formatter_def t_def pieces line writes_append default_line_def line_head_def line_tail_def
        colored_def Let_def)
qed

section \<open>The default formatter on a sequence of messages\<close>

fun format_all ::
    "log_env \<Rightarrow> pattern_formatter \<Rightarrow> log_msg list \<Rightarrow> (pattern_formatter \<times> (log_msg \<times> string) list) run" where
  "format_all env pf [] = Inr (pf, [])"
| "format_all env pf (msg # msgs) =
     bind_run (pf_format env pf msg []) (\<lambda>(pf', msg', line).
     bind_run (format_all env pf' msgs) (\<lambda>(pf'', out).
     Inr (pf'', (msg', line) # out)))"

definition broken_down :: "log_env \<Rightarrow> pattern_time_type \<Rightarrow> int \<Rightarrow> tm" where
  "broken_down env tt secs = (if tt = time_local then env_localtime env secs else env_gmtime env secs)"

definition msg_tm :: "log_env \<Rightarrow> pattern_time_type \<Rightarrow> log_msg \<Rightarrow> tm" where
  "msg_tm env tt msg = broken_down env tt (to_secs (lm_time msg))"

definition formattable :: "log_env \<Rightarrow> pattern_time_type \<Rightarrow> log_msg \<Rightarrow> bool" where
  "formattable env tt msg \<longleftrightarrow> msg_ok msg \<and> tm_ok (msg_tm env tt msg)"

definition caches_ok :: "log_env \<Rightarrow> pattern_time_type \<Rightarrow> string \<Rightarrow> pattern_formatter \<Rightarrow> bool" where
  "caches_ok env tt eol pf \<longleftrightarrow>
     pf_time_type pf = tt \<and> pf_eol pf = eol \<and> pf_need_localtime pf \<and>
     (pf_last_log_secs pf = 0 \<or> pf_cached_tm pf = broken_down env tt (pf_last_log_secs pf)) \<and>
     (\<exists>ts s. pf_formatters pf = [Fl_full ts s] \<and> cache_ok (broken_down env tt) (ts, s))"

lemma caches_ok_default: "caches_ok env tt eol (pattern_formatter_default tt eol)"
  by (simp add: caches_ok_def pattern_formatter_default_def cache_ok_def)

lemma to_secs_positive: "msg_ok msg \<Longrightarrow> 0 < to_secs (lm_time msg)"
  by (simp add: msg_ok_def to_secs_def signed_divide_int_def sgn_if pos_imp_zdiv_pos_iff)

lemma pf_format_default:
  assumes "caches_ok env tt eol pf" and "formattable env tt msg"
  shows "\<exists>pf'. pf_format env pf msg dest =
      Inr (pf', colored (length dest) (msg_tm env tt msg) msg,
           dest @ default_line (msg_tm env tt msg) (env_mdc env) msg @ eol) \<and>
    caches_ok env tt eol pf'"
proof -
  let ?pf = "refresh_tm env msg pf" and ?t = "msg_tm env tt msg"
  obtain ts s where fs: "pf_formatters pf = [Fl_full ts s]" "cache_ok (broken_down env tt) (ts, s)"
    using assms(1) by (auto simp: caches_ok_def)
  have ok: "msg_ok msg" "tm_ok ?t" using assms(2) by (simp_all add: formattable_def)
  have pf: "pf_formatters ?pf = [Fl_full ts s]" "pf_eol ?pf = eol" "pf_cached_tm ?pf = ?t"
      "pf_time_type ?pf = tt" "pf_need_localtime ?pf" "pf_last_log_secs ?pf = to_secs (lm_time msg)"
    using assms(1) fs(1) to_secs_positive [OF ok(1)]
    by (auto simp: caches_ok_def refresh_tm_def get_time_def msg_tm_def broken_down_def split: if_splits)
  have "full_formatter (env_mdc env) msg ?t (ts, s) dest =
      Inr ((to_secs (lm_time msg), datetime_text ?t), colored (length dest) ?t msg, dest @ default_line ?t (env_mdc env) msg)"
    using full_formatter_line [OF fs(2) _ ok(1), of "env_mdc env" dest] ok(2) by (simp add: msg_tm_def)
  then show ?thesis
    using pf by (simp add: pf_format_def Let_def write_str_def caches_ok_def cache_ok_def msg_tm_def)
qed

lemma format_all_default:
  assumes "caches_ok env tt eol pf" and "\<forall>msg \<in> set msgs. formattable env tt msg"
  shows "\<exists>pf'. format_all env pf msgs =
    Inr (pf', map (\<lambda>msg. (colored 0 (msg_tm env tt msg) msg, default_line (msg_tm env tt msg) (env_mdc env) msg @ eol)) msgs)"
  using assms
proof (induction msgs arbitrary: pf)
  case (Cons msg msgs)
  then obtain pf' where "caches_ok env tt eol pf'" and "pf_format env pf msg [] =
      Inr (pf', colored 0 (msg_tm env tt msg) msg, default_line (msg_tm env tt msg) (env_mdc env) msg @ eol)"
    using pf_format_default [OF Cons.prems(1), of msg "[]"] by auto
  with Cons.IH [of pf'] Cons.prems(2) show ?case by auto
qed simp

lemma colored_level:
  "take (lm_color_range_end (colored 0 t msg) - lm_color_range_start (colored 0 t msg))
     (drop (lm_color_range_start (colored 0 t msg)) (default_line t mdc msg @ eol)) = to_string_view (lm_level msg)"
  by (simp add: colored_def default_line_def)

lemma pf_clone_default: "pf_clone now (pattern_formatter_default tt eol) = pattern_formatter_default tt eol"
proof -
  have "compile_loop now None ''%+'' = ([Fl_full 0 []], True)"
    by (simp add: compile_loop.simps handle_padspec_def pad_side_spec_def isdigit_def handle_flag_def flush_chars_def)
  then show ?thesis
    by (simp add: pf_clone_def pattern_formatter_default_def pattern_formatter_new_def compile_pattern_def need_localtime_def)
qed

section \<open>Properties\<close>


definition noon :: tm where
  "noon = \<lparr>tm_sec = 5, tm_min = 4, tm_hour = 12, tm_mday = 9, tm_mon = 6, tm_year = 123, tm_wday = 0, tm_gmtoff = 0\<rparr>"

definition noon_env :: log_env where
  "noon_env = \<lparr>env_localtime = (\<lambda>_. noon), env_gmtime = (\<lambda>_. noon), env_pid = 7, env_mdc = []\<rparr>"


text \<open>
  Whatever the pattern, compiling it ends and no formatter gets a width over 64,
  so that padding never reads past the 64 spaces it copies from.
\<close>

theorem compiled_widths:
  "\<forall>f \<in> set (pf_formatters (pattern_formatter_new now pattern tt eol)). \<forall>p \<in> set (paddings f). pi_width p \<le> 64"
  using compile_loop_widths [of now None pattern]
  by (auto simp: pattern_formatter_new_def compile_pattern_def widths_ok_def split: prod.splits)

text \<open>
  Claim C37: a pattern written from its parts compiles to the formatters of the
  parts in their order: literal text stays as it is, every flag gets the side, the width (64 at most)
  and the truncation it was written with.
\<close>

theorem compile_print_roundtrip:
  assumes "\<forall>p \<in> set ps. part_ok p" and "no_adjacent_text ps"
  shows "fst (compile_pattern now (concat (map print_part ps))) = concat (map (part_formatters now) ps)"
  using compile_parts [of ps None now] assms by (simp add: compile_pattern_def flush_chars_def)

theorem compile_print_roundtrip_witness:
  "fst (compile_pattern 0 ''[%-100l] %v'') =
     [Fl_aggregate ''['', Fl_level (padding_info_new 64 pad_right False), Fl_aggregate ''] '', Fl_v padding_info_default]"
proof -
  let ?ps = "[Lit ''['', Pad_flag (Some (pad_right, 100, False)) (CHR ''l''), Lit ''] '', Pad_flag None (CHR ''v'')]"
  have ok: "\<forall>p \<in> set ?ps. part_ok p" "no_adjacent_text ?ps" by (simp_all add: isdigit_def)
  have "concat (map print_part ?ps) = ''[%-100l] %v''" by code_simp
  then show ?thesis
    using compile_print_roundtrip [OF ok, of 0] by (simp add: handle_flag_def)
qed

theorem compiled_widths_witness:
  "pf_formatters (pattern_formatter_new 0 ''%300v'' time_utc []) = [Fl_v (padding_info_new 64 pad_left False)] \<and>
   pi_width (padding_info_new 64 pad_left False) \<le> 64"
proof -
  have 1: "isdigit (CHR ''3'')" "isdigit (CHR ''0'')" "\<not> isdigit (CHR ''v'')" by (simp_all add: isdigit_def)
  have w: "handle_padspec ''300v'' = (padding_info_new 64 pad_left False, ''v'')"
    by (simp add: handle_padspec_def pad_side_spec_def 1 max_width_def)
  have f: "pf_formatters (pattern_formatter_new 0 ''%300v'' time_utc []) = [Fl_v (padding_info_new 64 pad_left False)]"
    by (simp add: pattern_formatter_new_def compile_pattern_def compile_loop.simps w handle_flag_def flush_chars_def)
  have "\<forall>g \<in> set [Fl_v (padding_info_new 64 pad_left False)]. \<forall>p \<in> set (paddings g). pi_width p \<le> 64"
    using compiled_widths [of 0 "''%300v''" time_utc "[]"] unfolding f .
  then show ?thesis using f by simp
qed

text \<open>
  The flag \<^verbatim>\<open>%D\<close> announces ten characters to the padder and writes eight. With a truncating width below
  ten the padder therefore removes two characters too many: at a width of one the date
  is lost together with the last character written before it, and where there is no such character
  the buffer is resized to a negative size, which throws in the padder's destructor and ends the program.
\<close>

theorem date_flag_truncates_text_before:
  assumes "tm_ok t" and "0 \<le> tm_year t"
  shows "D_formatter (padding_info_new 1 side True) t dest =
    (if dest = [] then Inl (Uncaught (Runtime_error ''bad_alloc'')) else Inr (butlast dest))"
proof -
  define s where "s = two_digits (tm_mon t + 1) @ ''/'' @ two_digits (tm_mday t) @ ''/'' @ two_digits (tm_year t smod 100)"
  have y: "0 \<le> tm_year t smod 100" "tm_year t smod 100 < 100"
    using assms(2) by (simp_all add: signed_modulo_int_def sgn_if)
  have w: "writes [pad2 (tm_mon t + 1), write_str ''/'', pad2 (tm_mday t), write_str ''/'', pad2 (tm_year t smod 100)] d =
      Inr (d @ s)" for d
    using assms(1) y by (simp add: tm_ok_def write_str_def appendsD [OF appends_pad2] s_def)
  have "length s = 8" by (simp add: s_def two_digits_def)
  then show ?thesis
    by (cases dest rule: rev_cases)
       (simp_all add: D_formatter_def padded_def padding_info_new_def scoped_padder_ctor_def scoped_padder_dtor_def w
         Let_def guard_run_def del: writes.simps)
qed

theorem date_flag_truncates_text_before_witness:
  "D_formatter (padding_info_new 1 pad_left True) noon ''at '' = Inr ''at''"
  using date_flag_truncates_text_before [of noon pad_left "''at ''"] by (simp add: tm_ok_def noon_def)

end
