(* ===== verification/Spd_Files.thy ===== *)
theory Spd_Files
  imports Spd_Pattern
begin

text \<open>
  How \<^verbatim>\<open>spdlog\<close> writes files: the file functions of the C library over a model of the
  disk, the wrappers of \<^verbatim>\<open>os-inl.h\<close>, and the class \<^verbatim>\<open>file_helper\<close> every file sink writes through.
  Each call that can fail takes its outcome from a list in the state of the disk, so
  a statement about any such list holds for every pattern of failures and of buffering.
\<close>

section \<open>The disk and the files of the C library\<close>

text \<open>
  The outcome of a call: it succeeds, it succeeds and a write goes through to the disk at once instead of
  staying in the buffer of the stream, or it fails. A list that is used up means success.
\<close>

datatype io = Io_ok | Io_through | Io_fail

record disk =
  fs_files :: "string \<rightharpoonup> string"
  fs_dirs :: "string list"
  fs_faults :: "io list"
  fs_errno :: string
  fs_slept :: nat

text \<open>A \<^verbatim>\<open>FILE *\<close> open for appending, and what it still buffers.\<close>

record stream =
  st_path :: string
  st_pending :: string

definition next_io :: "disk \<Rightarrow> io \<times> disk" where
  "next_io d = (case fs_faults d of [] \<Rightarrow> (Io_ok, d) | x # xs \<Rightarrow> (x, d\<lparr>fs_faults := xs\<rparr>))"

definition append_file :: "string \<Rightarrow> string \<Rightarrow> disk \<Rightarrow> disk" where
  "append_file path text d =
     (case fs_files d path of None \<Rightarrow> d | Some old \<Rightarrow> d\<lparr>fs_files := (fs_files d)(path \<mapsto> old @ text)\<rparr>)"

definition c_fopen :: "string \<Rightarrow> bool \<Rightarrow> disk \<Rightarrow> stream option \<times> disk" where
  "c_fopen path trunc d =
     (case next_io d of (r, d1) \<Rightarrow>
        if r = Io_fail then (None, d1)
        else (Some \<lparr>st_path = path, st_pending = []\<rparr>,
              d1\<lparr>fs_files := (fs_files d1)(path \<mapsto> (case fs_files d1 path of None \<Rightarrow> [] | Some old \<Rightarrow> if trunc then [] else old))\<rparr>))"

definition c_fclose :: "stream \<Rightarrow> disk \<Rightarrow> disk" where
  "c_fclose st d =
     (case next_io d of (r, d1) \<Rightarrow> if r = Io_fail then d1 else append_file (st_path st) (st_pending st) d1)"

definition c_fflush :: "stream \<Rightarrow> disk \<Rightarrow> bool \<times> stream \<times> disk" where
  "c_fflush st d =
     (case next_io d of (r, d1) \<Rightarrow>
        if r = Io_fail then (False, st, d1)
        else (True, st\<lparr>st_pending := []\<rparr>, append_file (st_path st) (st_pending st) d1))"

text \<open>The number of bytes written: all of them, or none.\<close>

definition c_fwrite :: "string \<Rightarrow> stream \<Rightarrow> disk \<Rightarrow> nat \<times> stream \<times> disk" where
  "c_fwrite text st d =
     (case next_io d of (r, d1) \<Rightarrow>
        (case r of
           Io_ok \<Rightarrow> (length text, st\<lparr>st_pending := st_pending st @ text\<rparr>, d1)
         | Io_through \<Rightarrow> (length text, st\<lparr>st_pending := []\<rparr>, append_file (st_path st) (st_pending st @ text) d1)
         | Io_fail \<Rightarrow> (0, st, d1)))"

definition c_remove :: "string \<Rightarrow> disk \<Rightarrow> bool \<times> disk" where
  "c_remove path d =
     (case next_io d of (r, d1) \<Rightarrow>
        if r = Io_fail \<or> fs_files d1 path = None then (False, d1)
        else (True, d1\<lparr>fs_files := (fs_files d1)(path := None)\<rparr>))"

text \<open>A directory is never renamed by the code, so a rename of one counts as failed.\<close>

definition c_rename :: "string \<Rightarrow> string \<Rightarrow> disk \<Rightarrow> bool \<times> disk" where
  "c_rename src target d =
     (case next_io d of (r, d1) \<Rightarrow>
        if r = Io_fail \<or> fs_files d1 src = None then (False, d1)
        else (True, d1\<lparr>fs_files := (fs_files d1)(src := None, target := fs_files d1 src)\<rparr>))"

definition c_mkdir :: "string \<Rightarrow> disk \<Rightarrow> bool \<times> disk" where
  "c_mkdir path d =
     (case next_io d of (r, d1) \<Rightarrow>
        if r = Io_fail \<or> path \<in> set (fs_dirs d1) then (False, d1)
        else (True, d1\<lparr>fs_dirs := path # fs_dirs d1\<rparr>))"

text \<open>An exception with the text of the last error of the operating system.\<close>

definition sys_ex :: "disk \<Rightarrow> string \<Rightarrow> exn" where
  "sys_ex d msg = Runtime_error (msg @ '': '' @ fs_errno d)"

section \<open>os-inl.h\<close>

definition path_exists :: "string \<Rightarrow> disk \<Rightarrow> bool" where
  "path_exists filename d \<longleftrightarrow> fs_files d filename \<noteq> None \<or> filename \<in> set (fs_dirs d)"

definition os_fopen_s :: "string \<Rightarrow> bool \<Rightarrow> disk \<Rightarrow> bool \<times> stream option \<times> disk" where
  "os_fopen_s filename trunc d = (case c_fopen filename trunc d of (fp, d1) \<Rightarrow> (fp = None, fp, d1))"

definition os_remove :: "string \<Rightarrow> disk \<Rightarrow> int \<times> disk" where
  "os_remove filename d = (case c_remove filename d of (ok, d1) \<Rightarrow> (if ok then 0 else - 1, d1))"

definition remove_if_exists :: "string \<Rightarrow> disk \<Rightarrow> int \<times> disk" where
  "remove_if_exists filename d = (if path_exists filename d then os_remove filename d else (0, d))"

definition os_rename :: "string \<Rightarrow> string \<Rightarrow> disk \<Rightarrow> int \<times> disk" where
  "os_rename filename1 filename2 d = (case c_rename filename1 filename2 d of (ok, d1) \<Rightarrow> (if ok then 0 else - 1, d1))"

definition filesize :: "stream option \<Rightarrow> disk \<Rightarrow> (exn + u64) \<times> disk" where
  "filesize f d =
     (case f of
        None \<Rightarrow> (Inl (Runtime_error ''Failed getting file size. fd is null''), d)
      | Some st \<Rightarrow>
          (case next_io d of (r, d1) \<Rightarrow>
             if r = Io_fail then (Inl (sys_ex d1 ''Failed getting file size from fd''), d1)
             else (Inr (of_nat (case fs_files d1 (st_path st) of None \<Rightarrow> 0 | Some s \<Rightarrow> length s)), d1)))"

definition sleep_for_millis :: "nat \<Rightarrow> disk \<Rightarrow> disk" where
  "sleep_for_millis ms d = d\<lparr>fs_slept := fs_slept d + ms\<rparr>"

text \<open>\<^verbatim>\<open>find_first_of\<close> from an offset and \<^verbatim>\<open>find_last_of\<close>; the only separator of folders is the slash.\<close>

definition find_first :: "char \<Rightarrow> string \<Rightarrow> nat \<Rightarrow> nat option" where
  "find_first c s off = map_option (\<lambda>i. off + i) (index_of c (drop off s))"

definition find_last :: "char \<Rightarrow> string \<Rightarrow> nat option" where
  "find_last c s = map_option (\<lambda>i. length s - 1 - i) (index_of c (rev s))"

definition dir_name :: "string \<Rightarrow> string" where
  "dir_name path = (case find_last (CHR ''/'') path of Some pos \<Rightarrow> take pos path | None \<Rightarrow> [])"

function create_dir_loop :: "string \<Rightarrow> nat \<Rightarrow> disk \<Rightarrow> bool \<times> disk" where
  "create_dir_loop path search_offset d =
     (let token_pos = (case find_first (CHR ''/'') path search_offset of Some i \<Rightarrow> i | None \<Rightarrow> length path);
          subdir = take token_pos path;
          (made, d1) = (if subdir \<noteq> [] \<and> \<not> path_exists subdir d then c_mkdir subdir d else (True, d))
      in if \<not> made then (False, d1)
         else if token_pos + 1 < length path then create_dir_loop path (token_pos + 1) d1
         else (True, d1))"
  by pat_completeness auto
termination
  by (relation "measure (\<lambda>(path, off, d). Suc (length path) - off)")
     (auto simp: find_first_def split: option.splits)

declare create_dir_loop.simps [simp del]

definition create_dir :: "string \<Rightarrow> disk \<Rightarrow> bool \<times> disk" where
  "create_dir path d =
     (if path_exists path d then (True, d)
      else if path = [] then (False, d)
      else create_dir_loop path 0 d)"

section \<open>Class file\_helper\<close>

text \<open>The callbacks of the user, each of them optional.\<close>

record file_event_handlers =
  before_open :: "(string \<Rightarrow> disk \<Rightarrow> disk) option"
  after_open :: "(string \<Rightarrow> stream \<Rightarrow> disk \<Rightarrow> stream \<times> disk) option"
  before_close :: "(string \<Rightarrow> stream \<Rightarrow> disk \<Rightarrow> stream \<times> disk) option"
  after_close :: "(string \<Rightarrow> disk \<Rightarrow> disk) option"

definition no_handlers :: file_event_handlers where
  "no_handlers = \<lparr>before_open = None, after_open = None, before_close = None, after_close = None\<rparr>"

record file_helper =
  fh_fd :: "stream option"
  fh_filename :: string
  fh_handlers :: file_event_handlers

definition open_tries :: nat where "open_tries = 5"

definition open_interval :: nat where "open_interval = 10"

definition file_helper_new :: "file_event_handlers \<Rightarrow> file_helper" where
  "file_helper_new h = \<lparr>fh_fd = None, fh_filename = [], fh_handlers = h\<rparr>"

definition fh_close :: "file_helper \<Rightarrow> disk \<Rightarrow> file_helper \<times> disk" where
  "fh_close fh d =
     (case fh_fd fh of
        None \<Rightarrow> (fh, d)
      | Some st \<Rightarrow>
          (let (st1, d1) = (case before_close (fh_handlers fh) of None \<Rightarrow> (st, d) | Some f \<Rightarrow> f (fh_filename fh) st d);
               d2 = c_fclose st1 d1;
               d3 = (case after_close (fh_handlers fh) of None \<Rightarrow> d2 | Some f \<Rightarrow> f (fh_filename fh) d2)
           in (fh\<lparr>fh_fd := None\<rparr>, d3)))"

text \<open>
  One call per try. Where truncating fails the loop continues at once, without the sleep
  at its end.
\<close>

fun open_loop :: "nat \<Rightarrow> string \<Rightarrow> bool \<Rightarrow> file_helper \<Rightarrow> disk \<Rightarrow> bool \<times> file_helper \<times> disk" where
  "open_loop 0 fname trunc fh d = (False, fh, d)"
| "open_loop (Suc tries) fname trunc fh d =
     (let d1 = snd (create_dir (dir_name fname) d);
          (failed, d2) =
            (if trunc then
               (case os_fopen_s fname True d1 of
                  (_, None, d') \<Rightarrow> (True, d')
                | (_, Some tmp, d') \<Rightarrow> (False, c_fclose tmp d'))
             else (False, d1))
      in if failed then open_loop tries fname trunc fh d2
         else (case os_fopen_s fname False d2 of
                 (_, Some fd, d3) \<Rightarrow>
                   (case after_open (fh_handlers fh) of
                      None \<Rightarrow> (True, fh\<lparr>fh_fd := Some fd\<rparr>, d3)
                    | Some f \<Rightarrow> (case f (fh_filename fh) fd d3 of (fd', d4) \<Rightarrow> (True, fh\<lparr>fh_fd := Some fd'\<rparr>, d4)))
               | (_, None, d3) \<Rightarrow> open_loop tries fname trunc fh (sleep_for_millis open_interval d3)))"

definition fh_open :: "string \<Rightarrow> bool \<Rightarrow> file_helper \<Rightarrow> disk \<Rightarrow> exn option \<times> file_helper \<times> disk" where
  "fh_open fname trunc fh d =
     (let (fh1, d1) = fh_close fh d;
          fh2 = fh1\<lparr>fh_filename := fname\<rparr>;
          d2 = (case before_open (fh_handlers fh2) of None \<Rightarrow> d1 | Some f \<Rightarrow> f fname d1)
      in case open_loop open_tries fname trunc fh2 d2 of
           (True, fh3, d3) \<Rightarrow> (None, fh3, d3)
         | (False, fh3, d3) \<Rightarrow> (Some (sys_ex d3 (''Failed opening file '' @ fname @ '' for writing'')), fh3, d3))"

definition fh_reopen :: "bool \<Rightarrow> file_helper \<Rightarrow> disk \<Rightarrow> exn option \<times> file_helper \<times> disk" where
  "fh_reopen trunc fh d =
     (if fh_filename fh = [] then (Some (Runtime_error ''Failed re opening file - was not opened before''), fh, d)
      else fh_open (fh_filename fh) trunc fh d)"

text \<open>
  Without an open file \<^verbatim>\<open>fflush\<close> gets a null pointer and flushes every stream of the process;
  what it does to the other streams is not modelled.
\<close>

definition fh_flush :: "file_helper \<Rightarrow> disk \<Rightarrow> exn option \<times> file_helper \<times> disk" where
  "fh_flush fh d =
     (case fh_fd fh of
        None \<Rightarrow> (case next_io d of (r, d1) \<Rightarrow>
           (if r = Io_fail then Some (sys_ex d1 (''Failed flush to file '' @ fh_filename fh)) else None, fh, d1))
      | Some st \<Rightarrow>
          (case c_fflush st d of (ok, st1, d1) \<Rightarrow>
             (if ok then None else Some (sys_ex d1 (''Failed flush to file '' @ fh_filename fh)),
              fh\<lparr>fh_fd := Some st1\<rparr>, d1)))"

definition fh_sync :: "file_helper \<Rightarrow> disk \<Rightarrow> (exn option \<times> disk) run" where
  "fh_sync fh d =
     bind_run (deref (fh_fd fh)) (\<lambda>_.
       Inr (case next_io d of (r, d1) \<Rightarrow>
              (if r = Io_fail then Some (sys_ex d1 (''Failed to fsync file '' @ fh_filename fh)) else None, d1)))"

definition fh_write :: "string \<Rightarrow> file_helper \<Rightarrow> disk \<Rightarrow> exn option \<times> file_helper \<times> disk" where
  "fh_write buf fh d =
     (case fh_fd fh of
        None \<Rightarrow> (None, fh, d)
      | Some st \<Rightarrow>
          (case c_fwrite buf st d of (n, st1, d1) \<Rightarrow>
             (if n \<noteq> length buf then Some (sys_ex d1 (''Failed writing to file '' @ fh_filename fh)) else None,
              fh\<lparr>fh_fd := Some st1\<rparr>, d1)))"

definition fh_size :: "file_helper \<Rightarrow> disk \<Rightarrow> (exn + u64) \<times> disk" where
  "fh_size fh d =
     (if fh_fd fh = None
      then (Inl (Runtime_error (''Cannot use size() on closed file '' @ fh_filename fh)), d)
      else filesize (fh_fd fh) d)"

text \<open>The path of a file and its extension, which includes the dot.\<close>

definition split_by_extension :: "string \<Rightarrow> string \<times> string" where
  "split_by_extension fname =
     (case find_last (CHR ''.'') fname of
        None \<Rightarrow> (fname, [])
      | Some ext_index \<Rightarrow>
          if ext_index = 0 \<or> ext_index = length fname - 1 then (fname, [])
          else (case find_last (CHR ''/'') fname of
                  Some folder_index \<Rightarrow>
                    if folder_index \<ge> ext_index - 1 then (fname, [])
                    else (take ext_index fname, drop ext_index fname)
                | None \<Rightarrow> (take ext_index fname, drop ext_index fname)))"

end
