(* ===== verification/Spd_Sinks.thy ===== *)
theory Spd_Sinks
  imports Spd_Files
begin

text \<open>
  The file sinks of \<^verbatim>\<open>spdlog\<close>: the basic one, and the one that rotates through numbered
  files. The contract of the rotating sink is a list of segments, newest first; the
  property says that its files on the disk are such a list, whatever the standard library buffers.
\<close>

section \<open>Names of the rotated files\<close>

text \<open>\<^verbatim>\<open>fmt\<close> writes the index with \<^verbatim>\<open>format_decimal\<close>, whose result is \<^term>\<open>decimal\<close>.\<close>

definition calc_filename :: "string \<Rightarrow> nat \<Rightarrow> string" where
  "calc_filename filename index =
     (if index = 0 then filename
      else (case split_by_extension filename of (base, ext) \<Rightarrow> base @ ''.'' @ decimal index @ ext))"

section \<open>Class basic\_file\_sink\<close>

record basic_file_sink =
  bs_file :: file_helper
  bs_formatter :: pattern_formatter

text \<open>A newline ends every line.\<close>

definition default_eol :: string where
  "default_eol = [CHR 10]"

definition base_formatter :: pattern_formatter where
  "base_formatter = pattern_formatter_default time_local default_eol"

definition basic_file_sink_new :: "string \<Rightarrow> bool \<Rightarrow> file_event_handlers \<Rightarrow> disk \<Rightarrow> (exn + basic_file_sink) \<times> disk" where
  "basic_file_sink_new filename trunc handlers d =
     (case fh_open filename trunc (file_helper_new handlers) d of
        (Some e, fh, d1) \<Rightarrow> (Inl e, snd (fh_close fh d1))
      | (None, fh, d1) \<Rightarrow> (Inr \<lparr>bs_file = fh, bs_formatter = base_formatter\<rparr>, d1))"

definition bs_sink_it ::
    "log_env \<Rightarrow> log_msg \<Rightarrow> basic_file_sink \<Rightarrow> disk \<Rightarrow> (exn option \<times> log_msg \<times> basic_file_sink \<times> disk) run" where
  "bs_sink_it env msg s d =
     bind_run (pf_format env (bs_formatter s) msg []) (\<lambda>(pf, msg', formatted).
       (case fh_write formatted (bs_file s) d of (e, fh, d1) \<Rightarrow>
          Inr (e, msg', s\<lparr>bs_formatter := pf, bs_file := fh\<rparr>, d1)))"

definition bs_flush :: "basic_file_sink \<Rightarrow> disk \<Rightarrow> exn option \<times> basic_file_sink \<times> disk" where
  "bs_flush s d = (case fh_flush (bs_file s) d of (e, fh, d1) \<Rightarrow> (e, s\<lparr>bs_file := fh\<rparr>, d1))"

section \<open>Class rotating\_file\_sink\<close>

record rotating_file_sink =
  rs_base_filename :: string
  rs_max_size :: u64
  rs_max_files :: nat
  rs_current_size :: u64
  rs_file :: file_helper
  rs_formatter :: pattern_formatter

definition rename_file :: "string \<Rightarrow> string \<Rightarrow> disk \<Rightarrow> bool \<times> disk" where
  "rename_file src_filename target_filename d =
     (case os_rename src_filename target_filename (snd (os_remove target_filename d)) of (r, d1) \<Rightarrow> (r = 0, d1))"

fun rotate_loop :: "nat \<Rightarrow> rotating_file_sink \<Rightarrow> disk \<Rightarrow> exn option \<times> rotating_file_sink \<times> disk" where
  "rotate_loop 0 s d = (None, s, d)"
| "rotate_loop (Suc n) s d =
     (let src = calc_filename (rs_base_filename s) n
      in if \<not> path_exists src d then rotate_loop n s d
         else (let target = calc_filename (rs_base_filename s) (Suc n)
               in case rename_file src target d of
                    (True, d1) \<Rightarrow> rotate_loop n s d1
                  | (False, d1) \<Rightarrow>
                      (case rename_file src target (sleep_for_millis 100 d1) of
                         (True, d2) \<Rightarrow> rotate_loop n s d2
                       | (False, d2) \<Rightarrow>
                           (case fh_reopen True (rs_file s) d2 of
                              (Some e, fh, d3) \<Rightarrow> (Some e, s\<lparr>rs_file := fh\<rparr>, d3)
                            | (None, fh, d3) \<Rightarrow>
                                (Some (sys_ex d3 (''rotating_file_sink: failed renaming '' @ src @ '' to '' @ target)),
                                 s\<lparr>rs_file := fh, rs_current_size := 0\<rparr>, d3)))))"

definition rotate_files :: "rotating_file_sink \<Rightarrow> disk \<Rightarrow> exn option \<times> rotating_file_sink \<times> disk" where
  "rotate_files s d =
     (case fh_close (rs_file s) d of (fh, d1) \<Rightarrow>
        (case rotate_loop (rs_max_files s) (s\<lparr>rs_file := fh\<rparr>) d1 of
           (Some e, s1, d2) \<Rightarrow> (Some e, s1, d2)
         | (None, s1, d2) \<Rightarrow> (case fh_reopen True (rs_file s1) d2 of (e, fh', d3) \<Rightarrow> (e, s1\<lparr>rs_file := fh'\<rparr>, d3))))"

text \<open>What the constructor throws after the file is open closes it again, in the destructor of the member.\<close>

definition rotating_file_sink_new ::
    "string \<Rightarrow> u64 \<Rightarrow> nat \<Rightarrow> bool \<Rightarrow> file_event_handlers \<Rightarrow> disk \<Rightarrow> (exn + rotating_file_sink) \<times> disk" where
  "rotating_file_sink_new base_filename max_size max_files rotate_on_open handlers d =
     (if max_size = 0
      then (Inl (Runtime_error ''rotating sink constructor: max_size arg cannot be zero''), d)
      else if max_files > 200000
      then (Inl (Runtime_error ''rotating sink constructor: max_files arg cannot exceed 200000''), d)
      else (case fh_open (calc_filename base_filename 0) False (file_helper_new handlers) d of
              (Some e, fh, d1) \<Rightarrow> (Inl e, snd (fh_close fh d1))
            | (None, fh, d1) \<Rightarrow>
                (case fh_size fh d1 of
                   (Inl e, d2) \<Rightarrow> (Inl e, snd (fh_close fh d2))
                 | (Inr n, d2) \<Rightarrow>
                     (let s = \<lparr>rs_base_filename = base_filename, rs_max_size = max_size, rs_max_files = max_files,
                               rs_current_size = n, rs_file = fh, rs_formatter = base_formatter\<rparr>
                      in if rotate_on_open \<and> n > 0 then
                           (case rotate_files s d2 of
                              (Some e, s1, d3) \<Rightarrow> (Inl e, snd (fh_close (rs_file s1) d3))
                            | (None, s1, d3) \<Rightarrow> (Inr (s1\<lparr>rs_current_size := 0\<rparr>), d3))
                         else (Inr s, d2)))))"

text \<open>The part of \<^verbatim>\<open>sink_it_\<close> after the message has been formatted.\<close>

definition write_line :: "string \<Rightarrow> u64 \<Rightarrow> rotating_file_sink \<Rightarrow> disk \<Rightarrow> exn option \<times> rotating_file_sink \<times> disk" where
  "write_line formatted new_size s d =
     (case fh_write formatted (rs_file s) d of
        (Some e, fh, d1) \<Rightarrow> (Some e, s\<lparr>rs_file := fh\<rparr>, d1)
      | (None, fh, d1) \<Rightarrow> (None, s\<lparr>rs_file := fh, rs_current_size := new_size\<rparr>, d1))"

definition sink_line :: "string \<Rightarrow> rotating_file_sink \<Rightarrow> disk \<Rightarrow> exn option \<times> rotating_file_sink \<times> disk" where
  "sink_line formatted s d =
     (let new_size = rs_current_size s + of_nat (length formatted)
      in if new_size > rs_max_size s then
           (case fh_flush (rs_file s) d of
              (Some e, fh, d1) \<Rightarrow> (Some e, s\<lparr>rs_file := fh\<rparr>, d1)
            | (None, fh, d1) \<Rightarrow>
                (let s1 = s\<lparr>rs_file := fh\<rparr>
                 in case fh_size fh d1 of
                      (Inl e, d2) \<Rightarrow> (Some e, s1, d2)
                    | (Inr n, d2) \<Rightarrow>
                        if n > 0 then
                          (case rotate_files s1 d2 of
                             (Some e, s2, d3) \<Rightarrow> (Some e, s2, d3)
                           | (None, s2, d3) \<Rightarrow> write_line formatted (of_nat (length formatted)) s2 d3)
                        else write_line formatted new_size s1 d2))
         else write_line formatted new_size s d)"

definition rs_sink_it ::
    "log_env \<Rightarrow> log_msg \<Rightarrow> rotating_file_sink \<Rightarrow> disk \<Rightarrow> (exn option \<times> log_msg \<times> rotating_file_sink \<times> disk) run" where
  "rs_sink_it env msg s d =
     bind_run (pf_format env (rs_formatter s) msg []) (\<lambda>(pf, msg', formatted).
       (case sink_line formatted (s\<lparr>rs_formatter := pf\<rparr>) d of (e, s1, d1) \<Rightarrow> Inr (e, msg', s1, d1)))"

definition rs_flush :: "rotating_file_sink \<Rightarrow> disk \<Rightarrow> exn option \<times> rotating_file_sink \<times> disk" where
  "rs_flush s d = (case fh_flush (rs_file s) d of (e, fh, d1) \<Rightarrow> (e, s\<lparr>rs_file := fh\<rparr>, d1))"

definition rs_filename :: "rotating_file_sink \<Rightarrow> string" where
  "rs_filename s = fh_filename (rs_file s)"

section \<open>The names of the rotated files differ\<close>

lemma split_concat: "fst (split_by_extension f) @ snd (split_by_extension f) = f"
  by (auto simp: split_by_extension_def split: option.splits)

lemma calc_filename_longer:
  assumes "0 < i"
  shows "length f < length (calc_filename f i)"
proof -
  obtain b e where s: "split_by_extension f = (b, e)" by (cases "split_by_extension f")
  then have "f = b @ e" using split_concat [of f] by simp
  then show ?thesis using assms s by (simp add: calc_filename_def)
qed

lemma calc_filename_inj:
  assumes "calc_filename f i = calc_filename f j"
  shows "i = j"
proof (cases "i = 0 \<or> j = 0")
  case True
  then show ?thesis
    using assms calc_filename_longer [of i f] calc_filename_longer [of j f]
    by (cases "i = 0"; cases "j = 0") (simp_all add: calc_filename_def)
next
  case False
  then show ?thesis using assms by (auto simp: calc_filename_def dest: decimal_inject split: prod.splits)
qed

lemma calc_filename_eq [simp]: "calc_filename f i = calc_filename f j \<longleftrightarrow> i = j"
  using calc_filename_inj by auto

section \<open>Calls that do not fail\<close>

definition no_fail :: "disk \<Rightarrow> bool" where
  "no_fail d \<longleftrightarrow> Io_fail \<notin> set (fs_faults d)"

text \<open>The next disk: some outcomes are used up, directories are added that are no longer than a path.\<close>

definition later :: "nat \<Rightarrow> disk \<Rightarrow> disk \<Rightarrow> bool" where
  "later n d d' \<longleftrightarrow> no_fail d' \<and> (\<forall>p \<in> set (fs_dirs d') - set (fs_dirs d). length p < n)"

lemma no_fail_io:
  assumes "no_fail d"
  obtains r d1 where "next_io d = (r, d1)" "r \<noteq> Io_fail" "no_fail d1" "fs_files d1 = fs_files d" "fs_dirs d1 = fs_dirs d"
  using assms by (cases "fs_faults d") (auto simp: next_io_def no_fail_def)

definition append_to :: "string \<Rightarrow> string \<Rightarrow> (string \<rightharpoonup> string) \<Rightarrow> (string \<rightharpoonup> string)" where
  "append_to p t f = (case f p of None \<Rightarrow> f | Some old \<Rightarrow> f(p \<mapsto> old @ t))"

lemma fs_append_file [simp]:
  "fs_files (append_file p t d) = append_to p t (fs_files d)"
  "fs_dirs (append_file p t d) = fs_dirs d" "no_fail (append_file p t d) = no_fail d"
  by (simp_all add: append_file_def append_to_def no_fail_def split: option.splits)

lemma create_dir_loop_later:
  assumes "no_fail d"
  shows "fs_files (snd (create_dir_loop path off d)) = fs_files d \<and> later (Suc (length path)) d (snd (create_dir_loop path off d))"
  using assms
proof (induction path off d rule: create_dir_loop.induct)
  case (1 path off d)
  define tp where "tp = (case find_first (CHR ''/'') path off of Some i \<Rightarrow> i | None \<Rightarrow> length path)"
  define md where "md = (if take tp path \<noteq> [] \<and> \<not> path_exists (take tp path) d then c_mkdir (take tp path) d else (True, d))"
  obtain made d1 where m: "md = (made, d1)" by (cases md)
  obtain r d0 where io: "next_io d = (r, d0)" "r \<noteq> Io_fail" "no_fail d0" "fs_files d0 = fs_files d" "fs_dirs d0 = fs_dirs d"
    using no_fail_io [OF 1(2)] .
  have d1: "no_fail d1" "fs_files d1 = fs_files d" "set (fs_dirs d1) \<subseteq> insert (take tp path) (set (fs_dirs d))"
    using m io 1(2) by (auto simp: md_def c_mkdir_def no_fail_def split: if_splits)
  have step: "create_dir_loop path off d =
      (if \<not> made then (False, d1) else if tp + 1 < length path then create_dir_loop path (tp + 1) d1 else (True, d1))"
    unfolding create_dir_loop.simps [of path off d] Let_def tp_def [symmetric] md_def [symmetric] m by simp
  have here: "later (Suc (length path)) d d1" using d1 by (auto simp: later_def)
  show ?case
  proof (cases "made \<and> tp + 1 < length path")
    case True
    then have "fs_files (snd (create_dir_loop path (tp + 1) d1)) = fs_files d1 \<and>
        later (Suc (length path)) d1 (snd (create_dir_loop path (tp + 1) d1))"
      using 1(1) [OF tp_def refl m [unfolded md_def, symmetric]] d1(1) by simp
    then show ?thesis using True step d1 here unfolding later_def by auto
  next
    case False
    then show ?thesis using step d1 here by auto
  qed
qed

lemma later_refl: "no_fail d \<Longrightarrow> later n d d"
  by (simp add: later_def)

lemma later_trans: "later n d d1 \<Longrightarrow> later n d1 d2 \<Longrightarrow> later n d d2"
  by (auto simp: later_def)

lemma later_no_fail: "later n d d' \<Longrightarrow> no_fail d'"
  by (simp add: later_def)

lemma find_last_less: "find_last c s = Some i \<Longrightarrow> i < length s"
  by (cases s) (auto simp: find_last_def)

lemma dir_name_shorter: "dir_name p \<noteq> [] \<Longrightarrow> Suc (length (dir_name p)) \<le> length p"
  by (auto simp: dir_name_def dest: find_last_less split: option.splits)

lemma create_dir_later:
  assumes "no_fail d"
  shows "fs_files (snd (create_dir (dir_name p) d)) = fs_files d \<and> later (length p) d (snd (create_dir (dir_name p) d))"
proof (cases "path_exists (dir_name p) d \<or> dir_name p = []")
  case True
  then show ?thesis using assms by (auto simp: create_dir_def later_refl)
next
  case False
  then show ?thesis
    using create_dir_loop_later [OF assms, of "dir_name p" 0] dir_name_shorter [of p]
    by (auto simp: create_dir_def later_def) (meson DiffI less_le_trans)
qed

definition opened :: "string \<Rightarrow> bool \<Rightarrow> (string \<rightharpoonup> string) \<Rightarrow> (string \<rightharpoonup> string)" where
  "opened p trunc f = f(p \<mapsto> (case f p of None \<Rightarrow> [] | Some old \<Rightarrow> if trunc then [] else old))"

lemma opened_twice: "opened p False (opened p True f) = opened p True f"
  by (auto simp: opened_def split: option.splits)

lemma c_fopen_ok:
  assumes "no_fail d"
  shows "\<exists>d'. c_fopen p trunc d = (Some \<lparr>st_path = p, st_pending = []\<rparr>, d') \<and> later n d d' \<and>
    fs_files d' = opened p trunc (fs_files d)"
proof -
  obtain r d1 where "next_io d = (r, d1)" "r \<noteq> Io_fail" "no_fail d1" "fs_files d1 = fs_files d" "fs_dirs d1 = fs_dirs d"
    using no_fail_io [OF assms] .
  then show ?thesis by (simp add: c_fopen_def later_def no_fail_def opened_def)
qed

lemma c_fclose_ok:
  assumes "no_fail d"
  shows "later n d (c_fclose st d) \<and> fs_files (c_fclose st d) = append_to (st_path st) (st_pending st) (fs_files d)"
proof -
  obtain r d1 where "next_io d = (r, d1)" "r \<noteq> Io_fail" "no_fail d1" "fs_files d1 = fs_files d" "fs_dirs d1 = fs_dirs d"
    using no_fail_io [OF assms] .
  then show ?thesis by (simp add: c_fclose_def later_def)
qed

lemma append_to_nil [simp]: "append_to p [] f = f"
  by (auto simp: append_to_def split: option.splits)

definition closed_files :: "file_helper \<Rightarrow> (string \<rightharpoonup> string) \<Rightarrow> (string \<rightharpoonup> string)" where
  "closed_files fh f = (case fh_fd fh of None \<Rightarrow> f | Some st \<Rightarrow> append_to (st_path st) (st_pending st) f)"

lemma fh_close_ok:
  assumes "no_fail d" and "fh_handlers fh = no_handlers"
  shows "\<exists>d'. fh_close fh d = (fh\<lparr>fh_fd := None\<rparr>, d') \<and> later n d d' \<and> fs_files d' = closed_files fh (fs_files d)"
proof (cases "fh_fd fh")
  case None
  then show ?thesis using assms(1) by (simp add: fh_close_def closed_files_def later_refl)
next
  case (Some st)
  then show ?thesis
    using c_fclose_ok [OF assms(1), of n st] assms(2) by (simp add: fh_close_def closed_files_def no_handlers_def)
qed

lemma open_loop_ok:
  assumes "no_fail d" and "fh_handlers fh = no_handlers"
  shows "\<exists>d'. open_loop (Suc n) p trunc fh d = (True, fh\<lparr>fh_fd := Some \<lparr>st_path = p, st_pending = []\<rparr>\<rparr>, d') \<and>
    later (length p) d d' \<and>
    fs_files d' = opened p trunc (fs_files d)"
proof -
  define d1 where "d1 = snd (create_dir (dir_name p) d)"
  have d1: "fs_files d1 = fs_files d" "later (length p) d d1" using create_dir_later [OF assms(1)] by (simp_all add: d1_def)
  note nf1 = later_no_fail [OF d1(2)]
  show ?thesis
  proof (cases trunc)
    case False
    obtain d2 where "c_fopen p False d1 = (Some \<lparr>st_path = p, st_pending = []\<rparr>, d2)" "later (length p) d1 d2"
        "fs_files d2 = opened p False (fs_files d1)"
      using c_fopen_ok [OF nf1, of p False "length p"] by auto
    then show ?thesis
      using False d1 assms(2) later_trans [OF d1(2)]
      by (simp add: d1_def [symmetric] os_fopen_s_def no_handlers_def)
  next
    case True
    obtain d2 where o2: "c_fopen p True d1 = (Some \<lparr>st_path = p, st_pending = []\<rparr>, d2)" "later (length p) d1 d2"
        "fs_files d2 = opened p True (fs_files d1)"
      using c_fopen_ok [OF nf1, of p True "length p"] by auto
    define d3 where "d3 = c_fclose \<lparr>st_path = p, st_pending = []\<rparr> d2"
    have d3: "later (length p) d2 d3" "fs_files d3 = fs_files d2"
      using c_fclose_ok [OF later_no_fail [OF o2(2)], of "length p" "\<lparr>st_path = p, st_pending = []\<rparr>"] by (simp_all add: d3_def)
    obtain d4 where o4: "c_fopen p False d3 = (Some \<lparr>st_path = p, st_pending = []\<rparr>, d4)" "later (length p) d3 d4"
        "fs_files d4 = opened p False (fs_files d3)"
      using c_fopen_ok [OF later_no_fail [OF d3(1)], of p False "length p"] by auto
    have "later (length p) d d4" using d1(2) o2(2) d3(1) o4(2) later_trans by blast
    then show ?thesis
      using True o2 o4 d3(2) d1(1) assms(2)
      by (simp add: d1_def [symmetric] d3_def [symmetric] os_fopen_s_def no_handlers_def opened_twice)
  qed
qed

lemma fh_open_ok:
  assumes "no_fail d" and "fh_handlers fh = no_handlers"
  defines "f \<equiv> closed_files fh (fs_files d)"
  shows "\<exists>d'. fh_open p trunc fh d =
      (None, fh\<lparr>fh_fd := Some \<lparr>st_path = p, st_pending = []\<rparr>, fh_filename := p\<rparr>, d') \<and>
    later (length p) d d' \<and>
    fs_files d' = opened p trunc f"
proof -
  obtain d1 where d1: "fh_close fh d = (fh\<lparr>fh_fd := None\<rparr>, d1)" "later (length p) d d1" "fs_files d1 = f"
    using fh_close_ok [OF assms(1,2), of "length p"] by (auto simp: f_def)
  let ?fh = "fh\<lparr>fh_fd := None, fh_filename := p\<rparr>"
  obtain d2 where "open_loop (Suc 4) p trunc ?fh d1 = (True, ?fh\<lparr>fh_fd := Some \<lparr>st_path = p, st_pending = []\<rparr>\<rparr>, d2)"
      "later (length p) d1 d2" "fs_files d2 = opened p trunc f"
    using open_loop_ok [OF later_no_fail [OF d1(2)], of ?fh 4 p trunc] assms(2) d1(3) by auto
  then show ?thesis
    using d1 assms(2) later_trans [OF d1(2)]
    by (simp add: fh_open_def open_tries_def no_handlers_def del: open_loop.simps)
qed

section \<open>What is in the files once everything buffered is written\<close>

definition logical :: "file_helper \<Rightarrow> disk \<Rightarrow> (string \<rightharpoonup> string)" where
  "logical fh d = closed_files fh (fs_files d)"

text \<open>A file helper is ready: its stream is open on a file that is there.\<close>

definition fh_ready :: "string \<Rightarrow> file_helper \<Rightarrow> disk \<Rightarrow> bool" where
  "fh_ready p fh d \<longleftrightarrow> no_fail d \<and> fh_handlers fh = no_handlers \<and> fh_filename fh = p \<and> fs_files d p \<noteq> None \<and>
     (\<exists>st. fh_fd fh = Some st \<and> st_path st = p)"

lemma append_to_append: "append_to p t (append_to p s f) = append_to p (s @ t) f"
  by (auto simp: append_to_def split: option.splits)

lemma append_to_dom: "append_to p t f q = None \<longleftrightarrow> f q = None"
  by (auto simp: append_to_def split: option.splits)

lemma append_to_same: "append_to p t f p = map_option (\<lambda>s. s @ t) (f p)"
  by (auto simp: append_to_def split: option.splits)

lemma append_to_other: "q \<noteq> p \<Longrightarrow> append_to p t f q = f q"
  by (auto simp: append_to_def split: option.splits)

lemma fh_write_ok:
  assumes "fh_ready p fh d"
  shows "\<exists>fh' d'. fh_write buf fh d = (None, fh', d') \<and> fh_ready p fh' d' \<and> fs_dirs d' = fs_dirs d \<and>
    logical fh' d' = append_to p buf (logical fh d)"
proof -
  obtain st where st: "fh_fd fh = Some st" "st_path st = p" and nf: "no_fail d" using assms by (auto simp: fh_ready_def)
  obtain r d1 where io: "next_io d = (r, d1)" "r \<noteq> Io_fail" "no_fail d1" "fs_files d1 = fs_files d" "fs_dirs d1 = fs_dirs d"
    using no_fail_io [OF nf] .
  then show ?thesis
    using st assms
    by (cases r) (auto simp: fh_write_def c_fwrite_def logical_def closed_files_def append_to_append fh_ready_def append_to_same)
qed

lemma fh_flush_ok:
  assumes "fh_ready p fh d"
  shows "\<exists>fh' d'. fh_flush fh d = (None, fh', d') \<and> fh_ready p fh' d' \<and> fs_dirs d' = fs_dirs d \<and>
    logical fh' d' = logical fh d \<and> fs_files d' = logical fh d"
proof -
  obtain st where st: "fh_fd fh = Some st" "st_path st = p" and nf: "no_fail d" using assms by (auto simp: fh_ready_def)
  obtain r d1 where io: "next_io d = (r, d1)" "r \<noteq> Io_fail" "no_fail d1" "fs_files d1 = fs_files d" "fs_dirs d1 = fs_dirs d"
    using no_fail_io [OF nf] .
  then show ?thesis
    using st assms
    by (auto simp: fh_flush_def c_fflush_def logical_def closed_files_def fh_ready_def append_to_same)
qed

lemma fh_size_ok:
  assumes "fh_ready p fh d"
  shows "\<exists>d'. fh_size fh d = (Inr (of_nat (length (the (fs_files d p)))), d') \<and> no_fail d' \<and>
    fs_dirs d' = fs_dirs d \<and> fs_files d' = fs_files d"
proof -
  obtain st where st: "fh_fd fh = Some st" "st_path st = p" and nf: "no_fail d" using assms by (auto simp: fh_ready_def)
  obtain r d1 where io: "next_io d = (r, d1)" "r \<noteq> Io_fail" "no_fail d1" "fs_files d1 = fs_files d" "fs_dirs d1 = fs_dirs d"
    using no_fail_io [OF nf] .
  then show ?thesis using st assms by (auto simp: fh_size_def filesize_def fh_ready_def split: option.splits)
qed

lemma ready_same_files:
  "fh_ready p fh d \<Longrightarrow> no_fail d' \<Longrightarrow> fs_files d' = fs_files d \<Longrightarrow> fh_ready p fh d' \<and> logical fh d' = logical fh d"
  by (simp add: fh_ready_def logical_def)

section \<open>Shifting the numbered files\<close>

definition shifted :: "nat \<Rightarrow> (nat \<Rightarrow> string option) \<Rightarrow> nat \<Rightarrow> string option" where
  "shifted n f i =
     (if n = 0 \<or> n < i then f i
      else if i = 0 then None
      else if i = n then (case f (n - 1) of None \<Rightarrow> f n | Some s \<Rightarrow> Some s)
      else f (i - 1))"

lemma rename_file_ok:
  assumes "no_fail d" and "fs_files d src \<noteq> None" and "src \<noteq> target"
  shows "\<exists>d'. rename_file src target d = (True, d') \<and> no_fail d' \<and> fs_dirs d' = fs_dirs d \<and>
    fs_files d' = (fs_files d)(src := None, target := fs_files d src)"
proof -
  obtain r d1 where io: "next_io d = (r, d1)" "r \<noteq> Io_fail" "no_fail d1" "fs_files d1 = fs_files d" "fs_dirs d1 = fs_dirs d"
    using no_fail_io [OF assms(1)] .
  define d2 where "d2 = snd (os_remove target d)"
  have d2: "no_fail d2" "fs_dirs d2 = fs_dirs d" "fs_files d2 = (fs_files d)(target := None)"
    using io by (auto simp: d2_def os_remove_def c_remove_def no_fail_def)
  obtain r' d3 where io': "next_io d2 = (r', d3)" "r' \<noteq> Io_fail" "no_fail d3" "fs_files d3 = fs_files d2" "fs_dirs d3 = fs_dirs d2"
    using no_fail_io [OF d2(1)] .
  then show ?thesis
    using d2 assms by (auto simp: rename_file_def d2_def [symmetric] os_rename_def c_rename_def no_fail_def fun_upd_twist)
qed

lemma shifted_Suc:
  "shifted (Suc n) f i = (if f n = None then shifted n f i else shifted n (f(n := None, Suc n := f n)) i)"
  by (cases n) (auto simp: shifted_def split: option.splits)

definition no_log_dir :: "string \<Rightarrow> disk \<Rightarrow> bool" where
  "no_log_dir b d \<longleftrightarrow> (\<forall>p \<in> set (fs_dirs d). \<forall>i. p \<noteq> calc_filename b i)"

lemma rotate_loop_ok:
  assumes "no_fail d" and "no_log_dir (rs_base_filename s) d"
  defines "name \<equiv> calc_filename (rs_base_filename s)"
  shows "\<exists>d'. rotate_loop n s d = (None, s, d') \<and> no_fail d' \<and> fs_dirs d' = fs_dirs d \<and>
    (\<forall>i. fs_files d' (name i) = shifted n (\<lambda>i. fs_files d (name i)) i) \<and>
    (\<forall>p. p \<notin> range name \<longrightarrow> fs_files d' p = fs_files d p)"
  using assms(1,2)
proof (induction n arbitrary: d)
  case 0
  then show ?case by (simp add: shifted_def)
next
  case (Suc n)
  have "name n \<notin> set (fs_dirs d)" using Suc.prems(2) by (auto simp: no_log_dir_def name_def)
  then have ex: "path_exists (name n) d \<longleftrightarrow> fs_files d (name n) \<noteq> None" by (simp add: path_exists_def)
  show ?case
  proof (cases "fs_files d (name n)")
    case None
    then show ?thesis using Suc.IH [OF Suc.prems] ex by (simp add: name_def [symmetric] shifted_Suc)
  next
    case (Some s0)
    obtain d1 where d1: "rename_file (name n) (name (Suc n)) d = (True, d1)" "no_fail d1" "fs_dirs d1 = fs_dirs d"
        "fs_files d1 = (fs_files d)(name n := None, name (Suc n) := fs_files d (name n))"
      using rename_file_ok [OF Suc.prems(1), of "name n" "name (Suc n)"] Some by (auto simp: name_def)
    have dirs1: "no_log_dir (rs_base_filename s) d1" using Suc.prems(2) d1(3) by (simp add: no_log_dir_def)
    have slots: "(\<lambda>i. fs_files d1 (name i)) = (\<lambda>i. fs_files d (name i))(n := None, Suc n := fs_files d (name n))"
      by (auto simp: d1(4) name_def fun_eq_iff)
    obtain d' where "rotate_loop n s d1 = (None, s, d')" "no_fail d'" "fs_dirs d' = fs_dirs d1"
        "\<forall>i. fs_files d' (name i) = shifted n (\<lambda>i. fs_files d1 (name i)) i"
        "\<forall>p. p \<notin> range name \<longrightarrow> fs_files d' p = fs_files d1 p"
      using Suc.IH [OF d1(2) dirs1] by blast
    then show ?thesis
      using d1 Some ex unfolding slots by (auto simp: name_def [symmetric] shifted_Suc)
  qed
qed

section \<open>One step of the rotating sink\<close>

definition rs_ready :: "rotating_file_sink \<Rightarrow> disk \<Rightarrow> bool" where
  "rs_ready s d \<longleftrightarrow> rs_base_filename s \<noteq> [] \<and> fh_ready (rs_base_filename s) (rs_file s) d \<and>
     no_log_dir (rs_base_filename s) d"

definition view :: "rotating_file_sink \<Rightarrow> disk \<Rightarrow> nat \<Rightarrow> string option" where
  "view s d i = logical (rs_file s) d (calc_filename (rs_base_filename s) i)"

lemma calc_filename_0 [simp]: "calc_filename f 0 = f"
  by (simp add: calc_filename_def)

lemma no_log_dir_later:
  assumes "no_log_dir b d" and "later (length b) d d'"
  shows "no_log_dir b d'"
proof -
  have "length b \<le> length (calc_filename b i)" for i
    using calc_filename_longer [of i b] by (cases "i = 0") auto
  then show ?thesis using assms by (auto simp: no_log_dir_def later_def) (metis DiffI leD)
qed

lemma fh_reopen_ok:
  assumes "no_fail d" and "fh_handlers fh = no_handlers" and "fh_filename fh = b" and "b \<noteq> []" and "fh_fd fh = None"
  shows "\<exists>fh' d'. fh_reopen trunc fh d = (None, fh', d') \<and> fh_ready b fh' d' \<and> later (length b) d d' \<and>
    logical fh' d' = opened b trunc (fs_files d)"
proof -
  obtain d' where "fh_open b trunc fh d = (None, fh\<lparr>fh_fd := Some \<lparr>st_path = b, st_pending = []\<rparr>, fh_filename := b\<rparr>, d')"
      "later (length b) d d'" "fs_files d' = opened b trunc (fs_files d)"
    using fh_open_ok [OF assms(1,2), of b trunc] assms(5) by (auto simp: closed_files_def)
  then show ?thesis
    using assms by (simp add: fh_reopen_def fh_ready_def logical_def closed_files_def later_no_fail opened_def)
qed

text \<open>
  A try whose truncating open fails is repeated at once; the delay of ten milliseconds
  is only made where the open for appending fails.
\<close>

lemma truncating_retries_without_delay:
  assumes "path_exists (dir_name p) d" and "fs_faults d = replicate 5 Io_fail"
  shows "\<exists>fh' d'. open_loop open_tries p trunc fh d = (False, fh', d') \<and>
    fs_slept d' = (if trunc then fs_slept d else fs_slept d + 50)"
proof -
  have c: "create_dir (dir_name p) d' = (True, d')" if "fs_files d' = fs_files d" "fs_dirs d' = fs_dirs d" for d'
    using assms(1) that by (simp add: create_dir_def path_exists_def)
  show ?thesis
    using assms(2)
    by (cases trunc) (simp_all add: open_tries_def c os_fopen_s_def c_fopen_def next_io_def sleep_for_millis_def
        open_interval_def numeral_eq_Suc)
qed

lemma rotate_files_ok:
  assumes "rs_ready s d"
  defines "b \<equiv> rs_base_filename s"
  shows "\<exists>fh' d'. rotate_files s d = (None, s\<lparr>rs_file := fh'\<rparr>, d') \<and> rs_ready (s\<lparr>rs_file := fh'\<rparr>) d' \<and>
    view (s\<lparr>rs_file := fh'\<rparr>) d' = (shifted (rs_max_files s) (view s d))(0 := Some []) \<and>
    (\<forall>p. p \<notin> range (calc_filename b) \<longrightarrow> logical fh' d' p = logical (rs_file s) d p)"
proof -
  let ?fh = "(rs_file s)\<lparr>fh_fd := None\<rparr>" and ?name = "calc_filename b"
  have r: "b \<noteq> []" "fh_ready b (rs_file s) d" "no_log_dir b d" using assms(1) by (simp_all add: rs_ready_def b_def)
  then have h: "no_fail d" "fh_handlers (rs_file s) = no_handlers" "fh_filename (rs_file s) = b" by (simp_all add: fh_ready_def)
  obtain d1 where d1: "fh_close (rs_file s) d = (?fh, d1)" "later (length b) d d1" "fs_files d1 = logical (rs_file s) d"
    using fh_close_ok [OF h(1,2), of "length b"] by (auto simp: logical_def)
  have nd1: "no_log_dir (rs_base_filename (s\<lparr>rs_file := ?fh\<rparr>)) d1" using no_log_dir_later [OF r(3) d1(2)] by (simp add: b_def)
  obtain d2 where d2: "rotate_loop (rs_max_files s) (s\<lparr>rs_file := ?fh\<rparr>) d1 = (None, s\<lparr>rs_file := ?fh\<rparr>, d2)" "no_fail d2"
      "fs_dirs d2 = fs_dirs d1"
      "\<forall>i. fs_files d2 (?name i) = shifted (rs_max_files s) (\<lambda>i. fs_files d1 (?name i)) i"
      "\<forall>p. p \<notin> range ?name \<longrightarrow> fs_files d2 p = fs_files d1 p"
    using rotate_loop_ok [OF later_no_fail [OF d1(2)] nd1, of "rs_max_files s"] by (auto simp: b_def)
  obtain fh' d3 where d3: "fh_reopen True ?fh d2 = (None, fh', d3)" "fh_ready b fh' d3" "later (length b) d2 d3"
      "logical fh' d3 = opened b True (fs_files d2)"
    using fh_reopen_ok [OF d2(2), of ?fh b True] h r(1) by auto
  have "no_log_dir b d2" using nd1 d2(3) by (simp add: no_log_dir_def b_def)
  then have is_ready: "rs_ready (s\<lparr>rs_file := fh'\<rparr>) d3"
    using no_log_dir_later [OF _ d3(3)] d3(2) r(1) by (simp add: rs_ready_def b_def)
  have v1: "(\<lambda>i. fs_files d1 (?name i)) = view s d" using d1(3) by (simp add: view_def b_def fun_eq_iff)
  have "view (s\<lparr>rs_file := fh'\<rparr>) d3 i = ((shifted (rs_max_files s) (view s d))(0 := Some [])) i" for i
  proof (cases "i = 0")
    case True
    then show ?thesis using d3(4) by (simp add: view_def b_def opened_def split: option.splits)
  next
    case False
    then have "?name i \<noteq> b" using calc_filename_eq [of b i 0] by simp
    then show ?thesis using d3(4) d2(4) False v1 by (simp add: view_def b_def opened_def)
  qed
  then have "view (s\<lparr>rs_file := fh'\<rparr>) d3 = (shifted (rs_max_files s) (view s d))(0 := Some [])" by (rule ext)
  moreover have "b \<in> range ?name" using rangeI [of ?name 0] by simp
  then have "\<forall>p. p \<notin> range ?name \<longrightarrow> logical fh' d3 p = logical (rs_file s) d p"
    using d3(4) d2(5) d1(3) by (auto simp: opened_def)
  ultimately show ?thesis using d1(1) d2(1) d3(1) is_ready by (intro exI [of _ fh'] exI [of _ d3]) (simp add: rotate_files_def)
qed

text \<open>
  When renaming the current log fails twice the exception names both files, and the log has been truncated:
  what it held is in no file.
\<close>

lemma failed_rename_truncates:
  assumes log: "fs_files d b = Some old" "b \<noteq> []"
    and io: "fs_faults d = [Io_ok, Io_ok, Io_fail, Io_ok, Io_fail]"
    and s: "rs_file s = \<lparr>fh_fd = Some \<lparr>st_path = b, st_pending = []\<rparr>, fh_filename = b, fh_handlers = no_handlers\<rparr>"
      "rs_base_filename s = b" "rs_max_files s = 1"
    and free: "fs_files d (calc_filename b 1) = None"
  shows "\<exists>s' d'. rotate_files s d =
      (Some (sys_ex d' (''rotating_file_sink: failed renaming '' @ b @ '' to '' @ calc_filename b 1)), s', d') \<and>
    rs_current_size s' = 0 \<and> fs_files d' = (fs_files d)(b \<mapsto> [])"
proof -
  define d1 d2 d3 where "d1 = d\<lparr>fs_faults := [Io_ok, Io_fail, Io_ok, Io_fail]\<rparr>"
    and "d2 = d\<lparr>fs_faults := [Io_ok, Io_fail]\<rparr>" and "d3 = d\<lparr>fs_faults := [], fs_slept := fs_slept d + 100\<rparr>"
  let ?fh = "\<lparr>fh_fd = None, fh_filename = b, fh_handlers = no_handlers\<rparr>"
  have close: "fh_close (rs_file s) d = (?fh, d1)"
    using log io s(1) by (simp add: fh_close_def no_handlers_def c_fclose_def next_io_def append_file_def d1_def fun_upd_idem)
  have rename: "rename_file b (calc_filename b 1) d1 = (False, d2)"
      "rename_file b (calc_filename b 1) (sleep_for_millis 100 d2) = (False, d3)"
    using free by (simp_all add: rename_file_def os_rename_def os_remove_def c_rename_def c_remove_def next_io_def
        d1_def d2_def d3_def sleep_for_millis_def)
  have "no_fail d3" by (simp add: no_fail_def d3_def)
  then obtain fh' d4 where d4: "fh_reopen True ?fh d3 = (None, fh', d4)" "fs_files d4 = opened b True (fs_files d3)"
    using fh_open_ok [of d3 ?fh b True] log(2) by (auto simp: fh_reopen_def closed_files_def)
  have "path_exists b d1" using log(1) by (simp add: path_exists_def d1_def)
  then have "rotate_files s d =
      (Some (sys_ex d4 (''rotating_file_sink: failed renaming '' @ b @ '' to '' @ calc_filename b 1)),
       s\<lparr>rs_file := fh', rs_current_size := 0\<rparr>, d4)"
    using close rename d4(1) s(2,3) by (simp add: rotate_files_def Let_def)
  then show ?thesis using d4(2) log(1) by (auto simp: opened_def d3_def)
qed

definition view_log :: "nat \<Rightarrow> nat \<Rightarrow> string \<Rightarrow> (nat \<Rightarrow> string option) \<Rightarrow> (nat \<Rightarrow> string option)" where
  "view_log ms mf line v =
     (let cur = the (v 0)
      in if ms < length cur + length line \<and> cur \<noteq> [] then (shifted mf v)(0 := Some line)
         else v(0 := Some (cur @ line)))"

definition same_settings :: "rotating_file_sink \<Rightarrow> rotating_file_sink \<Rightarrow> bool" where
  "same_settings s s' \<longleftrightarrow> rs_base_filename s' = rs_base_filename s \<and> rs_max_size s' = rs_max_size s \<and>
     rs_max_files s' = rs_max_files s \<and> rs_formatter s' = rs_formatter s"

text \<open>A sink in the middle of its work: its count of bytes is the size of the current file.\<close>

definition rs_inv :: "rotating_file_sink \<Rightarrow> disk \<Rightarrow> bool" where
  "rs_inv s d \<longleftrightarrow> rs_ready s d \<and> (\<exists>cur. view s d 0 = Some cur \<and> rs_current_size s = of_nat (length cur))"

lemma write_line_ok:
  assumes "rs_ready s d" and "view s d 0 = Some cur" and "n = of_nat (length cur + length line)"
  shows "\<exists>s' d'. write_line line n s d = (None, s', d') \<and> rs_inv s' d' \<and> same_settings s s' \<and>
    view s' d' = (view s d)(0 := Some (cur @ line)) \<and>
    (\<forall>p. p \<notin> range (calc_filename (rs_base_filename s)) \<longrightarrow> logical (rs_file s') d' p = logical (rs_file s) d p)"
proof -
  let ?b = "rs_base_filename s"
  have r: "fh_ready ?b (rs_file s) d" using assms(1) by (simp add: rs_ready_def)
  obtain fh' d' where w: "fh_write line (rs_file s) d = (None, fh', d')" "fh_ready ?b fh' d'" "fs_dirs d' = fs_dirs d"
      "logical fh' d' = append_to ?b line (logical (rs_file s) d)" using fh_write_ok [OF r] by blast
  let ?s' = "s\<lparr>rs_file := fh', rs_current_size := n\<rparr>"
  have "view ?s' d' i = ((view s d)(0 := Some (cur @ line))) i" for i
    using w(4) assms(2) calc_filename_eq [of ?b i 0]
    by (cases "i = 0") (simp_all add: view_def append_to_same append_to_other del: calc_filename_eq)
  then have v: "view ?s' d' = (view s d)(0 := Some (cur @ line))" by (rule ext)
  have "p \<noteq> ?b" if "p \<notin> range (calc_filename ?b)" for p using that rangeI [of "calc_filename ?b" 0] by auto
  moreover have "rs_inv ?s' d'"
    using assms w(2,3) v by (simp add: rs_inv_def rs_ready_def no_log_dir_def)
  ultimately show ?thesis using w v by (auto simp: write_line_def same_settings_def append_to_other)
qed

text \<open>The frame: files that are not of the log stay as they are.\<close>

definition others_kept :: "rotating_file_sink \<Rightarrow> disk \<Rightarrow> rotating_file_sink \<Rightarrow> disk \<Rightarrow> bool" where
  "others_kept s d s' d' \<longleftrightarrow>
     (\<forall>p. p \<notin> range (calc_filename (rs_base_filename s)) \<longrightarrow> logical (rs_file s') d' p = logical (rs_file s) d p)"

lemma sink_line_ok:
  assumes "rs_inv s d" and "view s d 0 = Some cur" and "length cur + length line < 2 ^ 64"
  shows "\<exists>s' d'. sink_line line s d = (None, s', d') \<and> rs_inv s' d' \<and> same_settings s s' \<and>
    view s' d' = view_log (unat (rs_max_size s)) (rs_max_files s) line (view s d) \<and> others_kept s d s' d'"
proof -
  let ?b = "rs_base_filename s"
  have r: "rs_ready s d" "fh_ready ?b (rs_file s) d" "rs_current_size s = of_nat (length cur)"
    using assms(1,2) by (auto simp: rs_inv_def rs_ready_def)
  define n where "n = rs_current_size s + of_nat (length line)"
  have n: "n = of_nat (length cur + length line)" "unat n = length cur + length line"
    using r(3) assms(3) by (simp_all add: n_def unat_of_nat flip: of_nat_add)
  show ?thesis
  proof (cases "rs_max_size s < n")
    case False
    then have "\<not> unat (rs_max_size s) < length cur + length line" using n(2) by (simp add: word_less_nat_alt)
    then show ?thesis
      using False write_line_ok [OF r(1) assms(2) n(1)] assms(2)
      by (simp add: sink_line_def n_def [symmetric] view_log_def others_kept_def)
  next
    case True
    then have big: "unat (rs_max_size s) < length cur + length line" using n(2) by (simp add: word_less_nat_alt)
    obtain fh1 d1 where f: "fh_flush (rs_file s) d = (None, fh1, d1)" "fh_ready ?b fh1 d1" "fs_dirs d1 = fs_dirs d"
        "logical fh1 d1 = logical (rs_file s) d" "fs_files d1 = logical (rs_file s) d" using fh_flush_ok [OF r(2)] by blast
    have cur: "fs_files d1 ?b = Some cur" using f(5) assms(2) by (simp add: view_def)
    obtain d2 where z: "fh_size fh1 d1 = (Inr (of_nat (length cur)), d2)" "no_fail d2" "fs_dirs d2 = fs_dirs d1"
        "fs_files d2 = fs_files d1" using fh_size_ok [OF f(2)] cur by auto
    let ?s1 = "s\<lparr>rs_file := fh1\<rparr>"
    have r2: "fh_ready ?b fh1 d2" "logical fh1 d2 = logical (rs_file s) d"
      using ready_same_files [OF f(2) z(2,4)] f(4) by simp_all
    then have ready2: "rs_ready ?s1 d2" using r(1) f(3) z(3) by (simp add: rs_ready_def no_log_dir_def)
    have v2: "view ?s1 d2 = view s d" using r2(2) by (simp add: view_def fun_eq_iff)
    have pos: "(0 :: u64) < of_nat (length cur) \<longleftrightarrow> cur \<noteq> []"
      using assms(3) by (simp add: word_less_nat_alt unat_of_nat)
    have start: "sink_line line s d =
        (if cur \<noteq> [] then
           (case rotate_files ?s1 d2 of
              (Some e, s2, d3) \<Rightarrow> (Some e, s2, d3)
            | (None, s2, d3) \<Rightarrow> write_line line (of_nat (length line)) s2 d3)
         else write_line line n ?s1 d2)"
      using True f(1) z(1) pos by (simp add: sink_line_def n_def [symmetric])
    show ?thesis
    proof (cases "cur = []")
      case empty: True
      then show ?thesis
        using write_line_ok [OF ready2 _ n(1)] start v2 r2(2) assms(2)
        by (simp add: view_log_def others_kept_def same_settings_def)
    next
      case False
      obtain fh3 d3 where ro: "rotate_files ?s1 d2 = (None, s\<lparr>rs_file := fh3\<rparr>, d3)" "rs_ready (s\<lparr>rs_file := fh3\<rparr>) d3"
          "view (s\<lparr>rs_file := fh3\<rparr>) d3 = (shifted (rs_max_files s) (view s d))(0 := Some [])"
          "\<forall>p. p \<notin> range (calc_filename ?b) \<longrightarrow> logical fh3 d3 p = logical (rs_file s) d p"
        using rotate_files_ok [OF ready2] v2 r2(2) by auto
      have "view (s\<lparr>rs_file := fh3\<rparr>) d3 0 = Some []" using ro(3) by simp
      then obtain s' d' where w: "write_line line (of_nat (length line)) (s\<lparr>rs_file := fh3\<rparr>) d3 = (None, s', d')" "rs_inv s' d'"
          "same_settings (s\<lparr>rs_file := fh3\<rparr>) s'" "view s' d' = (view (s\<lparr>rs_file := fh3\<rparr>) d3)(0 := Some line)"
          "\<forall>p. p \<notin> range (calc_filename ?b) \<longrightarrow> logical (rs_file s') d' p = logical fh3 d3 p"
        using write_line_ok [OF ro(2), of "[]" "of_nat (length line)" line] by auto
      then show ?thesis
        using start ro False big assms(2)
        by (simp add: view_log_def others_kept_def same_settings_def)
    qed
  qed
qed

section \<open>The contract: a list of segments\<close>

text \<open>The newest segment first; the last one is dropped when there are more than \<open>mf\<close> besides the newest.\<close>

fun spec_log :: "nat \<Rightarrow> nat \<Rightarrow> string \<Rightarrow> string list \<Rightarrow> string list" where
  "spec_log ms mf line [] = [line]"
| "spec_log ms mf line (cur # olds) =
     (if ms < length cur + length line \<and> cur \<noteq> [] then take (Suc mf) (line # cur # olds) else (cur @ line) # olds)"

definition slots :: "nat \<Rightarrow> string list \<Rightarrow> (nat \<Rightarrow> string option) \<Rightarrow> bool" where
  "slots mf segs v \<longleftrightarrow> segs \<noteq> [] \<and> length segs \<le> Suc mf \<and>
     (\<forall>i \<le> mf. v i = (if i < length segs then Some (segs ! i) else None))"

lemma slots_log:
  assumes "slots mf segs v"
  shows "slots mf (spec_log ms mf line segs) (view_log ms mf line v)"
proof -
  obtain cur olds where segs: "segs = cur # olds" using assms by (cases segs) (auto simp: slots_def)
  have v: "v i = (if i \<le> length olds then Some ((cur # olds) ! i) else None)" if "i \<le> mf" for i
    using assms that by (simp add: slots_def segs less_Suc_eq_le)
  have v0: "v 0 = Some cur" using v [of 0] by simp
  show ?thesis
  proof (cases "ms < length cur + length line \<and> cur \<noteq> []")
    case True
    have "view_log ms mf line v i = (if i < length (take (Suc mf) (line # cur # olds)) then Some (take (Suc mf) (line # cur # olds) ! i) else None)"
      if "i \<le> mf" for i
      using True that v [of "i - 1"] v [of i] assms v0
      by (cases i) (auto simp: view_log_def shifted_def segs slots_def min_def)
    then show ?thesis using True by (auto simp: slots_def segs min_def)
  next
    case False
    then show ?thesis using v v0 assms by (auto simp: slots_def segs view_log_def nth_Cons' less_Suc_eq_le)
  qed
qed

text \<open>What the list of segments promises about the lines it was given.\<close>

lemma spec_log_suffix:
  "\<exists>lost. concat (rev segs) @ line = lost @ concat (rev (spec_log ms mf line segs))"
proof (cases segs)
  case (Cons cur olds)
  have "rev (cur # olds) = rev (drop mf (cur # olds)) @ rev (take mf (cur # olds))"
    by (metis append_take_drop_id rev_append)
  then have "concat (rev (cur # olds)) = concat (rev (drop mf (cur # olds))) @ concat (rev (take mf (cur # olds)))"
    by (metis concat_append)
  then show ?thesis using Cons by auto
qed simp

lemma spec_log_all:
  assumes "length (spec_log ms mf line segs) \<le> mf"
  shows "concat (rev segs) @ line = concat (rev (spec_log ms mf line segs))" and "length segs \<le> mf"
  using assms by (cases segs; auto split: if_splits)+

lemma fold_spec_log:
  fixes lines :: "string list" and ms mf :: nat
  defines "segs \<equiv> \<lambda>lines. fold (spec_log ms mf) lines [[]]"
  shows "\<exists>lost. concat lines = lost @ concat (rev (segs lines))"
    and "length (segs lines) \<le> mf \<Longrightarrow> concat (rev (segs lines)) = concat lines"
    and "seg \<in> set (segs lines) \<Longrightarrow> length seg \<le> ms \<or> seg \<in> set lines"
proof -
  show "\<exists>lost. concat lines = lost @ concat (rev (segs lines))"
  proof (induction lines rule: rev_induct)
    case (snoc l ls)
    then show ?case using spec_log_suffix [of "segs ls" l ms mf] by (auto simp: segs_def)
  qed (simp add: segs_def)
  show "length (segs lines) \<le> mf \<Longrightarrow> concat (rev (segs lines)) = concat lines"
  proof (induction lines rule: rev_induct)
    case (snoc l ls)
    then show ?case using spec_log_all [of ms mf l "segs ls"] by (simp add: segs_def)
  qed (simp add: segs_def)
  show "seg \<in> set (segs lines) \<Longrightarrow> length seg \<le> ms \<or> seg \<in> set lines"
  proof (induction lines arbitrary: seg rule: rev_induct)
    case (snoc l ls)
    have step: "seg \<in> set (spec_log ms mf l xs) \<Longrightarrow> seg \<in> set xs \<or> seg = l \<or> length seg \<le> ms" for xs
      by (cases xs) (auto split: if_splits dest: in_set_takeD)
    then show ?case using snoc step [of "segs ls"] by (auto simp: segs_def)
  qed (simp add: segs_def)
qed

section \<open>Logging a sequence of messages\<close>

fun rs_log_all ::
    "log_env \<Rightarrow> log_msg list \<Rightarrow> rotating_file_sink \<Rightarrow> disk \<Rightarrow> (exn option list \<times> rotating_file_sink \<times> disk) run" where
  "rs_log_all env [] s d = Inr ([], s, d)"
| "rs_log_all env (msg # msgs) s d =
     bind_run (rs_sink_it env msg s d) (\<lambda>(e, msg', s1, d1).
     bind_run (rs_log_all env msgs s1 d1) (\<lambda>(es, s2, d2). Inr (e # es, s2, d2)))"

definition log_line_text :: "log_env \<Rightarrow> log_msg \<Rightarrow> string" where
  "log_line_text env msg = default_line (msg_tm env time_local msg) (env_mdc env) msg @ default_eol"

lemma length_hd_concat_rev: "length cur \<le> length (concat (rev (cur # olds)))"
  by simp

lemma rs_log_all_ok:
  assumes "rs_inv s d" and "caches_ok env time_local default_eol (rs_formatter s)"
    and "\<forall>msg \<in> set msgs. formattable env time_local msg"
    and "slots (rs_max_files s) segs (view s d)"
    and "length (concat (rev segs)) + length (concat (map (log_line_text env) msgs)) < 2 ^ 64"
  shows "\<exists>s' d'. rs_log_all env msgs s d = Inr (replicate (length msgs) None, s', d') \<and> rs_inv s' d' \<and>
    rs_base_filename s' = rs_base_filename s \<and>
    slots (rs_max_files s) (fold (spec_log (unat (rs_max_size s)) (rs_max_files s)) (map (log_line_text env) msgs) segs) (view s' d') \<and>
    others_kept s d s' d'"
  using assms
proof (induction msgs arbitrary: s d segs)
  case Nil
  then show ?case by (simp add: others_kept_def)
next
  case (Cons msg msgs)
  let ?line = "log_line_text env msg" and ?ms = "unat (rs_max_size s)" and ?mf = "rs_max_files s"
  obtain pf' where pf: "pf_format env (rs_formatter s) msg [] =
      Inr (pf', colored 0 (msg_tm env time_local msg) msg, ?line)" "caches_ok env time_local default_eol pf'"
    using pf_format_default [OF Cons.prems(2), of msg "[]"] Cons.prems(3) by (auto simp: log_line_text_def)
  let ?s = "s\<lparr>rs_formatter := pf'\<rparr>"
  have inv: "rs_inv ?s d" "view ?s d = view s d"
    using Cons.prems(1) by (simp_all add: rs_inv_def rs_ready_def view_def fun_eq_iff)
  obtain cur olds where segs: "segs = cur # olds" "view ?s d 0 = Some cur"
    using Cons.prems(4) inv(2) by (cases segs) (auto simp: slots_def)
  have "length cur + length ?line < 2 ^ 64" using Cons.prems(5) segs(1) by simp
  then obtain s1 d1 where st: "sink_line ?line ?s d = (None, s1, d1)" "rs_inv s1 d1" "same_settings ?s s1"
      "view s1 d1 = view_log ?ms ?mf ?line (view s d)" "others_kept ?s d s1 d1"
    using sink_line_ok [OF inv(1) segs(2), of ?line] inv(2) by auto
  let ?segs1 = "spec_log ?ms ?mf ?line segs"
  have slots1: "slots (rs_max_files s1) ?segs1 (view s1 d1)"
    using slots_log [OF Cons.prems(4)] st(3,4) by (simp add: same_settings_def)
  obtain lost where lost: "concat (rev segs) @ ?line = lost @ concat (rev ?segs1)" using spec_log_suffix by blast
  have "length (concat (rev ?segs1)) + length lost = length (concat (rev segs)) + length ?line"
    using arg_cong [OF lost, of length] by simp
  then have total: "length (concat (rev ?segs1)) + length (concat (map (log_line_text env) msgs)) < 2 ^ 64"
    using Cons.prems(5) by simp
  have "caches_ok env time_local default_eol (rs_formatter s1)" using st(3) pf(2) by (simp add: same_settings_def)
  then obtain s' d' where "rs_log_all env msgs s1 d1 = Inr (replicate (length msgs) None, s', d')" "rs_inv s' d'"
      "rs_base_filename s' = rs_base_filename s"
      "slots ?mf (fold (spec_log ?ms ?mf) (map (log_line_text env) msgs) ?segs1) (view s' d')"
      "others_kept s1 d1 s' d'"
    using Cons.IH [OF st(2) _ _ slots1 total] Cons.prems(3) st(3) by (auto simp: same_settings_def)
  moreover have "rs_sink_it env msg s d = Inr (None, colored 0 (msg_tm env time_local msg) msg, s1, d1)"
    using pf(1) st(1) by (simp add: rs_sink_it_def)
  moreover have "others_kept s d s' d'"
    using st(3,5) \<open>others_kept s1 d1 s' d'\<close> by (simp add: others_kept_def same_settings_def)
  ultimately show ?case by simp
qed

lemma rotating_file_sink_new_ok:
  assumes "no_fail d" and "base \<noteq> []" and "no_log_dir base d" and "\<forall>i. fs_files d (calc_filename base i) = None"
    and "0 < ms" and "mf \<le> 200000"
  shows "\<exists>s d'. rotating_file_sink_new base ms mf rotate_on_open no_handlers d = (Inr s, d') \<and> rs_inv s d' \<and>
    rs_base_filename s = base \<and> rs_max_size s = ms \<and> rs_max_files s = mf \<and> rs_formatter s = base_formatter \<and>
    slots mf [[]] (view s d') \<and>
    (\<forall>p. p \<notin> range (calc_filename base) \<longrightarrow> logical (rs_file s) d' p = fs_files d p)"
proof -
  let ?fh = "\<lparr>fh_fd = Some \<lparr>st_path = base, st_pending = []\<rparr>, fh_filename = base, fh_handlers = no_handlers\<rparr>"
  have empty: "fs_files d base = None" using assms(4) calc_filename_0 by metis
  obtain d1 where d1: "fh_open base False (file_helper_new no_handlers) d = (None, ?fh, d1)" "later (length base) d d1"
      "fs_files d1 = (fs_files d)(base \<mapsto> [])"
    using fh_open_ok [OF assms(1), of "file_helper_new no_handlers" base False] empty
    by (auto simp: file_helper_new_def closed_files_def opened_def)
  have r1: "fh_ready base ?fh d1" using d1 by (simp add: fh_ready_def later_no_fail)
  obtain d2 where d2: "fh_size ?fh d1 = (Inr 0, d2)" "no_fail d2" "fs_dirs d2 = fs_dirs d1" "fs_files d2 = fs_files d1"
    using fh_size_ok [OF r1] d1(3) by auto
  let ?s = "\<lparr>rs_base_filename = base, rs_max_size = ms, rs_max_files = mf, rs_current_size = 0, rs_file = ?fh,
      rs_formatter = base_formatter\<rparr>"
  have "rotating_file_sink_new base ms mf rotate_on_open no_handlers d = (Inr ?s, d2)"
    using assms(5,6) d1(1) d2(1) by (simp add: rotating_file_sink_new_def)
  moreover have log: "logical ?fh d2 = (fs_files d)(base \<mapsto> [])" using d2(4) d1(3) by (simp add: logical_def closed_files_def)
  then have v: "view ?s d2 i = (if i = 0 then Some [] else None)" for i
    using assms(4) calc_filename_eq [of base i 0] by (auto simp: view_def simp del: calc_filename_eq)
  moreover have "fh_ready base ?fh d2" using ready_same_files [OF r1 d2(2,4)] by simp
  moreover have "no_log_dir base d2" using no_log_dir_later [OF assms(3) d1(2)] d2(3) by (simp add: no_log_dir_def)
  moreover have "base \<in> range (calc_filename base)" using rangeI [of "calc_filename base" 0] by simp
  ultimately show ?thesis
    using assms(2) log by (intro exI [of _ ?s] exI [of _ d2]) (auto simp: rs_inv_def rs_ready_def slots_def)
qed

section \<open>Property\<close>

text \<open>
  Claim C17: the rotating log keeps the end of what was logged. On a disk where no call fails and no
  file of the log exists yet, whatever the library buffers or writes through: every message is logged without
  an exception, and after a flush the numbered files are the segments of the contract, newest
  first, at most \<^verbatim>\<open>max_files\<close> besides the current one. Read from the oldest to the newest they are
  a suffix of everything that was logged, and all of it as long as there are at most \<^verbatim>\<open>max_files\<close> files;
  no file is larger than \<^verbatim>\<open>max_size\<close> unless it holds one line only; no other file changes.
\<close>

theorem rotating_log_keeps_the_end:
  fixes base :: string and ms :: u64 and mf :: nat
  assumes "no_fail d" and "base \<noteq> []" and "no_log_dir base d" and "\<forall>i. fs_files d (calc_filename base i) = None"
    and "0 < ms" and "mf \<le> 200000"
    and "\<forall>msg \<in> set msgs. formattable env time_local msg"
    and "length (concat (map (log_line_text env) msgs)) < 2 ^ 64"
  defines "lines \<equiv> map (log_line_text env) msgs"
  defines "segs \<equiv> fold (spec_log (unat ms) mf) lines [[]]"
  shows "\<exists>s d1 s' d2 s'' d3. rotating_file_sink_new base ms mf rotate_on_open no_handlers d = (Inr s, d1) \<and>
    rs_log_all env msgs s d1 = Inr (replicate (length msgs) None, s', d2) \<and> rs_flush s' d2 = (None, s'', d3) \<and>
    (\<forall>i \<le> mf. fs_files d3 (calc_filename base i) = (if i < length segs then Some (segs ! i) else None)) \<and>
    length segs \<le> Suc mf \<and> (\<exists>lost. concat lines = lost @ concat (rev segs)) \<and>
    (length segs \<le> mf \<longrightarrow> concat (rev segs) = concat lines) \<and>
    (\<forall>seg \<in> set segs. length seg \<le> unat ms \<or> seg \<in> set lines) \<and>
    (\<forall>p. p \<notin> range (calc_filename base) \<longrightarrow> fs_files d3 p = fs_files d p)"
proof -
  obtain s d1 where s: "rotating_file_sink_new base ms mf rotate_on_open no_handlers d = (Inr s, d1)" "rs_inv s d1"
      "rs_base_filename s = base" "rs_max_size s = ms" "rs_max_files s = mf" "rs_formatter s = base_formatter"
      "slots mf [[]] (view s d1)" "\<forall>p. p \<notin> range (calc_filename base) \<longrightarrow> logical (rs_file s) d1 p = fs_files d p"
    using rotating_file_sink_new_ok [OF assms(1-6)] by blast
  have "caches_ok env time_local default_eol (rs_formatter s)" by (simp add: s(6) base_formatter_def caches_ok_default)
  then obtain s' d2 where s': "rs_log_all env msgs s d1 = Inr (replicate (length msgs) None, s', d2)" "rs_inv s' d2"
      "rs_base_filename s' = base" "slots mf segs (view s' d2)" "others_kept s d1 s' d2"
    using rs_log_all_ok [OF s(2) _ assms(7), of "[[]]"] s(3-7) assms(8) by (auto simp: segs_def lines_def)
  obtain fh d3 where f: "fh_flush (rs_file s') d2 = (None, fh, d3)" "fs_files d3 = logical (rs_file s') d2"
    using fh_flush_ok [of base "rs_file s'" d2] s'(2,3) by (auto simp: rs_inv_def rs_ready_def)
  have "rs_flush s' d2 = (None, s'\<lparr>rs_file := fh\<rparr>, d3)" using f(1) by (simp add: rs_flush_def)
  moreover have "\<forall>i \<le> mf. fs_files d3 (calc_filename base i) = (if i < length segs then Some (segs ! i) else None)"
    using s'(3,4) f(2) by (simp add: slots_def view_def)
  moreover have "\<forall>p. p \<notin> range (calc_filename base) \<longrightarrow> fs_files d3 p = fs_files d p"
    using s'(5) s(3,8) f(2) by (simp add: others_kept_def)
  moreover have "length segs \<le> Suc mf" using s'(4) by (simp add: slots_def)
  ultimately show ?thesis using s(1) s'(1) fold_spec_log [where ms = "unat ms" and mf = mf and lines = lines] unfolding segs_def by blast
qed

definition empty_disk :: disk where
  "empty_disk = \<lparr>fs_files = (\<lambda>_. None), fs_dirs = [], fs_faults = [Io_ok, Io_through], fs_errno = [], fs_slept = 0\<rparr>"

theorem rotating_log_keeps_the_end_witness:
  "\<exists>s d1 s' d2 s'' d3.
    rotating_file_sink_new ''a.log'' 50 1 False no_handlers empty_disk = (Inr s, d1) \<and>
    rs_log_all noon_env
      [log_msg_new 1688904245042000000 1 source_loc_new ''log'' level_info ''hi'',
       log_msg_new 1688904245043000000 1 source_loc_new [] level_err ''no''] s d1 = Inr ([None, None], s', d2) \<and>
    rs_flush s' d2 = (None, s'', d3) \<and>
    fs_files d3 ''a.log'' = Some (''[2023-07-09 12:04:05.043] [error] no'' @ [CHR 10]) \<and>
    fs_files d3 ''a.1.log'' = Some (''[2023-07-09 12:04:05.042] [log] [info] hi'' @ [CHR 10])"
proof -
  let ?m1 = "log_msg_new 1688904245042000000 1 source_loc_new ''log'' level_info ''hi''"
    and ?m2 = "log_msg_new 1688904245043000000 1 source_loc_new [] level_err ''no''"
  have t: "msg_tm noon_env tt m = noon" for tt m by (simp add: msg_tm_def broken_down_def noon_env_def)
  have ok: "\<forall>msg \<in> set [?m1, ?m2]. formattable noon_env time_local msg"
    by (simp add: formattable_def t msg_ok_def tm_ok_def noon_def log_msg_new_def source_loc_new_def)
  have l: "default_line noon (env_mdc noon_env) ?m1 = ''[2023-07-09 12:04:05.042] [log] [info] hi''"
      "default_line noon (env_mdc noon_env) ?m2 = ''[2023-07-09 12:04:05.043] [error] no''" by (code_simp, code_simp)
  let ?l1 = "''[2023-07-09 12:04:05.042] [log] [info] hi'' @ [CHR 10]" and ?l2 = "''[2023-07-09 12:04:05.043] [error] no'' @ [CHR 10]"
  have lines: "map (log_line_text noon_env) [?m1, ?m2] = [?l1, ?l2]"
    by (simp add: log_line_text_def t l default_eol_def)
  have disk: "no_fail empty_disk" "no_log_dir ''a.log'' empty_disk" "\<forall>i. fs_files empty_disk (calc_filename ''a.log'' i) = None"
    by (simp_all add: empty_disk_def no_fail_def no_log_dir_def)
  have segs: "fold (spec_log (unat (50 :: u64)) 1) [?l1, ?l2] [[]] = [?l2, ?l1]" by simp
  have len: "length (concat (map (log_line_text noon_env) [?m1, ?m2])) < 2 ^ 64" unfolding lines by simp
  have name: "calc_filename ''a.log'' 0 = ''a.log''" "calc_filename ''a.log'' 1 = ''a.1.log''" by (simp, code_simp)
  obtain s d1 s' d2 s'' d3 where r: "rotating_file_sink_new ''a.log'' 50 1 False no_handlers empty_disk = (Inr s, d1)"
      "rs_log_all noon_env [?m1, ?m2] s d1 = Inr (replicate (length [?m1, ?m2]) None, s', d2)"
      "rs_flush s' d2 = (None, s'', d3)"
      "\<forall>i \<le> 1. fs_files d3 (calc_filename ''a.log'' i) = (if i < length [?l2, ?l1] then Some ([?l2, ?l1] ! i) else None)"
    using rotating_log_keeps_the_end [OF disk(1) _ disk(2,3) _ _ ok len, of 50 1 False] unfolding lines segs by auto
  have "fs_files d3 ''a.log'' = Some ?l2" "fs_files d3 ''a.1.log'' = Some ?l1"
    using r(4) [rule_format, of 0] r(4) [rule_format, of 1] unfolding name by simp_all
  then show ?thesis using r(1-3) by auto
qed

end
