(* ===== verification/Spd_Console.thy ===== *)
theory Spd_Console
  imports Spd_Sinks "HOL-Library.Sublist"
begin

text \<open>
  The coloured console sink, \<^verbatim>\<open>ansicolor_sink\<close>, through which the server writes its log:
  it formats a line and wraps the range the formatter marked in the colour of the level.
\<close>

section \<open>Consoles\<close>

text \<open>
  A standard stream: whether it is a terminal, what has reached it, and what its buffer holds. The
  sink ignores the results of its writes, so a console takes everything.
\<close>

record console =
  con_tty :: bool
  con_shown :: string
  con_buffer :: string

datatype std_stream = Stdout | Stderr

definition con_write :: "string \<Rightarrow> console \<Rightarrow> console" where
  "con_write s c = c\<lparr>con_buffer := con_buffer c @ s\<rparr>"

definition con_flush :: "console \<Rightarrow> console" where
  "con_flush c = c\<lparr>con_shown := con_shown c @ con_buffer c, con_buffer := []\<rparr>"

section \<open>os-inl.h: terminals\<close>

definition color_terms :: "string list" where
  "color_terms =
     [''ansi'', ''color'', ''console'', ''cygwin'', ''gnome'', ''konsole'', ''kterm'', ''linux'', ''msys'',
      ''putty'', ''rxvt'', ''screen'', ''vt100'', ''xterm'', ''alacritty'', ''vt102'']"

text \<open>\<^verbatim>\<open>strstr\<close> finds a text inside another.\<close>

definition is_color_terminal :: "(string \<Rightarrow> string option) \<Rightarrow> bool" where
  "is_color_terminal getenv \<longleftrightarrow>
     (if getenv ''COLORTERM'' \<noteq> None then True
      else (case getenv ''TERM'' of
              None \<Rightarrow> False
            | Some env_term \<Rightarrow> list_ex (\<lambda>term. sublist term env_term) color_terms))"

definition in_terminal :: "console \<Rightarrow> bool" where
  "in_terminal c = con_tty c"

section \<open>Class ansicolor\_sink\<close>

datatype color_mode = color_always | color_automatic | color_never

text \<open>An escape sequence.\<close>

definition esc :: "string \<Rightarrow> string" where
  "esc s = CHR 27 # CHR ''['' # s"

definition ansi_reset :: string where "ansi_reset = esc ''m''"
definition ansi_green :: string where "ansi_green = esc ''32m''"
definition ansi_cyan :: string where "ansi_cyan = esc ''36m''"
definition ansi_white :: string where "ansi_white = esc ''37m''"
definition yellow_bold :: string where "yellow_bold = esc ''33m'' @ esc ''1m''"
definition red_bold :: string where "red_bold = esc ''31m'' @ esc ''1m''"
definition bold_on_red :: string where "bold_on_red = esc ''1m'' @ esc ''41m''"

record ansicolor_sink =
  as_target :: std_stream
  as_should_do_colors :: bool
  as_formatter :: pattern_formatter
  as_colors :: "string list"

definition set_color_mode :: "(string \<Rightarrow> string option) \<Rightarrow> (std_stream \<Rightarrow> console) \<Rightarrow> color_mode \<Rightarrow> ansicolor_sink \<Rightarrow> ansicolor_sink" where
  "set_color_mode getenv consoles mode s =
     s\<lparr>as_should_do_colors :=
         (case mode of
            color_always \<Rightarrow> True
          | color_automatic \<Rightarrow> in_terminal (consoles (as_target s)) \<and> is_color_terminal getenv
          | color_never \<Rightarrow> False)\<rparr>"

text \<open>\<^verbatim>\<open>colors_.at(level)\<close>, which throws where there is no such level.\<close>

definition colors_at :: "level_enum \<Rightarrow> ansicolor_sink \<Rightarrow> string run" where
  "colors_at lvl s =
     (if level_value lvl < length (as_colors s) then Inr (as_colors s ! level_value lvl)
      else Inl (Uncaught (Out_of_range ''array::at'')))"

definition set_color :: "level_enum \<Rightarrow> string \<Rightarrow> ansicolor_sink \<Rightarrow> ansicolor_sink run" where
  "set_color color_level color s =
     bind_run (colors_at color_level s) (\<lambda>_. Inr (s\<lparr>as_colors := (as_colors s)[level_value color_level := color]\<rparr>))"

definition ansicolor_sink_new ::
    "(string \<Rightarrow> string option) \<Rightarrow> (std_stream \<Rightarrow> console) \<Rightarrow> std_stream \<Rightarrow> color_mode \<Rightarrow> ansicolor_sink run" where
  "ansicolor_sink_new getenv consoles target mode =
     (let s0 = set_color_mode getenv consoles mode
                 \<lparr>as_target = target, as_should_do_colors = False, as_formatter = base_formatter,
                  as_colors = replicate 7 []\<rparr>
      in bind_run (set_color level_trace ansi_white s0) (\<lambda>s1.
         bind_run (set_color level_debug ansi_cyan s1) (\<lambda>s2.
         bind_run (set_color level_info ansi_green s2) (\<lambda>s3.
         bind_run (set_color level_warn yellow_bold s3) (\<lambda>s4.
         bind_run (set_color level_err red_bold s4) (\<lambda>s5.
         bind_run (set_color level_critical bold_on_red s5) (\<lambda>s6.
         set_color level_off ansi_reset s6)))))))"

definition ansicolor_stdout_sink_new :: "(string \<Rightarrow> string option) \<Rightarrow> (std_stream \<Rightarrow> console) \<Rightarrow> color_mode \<Rightarrow> ansicolor_sink run" where
  "ansicolor_stdout_sink_new getenv consoles mode = ansicolor_sink_new getenv consoles Stdout mode"

definition ansicolor_stderr_sink_new :: "(string \<Rightarrow> string option) \<Rightarrow> (std_stream \<Rightarrow> console) \<Rightarrow> color_mode \<Rightarrow> ansicolor_sink run" where
  "ansicolor_stderr_sink_new getenv consoles mode = ansicolor_sink_new getenv consoles Stderr mode"

definition print_ccode :: "string \<Rightarrow> console \<Rightarrow> console" where
  "print_ccode color_code c = con_write color_code c"

text \<open>Writing a range that is not inside the buffer reads beyond its end.\<close>

definition print_range :: "string \<Rightarrow> nat \<Rightarrow> nat \<Rightarrow> console \<Rightarrow> console run" where
  "print_range formatted start stop c =
     guard_run Out_of_bounds (start \<le> stop \<and> stop \<le> length formatted)
       (Inr (con_write (take (stop - start) (drop start formatted)) c))"

definition print_colored :: "ansicolor_sink \<Rightarrow> log_msg \<Rightarrow> string \<Rightarrow> console \<Rightarrow> console run" where
  "print_colored s msg formatted c =
     (if as_should_do_colors s \<and> lm_color_range_end msg > lm_color_range_start msg then
        bind_run (print_range formatted 0 (lm_color_range_start msg) c) (\<lambda>c1.
        bind_run (colors_at (lm_level msg) s) (\<lambda>code.
        bind_run (print_range formatted (lm_color_range_start msg) (lm_color_range_end msg) (print_ccode code c1)) (\<lambda>c2.
        print_range formatted (lm_color_range_end msg) (length formatted) (print_ccode ansi_reset c2))))
      else print_range formatted 0 (length formatted) c)"

definition ansi_log ::
    "log_env \<Rightarrow> log_msg \<Rightarrow> ansicolor_sink \<Rightarrow> console \<Rightarrow> (log_msg \<times> ansicolor_sink \<times> console) run" where
  "ansi_log env msg s c =
     bind_run (pf_format env (as_formatter s) (msg\<lparr>lm_color_range_start := 0, lm_color_range_end := 0\<rparr>) []) (\<lambda>(pf, msg', formatted).
     bind_run (print_colored s msg' formatted c) (\<lambda>c'.
     Inr (msg', s\<lparr>as_formatter := pf\<rparr>, con_flush c')))"

definition ansi_flush :: "ansicolor_sink \<Rightarrow> console \<Rightarrow> console" where
  "ansi_flush s c = con_flush c"

definition ansi_set_pattern :: "int \<Rightarrow> string \<Rightarrow> ansicolor_sink \<Rightarrow> ansicolor_sink" where
  "ansi_set_pattern now pattern s = s\<lparr>as_formatter := pattern_formatter_new now pattern time_local default_eol\<rparr>"

definition ansi_set_formatter :: "pattern_formatter \<Rightarrow> ansicolor_sink \<Rightarrow> ansicolor_sink" where
  "ansi_set_formatter f s = s\<lparr>as_formatter := f\<rparr>"

definition should_color :: "ansicolor_sink \<Rightarrow> bool" where
  "should_color s = as_should_do_colors s"

section \<open>Property\<close>

text \<open>The codes the constructor assigns.\<close>

fun level_code :: "level_enum \<Rightarrow> string" where
  "level_code level_trace = ansi_white"
| "level_code level_debug = ansi_cyan"
| "level_code level_info = ansi_green"
| "level_code level_warn = yellow_bold"
| "level_code level_err = red_bold"
| "level_code level_critical = bold_on_red"
| "level_code level_off = ansi_reset"

text \<open>A line on a terminal and a plain one.\<close>

definition colored_line :: "bool \<Rightarrow> log_env \<Rightarrow> log_msg \<Rightarrow> string" where
  "colored_line colors env msg =
     (let t = msg_tm env time_local msg; name = to_string_view (lm_level msg)
      in line_head t msg @ (if colors then level_code (lm_level msg) @ name @ ansi_reset else name) @
         line_tail (env_mdc env) msg @ default_eol)"

fun ansi_log_all :: "log_env \<Rightarrow> log_msg list \<Rightarrow> ansicolor_sink \<Rightarrow> console \<Rightarrow> (ansicolor_sink \<times> console) run" where
  "ansi_log_all env [] s c = Inr (s, c)"
| "ansi_log_all env (msg # msgs) s c =
     bind_run (ansi_log env msg s c) (\<lambda>(msg', s', c'). ansi_log_all env msgs s' c')"

definition ansi_ok :: "log_env \<Rightarrow> ansicolor_sink \<Rightarrow> bool" where
  "ansi_ok env s \<longleftrightarrow> caches_ok env time_local default_eol (as_formatter s) \<and>
     as_colors s = map level_code [level_trace, level_debug, level_info, level_warn, level_err, level_critical, level_off]"

lemma colors_at_code: "ansi_ok env s \<Longrightarrow> colors_at lvl s = Inr (level_code lvl)"
  by (cases lvl) (simp_all add: colors_at_def ansi_ok_def)

lemma ansicolor_sink_new_ok:
  "\<exists>s. ansicolor_sink_new getenv consoles target mode = Inr s \<and> ansi_ok env s \<and> as_target s = target \<and>
    as_should_do_colors s = (case mode of color_always \<Rightarrow> True | color_never \<Rightarrow> False
      | color_automatic \<Rightarrow> con_tty (consoles target) \<and> is_color_terminal getenv)"
  by (cases mode) (simp_all add: ansicolor_sink_new_def set_color_mode_def set_color_def colors_at_def ansi_ok_def base_formatter_def
      caches_ok_default numeral_eq_Suc in_terminal_def)

lemma ansi_log_ok:
  assumes "ansi_ok env s" and "formattable env time_local msg"
  shows "\<exists>msg' s'. ansi_log env msg s c = Inr (msg', s', con_flush (con_write (colored_line (as_should_do_colors s) env msg) c)) \<and>
    ansi_ok env s' \<and> as_should_do_colors s' = as_should_do_colors s"
proof -
  let ?m = "msg\<lparr>lm_color_range_start := 0, lm_color_range_end := 0\<rparr>" and ?t = "msg_tm env time_local msg"
  have same: "msg_tm env time_local ?m = ?t" "formattable env time_local ?m"
      "default_line ?t mdc ?m = default_line ?t mdc msg" "colored 0 ?t ?m = colored 0 ?t msg" for mdc
    using assms(2) by (simp_all add: msg_tm_def formattable_def msg_ok_def default_line_def line_head_def line_tail_def colored_def)
  obtain pf' where pf: "pf_format env (as_formatter s) ?m [] =
      Inr (pf', colored 0 ?t msg, default_line ?t (env_mdc env) msg @ default_eol)" "caches_ok env time_local default_eol pf'"
    using pf_format_default [of env time_local default_eol "as_formatter s" ?m "[]"] assms(1) same by (auto simp: ansi_ok_def)
  have "to_string_view (lm_level msg) \<noteq> []"
    by (cases "lm_level msg") (simp_all add: to_string_view_def level_string_views_def numeral_eq_Suc)
  then have "print_colored s (colored 0 ?t msg) (default_line ?t (env_mdc env) msg @ default_eol) c =
      Inr (con_write (colored_line (as_should_do_colors s) env msg) c)"
    using colors_at_code [OF assms(1)]
    by (simp add: print_colored_def print_range_def guard_run_def colored_def default_line_def colored_line_def
        print_ccode_def con_write_def Let_def)
  then show ?thesis using pf assms(1) by (simp add: ansi_log_def ansi_ok_def)
qed

lemma ansi_log_all_ok:
  assumes "ansi_ok env s" and "\<forall>msg \<in> set msgs. formattable env time_local msg"
  shows "\<exists>s' c'. ansi_log_all env msgs s c = Inr (s', c') \<and>
    con_shown c' @ con_buffer c' =
      con_shown c @ con_buffer c @ concat (map (colored_line (as_should_do_colors s) env) msgs) \<and>
    (msgs \<noteq> [] \<longrightarrow> con_buffer c' = []) \<and> con_tty c' = con_tty c"
  using assms
proof (induction msgs arbitrary: s c)
  case (Cons msg msgs)
  let ?line = "colored_line (as_should_do_colors s) env msg"
  obtain msg' s1 where l: "ansi_log env msg s c = Inr (msg', s1, con_flush (con_write ?line c))" "ansi_ok env s1"
      "as_should_do_colors s1 = as_should_do_colors s"
    using ansi_log_ok [OF Cons.prems(1), of msg c] Cons.prems(2) by auto
  obtain s' c' where "ansi_log_all env msgs s1 (con_flush (con_write ?line c)) = Inr (s', c')"
      "con_shown c' @ con_buffer c' =
         (con_shown c @ con_buffer c @ ?line) @ concat (map (colored_line (as_should_do_colors s) env) msgs)"
      "msgs \<noteq> [] \<longrightarrow> con_buffer c' = []" "con_tty c' = con_tty c"
    using Cons.IH [OF l(2), of "con_flush (con_write ?line c)"] Cons.prems(2) l(3)
    by (auto simp: con_flush_def con_write_def)
  moreover from this have "con_buffer c' = []"
    by (cases "msgs = []") (auto simp: con_flush_def)
  ultimately show ?case using l(1) by simp
qed simp

text \<open>
  The console shows what was logged. The constructor never fails; over any messages
  each line reaches the stream at once and in order, it is the default line of its message, and with colours (always,
  or automatically on a terminal that has them) exactly the name of the level is
  wrapped in the code of that level and a reset; without, no code is written.
\<close>

theorem console_shows_lines:
  fixes getenv :: "string \<Rightarrow> string option" and consoles :: "std_stream \<Rightarrow> console" and mode :: color_mode
  assumes "\<forall>msg \<in> set msgs. formattable env time_local msg" and "msgs \<noteq> []"
  defines "colors \<equiv> mode = color_always \<or>
    (mode = color_automatic \<and> con_tty (consoles Stdout) \<and> is_color_terminal getenv)"
  shows "\<exists>s s' c'. ansicolor_stdout_sink_new getenv consoles mode = Inr s \<and> should_color s = colors \<and>
    ansi_log_all env msgs s (consoles Stdout) = Inr (s', c') \<and> con_buffer c' = [] \<and>
    con_shown c' = con_shown (consoles Stdout) @ con_buffer (consoles Stdout) @
      concat (map (\<lambda>msg.
        line_head (msg_tm env time_local msg) msg @
        (if colors then level_code (lm_level msg) @ to_string_view (lm_level msg) @ ansi_reset
         else to_string_view (lm_level msg)) @
        line_tail (env_mdc env) msg @ default_eol) msgs)"
proof -
  obtain s where s: "ansicolor_sink_new getenv consoles Stdout mode = Inr s" "ansi_ok env s"
      "as_should_do_colors s = colors"
    using ansicolor_sink_new_ok [of getenv consoles Stdout mode env] unfolding colors_def by (cases mode) auto
  have line: "colored_line colors env = (\<lambda>msg.
      line_head (msg_tm env time_local msg) msg @
        (if colors then level_code (lm_level msg) @ to_string_view (lm_level msg) @ ansi_reset
         else to_string_view (lm_level msg)) @
        line_tail (env_mdc env) msg @ default_eol)"
    by (simp add: colored_line_def Let_def fun_eq_iff)
  obtain s' c' where "ansi_log_all env msgs s (consoles Stdout) = Inr (s', c')" "con_buffer c' = []"
      "con_shown c' @ con_buffer c' =
         con_shown (consoles Stdout) @ con_buffer (consoles Stdout) @ concat (map (colored_line colors env) msgs)"
    using ansi_log_all_ok [OF s(2) assms(1), of "consoles Stdout"] assms(2) s(3) by auto
  then show ?thesis
    using s unfolding line by (simp add: ansicolor_stdout_sink_new_def should_color_def)
qed

theorem console_shows_lines_witness:
  "\<exists>s s' c'. ansicolor_stdout_sink_new (\<lambda>v. if v = ''TERM'' then Some ''xterm-256color'' else None)
       (\<lambda>_. \<lparr>con_tty = True, con_shown = [], con_buffer = []\<rparr>) color_automatic = Inr s \<and>
    ansi_log_all noon_env [log_msg_new 1688904245042000000 1 source_loc_new ''log'' level_info ''hi''] s
      \<lparr>con_tty = True, con_shown = [], con_buffer = []\<rparr> = Inr (s', c') \<and>
    con_shown c' = ''[2023-07-09 12:04:05.042] [log] ['' @ [CHR 27] @ ''[32minfo'' @ [CHR 27] @ ''[m] hi'' @ [CHR 10]"
proof -
  let ?m = "log_msg_new 1688904245042000000 1 source_loc_new ''log'' level_info ''hi''"
    and ?getenv = "\<lambda>v. if v = ''TERM'' then Some ''xterm-256color'' else None"
  have t: "msg_tm noon_env tt m = noon" for tt m by (simp add: msg_tm_def broken_down_def noon_env_def)
  have ok: "\<forall>msg \<in> set [?m]. formattable noon_env time_local msg"
    by (simp add: formattable_def t msg_ok_def tm_ok_def noon_def log_msg_new_def source_loc_new_def)
  have tty: "is_color_terminal ?getenv" by code_simp
  have l: "line_head noon ?m = ''[2023-07-09 12:04:05.042] [log] [''" "line_tail (env_mdc noon_env) ?m = ''] hi''"
      "to_string_view (lm_level ?m) = ''info''" "level_code (lm_level ?m) = CHR 27 # ''[32m''" "ansi_reset = CHR 27 # ''[m''"
    by (code_simp, code_simp, code_simp, code_simp, code_simp)
  show ?thesis
    using console_shows_lines [OF ok, where mode = color_automatic and getenv = ?getenv
        and consoles = "\<lambda>_. \<lparr>con_tty = True, con_shown = [], con_buffer = []\<rparr>"]
    by (auto simp add: t l tty default_eol_def simp del: ansi_log_all.simps)
qed

end
