(* ===== verification/Spd_Logger.thy ===== *)
theory Spd_Logger
  imports Spd_Backtrace Spd_Console
begin

text \<open>
  The logger of \<^verbatim>\<open>spdlog\<close> over its sinks. Sinks are shared by pointers and live in a heap; each is one of
  the three kinds the wrapper of the program can create. An exception of one sink is caught
  and reported, and the loop goes on with the next.
\<close>

section \<open>Class sink\<close>

datatype sink_impl =
    Ansi_sink ansicolor_sink
  | Basic_sink basic_file_sink
  | Rotating_sink rotating_file_sink

record sink =
  sk_level :: level_enum
  sk_impl :: sink_impl

definition sink_new :: "sink_impl \<Rightarrow> sink" where
  "sink_new impl = \<lparr>sk_level = level_trace, sk_impl = impl\<rparr>"

definition sink_should_log :: "sink \<Rightarrow> level_enum \<Rightarrow> bool" where
  "sink_should_log s msg_level \<longleftrightarrow> level_value msg_level \<ge> level_value (sk_level s)"

definition sink_set_level :: "level_enum \<Rightarrow> sink \<Rightarrow> sink" where
  "sink_set_level log_level s = s\<lparr>sk_level := log_level\<rparr>"

text \<open>What the sinks and the loggers act on: the sinks are at addresses below \<open>sw_next\<close>.\<close>

record spd_world =
  sw_disk :: disk
  sw_console :: "std_stream \<Rightarrow> console"
  sw_getenv :: "string \<Rightarrow> string option"
  sw_sinks :: "addr \<rightharpoonup> sink"
  sw_next :: addr
  sw_now :: int
  sw_thread :: u64
  sw_err_counter :: u64
  sw_last_report :: int

definition put_sink :: "addr \<Rightarrow> sink \<Rightarrow> spd_world \<Rightarrow> spd_world" where
  "put_sink a s w = w\<lparr>sw_sinks := (sw_sinks w)(a \<mapsto> s)\<rparr>"

definition sink_log :: "log_env \<Rightarrow> log_msg \<Rightarrow> sink \<Rightarrow> spd_world \<Rightarrow> (exn option \<times> log_msg \<times> sink \<times> spd_world) run" where
  "sink_log env msg s w =
     (case sk_impl s of
        Ansi_sink c \<Rightarrow>
          bind_run (ansi_log env msg c (sw_console w (as_target c))) (\<lambda>(msg', c', con).
            Inr (None, msg', s\<lparr>sk_impl := Ansi_sink c'\<rparr>, w\<lparr>sw_console := (sw_console w)(as_target c := con)\<rparr>))
      | Basic_sink b \<Rightarrow>
          bind_run (bs_sink_it env msg b (sw_disk w)) (\<lambda>(e, msg', b', d).
            Inr (e, msg', s\<lparr>sk_impl := Basic_sink b'\<rparr>, w\<lparr>sw_disk := d\<rparr>))
      | Rotating_sink r \<Rightarrow>
          bind_run (rs_sink_it env msg r (sw_disk w)) (\<lambda>(e, msg', r', d).
            Inr (e, msg', s\<lparr>sk_impl := Rotating_sink r'\<rparr>, w\<lparr>sw_disk := d\<rparr>)))"

definition sink_flush :: "sink \<Rightarrow> spd_world \<Rightarrow> exn option \<times> sink \<times> spd_world" where
  "sink_flush s w =
     (case sk_impl s of
        Ansi_sink c \<Rightarrow> (None, s, w\<lparr>sw_console := (sw_console w)(as_target c := ansi_flush c (sw_console w (as_target c)))\<rparr>)
      | Basic_sink b \<Rightarrow> (case bs_flush b (sw_disk w) of (e, b', d) \<Rightarrow> (e, s\<lparr>sk_impl := Basic_sink b'\<rparr>, w\<lparr>sw_disk := d\<rparr>))
      | Rotating_sink r \<Rightarrow> (case rs_flush r (sw_disk w) of (e, r', d) \<Rightarrow> (e, s\<lparr>sk_impl := Rotating_sink r'\<rparr>, w\<lparr>sw_disk := d\<rparr>)))"

definition sink_set_formatter :: "pattern_formatter \<Rightarrow> sink \<Rightarrow> sink" where
  "sink_set_formatter f s =
     s\<lparr>sk_impl := (case sk_impl s of
         Ansi_sink c \<Rightarrow> Ansi_sink (ansi_set_formatter f c)
       | Basic_sink b \<Rightarrow> Basic_sink (b\<lparr>bs_formatter := f\<rparr>)
       | Rotating_sink r \<Rightarrow> Rotating_sink (r\<lparr>rs_formatter := f\<rparr>))\<rparr>"

section \<open>Class logger\<close>

record slogger =
  sl_name :: string
  sl_sinks :: "addr list"
  sl_level :: level_enum
  sl_flush_level :: level_enum
  sl_err_handler :: "(string \<Rightarrow> spd_world \<Rightarrow> spd_world) option"
  sl_tracer :: backtracer

definition slogger_new :: "string \<Rightarrow> addr list \<Rightarrow> slogger" where
  "slogger_new name sinks =
     \<lparr>sl_name = name, sl_sinks = sinks, sl_level = level_info, sl_flush_level = level_off,
      sl_err_handler = None, sl_tracer = backtracer_new\<rparr>"

definition slogger_copy :: "slogger \<Rightarrow> slogger" where
  "slogger_copy other = other\<lparr>sl_tracer := backtracer_copy (sl_tracer other)\<rparr>"

definition slogger_clone :: "string \<Rightarrow> slogger \<Rightarrow> slogger" where
  "slogger_clone logger_name lg = (slogger_copy lg)\<lparr>sl_name := logger_name\<rparr>"

definition slogger_swap :: "slogger \<Rightarrow> slogger \<Rightarrow> slogger \<times> slogger" where
  "slogger_swap this other = (other, this)"

definition lg_set_level :: "level_enum \<Rightarrow> slogger \<Rightarrow> slogger" where
  "lg_set_level log_level lg = lg\<lparr>sl_level := log_level\<rparr>"

definition lg_flush_on :: "level_enum \<Rightarrow> slogger \<Rightarrow> slogger" where
  "lg_flush_on log_level lg = lg\<lparr>sl_flush_level := log_level\<rparr>"

definition lg_enable_backtrace :: "u64 \<Rightarrow> slogger \<Rightarrow> slogger" where
  "lg_enable_backtrace n_messages lg = lg\<lparr>sl_tracer := bt_enable n_messages (sl_tracer lg)\<rparr>"

definition lg_disable_backtrace :: "slogger \<Rightarrow> slogger" where
  "lg_disable_backtrace lg = lg\<lparr>sl_tracer := bt_disable (sl_tracer lg)\<rparr>"

definition lg_set_error_handler :: "(string \<Rightarrow> spd_world \<Rightarrow> spd_world) option \<Rightarrow> slogger \<Rightarrow> slogger" where
  "lg_set_error_handler handler lg = lg\<lparr>sl_err_handler := handler\<rparr>"

definition lg_should_log :: "slogger \<Rightarrow> level_enum \<Rightarrow> bool" where
  "lg_should_log lg msg_level \<longleftrightarrow> level_value msg_level \<ge> level_value (sl_level lg)"

definition should_backtrace :: "slogger \<Rightarrow> bool" where
  "should_backtrace lg = bt_enabled (sl_tracer lg)"

text \<open>Every sink gets a clone of the formatter, the last one the formatter itself.\<close>

fun set_formatter_each :: "pattern_formatter \<Rightarrow> addr list \<Rightarrow> spd_world \<Rightarrow> spd_world run" where
  "set_formatter_each f [] w = Inr w"
| "set_formatter_each f (a # as) w =
     bind_run (load (sw_sinks w) a) (\<lambda>s.
       if as = [] then Inr (put_sink a (sink_set_formatter f s) w)
       else set_formatter_each f as (put_sink a (sink_set_formatter (pf_clone (sw_now w) f) s) w))"

definition lg_set_formatter :: "pattern_formatter \<Rightarrow> slogger \<Rightarrow> spd_world \<Rightarrow> spd_world run" where
  "lg_set_formatter f lg w = set_formatter_each f (sl_sinks lg) w"

definition lg_set_pattern :: "string \<Rightarrow> pattern_time_type \<Rightarrow> slogger \<Rightarrow> spd_world \<Rightarrow> spd_world run" where
  "lg_set_pattern pattern time_type lg w =
     lg_set_formatter (pattern_formatter_new (sw_now w) pattern time_type default_eol) lg w"

section \<open>Reporting errors\<close>

fun what :: "exn \<Rightarrow> string" where
  "what (Runtime_error s) = s"
| "what (Invalid_argument s) = s"
| "what (Out_of_range s) = s"
| "what (Type_error s) = s"
| "what (Syntax_error s) = s"
| "what (Internal_error s) = s"
| "what (Format_error s) = s"

text \<open>A text given to the C library ends at its first zero byte.\<close>

definition c_str :: "string \<Rightarrow> string" where
  "c_str s = takeWhile (\<lambda>c. c \<noteq> CHR 0x00) s"

definition date_text :: "tm \<Rightarrow> string" where
  "date_text t = int_text (tm_year t + 1900) @ ''-'' @ two_digits (tm_mon t + 1) @ ''-'' @ two_digits (tm_mday t) @
     '' '' @ two_digits (tm_hour t) @ '':'' @ two_digits (tm_min t) @ '':'' @ two_digits (tm_sec t)"

definition error_line :: "u64 \<Rightarrow> tm \<Rightarrow> string \<Rightarrow> string \<Rightarrow> string" where
  "error_line n t name msg =
     ''[*** LOG ERROR #'' @ replicate (4 - length (decimal (unat n))) (CHR ''0'') @ decimal (unat n) @ '' ***] ['' @
     date_text t @ ''] ['' @ c_str name @ ''] '' @ c_str msg @ [CHR 10]"

text \<open>The default handler counts every error and reports at most one per second.\<close>

definition err_handler :: "log_env \<Rightarrow> slogger \<Rightarrow> string \<Rightarrow> spd_world \<Rightarrow> spd_world" where
  "err_handler env lg msg w =
     (case sl_err_handler lg of
        Some custom \<Rightarrow> custom msg w
      | None \<Rightarrow>
          (let now = sw_now w;
               w1 = w\<lparr>sw_err_counter := sw_err_counter w + 1\<rparr>
           in if now - sw_last_report w1 < 1000000000 then w1
              else w1\<lparr>sw_last_report := now,
                      sw_console := (sw_console w1)(Stderr := con_flush (con_write
                        (error_line (sw_err_counter w1) (env_localtime env (to_secs now)) (sl_name lg) msg)
                        (sw_console w1 Stderr)))\<rparr>))"

definition catch_text :: "source_loc \<Rightarrow> exn \<Rightarrow> string" where
  "catch_text loc ex =
     (if sl_filename loc \<noteq> [] then what ex @ '' ['' @ sl_filename loc @ ''('' @ int_text (sl_line loc) @ '')]''
      else what ex)"

definition catch_report :: "log_env \<Rightarrow> slogger \<Rightarrow> source_loc \<Rightarrow> exn option \<Rightarrow> spd_world \<Rightarrow> spd_world" where
  "catch_report env lg loc e w =
     (case e of None \<Rightarrow> w | Some ex \<Rightarrow> err_handler env lg (catch_text loc ex) w)"

section \<open>Logging\<close>

fun flush_each :: "log_env \<Rightarrow> slogger \<Rightarrow> addr list \<Rightarrow> spd_world \<Rightarrow> spd_world run" where
  "flush_each env lg [] w = Inr w"
| "flush_each env lg (a # as) w =
     bind_run (load (sw_sinks w) a) (\<lambda>s.
       (case sink_flush s w of (e, s', w1) \<Rightarrow>
          flush_each env lg as (catch_report env lg source_loc_new e (put_sink a s' w1))))"

definition lg_flush :: "log_env \<Rightarrow> slogger \<Rightarrow> spd_world \<Rightarrow> spd_world run" where
  "lg_flush env lg w = flush_each env lg (sl_sinks lg) w"

definition should_flush :: "slogger \<Rightarrow> log_msg \<Rightarrow> bool" where
  "should_flush lg msg \<longleftrightarrow> level_value (lm_level msg) \<ge> level_value (sl_flush_level lg) \<and> lm_level msg \<noteq> level_off"

fun sink_each :: "log_env \<Rightarrow> slogger \<Rightarrow> addr list \<Rightarrow> log_msg \<Rightarrow> spd_world \<Rightarrow> (log_msg \<times> spd_world) run" where
  "sink_each env lg [] msg w = Inr (msg, w)"
| "sink_each env lg (a # as) msg w =
     bind_run (load (sw_sinks w) a) (\<lambda>s.
       if sink_should_log s (lm_level msg) then
         bind_run (sink_log env msg s w) (\<lambda>(e, msg', s', w1).
           sink_each env lg as msg' (catch_report env lg (lm_source msg') e (put_sink a s' w1)))
       else sink_each env lg as msg w)"

definition lg_sink_it :: "log_env \<Rightarrow> slogger \<Rightarrow> log_msg \<Rightarrow> spd_world \<Rightarrow> (log_msg \<times> spd_world) run" where
  "lg_sink_it env lg msg w =
     bind_run (sink_each env lg (sl_sinks lg) msg w) (\<lambda>(msg', w1).
       if should_flush lg msg' then bind_run (lg_flush env lg w1) (\<lambda>w2. Inr (msg', w2)) else Inr (msg', w1))"

definition log_it :: "log_env \<Rightarrow> slogger \<Rightarrow> log_msg \<Rightarrow> bool \<Rightarrow> bool \<Rightarrow> spd_world \<Rightarrow> (slogger \<times> spd_world) run" where
  "log_it env lg msg log_enabled traceback_enabled w =
     bind_run (if log_enabled then lg_sink_it env lg msg w else Inr (msg, w)) (\<lambda>(msg', w1).
       if traceback_enabled then bind_run (bt_push_back msg' (sl_tracer lg)) (\<lambda>t. Inr (lg\<lparr>sl_tracer := t\<rparr>, w1))
       else Inr (lg, w1))"

text \<open>Logging a text as it is; \<open>Log_Lines\<close> has the other form, with a format string and arguments.\<close>

definition lg_log_msg :: "log_env \<Rightarrow> slogger \<Rightarrow> source_loc \<Rightarrow> level_enum \<Rightarrow> string \<Rightarrow> spd_world \<Rightarrow> (slogger \<times> spd_world) run" where
  "lg_log_msg env lg loc lvl payload w =
     (let log_enabled = lg_should_log lg lvl; traceback_enabled = bt_enabled (sl_tracer lg)
      in if \<not> log_enabled \<and> \<not> traceback_enabled then Inr (lg, w)
         else log_it env lg (log_msg_new (sw_now w) (sw_thread w) loc (sl_name lg) lvl payload)
                log_enabled traceback_enabled w)"

definition banner :: "spd_world \<Rightarrow> slogger \<Rightarrow> string \<Rightarrow> log_msg" where
  "banner w lg payload = log_msg_new (sw_now w) (sw_thread w) source_loc_new (sl_name lg) level_info payload"

definition dump_backtrace :: "log_env \<Rightarrow> slogger \<Rightarrow> spd_world \<Rightarrow> (slogger \<times> spd_world) run" where
  "dump_backtrace env lg w =
     (if bt_enabled (sl_tracer lg) \<and> \<not> bt_empty (sl_tracer lg) then
        bind_run (lg_sink_it env lg (banner w lg ''****************** Backtrace Start ******************'') w) (\<lambda>(_, w1).
        bind_run (foreach_pop (\<lambda>msg w'. bind_run (lg_sink_it env lg msg w') (\<lambda>(_, w''). Inr w'')) (sl_tracer lg) w1) (\<lambda>(t, w2).
        bind_run (lg_sink_it env lg (banner w2 lg ''****************** Backtrace End ********************'') w2) (\<lambda>(_, w3).
        Inr (lg\<lparr>sl_tracer := t\<rparr>, w3))))
      else Inr (lg, w))"

section \<open>A logger of file sinks\<close>

text \<open>What a file sink has been given so far, written or buffered.\<close>

definition sink_text :: "spd_world \<Rightarrow> addr \<Rightarrow> string option" where
  "sink_text w a =
     (case sw_sinks w a of
        Some s \<Rightarrow> (case sk_impl s of
                     Basic_sink b \<Rightarrow> logical (bs_file b) (sw_disk w) (fh_filename (bs_file b))
                   | _ \<Rightarrow> None)
      | None \<Rightarrow> None)"

text \<open>A basic file sink open on its file, that logs messages of the level.\<close>

definition basic_at :: "log_env \<Rightarrow> level_enum \<Rightarrow> string \<Rightarrow> spd_world \<Rightarrow> addr \<Rightarrow> bool" where
  "basic_at env lvl p w a \<longleftrightarrow>
     (\<exists>b st lv. sw_sinks w a = Some \<lparr>sk_level = lv, sk_impl = Basic_sink b\<rparr> \<and> level_value lv \<le> level_value lvl \<and>
        caches_ok env time_local default_eol (bs_formatter b) \<and>
        fh_fd (bs_file b) = Some st \<and> st_path st = p \<and> fh_filename (bs_file b) = p \<and> fs_files (sw_disk w) p \<noteq> None)"

lemma sink_text_cong:
  assumes "basic_at env lvl p w a" and "sw_sinks w' a = sw_sinks w a" and "fs_files (sw_disk w') p = fs_files (sw_disk w) p"
  shows "basic_at env lvl p w' a" and "sink_text w' a = sink_text w a"
  using assms by (auto simp: basic_at_def sink_text_def logical_def closed_files_def append_to_same)

lemma fh_write_any:
  assumes "fh_write buf fh d0 = (e, fh', d)" and "next_io d0 = (r, d1)" and "buf \<noteq> []"
    and "fh_fd fh = Some st" and "st_path st = p" and "fs_files d0 p \<noteq> None"
  shows "e = None \<longleftrightarrow> r \<noteq> Io_fail" and "fs_faults d = fs_faults d1"
    and "q \<noteq> p \<Longrightarrow> fs_files d q = fs_files d0 q" and "fs_files d p \<noteq> None"
    and "\<exists>st'. fh_fd fh' = Some st' \<and> st_path st' = p" and "fh_filename fh' = fh_filename fh"
    and "logical fh' d p = map_option (\<lambda>t. t @ (if r = Io_fail then [] else buf)) (logical fh d0 p)"
proof -
  have "fs_files d1 = fs_files d0" using assms(2) by (auto simp: next_io_def split: list.splits)
  then show "e = None \<longleftrightarrow> r \<noteq> Io_fail" "fs_faults d = fs_faults d1" "q \<noteq> p \<Longrightarrow> fs_files d q = fs_files d0 q"
      "fs_files d p \<noteq> None" "\<exists>st'. fh_fd fh' = Some st' \<and> st_path st' = p" "fh_filename fh' = fh_filename fh"
      "logical fh' d p = map_option (\<lambda>t. t @ (if r = Io_fail then [] else buf)) (logical fh d0 p)"
    using assms
    by (cases r; auto simp: fh_write_def c_fwrite_def logical_def closed_files_def append_file_def append_to_def)+
qed

text \<open>A failing write loses the line of that sink and nothing else.\<close>

lemma sink_log_basic:
  assumes at: "basic_at env (lm_level msg) p w a" and fmt: "formattable env time_local msg"
    and io: "next_io (sw_disk w) = (r, d1)"
  shows "\<exists>s e s' d. sw_sinks w a = Some s \<and> sink_should_log s (lm_level msg) \<and>
    sink_log env msg s w = Inr (e, colored 0 (msg_tm env time_local msg) msg, s', w\<lparr>sw_disk := d\<rparr>) \<and>
    (e = None \<longleftrightarrow> r \<noteq> Io_fail) \<and> fs_faults d = fs_faults d1 \<and>
    (\<forall>q. q \<noteq> p \<longrightarrow> fs_files d q = fs_files (sw_disk w) q) \<and>
    basic_at env (lm_level msg) p (put_sink a s' (w\<lparr>sw_disk := d\<rparr>)) a \<and>
    sink_text (put_sink a s' (w\<lparr>sw_disk := d\<rparr>)) a =
      map_option (\<lambda>t. t @ (if r = Io_fail then [] else log_line_text env msg)) (sink_text w a)"
proof -
  obtain b st lv where b: "sw_sinks w a = Some \<lparr>sk_level = lv, sk_impl = Basic_sink b\<rparr>" "level_value lv \<le> level_value (lm_level msg)"
      "caches_ok env time_local default_eol (bs_formatter b)" "fh_fd (bs_file b) = Some st" "st_path st = p"
      "fh_filename (bs_file b) = p" "fs_files (sw_disk w) p \<noteq> None"
    using at by (auto simp: basic_at_def)
  obtain pf' where pf: "pf_format env (bs_formatter b) msg [] =
      Inr (pf', colored 0 (msg_tm env time_local msg) msg, log_line_text env msg)" "caches_ok env time_local default_eol pf'"
    using pf_format_default [OF b(3) fmt, of "[]"] by (auto simp: log_line_text_def)
  obtain e fh' d where wr: "fh_write (log_line_text env msg) (bs_file b) (sw_disk w) = (e, fh', d)"
    by (metis prod_cases3)
  have line: "log_line_text env msg \<noteq> []" by (simp add: log_line_text_def default_eol_def)
  note after = fh_write_any [OF wr io line b(4,5,7)]
  have "sink_log env msg \<lparr>sk_level = lv, sk_impl = Basic_sink b\<rparr> w =
      Inr (e, colored 0 (msg_tm env time_local msg) msg,
        \<lparr>sk_level = lv, sk_impl = Basic_sink (b\<lparr>bs_formatter := pf', bs_file := fh'\<rparr>)\<rparr>, w\<lparr>sw_disk := d\<rparr>)"
    using pf(1) wr by (simp add: sink_log_def bs_sink_it_def)
  then show ?thesis
    using b pf(2) after by (auto simp: sink_should_log_def basic_at_def sink_text_def put_sink_def)
qed

lemma catch_report_frame [simp]:
  assumes "sl_err_handler lg = None"
  shows "sw_disk (catch_report env lg loc e w) = sw_disk w" "sw_sinks (catch_report env lg loc e w) = sw_sinks w"
    "sw_err_counter (catch_report env lg loc e w) = sw_err_counter w + (if e = None then 0 else 1)"
  using assms by (auto simp: catch_report_def err_handler_def Let_def split: option.splits)

definition fails :: "io list \<Rightarrow> nat \<Rightarrow> bool" where
  "fails ios i \<longleftrightarrow> i < length ios \<and> ios ! i = Io_fail"

lemma fails_next:
  assumes "next_io d = (r, d1)"
  shows "fails (fs_faults d) 0 \<longleftrightarrow> r = Io_fail" and "fails (fs_faults d) (Suc i) \<longleftrightarrow> fails (fs_faults d1) i"
  using assms by (auto simp: next_io_def fails_def split: list.splits)

lemma colored_same [simp]:
  "lm_level (colored n t msg) = lm_level msg" "lm_source (colored n t msg) = lm_source msg"
  "log_line_text env (colored n t msg) = log_line_text env msg"
  "formattable env tt (colored n t msg) \<longleftrightarrow> formattable env tt msg"
  "msg_tm env tt (colored n t msg) = msg_tm env tt msg"
  by (simp_all add: colored_def log_line_text_def default_line_def line_head_def line_tail_def formattable_def msg_ok_def msg_tm_def)

definition failed_before :: "io list \<Rightarrow> nat \<Rightarrow> u64" where
  "failed_before ios n = of_nat (length (filter (fails ios) [0..<n]))"

lemma failed_before_Suc:
  assumes "next_io d = (r, d1)"
  shows "failed_before (fs_faults d) (Suc n) = (if r = Io_fail then 1 else 0) + failed_before (fs_faults d1) n"
proof -
  have "filter (fails (fs_faults d)) (map Suc [0..<n]) = map Suc (filter (fails (fs_faults d1)) [0..<n])"
    using fails_next(2) [OF assms] by (simp add: filter_map comp_def)
  then show ?thesis
    using fails_next(1) [OF assms]
    by (simp add: failed_before_def upt_rec [of 0 "Suc n"] map_Suc_upt [symmetric] del: upt_Suc map_Suc_upt)
qed

lemma sink_each_basic:
  assumes "sl_err_handler lg = None" and "formattable env time_local msg"
    and "\<forall>a \<in> set as. basic_at env (lm_level msg) (path a) w a" and "distinct as" and "inj_on path (set as)"
  shows "\<exists>msg' w'. sink_each env lg as msg w = Inr (msg', w') \<and> lm_level msg' = lm_level msg \<and>
    (\<forall>i < length as. sink_text w' (as ! i) =
       map_option (\<lambda>t. t @ (if fails (fs_faults (sw_disk w)) i then [] else log_line_text env msg)) (sink_text w (as ! i))) \<and>
    (\<forall>b. b \<notin> set as \<longrightarrow> sw_sinks w' b = sw_sinks w b) \<and>
    (\<forall>q. q \<notin> path ` set as \<longrightarrow> fs_files (sw_disk w') q = fs_files (sw_disk w) q) \<and>
    sw_err_counter w' = sw_err_counter w + failed_before (fs_faults (sw_disk w)) (length as)"
  using assms(2-)
proof (induction as arbitrary: msg w)
  case Nil
  then show ?case by (simp add: failed_before_def)
next
  case (Cons a as)
  obtain r d1 where io: "next_io (sw_disk w) = (r, d1)" by (cases "next_io (sw_disk w)")
  let ?msg = "colored 0 (msg_tm env time_local msg) msg"
  have at: "basic_at env (lm_level msg) (path a) w a" using Cons.prems(2) by simp
  obtain s e s' d where l: "sw_sinks w a = Some s" "sink_should_log s (lm_level msg)"
      "sink_log env msg s w = Inr (e, ?msg, s', w\<lparr>sw_disk := d\<rparr>)" "e = None \<longleftrightarrow> r \<noteq> Io_fail" "fs_faults d = fs_faults d1"
      "\<forall>q. q \<noteq> path a \<longrightarrow> fs_files d q = fs_files (sw_disk w) q"
      "basic_at env (lm_level msg) (path a) (put_sink a s' (w\<lparr>sw_disk := d\<rparr>)) a"
      "sink_text (put_sink a s' (w\<lparr>sw_disk := d\<rparr>)) a =
         map_option (\<lambda>t. t @ (if r = Io_fail then [] else log_line_text env msg)) (sink_text w a)"
    using sink_log_basic [OF at Cons.prems(1) io] by blast
  define w1 where "w1 = catch_report env lg (lm_source msg) e (put_sink a s' (w\<lparr>sw_disk := d\<rparr>))"
  have w1: "sw_disk w1 = d" "sw_sinks w1 = (sw_sinks w)(a \<mapsto> s')"
      "sw_err_counter w1 = sw_err_counter w + (if r = Io_fail then 1 else 0)"
    using assms(1) l(4) by (auto simp: w1_def put_sink_def)
  have step: "sink_each env lg (a # as) msg w = sink_each env lg as ?msg w1"
    using l(1-3) by (simp add: load_def w1_def)
  have other: "b \<noteq> a" "path b \<noteq> path a" if "b \<in> set as" for b
    using Cons.prems(3,4) that by (auto simp: inj_on_def)
  have rest: "basic_at env (lm_level msg) (path b) w1 b" "sink_text w1 b = sink_text w b" if "b \<in> set as" for b
    using sink_text_cong [of env "lm_level msg" "path b" w b w1] Cons.prems(2) other [OF that] that w1 l(6) by auto
  obtain msg' w' where ih: "sink_each env lg as ?msg w1 = Inr (msg', w')" "lm_level msg' = lm_level msg"
      "\<forall>i < length as. sink_text w' (as ! i) =
        map_option (\<lambda>t. t @ (if fails (fs_faults d) i then [] else log_line_text env msg)) (sink_text w1 (as ! i))"
      "\<forall>b. b \<notin> set as \<longrightarrow> sw_sinks w' b = sw_sinks w1 b"
      "\<forall>q. q \<notin> path ` set as \<longrightarrow> fs_files (sw_disk w') q = fs_files d q"
      "sw_err_counter w' = sw_err_counter w1 + failed_before (fs_faults d) (length as)"
    using Cons.IH [of ?msg w1] Cons.prems rest(1) w1(1) by auto
  have here: "a \<notin> set as" "path a \<notin> path ` set as" using Cons.prems(3) other(2) by (auto dest: sym)
  have "basic_at env (lm_level msg) (path a) w1 a" "sink_text w1 a = sink_text (put_sink a s' (w\<lparr>sw_disk := d\<rparr>)) a"
    using sink_text_cong [OF l(7), of w1] w1 by (simp_all add: put_sink_def)
  then have head: "sink_text w' a = sink_text (put_sink a s' (w\<lparr>sw_disk := d\<rparr>)) a"
    using sink_text_cong(2) [of env "lm_level msg" "path a" w1 a w'] ih(4,5) here w1 by simp
  have "sink_text w' ((a # as) ! i) =
      map_option (\<lambda>t. t @ (if fails (fs_faults (sw_disk w)) i then [] else log_line_text env msg)) (sink_text w ((a # as) ! i))"
    if "i < length (a # as)" for i
    using that head l(5,8) ih(3) rest(2) fails_next [OF io] by (cases i) (simp_all add: fails_def)
  moreover have "sw_err_counter w' = sw_err_counter w + failed_before (fs_faults (sw_disk w)) (length (a # as))"
    using ih(6) w1(3) failed_before_Suc [OF io, of "length as"] l(5) by (simp add: failed_before_def fails_def)
  ultimately show ?case
    using step ih(1,2,4,5) w1 l(6) by auto
qed

section \<open>Property\<close>


definition open_file_sink :: "string \<Rightarrow> sink" where
  "open_file_sink p = sink_new (Basic_sink \<lparr>bs_file = \<lparr>fh_fd = Some \<lparr>st_path = p, st_pending = []\<rparr>, fh_filename = p,
     fh_handlers = no_handlers\<rparr>, bs_formatter = base_formatter\<rparr>)"

definition two_sink_world :: spd_world where
  "two_sink_world =
     \<lparr>sw_disk = \<lparr>fs_files = [''a'' \<mapsto> [], ''b'' \<mapsto> []], fs_dirs = [], fs_faults = [Io_fail], fs_errno = [], fs_slept = 0\<rparr>,
      sw_console = (\<lambda>_. \<lparr>con_tty = False, con_shown = [], con_buffer = []\<rparr>),
      sw_getenv = (\<lambda>_. None), sw_sinks = [1 \<mapsto> open_file_sink ''a'', 2 \<mapsto> open_file_sink ''b''], sw_next = 3,
      sw_now = 1688904245042000000, sw_thread = 1, sw_err_counter = 0, sw_last_report = 0\<rparr>"


section \<open>The backtrace of a logger\<close>

text \<open>One file sink with room, for all levels.\<close>

definition one_sink :: "log_env \<Rightarrow> string \<Rightarrow> addr \<Rightarrow> slogger \<Rightarrow> spd_world \<Rightarrow> bool" where
  "one_sink env p a lg w \<longleftrightarrow> sl_sinks lg = [a] \<and> sl_err_handler lg = None \<and> sl_flush_level lg = level_off \<and>
     basic_at env level_trace p w a \<and> fs_faults (sw_disk w) = []"

lemma level_trace_least [simp]: "level_value level_trace \<le> level_value l"
  by simp

lemma not_should_flush: "sl_flush_level lg = level_off \<Longrightarrow> \<not> should_flush lg msg"
  by (cases "lm_level msg") (simp_all add: should_flush_def)

definition sank :: "log_env \<Rightarrow> log_msg \<Rightarrow> log_msg" where
  "sank env msg = colored 0 (msg_tm env time_local msg) msg"

lemma sank_same [simp]:
  "log_line_text env (sank env' msg) = log_line_text env msg" "formattable env tt (sank env' msg) = formattable env tt msg"
  by (simp_all add: sank_def)

lemma lg_sink_it_one:
  assumes "one_sink env p a lg w" and "formattable env time_local msg"
  shows "\<exists>w'. lg_sink_it env lg msg w = Inr (sank env msg, w') \<and> one_sink env p a lg w' \<and>
    sw_now w' = sw_now w \<and> sw_thread w' = sw_thread w \<and>
    sink_text w' a = map_option (\<lambda>t. t @ log_line_text env msg) (sink_text w a)"
proof -
  have o: "sl_sinks lg = [a]" "sl_err_handler lg = None" "sl_flush_level lg = level_off" "basic_at env level_trace p w a"
      "fs_faults (sw_disk w) = []" using assms(1) by (simp_all add: one_sink_def)
  then have at: "basic_at env (lm_level msg) p w a" using level_trace_least by (fastforce simp: basic_at_def)
  have io: "next_io (sw_disk w) = (Io_ok, sw_disk w)" using o(5) by (simp add: next_io_def)
  obtain s s' d where l: "sw_sinks w a = Some s" "sink_should_log s (lm_level msg)"
      "sink_log env msg s w = Inr (None, sank env msg, s', w\<lparr>sw_disk := d\<rparr>)" "fs_faults d = []"
      "basic_at env (lm_level msg) p (put_sink a s' (w\<lparr>sw_disk := d\<rparr>)) a"
      "sink_text (put_sink a s' (w\<lparr>sw_disk := d\<rparr>)) a = map_option (\<lambda>t. t @ log_line_text env msg) (sink_text w a)"
    using sink_log_basic [OF at assms(2) io] o(5) by (auto simp: sank_def)
  have "sk_level s' = sk_level s"
    using l(3) by (auto simp: sink_log_def bind_run_Inr_conv split: sink_impl.splits prod.splits)
  then have "basic_at env level_trace p (put_sink a s' (w\<lparr>sw_disk := d\<rparr>)) a"
    using l(1,5) o(4) by (auto simp: basic_at_def put_sink_def)
  then have "one_sink env p a lg (put_sink a s' (w\<lparr>sw_disk := d\<rparr>))"
    using o l(4) by (simp add: one_sink_def put_sink_def)
  moreover have "lg_sink_it env lg msg w = Inr (sank env msg, put_sink a s' (w\<lparr>sw_disk := d\<rparr>))"
    using o(1) l(1-3) not_should_flush [OF o(3)] by (simp add: lg_sink_it_def load_def catch_report_def)
  ultimately show ?thesis using l(6) by (simp add: put_sink_def)
qed

lemma run_all_sink:
  assumes "one_sink env p a lg w" and "\<forall>msg \<in> set msgs. formattable env time_local msg"
  shows "\<exists>w'. run_all (\<lambda>msg w. bind_run (lg_sink_it env lg msg w) (\<lambda>(_, w'). Inr w')) msgs w = Inr w' \<and>
    one_sink env p a lg w' \<and> sw_now w' = sw_now w \<and> sw_thread w' = sw_thread w \<and>
    sink_text w' a = map_option (\<lambda>t. t @ concat (map (log_line_text env) msgs)) (sink_text w a)"
  using assms
proof (induction msgs arbitrary: w)
  case (Cons msg msgs)
  then obtain w1 where "lg_sink_it env lg msg w = Inr (sank env msg, w1)" "one_sink env p a lg w1" "sw_now w1 = sw_now w"
      "sw_thread w1 = sw_thread w" "sink_text w1 a = map_option (\<lambda>t. t @ log_line_text env msg) (sink_text w a)"
    using lg_sink_it_one [of env p a lg w msg] by auto
  then show ?case using Cons.IH [of w1] Cons.prems(2) by (auto simp: option.map_comp comp_def)
qed (simp add: option.map_ident)

text \<open>Logging a list of levels and texts.\<close>

fun lg_log_all :: "log_env \<Rightarrow> slogger \<Rightarrow> (level_enum \<times> string) list \<Rightarrow> spd_world \<Rightarrow> (slogger \<times> spd_world) run" where
  "lg_log_all env lg [] w = Inr (lg, w)"
| "lg_log_all env lg ((lvl, payload) # entries) w =
     bind_run (lg_log_msg env lg source_loc_new lvl payload w) (\<lambda>(lg', w'). lg_log_all env lg' entries w')"

definition entry_msg :: "slogger \<Rightarrow> spd_world \<Rightarrow> level_enum \<times> string \<Rightarrow> log_msg" where
  "entry_msg lg w e = log_msg_new (sw_now w) (sw_thread w) source_loc_new (sl_name lg) (fst e) (snd e)"

text \<open>What the backtrace keeps of an entry: the message, with the colour range if a sink has formatted it.\<close>

definition kept_msg :: "log_env \<Rightarrow> slogger \<Rightarrow> spd_world \<Rightarrow> level_enum \<times> string \<Rightarrow> log_msg" where
  "kept_msg env lg w e = (if lg_should_log lg (fst e) then sank env (entry_msg lg w e) else entry_msg lg w e)"

lemma bt_push_enabled: "bt_push_back m t = Inr t' \<Longrightarrow> bt_enabled t' = bt_enabled t"
  by (auto simp: bt_push_back_def bind_run_Inr_conv)

lemma lg_log_all_one:
  assumes "one_sink env p a lg w" and "bt_enabled (sl_tracer lg)"
    and "\<forall>e \<in> set entries. formattable env time_local (entry_msg lg w e)"
    and "run_all bt_push_back (map (kept_msg env lg w) entries) (sl_tracer lg) = Inr t"
  shows "\<exists>w'. lg_log_all env lg entries w = Inr (lg\<lparr>sl_tracer := t\<rparr>, w') \<and> one_sink env p a lg w' \<and>
    sw_now w' = sw_now w \<and> sw_thread w' = sw_thread w \<and>
    sink_text w' a = map_option (\<lambda>x. x @ concat (map (\<lambda>e. log_line_text env (entry_msg lg w e))
       (filter (\<lambda>e. lg_should_log lg (fst e)) entries))) (sink_text w a)"
  using assms
proof (induction entries arbitrary: lg w)
  case Nil
  then show ?case by (simp add: option.map_ident)
next
  case (Cons e entries)
  obtain lvl payload where e: "e = (lvl, payload)" by (cases e)
  let ?m = "entry_msg lg w e"
  obtain t1 where t1: "bt_push_back (kept_msg env lg w e) (sl_tracer lg) = Inr t1"
      "run_all bt_push_back (map (kept_msg env lg w) entries) t1 = Inr t"
    using Cons.prems(4) by (auto simp: bind_run_Inr_conv)
  let ?lg = "lg\<lparr>sl_tracer := t1\<rparr>"
  obtain w1 where w1: "lg_log_msg env lg source_loc_new lvl payload w = Inr (?lg, w1)" "one_sink env p a lg w1"
      "sw_now w1 = sw_now w" "sw_thread w1 = sw_thread w"
      "sink_text w1 a = map_option (\<lambda>x. x @ (if lg_should_log lg lvl then log_line_text env ?m else [])) (sink_text w a)"
  proof (cases "lg_should_log lg lvl")
    case True
    obtain w1 where "lg_sink_it env lg ?m w = Inr (sank env ?m, w1)" "one_sink env p a lg w1"
        "sw_now w1 = sw_now w" "sw_thread w1 = sw_thread w"
        "sink_text w1 a = map_option (\<lambda>x. x @ log_line_text env ?m) (sink_text w a)"
      using lg_sink_it_one [OF Cons.prems(1), of ?m] Cons.prems(3) by auto
    then show ?thesis
      using that True t1(1) Cons.prems(2) e by (simp add: lg_log_msg_def log_it_def entry_msg_def kept_msg_def)
  next
    case False
    then show ?thesis
      using that [of w] t1(1) Cons.prems(1,2) e
      by (simp add: lg_log_msg_def log_it_def entry_msg_def kept_msg_def option.map_ident)
  qed
  have same: "one_sink env p a ?lg w' = one_sink env p a lg w'" "lg_should_log ?lg = lg_should_log lg"
      "entry_msg ?lg w1 = entry_msg lg w" "kept_msg env ?lg w1 = kept_msg env lg w" for w'
    using w1(3,4) by (simp_all add: one_sink_def lg_should_log_def entry_msg_def kept_msg_def fun_eq_iff)
  have "bt_enabled t1" using bt_push_enabled [OF t1(1)] Cons.prems(2) by simp
  then obtain w' where "lg_log_all env ?lg entries w1 = Inr (?lg\<lparr>sl_tracer := t\<rparr>, w')" "one_sink env p a ?lg w'"
      "sw_now w' = sw_now w1" "sw_thread w' = sw_thread w1"
      "sink_text w' a = map_option (\<lambda>x. x @ concat (map (\<lambda>e. log_line_text env (entry_msg lg w e))
         (filter (\<lambda>e. lg_should_log lg (fst e)) entries))) (sink_text w1 a)"
    using Cons.IH [of ?lg w1] Cons.prems(3) w1(2) t1(2) same by auto
  then show ?case using w1 e same(1) by (auto simp: option.map_comp comp_def)
qed

lemma dump_backtrace_one:
  assumes one: "one_sink env p a lg w" "bt_enabled (sl_tracer lg)" and holds: "bt_holds (sl_tracer lg) msgs" "msgs \<noteq> []"
    and fmt: "\<forall>msg \<in> set msgs. formattable env time_local msg" "formattable env time_local (banner w lg [])"
  shows "\<exists>t w'. dump_backtrace env lg w = Inr (lg\<lparr>sl_tracer := t\<rparr>, w') \<and> bt_holds t [] \<and>
    sink_text w' a = map_option (\<lambda>x. x @ log_line_text env (banner w lg ''****************** Backtrace Start ******************'') @
      concat (map (log_line_text env) msgs) @
      log_line_text env (banner w lg ''****************** Backtrace End ********************'')) (sink_text w a)"
proof -
  let ?fn = "\<lambda>msg w'. bind_run (lg_sink_it env lg msg w') (\<lambda>(_, w''). Inr w'')"
  let ?b1 = "banner w lg ''****************** Backtrace Start ******************''"
    and ?b2 = "banner w lg ''****************** Backtrace End ********************''"
  have b: "formattable env time_local (banner w lg s)" for s
    using fmt(2) by (simp add: banner_def formattable_def msg_ok_def msg_tm_def log_msg_new_def)
  have same: "banner w' lg s = banner w lg s" if "sw_now w' = sw_now w" "sw_thread w' = sw_thread w" for w' s
    using that by (simp add: banner_def)
  obtain w2 where w2: "lg_sink_it env lg ?b1 w = Inr (sank env ?b1, w2)" "one_sink env p a lg w2"
      "sw_now w2 = sw_now w" "sw_thread w2 = sw_thread w"
      "sink_text w2 a = map_option (\<lambda>x. x @ log_line_text env ?b1) (sink_text w a)"
    using lg_sink_it_one [OF one(1) b] by auto
  obtain w3 where w3: "run_all ?fn msgs w2 = Inr w3" "one_sink env p a lg w3"
      "sw_now w3 = sw_now w" "sw_thread w3 = sw_thread w"
      "sink_text w3 a = map_option (\<lambda>x. x @ concat (map (log_line_text env) msgs)) (sink_text w2 a)"
    using run_all_sink [OF w2(2) fmt(1)] w2(3,4) by auto
  obtain t where t: "bt_holds t []" "\<forall>s. foreach_pop ?fn (sl_tracer lg) s = bind_run (run_all ?fn msgs s) (\<lambda>s'. Inr (t, s'))"
    using bt_popped [OF holds(1)] by blast
  obtain w4 where w4: "lg_sink_it env lg ?b2 w3 = Inr (sank env ?b2, w4)"
      "sink_text w4 a = map_option (\<lambda>x. x @ log_line_text env ?b2) (sink_text w3 a)"
    using lg_sink_it_one [OF w3(2) b] by auto
  have "dump_backtrace env lg w = Inr (lg\<lparr>sl_tracer := t\<rparr>, w4)"
    using bt_holds_empty [OF holds(1)] holds(2) one(2) w2(1) w3(1) t(2) w4(1) same [OF w3(3,4)]
    by (simp add: dump_backtrace_def)
  moreover have "sink_text w4 a = map_option (\<lambda>x. x @ log_line_text env ?b1 @ concat (map (log_line_text env) msgs) @
      log_line_text env ?b2) (sink_text w a)"
    using w2(5) w3(5) w4(2) by (simp add: option.map_comp comp_def)
  ultimately show ?thesis using t(1) by blast
qed


definition one_sink_world :: spd_world where
  "one_sink_world = two_sink_world\<lparr>sw_disk := (sw_disk two_sink_world)\<lparr>fs_faults := []\<rparr>\<rparr>"


end
