(* ===== verification/Spd_Registry.thy ===== *)
theory Spd_Registry
  imports Spd_Logger
begin

text \<open>
  The registry of \<^verbatim>\<open>spdlog\<close>, which keeps the names of loggers unique and hands its settings to
  each new one, and the factory that makes a sink and a logger. Loggers are shared by pointers and live
  in a heap. Every operation is a step of a machine; a locale lifts its invariant to sequences.
\<close>

section \<open>Making and destroying sinks\<close>

datatype sink_spec =
    stdout_color_sink
  | basic_file_spec string
  | rotating_file_spec string u64 nat

definition new_sink :: "sink_impl \<Rightarrow> spd_world \<Rightarrow> addr \<times> spd_world" where
  "new_sink impl w = (sw_next w, (put_sink (sw_next w) (sink_new impl) w)\<lparr>sw_next := Suc (sw_next w)\<rparr>)"

definition make_sink :: "sink_spec \<Rightarrow> spd_world \<Rightarrow> ((exn + addr) \<times> spd_world) run" where
  "make_sink spec w =
     (case spec of
        stdout_color_sink \<Rightarrow>
          bind_run (ansicolor_stdout_sink_new (sw_getenv w) (sw_console w) color_automatic) (\<lambda>s.
          case new_sink (Ansi_sink s) w of (a, w1) \<Rightarrow> Inr (Inr a, w1))
      | basic_file_spec filename \<Rightarrow>
          (case basic_file_sink_new filename False no_handlers (sw_disk w) of
             (Inl e, d) \<Rightarrow> Inr (Inl e, w\<lparr>sw_disk := d\<rparr>)
           | (Inr s, d) \<Rightarrow> (case new_sink (Basic_sink s) (w\<lparr>sw_disk := d\<rparr>) of (a, w1) \<Rightarrow> Inr (Inr a, w1)))
      | rotating_file_spec filename max_size max_files \<Rightarrow>
          (case rotating_file_sink_new filename max_size max_files False no_handlers (sw_disk w) of
             (Inl e, d) \<Rightarrow> Inr (Inl e, w\<lparr>sw_disk := d\<rparr>)
           | (Inr s, d) \<Rightarrow> (case new_sink (Rotating_sink s) (w\<lparr>sw_disk := d\<rparr>) of (a, w1) \<Rightarrow> Inr (Inr a, w1))))"

text \<open>The destructor of a file sink closes its file.\<close>

definition sink_delete :: "addr \<Rightarrow> spd_world \<Rightarrow> spd_world" where
  "sink_delete a w =
     (let w1 = w\<lparr>sw_sinks := (sw_sinks w)(a := None)\<rparr>
      in case map_option sk_impl (sw_sinks w a) of
           Some (Basic_sink b) \<Rightarrow> w1\<lparr>sw_disk := snd (fh_close (bs_file b) (sw_disk w))\<rparr>
         | Some (Rotating_sink r) \<Rightarrow> w1\<lparr>sw_disk := snd (fh_close (rs_file r) (sw_disk w))\<rparr>
         | _ \<Rightarrow> w1)"

section \<open>Class registry\<close>

record registry =
  reg_heap :: "(addr \<times> slogger) list"
  reg_loggers :: "(string \<times> addr) list"
  reg_log_levels :: "(string \<times> level_enum) list"
  reg_formatter :: pattern_formatter
  reg_global_level :: level_enum
  reg_flush_level :: level_enum
  reg_err_handler :: "(string \<Rightarrow> spd_world \<Rightarrow> spd_world) option"
  reg_default :: "addr option"
  reg_automatic :: bool
  reg_backtrace :: u64

definition store_logger :: "addr \<Rightarrow> slogger \<Rightarrow> registry \<Rightarrow> registry" where
  "store_logger a l r = r\<lparr>reg_heap := (a, l) # filter (\<lambda>p. fst p \<noteq> a) (reg_heap r)\<rparr>"

definition fresh_addr :: "(addr \<times> 'a) list \<Rightarrow> addr" where
  "fresh_addr h = Suc (fold max (map fst h) 0)"

text \<open>The registry starts with a default logger, whose name is empty.\<close>

definition registry_new :: "spd_world \<Rightarrow> (registry \<times> spd_world) run" where
  "registry_new w =
     bind_run (ansicolor_stdout_sink_new (sw_getenv w) (sw_console w) color_automatic) (\<lambda>s.
     case new_sink (Ansi_sink s) w of
       (a, w1) \<Rightarrow>
         Inr (\<lparr>reg_heap = [(0, slogger_new [] [a])], reg_loggers = [([], 0)], reg_log_levels = [],
               reg_formatter = base_formatter, reg_global_level = level_info, reg_flush_level = level_off,
               reg_err_handler = None, reg_default = Some 0, reg_automatic = True, reg_backtrace = 0\<rparr>, w1))"

definition throw_if_exists :: "string \<Rightarrow> registry \<Rightarrow> exn option" where
  "throw_if_exists name r =
     (if map_of (reg_loggers r) name \<noteq> None
      then Some (Runtime_error (''logger with name '' @ name @ '' already exists'')) else None)"

definition register_logger :: "addr \<Rightarrow> registry \<Rightarrow> (exn option \<times> registry) run" where
  "register_logger a r =
     bind_run (load (map_of (reg_heap r)) a) (\<lambda>l.
       case throw_if_exists (sl_name l) r of
         Some e \<Rightarrow> Inr (Some e, r)
       | None \<Rightarrow> Inr (None, r\<lparr>reg_loggers := (sl_name l, a) # reg_loggers r\<rparr>))"

definition configured_level :: "registry \<Rightarrow> string \<Rightarrow> level_enum" where
  "configured_level r name = (case map_of (reg_log_levels r) name of Some x \<Rightarrow> x | None \<Rightarrow> reg_global_level r)"

definition registry_settings :: "registry \<Rightarrow> slogger \<Rightarrow> slogger" where
  "registry_settings r new_logger =
     (let l1 = (if reg_err_handler r \<noteq> None then lg_set_error_handler (reg_err_handler r) new_logger else new_logger);
          l2 = lg_set_level (configured_level r (sl_name l1)) l1;
          l3 = lg_flush_on (reg_flush_level r) l2
      in if reg_backtrace r > 0 then lg_enable_backtrace (reg_backtrace r) l3 else l3)"

definition initialize_logger :: "addr \<Rightarrow> registry \<Rightarrow> spd_world \<Rightarrow> (exn option \<times> registry \<times> spd_world) run" where
  "initialize_logger a r w =
     bind_run (load (map_of (reg_heap r)) a) (\<lambda>l.
     bind_run (lg_set_formatter (pf_clone (sw_now w) (reg_formatter r)) l w) (\<lambda>w1.
       let r1 = store_logger a (registry_settings r l) r
       in if reg_automatic r then bind_run (register_logger a r1) (\<lambda>(e, r2). Inr (e, r2, w1))
          else Inr (None, r1, w1)))"

definition reg_get :: "string \<Rightarrow> registry \<Rightarrow> addr option" where
  "reg_get logger_name r = map_of (reg_loggers r) logger_name"

definition default_logger :: "registry \<Rightarrow> addr option" where
  "default_logger r = reg_default r"

definition erase :: "string \<Rightarrow> (string \<times> 'a) list \<Rightarrow> (string \<times> 'a) list" where
  "erase name ls = filter (\<lambda>p. fst p \<noteq> name) ls"

definition set_default_logger :: "addr option \<Rightarrow> registry \<Rightarrow> registry run" where
  "set_default_logger new_default_logger r =
     (case new_default_logger of
        None \<Rightarrow> Inr (r\<lparr>reg_default := None\<rparr>)
      | Some a \<Rightarrow>
          bind_run (load (map_of (reg_heap r)) a) (\<lambda>l.
            Inr (r\<lparr>reg_loggers := (sl_name l, a) # erase (sl_name l) (reg_loggers r), reg_default := Some a\<rparr>)))"

text \<open>A loop over the registered loggers, with their names.\<close>

fun for_loggers :: "(string \<Rightarrow> slogger \<Rightarrow> slogger) \<Rightarrow> (string \<times> addr) list \<Rightarrow> registry \<Rightarrow> registry run" where
  "for_loggers f [] r = Inr r"
| "for_loggers f ((name, a) # ls) r =
     bind_run (load (map_of (reg_heap r)) a) (\<lambda>l. for_loggers f ls (store_logger a (f name l) r))"

fun formatter_loop :: "pattern_formatter \<Rightarrow> registry \<Rightarrow> (string \<times> addr) list \<Rightarrow> spd_world \<Rightarrow> spd_world run" where
  "formatter_loop f r [] w = Inr w"
| "formatter_loop f r ((name, a) # ls) w =
     bind_run (load (map_of (reg_heap r)) a) (\<lambda>l.
     bind_run (lg_set_formatter (pf_clone (sw_now w) f) l w) (formatter_loop f r ls))"

definition reg_set_formatter :: "pattern_formatter \<Rightarrow> registry \<Rightarrow> spd_world \<Rightarrow> (registry \<times> spd_world) run" where
  "reg_set_formatter f r w =
     bind_run (formatter_loop f r (reg_loggers r) w) (\<lambda>w'. Inr (r\<lparr>reg_formatter := f\<rparr>, w'))"

definition reg_enable_backtrace :: "u64 \<Rightarrow> registry \<Rightarrow> registry run" where
  "reg_enable_backtrace n r =
     for_loggers (\<lambda>_. lg_enable_backtrace n) (reg_loggers r) (r\<lparr>reg_backtrace := n\<rparr>)"

definition reg_disable_backtrace :: "registry \<Rightarrow> registry run" where
  "reg_disable_backtrace r = for_loggers (\<lambda>_. lg_disable_backtrace) (reg_loggers r) (r\<lparr>reg_backtrace := 0\<rparr>)"

definition reg_set_level :: "level_enum \<Rightarrow> registry \<Rightarrow> registry run" where
  "reg_set_level log_level r =
     bind_run (for_loggers (\<lambda>_. lg_set_level log_level) (reg_loggers r) r) (\<lambda>r'. Inr (r'\<lparr>reg_global_level := log_level\<rparr>))"

definition reg_flush_on :: "level_enum \<Rightarrow> registry \<Rightarrow> registry run" where
  "reg_flush_on log_level r =
     bind_run (for_loggers (\<lambda>_. lg_flush_on log_level) (reg_loggers r) r) (\<lambda>r'. Inr (r'\<lparr>reg_flush_level := log_level\<rparr>))"

definition reg_set_error_handler :: "(string \<Rightarrow> spd_world \<Rightarrow> spd_world) option \<Rightarrow> registry \<Rightarrow> registry run" where
  "reg_set_error_handler handler r =
     bind_run (for_loggers (\<lambda>_. lg_set_error_handler handler) (reg_loggers r) r) (\<lambda>r'. Inr (r'\<lparr>reg_err_handler := handler\<rparr>))"

fun flush_loop :: "log_env \<Rightarrow> registry \<Rightarrow> (string \<times> addr) list \<Rightarrow> spd_world \<Rightarrow> spd_world run" where
  "flush_loop env r [] w = Inr w"
| "flush_loop env r ((name, a) # ls) w =
     bind_run (load (map_of (reg_heap r)) a) (\<lambda>l. bind_run (lg_flush env l w) (flush_loop env r ls))"

definition flush_all :: "log_env \<Rightarrow> registry \<Rightarrow> spd_world \<Rightarrow> spd_world run" where
  "flush_all env r w = flush_loop env r (reg_loggers r) w"

definition reg_drop :: "string \<Rightarrow> registry \<Rightarrow> registry" where
  "reg_drop logger_name r =
     (let is_default_logger =
            (case reg_default r of
               None \<Rightarrow> False
             | Some a \<Rightarrow> map_option sl_name (map_of (reg_heap r) a) = Some logger_name);
          r1 = r\<lparr>reg_loggers := erase logger_name (reg_loggers r)\<rparr>
      in if is_default_logger then r1\<lparr>reg_default := None\<rparr> else r1)"

definition drop_all :: "registry \<Rightarrow> registry" where
  "drop_all r = r\<lparr>reg_loggers := [], reg_default := None\<rparr>"

definition set_automatic_registration :: "bool \<Rightarrow> registry \<Rightarrow> registry" where
  "set_automatic_registration b r = r\<lparr>reg_automatic := b\<rparr>"

definition set_levels :: "(string \<times> level_enum) list \<Rightarrow> level_enum option \<Rightarrow> registry \<Rightarrow> registry run" where
  "set_levels lvls global_level r =
     (let r1 = r\<lparr>reg_log_levels := lvls,
                 reg_global_level := (case global_level of Some g \<Rightarrow> g | None \<Rightarrow> reg_global_level r)\<rparr>
      in for_loggers
           (\<lambda>name l. case map_of lvls name of
              Some lvl \<Rightarrow> lg_set_level lvl l
            | None \<Rightarrow> (case global_level of Some g \<Rightarrow> lg_set_level g l | None \<Rightarrow> l))
           (reg_loggers r1) r1)"

definition apply_logger_env_levels :: "addr \<Rightarrow> registry \<Rightarrow> registry run" where
  "apply_logger_env_levels a r =
     bind_run (load (map_of (reg_heap r)) a) (\<lambda>l.
       Inr (store_logger a (lg_set_level (configured_level r (sl_name l)) l) r))"

section \<open>The factory\<close>

text \<open>If the name is taken, the exception destroys the new logger and its sink.\<close>

definition create_logger :: "string \<Rightarrow> sink_spec \<Rightarrow> registry \<Rightarrow> spd_world \<Rightarrow> ((exn + addr) \<times> registry \<times> spd_world) run" where
  "create_logger logger_name spec r w =
     bind_run (make_sink spec w) (\<lambda>(res, w1).
       case res of
         Inl e \<Rightarrow> Inr (Inl e, r, w1)
       | Inr s \<Rightarrow>
           (let a = fresh_addr (reg_heap r)
            in bind_run (initialize_logger a (store_logger a (slogger_new logger_name [s]) r) w1) (\<lambda>(e, r2, w2).
                 case e of
                   Some ex \<Rightarrow> Inr (Inl ex, r, sink_delete s w2)
                 | None \<Rightarrow> Inr (Inr a, r2, w2))))"

section \<open>The registry as a machine\<close>

datatype reg_op =
    Create string sink_spec
  | Register addr
  | Set_default "addr option"
  | Set_formatter pattern_formatter
  | Enable_backtrace u64
  | Disable_backtrace
  | Set_level level_enum
  | Flush_on level_enum
  | Set_error_handler "(string \<Rightarrow> spd_world \<Rightarrow> spd_world) option"
  | Flush_all
  | Drop string
  | Drop_all
  | Set_automatic bool
  | Set_levels "(string \<times> level_enum) list" "level_enum option"
  | Apply_env_levels addr

text \<open>A pointer a caller hands in is one it holds: where it holds none the call is not made.\<close>

definition holds_pointer :: "registry \<Rightarrow> addr \<Rightarrow> bool" where
  "holds_pointer r a \<longleftrightarrow> map_of (reg_heap r) a \<noteq> None"

fun reg_step :: "log_env \<Rightarrow> reg_op \<Rightarrow> registry \<times> spd_world \<Rightarrow> (registry \<times> spd_world) run" where
  "reg_step env (Create name spec) (r, w) = bind_run (create_logger name spec r w) (\<lambda>(res, r', w'). Inr (r', w'))"
| "reg_step env (Register a) (r, w) =
     (if holds_pointer r a then bind_run (register_logger a r) (\<lambda>(e, r'). Inr (r', w)) else Inr (r, w))"
| "reg_step env (Set_default p) (r, w) =
     (if (case p of None \<Rightarrow> True | Some a \<Rightarrow> holds_pointer r a)
      then bind_run (set_default_logger p r) (\<lambda>r'. Inr (r', w)) else Inr (r, w))"
| "reg_step env (Set_formatter f) (r, w) = reg_set_formatter f r w"
| "reg_step env (Enable_backtrace n) (r, w) = bind_run (reg_enable_backtrace n r) (\<lambda>r'. Inr (r', w))"
| "reg_step env Disable_backtrace (r, w) = bind_run (reg_disable_backtrace r) (\<lambda>r'. Inr (r', w))"
| "reg_step env (Set_level lvl) (r, w) = bind_run (reg_set_level lvl r) (\<lambda>r'. Inr (r', w))"
| "reg_step env (Flush_on lvl) (r, w) = bind_run (reg_flush_on lvl r) (\<lambda>r'. Inr (r', w))"
| "reg_step env (Set_error_handler h) (r, w) = bind_run (reg_set_error_handler h r) (\<lambda>r'. Inr (r', w))"
| "reg_step env Flush_all (r, w) = bind_run (flush_all env r w) (\<lambda>w'. Inr (r, w'))"
| "reg_step env (Drop name) (r, w) = Inr (reg_drop name r, w)"
| "reg_step env Drop_all (r, w) = Inr (drop_all r, w)"
| "reg_step env (Set_automatic b) (r, w) = Inr (set_automatic_registration b r, w)"
| "reg_step env (Set_levels lvls g) (r, w) = bind_run (set_levels lvls g r) (\<lambda>r'. Inr (r', w))"
| "reg_step env (Apply_env_levels a) (r, w) =
     (if holds_pointer r a then bind_run (apply_logger_env_levels a r) (\<lambda>r'. Inr (r', w)) else Inr (r, w))"

locale op_machine =
  fixes step :: "'o \<Rightarrow> 's \<Rightarrow> 's run"
    and inv :: "'s \<Rightarrow> bool"
    and allowed :: "'o \<Rightarrow> bool"
  assumes step_keeps: "inv s \<Longrightarrow> allowed op \<Longrightarrow> \<exists>s'. step op s = Inr s' \<and> inv s'"
begin

lemma runs_keep: "inv s \<Longrightarrow> \<forall>op \<in> set ops. allowed op \<Longrightarrow> \<exists>s'. run_all step ops s = Inr s' \<and> inv s'"
proof (induction ops arbitrary: s)
  case (Cons op ops)
  then obtain s1 where "step op s = Inr s1" "inv s1" using step_keeps [of s op] by auto
  then show ?case using Cons.IH [of s1] Cons.prems(2) by simp
qed simp

end

section \<open>The invariant\<close>

text \<open>An error handler of the user leaves the sinks where they are.\<close>

definition tame :: "(string \<Rightarrow> spd_world \<Rightarrow> spd_world) option \<Rightarrow> bool" where
  "tame h \<longleftrightarrow> (\<forall>f. h = Some f \<longrightarrow> (\<forall>m w. dom (sw_sinks (f m w)) = dom (sw_sinks w) \<and> sw_next (f m w) = sw_next w))"

definition names_ok :: "registry \<Rightarrow> bool" where
  "names_ok r \<longleftrightarrow> distinct (map fst (reg_loggers r)) \<and>
     (\<forall>(name, a) \<in> set (reg_loggers r). \<exists>l. map_of (reg_heap r) a = Some l \<and> sl_name l = name) \<and>
     (\<forall>a. reg_default r = Some a \<longrightarrow> (\<exists>l. map_of (reg_heap r) a = Some l \<and> map_of (reg_loggers r) (sl_name l) = Some a))"

definition logger_ok :: "spd_world \<Rightarrow> slogger \<Rightarrow> bool" where
  "logger_ok w l \<longleftrightarrow> set (sl_sinks l) \<subseteq> dom (sw_sinks w) \<and> tame (sl_err_handler l)"

definition heap_ok :: "registry \<Rightarrow> spd_world \<Rightarrow> bool" where
  "heap_ok r w \<longleftrightarrow> (\<forall>a l. map_of (reg_heap r) a = Some l \<longrightarrow> logger_ok w l) \<and> tame (reg_err_handler r) \<and>
     (\<forall>a \<in> dom (sw_sinks w). a < sw_next w)"

definition reg_ok :: "registry \<times> spd_world \<Rightarrow> bool" where
  "reg_ok s \<longleftrightarrow> names_ok (fst s) \<and> heap_ok (fst s) (snd s)"

fun op_ok :: "reg_op \<Rightarrow> bool" where
  "op_ok (Set_error_handler h) = tame h"
| "op_ok _ = True"

text \<open>The sinks are where they were.\<close>

definition same_sinks :: "spd_world \<Rightarrow> spd_world \<Rightarrow> bool" where
  "same_sinks w w' \<longleftrightarrow> dom (sw_sinks w') = dom (sw_sinks w) \<and> sw_next w' = sw_next w"

lemma same_sinks_refl [simp]: "same_sinks w w"
  by (simp add: same_sinks_def)

lemma same_sinks_trans: "same_sinks w w1 \<Longrightarrow> same_sinks w1 w2 \<Longrightarrow> same_sinks w w2"
  by (simp add: same_sinks_def)

lemma same_sinks_put: "a \<in> dom (sw_sinks w) \<Longrightarrow> same_sinks w (put_sink a s w)"
  by (auto simp: same_sinks_def put_sink_def)

lemma heap_ok_same_sinks: "heap_ok r w \<Longrightarrow> same_sinks w w' \<Longrightarrow> heap_ok r w'"
  by (auto simp: heap_ok_def logger_ok_def same_sinks_def)

lemma set_formatter_each_ok:
  "set as \<subseteq> dom (sw_sinks w) \<Longrightarrow> \<exists>w'. set_formatter_each f as w = Inr w' \<and> same_sinks w w'"
proof (induction as arbitrary: w)
  case (Cons a as)
  then obtain s where s: "sw_sinks w a = Some s" by auto
  show ?case
  proof (cases "as = []")
    case True
    then show ?thesis using s same_sinks_put [of a w] by (auto simp: load_def)
  next
    case False
    let ?w1 = "put_sink a (sink_set_formatter (pf_clone (sw_now w) f) s) w"
    have w1: "same_sinks w ?w1" using s same_sinks_put by blast
    then obtain w' where "set_formatter_each f as ?w1 = Inr w'" "same_sinks ?w1 w'"
      using Cons.IH [of ?w1] Cons.prems by (auto simp: same_sinks_def)
    then show ?thesis using s False same_sinks_trans [OF w1] by (simp add: load_def)
  qed
qed simp

lemma catch_report_same: "tame (sl_err_handler lg) \<Longrightarrow> same_sinks w (catch_report env lg loc e w)"
  by (auto simp: catch_report_def err_handler_def same_sinks_def tame_def Let_def split: option.splits)

lemma sink_flush_same: "sink_flush s w = (e, s', w') \<Longrightarrow> sw_sinks w' = sw_sinks w \<and> sw_next w' = sw_next w"
  by (auto simp: sink_flush_def split: sink_impl.splits prod.splits)

lemma flush_each_ok:
  "tame (sl_err_handler lg) \<Longrightarrow> set as \<subseteq> dom (sw_sinks w) \<Longrightarrow> \<exists>w'. flush_each env lg as w = Inr w' \<and> same_sinks w w'"
proof (induction as arbitrary: w)
  case (Cons a as)
  then obtain s where s: "sw_sinks w a = Some s" by auto
  obtain e s' w1 where f: "sink_flush s w = (e, s', w1)" by (metis prod_cases3)
  let ?w2 = "catch_report env lg source_loc_new e (put_sink a s' w1)"
  have "same_sinks w (put_sink a s' w1)" using sink_flush_same [OF f] s by (auto simp: same_sinks_def put_sink_def)
  then have w2: "same_sinks w ?w2" using catch_report_same [OF Cons.prems(1)] same_sinks_trans by blast
  then obtain w' where "flush_each env lg as ?w2 = Inr w'" "same_sinks ?w2 w'"
    using Cons.IH [of ?w2] Cons.prems by (auto simp: same_sinks_def)
  then show ?case using s f same_sinks_trans [OF w2] by (simp add: load_def)
qed simp

text \<open>A loop over loggers that are there, each step of which keeps the sinks.\<close>

lemma formatter_loop_ok:
  assumes "\<forall>(name, a) \<in> set ls. \<exists>l. map_of (reg_heap r) a = Some l" and "heap_ok r w"
  shows "\<exists>w'. formatter_loop f r ls w = Inr w' \<and> same_sinks w w'"
  using assms
proof (induction ls arbitrary: w)
  case (Cons p ls)
  obtain name a where p: "p = (name, a)" by (cases p)
  then obtain l where l: "map_of (reg_heap r) a = Some l" using Cons.prems(1) by auto
  then have "set (sl_sinks l) \<subseteq> dom (sw_sinks w)" using Cons.prems(2) by (auto simp: heap_ok_def logger_ok_def)
  then obtain w1 where w1: "lg_set_formatter (pf_clone (sw_now w) f) l w = Inr w1" "same_sinks w w1"
    using set_formatter_each_ok [of "sl_sinks l" w "pf_clone (sw_now w) f"] by (auto simp: lg_set_formatter_def)
  then show ?case
    using Cons.IH [of w1] Cons.prems heap_ok_same_sinks [OF _ w1(2)] l p same_sinks_trans [OF w1(2)] by (auto simp: load_def)
qed simp

lemma flush_loop_ok:
  assumes "\<forall>(name, a) \<in> set ls. \<exists>l. map_of (reg_heap r) a = Some l" and "heap_ok r w"
  shows "\<exists>w'. flush_loop env r ls w = Inr w' \<and> same_sinks w w'"
  using assms
proof (induction ls arbitrary: w)
  case (Cons p ls)
  obtain name a where p: "p = (name, a)" by (cases p)
  then obtain l where l: "map_of (reg_heap r) a = Some l" using Cons.prems(1) by auto
  then have "set (sl_sinks l) \<subseteq> dom (sw_sinks w)" "tame (sl_err_handler l)"
    using Cons.prems(2) by (auto simp: heap_ok_def logger_ok_def)
  then obtain w1 where w1: "lg_flush env l w = Inr w1" "same_sinks w w1"
    using flush_each_ok [of l "sl_sinks l" w env] by (auto simp: lg_flush_def)
  then show ?case
    using Cons.IH [of w1] Cons.prems heap_ok_same_sinks [OF _ w1(2)] l p same_sinks_trans [OF w1(2)] by (auto simp: load_def)
qed simp

text \<open>A registry whose loggers have changed, but neither in their names nor in their sinks.\<close>

definition changed_to :: "slogger \<Rightarrow> slogger \<Rightarrow> bool" where
  "changed_to l l' \<longleftrightarrow> sl_name l' = sl_name l \<and> sl_sinks l' = sl_sinks l \<and> (tame (sl_err_handler l) \<longrightarrow> tame (sl_err_handler l'))"

definition similar :: "registry \<Rightarrow> registry \<Rightarrow> bool" where
  "similar r r' \<longleftrightarrow> reg_loggers r' = reg_loggers r \<and> reg_default r' = reg_default r \<and> reg_err_handler r' = reg_err_handler r \<and>
     (\<forall>a. rel_option changed_to (map_of (reg_heap r) a) (map_of (reg_heap r') a))"

lemma similar_refl: "similar r r"
  by (simp add: similar_def changed_to_def option.rel_refl)

lemma similar_trans: "similar r r1 \<Longrightarrow> similar r1 r2 \<Longrightarrow> similar r r2"
  unfolding similar_def by (auto simp: changed_to_def rel_option_iff split: option.splits) (metis option.exhaust option.discI)+

lemma map_of_store: "map_of (reg_heap (store_logger a l r)) b = (if b = a then Some l else map_of (reg_heap r) b)"
proof -
  have "map_of (filter (\<lambda>p. fst p \<noteq> a) h) b = (if b = a then None else map_of h b)" for h :: "(addr \<times> slogger) list"
    by (induction h) auto
  then show ?thesis by (simp add: store_logger_def)
qed

lemma store_logger_frame [simp]:
  "reg_loggers (store_logger a l r) = reg_loggers r" "reg_default (store_logger a l r) = reg_default r"
  "reg_err_handler (store_logger a l r) = reg_err_handler r" "reg_automatic (store_logger a l r) = reg_automatic r"
  "reg_log_levels (store_logger a l r) = reg_log_levels r" "reg_global_level (store_logger a l r) = reg_global_level r"
  "reg_flush_level (store_logger a l r) = reg_flush_level r" "reg_backtrace (store_logger a l r) = reg_backtrace r"
  by (simp_all add: store_logger_def)

lemma similar_store: "map_of (reg_heap r) a = Some l \<Longrightarrow> changed_to l l' \<Longrightarrow> similar r (store_logger a l' r)"
  by (simp add: similar_def map_of_store changed_to_def option.rel_refl)

lemma similar_SomeD:
  assumes "similar r r'" and "map_of (reg_heap r) a = Some l"
  shows "\<exists>l'. map_of (reg_heap r') a = Some l' \<and> changed_to l l'"
proof -
  have "rel_option changed_to (map_of (reg_heap r) a) (map_of (reg_heap r') a)" using assms(1) by (simp add: similar_def)
  then show ?thesis using assms(2) by (auto simp: rel_option_iff split: option.splits)
qed

lemma similar_SomeE:
  assumes "similar r r'" and "map_of (reg_heap r') a = Some l'"
  obtains l where "map_of (reg_heap r) a = Some l" "changed_to l l'"
proof -
  have "rel_option changed_to (map_of (reg_heap r) a) (map_of (reg_heap r') a)" using assms(1) by (simp add: similar_def)
  then show thesis using assms(2) that by (auto simp: rel_option_iff split: option.splits)
qed

lemma similar_names_ok:
  assumes "similar r r'" and "names_ok r"
  shows "names_ok r'"
proof -
  have eq: "reg_loggers r' = reg_loggers r" "reg_default r' = reg_default r" using assms(1) by (simp_all add: similar_def)
  have name: "\<exists>l'. map_of (reg_heap r') a = Some l' \<and> sl_name l' = sl_name l" if "map_of (reg_heap r) a = Some l" for a l
    using similar_SomeD [OF assms(1) that] by (auto simp: changed_to_def)
  have "\<exists>l'. map_of (reg_heap r') a = Some l' \<and> sl_name l' = n" if "(n, a) \<in> set (reg_loggers r)" for n a
    using assms(2) that name [of a] by (fastforce simp: names_ok_def)
  moreover have "\<exists>l'. map_of (reg_heap r') a = Some l' \<and> map_of (reg_loggers r) (sl_name l') = Some a" if "reg_default r = Some a" for a
    using assms(2) that name [of a] by (fastforce simp: names_ok_def)
  ultimately show ?thesis using assms(2) eq by (auto simp: names_ok_def)
qed

lemma similar_heap_ok:
  assumes "similar r r'" and "heap_ok r w"
  shows "heap_ok r' w"
proof -
  have "logger_ok w l'" if here: "map_of (reg_heap r') a = Some l'" for a l'
  proof -
    obtain l where "map_of (reg_heap r) a = Some l" "changed_to l l'" using similar_SomeE [OF assms(1) here] .
    then show ?thesis using assms(2) by (auto simp: heap_ok_def logger_ok_def changed_to_def)
  qed
  then show ?thesis using assms by (auto simp: heap_ok_def similar_def)
qed

lemma for_loggers_ok:
  assumes "\<forall>(name, a) \<in> set ls. \<exists>l. map_of (reg_heap r) a = Some l" and "\<forall>name l. changed_to l (f name l)"
  shows "\<exists>r'. for_loggers f ls r = Inr r' \<and> similar r r'"
  using assms
proof (induction ls arbitrary: r)
  case Nil
  then show ?case by (simp add: similar_refl)
next
  case (Cons p ls)
  obtain name a where p: "p = (name, a)" by (cases p)
  then obtain l where l: "map_of (reg_heap r) a = Some l" using Cons.prems(1) by auto
  let ?r1 = "store_logger a (f name l) r"
  have s: "similar r ?r1" using similar_store [OF l] Cons.prems(2) by blast
  then have "\<forall>(name, a) \<in> set ls. \<exists>l. map_of (reg_heap ?r1) a = Some l"
    using Cons.prems(1) by (auto simp: map_of_store)
  then obtain r' where "for_loggers f ls ?r1 = Inr r'" "similar ?r1 r'" using Cons.IH [of ?r1] Cons.prems(2) by blast
  then show ?case using l p similar_trans [OF s] by (auto simp: load_def)
qed

lemma changed_to_setters [simp]:
  "changed_to l (lg_set_level lvl l)" "changed_to l (lg_flush_on lvl l)" "changed_to l (lg_enable_backtrace n l)"
  "changed_to l (lg_disable_backtrace l)" "changed_to l l" "tame h \<Longrightarrow> changed_to l (lg_set_error_handler h l)"
  by (simp_all add: changed_to_def lg_set_level_def lg_flush_on_def lg_enable_backtrace_def lg_disable_backtrace_def
      lg_set_error_handler_def)

lemma registered_live: "names_ok r \<Longrightarrow> \<forall>(name, a) \<in> set (reg_loggers r). \<exists>l. map_of (reg_heap r) a = Some l"
  by (fastforce simp: names_ok_def)

text \<open>The operations that loop over the loggers.\<close>

lemma reg_loop_ok:
  assumes ok: "names_ok r" "heap_ok r w" and f: "\<forall>name l. changed_to l (f name l)"
    and r0: "reg_loggers r0 = reg_loggers r" "reg_default r0 = reg_default r" "reg_heap r0 = reg_heap r"
      "reg_err_handler r0 = reg_err_handler r"
  shows "\<exists>r'. for_loggers f (reg_loggers r) r0 = Inr r' \<and> names_ok r' \<and> heap_ok r' w"
proof -
  have ok0: "names_ok r0" "heap_ok r0 w" using ok unfolding names_ok_def heap_ok_def r0 by - assumption+
  then obtain r' where "for_loggers f (reg_loggers r) r0 = Inr r'" "similar r0 r'"
    using for_loggers_ok [of "reg_loggers r" r0 f] registered_live [OF ok(1)] r0(3) f by auto
  then show ?thesis using similar_names_ok similar_heap_ok ok0 by blast
qed

section \<open>Every operation keeps it\<close>

lemma fold_max_start: "m \<le> fold max xs (m :: nat)"
proof (induction xs arbitrary: m)
  case (Cons x xs)
  show ?case using order_trans [OF max.cobounded2 Cons.IH [of "max x m"]] by simp
qed simp

lemma fold_max_ge: "x \<in> set xs \<Longrightarrow> x \<le> fold max xs (m :: nat)"
proof (induction xs arbitrary: m)
  case (Cons y ys)
  then show ?case using fold_max_start [of "max y m" ys] by auto
qed simp

lemma fresh_addr_new: "map_of h (fresh_addr h) = None"
  using fold_max_ge [of "fresh_addr h" "map fst h" 0]
  by (auto simp: fresh_addr_def map_of_eq_None_iff image_iff)

text \<open>A new sink goes to a free address.\<close>

definition one_more_sink :: "addr \<Rightarrow> spd_world \<Rightarrow> spd_world \<Rightarrow> bool" where
  "one_more_sink a w w' \<longleftrightarrow> a = sw_next w \<and> dom (sw_sinks w') = insert a (dom (sw_sinks w)) \<and> sw_next w' = Suc a"

lemma new_sink_ok: "\<exists>w'. new_sink impl w = (sw_next w, w') \<and> one_more_sink (sw_next w) w w'"
  by (auto simp: new_sink_def one_more_sink_def put_sink_def)

lemma make_sink_ok:
  "\<exists>res w'. make_sink spec w = Inr (res, w') \<and>
    (case res of Inl e \<Rightarrow> same_sinks w w' | Inr a \<Rightarrow> one_more_sink a w w')"
proof (cases spec)
  case stdout_color_sink
  obtain s where "ansicolor_stdout_sink_new (sw_getenv w) (sw_console w) color_automatic = Inr s"
    using ansicolor_sink_new_ok [of "sw_getenv w" "sw_console w" Stdout color_automatic] by (auto simp: ansicolor_stdout_sink_new_def)
  then show ?thesis using new_sink_ok [of "Ansi_sink s" w] stdout_color_sink by (auto simp: make_sink_def)
next
  case (basic_file_spec f)
  obtain res d where r: "basic_file_sink_new f False no_handlers (sw_disk w) = (res, d)" by fastforce
  show ?thesis
  proof (cases res)
    case (Inl e)
    then show ?thesis using r basic_file_spec by (simp add: make_sink_def same_sinks_def)
  next
    case (Inr s)
    then show ?thesis
      using r basic_file_spec new_sink_ok [of "Basic_sink s" "w\<lparr>sw_disk := d\<rparr>"] by (auto simp: make_sink_def one_more_sink_def)
  qed
next
  case (rotating_file_spec f ms mf)
  obtain res d where r: "rotating_file_sink_new f ms mf False no_handlers (sw_disk w) = (res, d)" by fastforce
  show ?thesis
  proof (cases res)
    case (Inl e)
    then show ?thesis using r rotating_file_spec by (simp add: make_sink_def same_sinks_def)
  next
    case (Inr s)
    then show ?thesis
      using r rotating_file_spec new_sink_ok [of "Rotating_sink s" "w\<lparr>sw_disk := d\<rparr>"] by (auto simp: make_sink_def one_more_sink_def)
  qed
qed

lemma names_ok_store_fresh:
  assumes "names_ok r"
  shows "names_ok (store_logger (fresh_addr (reg_heap r)) l r)"
proof -
  have "\<exists>l'. map_of (reg_heap (store_logger (fresh_addr (reg_heap r)) l r)) a = Some l' \<and> P l'"
    if "\<exists>l'. map_of (reg_heap r) a = Some l' \<and> P l'" for a P
    using that fresh_addr_new [of "reg_heap r"] by (auto simp: map_of_store)
  then show ?thesis using assms unfolding names_ok_def store_logger_frame by (auto split: prod.splits)
qed

lemma registry_settings_changed: "tame (reg_err_handler r) \<Longrightarrow> changed_to l (registry_settings r l)"
  by (simp add: registry_settings_def Let_def changed_to_def lg_set_error_handler_def lg_set_level_def lg_flush_on_def
      lg_enable_backtrace_def)

lemma names_okD:
  assumes "names_ok r"
  shows "distinct (map fst (reg_loggers r))"
    and "(name, a) \<in> set (reg_loggers r) \<Longrightarrow> \<exists>l. map_of (reg_heap r) a = Some l \<and> sl_name l = name"
    and "reg_default r = Some b \<Longrightarrow> \<exists>l. map_of (reg_heap r) b = Some l \<and> map_of (reg_loggers r) (sl_name l) = Some b"
  using assms unfolding names_ok_def by blast+

lemma names_okI:
  assumes "distinct (map fst (reg_loggers r))"
    and "\<And>name a. (name, a) \<in> set (reg_loggers r) \<Longrightarrow> \<exists>l. map_of (reg_heap r) a = Some l \<and> sl_name l = name"
    and "\<And>b. reg_default r = Some b \<Longrightarrow> \<exists>l. map_of (reg_heap r) b = Some l \<and> map_of (reg_loggers r) (sl_name l) = Some b"
  shows "names_ok r"
  using assms unfolding names_ok_def by blast

lemma names_ok_cong:
  assumes "reg_loggers r' = reg_loggers r" and "reg_default r' = reg_default r" and "map_of (reg_heap r') = map_of (reg_heap r)"
    and "names_ok r"
  shows "names_ok r'"
  unfolding names_ok_def assms(1-3) by (rule assms(4) [unfolded names_ok_def])

lemma register_logger_ok:
  assumes "names_ok r" and "map_of (reg_heap r) a = Some l"
  shows "\<exists>e r'. register_logger a r = Inr (e, r') \<and> names_ok r' \<and> (heap_ok r w \<longrightarrow> heap_ok r' w) \<and>
    reg_heap r' = reg_heap r \<and>
    (if map_of (reg_loggers r) (sl_name l) = None
     then e = None \<and> reg_loggers r' = (sl_name l, a) # reg_loggers r else e \<noteq> None \<and> r' = r)"
proof (cases "map_of (reg_loggers r) (sl_name l)")
  case None
  let ?r' = "r\<lparr>reg_loggers := (sl_name l, a) # reg_loggers r\<rparr>"
  have "sl_name l \<notin> fst ` set (reg_loggers r)" using None by (simp add: map_of_eq_None_iff)
  then have "names_ok ?r'"
  proof (intro names_okI)
    fix b assume "reg_default ?r' = Some b"
    then obtain l' where "map_of (reg_heap r) b = Some l'" "map_of (reg_loggers r) (sl_name l') = Some b"
      using names_okD(3) [OF assms(1)] by auto
    then show "\<exists>l. map_of (reg_heap ?r') b = Some l \<and> map_of (reg_loggers ?r') (sl_name l) = Some b" using None by auto
  qed (use assms names_okD [OF assms(1)] in auto)
  then show ?thesis using None assms(2) by (simp add: register_logger_def load_def throw_if_exists_def heap_ok_def)
next
  case (Some b)
  then show ?thesis using assms by (simp add: register_logger_def load_def throw_if_exists_def)
qed

lemma registry_settings_store [simp]: "registry_settings (store_logger a l r) = registry_settings r"
proof -
  have "configured_level (store_logger a l r) = configured_level r"
    by (simp add: configured_level_def fun_eq_iff split: option.split)
  then show ?thesis by (simp add: registry_settings_def fun_eq_iff Let_def cong: if_cong)
qed

text \<open>
  Creating a logger: a name that is taken throws and leaves the registry as it was; otherwise the
  name leads to a new logger of that name, with the settings of the registry.
\<close>

lemma create_logger_ok:
  assumes ok: "reg_ok (r, w)"
  shows "\<exists>res r' w'. create_logger name spec r w = Inr (res, r', w') \<and> reg_ok (r', w') \<and>
    (case res of
       Inl e \<Rightarrow> r' = r
     | Inr a \<Rightarrow> \<exists>s. reg_loggers r' = (if reg_automatic r then (name, a) # reg_loggers r else reg_loggers r) \<and>
         map_of (reg_heap r') a = Some (registry_settings r (slogger_new name [s])) \<and> map_of (reg_heap r) a = None) \<and>
    (reg_automatic r \<and> map_of (reg_loggers r) name \<noteq> None \<longrightarrow> (\<exists>e. res = Inl e))"
proof -
  have n: "names_ok r" and h: "heap_ok r w" using ok by (simp_all add: reg_ok_def)
  obtain res w1 where m: "make_sink spec w = Inr (res, w1)"
      "case res of Inl e \<Rightarrow> same_sinks w w1 | Inr a \<Rightarrow> one_more_sink a w w1" using make_sink_ok by blast
  show ?thesis
  proof (cases res)
    case (Inl e)
    then show ?thesis using m n heap_ok_same_sinks [OF h] by (auto simp: create_logger_def reg_ok_def)
  next
    case (Inr s)
    let ?a = "fresh_addr (reg_heap r)" and ?l = "slogger_new name [s]"
    let ?r0 = "store_logger ?a ?l r"
    have w1: "one_more_sink s w w1" using m(2) Inr by simp
    have h1: "heap_ok r w1" using h w1 by (auto simp: heap_ok_def logger_ok_def one_more_sink_def intro: less_SucI)
    have l: "logger_ok w1 ?l" using w1 by (simp add: logger_ok_def slogger_new_def one_more_sink_def tame_def)
    obtain w2 where w2: "lg_set_formatter (pf_clone (sw_now w1) (reg_formatter ?r0)) ?l w1 = Inr w2" "same_sinks w1 w2"
      using set_formatter_each_ok [of "sl_sinks ?l" w1] l by (auto simp: lg_set_formatter_def logger_ok_def)
    define l' where "l' = registry_settings r ?l"
    have l': "sl_name l' = name" "logger_ok w2 l'" "registry_settings ?r0 ?l = l'"
      using registry_settings_changed [of r ?l] h l w2(2)
      by (auto simp: l'_def changed_to_def heap_ok_def logger_ok_def slogger_new_def same_sinks_def)
    let ?r1 = "store_logger ?a l' ?r0"
    have heap1: "map_of (reg_heap ?r1) b = (if b = ?a then Some l' else map_of (reg_heap r) b)" for b
      by (simp add: map_of_store)
    have n1: "names_ok ?r1"
    proof -
      have "map_of (reg_heap ?r1) = map_of (reg_heap (store_logger ?a l' r))" by (simp add: map_of_store fun_eq_iff)
      then show ?thesis using names_ok_cong [of ?r1 "store_logger ?a l' r"] names_ok_store_fresh [OF n] by simp
    qed
    have h2: "heap_ok ?r1 w2" using heap_ok_same_sinks [OF h1 w2(2)] l'(2) heap1 by (auto simp: heap_ok_def split: if_splits)
    have init: "initialize_logger ?a ?r0 w1 =
        (if reg_automatic r then bind_run (register_logger ?a ?r1) (\<lambda>(e, r2). Inr (e, r2, w2)) else Inr (None, ?r1, w2))"
      using w2(1) l'(3) by (simp add: initialize_logger_def load_def map_of_store)
    show ?thesis
    proof (cases "reg_automatic r")
      case False
      then show ?thesis
        using m(1) Inr init n1 h2 heap1 fresh_addr_new [of "reg_heap r"]
        by (auto simp: create_logger_def reg_ok_def l'_def Let_def)
    next
      case True
      obtain e r2 where r2: "register_logger ?a ?r1 = Inr (e, r2)" "names_ok r2" "heap_ok r2 w2" "reg_heap r2 = reg_heap ?r1"
          "if map_of (reg_loggers r) name = None then e = None \<and> reg_loggers r2 = (name, ?a) # reg_loggers r else e \<noteq> None \<and> r2 = ?r1"
        using register_logger_ok [OF n1, of ?a l' w2] heap1 [of ?a] h2 l'(1) by auto
      show ?thesis
      proof (cases e)
        case None
        then have "map_of (reg_loggers r) name = None" "reg_loggers r2 = (name, ?a) # reg_loggers r"
          using r2(5) by (auto split: if_splits)
        then show ?thesis
          using m(1) Inr init True r2 None heap1 fresh_addr_new [of "reg_heap r"]
          by (auto simp: create_logger_def reg_ok_def l'_def Let_def)
      next
        case (Some ex)
        have "heap_ok r (sink_delete s w2)"
        proof -
          have "s \<notin> dom (sw_sinks w)" using h w1 by (auto simp: heap_ok_def one_more_sink_def)
          moreover have "dom (sw_sinks (sink_delete s w2)) = dom (sw_sinks w2) - {s}" "sw_next (sink_delete s w2) = sw_next w2"
            by (auto simp: sink_delete_def Let_def split: option.splits sink_impl.splits)
          ultimately have "dom (sw_sinks (sink_delete s w2)) = dom (sw_sinks w)" "sw_next (sink_delete s w2) = Suc (sw_next w)"
            using w1 w2(2) by (auto simp: one_more_sink_def same_sinks_def)
          then show ?thesis using h by (auto simp: heap_ok_def logger_ok_def less_Suc_eq)
        qed
        then show ?thesis
          using m(1) Inr init True r2 Some n by (simp add: create_logger_def reg_ok_def Let_def)
      qed
    qed
  qed
qed

lemma map_of_erase: "map_of (erase n ls) m = (if m = n then None else map_of ls m)"
  by (induction ls) (auto simp: erase_def)

lemma distinct_erase: "distinct (map fst ls) \<Longrightarrow> distinct (map fst (erase n ls))"
  by (induction ls) (auto simp: erase_def)

lemma erase_subset: "p \<in> set (erase n ls) \<Longrightarrow> p \<in> set ls \<and> fst p \<noteq> n"
  by (auto simp: erase_def)

lemma set_default_logger_ok:
  assumes "names_ok r" and "heap_ok r w" and "\<forall>a. p = Some a \<longrightarrow> holds_pointer r a"
  shows "\<exists>r'. set_default_logger p r = Inr r' \<and> names_ok r' \<and> heap_ok r' w"
proof (cases p)
  case None
  have "names_ok (r\<lparr>reg_default := None\<rparr>)"
    using names_okD [OF assms(1)] by (intro names_okI) auto
  then show ?thesis using None assms(2) by (simp add: set_default_logger_def heap_ok_def)
next
  case (Some a)
  then obtain l where l: "map_of (reg_heap r) a = Some l" using assms(3) by (auto simp: holds_pointer_def)
  let ?r' = "r\<lparr>reg_loggers := (sl_name l, a) # erase (sl_name l) (reg_loggers r), reg_default := Some a\<rparr>"
  have "names_ok ?r'"
  proof (intro names_okI)
    show "distinct (map fst (reg_loggers ?r'))"
      using distinct_erase [OF names_okD(1) [OF assms(1)], of "sl_name l"] by (auto dest: erase_subset)
  qed (use l names_okD(2) [OF assms(1)] in \<open>auto dest: erase_subset\<close>)
  then show ?thesis using Some l assms(2) by (simp add: set_default_logger_def load_def heap_ok_def)
qed

lemma reg_drop_ok:
  assumes "names_ok r"
  shows "names_ok (reg_drop name r)"
proof (intro names_okI)
  show "distinct (map fst (reg_loggers (reg_drop name r)))"
    using distinct_erase [OF names_okD(1) [OF assms]] by (simp add: reg_drop_def Let_def)
next
  fix n a assume "(n, a) \<in> set (reg_loggers (reg_drop name r))"
  then have "(n, a) \<in> set (reg_loggers r)" by (auto simp: reg_drop_def Let_def dest: erase_subset split: if_splits)
  then show "\<exists>l. map_of (reg_heap (reg_drop name r)) a = Some l \<and> sl_name l = n"
    using names_okD(2) [OF assms] by (simp add: reg_drop_def Let_def)
next
  fix b assume b: "reg_default (reg_drop name r) = Some b"
  then have "reg_default r = Some b" by (auto simp: reg_drop_def Let_def split: if_splits)
  moreover from this obtain l where l: "map_of (reg_heap r) b = Some l" "map_of (reg_loggers r) (sl_name l) = Some b"
    using names_okD(3) [OF assms] by blast
  ultimately have "sl_name l \<noteq> name" using b by (auto simp: reg_drop_def Let_def split: if_splits)
  then show "\<exists>l. map_of (reg_heap (reg_drop name r)) b = Some l \<and> map_of (reg_loggers (reg_drop name r)) (sl_name l) = Some b"
    using l by (auto simp: reg_drop_def Let_def map_of_erase)
qed

lemma reg_drop_heap_ok: "heap_ok r w \<Longrightarrow> heap_ok (reg_drop name r) w"
  by (simp add: reg_drop_def Let_def heap_ok_def)

lemma reg_step_ok:
  assumes ok: "reg_ok s" and op: "op_ok op"
  shows "\<exists>s'. reg_step env op s = Inr s' \<and> reg_ok s'"
proof -
  obtain r w where s: "s = (r, w)" by (cases s)
  have n: "names_ok r" and h: "heap_ok r w" using ok by (simp_all add: reg_ok_def s)
  note loop = reg_loop_ok [OF n h]
  show ?thesis
  proof (cases op)
    case (Create name spec)
    then show ?thesis using create_logger_ok [of r w name spec] ok s by auto
  next
    case (Register a)
    show ?thesis
    proof (cases "map_of (reg_heap r) a")
      case None
      then show ?thesis using Register ok s by (simp add: holds_pointer_def)
    next
      case (Some l)
      then show ?thesis using Register register_logger_ok [OF n Some, of w] h s by (auto simp: holds_pointer_def reg_ok_def)
    qed
  next
    case (Set_default p)
    show ?thesis
    proof (cases "\<forall>a. p = Some a \<longrightarrow> holds_pointer r a")
      case True
      then show ?thesis using Set_default set_default_logger_ok [OF n h True] s by (auto simp: reg_ok_def split: option.splits)
    next
      case False
      then show ?thesis using Set_default ok s by (auto split: option.splits)
    qed
  next
    case (Set_formatter f)
    obtain w' where "formatter_loop f r (reg_loggers r) w = Inr w'" "same_sinks w w'"
      using formatter_loop_ok [OF registered_live [OF n] h] by blast
    moreover have "names_ok (r\<lparr>reg_formatter := f\<rparr>)" using names_ok_cong [of "r\<lparr>reg_formatter := f\<rparr>" r] n by simp
    ultimately show ?thesis
      using Set_formatter heap_ok_same_sinks [OF h] s by (auto simp: reg_set_formatter_def reg_ok_def heap_ok_def)
  next
    case (Enable_backtrace k)
    then show ?thesis using loop [of "\<lambda>_. lg_enable_backtrace k" "r\<lparr>reg_backtrace := k\<rparr>"] s by (auto simp: reg_enable_backtrace_def reg_ok_def)
  next
    case Disable_backtrace
    then show ?thesis using loop [of "\<lambda>_. lg_disable_backtrace" "r\<lparr>reg_backtrace := 0\<rparr>"] s by (auto simp: reg_disable_backtrace_def reg_ok_def)
  next
    case (Set_level lvl)
    obtain r' where r': "for_loggers (\<lambda>_. lg_set_level lvl) (reg_loggers r) r = Inr r'" "names_ok r'" "heap_ok r' w"
      using loop [of "\<lambda>_. lg_set_level lvl" r] by auto
    moreover have "names_ok (r'\<lparr>reg_global_level := lvl\<rparr>)" using names_ok_cong [of "r'\<lparr>reg_global_level := lvl\<rparr>" r'] r'(2) by simp
    ultimately show ?thesis using Set_level s by (simp add: reg_set_level_def reg_ok_def heap_ok_def)
  next
    case (Flush_on lvl)
    obtain r' where r': "for_loggers (\<lambda>_. lg_flush_on lvl) (reg_loggers r) r = Inr r'" "names_ok r'" "heap_ok r' w"
      using loop [of "\<lambda>_. lg_flush_on lvl" r] by auto
    moreover have "names_ok (r'\<lparr>reg_flush_level := lvl\<rparr>)" using names_ok_cong [of "r'\<lparr>reg_flush_level := lvl\<rparr>" r'] r'(2) by simp
    ultimately show ?thesis using Flush_on s by (simp add: reg_flush_on_def reg_ok_def heap_ok_def)
  next
    case (Set_error_handler e)
    have t: "tame e" using op Set_error_handler by simp
    then obtain r' where r': "for_loggers (\<lambda>_. lg_set_error_handler e) (reg_loggers r) r = Inr r'" "names_ok r'" "heap_ok r' w"
      using loop [of "\<lambda>_. lg_set_error_handler e" r] by auto
    moreover have "names_ok (r'\<lparr>reg_err_handler := e\<rparr>)" using names_ok_cong [of "r'\<lparr>reg_err_handler := e\<rparr>" r'] r'(2) by simp
    ultimately show ?thesis using Set_error_handler s t by (simp add: reg_set_error_handler_def reg_ok_def heap_ok_def)
  next
    case Flush_all
    obtain w' where "flush_loop env r (reg_loggers r) w = Inr w'" "same_sinks w w'"
      using flush_loop_ok [OF registered_live [OF n] h] by blast
    then show ?thesis using Flush_all heap_ok_same_sinks [OF h] n s by (auto simp: flush_all_def reg_ok_def)
  next
    case (Drop name)
    then show ?thesis using reg_drop_ok [OF n] reg_drop_heap_ok [OF h] s by (simp add: reg_ok_def)
  next
    case Drop_all
    have "names_ok (drop_all r)" by (intro names_okI) (simp_all add: drop_all_def)
    then show ?thesis using Drop_all h s by (simp add: reg_ok_def drop_all_def heap_ok_def)
  next
    case (Set_automatic b)
    have "names_ok (set_automatic_registration b r)"
      using names_ok_cong [of "set_automatic_registration b r" r] n by (simp add: set_automatic_registration_def)
    then show ?thesis using Set_automatic h s by (simp add: reg_ok_def set_automatic_registration_def heap_ok_def)
  next
    case (Set_levels lvls g)
    let ?f = "\<lambda>name l. case map_of lvls name of Some lvl \<Rightarrow> lg_set_level lvl l
        | None \<Rightarrow> (case g of Some g \<Rightarrow> lg_set_level g l | None \<Rightarrow> l)"
    have "\<forall>name l. changed_to l (?f name l)" by (auto split: option.split)
    then show ?thesis
      using loop [of ?f "r\<lparr>reg_log_levels := lvls, reg_global_level := (case g of Some g \<Rightarrow> g | None \<Rightarrow> reg_global_level r)\<rparr>"] Set_levels s
      by (auto simp: set_levels_def reg_ok_def Let_def)
  next
    case (Apply_env_levels a)
    show ?thesis
    proof (cases "map_of (reg_heap r) a")
      case None
      then show ?thesis using Apply_env_levels ok s by (simp add: holds_pointer_def)
    next
      case (Some l)
      let ?l = "lg_set_level (configured_level r (sl_name l)) l"
      have "similar r (store_logger a ?l r)" using similar_store [OF Some] by simp
      then show ?thesis
        using Apply_env_levels Some similar_names_ok [OF _ n] similar_heap_ok [OF _ h] s
        by (simp add: holds_pointer_def apply_logger_env_levels_def load_def reg_ok_def)
    qed
  qed
qed

interpretation reg: op_machine "reg_step env" reg_ok op_ok for env
  by unfold_locales (rule reg_step_ok)

lemma registry_new_ok:
  assumes "\<forall>a \<in> dom (sw_sinks w). a < sw_next w"
  shows "\<exists>r w'. registry_new w = Inr (r, w') \<and> reg_ok (r, w')"
proof -
  obtain s where s: "ansicolor_stdout_sink_new (sw_getenv w) (sw_console w) color_automatic = Inr s"
    using ansicolor_sink_new_ok [of "sw_getenv w" "sw_console w" Stdout color_automatic] by (auto simp: ansicolor_stdout_sink_new_def)
  obtain w' where w': "new_sink (Ansi_sink s) w = (sw_next w, w')" "one_more_sink (sw_next w) w w'" using new_sink_ok by blast
  show ?thesis
    using s w' assms
    by (auto simp: registry_new_def reg_ok_def names_ok_def heap_ok_def logger_ok_def slogger_new_def tame_def one_more_sink_def
        intro: less_SucI)
qed

section \<open>Property\<close>



end
