(* ===== verification/Logging.thy ===== *)
theory Logging
  imports Sys_Config Spd_Registry
begin

text \<open>
  \<^verbatim>\<open>src/log\<close>: the wrapper around the one logger of the program. It creates a logger of one of three
  kinds through the registry of \<^verbatim>\<open>spdlog\<close>, sets its level and hands out the pointer log lines are
  written through.
\<close>

section \<open>Class Logger\<close>

datatype Level = kDebug | kInfo | kWarn | kErr | kCritical

record Logger =
  log_logger :: "addr option"
  log_initialized :: bool

definition Logger_new :: Logger where
  "Logger_new = \<lparr>log_logger = None, log_initialized = False\<rparr>"

type_synonym init_result = "((exn + bool) \<times> Logger \<times> registry \<times> spd_world) run"

definition init_with :: "sink_spec \<Rightarrow> registry \<Rightarrow> spd_world \<Rightarrow> Logger \<Rightarrow> string \<Rightarrow> init_result" where
  "init_with spec r w lg name =
     (if log_initialized lg then Inr (Inr False, lg, r, w)
      else bind_run (create_logger name spec r w) (\<lambda>(res, r', w').
             Inr (case res of
                    Inl e \<Rightarrow> (Inl e, lg, r', w')
                  | Inr a \<Rightarrow> (Inr True, lg\<lparr>log_logger := Some a, log_initialized := True\<rparr>, r', w'))))"

definition InitStdoutColorLogger :: "registry \<Rightarrow> spd_world \<Rightarrow> Logger \<Rightarrow> string \<Rightarrow> init_result" where
  "InitStdoutColorLogger r w lg name = init_with stdout_color_sink r w lg name"

definition InitBasicFileLogger :: "registry \<Rightarrow> spd_world \<Rightarrow> Logger \<Rightarrow> string \<Rightarrow> string \<Rightarrow> init_result" where
  "InitBasicFileLogger r w lg name filename = init_with (basic_file_spec filename) r w lg name"

definition InitRotatingFileLogger :: "registry \<Rightarrow> spd_world \<Rightarrow> Logger \<Rightarrow> string \<Rightarrow> string \<Rightarrow> u64 \<Rightarrow> nat \<Rightarrow> init_result" where
  "InitRotatingFileLogger r w lg name filename max_file_size max_files =
     init_with (rotating_file_spec filename max_file_size max_files) r w lg name"

definition logger :: "Logger \<Rightarrow> addr option" where
  "logger lg = (if log_initialized lg then log_logger lg else None)"

fun Level_value :: "Level \<Rightarrow> level_enum" where
  "Level_value kDebug = level_debug"
| "Level_value kInfo = level_info"
| "Level_value kWarn = level_warn"
| "Level_value kErr = level_err"
| "Level_value kCritical = level_critical"

definition spd_set_level :: "registry \<Rightarrow> addr \<Rightarrow> level_enum \<Rightarrow> registry run" where
  "spd_set_level r a lvl =
     bind_run (load (map_of (reg_heap r)) a) (\<lambda>l. Inr (store_logger a (lg_set_level lvl l) r))"

definition SetLevel :: "registry \<Rightarrow> Logger \<Rightarrow> Level \<Rightarrow> (bool \<times> registry) run" where
  "SetLevel r lg level =
     (if \<not> log_initialized lg then Inr (False, r)
      else bind_run (deref (log_logger lg)) (\<lambda>a.
           bind_run (spd_set_level r a (Level_value level)) (\<lambda>r'. Inr (True, r'))))"

definition Logger_IsInitialized :: "Logger \<Rightarrow> bool" where
  "Logger_IsInitialized lg = log_initialized lg"

text \<open>A log line without arguments, \<^verbatim>\<open>LOGGER->info("...")\<close>: it follows the pointer and logs without a source location.\<close>

definition write_log ::
    "log_env \<Rightarrow> registry \<Rightarrow> spd_world \<Rightarrow> Logger \<Rightarrow> level_enum \<Rightarrow> string \<Rightarrow> (registry \<times> spd_world) run" where
  "write_log env r w lg lvl payload =
     bind_run (deref (logger lg)) (\<lambda>a.
     bind_run (load (map_of (reg_heap r)) a) (\<lambda>l.
     bind_run (lg_log_msg env l source_loc_new lvl payload w) (\<lambda>(l', w').
     Inr (store_logger a l' r, w'))))"

section \<open>Facts\<close>

text \<open>The settings a registry starts with.\<close>

definition plain_settings :: "registry \<Rightarrow> bool" where
  "plain_settings r \<longleftrightarrow> reg_formatter r = base_formatter \<and> reg_flush_level r = level_off \<and> reg_backtrace r = 0 \<and>
     reg_automatic r"

definition has_colors :: "spd_world \<Rightarrow> bool" where
  "has_colors w \<longleftrightarrow> con_tty (sw_console w Stdout) \<and> is_color_terminal (sw_getenv w)"

lemma registry_new_plain:
  "\<exists>r w'. registry_new w = Inr (r, w') \<and> plain_settings r \<and> map fst (reg_loggers r) = [[]] \<and>
    sw_console w' = sw_console w \<and> sw_getenv w' = sw_getenv w \<and> sw_now w' = sw_now w \<and> sw_thread w' = sw_thread w"
proof -
  obtain c where "ansicolor_stdout_sink_new (sw_getenv w) (sw_console w) color_automatic = Inr c"
    using ansicolor_sink_new_ok [of "sw_getenv w" "sw_console w" Stdout color_automatic]
    by (auto simp: ansicolor_stdout_sink_new_def)
  then show ?thesis by (simp add: registry_new_def new_sink_def put_sink_def plain_settings_def)
qed

text \<open>A logger on a console sink that is ready.\<close>

definition console_logger :: "log_env \<Rightarrow> bool \<Rightarrow> slogger \<Rightarrow> spd_world \<Rightarrow> bool" where
  "console_logger env colors l w \<longleftrightarrow> sl_flush_level l = level_off \<and> \<not> bt_enabled (sl_tracer l) \<and>
     (\<exists>s c. sl_sinks l = [s] \<and> sw_sinks w s = Some \<lparr>sk_level = level_trace, sk_impl = Ansi_sink c\<rparr> \<and>
        ansi_ok env c \<and> as_target c = Stdout \<and> as_should_do_colors c = colors)"

lemma create_console_logger:
  assumes "plain_settings r" and "map_of (reg_loggers r) name = None"
  shows "\<exists>a r' w' l. create_logger name stdout_color_sink r w = Inr (Inr a, r', w') \<and>
    map_of (reg_heap r') a = Some l \<and> sl_name l = name \<and> console_logger env (has_colors w) l w' \<and>
    sw_console w' = sw_console w \<and> sw_now w' = sw_now w \<and> sw_thread w' = sw_thread w"
proof -
  obtain c where c: "ansicolor_stdout_sink_new (sw_getenv w) (sw_console w) color_automatic = Inr c" "ansi_ok env c"
      "as_target c = Stdout" "as_should_do_colors c = has_colors w"
    using ansicolor_sink_new_ok [of "sw_getenv w" "sw_console w" Stdout color_automatic env]
    by (auto simp: ansicolor_stdout_sink_new_def has_colors_def)
  let ?a = "fresh_addr (reg_heap r)" and ?s = "sw_next w" and ?l0 = "slogger_new name [sw_next w]"
  let ?w1 = "(put_sink ?s (sink_new (Ansi_sink c)) w)\<lparr>sw_next := Suc ?s\<rparr>"
  let ?c' = "c\<lparr>as_formatter := base_formatter\<rparr>"
  define w2 where "w2 = put_sink ?s \<lparr>sk_level = level_trace, sk_impl = Ansi_sink ?c'\<rparr> ?w1"
  have "make_sink stdout_color_sink w = Inr (Inr ?s, ?w1)" using c(1) by (simp add: make_sink_def new_sink_def)
  moreover have "pf_clone now (reg_formatter r) = base_formatter" for now
    using assms(1) by (simp add: plain_settings_def base_formatter_def pf_clone_default)
  then have "lg_set_formatter (pf_clone (sw_now ?w1) (reg_formatter r)) ?l0 ?w1 = Inr w2"
    by (simp add: lg_set_formatter_def slogger_new_def load_def put_sink_def w2_def sink_new_def sink_set_formatter_def
        ansi_set_formatter_def)
  moreover have "reg_formatter (store_logger ?a ?l0 r) = reg_formatter r" by (simp add: store_logger_def)
  moreover define l where "l = registry_settings r ?l0"
  have l: "sl_name l = name" "sl_sinks l = [?s]" "sl_flush_level l = level_off" "\<not> bt_enabled (sl_tracer l)"
    using assms(1) by (simp_all add: l_def registry_settings_def plain_settings_def slogger_new_def lg_set_error_handler_def
        lg_set_level_def lg_flush_on_def backtracer_new_def)
  ultimately have "\<exists>r'. create_logger name stdout_color_sink r w = Inr (Inr ?a, r', w2) \<and> map_of (reg_heap r') ?a = Some l"
    using assms by (simp add: create_logger_def initialize_logger_def load_def map_of_store register_logger_def
        throw_if_exists_def plain_settings_def l_def Let_def)
  moreover have "ansi_ok env ?c'" using c(2) by (simp add: ansi_ok_def base_formatter_def caches_ok_default)
  then have "console_logger env (has_colors w) l w2"
    using l c(3,4) by (simp add: console_logger_def w2_def put_sink_def)
  moreover have "sw_console w2 = sw_console w" "sw_now w2 = sw_now w" "sw_thread w2 = sw_thread w"
    by (simp_all add: w2_def put_sink_def)
  ultimately show ?thesis using l(1) by blast
qed

lemma console_logger_line:
  assumes "console_logger env colors l w" and "lg_should_log l lvl"
    and "formattable env time_local (log_msg_new (sw_now w) (sw_thread w) source_loc_new (sl_name l) lvl payload)"
  shows "\<exists>w'. lg_log_msg env l source_loc_new lvl payload w = Inr (l, w') \<and>
    sw_console w' Stdout = con_flush (con_write
      (colored_line colors env (log_msg_new (sw_now w) (sw_thread w) source_loc_new (sl_name l) lvl payload)) (sw_console w Stdout))"
proof -
  let ?m = "log_msg_new (sw_now w) (sw_thread w) source_loc_new (sl_name l) lvl payload"
  obtain s c where s: "sl_sinks l = [s]" "sw_sinks w s = Some \<lparr>sk_level = level_trace, sk_impl = Ansi_sink c\<rparr>"
      "ansi_ok env c" "as_target c = Stdout" "as_should_do_colors c = colors"
    using assms(1) by (auto simp: console_logger_def)
  obtain m' c' where "ansi_log env ?m c (sw_console w Stdout) =
      Inr (m', c', con_flush (con_write (colored_line colors env ?m) (sw_console w Stdout)))"
    using ansi_log_ok [OF s(3) assms(3)] s(5) by blast
  then show ?thesis
    using s assms(1,2) not_should_flush [of l]
    by (simp add: lg_log_msg_def log_it_def lg_sink_it_def load_def sink_should_log_def sink_log_def catch_report_def
        console_logger_def put_sink_def)
qed

section \<open>Property\<close>



end
