(* ===== verification/Main_Server.thy ===== *)
theory Main_Server
  imports Server_Safety Logging
begin

text \<open>
  \<^verbatim>\<open>src/main.cpp\<close>: the start of the server, from the configuration file to the open listener,
  and its loop. The singletons are created on the way; what is outside of the
  repository (the files, the database, the sockets) is an argument.
\<close>

section \<open>Starting the server\<close>

record 'd machine =
  mc_files :: "string \<Rightarrow> string option"
  mc_mysql :: "'d mysql"
  mc_inet_addr :: "string \<Rightarrow> u32"
  mc_new_bind :: "u32 \<Rightarrow> u16 \<Rightarrow> i32 \<Rightarrow> bool"
  mc_hardware_concurrency :: u32
  mc_now :: u32
  mc_log :: spd_world

text \<open>A start ends with an exit code, or with a server in its loop.\<close>

datatype ('b, 'd) outcome = Exit int | Serving NetGate "('b, 'd) world"

text \<open>An exception that leaves \<^verbatim>\<open>main\<close> ends the program.\<close>

definition uncaught :: "exn + 'a \<Rightarrow> 'a run" where
  "uncaught m = (case m of Inl e \<Rightarrow> Inl (Uncaught e) | Inr x \<Rightarrow> Inr x)"

definition load_config :: "'d machine \<Rightarrow> string \<Rightarrow> SysConfig run" where
  "load_config mc path =
     (case Load (mc_files mc) SysConfig_new path of
        (Some f, cfg) \<Rightarrow> Inl f
      | (None, cfg) \<Rightarrow> Inr cfg)"

definition init_logger :: "'d machine \<Rightarrow> (Logger \<times> registry) run" where
  "init_logger mc =
     bind_run (registry_new (mc_log mc)) (\<lambda>(r, w).
     bind_run (InitStdoutColorLogger r w Logger_new ''default'') (\<lambda>(res, lg, reg, w').
     bind_run (uncaught res) (\<lambda>_. Inr (lg, reg))))"

definition user_dao :: "'d machine \<Rightarrow> SysConfig \<Rightarrow> 'd \<Rightarrow> (UserDAO \<times> 'd) run" where
  "user_dao mc cfg d =
     (case UserDAO_Instance (mc_mysql mc) cfg UserDAO_new d of
        (Some e, dao, d') \<Rightarrow> Inl (Uncaught e)
      | (None, dao, d') \<Rightarrow> Inr (dao, d'))"

text \<open>A log line follows the pointer that \<^verbatim>\<open>LOGGER\<close> returns.\<close>

definition log_line :: "Logger \<Rightarrow> unit run" where
  "log_line lg = bind_run (deref (logger lg)) (\<lambda>_. Inr ())"

definition open_gate :: "'d machine \<Rightarrow> SysConfig \<Rightarrow> Logger \<Rightarrow> NetGate run" where
  "open_gate mc cfg lg =
     bind_run (uncaught (ServerGet_string cfg ''ip'')) (\<lambda>ip.
     bind_run (uncaught (ServerGet_int cfg ''port'')) (\<lambda>port.
     bind_run (uncaught (ServerGet_int cfg ''backlog'')) (\<lambda>backlog.
     bind_run (log_line lg) (\<lambda>_.
     Inr (snd (Open (mc_new_bind mc) (NetGate_new (mc_inet_addr mc) ip port) backlog))))))"

definition main_start :: "'d machine \<Rightarrow> string list \<Rightarrow> 'd \<Rightarrow> ('b, 'd) outcome run" where
  "main_start mc argv d =
     (if length argv \<noteq> 2 then Inr (Exit 1)
      else
        bind_run (load_config mc (argv ! 1)) (\<lambda>cfg.
        if \<not> IsLoaded cfg then Inr (Exit 2)
        else
          bind_run (init_logger mc) (\<lambda>(lg, reg).
          if \<not> Logger_IsInitialized lg then Inr (Exit 3)
          else
            bind_run (SetLevel reg lg kDebug) (\<lambda>_.
            bind_run (user_dao mc cfg d) (\<lambda>(dao, d1).
            bind_run (CreateTable (mc_mysql mc) dao d1) (\<lambda>(ok, dao', d2).
            if \<not> ok then bind_run (log_line lg) (\<lambda>_. Inr (Exit 4))
            else
              let des0 = DispatchEventsService_new (mc_hardware_concurrency mc);
                  des1 = RegisterHandler des0 kPhoneReq PhoneReqEventHandler;
                  des2 = RegisterHandler des1 kLoginReq LoginReqEventHandler
              in bind_run (open_gate mc cfg lg) (\<lambda>ng.
                 Inr (Serving ng
                   \<lparr>w_app = \<lparr>app_sessions = Map.empty, app_sequence = 0, app_dao = dao', app_db = d2,
                             app_config = cfg, app_now = mc_now mc\<rparr>,
                    w_des = des2, w_next = 0\<rparr>))))))))"

text \<open>
  The loop: in every round the callbacks of the events that are ready, and the responses.
  Between its steps the workers run. Without a listener nothing is accepted.
\<close>

fun main_loop ::
    "'b libevent \<Rightarrow> protobuf \<Rightarrow> (u32 \<Rightarrow> string) \<Rightarrow> net_event list list \<Rightarrow> ('b, 'd) world \<Rightarrow> ('b, 'd) world run" where
  "main_loop ev pb inet_ntoa [] w = Inr w"
| "main_loop ev pb inet_ntoa (ready # rounds) w =
     bind_run (Dispatch ev pb inet_ntoa ready w) (\<lambda>w'. main_loop ev pb inet_ntoa rounds w')"

fun is_accept :: "net_event \<Rightarrow> bool" where
  "is_accept (Accept sock a p) = True"
| "is_accept _ = False"

definition from_listener :: "NetGate \<Rightarrow> ('b, 'd) world \<Rightarrow> net_event \<Rightarrow> bool" where
  "from_listener ng w x \<longleftrightarrow> (is_accept x \<longrightarrow> ng_listener ng)"

section \<open>Facts\<close>

lemma uncaught_simps [simp]: "uncaught (Inl e) = Inl (Uncaught e)" "uncaught (Inr x) = Inr x"
  by (simp_all add: uncaught_def)

lemma uncaught_Inl: "uncaught m = Inl f \<Longrightarrow> \<exists>e. f = Uncaught e"
  by (cases m) auto

text \<open>The logger is initialised under a free name, so it is there for every log line.\<close>

lemma init_logger_ok:
  "\<exists>lg reg a. init_logger mc = Inr (lg, reg) \<and> log_initialized lg \<and> logger lg = Some a \<and>
     (\<exists>reg'. SetLevel reg lg kDebug = Inr (True, reg'))"
proof -
  obtain r w where r: "registry_new (mc_log mc) = Inr (r, w)" "plain_settings r" "map fst (reg_loggers r) = [[]]"
    using registry_new_plain [of "mc_log mc"] by (elim exE conjE) simp
  have "''default'' \<notin> fst ` set (reg_loggers r)" using arg_cong [OF r(3), of set] by simp
  then have "map_of (reg_loggers r) ''default'' = None" by (simp add: map_of_eq_None_iff)
  then obtain a r' w' l where "create_logger ''default'' stdout_color_sink r w = Inr (Inr a, r', w')"
      "map_of (reg_heap r') a = Some l"
    using create_console_logger [OF r(2)] by blast
  then show ?thesis
    using r(1) by (simp add: init_logger_def InitStdoutColorLogger_def init_with_def Logger_new_def logger_def
        SetLevel_def spd_set_level_def load_def deref_def)
qed

text \<open>The configuration file is one on which the parser leaves an array.\<close>

definition parser_breaks :: "'d machine \<Rightarrow> string \<Rightarrow> bool" where
  "parser_breaks mc path \<longleftrightarrow> toml_parse (mc_files mc) path = Inl Out_of_bounds"

lemma load_config_loaded:
  "load_config mc path = Inr cfg \<Longrightarrow> IsLoaded cfg"
  "load_config mc path = Inl f \<Longrightarrow> (\<exists>e. f = Uncaught e) \<or> f = Out_of_bounds \<and> parser_breaks mc path"
proof -
  show "load_config mc path = Inr cfg \<Longrightarrow> IsLoaded cfg"
    by (auto simp: load_config_def Load_def SysConfig_new_def IsLoaded_def Let_def split: sum.splits)
  show "load_config mc path = Inl f \<Longrightarrow> (\<exists>e. f = Uncaught e) \<or> f = Out_of_bounds \<and> parser_breaks mc path"
    using toml_parse_runs [of "mc_files mc" path]
    by (auto simp: load_config_def Load_def SysConfig_new_def parser_breaks_def fine_def Let_def split: sum.splits)
qed

lemma open_gate_fault: "open_gate mc cfg lg = Inl f \<Longrightarrow> logger lg = Some a \<Longrightarrow> \<exists>e. f = Uncaught e"
  by (auto simp: open_gate_def log_line_def deref_def bind_run_Inl_conv dest: uncaught_Inl)

text \<open>The sizes of the pool in the configuration are not negative.\<close>

definition sizes_configured :: "'d machine \<Rightarrow> string \<Rightarrow> bool" where
  "sizes_configured mc path \<longleftrightarrow>
     (\<forall>cfg info mn mx ws. load_config mc path = Inr cfg \<longrightarrow> read_db_settings cfg = Inr (info, mn, mx, ws) \<longrightarrow>
        pool_sizes_ok mn mx)"

lemma user_dao_ok:
  assumes "sizes_configured mc path" and "load_config mc path = Inr cfg"
  shows "user_dao mc cfg d = Inr (dao, d') \<Longrightarrow> dao_inv dao \<and> dao_is_initialized dao"
    and "user_dao mc cfg d = Inl f \<Longrightarrow> \<exists>e. f = Uncaught e"
proof -
  have "pool_inv pool" if "read_db_settings cfg = Inr (info, mn, mx, ws)" "ConnPool_new (mc_mysql mc) info mn mx d = (pool, d')"
    for info mn mx ws d pool d'
    using pool_inv_new [of mn mx "mc_mysql mc" info d pool d'] assms that by (auto simp: sizes_configured_def)
  then show "user_dao mc cfg d = Inr (dao, d') \<Longrightarrow> dao_inv dao \<and> dao_is_initialized dao"
    by (clarsimp simp: user_dao_def UserDAO_Instance_def UserDAO_new_def dao_inv_def split: sum.splits prod.splits)
qed (auto simp: user_dao_def UserDAO_Instance_def UserDAO_new_def split: sum.splits prod.splits)

text \<open>What a start can end with.\<close>

definition start_result :: "'d machine \<Rightarrow> string \<Rightarrow> ('b, 'd) outcome run \<Rightarrow> bool" where
  "start_result mc path r \<longleftrightarrow>
     (case r of
        Inl f \<Rightarrow> (\<exists>e. f = Uncaught e) \<or> f = Out_of_bounds \<and> parser_breaks mc path
      | Inr (Exit c) \<Rightarrow> c = 4
      | Inr (Serving ng w) \<Rightarrow> world_inv (mc_mysql mc) w \<and> w_sessions w = Map.empty)"

lemma world_inv_started:
  "app_ok my app \<Longrightarrow> app_sessions app = Map.empty \<Longrightarrow>
    world_inv my \<lparr>w_app = app, w_des = registered_service n, w_next = 0\<rparr> \<and>
    w_sessions \<lparr>w_app = app, w_des = registered_service n, w_next = 0\<rparr> = Map.empty"
  using world_inv_fresh [of my app 0 n] by (simp add: w_sessions_def del: app_sessions_sequence)

lemma main_start_result:
  fixes mc :: "'d machine"
  assumes "results_finite (mc_mysql mc)" and "sizes_configured mc path"
  shows "start_result mc path (main_start mc [prog, path] d :: ('b, 'd) outcome run)"
proof (cases "load_config mc path")
  case (Inl f)
  then show ?thesis using load_config_loaded(2) by (auto simp: main_start_def start_result_def)
next
  case cfg: (Inr cfg)
  obtain lg reg a reg' where lg: "init_logger mc = Inr (lg, reg)" "log_initialized lg" "logger lg = Some a"
      "SetLevel reg lg kDebug = Inr (True, reg')" using init_logger_ok by blast
  note start = main_start_def cfg lg load_config_loaded(1) [OF cfg] Logger_IsInitialized_def log_line_def deref_def
  show ?thesis
  proof (cases "user_dao mc cfg d")
    case (Inl f)
    then show ?thesis using user_dao_ok(2) [OF assms(2) cfg] by (simp add: start start_result_def)
  next
    case (Inr x)
    then obtain dao d1 where dao: "user_dao mc cfg d = Inr (dao, d1)" by (cases x) auto
    note inv = user_dao_ok(1) [OF assms(2) cfg dao]
    then obtain ok dao' d2 where t: "CreateTable (mc_mysql mc) dao d1 = Inr (ok, dao', d2)"
        "dao_inv dao'" "dao_is_initialized dao'"
      using dao_execute_ok [OF assms(1), of dao create_table_sql d1] by (auto simp: CreateTable_def)
    let ?app = "\<lparr>app_sessions = Map.empty, app_sequence = 0, app_dao = dao', app_db = d2, app_config = cfg,
        app_now = mc_now mc\<rparr> :: ('b, 'd) app"
    have "app_ok (mc_mysql mc) ?app" using assms(1) t by (simp add: app_ok_def)
    then have w: "world_inv (mc_mysql mc) \<lparr>w_app = ?app, w_des = registered_service (mc_hardware_concurrency mc), w_next = 0\<rparr> \<and>
        w_sessions \<lparr>w_app = ?app, w_des = registered_service (mc_hardware_concurrency mc), w_next = 0\<rparr> = Map.empty"
      by (rule world_inv_started) simp
    show ?thesis
    proof (cases "open_gate mc cfg lg")
      case (Inl f)
      then show ?thesis using dao t open_gate_fault [OF Inl lg(3)] by (simp add: start start_result_def)
    next
      case (Inr ng)
      then show ?thesis
        using dao t w by (simp add: start start_result_def Let_def registered_service_def [symmetric])
    qed
  qed
qed

lemma server_run_mono:
  assumes "server_run ev pb inet_ntoa my rand allowed w r" and "\<And>w x. allowed w x \<Longrightarrow> allowed' w x"
  shows "server_run ev pb inet_ntoa my rand allowed' w r"
  using assms(1)
proof (induction rule: server_run.induct)
  case (step w w' l r)
  from server_run.step [OF step.IH step.hyps(2)] step.hyps(3) assms(2) show ?case by (auto split: option.splits)
qed (rule server_run.start)

text \<open>The loop is one of the runs of the server, the one in which the workers sleep.\<close>

lemma server_run_events:
  assumes "server_run ev pb inet_ntoa my rand allowed w (Inr w')" and "\<And>w x. x \<in> set xs \<Longrightarrow> allowed w x"
  shows "server_run ev pb inet_ntoa my rand allowed w (run_events ev pb inet_ntoa xs w')"
  using assms
proof (induction xs arbitrary: w')
  case (Cons x xs)
  have run: "server_run ev pb inet_ntoa my rand allowed w (run_event ev pb inet_ntoa x w')"
    using server_run.step [OF Cons.prems(1) server_step.event [of ev pb inet_ntoa my rand w' x]] Cons.prems(2) by simp
  show ?case using run Cons.IH Cons.prems(2) by (cases "run_event ev pb inet_ntoa x w'") simp_all
qed simp

lemma main_loop_run:
  assumes "server_run ev pb inet_ntoa my rand allowed w (Inr w')"
    and "\<And>w x ready. ready \<in> set rounds \<Longrightarrow> x \<in> set ready \<Longrightarrow> allowed w x"
  shows "server_run ev pb inet_ntoa my rand allowed w (main_loop ev pb inet_ntoa rounds w')"
  using assms
proof (induction rounds arbitrary: w')
  case (Cons ready rounds)
  have run: "server_run ev pb inet_ntoa my rand allowed w (run_events ev pb inet_ntoa ready w')"
    by (rule server_run_events [OF Cons.prems(1)]) (use Cons.prems(2) [of ready] in auto)
  have disp: "server_run ev pb inet_ntoa my rand allowed w (Dispatch ev pb inet_ntoa ready w')"
  proof (cases "run_events ev pb inet_ntoa ready w'")
    case (Inr w1)
    then show ?thesis
      using server_run.step [OF run [unfolded Inr] server_step.results] by (simp add: Dispatch_def)
  qed (use run in \<open>simp add: Dispatch_def\<close>)
  show ?case
  proof (cases "Dispatch ev pb inet_ntoa ready w'")
    case (Inr w1)
    then show ?thesis using Cons.IH [OF disp [unfolded Inr]] Cons.prems(2) by auto
  qed (use disp in simp)
qed simp

lemma no_sessions_step:
  assumes "server_step ev pb inet_ntoa my rand w l r" and "world_inv my w" and "w_sessions w = Map.empty"
    and "case l of None \<Rightarrow> True | Some x \<Rightarrow> \<not> is_accept x" and "libevent_ok ev" and "protobuf_ok pb"
  shows "\<exists>w'. r = Inr w' \<and> world_inv my w' \<and> w_sessions w' = Map.empty"
proof -
  have "case l of None \<Rightarrow> True | Some x \<Rightarrow> polite ev w x"
  proof (cases l)
    case (Some x)
    then show ?thesis using assms(3,4) by (cases x) simp_all
  qed simp
  from polite_step [OF assms(5,6,2,1) this] obtain w' where w': "r = Inr w'" "world_inv my w'" by blast
  moreover have "w_sessions w' = Map.empty"
    using assms(1)
  proof cases
    case (event x)
    then show ?thesis using assms(3,4) w'(1) by (cases x) simp_all
  next
    case results
    have "x \<notin># flight (des_tp (w_des w))" for x
      using world_inv_live [OF assms(2), of x] assms(3) by (auto simp: app_live_def)
    then have "flight (des_tp (w_des w)) = {#}" by (metis multiset_nonemptyE)
    then have "results_queue (des_tp (w_des w)) = []" by (simp add: flight_def)
    then show ?thesis using results w'(1) assms(3) by (simp add: handle_results_def Drag_eq)
  next
    case (worker l tp' app')
    have "same_conns (w_app w) app'"
      using worker_step_ok [OF worker(3)] world_inv_live [OF assms(2)] assms(2) by (simp add: world_inv_def)
    then have "app_sessions app' sid = None" for sid
      by (rule same_conns_cases [of "w_app w" app' sid]) (use assms(3) in auto)
    then show ?thesis using worker w'(1) by auto
  next
    case (worker_fault i f)
    then show ?thesis using w'(1) by simp
  next
    case (tick t)
    then show ?thesis using w'(1) assms(3) by simp
  qed
  ultimately show ?thesis by blast
qed

section \<open>Properties\<close>


text \<open>A machine with the repository's configuration file, and with a database in memory.\<close>

definition demo_machine :: "bool \<Rightarrow> mem_db machine" where
  "demo_machine bindable =
     \<lparr>mc_files = shbk2_files, mc_mysql = mem_mysql, mc_inet_addr = (\<lambda>_. 0x0100007F),
      mc_new_bind = (\<lambda>_ _ _. bindable), mc_hardware_concurrency = 2, mc_now = 0,
      mc_log = one_sink_world\<rparr>"

lemma demo_config: "load_config (demo_machine b) path = Inr shbk2_cfg" "IsLoaded shbk2_cfg"
  by (simp_all add: load_config_def demo_machine_def Load_shbk2 IsLoaded_def shbk2_cfg_def written_config_def)

lemmas demo_get = shbk2_cfg_def Get_written text_setting_def number_setting_def shbk2_config_def

lemma demo_settings:
  "read_db_settings shbk2_cfg =
     Inr (\<lparr>db_host = ''127.0.0.1'', db_user = ''root'', db_pwd = ''1234'', db_db = ''shbk2'', db_port = 3306\<rparr>, 2, 4, 10)"
  "ServerGet_string shbk2_cfg ''ip'' = Inr ''127.0.0.1''" "ServerGet_int shbk2_cfg ''port'' = Inr (9000 :: u16)"
  "ServerGet_int shbk2_cfg ''backlog'' = Inr (128 :: i32)"
  by (simp_all add: read_db_settings_def demo_get)

lemma demo_sizes: "sizes_configured (demo_machine b) path"
  by (simp add: sizes_configured_def demo_config demo_settings pool_sizes_ok_def)

lemma demo_dao:
  "user_dao (demo_machine b) shbk2_cfg mem_empty = Inr (\<lparr>dao_pool = Some \<lparr>kMinCount = 2, kMaxCount = 4,
      db_info = \<lparr>db_host = ''127.0.0.1'', db_user = ''root'', db_pwd = ''1234'', db_db = ''shbk2'', db_port = 3306\<rparr>,
      using_handler_count = 0,
      handler_wrappers = [\<lparr>hw_handler = Some 1, hw_is_using = False\<rparr>, \<lparr>hw_handler = Some 1, hw_is_using = False\<rparr>]\<rparr>,
    dao_is_initialized = True, dao_waiting_seconds = 10\<rparr>, mem_empty)"
proof -
  have w: "HandlerWrapper_new mem_mysql info d = (\<lparr>hw_handler = Some 1, hw_is_using = False\<rparr>, d)" for info d
    by (simp add: HandlerWrapper_new_def mem_mysql_def)
  have "open_wrappers mem_mysql info (Suc (Suc 0)) d =
      ([\<lparr>hw_handler = Some 1, hw_is_using = False\<rparr>, \<lparr>hw_handler = Some 1, hw_is_using = False\<rparr>], d)" for info d
    by (simp add: w)
  moreover have "mysql_library_init mem_mysql d = d" for d by (simp add: mem_mysql_def)
  ultimately show ?thesis
    by (simp add: user_dao_def UserDAO_Instance_def UserDAO_new_def demo_settings ConnPool_new_def demo_machine_def
        flip: numeral_2_eq_2)
qed

lemma demo_machine_simps: "mc_mysql (demo_machine b) = mem_mysql" "mc_new_bind (demo_machine b) = (\<lambda>_ _ _. b)"
  by (simp_all add: demo_machine_def)

lemma demo_table:
  assumes "user_dao (demo_machine b) shbk2_cfg mem_empty = Inr (dao, d)"
  shows "\<exists>dao' d'. CreateTable mem_mysql dao d = Inr (True, dao', d')"
proof -
  have "mem_query h create_table_sql d = (0, d\<lparr>mem_affected := 0, mem_rows := 0\<rparr>)" for h d
    by (simp add: mem_query_def create_table_sql_def)
  then have "run_sql mem_mysql create_table_sql \<lparr>ch_handler = Some 1, ch_index = 0\<rparr> d =
      Inr (Some 0, d\<lparr>mem_affected := 0, mem_rows := 0\<rparr>)" for d
    by (simp add: run_sql_def Conn_Execute_def SelectResult_free_def mem_mysql_def)
  then show ?thesis
    using assms by (auto simp: demo_dao CreateTable_def dao_execute_def deref_def with_handler_def RequestHandler_def
        can_request_def AllocateConnHandler_def ReleaseConnHandler_def guard_run_def Let_def)
qed

lemma demo_start:
  "\<exists>ng w. main_start (demo_machine b) [prog, path] mem_empty = Inr (Serving ng w) \<and> ng_listener ng = b"
proof -
  obtain lg reg a reg' where lg: "init_logger (demo_machine b) = Inr (lg, reg)" "log_initialized lg" "logger lg = Some a"
      "SetLevel reg lg kDebug = Inr (True, reg')" using init_logger_ok by blast
  have "\<exists>ng. open_gate (demo_machine b) shbk2_cfg lg = Inr ng \<and> ng_listener ng = b"
    by (simp add: open_gate_def demo_settings log_line_def deref_def lg demo_machine_simps Open_def Let_def)
  moreover obtain dao d where dao: "user_dao (demo_machine b) shbk2_cfg mem_empty = Inr (dao, d)"
    using demo_dao by blast
  moreover obtain dao' d' where "CreateTable mem_mysql dao d = Inr (True, dao', d')" using demo_table [OF dao] by blast
  ultimately show ?thesis
    by (auto simp: main_start_def demo_config lg Logger_IsInitialized_def demo_machine_simps Let_def)
qed






end
