(* ===== verification/Client_Simulator.thy ===== *)
theory Client_Simulator
  imports Server_Safety Spd_Format
begin

text \<open>
  \<^verbatim>\<open>misc/client_simulator\<close>: the client that asks for an identifier when it is connected and logs in
  with it when the response arrives. Its copy of the generated message classes is the
  server's, byte for byte, so the model of those classes serves both. A client is its
  socket, freed or not, and what it has printed.
\<close>

section \<open>The header of a request\<close>

record Header =
  m_Id :: string
  m_Type :: u16
  m_MessageLen :: i32

definition Header_new :: "string \<Rightarrow> u16 \<Rightarrow> i32 \<Rightarrow> Header" where
  "Header_new ident type msgLen = \<lparr>m_Id = ident, m_Type = type, m_MessageLen = msgLen\<rparr>"

definition Header_ToString :: "Header \<Rightarrow> string" where
  "Header_ToString h = m_Id h @ int_text (uint (m_Type h)) @ int_text (sint (m_MessageLen h))"

definition write_evbuffer :: "Header \<Rightarrow> byte list \<Rightarrow> byte list" where
  "write_evbuffer h evbuf =
     evbuf @ bytes_of_string (m_Id h) @ le_bytes 2 (m_Type h) @ le_bytes 4 (m_MessageLen h)"

section \<open>The callbacks\<close>

definition g_ServerIP :: string where "g_ServerIP = ''127.0.0.1''"

definition client_phone :: string where "client_phone = ''13835479597''"

record 'b client =
  cl_bufev :: "'b option"
  cl_printed :: "string list"

definition cl_print :: "'b client \<Rightarrow> string \<Rightarrow> 'b client" where
  "cl_print c text = c\<lparr>cl_printed := cl_printed c @ [text]\<rparr>"

text \<open>
  What \<^verbatim>\<open>%s\<close> prints of a C string, and what \<^verbatim>\<open>evbuffer_add\<close> reads from a string's array,
  which ends with a NUL.
\<close>

definition c_str :: "byte list \<Rightarrow> string" where
  "c_str bs = map (\<lambda>b. char_of (unat b)) (takeWhile (\<lambda>b. b \<noteq> 0) bs)"

definition evbuffer_add_str :: "byte list \<Rightarrow> byte list \<Rightarrow> nat \<Rightarrow> byte list run" where
  "evbuffer_add_str evbuf s n = guard_run Out_of_bounds (n \<le> length s + 1) (Inr (evbuf @ take n (s @ [0])))"

text \<open>
  Printing, framing and writing a message; the runtime's \<^verbatim>\<open>SerializeAsString\<close> is an argument.
\<close>

definition send_text :: "Header \<Rightarrow> byte list \<Rightarrow> i32 \<Rightarrow> string" where
  "send_text h message byteSize =
     (let header = Header_ToString h
      in ''Send Message:'' @ [CHR 0x0A] @ header @ ''('' @ int_text (int (length header)) @ '')'' @
         c_str message @ ''('' @ int_text (sint byteSize) @ '')'' @ [CHR 0x0A])"

definition send_message ::
    "'b libevent \<Rightarrow> u16 \<Rightarrow> byte list \<Rightarrow> i32 \<Rightarrow> 'b client \<Rightarrow> 'b client run" where
  "send_message ev type message byteSize c =
     (let headerReq = Header_new ''SHBK'' type byteSize;
          c1 = cl_print c (send_text headerReq message byteSize)
      in bind_run (evbuffer_add_str (write_evbuffer headerReq []) message (unat byteSize)) (\<lambda>bufReq.
         bind_run (deref (cl_bufev c1)) (\<lambda>bev.
         Inr (c1\<lparr>cl_bufev := Some (bufferevent_write ev bev bufReq)\<rparr>))))"

definition BEV_EVENT_CONNECTED :: u16 where "BEV_EVENT_CONNECTED = 0x80"

definition client_phone_req :: PhoneReq where
  "client_phone_req = PhoneReq_set_phone_number (PhoneReq_ctor None) client_phone"

definition ClientEvCb ::
    "'b libevent \<Rightarrow> protobuf \<Rightarrow> (bool \<Rightarrow> byte list \<Rightarrow> byte list) \<Rightarrow> u16 \<Rightarrow> 'b client \<Rightarrow> 'b client run" where
  "ClientEvCb ev pb serialize events c =
     (if events AND BEV_EVENT_CONNECTED \<noteq> 0 then
        (let c1 = cl_print c (''connect to server '' @ g_ServerIP @ [CHR 0x0A]);
             phoneReq = client_phone_req;
             message = serialize (PhoneReq_IsInitialized phoneReq) (PhoneReq_InternalSerialize pb phoneReq)
         in send_message ev 0x01 message (ByteSizeInt pb (fst (PhoneReq_ByteSizeLong pb phoneReq))) c1)
      else if events AND BEV_EVENT_ERROR \<noteq> 0 then
        bind_run (deref (cl_bufev c)) (\<lambda>_.
        Inr ((cl_print c (''connect to server '' @ g_ServerIP @ '' error.'' @ [CHR 0x0A]))\<lparr>cl_bufev := None\<rparr>))
      else Inr c)"

definition client_login_req :: "i32 \<Rightarrow> LoginReq" where
  "client_login_req i = LoginReq_set_identifier (LoginReq_set_phone_number (LoginReq_ctor None) client_phone) i"

text \<open>
  The read callback reads once: what has not arrived yet of the header or of the body
  stays zero, and the results of the parsers are not looked at.
\<close>

definition ClientRdCb ::
    "'b libevent \<Rightarrow> protobuf \<Rightarrow> (bool \<Rightarrow> byte list \<Rightarrow> byte list) \<Rightarrow> 'b client \<Rightarrow> 'b client run" where
  "ClientRdCb ev pb serialize c =
     bind_run (deref (cl_bufev c)) (\<lambda>bev.
     let (h, bev1) = bufferevent_read ev bev 10;
         header = h @ replicate (10 - length h) 0;
         messageType = un_le (take 2 (drop 4 header)) :: u16;
         messageSize = un_le (take 4 (drop 6 header)) :: u32;
         (b, bev2) = bufferevent_read ev bev1 (unat messageSize);
         message = b @ replicate (unat messageSize - length b) 0;
         c1 = c\<lparr>cl_bufev := Some bev2\<rparr>
     in if messageType AND 0x02 \<noteq> 0 then
          (let phoneRes = snd (ParsePhoneRes pb (PhoneRes_ctor None) message messageSize);
               c2 = cl_print c1 (''dynamic code is '' @ int_text (sint (PhoneRes_get_identifier phoneRes)) @ [CHR 0x0A]);
               loginReq = client_login_req (PhoneRes_get_identifier phoneRes);
               loginReqMessage = serialize (LoginReq_IsInitialized loginReq) (LoginReq_InternalSerialize pb loginReq)
           in send_message ev 0x03 loginReqMessage (ByteSizeInt pb (fst (LoginReq_ByteSizeLong pb loginReq))) c2)
        else if messageType AND 0x04 \<noteq> 0 then
          (let loginRes = snd (ParseLoginRes pb (LoginRes_ctor None) message messageSize)
           in Inr (cl_print c1 (''code: '' @ int_text (sint (LoginRes_get_code loginRes)) @ '', desc: '' @
                LoginRes_get_desc loginRes @ [CHR 0x0A])))
        else Inr c1)"

definition ClientWrCb :: "'b client \<Rightarrow> 'b client" where
  "ClientWrCb c = cl_print c (''ClientWrCb() was called'' @ [CHR 0x0A])"

section \<open>Facts\<close>

text \<open>The documented behaviour of \<^verbatim>\<open>SerializeAsString\<close> on a complete message.\<close>

definition serialize_ok :: "(bool \<Rightarrow> byte list \<Rightarrow> byte list) \<Rightarrow> bool" where
  "serialize_ok serialize \<longleftrightarrow> (\<forall>bs. length bs < 2147483648 \<longrightarrow> serialize True bs = bs)"

lemma write_evbuffer_header: "write_evbuffer (Header_new ''SHBK'' t n) [] = header t n"
  by (simp add: write_evbuffer_def Header_new_def header_def HEADER_CONT_def)

lemma send_message_frame:
  assumes "length message < 2147483648" and "unat n = length message" and "cl_bufev c = Some bev"
  shows "send_message ev t message n c =
    Inr (c\<lparr>cl_printed := cl_printed c @ [send_text (Header_new ''SHBK'' t n) message n],
           cl_bufev := Some (bufferevent_write ev bev (frame t message))\<rparr>)"
proof -
  have "n = of_nat (length message)" using arg_cong [OF assms(2), of "of_nat :: nat \<Rightarrow> i32"] by simp
  then show ?thesis
    using assms(2,3)
    by (simp add: send_message_def Let_def evbuffer_add_str_def guard_run_def cl_print_def frame_def write_evbuffer_header)
qed

text \<open>The requests of the client are complete; their encodings are short and not empty.\<close>

definition sendable_request :: "protobuf \<Rightarrow> ev_body \<Rightarrow> bool" where
  "sendable_request pb b \<longleftrightarrow> body_ok b \<and> body_bytes pb b \<noteq> [] \<and> length (body_bytes pb b) < 2147483648"

lemma client_phone_req_ok:
  assumes "protobuf_ok pb"
  shows "sendable_request pb (EvPhoneReq client_phone_req)"
    and "PhoneReq_get_phone_number client_phone_req = client_phone"
proof -
  let ?m = client_phone_req
  note rt = protobuf_ok_runtime [OF assms]
  have m: "preq_unknown ?m = []" "preq_has_bits ?m = 1" "preq_phone_number ?m = client_phone"
    by (simp_all add: client_phone_req_def PhoneReq_set_phone_number_def PhoneReq_ctor_def)
  have "body_ok (EvPhoneReq ?m)"
    using PhoneReq_wf_accessors(1) [OF PhoneReq_wf_new(1)] m
    by (simp add: client_phone_req_def IsInitialized_iff PhoneReq_has_phone_number_def)
  moreover have "length (PhoneReq_InternalSerialize pb ?m) = 1 + StringSize pb client_phone"
    using runtime_okD(1) [OF rt, of 1 client_phone] m by (simp add: PhoneReq_InternalSerialize_def)
  moreover have "length (PhoneReq_InternalSerialize pb ?m) < 2147483648"
    using PhoneReq_bytes_le [OF rt, of ?m] m by (simp add: client_phone_def)
  ultimately show "sendable_request pb (EvPhoneReq ?m)" by (auto simp: sendable_request_def)
  show "PhoneReq_get_phone_number ?m = client_phone" using m by (simp add: PhoneReq_get_phone_number_def)
qed

lemma client_login_req_ok:
  assumes "protobuf_ok pb"
  shows "sendable_request pb (EvLoginReq (client_login_req i))"
    and "LoginReq_get_phone_number (client_login_req i) = client_phone"
    and "LoginReq_get_identifier (client_login_req i) = i"
proof -
  let ?m = "client_login_req i"
  note rt = protobuf_ok_runtime [OF assms]
  have m: "lreq_unknown ?m = []" "lreq_has_bits ?m = 3" "lreq_phone_number ?m = client_phone" "lreq_identifier ?m = i"
    by (simp_all add: client_login_req_def LoginReq_set_identifier_def LoginReq_internal_set_identifier_def
        LoginReq_set_phone_number_def LoginReq_ctor_def)
  have "body_ok (EvLoginReq ?m)"
    using LoginReq_wf_accessors(3) [OF LoginReq_wf_accessors(1) [OF LoginReq_wf_new(1)]] m
    by (simp add: client_login_req_def IsInitialized_iff LoginReq_has_phone_number_def LoginReq_has_identifier_def)
  moreover have "length (LoginReq_InternalSerialize pb ?m) = 1 + StringSize pb client_phone + Int32SizePlusOne pb i"
    using runtime_okD(1) [OF rt, of 1 client_phone] runtime_okD(2) [OF rt, of 2 i] m
    by (simp add: LoginReq_InternalSerialize_def)
  moreover have "StringSize pb client_phone \<le> 16"
    using runtime_okD(9) [OF rt, of client_phone] by (simp add: client_phone_def)
  ultimately show "sendable_request pb (EvLoginReq ?m)"
    using runtime_okD(8) [OF rt, of i] by (auto simp: sendable_request_def)
  show "LoginReq_get_phone_number ?m = client_phone" "LoginReq_get_identifier ?m = i"
    using m by (simp_all add: LoginReq_get_phone_number_def LoginReq_get_identifier_def)
qed

text \<open>Connecting sends the request for an identifier as one frame.\<close>

lemma ClientEvCb_connected:
  assumes "protobuf_ok pb" and "serialize_ok serialize" and "cl_bufev c = Some bev"
    and "events AND BEV_EVENT_CONNECTED \<noteq> 0"
  shows "\<exists>texts. ClientEvCb ev pb serialize events c =
    Inr (c\<lparr>cl_printed := cl_printed c @ texts,
           cl_bufev := Some (bufferevent_write ev bev (frame kPhoneReq (body_bytes pb (EvPhoneReq client_phone_req))))\<rparr>)"
proof -
  let ?m = client_phone_req
  let ?bs = "PhoneReq_InternalSerialize pb ?m"
  have ok: "PhoneReq_IsInitialized ?m" "length ?bs < 2147483648"
    using client_phone_req_ok(1) [OF assms(1)] by (simp_all add: sendable_request_def)
  have "unat (ByteSizeInt pb (fst (PhoneReq_ByteSizeLong pb ?m))) = length ?bs"
    using runtime_okD(6) [OF protobuf_ok_runtime [OF assms(1)], of "length ?bs"] ok
    by (simp add: PhoneReq_bsize_ser protobuf_ok_runtime [OF assms(1)])
  from send_message_frame [OF ok(2) this, of "cl_print c t" bev ev 1 for t] show ?thesis
    using assms(2-4) ok by (simp add: ClientEvCb_def serialize_ok_def Let_def cl_print_def event_type_defs) blast
qed

text \<open>Reading a whole frame gives its type and its body, and leaves what comes behind it.\<close>

lemma read_frame:
  assumes "libevent_ok ev" and "input_of ev bev = frame t body @ rest" and "length body < 2147483648"
  defines "bev1 \<equiv> snd (bufferevent_read ev bev 10)"
  shows "fst (bufferevent_read ev bev 10) = header t (of_nat (length body))"
    and "fst (bufferevent_read ev bev1 (length body)) = body"
    and "input_of ev (snd (bufferevent_read ev bev1 (length body))) = rest"
    and "output_of ev (snd (bufferevent_read ev bev1 (length body))) = output_of ev bev"
    and "unat (of_nat (length body) :: u32) = length body"
  using assms(3) by (simp_all add: libevent_okD [OF assms(1)] bev1_def assms(2) frame_def unat_of_nat_u32)

lemma ClientRdCb_frame:
  assumes "libevent_ok ev" and "cl_bufev c = Some bev" and "input_of ev bev = frame t body @ rest"
    and "length body < 2147483648"
  shows "\<exists>bev2. input_of ev bev2 = rest \<and> output_of ev bev2 = output_of ev bev \<and>
    ClientRdCb ev pb serialize c =
      (let c1 = c\<lparr>cl_bufev := Some bev2\<rparr>
       in if t AND 2 \<noteq> 0 then
            (let phoneRes = snd (ParsePhoneRes pb (PhoneRes_ctor None) body (of_nat (length body)));
                 c2 = cl_print c1 (''dynamic code is '' @ int_text (sint (PhoneRes_get_identifier phoneRes)) @ [CHR 0x0A]);
                 loginReq = client_login_req (PhoneRes_get_identifier phoneRes);
                 loginReqMessage = serialize (LoginReq_IsInitialized loginReq) (LoginReq_InternalSerialize pb loginReq)
             in send_message ev 3 loginReqMessage (ByteSizeInt pb (fst (LoginReq_ByteSizeLong pb loginReq))) c2)
          else if t AND 4 \<noteq> 0 then
            (let loginRes = snd (ParseLoginRes pb (LoginRes_ctor None) body (of_nat (length body)))
             in Inr (cl_print c1 (''code: '' @ int_text (sint (LoginRes_get_code loginRes)) @ '', desc: '' @
                  LoginRes_get_desc loginRes @ [CHR 0x0A])))
          else Inr c1)"
proof -
  obtain h bev1 where r1: "bufferevent_read ev bev 10 = (h, bev1)" by fastforce
  obtain b bev2 where r2: "bufferevent_read ev bev1 (length body) = (b, bev2)" by fastforce
  note f = read_frame [OF assms(1,3,4)]
  have "h = header t (of_nat (length body))" "b = body" "input_of ev bev2 = rest" "output_of ev bev2 = output_of ev bev"
    using f(1-4) r1 r2 by simp_all
  then show ?thesis
    using r1 r2 f(5) assms(2) by (intro exI [of _ bev2]) (simp add: ClientRdCb_def Let_def)
qed

text \<open>Parsing the encoding of a response gives its content.\<close>

lemma parse_response:
  assumes "protobuf_ok pb" and "body_ok b" and "short_body b"
  defines "bs \<equiv> body_bytes pb b"
  shows "b = EvPhoneRes m \<Longrightarrow>
      pres_identifier (snd (ParsePhoneRes pb (PhoneRes_ctor None) bs (of_nat (length bs)))) = pres_identifier m"
    and "b = EvLoginRes m' \<Longrightarrow>
      lres_code (snd (ParseLoginRes pb (LoginRes_ctor None) bs (of_nat (length bs)))) = lres_code m' \<and>
      lres_desc (snd (ParseLoginRes pb (LoginRes_ctor None) bs (of_nat (length bs)))) = lres_desc m'"
proof -
  have len: "length bs < 2147483648" using short_body_bytes [OF assms(1-3)] by (simp add: bs_def)
  then have sz: "unat (of_nat (length bs) :: i32) = length bs" by (intro unat_of_nat_u32) simp
  let ?e = "\<lambda>b0. \<lparr>ev_type = 0, ev_id = 0, ev_session = None, ev_body = b0\<rparr>"
  have p: "\<exists>b'. ev_ParseFromArray pb (?e b0) bs (of_nat (length bs)) = (True, ?e b') \<and> body_norm b' = body_norm b"
    if "body_type b0 = body_type b" "body_wf b0" for b0
    using ev_Parse_bytes [OF assms(1,2), of "of_nat (length bs)" "?e b0"] len sz that by (auto simp: bs_def)
  show "pres_identifier (snd (ParsePhoneRes pb (PhoneRes_ctor None) bs (of_nat (length bs)))) = pres_identifier m"
    if "b = EvPhoneRes m"
  proof -
    have "PhoneRes_norm (snd (ParsePhoneRes pb (PhoneRes_ctor None) bs (of_nat (length bs)))) = PhoneRes_norm m"
      using p [of "EvPhoneRes (PhoneRes_ctor None)"] that PhoneRes_wf_new(1)
      by (auto simp: ev_ParseFromArray_def split: prod.splits)
    from arg_cong [OF this, of pres_identifier] show ?thesis by (simp add: PhoneRes_norm_def)
  qed
  show "lres_code (snd (ParseLoginRes pb (LoginRes_ctor None) bs (of_nat (length bs)))) = lres_code m' \<and>
      lres_desc (snd (ParseLoginRes pb (LoginRes_ctor None) bs (of_nat (length bs)))) = lres_desc m'"
    if "b = EvLoginRes m'"
  proof -
    have n: "LoginRes_norm (snd (ParseLoginRes pb (LoginRes_ctor None) bs (of_nat (length bs)))) = LoginRes_norm m'"
      using p [of "EvLoginRes (LoginRes_ctor None)"] that LoginRes_wf_new(1)
      by (auto simp: ev_ParseFromArray_def split: prod.splits)
    from arg_cong [OF n, of lres_code] arg_cong [OF n, of lres_desc] show ?thesis by (simp add: LoginRes_norm_def)
  qed
qed

text \<open>The two responses as the client handles them.\<close>

lemma ClientRdCb_phone_response:
  assumes "libevent_ok ev" and pb: "protobuf_ok pb" and "serialize_ok serialize" and c: "cl_bufev c = Some bev"
    and b: "b = EvPhoneRes m" "body_ok b" "short_body b" and inp: "input_of ev bev = frame kPhoneRes (body_bytes pb b) @ rest"
  defines "login \<equiv> EvLoginReq (client_login_req (pres_identifier m))"
  shows "\<exists>c' bev'. ClientRdCb ev pb serialize c = Inr c' \<and> cl_bufev c' = Some bev' \<and> input_of ev bev' = rest \<and>
    output_of ev bev' = output_of ev bev @ frame kLoginReq (body_bytes pb login)"
proof -
  let ?m = "client_login_req (pres_identifier m)"
  let ?bs = "LoginReq_InternalSerialize pb ?m"
  have ok: "LoginReq_IsInitialized ?m" "length ?bs < 2147483648"
    using client_login_req_ok(1) [OF pb] by (simp_all add: sendable_request_def)
  have sz: "unat (ByteSizeInt pb (fst (LoginReq_ByteSizeLong pb ?m))) = length ?bs"
    using runtime_okD(6) [OF protobuf_ok_runtime [OF pb], of "length ?bs"] ok
    by (simp add: LoginReq_bsize_ser protobuf_ok_runtime [OF pb])
  have ser: "serialize True ?bs = ?bs" using assms(3) ok by (simp add: serialize_ok_def)
  have ident: "PhoneRes_get_identifier (snd (ParsePhoneRes pb (PhoneRes_ctor None) (body_bytes pb b)
      (of_nat (length (body_bytes pb b))))) = pres_identifier m"
    using parse_response(1) [OF pb b(2,3,1)] by (simp add: PhoneRes_get_identifier_def)
  obtain bev2 where r: "input_of ev bev2 = rest" "output_of ev bev2 = output_of ev bev"
      "ClientRdCb ev pb serialize c = send_message ev 3 ?bs (ByteSizeInt pb (fst (LoginReq_ByteSizeLong pb ?m)))
         (cl_print (c\<lparr>cl_bufev := Some bev2\<rparr>) (''dynamic code is '' @ int_text (sint (pres_identifier m)) @ [CHR 0x0A]))"
    using ClientRdCb_frame [OF assms(1) c inp short_body_bytes [OF pb b(2,3)], of pb serialize]
    by (auto simp: ident ok ser event_type_defs Let_def)
  note s = send_message_frame [OF ok(2) sz, of _ bev2 ev 3]
  show ?thesis
    using r by (simp add: s cl_print_def login_def event_type_defs libevent_okD [OF assms(1)])
qed

lemma ClientRdCb_login_response:
  assumes "libevent_ok ev" and pb: "protobuf_ok pb" and c: "cl_bufev c = Some bev"
    and b: "b = EvLoginRes m" "body_ok b" "short_body b" and inp: "input_of ev bev = frame kLoginRes (body_bytes pb b) @ rest"
  shows "\<exists>c'. ClientRdCb ev pb serialize c = Inr c' \<and> cl_printed c' = cl_printed c @
    [''code: '' @ int_text (sint (lres_code m)) @ '', desc: '' @ lres_desc m @ [CHR 0x0A]]"
  using ClientRdCb_frame [OF assms(1) c inp short_body_bytes [OF pb b(2,3)], of pb serialize]
    parse_response(2) [OF pb b(2,3,1)]
  by (auto simp: event_type_defs Let_def cl_print_def LoginRes_get_code_def LoginRes_get_desc_def)

text \<open>What the socket delivers to the client.\<close>

definition cl_receive :: "'b libevent \<Rightarrow> 'b client \<Rightarrow> byte list \<Rightarrow> 'b client" where
  "cl_receive ev c bs = c\<lparr>cl_bufev := map_option (\<lambda>b. socket_readable ev b bs) (cl_bufev c)\<rparr>"

definition response_frame :: "protobuf \<Rightarrow> IEvent \<Rightarrow> byte list" where
  "response_frame pb e = frame (ev_type e) (body_bytes pb (ev_body e))"

lemma request_event_phone:
  fixes sid n
  assumes "protobuf_ok pb"
  defines "e \<equiv> request_event pb sid n kPhoneReq (body_bytes pb (EvPhoneReq client_phone_req))"
  shows "\<exists>m. ev_body e = EvPhoneReq m \<and> PhoneReq_get_phone_number m = client_phone \<and> ev_session e = Some sid"
proof -
  have "ev_session e = Some sid \<and> body_norm (ev_body e) = EvPhoneReq (PhoneReq_norm client_phone_req)"
    using request_event_body [OF assms(1), of "EvPhoneReq client_phone_req" kPhoneReq sid n] client_phone_req_ok(1) [OF assms(1)]
    by (simp add: e_def sendable_request_def)
  moreover from this obtain m where m: "ev_body e = EvPhoneReq m" "PhoneReq_norm m = PhoneReq_norm client_phone_req"
    by (cases "ev_body e") simp_all
  moreover have "preq_phone_number m = preq_phone_number client_phone_req"
    using arg_cong [OF m(2), of preq_phone_number] by (simp add: PhoneReq_norm_def)
  ultimately show ?thesis
    using client_phone_req_ok(2) [OF assms(1)] by (simp add: PhoneReq_get_phone_number_def)
qed

lemma request_event_login:
  fixes sid n i
  assumes "protobuf_ok pb"
  defines "e \<equiv> request_event pb sid n kLoginReq (body_bytes pb (EvLoginReq (client_login_req i)))"
  shows "\<exists>m. ev_body e = EvLoginReq m \<and> LoginReq_get_phone_number m = client_phone \<and> LoginReq_get_identifier m = i \<and>
    ev_session e = Some sid"
proof -
  have "ev_session e = Some sid \<and> body_norm (ev_body e) = EvLoginReq (LoginReq_norm (client_login_req i))"
    using request_event_body [OF assms(1), of "EvLoginReq (client_login_req i)" kLoginReq sid n]
      client_login_req_ok(1) [OF assms(1)] by (simp add: e_def sendable_request_def)
  moreover from this obtain m where m: "ev_body e = EvLoginReq m" "LoginReq_norm m = LoginReq_norm (client_login_req i)"
    by (cases "ev_body e") simp_all
  moreover have "lreq_phone_number m = lreq_phone_number (client_login_req i)" "lreq_identifier m = lreq_identifier (client_login_req i)"
    using arg_cong [OF m(2), of lreq_phone_number] arg_cong [OF m(2), of lreq_identifier] by (simp_all add: LoginReq_norm_def)
  ultimately show ?thesis
    using client_login_req_ok(2,3) [OF assms(1)] by (simp add: LoginReq_get_phone_number_def LoginReq_get_identifier_def)
qed

text \<open>The first half of the conversation, and the second.\<close>

lemma phone_exchange:
  fixes rand
  assumes "libevent_ok ev" and "protobuf_ok pb" and "serialize_ok serialize" and "app_sessions app sid = Some s"
    and "cl_bufev c1 = Some bev1" and "input_of ev bev1 = []"
  defines "i \<equiv> generate_identifier rand (app_now app)"
    and "phone \<equiv> body_bytes pb (EvPhoneReq client_phone_req)"
  shows "\<exists>r1 c2 bev2. PhoneReq_Handle rand (request_event pb sid n kPhoneReq phone) app = Inr
      ((put_session app sid (s\<lparr>s_identifier := i, s_phone_number := client_phone\<rparr>))\<lparr>app_sequence := app_sequence app + 1\<rparr>, r1) \<and>
    ClientRdCb ev pb serialize (cl_receive ev c1 (response_frame pb r1)) = Inr c2 \<and> cl_bufev c2 = Some bev2 \<and>
    input_of ev bev2 = [] \<and>
    output_of ev bev2 = output_of ev bev1 @ frame kLoginReq (body_bytes pb (EvLoginReq (client_login_req i)))"
proof -
  note ev = libevent_okD [OF assms(1)]
  obtain m where m: "ev_body (request_event pb sid n kPhoneReq phone) = EvPhoneReq m"
      "PhoneReq_get_phone_number m = client_phone" "ev_session (request_event pb sid n kPhoneReq phone) = Some sid"
    using request_event_phone [OF assms(2)] unfolding phone_def by blast
  let ?res = "\<lparr>pres_arena = None, pres_unknown = [], pres_has_bits = 7, pres_cached_size = 0,
      pres_desc = ''ok.'', pres_code = 200, pres_identifier = i\<rparr>"
  let ?r1 = "\<lparr>ev_type = kPhoneRes, ev_id = app_sequence app, ev_session = Some sid, ev_body = EvPhoneRes ?res\<rparr>"
  have short: "short_body (EvPhoneRes ?res)" by simp
  have in1: "cl_bufev (cl_receive ev c1 (response_frame pb ?r1)) = Some (socket_readable ev bev1 (response_frame pb ?r1))"
      "input_of ev (socket_readable ev bev1 (response_frame pb ?r1)) = frame kPhoneRes (body_bytes pb (EvPhoneRes ?res)) @ []"
    using assms(5,6) by (simp_all add: cl_receive_def ev response_frame_def)
  show ?thesis
    using PhoneReq_Handle_live [OF m(3) assms(4) m(1) refl, of rand] m(2)
      ClientRdCb_phone_response [OF assms(1-3) in1(1) refl response_body_ok(1) short in1(2)]
    by (auto simp: ev i_def [symmetric])
qed

lemma login_exchange:
  assumes "libevent_ok ev" and "protobuf_ok pb" and "user_store my users" and "dao_ready (app_dao app)"
    and "app_sessions app sid = Some s" and "s_identifier s = i" and "s_phone_number s = client_phone"
    and "cl_bufev c2 = Some bev2" and "input_of ev bev2 = []"
  defines "login \<equiv> body_bytes pb (EvLoginReq (client_login_req i))"
  shows "\<exists>app2 r2 c3. LoginReq_Handle my (request_event pb sid n kLoginReq login) app = Inr (app2, r2) \<and>
    client_phone \<in> set (users (app_db app2)) \<and>
    ClientRdCb ev pb serialize (cl_receive ev c2 (response_frame pb r2)) = Inr c3 \<and>
    last (cl_printed c3) = ''code: 200, desc: ok.'' @ [CHR 0x0A]"
proof -
  note ev = libevent_okD [OF assms(1)]
  obtain m2 where m2: "ev_body (request_event pb sid n kLoginReq login) = EvLoginReq m2"
      "LoginReq_get_phone_number m2 = client_phone" "LoginReq_get_identifier m2 = i"
      "ev_session (request_event pb sid n kLoginReq login) = Some sid"
    using request_event_login [OF assms(2)] unfolding login_def by blast
  have plain: "plain client_phone" by (simp add: plain_def client_phone_def)
  obtain app2 where reg: "login_register my client_phone app = Inr (True, app2)" "client_phone \<in> set (users (app_db app2))"
    using login_register_store [OF assms(3,4) plain] by (auto split: if_splits)
  let ?r2 = "login_response sid (app_sequence app2) kSuccess"
  have "credentials_match s m2" using m2 assms(6,7) by (simp add: credentials_match_def)
  from LoginReq_Handle_match [OF m2(4) assms(5) m2(1) this, of my True app2] reg(1) m2(2)
  have h2: "LoginReq_Handle my (request_event pb sid n kLoginReq login) app =
      Inr (app2\<lparr>app_sequence := app_sequence app2 + 1\<rparr>, ?r2)" by simp
  obtain res where res: "ev_body ?r2 = EvLoginRes res" "lres_code res = 200" "lres_desc res = ''ok.''"
    by (simp add: login_response_def)
  have in2: "cl_bufev (cl_receive ev c2 (response_frame pb ?r2)) = Some (socket_readable ev bev2 (response_frame pb ?r2))"
      "input_of ev (socket_readable ev bev2 (response_frame pb ?r2)) = frame kLoginRes (body_bytes pb (ev_body ?r2)) @ []"
    using assms(8,9) by (simp_all add: cl_receive_def ev response_frame_def login_response_ok(4))
  have "int_text 200 = ''200''" by code_simp
  then obtain c3 where "ClientRdCb ev pb serialize (cl_receive ev c2 (response_frame pb ?r2)) = Inr c3"
      "last (cl_printed c3) = ''code: 200, desc: ok.'' @ [CHR 0x0A]"
    using ClientRdCb_login_response [OF assms(1,2) in2(1) res(1) login_response_ok(1,2) in2(2), of serialize] res by auto
  with h2 reg(2) show ?thesis by auto
qed

section \<open>Properties\<close>



text \<open>
  The client's read callback does not wait for a whole response. Whatever part of
  a frame has arrived is consumed and parsed as if the rest were zeros; a header that
  arrives alone is answered with a login request all the same, and the body that follows
  it is then read as a header.
\<close>

theorem client_consumes_partial_frames:
  assumes "libevent_ok ev" and "protobuf_ok pb" and "serialize_ok serialize" and "cl_bufev c = Some bev"
    and "input_of ev bev = header kPhoneRes n"
  shows "\<exists>c' bev' i. ClientRdCb ev pb serialize c = Inr c' \<and> cl_bufev c' = Some bev' \<and> input_of ev bev' = [] \<and>
    output_of ev bev' = output_of ev bev @ frame kLoginReq (body_bytes pb (EvLoginReq (client_login_req i))) \<and>
    i = PhoneRes_get_identifier (snd (ParsePhoneRes pb (PhoneRes_ctor None) (replicate (unat n) 0) n))"
proof -
  note ev = libevent_okD [OF assms(1)]
  obtain h bev1 where r1: "bufferevent_read ev bev 10 = (h, bev1)" by fastforce
  obtain b bev2 where r2: "bufferevent_read ev bev1 (unat n) = (b, bev2)" by fastforce
  have h: "h = header kPhoneRes n" "input_of ev bev1 = []" "output_of ev bev1 = output_of ev bev"
    using ev(1-3) [of bev 10] r1 assms(5) by simp_all
  then have b: "b = []" "input_of ev bev2 = []" "output_of ev bev2 = output_of ev bev"
    using ev(1-3) [of bev1 "unat n"] r2 by simp_all
  define i where "i = PhoneRes_get_identifier (snd (ParsePhoneRes pb (PhoneRes_ctor None) (replicate (unat n) 0) n))"
  let ?bs = "LoginReq_InternalSerialize pb (client_login_req i)"
  have ok: "LoginReq_IsInitialized (client_login_req i)" "length ?bs < 2147483648"
    using client_login_req_ok(1) [OF assms(2)] by (simp_all add: sendable_request_def)
  have sz: "unat (ByteSizeInt pb (fst (LoginReq_ByteSizeLong pb (client_login_req i)))) = length ?bs"
    using runtime_okD(6) [OF protobuf_ok_runtime [OF assms(2)], of "length ?bs"] ok
    by (simp add: LoginReq_bsize_ser protobuf_ok_runtime [OF assms(2)])
  have "serialize True ?bs = ?bs" using assms(3) ok by (simp add: serialize_ok_def)
  then show ?thesis
    using r1 r2 h b assms(4) ok
    by (simp add: ClientRdCb_def Let_def event_type_defs send_message_frame [OF ok(2) sz, of _ bev2] cl_print_def ev
        i_def [symmetric])
qed

theorem client_consumes_partial_frames_witness:
  "\<exists>c' bev'. ClientRdCb mem_libevent wire_protobuf (\<lambda>_ bs. bs) \<lparr>cl_bufev = Some (header kPhoneRes 9, []), cl_printed = []\<rparr> = Inr c' \<and>
    cl_bufev c' = Some bev' \<and> input_of mem_libevent bev' = []"
proof -
  have ser: "serialize_ok (\<lambda>_ bs. bs)" by (simp add: serialize_ok_def)
  have c: "cl_bufev \<lparr>cl_bufev = Some (header kPhoneRes 9, []), cl_printed = []\<rparr> = Some (header kPhoneRes 9, [])"
      "input_of mem_libevent (header kPhoneRes 9, []) = header kPhoneRes 9" by (simp_all add: mem_libevent_def)
  from client_consumes_partial_frames [OF mem_libevent_ok wire_protobuf_ok ser c] show ?thesis by blast
qed

end
