(* ===== verification/Toml_Empty_Array.thy ===== *)
theory Toml_Empty_Array
  imports Toml_Config
begin

text \<open>
  A table below an empty array: a file of two lines on which the parser reads an element that does not exist.
\<close>

lemma parse_empty_array:
  "parse_key_value_pair n 0 (''a = []'' @ newline_char # l) = ok_at (newline_char # l) (([''a''], ''a''), TArray [] ''[]'')" if "n = Suc (Suc (Suc (Suc m)))"
proof -
  have k: "parse_key (''a'' @ '' = []'' @ newline_char # l) = ok_at ('' = []'' @ newline_char # l) ([''a''], ''a'')"
    by (rule parse_bare_key)
      (simp_all add: bare_key_def bare_char_def is_alpha_def key_ends_def is_digit_def Let_def lex_dot_sep_def lex_sequence_def
        maybe_def lex_ws_def repeat_at_least_def lex_wschar_def tab_char_def)
  have s: "lex_keyval_sep ('' = []'' @ newline_char # l) = (Some '' = '', ''[]'' @ newline_char # l)"
    by (simp add: lex_keyval_sep_def lex_sequence_def maybe_def lex_ws_def repeat_at_least_def lex_wschar_def tab_char_def)
  have w: "skip lex_ws_comment_newline (CHR '']'' # newline_char # l) = CHR '']'' # newline_char # l"
    by (simp add: skip_def lex_ws_comment_newline_def repeat_unlimited_def lex_wschar_def tab_char_def lex_newline_def newline_char_def carriage_return_def lex_sequence_def lex_comment_other)
  have "parse_value (Suc (Suc (Suc m))) 0 (''[]'' @ newline_char # l) = ok_at (newline_char # l) (TArray [] ''[]'')"
    using w by (simp add: parser_equations value_body_def guess_value_type_def quote_char_def apostrophe_char_def array_body_def value_recursion_limit_def array_round_def at_char_def parse_value_helper_def ok_at_def Let_def region_between_def)
  then show ?thesis using k s that by (simp add: parser_equations(4) pair_body_def ok_at_def)
qed

lemmas toml_chars = newline_char_def quote_char_def apostrophe_char_def tab_char_def carriage_return_def backslash_char_def
lemma parse_dotted_header: "parse_table_key (''[a.b]'' @ [newline_char]) = ok_at [] ([''a'', ''b''], ''[a.b]'')"
proof -
  have u: "lex_unquoted_key (CHR ''a'' # CHR ''.'' # l) = (Some ''a'', CHR ''.'' # l)" 
    "lex_unquoted_key (CHR ''b'' # CHR '']'' # l) = (Some ''b'', CHR '']'' # l)" 
    "lex_unquoted_key (''b'') = (Some ''b'', [])" for l
    using lex_unquoted_key_text [of "''a''" "CHR ''.'' # l"] lex_unquoted_key_text [of "''b''" "CHR '']'' # l"] lex_unquoted_key_text [of "''b''" "[]"]
    by (simp_all add: bare_char_def is_alpha_def is_digit_def)
  have w: "skip lex_ws loc = loc" if "solid loc" for loc using that by simp
  have d: "lex_dot_sep (CHR ''.'' # CHR ''b'' # l) = (Some ''.'', CHR ''b'' # l)" "lex_dot_sep (CHR '']'' # l) = (None, CHR '']'' # l)" for l
    by (simp_all add: lex_dot_sep_def lex_sequence_def maybe_def lex_ws_solid solid_def toml_chars)
  have dk: "lex_dotted_key (CHR ''a'' # CHR ''.'' # CHR ''b'' # CHR '']'' # l) = (Some ''a.b'', CHR '']'' # l)" for l
    by (simp add: lex_dotted_key_def lex_sequence_def lex_simple_key_def u d repeat_at_least_def)
  have s: "parse_simple_key (CHR ''a'' # CHR ''.'' # l) = ok_at (CHR ''.'' # l) (''a'', ''a'')"
    "parse_simple_key ''b'' = ok_at [] (''b'', ''b'')" for l
    by (simp_all add: parse_simple_key_def parse_basic_string_def parse_literal_string_def lex_string_heads toml_chars err_at_def u)
  have k: "parse_key ''a.b]'' = ok_at '']'' ([''a'', ''b''], ''a.b'')" 
    using dk [of "[]"] by (simp add: parse_key_def s ok_at_def w solid_def toml_chars)
  have "lex_std_table (''[a.b]'' @ [newline_char]) = (Some ''[a.b]'', [newline_char])"
    using dk by (simp add: lex_std_table_def lex_sequence_def lex_std_table_open_def maybe_def lex_ws_solid solid_def toml_chars lex_key_def lex_std_table_close_def)
  moreover have "lex_newline_after_table_key [newline_char] = (Some [newline_char], [])"
    using blank_line_newline [of "[]"] by (simp add: lex_newline_after_table_key_def blank_line_def)
  ultimately show ?thesis
    using k by (simp add: parse_table_key_def bracketed_key_def lex_std_table_open_def lex_std_table_close_def ok_at_def w solid_def toml_chars)
qed
lemma dotted_header_no_array: "parse_array_table_key (''[a.b]'' @ [newline_char]) = err_at (''[a.b]'' @ [newline_char]) ''toml::parse_array_table_key: not a valid table key''"
  by (simp add: parse_array_table_key_def bracketed_key_def lex_array_table_def lex_array_table_open_def lex_std_table_open_def lex_sequence_def)

text \<open>
  A file of the two lines \<^verbatim>\<open>a = []\<close> and \<^verbatim>\<open>[a.b]\<close> runs into undefined behaviour: the parser asks the empty
  array for its last element, before it asks whether there is one.
\<close>

theorem empty_array_undefined:
  "parse_letters (''a = []'' @ newline_char # ''[a.b]'' @ [newline_char]) = Inl Out_of_bounds"
proof -
  let ?h = "''[a.b]'' @ [newline_char]" and ?f = "''a = []'' @ newline_char # ''[a.b]'' @ [newline_char]"
  have ls: "line_starts ?h" "line_starts ?f" by (simp_all add: line_starts_def bare_char_def is_alpha_def)
  have ws: "skip lex_ws ?h = ?h" "skip lex_ws ?f = ?f" "skip skip_line ?f = ?f" "skip lex_first_comments ?f = ?f"
  proof -
    show "skip lex_ws ?h = ?h" "skip lex_ws ?f = ?f" using line_starts_blank(1) ls skip_solid(1) by blast+
    show "skip skip_line ?f = ?f" using skip_line_blanks [OF ls(2), of 0] by (simp add: skip_def)
    have "lex_ws ?f = (None, ?f)" "lex_comment ?f = (None, ?f)"
      using lex_ws_solid line_starts_blank(1) [OF ls(2)] by (blast, simp add: lex_comment_other)
    then show "skip lex_first_comments ?f = ?f"
      by (simp add: lex_first_comments_def skip_def lex_sequence_def repeat_at_least_def maybe_def)
  qed
  have loop: "ml_table_loop (Suc n) tab ?h = ok_at ?h tab" for n tab
    using ws(1) parse_dotted_header dotted_header_no_array by (simp add: err_at_def ok_at_def)
  have after: "after_pair rest_at tab (newline_char # ?h) = rest_at tab ?h" for rest_at tab
    using after_pair_line [OF ls(1), of rest_at tab 0] by simp
  have "fuel_for ?f = Suc (Suc (Suc (Suc 56)))" by (simp add: fuel_for_def)
  from parse_empty_array [OF this, of ?h] have line: "table_line rest_at [] ?f = rest_at [(''a'', TArray [] ''[]'')] ?h" for rest_at
    using after by (simp add: table_line_def ok_at_def insert_new_key)
  have "ml_table_loop (Suc (Suc n)) [] ?f = ok_at ?h [(''a'', TArray [] ''[]'')]" for n
    using line [of "ml_table_loop (Suc n)"] loop ws(2) not_a_header [of "CHR ''a''" "tl ?f"] by (simp add: err_at_def)
  from this [of "12"] have "parse_ml_table ?f = ok_at ?h [(''a'', TArray [] ''[]'')]"
    using ws by (simp add: parse_ml_table_def Let_def eval_nat_numeral del: ml_table_loop.simps)
  moreover have "insert_section False ([''a'', ''b''], ''[a.b]'') [(''a'', TArray [] ''[]'')] [] = Inl Out_of_bounds"
    by (simp add: insert_section_def parse_ml_table_def ok_at_def insert_nested_key_def)
  then have "sections_loop (Suc (length ?h)) [(''a'', TArray [] ''[]'')] ?h = Inl Out_of_bounds"
    using parse_dotted_header dotted_header_no_array by (simp add: err_at_def ok_at_def)
  ultimately have "parse_toml_file ?f = Inl Out_of_bounds"
    using ws(4) by (simp add: parse_toml_file_def Let_def ok_at_def del: sections_loop.simps)
  then show ?thesis by (simp add: parse_letters_def with_final_newline_def skip_bom_def)
qed

end
