(* ===== verification/Fmt_Utf8.thy ===== *)
theory Fmt_Utf8
  imports Prelude
begin

text \<open>
  Code points in \<^verbatim>\<open>fmt\<close> (\<^verbatim>\<open>spdlog/fmt/bundled/format.h\<close>): the branchless decoder of UTF-8, which reads
  four bytes whatever the length of the character, the loop that gives it those bytes up to
  the end of a string, and the two uses of that loop, the width of a string on a terminal and
  the index of its nth code point. A \<^verbatim>\<open>char\<close> is a byte; a pointer into a string is what is left of it.
\<close>

section \<open>utf8\_decode\<close>

definition uchar :: "char \<Rightarrow> u32" where
  "uchar c = of_char c"

definition utf8_masks :: "u32 list" where
  "utf8_masks = [0x00, 0x7f, 0x1f, 0x0f, 0x07]"

definition utf8_mins :: "u32 list" where
  "utf8_mins = [4194304, 0, 128, 2048, 65536]"

definition utf8_shiftc :: "nat list" where
  "utf8_shiftc = [0, 18, 12, 6, 0]"

definition utf8_shifte :: "nat list" where
  "utf8_shifte = [0, 6, 4, 2, 0]"

text \<open>The length that a first byte announces, by its upper five bits, with the NUL that ends the literal; 0 for a byte that starts no character.\<close>

definition utf8_lengths :: "nat list" where
  "utf8_lengths = replicate 16 1 @ replicate 8 0 @ [2, 2, 2, 2, 3, 3, 4, 0]"

definition utf8_len :: "char \<Rightarrow> nat" where
  "utf8_len c = utf8_lengths ! unat (drop_bit 3 (uchar c))"

text \<open>The bits of an error: a comparison, shifted into its place.\<close>

definition flag :: "bool \<Rightarrow> nat \<Rightarrow> u32" where
  "flag b n = push_bit n (if b then 1 else 0)"

definition utf8_code :: "char \<Rightarrow> char \<Rightarrow> char \<Rightarrow> char \<Rightarrow> u32" where
  "utf8_code s0 s1 s2 s3 =
     (let len = utf8_len s0
      in drop_bit (utf8_shiftc ! len)
           (push_bit 18 (uchar s0 AND utf8_masks ! len) OR push_bit 12 (uchar s1 AND 0x3f)
            OR push_bit 6 (uchar s2 AND 0x3f) OR (uchar s3 AND 0x3f)))"

definition utf8_error :: "char \<Rightarrow> char \<Rightarrow> char \<Rightarrow> char \<Rightarrow> u32 \<Rightarrow> u32" where
  "utf8_error s0 s1 s2 s3 c =
     (let len = utf8_len s0
      in drop_bit (utf8_shifte ! len)
           ((flag (c < utf8_mins ! len) 6 OR flag (drop_bit 11 c = 0x1b) 7 OR flag (c > 0x10FFFF) 8
             OR drop_bit 2 (uchar s1 AND 0xc0) OR drop_bit 4 (uchar s2 AND 0xc0) OR drop_bit 6 (uchar s3))
            XOR 0x2a))"

text \<open>The result is the distance to the next character, the code point and the error.\<close>

fun utf8_decode :: "string \<Rightarrow> (nat \<times> u32 \<times> u32) run" where
  "utf8_decode (s0 # s1 # s2 # s3 # rest) =
     (let c = utf8_code s0 s1 s2 s3
      in Inr (utf8_len s0 + (if utf8_len s0 = 0 then 1 else 0), c, utf8_error s0 s1 s2 s3 c))"
| "utf8_decode _ = Inl Out_of_bounds"

section \<open>for\_each\_codepoint\<close>

definition invalid_code_point :: u32 where
  "invalid_code_point = NOT 0"

text \<open>
  The callback gets a code point, its offset in the string and its length, and changes the state it
  captures; it goes on or stops the loop.
\<close>

type_synonym 's visitor = "u32 \<Rightarrow> nat \<Rightarrow> nat \<Rightarrow> 's \<Rightarrow> bool \<times> 's"

text \<open>The lambda \<^verbatim>\<open>decode\<close>: how far to go on, or nothing, and the state.\<close>

definition decode_one :: "'s visitor \<Rightarrow> string \<Rightarrow> nat \<Rightarrow> 's \<Rightarrow> (nat option \<times> 's) run" where
  "decode_one f buf off st =
     bind_run (utf8_decode buf) (\<lambda>(n, cp, e).
       let (result, st') = f (if e \<noteq> 0 then invalid_code_point else cp) off (if e \<noteq> 0 then 1 else n) st
       in Inr (if result then Some (if e \<noteq> 0 then 1 else n) else None, st'))"

lemma utf8_decode_next: "utf8_decode s = Inr (n, cp, e) \<Longrightarrow> 0 < n"
  by (cases s rule: utf8_decode.cases) (auto simp: Let_def split: if_splits)

lemma decode_one_next:
  assumes "decode_one f buf off st = Inr (Some n, st')"
  shows "0 < n"
proof -
  obtain m cp e where d: "utf8_decode buf = Inr (m, cp, e)"
    using assms by (auto simp: decode_one_def bind_run_Inr_conv)
  then have "0 < m" by (rule utf8_decode_next)
  with assms d show ?thesis
    by (auto simp: decode_one_def case_prod_beta Let_def split: if_splits)
qed

text \<open>The blocks of four characters; it ends with the rest of the string, or because the callback stopped it.\<close>

function decode_blocks :: "'s visitor \<Rightarrow> string \<Rightarrow> nat \<Rightarrow> 's \<Rightarrow> ((string \<times> nat) option \<times> 's) run" where
  "decode_blocks f p off st =
     (if length p < 4 then Inr (Some (p, off), st)
      else (case decode_one f p off st of
              Inl e \<Rightarrow> Inl e
            | Inr (None, st') \<Rightarrow> Inr (None, st')
            | Inr (Some n, st') \<Rightarrow> decode_blocks f (drop n p) (off + n) st'))"
  by pat_completeness auto
termination
  by (relation "measure (\<lambda>(f, p, off, st). length p)") (auto dest: decode_one_next)

declare decode_blocks.simps [simp del]

text \<open>The last characters are decoded in a buffer of seven bytes, that is zero behind them.\<close>

function decode_tail :: "'s visitor \<Rightarrow> string \<Rightarrow> nat \<Rightarrow> nat \<Rightarrow> 's \<Rightarrow> 's run" where
  "decode_tail f buf left off st =
     (if left = 0 then Inr st
      else (case decode_one f buf off st of
              Inl e \<Rightarrow> Inl e
            | Inr (None, st') \<Rightarrow> Inr st'
            | Inr (Some n, st') \<Rightarrow> decode_tail f (drop n buf) (left - n) (off + n) st'))"
  by pat_completeness auto
termination
  by (relation "measure (\<lambda>(f, buf, left, off, st). left)") (auto dest: decode_one_next)

declare decode_tail.simps [simp del]

definition for_each_codepoint :: "string \<Rightarrow> 's visitor \<Rightarrow> 's \<Rightarrow> 's run" where
  "for_each_codepoint s f st =
     bind_run (decode_blocks f s 0 st) (\<lambda>(rest, st').
       case rest of
         None \<Rightarrow> Inr st'
       | Some (p, off) \<Rightarrow> decode_tail f (p @ replicate (7 - length p) (CHR 0x00)) (length p) off st')"

section \<open>compute\_width and code\_point\_index\<close>

definition is_wide :: "u32 \<Rightarrow> bool" where
  "is_wide cp \<longleftrightarrow>
     cp \<ge> 0x1100 \<and>
     (cp \<le> 0x115f \<or> cp = 0x2329 \<or> cp = 0x232a \<or>
      (cp \<ge> 0x2e80 \<and> cp \<le> 0xa4cf \<and> cp \<noteq> 0x303f) \<or>
      (cp \<ge> 0xac00 \<and> cp \<le> 0xd7a3) \<or>
      (cp \<ge> 0xf900 \<and> cp \<le> 0xfaff) \<or>
      (cp \<ge> 0xfe10 \<and> cp \<le> 0xfe19) \<or>
      (cp \<ge> 0xfe30 \<and> cp \<le> 0xfe6f) \<or>
      (cp \<ge> 0xff00 \<and> cp \<le> 0xff60) \<or>
      (cp \<ge> 0xffe0 \<and> cp \<le> 0xffe6) \<or>
      (cp \<ge> 0x20000 \<and> cp \<le> 0x2fffd) \<or>
      (cp \<ge> 0x30000 \<and> cp \<le> 0x3fffd) \<or>
      (cp \<ge> 0x1f300 \<and> cp \<le> 0x1f64f) \<or>
      (cp \<ge> 0x1f900 \<and> cp \<le> 0x1f9ff))"

definition count_code_points :: "nat visitor" where
  "count_code_points cp off len num = (True, num + 1 + (if is_wide cp then 1 else 0))"

definition compute_width :: "string \<Rightarrow> nat run" where
  "compute_width s = for_each_codepoint s count_code_points 0"

definition find_code_point :: "(nat \<times> nat) visitor" where
  "find_code_point cp off len st =
     (case st of (n, result) \<Rightarrow> if n \<noteq> 0 then (True, (n - 1, result)) else (False, (n, off)))"

definition code_point_index :: "string \<Rightarrow> nat \<Rightarrow> nat run" where
  "code_point_index s n =
     bind_run (for_each_codepoint s find_code_point (n, length s)) (\<lambda>(_, result). Inr result)"

section \<open>The loop visits the code points of the string\<close>

text \<open>The code points with the places they take, one after the other: an invalid byte is one of its own.\<close>

function code_points :: "string \<Rightarrow> nat \<Rightarrow> (u32 \<times> nat \<times> nat) list" where
  "code_points p off =
     (if p = [] then []
      else (case utf8_decode (p @ replicate 3 (CHR 0x00)) of
              Inl _ \<Rightarrow> []
            | Inr (n, c, e) \<Rightarrow>
                if e \<noteq> 0 then (invalid_code_point, off, 1) # code_points (drop 1 p) (off + 1)
                else (c, off, n) # code_points (drop n p) (off + n)))"
  by pat_completeness auto
termination
  by (relation "measure (\<lambda>(p, off). length p)") (auto dest: utf8_decode_next)

declare code_points.simps [simp del]

fun visit :: "'s visitor \<Rightarrow> (u32 \<times> nat \<times> nat) list \<Rightarrow> 's \<Rightarrow> 's" where
  "visit f [] st = st"
| "visit f ((c, off, n) # xs) st = (let (go_on, st') = f c off n st in if go_on then visit f xs st' else st')"

text \<open>The places follow each other without a gap, from the one offset to the other.\<close>

fun tiles :: "nat \<Rightarrow> (u32 \<times> nat \<times> nat) list \<Rightarrow> nat \<Rightarrow> bool" where
  "tiles off [] end \<longleftrightarrow> off = end"
| "tiles off ((c, o1, n) # xs) end \<longleftrightarrow> o1 = off \<and> 1 \<le> n \<and> n \<le> 4 \<and> tiles (off + n) xs end"

lemma utf8_decode_prefix: "4 \<le> length p \<Longrightarrow> utf8_decode (p @ q) = utf8_decode p"
  by (cases p rule: utf8_decode.cases) simp_all

lemma utf8_decode_total:
  assumes "4 \<le> length p"
  obtains n c e where "utf8_decode p = Inr (n, c, e)" "1 \<le> n"
proof -
  obtain x where x: "utf8_decode p = Inr x"
    using assms by (cases p rule: utf8_decode.cases) (simp_all add: Let_def)
  obtain n c e where "x = (n, c, e)" by (cases x)
  with x show ?thesis using that utf8_decode_next [of p n c e] by simp
qed

lemma bit_uchar: "bit (uchar c) k \<longleftrightarrow>
    k < 8 \<and> [digit0 c, digit1 c, digit2 c, digit3 c, digit4 c, digit5 c, digit6 c, digit7 c] ! k"
  unfolding uchar_def of_char_def bit_horner_sum_bit_word_iff by (simp add: eval_nat_numeral)

lemma of_char_less: "(of_char c :: nat) < 256"
  by (metis mod_less_divisor of_char_mod_256 zero_less_numeral)

lemma unat_uchar: "unat (uchar c) = of_char c"
proof -
  have "uchar c = of_nat (of_char c)" by (simp only: uchar_def of_nat_of_char)
  moreover have "(of_char c :: nat) < 2 ^ LENGTH(32)" by (rule less_le_trans [OF of_char_less]) simp
  ultimately show ?thesis by (simp only: unat_of_nat mod_less)
qed

lemma uchar_less: "unat (uchar c) < 256"
  by (simp add: unat_uchar of_char_less)

lemma utf8_len_cases: "utf8_len s0 \<in> {0, 1, 2, 3, 4}"
proof -
  have "set utf8_lengths = {0, 1, 2, 3, 4}" and "length utf8_lengths = 32" by (auto simp: utf8_lengths_def)
  moreover have "unat (drop_bit 3 (uchar s0)) < 32"
    using uchar_less [of s0] unfolding unat_drop_bit_eq by (simp add: drop_bit_eq_div)
  ultimately show ?thesis unfolding utf8_len_def by (metis nth_mem)
qed

lemma masks_as_bits: "(0xc0 :: u32) = push_bit 6 (mask 2)" "(0x3f :: u32) = mask 6" "(0x2a :: u32) = push_bit 5 1 OR push_bit 3 1 OR push_bit 1 1"
  by (simp add: push_bit_eq_mult mask_eq_exp_minus_1, simp add: mask_eq_exp_minus_1, simp del: One_nat_def)

lemma bit_flag: "bit (flag b n) k \<longleftrightarrow> b \<and> k = n \<and> n < 32"
  by (auto simp: flag_def bit_push_bit_iff bit_1_iff)

lemma drop_bit_zero_bit: "drop_bit k (e :: u32) = 0 \<Longrightarrow> k \<le> j \<Longrightarrow> \<not> bit e j"
proof -
  assume "drop_bit k e = 0" and "k \<le> j"
  moreover have "bit (drop_bit k e) (j - k) = bit e j" using \<open>k \<le> j\<close> by (simp add: bit_drop_bit_eq)
  ultimately show ?thesis by simp
qed

text \<open>A character that is accepted has continuation bytes where its length says so.\<close>

lemma error_bits:
  assumes "e = (flag f1 6 OR flag f2 7 OR flag f3 8 OR drop_bit 2 (uchar s1 AND 0xc0) OR drop_bit 4 (uchar s2 AND 0xc0)
      OR drop_bit 6 (uchar s3)) XOR 0x2a"
  shows "bit e 5 = (\<not> bit (uchar s1) 7)" "bit e 3 = (\<not> bit (uchar s2) 7)" "bit e 1 = (\<not> bit (uchar s3) 7)"
  unfolding assms masks_as_bits bit_xor_iff bit_or_iff bit_and_iff bit_flag bit_drop_bit_eq bit_push_bit_iff bit_mask_iff comp_def
  by (simp_all add: bit_1_iff bit_uchar)

lemma valid_tail_bits:
  assumes "utf8_decode (s0 # s1 # s2 # s3 # rest) = Inr (n, c, 0)"
  shows "n \<le> 4" "2 \<le> n \<Longrightarrow> bit (uchar s1) 7" "3 \<le> n \<Longrightarrow> bit (uchar s2) 7" "4 \<le> n \<Longrightarrow> bit (uchar s3) 7"
proof -
  have err: "utf8_error s0 s1 s2 s3 c = 0" and n: "n = utf8_len s0 + (if utf8_len s0 = 0 then 1 else 0)"
    using assms by (auto simp: Let_def)
  define e where e: "e = (flag (c < utf8_mins ! utf8_len s0) 6 OR flag (drop_bit 11 c = 0x1b) 7 OR flag (c > 0x10FFFF) 8
      OR drop_bit 2 (uchar s1 AND 0xc0) OR drop_bit 4 (uchar s2 AND 0xc0) OR drop_bit 6 (uchar s3)) XOR 0x2a"
  have z: "drop_bit (utf8_shifte ! utf8_len s0) e = 0"
    using err by (simp only: utf8_error_def Let_def e)
  have len: "utf8_len s0 \<in> {0, 1, 2, 3, 4}" by (rule utf8_len_cases)
  note bits = error_bits [OF e]
  show "n \<le> 4" using len n by auto
  show "bit (uchar s1) 7" if "2 \<le> n"
    using drop_bit_zero_bit [OF z, of 5] that len n bits by (auto simp: utf8_shifte_def split: if_splits)
  show "bit (uchar s2) 7" if "3 \<le> n"
    using drop_bit_zero_bit [OF z, of 3] that len n bits by (auto simp: utf8_shifte_def split: if_splits)
  show "bit (uchar s3) 7" if "4 \<le> n"
    using drop_bit_zero_bit [OF z, of 1] that len n bits by (auto simp: utf8_shifte_def split: if_splits)
qed

text \<open>An accepted character lies within the string: the zero bytes behind it are no continuation.\<close>

lemma accepted_within:
  assumes "p \<noteq> []" and "utf8_decode (p @ replicate 3 (CHR 0x00)) = Inr (n, c, 0)"
  shows "n \<le> length p"
proof (rule ccontr)
  assume "\<not> n \<le> length p"
  then have n: "length p < n" by simp
  have zero: "\<not> bit (uchar (CHR 0x00)) 7" by (simp add: bit_uchar)
  obtain s0 q where p: "p = s0 # q" using assms(1) by (cases p) simp_all
  consider "q = []" | s1 where "q = [s1]" | s1 s2 where "q = [s1, s2]" | s1 s2 s3 r where "q = s1 # s2 # s3 # r"
    by (metis neq_Nil_conv)
  then show False
  proof cases
    case 1
    have d: "utf8_decode (s0 # CHR 0x00 # CHR 0x00 # CHR 0x00 # []) = Inr (n, c, 0)"
      using assms(2) 1 p by (simp add: numeral_3_eq_3 del: utf8_decode.simps)
    show False using valid_tail_bits(2) [OF d] zero n p by simp
  next
    case (2 s1)
    have d: "utf8_decode (s0 # s1 # CHR 0x00 # CHR 0x00 # [CHR 0x00]) = Inr (n, c, 0)"
      using assms(2) 2 p by (simp add: numeral_3_eq_3 del: utf8_decode.simps)
    show False using valid_tail_bits(3) [OF d] zero n p 2 by simp
  next
    case (3 s1 s2)
    have d: "utf8_decode (s0 # s1 # s2 # CHR 0x00 # [CHR 0x00, CHR 0x00]) = Inr (n, c, 0)"
      using assms(2) 3 p by (simp add: numeral_3_eq_3 del: utf8_decode.simps)
    show False using valid_tail_bits(4) [OF d] zero n p 3 by simp
  next
    case (4 s1 s2 s3 r)
    have d: "utf8_decode (s0 # s1 # s2 # s3 # r @ replicate 3 (CHR 0x00)) = Inr (n, c, 0)"
      using assms(2) 4 p by (simp del: utf8_decode.simps)
    show False using valid_tail_bits(1) [OF d] n p 4 by simp
  qed
qed

lemma decoded_at_most_4: "utf8_decode p = Inr (n, c, e) \<Longrightarrow> n \<le> 4"
proof (cases p rule: utf8_decode.cases)
  case (1 s0 s1 s2 s3 rest)
  assume "utf8_decode p = Inr (n, c, e)"
  then show ?thesis using 1 utf8_len_cases [of s0] by (auto simp: Let_def)
qed simp_all

lemma first_code_point:
  assumes "p \<noteq> []"
  obtains c n where
    "code_points p off = (c, off, n) # code_points (drop n p) (off + n)" "1 \<le> n" "n \<le> length p" "n \<le> 4"
    "\<And>(f :: 's visitor) st buf. utf8_decode buf = utf8_decode (p @ replicate 3 (CHR 0x00)) \<Longrightarrow>
      decode_one f buf off st = Inr (if fst (f c off n st) then Some n else None, snd (f c off n st))"
proof -
  have "4 \<le> length (p @ replicate 3 (CHR 0x00))" using assms by (cases p) simp_all
  then obtain n c e where d: "utf8_decode (p @ replicate 3 (CHR 0x00)) = Inr (n, c, e)" "1 \<le> n"
    by (rule utf8_decode_total)
  show ?thesis
  proof (cases "e = 0")
    case True
    show ?thesis
    proof (rule that [of c n])
      show "code_points p off = (c, off, n) # code_points (drop n p) (off + n)"
        using assms d True by (subst code_points.simps) simp
      show "n \<le> length p" using accepted_within [OF assms] d True by simp
      show "n \<le> 4" by (rule decoded_at_most_4 [OF d(1)])
    qed (use d True in \<open>auto simp: decode_one_def Let_def case_prod_beta\<close>)
  next
    case False
    show ?thesis
    proof (rule that [of invalid_code_point 1])
      show "code_points p off = (invalid_code_point, off, 1) # code_points (drop 1 p) (off + 1)"
        using assms d False by (subst code_points.simps) simp
      show "1 \<le> length p" using assms by (cases p) simp_all
    qed (use d False in \<open>auto simp: decode_one_def Let_def case_prod_beta\<close>)
  qed
qed

text \<open>Outside the blocks of four, the buffer of the tail ends in the zeros that the decoder needs.\<close>

lemma decode_padded: "p \<noteq> [] \<Longrightarrow> 3 \<le> m \<Longrightarrow>
    utf8_decode (p @ replicate m (CHR 0x00)) = utf8_decode (p @ replicate 3 (CHR 0x00))"
proof -
  assume "p \<noteq> []" "3 \<le> m"
  then have "p @ replicate m (CHR 0x00) = (p @ replicate 3 (CHR 0x00)) @ replicate (m - 3) (CHR 0x00)"
    by (simp add: replicate_add [symmetric])
  moreover have "4 \<le> length (p @ replicate 3 (CHR 0x00))" using \<open>p \<noteq> []\<close> by (cases p) simp_all
  ultimately show ?thesis using utf8_decode_prefix by metis
qed

lemma decode_tail_visits:
  fixes f :: "'s visitor"
  shows "3 \<le> m \<Longrightarrow>
    decode_tail f (p @ replicate m (CHR 0x00)) (length p) off st = Inr (visit f (code_points p off) st)"
proof (induction "length p" arbitrary: p off st rule: less_induct)
  case less
  show ?case
  proof (cases "p = []")
    case True
    then show ?thesis by (simp add: decode_tail.simps code_points.simps)
  next
    case False
    obtain c n where cp: "code_points p off = (c, off, n) # code_points (drop n p) (off + n)" "1 \<le> n" "n \<le> length p"
      and one: "\<And>(g :: 's visitor) st buf. utf8_decode buf = utf8_decode (p @ replicate 3 (CHR 0x00)) \<Longrightarrow>
        decode_one g buf off st = Inr (if fst (g c off n st) then Some n else None, snd (g c off n st))"
      by (rule first_code_point [OF False, of off, where 's = 's]) blast
    note cp = cp one [OF decode_padded [OF False less.prems]]
    have "decode_tail f (drop n p @ replicate m (CHR 0x00)) (length p - n) (off + n) (snd (f c off n st))
        = Inr (visit f (code_points (drop n p) (off + n)) (snd (f c off n st)))"
      using less.hyps [of "drop n p"] less.prems cp(2,3) by simp
    then show ?thesis
      using cp False by (subst decode_tail.simps) (simp add: case_prod_beta)
  qed
qed

lemma decode_blocks_visits:
  fixes f :: "'s visitor"
  shows "(case decode_blocks f p off st of
      Inl e \<Rightarrow> Inl e
    | Inr (None, st') \<Rightarrow> Inr st'
    | Inr (Some (q, off'), st') \<Rightarrow> decode_tail f (q @ replicate (7 - length q) (CHR 0x00)) (length q) off' st')
   = Inr (visit f (code_points p off) st)"
proof (induction "length p" arbitrary: p off st rule: less_induct)
  case less
  show ?case
  proof (cases "length p < 4")
    case True
    then show ?thesis using decode_tail_visits [of "7 - length p" f p off st] by (simp add: decode_blocks.simps [of f p])
  next
    case False
    then have ne: "p \<noteq> []" and "4 \<le> length p" by auto
    obtain c n where cp: "code_points p off = (c, off, n) # code_points (drop n p) (off + n)" "1 \<le> n" "n \<le> length p"
      and one: "\<And>(g :: 's visitor) st buf. utf8_decode buf = utf8_decode (p @ replicate 3 (CHR 0x00)) \<Longrightarrow>
        decode_one g buf off st = Inr (if fst (g c off n st) then Some n else None, snd (g c off n st))"
      by (rule first_code_point [OF ne, of off, where 's = 's]) blast
    note cp = cp one [OF utf8_decode_prefix [OF \<open>4 \<le> length p\<close>, symmetric]]
    note ih = less.hyps [of "drop n p" "off + n" "snd (f c off n st)"]
    show ?thesis
      using ih cp False by (subst decode_blocks.simps) (simp add: case_prod_beta)
  qed
qed

lemma for_each_codepoint_visits: "for_each_codepoint s f st = Inr (visit f (code_points s 0) st)"
proof -
  note b = decode_blocks_visits [of f s 0 st]
  consider e where "decode_blocks f s 0 st = Inl e" | st' where "decode_blocks f s 0 st = Inr (None, st')"
    | q off st' where "decode_blocks f s 0 st = Inr (Some (q, off), st')"
    by (metis old.prod.exhaust option.exhaust sum.exhaust)
  then show ?thesis
    using b by cases (simp_all add: for_each_codepoint_def)
qed

lemma code_points_tile: "tiles off (code_points p off) (off + length p)"
proof (induction "length p" arbitrary: p off rule: less_induct)
  case less
  show ?case
  proof (cases "p = []")
    case False
    obtain c n where cp: "code_points p off = (c, off, n) # code_points (drop n p) (off + n)" "1 \<le> n" "n \<le> length p" "n \<le> 4"
      by (rule first_code_point [OF False, of off])
    then show ?thesis using less.hyps [of "drop n p" "off + n"] by simp
  qed (simp add: code_points.simps)
qed

section \<open>Encoding and decoding\<close>

lemma uchar_nat: "uchar c = of_nat (of_char c)" by (simp only: uchar_def of_nat_of_char)

lemma of_char_byte: "n < 256 \<Longrightarrow> (of_char (char_of n) :: nat) = n" by simp

lemma uchar_byte: "n < 256 \<Longrightarrow> uchar (char_of n) = of_nat n"
  by (simp only: uchar_nat of_char_byte)

lemma or_plus: "(a :: u32) AND b = 0 \<Longrightarrow> a OR b = a + b"
  by (simp add: disjunctive_add_eq_or)

lemma bit_nat_word: "bit (of_nat n :: u32) k \<longleftrightarrow> k < 32 \<and> odd (n div 2 ^ k)"
  unfolding bit_of_nat_iff by (simp add: bit_iff_odd)

lemma bit_byte: "(n::nat) < 256 \<Longrightarrow> bit (uchar (char_of n)) k \<longleftrightarrow> k < 32 \<and> odd (n div 2 ^ k)"
  unfolding uchar_byte bit_nat_word by (rule refl)

lemma and_mask: "of_nat n AND mask w = (of_nat (n mod 2 ^ w) :: u32)"
  unfolding take_bit_eq_mask [symmetric] take_bit_of_nat unfolding take_bit_eq_mod by (rule refl)

lemma pieces:
  assumes "a < 128" "b < 64" "c < 64" "d < 64"
  shows "push_bit 18 (of_nat a) OR push_bit 12 (of_nat b) OR push_bit 6 (of_nat c) OR of_nat d
    = (of_nat (a * 2 ^ 18 + b * 2 ^ 12 + c * 2 ^ 6 + d) :: u32)"
proof -
  have small: "\<not> bit (of_nat x :: u32) j" if "x < 2 ^ k" "k \<le> j" for x k j :: nat
  proof -
    have "x < 2 ^ j" using that by (meson less_le_trans one_le_numeral power_increasing)
    then show ?thesis unfolding bit_nat_word by simp
  qed
  have disj: "push_bit k (of_nat x) OR of_nat y = (of_nat (x * 2 ^ k + y) :: u32)" if "y < 2 ^ k" for x y k :: nat
  proof -
    have "push_bit k (of_nat x) AND of_nat y = (0 :: u32)"
      using small [OF that] by (intro bit_word_eqI) (auto simp: bit_and_iff bit_push_bit_iff)
    from or_plus [OF this] have "push_bit k (of_nat x) OR of_nat y = push_bit k (of_nat x) + (of_nat y :: u32)" .
    also have "\<dots> = of_nat (x * 2 ^ k + y)" by (simp add: push_bit_eq_mult)
    finally show ?thesis .
  qed
  have "d < 2 ^ 6" "c * 2 ^ 6 + d < 2 ^ 12" "b * 2 ^ 12 + (c * 2 ^ 6 + d) < 2 ^ 18" using assms by simp_all
  then show ?thesis using assms(4) by (simp only: or.assoc add.assoc disj)
qed

text \<open>The reference: how UTF-8 encodes a code point, and which code points there are.\<close>

definition utf8_encode :: "u32 \<Rightarrow> string" where
  "utf8_encode cp =
     (let k = unat cp
      in if k < 0x80 then [char_of k]
         else if k < 0x800 then [char_of (0xC0 + k div 64), char_of (0x80 + k mod 64)]
         else if k < 0x10000 then
           [char_of (0xE0 + k div 4096), char_of (0x80 + k div 64 mod 64), char_of (0x80 + k mod 64)]
         else [char_of (0xF0 + k div 262144), char_of (0x80 + k div 4096 mod 64), char_of (0x80 + k div 64 mod 64),
               char_of (0x80 + k mod 64)])"

definition scalar_value :: "u32 \<Rightarrow> bool" where
  "scalar_value cp \<longleftrightarrow> cp \<le> 0x10FFFF \<and> \<not> (0xD800 \<le> cp \<and> cp \<le> 0xDFFF)"

lemma drop_of_nat: "m < 2 ^ 32 \<Longrightarrow> drop_bit k (of_nat m) = (of_nat (m div 2 ^ k) :: u32)"
proof -
  assume m: "m < 2 ^ 32"
  then have "m div 2 ^ k < 2 ^ 32" using div_le_dividend le_less_trans by blast
  then show ?thesis using m
    by (simp add: word_unat_eq_iff unat_drop_bit_eq unat_of_nat) (simp add: drop_bit_eq_div)
qed

lemma utf8_len_byte:
  assumes "n < 256"
  shows "utf8_len (char_of (n :: nat)) = utf8_lengths ! (n div 8)"
proof -
  have "drop_bit 3 (uchar (char_of n)) = of_nat (n div 2 ^ 3)"
    unfolding uchar_byte [OF assms] by (rule drop_of_nat) (use assms in simp)
  moreover have "unat (of_nat (n div 2 ^ 3) :: u32) = n div 2 ^ 3"
    unfolding unat_of_nat using assms by simp
  ultimately show ?thesis by (simp add: utf8_len_def)
qed

lemma utf8_code_nat:
  fixes n0 n1 n2 n3 :: nat
  assumes "uchar s0 = of_nat n0" "uchar s1 = of_nat n1" "uchar s2 = of_nat n2" "uchar s3 = of_nat n3"
    and "utf8_masks ! utf8_len s0 = mask w" "w \<le> 7"
  shows "utf8_code s0 s1 s2 s3 =
    of_nat ((n0 mod 2 ^ w * 2 ^ 18 + n1 mod 64 * 2 ^ 12 + n2 mod 64 * 2 ^ 6 + n3 mod 64) div 2 ^ (utf8_shiftc ! utf8_len s0))"
proof -
  have "(2::nat) ^ w \<le> 2 ^ 7" using assms(6) by (intro power_increasing) simp_all
  then have w: "n0 mod 2 ^ w < 128" using mod_less_divisor [of "2 ^ w" n0] by (simp del: mod_less_divisor)
  have m: "n mod 64 < 64" for n :: nat by simp
  have "n0 mod 2 ^ w * 2 ^ 18 + n1 mod 64 * 2 ^ 12 + n2 mod 64 * 2 ^ 6 + n3 mod 64 < 2 ^ 32"
    using w m [of n1] m [of n2] m [of n3] by simp
  note d = drop_of_nat [OF this]
  have k: "(0x3f :: u32) = mask 6" by (simp add: mask_eq_exp_minus_1)
  have "of_nat n AND (0x3f :: u32) = of_nat (n mod 64)" for n using and_mask [of n 6] by (simp add: k)
  then show ?thesis
    by (simp only: utf8_code_def Let_def assms and_mask pieces [OF w m m m] d)
qed

lemma bit_error:
  assumes "e = (flag f1 6 OR flag f2 7 OR flag f3 8 OR drop_bit 2 (uchar s1 AND 0xc0) OR drop_bit 4 (uchar s2 AND 0xc0)
      OR drop_bit 6 (uchar s3)) XOR 0x2a"
    and "\<not> f1" "\<not> f2" "\<not> f3"
  shows "bit e i \<longleftrightarrow> (i = 5 \<and> \<not> bit (uchar s1) 7) \<or> (i = 4 \<and> bit (uchar s1) 6) \<or>
    (i = 3 \<and> \<not> bit (uchar s2) 7) \<or> (i = 2 \<and> bit (uchar s2) 6) \<or> (i = 1 \<and> \<not> bit (uchar s3) 7) \<or> (i = 0 \<and> bit (uchar s3) 6)"
proof -
  have b: "\<not> bit (uchar c) k" if "8 \<le> k" for c k using that by (simp add: bit_uchar)
  consider "i = 0" | "i = 1" | "i = 2" | "i = 3" | "i = 4" | "i = 5" | "i = 6" | "i = 7" | "i = 8" | "9 \<le> i" by linarith
  then show ?thesis
    unfolding assms(1) masks_as_bits bit_xor_iff bit_or_iff bit_and_iff bit_flag bit_drop_bit_eq bit_push_bit_iff
      bit_mask_iff comp_def
    by cases (simp_all add: assms(2-) b bit_1_iff)
qed

lemma no_error:
  assumes "l = utf8_len s0" "1 \<le> l" "l \<le> 4" "scalar_value c" "utf8_mins ! l \<le> c"
    and "2 \<le> l \<Longrightarrow> bit (uchar s1) 7 \<and> \<not> bit (uchar s1) 6" "3 \<le> l \<Longrightarrow> bit (uchar s2) 7 \<and> \<not> bit (uchar s2) 6"
    and "4 \<le> l \<Longrightarrow> bit (uchar s3) 7 \<and> \<not> bit (uchar s3) 6"
  shows "utf8_error s0 s1 s2 s3 c = 0"
proof -
  have "unat (drop_bit 11 c) = unat c div 2048" unfolding unat_drop_bit_eq by (simp add: drop_bit_eq_div)
  moreover have "\<not> (55296 \<le> unat c \<and> unat c \<le> 57343)"
    using assms(4) by (simp add: scalar_value_def word_le_nat_alt)
  then have "unat c div 2048 \<noteq> 27" by linarith
  moreover have "unat (0x1b :: u32) = 27" by simp
  ultimately have surrogate: "drop_bit 11 c \<noteq> 0x1b" by metis
  define e where e: "e = (flag (c < utf8_mins ! l) 6 OR flag (drop_bit 11 c = 0x1b) 7 OR flag (c > 0x10FFFF) 8
      OR drop_bit 2 (uchar s1 AND 0xc0) OR drop_bit 4 (uchar s2 AND 0xc0) OR drop_bit 6 (uchar s3)) XOR 0x2a"
  have b: "bit e i \<longleftrightarrow> (i = 5 \<and> \<not> bit (uchar s1) 7) \<or> (i = 4 \<and> bit (uchar s1) 6) \<or>
      (i = 3 \<and> \<not> bit (uchar s2) 7) \<or> (i = 2 \<and> bit (uchar s2) 6) \<or> (i = 1 \<and> \<not> bit (uchar s3) 7) \<or> (i = 0 \<and> bit (uchar s3) 6)" for i
    by (rule bit_error [OF e]) (use assms(4,5) surrogate in \<open>simp_all add: scalar_value_def not_less\<close>)
  have "l = 1 \<or> l = 2 \<or> l = 3 \<or> l = 4" using assms(2,3) by linarith
  then have "drop_bit (utf8_shifte ! l) e = 0"
    using assms(6-8) by (intro bit_word_eqI) (auto simp: bit_drop_bit_eq b utf8_shifte_def)
  then show ?thesis unfolding utf8_error_def Let_def e assms(1) .
qed

lemma utf8_lengths_nth:
  "m < 16 \<Longrightarrow> utf8_lengths ! m = 1" "24 \<le> m \<Longrightarrow> m < 28 \<Longrightarrow> utf8_lengths ! m = 2"
  "28 \<le> m \<Longrightarrow> m < 30 \<Longrightarrow> utf8_lengths ! m = 3" "utf8_lengths ! 30 = 4"
proof -
  have "m = 24 \<or> m = 25 \<or> m = 26 \<or> m = 27" if "24 \<le> m" "m < 28" using that by linarith
  moreover have "m = 28 \<or> m = 29" if "28 \<le> m" "m < 30" using that by linarith
  ultimately show "m < 16 \<Longrightarrow> utf8_lengths ! m = 1" "24 \<le> m \<Longrightarrow> m < 28 \<Longrightarrow> utf8_lengths ! m = 2"
    "28 \<le> m \<Longrightarrow> m < 30 \<Longrightarrow> utf8_lengths ! m = 3" "utf8_lengths ! 30 = 4"
    by (auto simp: utf8_lengths_def nth_append)
qed

lemma continuation_bits: "bit (uchar (char_of (128 + x mod 64))) 7 \<and> \<not> bit (uchar (char_of (128 + x mod 64))) 6"
  for x :: nat
proof -
  have "128 + x mod 64 < 256" "(128 + x mod 64) div 2 ^ 7 = 1" "(128 + x mod 64) div 2 ^ 6 = 2"
    using mod_less_divisor [of 64 x] by simp_all
  then show ?thesis unfolding bit_byte [OF \<open>128 + x mod 64 < 256\<close>] by simp
qed

lemma utf8_masks_nth: "utf8_masks ! 1 = mask 7" "utf8_masks ! 2 = mask 5" "utf8_masks ! 3 = mask 4" "utf8_masks ! 4 = mask 3"
  by (simp_all add: utf8_masks_def mask_eq_exp_minus_1)

lemma div_pack: "r < m \<Longrightarrow> (a * m + r) div m = a" for a r m :: nat
  by simp

lemma lead_bytes:
  "x < 32 \<Longrightarrow> (192 + x) mod 2 ^ 5 = x" "x < 16 \<Longrightarrow> (224 + x) mod 2 ^ 4 = x" "x < 8 \<Longrightarrow> (240 + x) mod 2 ^ 3 = x"
  for x :: nat
  using mod_mult_self1 [of x 6 32] mod_mult_self1 [of x 14 16] mod_mult_self1 [of x 30 8] by (simp_all add: add.commute)

lemma cont_bytes: "128 + x mod 64 < 256" "(128 + x mod 64) mod 64 = x mod 64" for x :: nat
  using mod_less_divisor [of 64 x] mod_mult_self1 [of "x mod 64" 2 64] by (simp_all add: add.commute)

lemma split_6: "k div 64 * 2 ^ 18 + k mod 64 * 2 ^ 12 = k * 2 ^ 12" for k :: nat
proof -
  have "(k div 64 * 64 + k mod 64) * 2 ^ 12 = k * 2 ^ 12" by simp
  then show ?thesis by (simp only: add_mult_distrib mult.assoc) simp
qed

lemma split_12: "k div 4096 * 2 ^ 18 + k div 64 mod 64 * 2 ^ 12 + k mod 64 * 2 ^ 6 = k * 2 ^ 6" for k :: nat
proof -
  have "k div 4096 * 64 + k div 64 mod 64 = k div 64" using div_mult_mod_eq [of "k div 64" 64] by (simp add: div_mult2_eq [symmetric])
  then have "(k div 4096 * 64 + k div 64 mod 64) * 2 ^ 12 + k mod 64 * 2 ^ 6 = (k div 64 * 64 + k mod 64) * 2 ^ 6"
    by (simp only: add_mult_distrib) simp
  then show ?thesis by (simp only: add_mult_distrib mult.assoc div_mult_mod_eq) simp
qed

lemma split_18: "k div 262144 * 2 ^ 18 + k div 4096 mod 64 * 2 ^ 12 + k div 64 mod 64 * 2 ^ 6 + k mod 64 = k" for k :: nat
proof -
  have a: "k div 262144 * 64 + k div 4096 mod 64 = k div 4096" using div_mult_mod_eq [of "k div 4096" 64] by (simp add: div_mult2_eq [symmetric])
  have b: "k div 4096 * 64 + k div 64 mod 64 = k div 64" using div_mult_mod_eq [of "k div 64" 64] by (simp add: div_mult2_eq [symmetric])
  have "((k div 262144 * 64 + k div 4096 mod 64) * 64 + k div 64 mod 64) * 64 + k mod 64 = k"
    unfolding a b by simp
  then show ?thesis by (simp add: algebra_simps)
qed

lemma decoded_as:
  fixes n0 n1 n2 n3 k :: nat
  assumes "uchar s0 = of_nat n0" "uchar s1 = of_nat n1" "uchar s2 = of_nat n2" "uchar s3 = of_nat n3"
    and "utf8_len s0 = l" "1 \<le> l" "l \<le> 4" "utf8_masks ! l = mask w" "w \<le> 7"
    and "(n0 mod 2 ^ w * 2 ^ 18 + n1 mod 64 * 2 ^ 12 + n2 mod 64 * 2 ^ 6 + n3 mod 64) div 2 ^ (utf8_shiftc ! l) = unat cp"
    and "scalar_value cp" "utf8_mins ! l \<le> cp"
    and "2 \<le> l \<Longrightarrow> bit (uchar s1) 7 \<and> \<not> bit (uchar s1) 6" "3 \<le> l \<Longrightarrow> bit (uchar s2) 7 \<and> \<not> bit (uchar s2) 6"
    and "4 \<le> l \<Longrightarrow> bit (uchar s3) 7 \<and> \<not> bit (uchar s3) 6"
  shows "utf8_decode (s0 # s1 # s2 # s3 # r) = Inr (l, cp, 0)"
proof -
  have "utf8_code s0 s1 s2 s3 = of_nat (unat cp)"
    unfolding assms(10) [symmetric] assms(5) [symmetric] by (rule utf8_code_nat [OF assms(1-4)]) (use assms in simp_all)
  moreover have "utf8_error s0 s1 s2 s3 cp = 0"
    by (rule no_error [OF assms(5) [symmetric] assms(6,7,11,12)]) (use assms(13-) in simp_all)
  ultimately show ?thesis using assms(5,6) by simp
qed

lemma utf8_decode_encode:
  assumes "scalar_value cp" and "4 \<le> length (utf8_encode cp @ q)"
  shows "utf8_decode (utf8_encode cp @ q) = Inr (length (utf8_encode cp), cp, 0)"
proof -
  define k where "k = unat cp"
  have k: "k \<le> 0x10FFFF" using assms(1) by (simp add: scalar_value_def k_def word_le_nat_alt)
  have mins: "utf8_mins ! l \<le> cp \<longleftrightarrow> unat (utf8_mins ! l) \<le> k" for l by (simp add: k_def word_le_nat_alt)
  consider "k < 0x80" | "0x80 \<le> k" "k < 0x800" | "0x800 \<le> k" "k < 0x10000" | "0x10000 \<le> k" by linarith
  then show ?thesis
  proof cases
    case 1
    then have enc: "utf8_encode cp = [char_of k]" by (simp add: utf8_encode_def k_def Let_def)
    obtain s1 s2 s3 r where q: "q = s1 # s2 # s3 # r"
      using assms(2) enc by (cases q rule: utf8_decode.cases) auto
    have "utf8_decode (char_of k # s1 # s2 # s3 # r) = Inr (1, cp, 0)"
    proof (rule decoded_as [OF uchar_byte uchar_nat uchar_nat uchar_nat])
      show "utf8_len (char_of k) = 1" using 1 utf8_lengths_nth(1) [of "k div 8"] by (simp add: utf8_len_byte)
      show "utf8_mins ! 1 \<le> cp" unfolding mins by (simp add: utf8_mins_def)
      have "of_char s1 mod 64 * 2 ^ 12 + of_char s2 mod 64 * 2 ^ 6 + of_char s3 mod 64 < (2 :: nat) ^ 18"
        using mod_less_divisor [of 64 "of_char s1 :: nat"] mod_less_divisor [of 64 "of_char s2 :: nat"]
          mod_less_divisor [of 64 "of_char s3 :: nat"] by simp
      from div_pack [OF this, of k] 1
      show "(k mod 2 ^ 7 * 2 ^ 18 + of_char s1 mod 64 * 2 ^ 12 + of_char s2 mod 64 * 2 ^ 6 + of_char s3 mod 64) div
          2 ^ (utf8_shiftc ! 1) = unat cp"
        by (simp add: utf8_shiftc_def k_def add.assoc)
    qed (use 1 assms(1) utf8_masks_nth in simp_all)
    then show ?thesis by (simp add: enc q del: utf8_decode.simps)
  next
    case 2
    then have enc: "utf8_encode cp = [char_of (192 + k div 64), char_of (128 + k mod 64)]"
      by (simp add: utf8_encode_def k_def Let_def)
    obtain s2 s3 r where q: "q = s2 # s3 # r"
      using assms(2) enc by (cases q rule: utf8_decode.cases) auto
    have "k div 64 < 32" using 2 by linarith
    then have b: "192 + k div 64 < 256" "(192 + k div 64) mod 2 ^ 5 = k div 64"
      by (linarith, rule lead_bytes)
    note b = b cont_bytes
    have "utf8_decode (char_of (192 + k div 64) # char_of (128 + k mod 64) # s2 # s3 # r) = Inr (2, cp, 0)"
    proof (rule decoded_as [OF uchar_byte uchar_byte uchar_nat uchar_nat])
      have "24 \<le> (192 + k div 64) div 8" "(192 + k div 64) div 8 < 28" using 2 by linarith+
      then show "utf8_len (char_of (192 + k div 64)) = 2" by (simp only: utf8_len_byte b(1) utf8_lengths_nth)
      show "utf8_mins ! 2 \<le> cp" unfolding mins using 2 by (simp add: utf8_mins_def)
      have "of_char s2 mod 64 * 2 ^ 6 + of_char s3 mod 64 < (2 :: nat) ^ 12"
        using mod_less_divisor [of 64 "of_char s2 :: nat"] mod_less_divisor [of 64 "of_char s3 :: nat"] by simp
      from div_pack [OF this, of k]
      show "((192 + k div 64) mod 2 ^ 5 * 2 ^ 18 + (128 + k mod 64) mod 64 * 2 ^ 12 + of_char s2 mod 64 * 2 ^ 6
          + of_char s3 mod 64) div 2 ^ (utf8_shiftc ! 2) = unat cp"
        unfolding b split_6 by (simp add: utf8_shiftc_def k_def add.assoc)
    qed (use b assms(1) utf8_masks_nth continuation_bits in simp_all)
    then show ?thesis by (simp add: enc q del: utf8_decode.simps)
  next
    case 3
    then have enc: "utf8_encode cp = [char_of (224 + k div 4096), char_of (128 + k div 64 mod 64), char_of (128 + k mod 64)]"
      by (simp add: utf8_encode_def k_def Let_def)
    obtain s3 r where q: "q = s3 # r"
      using assms(2) enc by (cases q rule: utf8_decode.cases) auto
    have "k div 4096 < 16" using 3 by linarith
    then have b: "224 + k div 4096 < 256" "(224 + k div 4096) mod 2 ^ 4 = k div 4096"
      by (linarith, rule lead_bytes)
    note b = b cont_bytes
    have "utf8_decode (char_of (224 + k div 4096) # char_of (128 + k div 64 mod 64) # char_of (128 + k mod 64) # s3 # r)
        = Inr (3, cp, 0)"
    proof (rule decoded_as [OF uchar_byte uchar_byte uchar_byte uchar_nat])
      have "28 \<le> (224 + k div 4096) div 8" "(224 + k div 4096) div 8 < 30" using 3 by linarith+
      then show "utf8_len (char_of (224 + k div 4096)) = 3" by (simp only: utf8_len_byte b(1) utf8_lengths_nth)
      show "utf8_mins ! 3 \<le> cp" unfolding mins using 3 by (simp add: utf8_mins_def)
      have r: "of_char s3 mod 64 < (2 :: nat) ^ 6" by simp
      from div_pack [OF r, of k]
      show "((224 + k div 4096) mod 2 ^ 4 * 2 ^ 18 + (128 + k div 64 mod 64) mod 64 * 2 ^ 12
          + (128 + k mod 64) mod 64 * 2 ^ 6 + of_char s3 mod 64) div 2 ^ (utf8_shiftc ! 3) = unat cp"
        unfolding b split_12 by (simp add: utf8_shiftc_def k_def)
    qed (use b assms(1) utf8_masks_nth continuation_bits in simp_all)
    then show ?thesis by (simp add: enc q del: utf8_decode.simps)
  next
    case 4
    then have enc: "utf8_encode cp = [char_of (240 + k div 262144), char_of (128 + k div 4096 mod 64),
        char_of (128 + k div 64 mod 64), char_of (128 + k mod 64)]"
      by (simp add: utf8_encode_def k_def Let_def)
    have "k div 262144 < 8" using k by linarith
    then have b: "240 + k div 262144 < 256" "(240 + k div 262144) mod 2 ^ 3 = k div 262144"
      by (linarith, rule lead_bytes)
    note b = b cont_bytes
    have "utf8_decode (char_of (240 + k div 262144) # char_of (128 + k div 4096 mod 64) # char_of (128 + k div 64 mod 64)
        # char_of (128 + k mod 64) # q) = Inr (4, cp, 0)"
    proof (rule decoded_as [OF uchar_byte uchar_byte uchar_byte uchar_byte])
      have "(240 + k div 262144) div 8 = 30" using k by linarith
      then show "utf8_len (char_of (240 + k div 262144)) = 4" by (simp only: utf8_len_byte b(1) utf8_lengths_nth)
      show "utf8_mins ! 4 \<le> cp" unfolding mins using 4 by (simp add: utf8_mins_def)
      show "((240 + k div 262144) mod 2 ^ 3 * 2 ^ 18 + (128 + k div 4096 mod 64) mod 64 * 2 ^ 12
          + (128 + k div 64 mod 64) mod 64 * 2 ^ 6 + (128 + k mod 64) mod 64) div 2 ^ (utf8_shiftc ! 4) = unat cp"
        unfolding b split_18 by (simp add: utf8_shiftc_def k_def)
    qed (use b assms(1) utf8_masks_nth continuation_bits in simp_all)
    then show ?thesis by (simp add: enc del: utf8_decode.simps)
  qed
qed

lemma utf8_encode_nonempty [simp]: "utf8_encode cp \<noteq> []"
  by (simp add: utf8_encode_def Let_def)

lemma code_points_encode:
  assumes "scalar_value cp"
  shows "code_points (utf8_encode cp @ p) off =
    (cp, off, length (utf8_encode cp)) # code_points p (off + length (utf8_encode cp))"
proof -
  have "1 \<le> length (utf8_encode cp)" by (cases "utf8_encode cp") simp_all
  then have "utf8_decode (utf8_encode cp @ p @ replicate 3 (CHR 0x00)) = Inr (length (utf8_encode cp), cp, 0)"
    by (intro utf8_decode_encode [OF assms]) simp
  then show ?thesis by (subst code_points.simps) simp
qed

text \<open>The characters of a string, as the loop gives them to a callback that collects them.\<close>

definition collect :: "u32 list visitor" where
  "collect cp off n acc = (True, acc @ [cp])"

lemma visit_collect:
  "list_all scalar_value cps \<Longrightarrow> visit collect (code_points (concat (map utf8_encode cps)) off) acc = acc @ cps"
proof (induction cps arbitrary: off acc)
  case (Cons cp cps)
  then show ?case by (simp add: code_points_encode collect_def)
qed (simp add: code_points.simps)

section \<open>Properties\<close>



text \<open>
  On every string of bytes, valid or not, the loop over its code points ends without a
  read outside the string or the buffer of its last characters, although the decoder always
  reads four bytes; it gives the callback places of one to four bytes that follow each other
  without a gap from the start of the string to its end.
\<close>

theorem codepoints_in_bounds:
  "for_each_codepoint s f st = Inr (visit f (code_points s 0) st) \<and> tiles 0 (code_points s 0) (length s)"
  using for_each_codepoint_visits [of s f st] code_points_tile [of 0 s] by simp

end
