(* ===== verification/Fmt_Specs.thy ===== *)
theory Fmt_Specs
  imports Fmt_Utf8 Fmt_Int
begin

text \<open>
  Format specifications in \<^verbatim>\<open>fmt\<close> (\<^verbatim>\<open>spdlog/fmt/bundled/core.h\<close>): the types of arguments and their sets,
  the counter of arguments, numbers, references to arguments, and \<^verbatim>\<open>parse_format_specs\<close>, whose states
  only go forward. A range of the format string is what is left of it from its start.
\<close>

section \<open>Errors\<close>

definition throw_format_error :: "string \<Rightarrow> 'a run" where
  "throw_format_error msg = Inl (Uncaught (Format_error msg))"

text \<open>Reading the character at a pointer, and advancing it.\<close>

fun char_at :: "string \<Rightarrow> char run" where
  "char_at [] = Inl Out_of_bounds"
| "char_at (c # s) = Inr c"

fun advance :: "string \<Rightarrow> string run" where
  "advance [] = Inl Out_of_bounds"
| "advance (c # s) = Inr s"

section \<open>Types of arguments\<close>

datatype fmt_type =
    None_type
  | Int_type | Uint_type | Long_long_type | Ulong_long_type | Int128_type | Uint128_type | Bool_type | Char_type
  | Float_type | Double_type | Long_double_type
  | Cstring_type | String_type | Pointer_type | Custom_type

fun type_code :: "fmt_type \<Rightarrow> nat" where
  "type_code None_type = 0"
| "type_code Int_type = 1"
| "type_code Uint_type = 2"
| "type_code Long_long_type = 3"
| "type_code Ulong_long_type = 4"
| "type_code Int128_type = 5"
| "type_code Uint128_type = 6"
| "type_code Bool_type = 7"
| "type_code Char_type = 8"
| "type_code Float_type = 9"
| "type_code Double_type = 10"
| "type_code Long_double_type = 11"
| "type_code Cstring_type = 12"
| "type_code String_type = 13"
| "type_code Pointer_type = 14"
| "type_code Custom_type = 15"

definition is_arithmetic_type :: "fmt_type \<Rightarrow> bool" where
  "is_arithmetic_type t \<longleftrightarrow> type_code t > type_code None_type \<and> type_code t \<le> type_code Long_double_type"

definition type_bit :: "fmt_type \<Rightarrow> nat" where
  "type_bit t = 2 ^ type_code t"

definition in_types :: "fmt_type \<Rightarrow> nat \<Rightarrow> bool" where
  "in_types t types \<longleftrightarrow> (drop_bit (type_code t) types) AND 1 \<noteq> 0"

definition sint_set :: nat where
  "sint_set = type_bit Int_type OR type_bit Long_long_type OR type_bit Int128_type"

definition uint_set :: nat where
  "uint_set = type_bit Uint_type OR type_bit Ulong_long_type OR type_bit Uint128_type"

definition bool_set :: nat where "bool_set = type_bit Bool_type"

definition char_set :: nat where "char_set = type_bit Char_type"

definition float_set :: nat where
  "float_set = type_bit Float_type OR type_bit Double_type OR type_bit Long_double_type"

definition string_set :: nat where "string_set = type_bit String_type"

definition cstring_set :: nat where "cstring_set = type_bit Cstring_type"

definition pointer_set :: nat where "pointer_set = type_bit Pointer_type"

definition integral_set :: nat where
  "integral_set = sint_set OR uint_set OR bool_set OR char_set"

section \<open>The parse context\<close>

text \<open>
  What the context counts is the next automatic index, or \<^verbatim>\<open>-1\<close> in a string that numbers its arguments.
  Identifiers are checked against the number of arguments at compile time only.
\<close>

definition next_arg_id :: "int \<Rightarrow> (int \<times> int) run" where
  "next_arg_id ctx =
     (if ctx < 0 then throw_format_error ''cannot switch from manual to automatic argument indexing''
      else Inr (ctx, ctx + 1))"

definition check_arg_id :: "int \<Rightarrow> int run" where
  "check_arg_id ctx =
     (if ctx > 0 then throw_format_error ''cannot switch from automatic to manual argument indexing''
      else Inr (- 1))"

section \<open>Specifications\<close>

datatype align_t = Align_none | Align_left | Align_right | Align_center | Align_numeric

datatype sign_t = Sign_none | Sign_minus | Sign_plus | Sign_space

datatype presentation_type =
    Pres_none | Pres_dec | Pres_oct | Pres_hex_lower | Pres_hex_upper | Pres_bin_lower | Pres_bin_upper
  | Pres_hexfloat_lower | Pres_hexfloat_upper | Pres_exp_lower | Pres_exp_upper | Pres_fixed_lower | Pres_fixed_upper
  | Pres_general_lower | Pres_general_upper | Pres_chr | Pres_string | Pres_pointer | Pres_debug

datatype arg_ref = Ref_none | Ref_index int | Ref_name string

text \<open>The fill is one character of up to four bytes; assigning its first byte keeps its length.\<close>

record format_specs =
  fs_width :: int
  fs_precision :: int
  fs_type :: presentation_type
  fs_align :: align_t
  fs_sign :: sign_t
  fs_alt :: bool
  fs_localized :: bool
  fs_fill :: string
  fs_width_ref :: arg_ref
  fs_precision_ref :: arg_ref

definition format_specs_new :: format_specs where
  "format_specs_new =
     \<lparr>fs_width = 0, fs_precision = - 1, fs_type = Pres_none, fs_align = Align_none, fs_sign = Sign_none, fs_alt = False,
      fs_localized = False, fs_fill = '' '', fs_width_ref = Ref_none, fs_precision_ref = Ref_none\<rparr>"

definition fill_assign :: "string \<Rightarrow> string run" where
  "fill_assign s = guard_run Out_of_bounds (length s \<le> 4) (Inr s)"

definition code_point_length :: "string \<Rightarrow> nat run" where
  "code_point_length s =
     bind_run (char_at s) (\<lambda>c.
       Inr (unat (drop_bit (unat (2 * drop_bit 3 (uchar c))) (0x3a55000000000000 :: u64) AND 3) + 1))"

section \<open>Numbers and references to arguments\<close>

definition is_dec :: "char \<Rightarrow> bool" where
  "is_dec c \<longleftrightarrow> uchar CHR ''0'' \<le> uchar c \<and> uchar c \<le> uchar CHR ''9''"

text \<open>The loop keeps the number before the last digit, the number, the last digit and how many there are.\<close>

fun number_loop :: "string \<Rightarrow> u32 \<Rightarrow> u32 \<Rightarrow> char \<Rightarrow> nat \<Rightarrow> string \<times> u32 \<times> u32 \<times> char \<times> nat" where
  "number_loop (c # s) prev number d n =
     (if is_dec c then number_loop s number (number * 10 + (uchar c - uchar CHR ''0'')) c (n + 1)
      else (c # s, prev, number, d, n))"
| "number_loop [] prev number d n = ([], prev, number, d, n)"

fun parse_nonnegative_int :: "string \<Rightarrow> int \<Rightarrow> (int \<times> string) run" where
  "parse_nonnegative_int [] error_value = Inl Out_of_bounds"
| "parse_nonnegative_int (c # s) error_value =
     (case number_loop s 0 (uchar c - uchar CHR ''0'') c 1 of
        (rest, prev, number, d, n) \<Rightarrow>
          Inr (if n \<le> 9 then sint number
               else if n = 10 \<and> ucast prev * 10 + ucast (uchar d - uchar CHR ''0'') \<le> (0x7fffffff :: u64) then sint number
               else error_value, rest))"

fun parse_align :: "char \<Rightarrow> align_t" where
  "parse_align c =
     (if c = CHR ''<'' then Align_left
      else if c = CHR ''>'' then Align_right
      else if c = CHR ''^'' then Align_center
      else Align_none)"

definition is_name_start :: "char \<Rightarrow> bool" where
  "is_name_start c \<longleftrightarrow>
     (uchar CHR ''a'' \<le> uchar c \<and> uchar c \<le> uchar CHR ''z'') \<or>
     (uchar CHR ''A'' \<le> uchar c \<and> uchar c \<le> uchar CHR ''Z'') \<or> c = CHR ''_''"

text \<open>What an argument is named by: nothing, an index or a name; the handlers are called with it.\<close>

datatype arg_id = Id_auto | Id_index int | Id_name string

definition do_parse_arg_id :: "string \<Rightarrow> (arg_id \<times> string) run" where
  "do_parse_arg_id s =
     bind_run (char_at s) (\<lambda>c.
       if is_dec c then
         bind_run (if c \<noteq> CHR ''0'' then parse_nonnegative_int s 2147483647
                   else bind_run (advance s) (\<lambda>s'. Inr (0, s'))) (\<lambda>(index, rest).
         if rest = [] \<or> (hd rest \<noteq> CHR ''}'' \<and> hd rest \<noteq> CHR '':'') then throw_format_error ''invalid format string''
         else Inr (Id_index index, rest))
       else if \<not> is_name_start c then throw_format_error ''invalid format string''
       else bind_run (advance s) (\<lambda>s'.
              let more = (\<lambda>c. is_name_start c \<or> is_dec c)
              in Inr (Id_name (c # takeWhile more s'), dropWhile more s')))"

definition parse_arg_id :: "string \<Rightarrow> (arg_id \<times> string) run" where
  "parse_arg_id s =
     bind_run (char_at s) (\<lambda>c.
       if c \<noteq> CHR ''}'' \<and> c \<noteq> CHR '':'' then do_parse_arg_id s else Inr (Id_auto, s))"

text \<open>The handler of a width or a precision that is an argument: the reference and the context.\<close>

fun dynamic_spec_id_handler :: "arg_id \<Rightarrow> int \<Rightarrow> (arg_ref \<times> int) run" where
  "dynamic_spec_id_handler Id_auto ctx = bind_run (next_arg_id ctx) (\<lambda>(i, ctx'). Inr (Ref_index i, ctx'))"
| "dynamic_spec_id_handler (Id_index i) ctx = bind_run (check_arg_id ctx) (\<lambda>ctx'. Inr (Ref_index i, ctx'))"
| "dynamic_spec_id_handler (Id_name s) ctx = Inr (Ref_name s, ctx)"

definition parse_dynamic_spec :: "string \<Rightarrow> int \<Rightarrow> arg_ref \<Rightarrow> int \<Rightarrow> (string \<times> int \<times> arg_ref \<times> int) run" where
  "parse_dynamic_spec s number ref ctx =
     bind_run (char_at s) (\<lambda>c.
       if is_dec c then
         bind_run (parse_nonnegative_int s (- 1)) (\<lambda>(val, rest).
           if val \<noteq> - 1 then Inr (rest, val, ref, ctx) else throw_format_error ''number is too big'')
       else if c = CHR ''{'' then
         bind_run (advance s) (\<lambda>s1.
         bind_run (if s1 \<noteq> [] then
                     bind_run (parse_arg_id s1) (\<lambda>(aid, s2).
                     bind_run (dynamic_spec_id_handler aid ctx) (\<lambda>(ref', ctx'). Inr (s2, ref', ctx')))
                   else Inr (s1, ref, ctx)) (\<lambda>(s2, ref', ctx').
         if s2 \<noteq> [] \<and> hd s2 = CHR ''}'' then Inr (tl s2, number, ref', ctx')
         else throw_format_error ''invalid format string''))
       else Inr (s, number, ref, ctx))"

definition parse_precision :: "string \<Rightarrow> int \<Rightarrow> arg_ref \<Rightarrow> int \<Rightarrow> (string \<times> int \<times> arg_ref \<times> int) run" where
  "parse_precision s number ref ctx =
     bind_run (advance s) (\<lambda>s1.
       if s1 = [] \<or> hd s1 = CHR ''}'' then throw_format_error ''invalid precision''
       else parse_dynamic_spec s1 number ref ctx)"

section \<open>parse\_format\_specs\<close>

datatype spec_state =
    State_start | State_align | State_sign | State_hash | State_zero | State_width | State_precision | State_locale

fun state_code :: "spec_state \<Rightarrow> nat" where
  "state_code State_start = 0"
| "state_code State_align = 1"
| "state_code State_sign = 2"
| "state_code State_hash = 3"
| "state_code State_zero = 4"
| "state_code State_width = 5"
| "state_code State_precision = 6"
| "state_code State_locale = 7"

definition enter_state :: "spec_state \<Rightarrow> spec_state \<Rightarrow> bool \<Rightarrow> spec_state run" where
  "enter_state current s valid =
     (if state_code current \<ge> state_code s \<or> \<not> valid then throw_format_error ''invalid format specifier'' else Inr s)"

text \<open>One round of the loop returns (no state) or goes on in a state.\<close>

type_synonym spec_round = "spec_state option \<times> string \<times> format_specs \<times> int"

definition parse_presentation_type ::
    "string \<Rightarrow> format_specs \<Rightarrow> int \<Rightarrow> fmt_type \<Rightarrow> presentation_type \<Rightarrow> nat \<Rightarrow> spec_round run" where
  "parse_presentation_type s specs ctx arg_type pres types =
     (if \<not> in_types arg_type types then
        (if arg_type = None_type then Inr (None, s, specs, ctx) else throw_format_error ''invalid format specifier'')
      else bind_run (advance s) (\<lambda>s'. Inr (None, s', specs\<lparr>fs_type := pres\<rparr>, ctx)))"

text \<open>The letters that end a specification, with the types of arguments they are for.\<close>

definition presentations :: "(char \<times> presentation_type \<times> nat) list" where
  "presentations =
     [(CHR ''d'', Pres_dec, integral_set), (CHR ''o'', Pres_oct, integral_set),
      (CHR ''x'', Pres_hex_lower, integral_set), (CHR ''X'', Pres_hex_upper, integral_set),
      (CHR ''b'', Pres_bin_lower, integral_set), (CHR ''B'', Pres_bin_upper, integral_set),
      (CHR ''a'', Pres_hexfloat_lower, float_set), (CHR ''A'', Pres_hexfloat_upper, float_set),
      (CHR ''e'', Pres_exp_lower, float_set), (CHR ''E'', Pres_exp_upper, float_set),
      (CHR ''f'', Pres_fixed_lower, float_set), (CHR ''F'', Pres_fixed_upper, float_set),
      (CHR ''g'', Pres_general_lower, float_set), (CHR ''G'', Pres_general_upper, float_set),
      (CHR ''c'', Pres_chr, integral_set),
      (CHR ''s'', Pres_string, bool_set OR string_set OR cstring_set),
      (CHR ''p'', Pres_pointer, pointer_set OR cstring_set),
      (CHR ''?'', Pres_debug, char_set OR string_set OR cstring_set)]"

text \<open>Fill and alignment: the first character is the fill, whatever its length, the next one the alignment.\<close>

definition parse_fill :: "string \<Rightarrow> spec_state \<Rightarrow> format_specs \<Rightarrow> int \<Rightarrow> spec_round run" where
  "parse_fill s st specs ctx =
     bind_run (char_at s) (\<lambda>c.
       if c = CHR ''}'' then Inr (None, s, specs, ctx)
       else bind_run (code_point_length s) (\<lambda>n.
            if length s \<le> n then throw_format_error ''invalid format specifier''
            else if c = CHR ''{'' then throw_format_error (''invalid fill character '' @ [CHR 0x27, CHR ''{'', CHR 0x27])
            else bind_run (char_at (drop n s)) (\<lambda>a.
                 let align = parse_align a in
                 bind_run (enter_state st State_align (align \<noteq> Align_none)) (\<lambda>st'.
                 bind_run (fill_assign (take n s)) (\<lambda>fill.
                 bind_run (advance (drop n s)) (\<lambda>s'.
                 Inr (Some st', s', specs\<lparr>fs_fill := fill, fs_align := align\<rparr>, ctx)))))))"

text \<open>The cases of the \<^verbatim>\<open>switch\<close> over the character.\<close>

definition spec_align :: "char \<Rightarrow> string \<Rightarrow> spec_state \<Rightarrow> format_specs \<Rightarrow> int \<Rightarrow> spec_round run" where
  "spec_align c s st specs ctx =
     bind_run (enter_state st State_align True) (\<lambda>st'.
     bind_run (advance s) (\<lambda>s'. Inr (Some st', s', specs\<lparr>fs_align := parse_align c\<rparr>, ctx)))"

definition spec_sign :: "char \<Rightarrow> string \<Rightarrow> spec_state \<Rightarrow> format_specs \<Rightarrow> int \<Rightarrow> fmt_type \<Rightarrow> spec_round run" where
  "spec_sign c s st specs ctx arg_type =
     (if arg_type = None_type then Inr (None, s, specs, ctx)
      else bind_run (enter_state st State_sign (in_types arg_type (sint_set OR float_set))) (\<lambda>st'.
           bind_run (advance s) (\<lambda>s'.
           Inr (Some st', s', specs\<lparr>fs_sign := (if c = CHR ''+'' then Sign_plus else if c = CHR ''-'' then Sign_minus
                                                else Sign_space)\<rparr>, ctx))))"

definition spec_hash :: "string \<Rightarrow> spec_state \<Rightarrow> format_specs \<Rightarrow> int \<Rightarrow> fmt_type \<Rightarrow> spec_round run" where
  "spec_hash s st specs ctx arg_type =
     (if arg_type = None_type then Inr (None, s, specs, ctx)
      else bind_run (enter_state st State_hash (is_arithmetic_type arg_type)) (\<lambda>st'.
           bind_run (advance s) (\<lambda>s'. Inr (Some st', s', specs\<lparr>fs_alt := True\<rparr>, ctx))))"

definition spec_zero :: "string \<Rightarrow> spec_state \<Rightarrow> format_specs \<Rightarrow> int \<Rightarrow> fmt_type \<Rightarrow> spec_round run" where
  "spec_zero s st specs ctx arg_type =
     bind_run (enter_state st State_zero True) (\<lambda>st'.
       if \<not> is_arithmetic_type arg_type then
         (if arg_type = None_type then Inr (None, s, specs, ctx)
          else throw_format_error ''format specifier requires numeric argument'')
       else bind_run (advance s) (\<lambda>s'.
            Inr (Some st', s',
                 if fs_align specs = Align_none
                 then specs\<lparr>fs_align := Align_numeric, fs_fill := (fs_fill specs)[0 := CHR ''0'']\<rparr> else specs, ctx)))"

definition spec_width :: "string \<Rightarrow> spec_state \<Rightarrow> format_specs \<Rightarrow> int \<Rightarrow> spec_round run" where
  "spec_width s st specs ctx =
     bind_run (enter_state st State_width True) (\<lambda>st'.
     bind_run (parse_dynamic_spec s (fs_width specs) (fs_width_ref specs) ctx) (\<lambda>(s', w, ref, ctx').
     Inr (Some st', s', specs\<lparr>fs_width := w, fs_width_ref := ref\<rparr>, ctx')))"

definition spec_precision :: "string \<Rightarrow> spec_state \<Rightarrow> format_specs \<Rightarrow> int \<Rightarrow> fmt_type \<Rightarrow> spec_round run" where
  "spec_precision s st specs ctx arg_type =
     (if arg_type = None_type then Inr (None, s, specs, ctx)
      else bind_run (enter_state st State_precision (in_types arg_type (float_set OR string_set OR cstring_set))) (\<lambda>st'.
           bind_run (parse_precision s (fs_precision specs) (fs_precision_ref specs) ctx) (\<lambda>(s', p, ref, ctx').
           Inr (Some st', s', specs\<lparr>fs_precision := p, fs_precision_ref := ref\<rparr>, ctx'))))"

definition spec_locale :: "string \<Rightarrow> spec_state \<Rightarrow> format_specs \<Rightarrow> int \<Rightarrow> fmt_type \<Rightarrow> spec_round run" where
  "spec_locale s st specs ctx arg_type =
     (if arg_type = None_type then Inr (None, s, specs, ctx)
      else bind_run (enter_state st State_locale (is_arithmetic_type arg_type)) (\<lambda>st'.
           bind_run (advance s) (\<lambda>s'. Inr (Some st', s', specs\<lparr>fs_localized := True\<rparr>, ctx))))"

definition specs_round :: "char \<Rightarrow> string \<Rightarrow> spec_state \<Rightarrow> format_specs \<Rightarrow> int \<Rightarrow> fmt_type \<Rightarrow> spec_round run" where
  "specs_round c s st specs ctx arg_type =
     (if c = CHR ''<'' \<or> c = CHR ''>'' \<or> c = CHR ''^'' then spec_align c s st specs ctx
      else if c = CHR ''+'' \<or> c = CHR ''-'' \<or> c = CHR '' '' then spec_sign c s st specs ctx arg_type
      else if c = CHR ''#'' then spec_hash s st specs ctx arg_type
      else if c = CHR ''0'' then spec_zero s st specs ctx arg_type
      else if is_dec c \<or> c = CHR ''{'' then spec_width s st specs ctx
      else if c = CHR ''.'' then spec_precision s st specs ctx arg_type
      else if c = CHR ''L'' then spec_locale s st specs ctx arg_type
      else if c = CHR ''c'' \<and> arg_type = Bool_type then throw_format_error ''invalid format specifier''
      else (case map_of presentations c of
              Some (pres, types) \<Rightarrow> parse_presentation_type s specs ctx arg_type pres types
            | None \<Rightarrow> if c = CHR ''}'' then Inr (None, s, specs, ctx) else parse_fill s st specs ctx))"

text \<open>The state goes forward in every round that goes on, so there are seven of them at most.\<close>

lemma enter_state_Inr: "enter_state current s valid = Inr s' \<longleftrightarrow> s' = s \<and> valid \<and> state_code current < state_code s"
  by (auto simp: enter_state_def throw_format_error_def)

lemma throw_format_error_not_Inr [simp]: "throw_format_error m \<noteq> Inr x"
  by (simp add: throw_format_error_def)

lemma specs_round_forward:
  assumes "specs_round c s st specs ctx arg_type = Inr (Some st', s', specs', ctx')"
  shows "state_code st < state_code st'"
proof -
  have "spec_align c s st specs ctx = Inr (Some st', s', specs', ctx') \<Longrightarrow> ?thesis"
    and "spec_sign c s st specs ctx arg_type = Inr (Some st', s', specs', ctx') \<Longrightarrow> ?thesis"
    and "spec_hash s st specs ctx arg_type = Inr (Some st', s', specs', ctx') \<Longrightarrow> ?thesis"
    and "spec_zero s st specs ctx arg_type = Inr (Some st', s', specs', ctx') \<Longrightarrow> ?thesis"
    and "spec_width s st specs ctx = Inr (Some st', s', specs', ctx') \<Longrightarrow> ?thesis"
    and "spec_precision s st specs ctx arg_type = Inr (Some st', s', specs', ctx') \<Longrightarrow> ?thesis"
    and "spec_locale s st specs ctx arg_type = Inr (Some st', s', specs', ctx') \<Longrightarrow> ?thesis"
    and "parse_fill s st specs ctx = Inr (Some st', s', specs', ctx') \<Longrightarrow> ?thesis"
    and "parse_presentation_type s specs ctx arg_type pres types = Inr (Some st', s', specs', ctx') \<Longrightarrow> ?thesis"
    for pres types
    by (auto simp: spec_align_def spec_sign_def spec_hash_def spec_zero_def spec_width_def spec_precision_def
        spec_locale_def parse_fill_def parse_presentation_type_def bind_run_Inr_conv enter_state_Inr Let_def split: if_splits)
  with assms show ?thesis
    unfolding specs_round_def by (auto split: if_splits option.splits)
qed

lemma state_code_le: "state_code st \<le> 7"
  by (cases st) simp_all

function specs_loop :: "char \<Rightarrow> string \<Rightarrow> spec_state \<Rightarrow> format_specs \<Rightarrow> int \<Rightarrow> fmt_type \<Rightarrow> (string \<times> format_specs \<times> int) run" where
  "specs_loop c s st specs ctx arg_type =
     (case specs_round c s st specs ctx arg_type of
        Inl e \<Rightarrow> Inl e
      | Inr (None, s', specs', ctx') \<Rightarrow> Inr (s', specs', ctx')
      | Inr (Some st', s', specs', ctx') \<Rightarrow>
          (case s' of
             [] \<Rightarrow> Inr (s', specs', ctx')
           | c' # _ \<Rightarrow> specs_loop c' s' st' specs' ctx' arg_type))"
  by pat_completeness auto
termination
proof (relation "measure (\<lambda>(c, s, st, specs, ctx, arg_type). 7 - state_code st)", goal_cases)
  case (2 c s st specs ctx arg_type r o1 r1 st' s' r2 specs' ctx' c' t)
  then have "state_code st < state_code st'" using specs_round_forward by blast
  then show ?case using state_code_le [of st'] by simp
qed simp

declare specs_loop.simps [simp del]

definition parse_format_specs :: "string \<Rightarrow> format_specs \<Rightarrow> int \<Rightarrow> fmt_type \<Rightarrow> (string \<times> format_specs \<times> int) run" where
  "parse_format_specs s specs ctx arg_type =
     (case s of
        [] \<Rightarrow> Inr (s, specs, ctx)
      | c # rest \<Rightarrow>
          let c' = (case rest of
                      [] \<Rightarrow> c
                    | next # _ \<Rightarrow> if parse_align next = Align_none then c else CHR 0x00)
          in specs_loop c' s State_start specs ctx arg_type)"

text \<open>What is left of the string after each parser is no longer than it.\<close>

named_theorems left_over \<open>the rest of a string after parsing\<close>

lemma advance_Inr [left_over]: "advance s = Inr s' \<longleftrightarrow> (\<exists>c. s = c # s')"
  by (cases s) auto

lemma char_at_Inr [left_over]: "char_at s = Inr c \<longleftrightarrow> (\<exists>s'. s = c # s')"
  by (cases s) auto

lemma number_loop_le: "number_loop s prev v d n = (s', r) \<Longrightarrow> length s' \<le> length s"
  by (induction s prev v d n rule: number_loop.induct) (auto split: if_splits)

lemma parse_nonnegative_int_less: "parse_nonnegative_int s e = Inr (v, s') \<Longrightarrow> length s' < length s"
  by (cases s) (auto split: prod.splits dest: number_loop_le)

lemma dropWhile_le: "length (dropWhile p s) \<le> length s"
  by (induction s) auto

lemma do_parse_arg_id_less:
  assumes "do_parse_arg_id s = Inr (i, s')"
  shows "length s' < length s"
  using assms dropWhile_le [of "\<lambda>c. is_name_start c \<or> is_dec c" "tl s"]
  by (auto simp: do_parse_arg_id_def bind_run_Inr_conv left_over Let_def split: if_splits dest: parse_nonnegative_int_less)

lemma parse_arg_id_le: "parse_arg_id s = Inr (i, s') \<Longrightarrow> length s' \<le> length s"
  by (auto simp: parse_arg_id_def bind_run_Inr_conv left_over split: if_splits dest: do_parse_arg_id_less)

lemma parse_dynamic_spec_le:
  assumes "parse_dynamic_spec s v ref ctx = Inr (s', r)"
  shows "length s' \<le> length s"
  using assms
  by (auto simp: parse_dynamic_spec_def bind_run_Inr_conv left_over split: if_splits dest!: parse_nonnegative_int_less parse_arg_id_le)

lemma parse_precision_le:
  assumes "parse_precision s v ref ctx = Inr (s', r)"
  shows "length s' \<le> length s"
  using assms
  by (auto simp: parse_precision_def bind_run_Inr_conv left_over split: if_splits dest!: parse_dynamic_spec_le)

lemma drop_is_Cons: "drop n s = c # s' \<Longrightarrow> length s' \<le> length s"
  by (drule arg_cong [where f = length]) simp

lemma specs_round_le:
  assumes "specs_round c s st specs ctx arg_type = Inr (st', s', r)"
  shows "length s' \<le> length s"
proof -
  have "spec_align c s st specs ctx = Inr (st', s', r) \<Longrightarrow> ?thesis"
    and "spec_sign c s st specs ctx arg_type = Inr (st', s', r) \<Longrightarrow> ?thesis"
    and "spec_hash s st specs ctx arg_type = Inr (st', s', r) \<Longrightarrow> ?thesis"
    and "spec_zero s st specs ctx arg_type = Inr (st', s', r) \<Longrightarrow> ?thesis"
    and "spec_width s st specs ctx = Inr (st', s', r) \<Longrightarrow> ?thesis"
    and "spec_precision s st specs ctx arg_type = Inr (st', s', r) \<Longrightarrow> ?thesis"
    and "spec_locale s st specs ctx arg_type = Inr (st', s', r) \<Longrightarrow> ?thesis"
    and "parse_presentation_type s specs ctx arg_type pres types = Inr (st', s', r) \<Longrightarrow> ?thesis"
    for pres types
    by (auto simp: spec_align_def spec_sign_def spec_hash_def spec_zero_def spec_width_def spec_precision_def
        spec_locale_def parse_presentation_type_def bind_run_Inr_conv left_over
        split: if_splits dest!: parse_dynamic_spec_le parse_precision_le)
  moreover have "parse_fill s st specs ctx = Inr (st', s', r) \<Longrightarrow> ?thesis"
    by (auto simp: parse_fill_def bind_run_Inr_conv advance_Inr Let_def split: if_splits dest: drop_is_Cons)
  ultimately show ?thesis
    using assms unfolding specs_round_def by (auto split: if_splits option.splits)
qed

lemma specs_loop_cases:
  assumes "specs_loop c s st specs ctx arg_type = Inr r"
  obtains s1 specs1 ctx1 st1 where "specs_round c s st specs ctx arg_type = Inr (st1, s1, specs1, ctx1)"
    and "r = (s1, specs1, ctx1) \<or>
      (\<exists>st2 c1 t. st1 = Some st2 \<and> s1 = c1 # t \<and> specs_loop c1 s1 st2 specs1 ctx1 arg_type = Inr r)"
proof -
  obtain st1 s1 specs1 ctx1 where round: "specs_round c s st specs ctx arg_type = Inr (st1, s1, specs1, ctx1)"
    using assms unfolding specs_loop.simps [of c] by (cases "specs_round c s st specs ctx arg_type") auto
  then show ?thesis
    using assms that unfolding specs_loop.simps [of c] by (cases st1; cases s1) auto
qed

lemma specs_loop_le: "specs_loop c s st specs ctx arg_type = Inr (s', r) \<Longrightarrow> length s' \<le> length s"
proof (induction "7 - state_code st" arbitrary: c s st specs ctx rule: less_induct)
  case less
  obtain s1 specs1 ctx1 st1 where round: "specs_round c s st specs ctx arg_type = Inr (st1, s1, specs1, ctx1)"
    and r: "(s', r) = (s1, specs1, ctx1) \<or>
      (\<exists>st2 c1 t. st1 = Some st2 \<and> s1 = c1 # t \<and> specs_loop c1 s1 st2 specs1 ctx1 arg_type = Inr (s', r))"
    using less.prems by (rule specs_loop_cases)
  note le = specs_round_le [OF round]
  from r show ?case
  proof (elim disjE exE conjE)
    fix st2 c1 t
    assume "st1 = Some st2" and "specs_loop c1 s1 st2 specs1 ctx1 arg_type = Inr (s', r)"
    moreover from this have "state_code st < state_code st2" using round specs_round_forward by blast
    then have "7 - state_code st2 < 7 - state_code st" using state_code_le [of st2] by linarith
    ultimately show ?case using less.hyps le le_trans by blast
  qed (use le in simp)
qed

lemma parse_format_specs_le: "parse_format_specs s specs ctx arg_type = Inr (s', r) \<Longrightarrow> length s' \<le> length s"
  by (auto simp: parse_format_specs_def Let_def split: list.splits if_splits dest: specs_loop_le)

section \<open>Numbers\<close>

text \<open>The value of decimal digits, from a value on.\<close>

fun dec_value :: "nat \<Rightarrow> string \<Rightarrow> nat" where
  "dec_value v [] = v"
| "dec_value v (c # s) = dec_value (v * 10 + (of_char c - 48)) s"

lemma is_dec_char: "is_dec c \<longleftrightarrow> 48 \<le> (of_char c :: nat) \<and> (of_char c :: nat) \<le> 57"
  by (simp add: is_dec_def word_le_nat_alt unat_uchar)

lemma dec_value_append: "dec_value v (s @ t) = dec_value (dec_value v s) t"
  by (induction s arbitrary: v) simp_all

lemma dec_value_less: "list_all is_dec s \<Longrightarrow> v < 10 ^ k \<Longrightarrow> dec_value v s < 10 ^ (k + length s)"
proof (induction s arbitrary: v k)
  case (Cons c s)
  then have "of_char c - 48 \<le> (9 :: nat)" "v + 1 \<le> 10 ^ k" by (simp_all add: is_dec_char, linarith)
  then have "v * 10 + (of_char c - 48) < 10 ^ Suc k" unfolding power_Suc by linarith
  from Cons.IH [OF _ this] Cons.prems show ?case by simp
qed simp

text \<open>The digit as the code computes it.\<close>

lemma digit_word: "is_dec c \<Longrightarrow> uchar c - uchar CHR ''0'' = of_nat (of_char c - 48)"
proof -
  assume "is_dec c"
  then have "of_nat (of_char c - 48) = (of_nat (of_char c) - of_nat 48 :: u32)" by (simp only: of_nat_diff is_dec_char)
  then show ?thesis by (simp add: uchar_def del: of_nat_of_char) (simp only: of_nat_of_char)
qed

lemma number_loop_digits:
  assumes "rest = [] \<or> \<not> is_dec (hd rest)"
  shows "list_all is_dec ds \<Longrightarrow> number_loop (ds @ rest) prev (of_nat v) d n =
    (rest, if ds = [] then prev else of_nat (dec_value v (butlast ds)), of_nat (dec_value v ds),
     if ds = [] then d else last ds, n + length ds)"
proof (induction ds arbitrary: prev v d n)
  case Nil
  then show ?case using assms by (cases rest) simp_all
next
  case (Cons c ds)
  have "of_nat v * 10 + (uchar c - uchar CHR ''0'') = of_nat (v * 10 + (of_char c - 48))"
    using Cons.prems by (simp add: digit_word)
  then have "number_loop ((c # ds) @ rest) prev (of_nat v) d n =
      number_loop (ds @ rest) (of_nat v) (of_nat (v * 10 + (of_char c - 48))) c (n + 1)"
    using Cons.prems by (simp del: of_nat_add of_nat_mult)
  also have "\<dots> = (rest, if ds = [] then of_nat v else of_nat (dec_value (v * 10 + (of_char c - 48)) (butlast ds)),
      of_nat (dec_value (v * 10 + (of_char c - 48)) ds), if ds = [] then c else last ds, n + 1 + length ds)"
    using Cons.prems by (intro Cons.IH) simp
  finally show ?case by simp
qed

lemma parse_nonnegative_int_exact:
  assumes ds: "ds \<noteq> []" "list_all is_dec ds" and rest: "rest = [] \<or> \<not> is_dec (hd rest)"
  shows "parse_nonnegative_int (ds @ rest) e =
    Inr (if length ds \<le> 10 \<and> dec_value 0 ds \<le> 2147483647 then int (dec_value 0 ds) else e, rest)"
proof -
  obtain c cs where c: "ds = c # cs" using ds(1) by (cases ds) simp_all
  define V where "V = dec_value 0 ds"
  define P where "P = dec_value 0 (butlast ds)"
  define l where "l = (of_char (last ds) :: nat) - 48"
  have V: "V = P * 10 + l"
    using ds(1) dec_value_append [of 0 "butlast ds" "[last ds]"] by (simp add: V_def P_def l_def)
  have lst: "is_dec (last ds)" using ds by (simp add: list_all_iff)
  have small: "V < 10 ^ length ds" using dec_value_less [of ds 0 0] ds(2) by (simp add: V_def)
  have sint: "V \<le> 2147483647 \<Longrightarrow> sint (of_nat V :: u32) = int V"
    by (simp add: sint_unat_small unat_of_nat)
  have dig: "uchar c - uchar CHR ''0'' = of_nat (of_char c - 48)" using ds c by (simp add: digit_word)
  have loop: "number_loop (cs @ rest) 0 (uchar c - uchar CHR ''0'') c 1 =
      (rest, of_nat (if cs = [] then 0 else P), of_nat V, last ds, length ds)"
    unfolding dig using number_loop_digits [OF rest, of cs 0 "of_char c - 48" c 1] ds c
    by (auto simp: V_def P_def)
  have P0: "cs = [] \<Longrightarrow> P = 0" by (simp add: P_def c)
  define fits where "fits \<longleftrightarrow>
      ucast (of_nat (if cs = [] then 0 else P) :: u32) * 10 + ucast (uchar (last ds) - uchar CHR ''0'') \<le> (0x7fffffff :: u64)"
  have r: "parse_nonnegative_int (ds @ rest) e = Inr (if length ds \<le> 9 then sint (of_nat V :: u32)
      else if length ds = 10 \<and> fits then sint (of_nat V :: u32) else e, rest)"
    using loop by (simp add: c fits_def)
  show ?thesis
  proof (cases "length ds \<le> 9")
    case True
    then have "V < 10 ^ 9" using small less_le_trans power_increasing [of "length ds" 9 "10 :: nat"] by fastforce
    then show ?thesis unfolding r V_def [symmetric] using True sint by simp
  next
    case False
    show ?thesis
    proof (cases "length ds = 10")
      case True
      have VL: "V < 10 ^ 10" using small True by simp
      have P: "P < 10 ^ 9" using VL V by simp
      have ld: "uchar (last ds) - uchar CHR ''0'' = of_nat l" using digit_word [OF lst] by (simp add: l_def)
      have l: "l < 10" using lst unfolding l_def is_dec_char by linarith
      have up: "ucast (of_nat n :: u32) = (of_nat n :: u64)" if "n < 2 ^ 32" for n :: nat
        using that by (simp add: word_unat_eq_iff unsigned_ucast_eq unat_of_nat take_bit_eq_mod)
      have "ucast (of_nat P :: u32) * 10 + ucast (of_nat l :: u32) = (of_nat V :: u64)"
        using P l by (simp add: up V)
      moreover have "unat (of_nat V :: u64) = V" using VL by (simp add: unat_of_nat)
      ultimately have "fits \<longleftrightarrow> V \<le> 2147483647"
        using P0 by (auto simp: fits_def ld word_le_nat_alt)
      then show ?thesis unfolding r V_def [symmetric] using True sint by simp
    next
      case other: False
      then have "\<not> length ds \<le> 10" using False by linarith
      then show ?thesis unfolding r using False other by simp
    qed
  qed
qed

section \<open>Parsing ends in a value or a format error\<close>

text \<open>A run that ends in a value or a format error, and in no other fault.\<close>

definition format_safe :: "'a run \<Rightarrow> bool" where
  "format_safe r \<longleftrightarrow> (\<forall>e. r = Inl e \<longrightarrow> (\<exists>m. e = Uncaught (Format_error m)))"

named_theorems fmt_safe \<open>runs that end in a value or a format error\<close>

lemma format_safe_simps [simp]: "format_safe (Inr x)" "format_safe (throw_format_error m)"
  "format_safe (Inl e) \<longleftrightarrow> (\<exists>m. e = Uncaught (Format_error m))"
  by (auto simp: format_safe_def throw_format_error_def)

lemma format_safe_bind:
  "format_safe m \<Longrightarrow> (\<And>x. m = Inr x \<Longrightarrow> format_safe (f x)) \<Longrightarrow> format_safe (bind_run m f)"
  by (cases m) simp_all

lemma char_at_safe: "s \<noteq> [] \<Longrightarrow> format_safe (char_at s)" "s \<noteq> [] \<Longrightarrow> format_safe (advance s)"
  by (cases s; simp)+

lemma parse_nonnegative_int_safe: "s \<noteq> [] \<Longrightarrow> format_safe (parse_nonnegative_int s e)"
  by (cases s) (simp_all split: prod.split)

lemma arg_id_errors: "format_safe (next_arg_id ctx)" "format_safe (check_arg_id ctx)"
  by (simp_all add: next_arg_id_def check_arg_id_def)

lemma do_parse_arg_id_safe: "s \<noteq> [] \<Longrightarrow> format_safe (do_parse_arg_id s)"
  unfolding do_parse_arg_id_def
  by (intro format_safe_bind char_at_safe; assumption?)
    (auto simp: Let_def intro!: format_safe_bind parse_nonnegative_int_safe char_at_safe)

lemma parse_arg_id_safe: "s \<noteq> [] \<Longrightarrow> format_safe (parse_arg_id s)"
  unfolding parse_arg_id_def by (auto intro!: format_safe_bind char_at_safe do_parse_arg_id_safe)

lemma dynamic_spec_id_handler_safe: "format_safe (dynamic_spec_id_handler aid ctx)"
  by (cases aid) (auto intro!: format_safe_bind arg_id_errors)

lemma parse_dynamic_spec_safe: "s \<noteq> [] \<Longrightarrow> format_safe (parse_dynamic_spec s v ref ctx)"
  unfolding parse_dynamic_spec_def
  by (auto intro!: format_safe_bind char_at_safe parse_nonnegative_int_safe parse_arg_id_safe dynamic_spec_id_handler_safe)

lemma parse_precision_safe: "s \<noteq> [] \<Longrightarrow> format_safe (parse_precision s v ref ctx)"
  unfolding parse_precision_def by (auto intro!: format_safe_bind char_at_safe parse_dynamic_spec_safe)

lemma enter_state_safe: "format_safe (enter_state st s valid)"
  by (simp add: enter_state_def)

lemma code_point_length_4: "code_point_length s = Inr n \<Longrightarrow> n \<le> 4"
proof -
  have "unat (w AND 3) \<le> 3" for w :: u64
    using word_and_le1 [of w 3] by (simp add: word_le_nat_alt)
  then show "code_point_length s = Inr n \<Longrightarrow> n \<le> 4" by (auto simp: code_point_length_def bind_run_Inr_conv)
qed

lemma code_point_length_safe: "s \<noteq> [] \<Longrightarrow> format_safe (code_point_length s)"
  unfolding code_point_length_def by (intro format_safe_bind char_at_safe) simp_all

lemma fill_assign_safe: "n \<le> 4 \<Longrightarrow> format_safe (fill_assign (take n s))"
  by (simp add: fill_assign_def guard_run_def)

lemma parse_fill_safe: "s \<noteq> [] \<Longrightarrow> format_safe (parse_fill s st specs ctx)"
  unfolding parse_fill_def Let_def
  by (auto simp del: parse_align.simps intro!: format_safe_bind char_at_safe enter_state_safe code_point_length_safe
      fill_assign_safe) (erule code_point_length_4)+

lemma spec_cases_safe:
  assumes "s \<noteq> []"
  shows "format_safe (spec_align c s st specs ctx)" "format_safe (spec_sign c s st specs ctx t)"
    "format_safe (spec_hash s st specs ctx t)" "format_safe (spec_zero s st specs ctx t)"
    "format_safe (spec_width s st specs ctx)" "format_safe (spec_precision s st specs ctx t)"
    "format_safe (spec_locale s st specs ctx t)" "format_safe (parse_presentation_type s specs ctx t pres types)"
  using assms
  unfolding spec_align_def spec_sign_def spec_hash_def spec_zero_def spec_width_def spec_precision_def
    spec_locale_def parse_presentation_type_def
  by (auto simp del: parse_align.simps intro!: format_safe_bind char_at_safe enter_state_safe
      parse_dynamic_spec_safe parse_precision_safe)

lemma specs_round_safe: "s \<noteq> [] \<Longrightarrow> format_safe (specs_round c s st specs ctx t)"
  unfolding specs_round_def
  by (simp add: spec_cases_safe parse_fill_safe split: option.split)

text \<open>References that were parsed are not negative.\<close>

fun ref_ok :: "arg_ref \<Rightarrow> bool" where
  "ref_ok (Ref_index i) \<longleftrightarrow> 0 \<le> i"
| "ref_ok _ \<longleftrightarrow> True"

fun id_ok :: "arg_id \<Rightarrow> bool" where
  "id_ok (Id_index i) \<longleftrightarrow> 0 \<le> i"
| "id_ok _ \<longleftrightarrow> True"

lemma parse_nonnegative_int_range:
  assumes "parse_nonnegative_int s e = Inr (v, s')" and "s \<noteq> []" and "is_dec (hd s)" and "0 \<le> e"
  shows "0 \<le> v"
proof -
  define ds where "ds = takeWhile is_dec s"
  define r where "r = dropWhile is_dec s"
  have s: "s = ds @ r" by (simp add: ds_def r_def)
  have "ds \<noteq> []" using assms(2,3) by (cases s) (simp_all add: ds_def)
  moreover have "list_all is_dec ds" unfolding ds_def list_all_iff using set_takeWhileD by fast
  moreover have "r = [] \<or> \<not> is_dec (hd r)" unfolding r_def using hd_dropWhile by blast
  ultimately show ?thesis
    using assms(1,4) parse_nonnegative_int_exact [of ds r e] unfolding s by (auto split: if_splits)
qed

lemma parse_nonnegative_int_Cons:
  "parse_nonnegative_int (c # s) e = Inr (v, s') \<Longrightarrow> is_dec c \<Longrightarrow> 0 \<le> e \<Longrightarrow> 0 \<le> v"
  using parse_nonnegative_int_range [of "c # s" e v s'] by simp

lemma parse_arg_id_ok: "parse_arg_id s = Inr (i, s') \<Longrightarrow> id_ok i"
  by (auto simp: parse_arg_id_def do_parse_arg_id_def bind_run_Inr_conv Let_def left_over
      simp del: parse_nonnegative_int.simps split: if_splits dest: parse_nonnegative_int_Cons)

lemma dynamic_spec_id_handler_ok:
  "dynamic_spec_id_handler i ctx = Inr (ref, ctx') \<Longrightarrow> id_ok i \<Longrightarrow> ref_ok ref"
  by (cases i) (auto simp: bind_run_Inr_conv next_arg_id_def throw_format_error_def split: if_splits)

lemma parse_dynamic_spec_ok:
  "parse_dynamic_spec s v ref ctx = Inr (s', v', ref', ctx') \<Longrightarrow> ref_ok ref \<Longrightarrow> ref_ok ref'"
  by (auto simp: parse_dynamic_spec_def bind_run_Inr_conv split: if_splits
      dest!: parse_arg_id_ok intro: dynamic_spec_id_handler_ok)

definition refs_ok :: "format_specs \<Rightarrow> bool" where
  "refs_ok specs \<longleftrightarrow> ref_ok (fs_width_ref specs) \<and> ref_ok (fs_precision_ref specs)"

lemma parse_precision_ok:
  "parse_precision s v ref ctx = Inr (s', v', ref', ctx') \<Longrightarrow> ref_ok ref \<Longrightarrow> ref_ok ref'"
  by (auto simp: parse_precision_def bind_run_Inr_conv split: if_splits dest!: parse_dynamic_spec_ok)

lemma refs_ok_updates:
  "refs_ok (specs\<lparr>fs_type := p\<rparr>) = refs_ok specs" "refs_ok (specs\<lparr>fs_align := a\<rparr>) = refs_ok specs"
  "refs_ok (specs\<lparr>fs_sign := g\<rparr>) = refs_ok specs" "refs_ok (specs\<lparr>fs_alt := b\<rparr>) = refs_ok specs"
  "refs_ok (specs\<lparr>fs_localized := b\<rparr>) = refs_ok specs" "refs_ok (specs\<lparr>fs_fill := f\<rparr>) = refs_ok specs"
  "refs_ok (specs\<lparr>fs_width := w, fs_width_ref := r\<rparr>) = (ref_ok r \<and> ref_ok (fs_precision_ref specs))"
  "refs_ok (specs\<lparr>fs_precision := w, fs_precision_ref := r\<rparr>) = (ref_ok (fs_width_ref specs) \<and> ref_ok r)"
  by (simp_all add: refs_ok_def)

lemma refs_okD: "refs_ok specs \<Longrightarrow> ref_ok (fs_width_ref specs)" "refs_ok specs \<Longrightarrow> ref_ok (fs_precision_ref specs)"
  by (simp_all add: refs_ok_def)

lemma specs_round_ok:
  assumes "specs_round c s st specs ctx t = Inr (st', s', specs', ctx')" and "refs_ok specs"
  shows "refs_ok specs'"
proof -
  note refs = refs_okD [OF assms(2)]
  have "spec_align c s st specs ctx = Inr (st', s', specs', ctx') \<Longrightarrow> ?thesis"
    and "spec_sign c s st specs ctx t = Inr (st', s', specs', ctx') \<Longrightarrow> ?thesis"
    and "spec_hash s st specs ctx t = Inr (st', s', specs', ctx') \<Longrightarrow> ?thesis"
    and "spec_zero s st specs ctx t = Inr (st', s', specs', ctx') \<Longrightarrow> ?thesis"
    and "spec_width s st specs ctx = Inr (st', s', specs', ctx') \<Longrightarrow> ?thesis"
    and "spec_precision s st specs ctx t = Inr (st', s', specs', ctx') \<Longrightarrow> ?thesis"
    and "spec_locale s st specs ctx t = Inr (st', s', specs', ctx') \<Longrightarrow> ?thesis"
    and "parse_presentation_type s specs ctx t pres types = Inr (st', s', specs', ctx') \<Longrightarrow> ?thesis"
    and "parse_fill s st specs ctx = Inr (st', s', specs', ctx') \<Longrightarrow> ?thesis"
    for pres types
    using assms(2)
    unfolding spec_align_def spec_sign_def spec_hash_def spec_zero_def spec_width_def spec_precision_def
      spec_locale_def parse_presentation_type_def parse_fill_def Let_def
    by (auto simp: bind_run_Inr_conv refs_ok_updates refs simp del: parse_align.simps
        split: if_split_asm
        dest!: parse_dynamic_spec_ok [OF _ refs(1)] parse_precision_ok [OF _ refs(2)])
  with assms show ?thesis
    unfolding specs_round_def by (auto split: if_splits option.splits)
qed

text \<open>The loop as a whole.\<close>

lemma specs_loop_safe_ok:
  "s \<noteq> [] \<Longrightarrow> refs_ok specs \<Longrightarrow>
   format_safe (specs_loop c s st specs ctx t) \<and>
   (\<forall>s' specs' ctx'. specs_loop c s st specs ctx t = Inr (s', specs', ctx') \<longrightarrow> refs_ok specs')"
proof (induction "7 - state_code st" arbitrary: c s st specs ctx rule: less_induct)
  case less
  have safe: "format_safe (specs_round c s st specs ctx t)" by (rule specs_round_safe [OF less.prems(1)])
  show ?case
  proof (cases "specs_round c s st specs ctx t")
    case (Inl e)
    then show ?thesis using safe by (simp add: specs_loop.simps [of c])
  next
    case (Inr r)
    obtain st1 s1 specs1 ctx1 where r: "r = (st1, s1, specs1, ctx1)" by (cases r)
    note round = Inr [unfolded r]
    note ok = specs_round_ok [OF round less.prems(2)]
    show ?thesis
    proof (cases "\<exists>st2 c1 t1. st1 = Some st2 \<and> s1 = c1 # t1")
      case True
      then obtain st2 c1 t1 where more: "st1 = Some st2" "s1 = c1 # t1" by blast
      have "state_code st < state_code st2" using round more specs_round_forward by blast
      then have "7 - state_code st2 < 7 - state_code st" using state_code_le [of st2] by linarith
      then show ?thesis using less.hyps [of st2 s1 specs1 c1 ctx1] ok round more by (simp add: specs_loop.simps [of c])
    next
      case False
      then show ?thesis using round ok unfolding specs_loop.simps [of c] by (cases st1; cases s1) auto
    qed
  qed
qed

lemma parse_format_specs_safe:
  assumes "refs_ok specs"
  shows "format_safe (parse_format_specs s specs ctx t)"
    and "parse_format_specs s specs ctx t = Inr (s', specs', ctx') \<Longrightarrow> refs_ok specs'"
proof -
  have "s = [] \<or> (\<exists>c. parse_format_specs s specs ctx t = specs_loop c s State_start specs ctx t)"
    by (cases s) (auto simp: parse_format_specs_def Let_def simp del: parse_align.simps)
  moreover have "s = [] \<Longrightarrow> parse_format_specs s specs ctx t = Inr (s, specs, ctx)" by (simp add: parse_format_specs_def)
  ultimately show "format_safe (parse_format_specs s specs ctx t)"
    and "parse_format_specs s specs ctx t = Inr (s', specs', ctx') \<Longrightarrow> refs_ok specs'"
    using specs_loop_safe_ok [OF _ assms, of s _ State_start ctx t] assms by (cases "s = []"; fastforce)+
qed

end
