(* ===== verification/Fmt_Escape.thy ===== *)
theory Fmt_Escape
  imports Fmt_Specs
begin

text \<open>
  Which code points can be printed (\<^verbatim>\<open>spdlog/fmt/bundled/format-inl.h\<close>) and how strings and characters
  are written with escapes, the presentation \<^verbatim>\<open>?\<close> (\<^verbatim>\<open>format.h\<close>); and integers in the bases two, eight
  and sixteen, in which the escapes are written.
\<close>

section \<open>is\_printable\<close>

definition singletons0 :: "(nat \<times> nat) list" where
  "singletons0 = [
      (0x00, 1), (0x03, 5), (0x05, 6), (0x06, 3), (0x07, 6), (0x08, 8), (0x09, 17), (0x0a, 28),
      (0x0b, 25), (0x0c, 20), (0x0d, 16), (0x0e, 13), (0x0f, 4), (0x10, 3), (0x12, 18), (0x13, 9),
      (0x16, 1), (0x17, 5), (0x18, 2), (0x19, 3), (0x1a, 7), (0x1c, 2), (0x1d, 1), (0x1f, 22),
      (0x20, 3), (0x2b, 3), (0x2c, 2), (0x2d, 11), (0x2e, 1), (0x30, 3), (0x31, 2), (0x32, 1),
      (0xa7, 2), (0xa9, 2), (0xaa, 4), (0xab, 8), (0xfa, 2), (0xfb, 5), (0xfd, 4), (0xfe, 3),
      (0xff, 9)]"

definition singletons0_lower :: "nat list" where
  "singletons0_lower = [
      0xad, 0x78, 0x79, 0x8b, 0x8d, 0xa2, 0x30, 0x57, 0x58, 0x8b, 0x8c, 0x90, 0x1c, 0x1d, 0xdd, 0x0e,
      0x0f, 0x4b, 0x4c, 0xfb, 0xfc, 0x2e, 0x2f, 0x3f, 0x5c, 0x5d, 0x5f, 0xb5, 0xe2, 0x84, 0x8d, 0x8e,
      0x91, 0x92, 0xa9, 0xb1, 0xba, 0xbb, 0xc5, 0xc6, 0xc9, 0xca, 0xde, 0xe4, 0xe5, 0xff, 0x00, 0x04,
      0x11, 0x12, 0x29, 0x31, 0x34, 0x37, 0x3a, 0x3b, 0x3d, 0x49, 0x4a, 0x5d, 0x84, 0x8e, 0x92, 0xa9,
      0xb1, 0xb4, 0xba, 0xbb, 0xc6, 0xca, 0xce, 0xcf, 0xe4, 0xe5, 0x00, 0x04, 0x0d, 0x0e, 0x11, 0x12,
      0x29, 0x31, 0x34, 0x3a, 0x3b, 0x45, 0x46, 0x49, 0x4a, 0x5e, 0x64, 0x65, 0x84, 0x91, 0x9b, 0x9d,
      0xc9, 0xce, 0xcf, 0x0d, 0x11, 0x29, 0x45, 0x49, 0x57, 0x64, 0x65, 0x8d, 0x91, 0xa9, 0xb4, 0xba,
      0xbb, 0xc5, 0xc9, 0xdf, 0xe4, 0xe5, 0xf0, 0x0d, 0x11, 0x45, 0x49, 0x64, 0x65, 0x80, 0x84, 0xb2,
      0xbc, 0xbe, 0xbf, 0xd5, 0xd7, 0xf0, 0xf1, 0x83, 0x85, 0x8b, 0xa4, 0xa6, 0xbe, 0xbf, 0xc5, 0xc7,
      0xce, 0xcf, 0xda, 0xdb, 0x48, 0x98, 0xbd, 0xcd, 0xc6, 0xce, 0xcf, 0x49, 0x4e, 0x4f, 0x57, 0x59,
      0x5e, 0x5f, 0x89, 0x8e, 0x8f, 0xb1, 0xb6, 0xb7, 0xbf, 0xc1, 0xc6, 0xc7, 0xd7, 0x11, 0x16, 0x17,
      0x5b, 0x5c, 0xf6, 0xf7, 0xfe, 0xff, 0x80, 0x0d, 0x6d, 0x71, 0xde, 0xdf, 0x0e, 0x0f, 0x1f, 0x6e,
      0x6f, 0x1c, 0x1d, 0x5f, 0x7d, 0x7e, 0xae, 0xaf, 0xbb, 0xbc, 0xfa, 0x16, 0x17, 0x1e, 0x1f, 0x46,
      0x47, 0x4e, 0x4f, 0x58, 0x5a, 0x5c, 0x5e, 0x7e, 0x7f, 0xb5, 0xc5, 0xd4, 0xd5, 0xdc, 0xf0, 0xf1,
      0xf5, 0x72, 0x73, 0x8f, 0x74, 0x75, 0x96, 0x2f, 0x5f, 0x26, 0x2e, 0x2f, 0xa7, 0xaf, 0xb7, 0xbf,
      0xc7, 0xcf, 0xd7, 0xdf, 0x9a, 0x40, 0x97, 0x98, 0x30, 0x8f, 0x1f, 0xc0, 0xc1, 0xce, 0xff, 0x4e,
      0x4f, 0x5a, 0x5b, 0x07, 0x08, 0x0f, 0x10, 0x27, 0x2f, 0xee, 0xef, 0x6e, 0x6f, 0x37, 0x3d, 0x3f,
      0x42, 0x45, 0x90, 0x91, 0xfe, 0xff, 0x53, 0x67, 0x75, 0xc8, 0xc9, 0xd0, 0xd1, 0xd8, 0xd9, 0xe7,
      0xfe, 0xff]"

definition singletons1 :: "(nat \<times> nat) list" where
  "singletons1 = [
      (0x00, 6), (0x01, 1), (0x03, 1), (0x04, 2), (0x08, 8), (0x09, 2), (0x0a, 5), (0x0b, 2),
      (0x0e, 4), (0x10, 1), (0x11, 2), (0x12, 5), (0x13, 17), (0x14, 1), (0x15, 2), (0x17, 2),
      (0x19, 13), (0x1c, 5), (0x1d, 8), (0x24, 1), (0x6a, 3), (0x6b, 2), (0xbc, 2), (0xd1, 2),
      (0xd4, 12), (0xd5, 9), (0xd6, 2), (0xd7, 2), (0xda, 1), (0xe0, 5), (0xe1, 2), (0xe8, 2),
      (0xee, 32), (0xf0, 4), (0xf8, 2), (0xf9, 2), (0xfa, 2), (0xfb, 1)]"

definition singletons1_lower :: "nat list" where
  "singletons1_lower = [
      0x0c, 0x27, 0x3b, 0x3e, 0x4e, 0x4f, 0x8f, 0x9e, 0x9e, 0x9f, 0x06, 0x07, 0x09, 0x36, 0x3d, 0x3e,
      0x56, 0xf3, 0xd0, 0xd1, 0x04, 0x14, 0x18, 0x36, 0x37, 0x56, 0x57, 0x7f, 0xaa, 0xae, 0xaf, 0xbd,
      0x35, 0xe0, 0x12, 0x87, 0x89, 0x8e, 0x9e, 0x04, 0x0d, 0x0e, 0x11, 0x12, 0x29, 0x31, 0x34, 0x3a,
      0x45, 0x46, 0x49, 0x4a, 0x4e, 0x4f, 0x64, 0x65, 0x5c, 0xb6, 0xb7, 0x1b, 0x1c, 0x07, 0x08, 0x0a,
      0x0b, 0x14, 0x17, 0x36, 0x39, 0x3a, 0xa8, 0xa9, 0xd8, 0xd9, 0x09, 0x37, 0x90, 0x91, 0xa8, 0x07,
      0x0a, 0x3b, 0x3e, 0x66, 0x69, 0x8f, 0x92, 0x6f, 0x5f, 0xee, 0xef, 0x5a, 0x62, 0x9a, 0x9b, 0x27,
      0x28, 0x55, 0x9d, 0xa0, 0xa1, 0xa3, 0xa4, 0xa7, 0xa8, 0xad, 0xba, 0xbc, 0xc4, 0x06, 0x0b, 0x0c,
      0x15, 0x1d, 0x3a, 0x3f, 0x45, 0x51, 0xa6, 0xa7, 0xcc, 0xcd, 0xa0, 0x07, 0x19, 0x1a, 0x22, 0x25,
      0x3e, 0x3f, 0xc5, 0xc6, 0x04, 0x20, 0x23, 0x25, 0x26, 0x28, 0x33, 0x38, 0x3a, 0x48, 0x4a, 0x4c,
      0x50, 0x53, 0x55, 0x56, 0x58, 0x5a, 0x5c, 0x5e, 0x60, 0x63, 0x65, 0x66, 0x6b, 0x73, 0x78, 0x7d,
      0x7f, 0x8a, 0xa4, 0xaa, 0xaf, 0xb0, 0xc0, 0xd0, 0xae, 0xaf, 0x79, 0xcc, 0x6e, 0x6f, 0x93]"

definition normal0 :: "nat list" where
  "normal0 = [
      0x00, 0x20, 0x5f, 0x22, 0x82, 0xdf, 0x04, 0x82, 0x44, 0x08, 0x1b, 0x04, 0x06, 0x11, 0x81, 0xac,
      0x0e, 0x80, 0xab, 0x35, 0x28, 0x0b, 0x80, 0xe0, 0x03, 0x19, 0x08, 0x01, 0x04, 0x2f, 0x04, 0x34,
      0x04, 0x07, 0x03, 0x01, 0x07, 0x06, 0x07, 0x11, 0x0a, 0x50, 0x0f, 0x12, 0x07, 0x55, 0x07, 0x03,
      0x04, 0x1c, 0x0a, 0x09, 0x03, 0x08, 0x03, 0x07, 0x03, 0x02, 0x03, 0x03, 0x03, 0x0c, 0x04, 0x05,
      0x03, 0x0b, 0x06, 0x01, 0x0e, 0x15, 0x05, 0x3a, 0x03, 0x11, 0x07, 0x06, 0x05, 0x10, 0x07, 0x57,
      0x07, 0x02, 0x07, 0x15, 0x0d, 0x50, 0x04, 0x43, 0x03, 0x2d, 0x03, 0x01, 0x04, 0x11, 0x06, 0x0f,
      0x0c, 0x3a, 0x04, 0x1d, 0x25, 0x5f, 0x20, 0x6d, 0x04, 0x6a, 0x25, 0x80, 0xc8, 0x05, 0x82, 0xb0,
      0x03, 0x1a, 0x06, 0x82, 0xfd, 0x03, 0x59, 0x07, 0x15, 0x0b, 0x17, 0x09, 0x14, 0x0c, 0x14, 0x0c,
      0x6a, 0x06, 0x0a, 0x06, 0x1a, 0x06, 0x59, 0x07, 0x2b, 0x05, 0x46, 0x0a, 0x2c, 0x04, 0x0c, 0x04,
      0x01, 0x03, 0x31, 0x0b, 0x2c, 0x04, 0x1a, 0x06, 0x0b, 0x03, 0x80, 0xac, 0x06, 0x0a, 0x06, 0x21,
      0x3f, 0x4c, 0x04, 0x2d, 0x03, 0x74, 0x08, 0x3c, 0x03, 0x0f, 0x03, 0x3c, 0x07, 0x38, 0x08, 0x2b,
      0x05, 0x82, 0xff, 0x11, 0x18, 0x08, 0x2f, 0x11, 0x2d, 0x03, 0x20, 0x10, 0x21, 0x0f, 0x80, 0x8c,
      0x04, 0x82, 0x97, 0x19, 0x0b, 0x15, 0x88, 0x94, 0x05, 0x2f, 0x05, 0x3b, 0x07, 0x02, 0x0e, 0x18,
      0x09, 0x80, 0xb3, 0x2d, 0x74, 0x0c, 0x80, 0xd6, 0x1a, 0x0c, 0x05, 0x80, 0xff, 0x05, 0x80, 0xdf,
      0x0c, 0xee, 0x0d, 0x03, 0x84, 0x8d, 0x03, 0x37, 0x09, 0x81, 0x5c, 0x14, 0x80, 0xb8, 0x08, 0x80,
      0xcb, 0x2a, 0x38, 0x03, 0x0a, 0x06, 0x38, 0x08, 0x46, 0x08, 0x0c, 0x06, 0x74, 0x0b, 0x1e, 0x03,
      0x5a, 0x04, 0x59, 0x09, 0x80, 0x83, 0x18, 0x1c, 0x0a, 0x16, 0x09, 0x4c, 0x04, 0x80, 0x8a, 0x06,
      0xab, 0xa4, 0x0c, 0x17, 0x04, 0x31, 0xa1, 0x04, 0x81, 0xda, 0x26, 0x07, 0x0c, 0x05, 0x05, 0x80,
      0xa5, 0x11, 0x81, 0x6d, 0x10, 0x78, 0x28, 0x2a, 0x06, 0x4c, 0x04, 0x80, 0x8d, 0x04, 0x80, 0xbe,
      0x03, 0x1b, 0x03, 0x0f, 0x0d]"

definition normal1 :: "nat list" where
  "normal1 = [
      0x5e, 0x22, 0x7b, 0x05, 0x03, 0x04, 0x2d, 0x03, 0x66, 0x03, 0x01, 0x2f, 0x2e, 0x80, 0x82, 0x1d,
      0x03, 0x31, 0x0f, 0x1c, 0x04, 0x24, 0x09, 0x1e, 0x05, 0x2b, 0x05, 0x44, 0x04, 0x0e, 0x2a, 0x80,
      0xaa, 0x06, 0x24, 0x04, 0x24, 0x04, 0x28, 0x08, 0x34, 0x0b, 0x01, 0x80, 0x90, 0x81, 0x37, 0x09,
      0x16, 0x0a, 0x08, 0x80, 0x98, 0x39, 0x03, 0x63, 0x08, 0x09, 0x30, 0x16, 0x05, 0x21, 0x03, 0x1b,
      0x05, 0x01, 0x40, 0x38, 0x04, 0x4b, 0x05, 0x2f, 0x04, 0x0a, 0x07, 0x09, 0x07, 0x40, 0x20, 0x27,
      0x04, 0x0c, 0x09, 0x36, 0x03, 0x3a, 0x05, 0x1a, 0x07, 0x04, 0x0c, 0x07, 0x50, 0x49, 0x37, 0x33,
      0x0d, 0x33, 0x07, 0x2e, 0x08, 0x0a, 0x81, 0x26, 0x52, 0x4e, 0x28, 0x08, 0x2a, 0x56, 0x1c, 0x14,
      0x17, 0x09, 0x4e, 0x04, 0x1e, 0x0f, 0x43, 0x0e, 0x19, 0x07, 0x0a, 0x06, 0x48, 0x08, 0x27, 0x09,
      0x75, 0x0b, 0x3f, 0x41, 0x2a, 0x06, 0x3b, 0x05, 0x0a, 0x06, 0x51, 0x06, 0x01, 0x05, 0x10, 0x03,
      0x05, 0x80, 0x8b, 0x62, 0x1e, 0x48, 0x08, 0x0a, 0x80, 0xa6, 0x5e, 0x22, 0x45, 0x0b, 0x0a, 0x06,
      0x0d, 0x13, 0x39, 0x07, 0x0a, 0x36, 0x2c, 0x04, 0x10, 0x80, 0xc0, 0x3c, 0x64, 0x53, 0x0c, 0x48,
      0x09, 0x0a, 0x46, 0x45, 0x1b, 0x48, 0x08, 0x53, 0x1d, 0x39, 0x81, 0x07, 0x46, 0x0a, 0x1d, 0x03,
      0x47, 0x49, 0x37, 0x03, 0x0e, 0x08, 0x0a, 0x06, 0x39, 0x07, 0x0a, 0x81, 0x36, 0x19, 0x80, 0xb7,
      0x01, 0x0f, 0x32, 0x0d, 0x83, 0x9b, 0x66, 0x75, 0x0b, 0x80, 0xc4, 0x8a, 0xbc, 0x84, 0x2f, 0x8f,
      0xd1, 0x82, 0x47, 0xa1, 0xb9, 0x82, 0x39, 0x07, 0x2a, 0x04, 0x02, 0x60, 0x26, 0x0a, 0x46, 0x0a,
      0x28, 0x05, 0x13, 0x82, 0xb0, 0x5b, 0x65, 0x4b, 0x04, 0x39, 0x07, 0x11, 0x40, 0x05, 0x0b, 0x02,
      0x0e, 0x97, 0xf8, 0x08, 0x84, 0xd6, 0x2a, 0x09, 0xa2, 0xf7, 0x81, 0x1f, 0x31, 0x03, 0x11, 0x04,
      0x08, 0x81, 0x8c, 0x89, 0x04, 0x6b, 0x05, 0x0d, 0x03, 0x09, 0x07, 0x10, 0x93, 0x60, 0x80, 0xf6,
      0x0a, 0x73, 0x08, 0x6e, 0x17, 0x46, 0x80, 0x9a, 0x14, 0x0c, 0x57, 0x09, 0x19, 0x80, 0x87, 0x81,
      0x47, 0x03, 0x85, 0x42, 0x0f, 0x15, 0x85, 0x50, 0x2b, 0x80, 0xd5, 0x2d, 0x03, 0x1a, 0x04, 0x02,
      0x81, 0x70, 0x3a, 0x05, 0x01, 0x85, 0x00, 0x80, 0xd7, 0x29, 0x4c, 0x04, 0x0a, 0x04, 0x02, 0x83,
      0x11, 0x44, 0x4c, 0x3d, 0x80, 0xc2, 0x3c, 0x06, 0x01, 0x04, 0x55, 0x05, 0x1b, 0x34, 0x02, 0x81,
      0x0e, 0x2c, 0x04, 0x64, 0x0c, 0x56, 0x0a, 0x80, 0xae, 0x38, 0x1d, 0x0d, 0x2c, 0x04, 0x09, 0x07,
      0x02, 0x0e, 0x06, 0x80, 0x9a, 0x83, 0xd8, 0x08, 0x0d, 0x03, 0x0d, 0x03, 0x74, 0x0c, 0x59, 0x07,
      0x0c, 0x14, 0x0c, 0x04, 0x38, 0x08, 0x0a, 0x06, 0x28, 0x08, 0x22, 0x4e, 0x81, 0x54, 0x0c, 0x15,
      0x03, 0x03, 0x05, 0x07, 0x09, 0x19, 0x07, 0x07, 0x09, 0x03, 0x0d, 0x07, 0x29, 0x80, 0xcb, 0x25,
      0x0a, 0x84, 0x06]"

text \<open>The exceptions: the upper byte of a code point selects a run of lower bytes.\<close>

fun in_singletons :: "(nat \<times> nat) list \<Rightarrow> nat list \<Rightarrow> nat \<Rightarrow> nat \<Rightarrow> bool" where
  "in_singletons [] lowers upper lower = False"
| "in_singletons ((u, n) # rest) lowers upper lower =
     (if upper < u then False
      else if upper = u \<and> lower \<in> set (take n lowers) then True
      else in_singletons rest (drop n lowers) upper lower)"

text \<open>
  The normal ranges: lengths of one or two bytes, that alternate between printable and not. The tables
  end with a whole length (\<open>tables_whole\<close>), so the last byte is one of its own.
\<close>

fun normal_range :: "nat list \<Rightarrow> int \<Rightarrow> bool \<Rightarrow> bool" where
  "normal_range [] xsigned current = current"
| "normal_range (v # w # rest) xsigned current =
     (let two = v AND 0x80 \<noteq> 0;
          len = (if two then push_bit 8 (v AND 0x7f) OR w else v)
      in if xsigned - int len < 0 then current
         else normal_range (if two then rest else w # rest) (xsigned - int len) (\<not> current))"
| "normal_range [v] xsigned current = (if xsigned - int v < 0 then current else \<not> current)"

definition printable_in ::
    "nat \<Rightarrow> (nat \<times> nat) list \<Rightarrow> nat list \<Rightarrow> nat list \<Rightarrow> bool" where
  "printable_in x singletons lowers normal =
     (if in_singletons singletons lowers (x div 256) (x mod 256) then False
      else normal_range normal (int x) True)"

definition is_printable :: "u32 \<Rightarrow> bool" where
  "is_printable cp =
     (let lower = unat cp mod 65536
      in if cp < 0x10000 then printable_in lower singletons0 singletons0_lower normal0
         else if cp < 0x20000 then printable_in lower singletons1 singletons1_lower normal1
         else if 0x2a6de \<le> cp \<and> cp < 0x2a700 then False
         else if 0x2b735 \<le> cp \<and> cp < 0x2b740 then False
         else if 0x2b81e \<le> cp \<and> cp < 0x2b820 then False
         else if 0x2cea2 \<le> cp \<and> cp < 0x2ceb0 then False
         else if 0x2ebe1 \<le> cp \<and> cp < 0x2f800 then False
         else if 0x2fa1e \<le> cp \<and> cp < 0x30000 then False
         else if 0x3134b \<le> cp \<and> cp < 0xe0100 then False
         else if 0xe01f0 \<le> cp \<and> cp < 0x110000 then False
         else cp < 0x110000)"

section \<open>Integers in a base that is a power of two\<close>

text \<open>
  \<open>format_uint\<close> writes the digits before a pointer, the last one first; \<^verbatim>\<open>BITS\<close> is 1, 3 or 4. What it writes
  starts where the pointer ends up.
\<close>

definition digit_text :: "nat \<Rightarrow> bool \<Rightarrow> nat \<Rightarrow> char" where
  "digit_text bits upper d =
     (if bits < 4 then char_of (48 + d)
      else (if upper then ''0123456789ABCDEF'' else ''0123456789abcdef'') ! d)"

function format_uint_loop :: "nat \<Rightarrow> bool \<Rightarrow> nat \<Rightarrow> nat \<Rightarrow> string \<Rightarrow> (nat \<times> string) run" where
  "format_uint_loop bits upper out number written =
     (if out = 0 then Inl Out_of_bounds
      else let written' = digit_text bits upper (number AND mask bits) # written
           in if drop_bit bits number \<noteq> 0 then format_uint_loop bits upper (out - 1) (drop_bit bits number) written'
              else Inr (out - 1, written'))"
  by pat_completeness auto
termination
  by (relation "measure (\<lambda>(bits, upper, out, number, written). out)") auto

declare format_uint_loop.simps [simp del]

definition format_uint :: "nat \<Rightarrow> nat \<Rightarrow> nat \<Rightarrow> bool \<Rightarrow> (nat \<times> string) run" where
  "format_uint bits number num_digits upper = format_uint_loop bits upper num_digits number []"

lemma drop_bit_less: "0 < bits \<Longrightarrow> 0 < drop_bit bits m \<Longrightarrow> drop_bit bits m < m" for m :: nat
  using div_less_dividend [of "2 ^ bits" m] one_less_power [of "2 :: nat" bits]
  by (cases "m = 0") (simp_all add: drop_bit_eq_div)

text \<open>The number of digits, from the highest bit for 32-bit numbers and by counting otherwise.\<close>

function count_bits_loop :: "nat \<Rightarrow> nat \<Rightarrow> nat" where
  "count_bits_loop bits m = (if bits = 0 \<or> drop_bit bits m = 0 then 1 else Suc (count_bits_loop bits (drop_bit bits m)))"
  by pat_completeness auto
termination
  by (relation "measure snd") (auto simp: drop_bit_less)

declare count_bits_loop.simps [simp del]

definition count_digits_bits :: "nat \<Rightarrow> nat \<Rightarrow> nat \<Rightarrow> nat" where
  "count_digits_bits bits num_bits n =
     (if num_bits = 32 then (builtin_clz 32 (n OR 1) XOR 31) div bits + 1 else count_bits_loop bits n)"

section \<open>Escapes\<close>

definition needs_escape :: "u32 \<Rightarrow> bool" where
  "needs_escape cp \<longleftrightarrow>
     cp < 0x20 \<or> cp = 0x7f \<or> cp = uchar CHR 0x22 \<or> cp = uchar CHR 0x5C \<or> \<not> is_printable cp"

text \<open>The first code point that needs an escape, with its place, or nothing.\<close>

definition find_escape_visitor :: "(nat \<times> nat \<times> u32) option visitor" where
  "find_escape_visitor cp off n st = (if needs_escape cp then (False, Some (off, n, cp)) else (True, st))"

definition find_escape :: "string \<Rightarrow> (nat \<times> nat \<times> u32) option run" where
  "find_escape s = for_each_codepoint s find_escape_visitor None"

text \<open>A buffer of zeros, into which the digits are written.\<close>

definition write_codepoint :: "nat \<Rightarrow> char \<Rightarrow> u32 \<Rightarrow> string run" where
  "write_codepoint width prefix cp =
     bind_run (format_uint 4 (unat cp) width False) (\<lambda>(out, digits).
       Inr ([CHR 0x5C, prefix] @ replicate out (CHR ''0'') @ digits))"

fun write_bytes_escaped :: "string \<Rightarrow> string run" where
  "write_bytes_escaped [] = Inr []"
| "write_bytes_escaped (c # s) =
     bind_run (write_codepoint 2 (CHR ''x'') (uchar c AND 0xFF)) (\<lambda>t.
     bind_run (write_bytes_escaped s) (\<lambda>t'. Inr (t @ t')))"

definition write_escaped_cp :: "u32 \<Rightarrow> string \<Rightarrow> string run" where
  "write_escaped_cp cp chars =
     (if cp = uchar CHR 0x0A then Inr [CHR 0x5C, CHR ''n'']
      else if cp = uchar CHR 0x0D then Inr [CHR 0x5C, CHR ''r'']
      else if cp = uchar CHR 0x09 then Inr [CHR 0x5C, CHR ''t'']
      else if cp = uchar CHR 0x22 \<or> cp = uchar CHR 0x27 \<or> cp = uchar CHR 0x5C then
        Inr [CHR 0x5C, char_of (unat cp)]
      else if cp < 0x100 then write_codepoint 2 (CHR ''x'') cp
      else if cp < 0x10000 then write_codepoint 4 (CHR ''u'') cp
      else if cp < 0x110000 then write_codepoint 8 (CHR ''U'') cp
      else write_bytes_escaped chars)"

text \<open>The quoted string: up to the next character to escape, its escape, and on behind it.\<close>

lemma find_escape_Some:
  assumes "find_escape s = Inr (Some (off, n, cp))"
  shows "1 \<le> n \<and> n \<le> 4 \<and> off + n \<le> length s"
proof -
  have "visit find_escape_visitor (code_points s 0) None = Some (off, n, cp)"
    using assms by (simp add: find_escape_def for_each_codepoint_visits)
  moreover have "tiles o1 xs (length s) \<Longrightarrow> visit find_escape_visitor xs None = Some (off, n, cp) \<Longrightarrow>
      1 \<le> n \<and> n \<le> 4 \<and> off + n \<le> length s" for o1 xs
  proof (induction o1 xs "length s" rule: tiles.induct)
    case (2 o1 c o2 m xs)
    have "tiles o3 ys e \<Longrightarrow> o3 \<le> e" for o3 ys e by (induction o3 ys e rule: tiles.induct) auto
    then show ?case using 2 by (auto simp: find_escape_visitor_def split: if_splits)
  qed simp
  ultimately show ?thesis using code_points_tile [of 0 s] by auto
qed

function escaped_loop :: "string \<Rightarrow> string run" where
  "escaped_loop s =
     (case find_escape s of
        Inl e \<Rightarrow> Inl e
      | Inr None \<Rightarrow> Inr s
      | Inr (Some (off, n, cp)) \<Rightarrow>
          (case write_escaped_cp cp (take n (drop off s)) of
             Inl e \<Rightarrow> Inl e
           | Inr t \<Rightarrow>
               (if drop (off + n) s = [] then Inr (take off s @ t)
                else bind_run (escaped_loop (drop (off + n) s)) (\<lambda>t'. Inr (take off s @ t @ t')))))"
  by pat_completeness auto
termination
  by (relation "measure length") (auto dest: find_escape_Some)

declare escaped_loop.simps [simp del]

definition write_escaped_string :: "string \<Rightarrow> string run" where
  "write_escaped_string s = bind_run (escaped_loop s) (\<lambda>t. Inr ([CHR 0x22] @ t @ [CHR 0x22]))"

text \<open>A character, which is signed: a byte from 0x80 on becomes a code point that is none.\<close>

definition signed_char_code :: "char \<Rightarrow> u32" where
  "signed_char_code v = scast (of_char v :: byte)"

definition write_escaped_char :: "char \<Rightarrow> string run" where
  "write_escaped_char v =
     bind_run (if (needs_escape (signed_char_code v) \<and> v \<noteq> CHR 0x22) \<or> v = CHR 0x27
               then write_escaped_cp (signed_char_code v) [v] else Inr [v]) (\<lambda>t.
     Inr ([CHR 0x27] @ t @ [CHR 0x27]))"

section \<open>Facts about the tables and the digits\<close>

fun whole_lengths :: "nat list \<Rightarrow> bool" where
  "whole_lengths [] = True"
| "whole_lengths [v] = (v AND 0x80 = 0)"
| "whole_lengths (v # w # rest) = whole_lengths (if v AND 0x80 \<noteq> 0 then rest else w # rest)"

lemma tables_whole:
  "whole_lengths normal0" "whole_lengths normal1"
  "sum_list (map snd singletons0) = length singletons0_lower" "sum_list (map snd singletons1) = length singletons1_lower"
  by (simp_all add: normal0_def normal1_def singletons0_def singletons0_lower_def singletons1_def singletons1_lower_def)

section \<open>The digits of a number\<close>

function radix_digits :: "nat \<Rightarrow> nat \<Rightarrow> nat list" where
  "radix_digits bits v =
     (if bits = 0 \<or> drop_bit bits v = 0 then [v mod 2 ^ bits]
      else radix_digits bits (drop_bit bits v) @ [v mod 2 ^ bits])"
  by pat_completeness auto
termination
  by (relation "measure snd") (auto simp: drop_bit_less)

declare radix_digits.simps [simp del]

lemma length_radix_digits: "count_bits_loop bits v = length (radix_digits bits v)"
  by (induction bits v rule: radix_digits.induct) (subst count_bits_loop.simps, subst radix_digits.simps, simp)

lemma radix_digits_nonempty [simp]: "radix_digits bits v \<noteq> []"
  by (simp add: radix_digits.simps [of bits v])

lemma radix_digits_one: "drop_bit bits v = 0 \<Longrightarrow> radix_digits bits v = [v mod 2 ^ bits]"
  and radix_digits_more: "0 < bits \<Longrightarrow> drop_bit bits v \<noteq> 0 \<Longrightarrow> radix_digits bits v = radix_digits bits (drop_bit bits v) @ [v mod 2 ^ bits]"
  by (simp_all add: radix_digits.simps [of bits v])

lemma format_uint_loop_eq:
  assumes "0 < bits"
  shows "length (radix_digits bits v) \<le> out \<Longrightarrow>
    format_uint_loop bits upper out v w =
      Inr (out - length (radix_digits bits v), map (digit_text bits upper) (radix_digits bits v) @ w)"
proof (induction "length (radix_digits bits v)" arbitrary: v out w rule: less_induct)
  case less
  have m: "v AND mask bits = v mod 2 ^ bits" by (simp only: take_bit_eq_mask [symmetric] take_bit_eq_mod)
  have out: "0 < out" using less.prems by (cases "radix_digits bits v") auto
  show ?case
  proof (cases "drop_bit bits v = 0")
    case True
    then show ?thesis
      using out by (simp add: format_uint_loop.simps [of _ _ _ v] radix_digits_one m)
  next
    case False
    note d = radix_digits_more [OF assms False]
    then show ?thesis
      using False out less.prems less.hyps [of "drop_bit bits v" "out - 1" "digit_text bits upper (v mod 2 ^ bits) # w"]
      by (simp add: format_uint_loop.simps [of _ _ _ v] m Let_def d)
  qed
qed

lemma radix_digits_bounds:
  assumes "0 < bits"
  shows "v < 2 ^ (bits * length (radix_digits bits v)) \<and>
    (1 < length (radix_digits bits v) \<longrightarrow> 2 ^ (bits * (length (radix_digits bits v) - 1)) \<le> v)"
proof (induction "length (radix_digits bits v)" arbitrary: v rule: less_induct)
  case less
  show ?case
  proof (cases "drop_bit bits v = 0")
    case True
    then show ?thesis by (simp add: radix_digits_one drop_bit_eq_div div_eq_0_iff)
  next
    case False
    note d = radix_digits_more [OF assms False]
    define L where "L = length (radix_digits bits (drop_bit bits v))"
    have L: "0 < L" by (simp add: L_def)
    have ih: "drop_bit bits v < 2 ^ (bits * L)" "1 < L \<longrightarrow> 2 ^ (bits * (L - 1)) \<le> drop_bit bits v"
      using less [of "drop_bit bits v"] d by (simp_all add: L_def)
    have "v div 2 ^ bits < 2 ^ (bits * L)" using ih(1) by (simp add: drop_bit_eq_div)
    then have up: "v < 2 ^ (bits * L) * 2 ^ bits" using div_less_iff_less_mult [of "2 ^ bits" v] by simp
    have "2 ^ (bits * (L - 1)) \<le> v div 2 ^ bits"
      using ih(2) L False by (cases "L = 1") (simp_all add: drop_bit_eq_div)
    then have "2 ^ (bits * (L - 1)) * 2 ^ bits \<le> v" using less_eq_div_iff_mult_less_eq [of "2 ^ bits"] by simp
    moreover have "bits * (L - 1) + bits = bits * L" using L by (cases L) simp_all
    ultimately have low: "2 ^ (bits * L) \<le> v" by (simp flip: power_add)
    show ?thesis using up low d by (simp add: L_def [symmetric] power_add mult.commute)
  qed
qed

lemma radix_length_le:
  assumes "0 < bits" and "v < 2 ^ (bits * w)" and "0 < w"
  shows "length (radix_digits bits v) \<le> w"
proof (rule ccontr)
  define L where "L = length (radix_digits bits v)"
  assume "\<not> length (radix_digits bits v) \<le> w"
  then have L: "w \<le> L - 1" "1 < L" using assms(3) by (simp_all add: L_def)
  then have "2 ^ (bits * (L - 1)) \<le> v" using radix_digits_bounds [OF assms(1), of v] by (simp add: L_def)
  then have "(2::nat) ^ (bits * (L - 1)) < 2 ^ (bits * w)" using assms(2) le_less_trans by blast
  then have "bits * (L - 1) < bits * w" by (rule power_less_imp_less_exp [rotated]) simp
  with L(1) show False using mult_le_mono2 not_less by blast
qed

text \<open>The position of the highest bit gives the number of digits.\<close>

lemma count_digits_bits_eq:
  assumes "0 < bits" and "num_bits = 32 \<Longrightarrow> n < 2 ^ 32"
  shows "count_digits_bits bits num_bits n = length (radix_digits bits n)"
proof (cases "num_bits = 32")
  case False
  then show ?thesis by (simp add: count_digits_bits_def length_radix_digits)
next
  case True
  define h where "h = highest_bit (n OR 1)"
  define L where "L = length (radix_digits bits n)"
  have n: "n < 2 ^ 32" using assms(2) True by simp
  note hb = highest_bit_or_one [OF n, folded h_def]
  have h32: "h < 32" by (rule hb(1)) simp
  have up: "n < 2 ^ Suc h" by (rule hb(2)) simp
  have idx: "builtin_clz 32 (n OR 1) XOR 31 = h"
    unfolding builtin_clz_def h_def [symmetric] using clz_xor(2) [OF h32] by simp
  have Lb: "n < 2 ^ (bits * L)" "1 < L \<longrightarrow> 2 ^ (bits * (L - 1)) \<le> n" "0 < L"
    using radix_digits_bounds [OF assms(1), of n] by (simp_all add: L_def)
  have "h < bits * L"
  proof (cases "h = 0")
    case False
    then have "2 ^ h \<le> n" using hb(3) by simp
    then have "(2::nat) ^ h < 2 ^ (bits * L)" using Lb(1) by (rule le_less_trans)
    then show ?thesis by (rule power_less_imp_less_exp [rotated]) simp
  qed (use assms(1) Lb(3) in simp)
  then have "h div bits < L" by (simp add: assms(1) div_less_iff_less_mult mult.commute)
  moreover have "L - 1 \<le> h div bits"
  proof (cases "1 < L")
    case True
    then have "2 ^ (bits * (L - 1)) \<le> n" using Lb(2) by simp
    then have "(2::nat) ^ (bits * (L - 1)) < 2 ^ Suc h" using up by (rule le_less_trans)
    then have "bits * (L - 1) < Suc h" by (rule power_less_imp_less_exp [rotated]) simp
    then have "bits * (L - 1) \<le> h" by simp
    then show ?thesis by (simp add: assms(1) less_eq_div_iff_mult_less_eq mult.commute)
  qed simp
  ultimately have "L = h div bits + 1" by linarith
  then show ?thesis unfolding count_digits_bits_def idx using True by (simp add: L_def)
qed

lemma format_uint_eq:
  assumes "0 < bits" and "length (radix_digits bits n) \<le> num_digits"
  shows "format_uint bits n num_digits upper =
    Inr (num_digits - length (radix_digits bits n), map (digit_text bits upper) (radix_digits bits n))"
  using format_uint_loop_eq [OF assms] by (simp add: format_uint_def)

text \<open>Reading the digits again.\<close>

lemma radix_digits_value: "0 < bits \<Longrightarrow> foldl (\<lambda>a d. a * 2 ^ bits + d) 0 (radix_digits bits n) = n"
proof (induction "length (radix_digits bits n)" arbitrary: n rule: less_induct)
  case less
  show ?case
  proof (cases "drop_bit bits n = 0")
    case True
    then show ?thesis by (simp add: radix_digits_one drop_bit_eq_div div_eq_0_iff)
  next
    case False
    note d = radix_digits_more [OF less.prems False]
    have tl: "foldl (\<lambda>a d. a * 2 ^ bits + d) 0 (radix_digits bits (drop_bit bits n)) = drop_bit bits n"
      by (rule less.hyps [OF _ less.prems]) (simp add: d)
    show ?thesis unfolding d foldl_append tl foldl.simps by (simp only: drop_bit_eq_div div_mult_mod_eq)
  qed
qed

lemma radix_digits_less: "d \<in> set (radix_digits bits n) \<Longrightarrow> d < 2 ^ bits"
  by (induction bits n rule: radix_digits.induct) (subst (asm) (2) radix_digits.simps, auto split: if_splits)

section \<open>Escapes end in a text\<close>

lemma write_codepoint_total:
  assumes "unat cp < 16 ^ width" and "0 < width"
  shows "\<exists>t. write_codepoint width prefix cp = Inr t"
proof -
  have "length (radix_digits 4 (unat cp)) \<le> width"
    by (rule radix_length_le) (use assms in \<open>simp_all add: power_mult\<close>)
  then show ?thesis by (simp add: write_codepoint_def format_uint_eq)
qed

lemma write_bytes_escaped_total: "\<exists>t. write_bytes_escaped s = Inr t"
proof (induction s)
  case (Cons c s)
  have "unat (uchar c AND 0xFF) < 256"
    using word_and_le1 [of "uchar c" "0xFF"] by (simp add: word_le_nat_alt)
  then obtain t where "write_codepoint 2 (CHR ''x'') (uchar c AND 0xFF) = Inr t"
    using write_codepoint_total [of "uchar c AND 0xFF" 2] by auto
  then show ?case using Cons by auto
qed simp

lemma write_escaped_cp_total: "\<exists>t. write_escaped_cp cp chars = Inr t"
  using write_codepoint_total [of cp 2 "CHR ''x''"] write_codepoint_total [of cp 4 "CHR ''u''"]
    write_codepoint_total [of cp 8 "CHR ''U''"] write_bytes_escaped_total [of chars]
  by (auto simp: write_escaped_cp_def word_less_nat_alt)

lemma escaped_loop_total: "\<exists>t. escaped_loop s = Inr t"
proof (induction s rule: escaped_loop.induct)
  case (1 s)
  obtain r where r: "find_escape s = Inr r" by (simp add: find_escape_def for_each_codepoint_visits)
  show ?case
  proof (cases r)
    case None
    then show ?thesis using r by (simp add: escaped_loop.simps [of s])
  next
    case (Some x)
    obtain off n cp where x: "x = (off, n, cp)" by (cases x)
    obtain t where t: "write_escaped_cp cp (take n (drop off s)) = Inr t" using write_escaped_cp_total by blast
    show ?thesis
      using "1.IH" [OF r Some x [symmetric] refl t] r Some x t by (subst escaped_loop.simps) auto
  qed
qed

lemma write_escaped_string_total: "\<exists>t. write_escaped_string s = Inr t"
  using escaped_loop_total [of s] by (auto simp: write_escaped_string_def)

lemma write_escaped_char_total: "\<exists>t. write_escaped_char c = Inr t"
  using write_escaped_cp_total [of "signed_char_code c" "[c]"] by (auto simp: write_escaped_char_def)

end
