(* ===== verification/Fmt_Write.thy ===== *)
theory Fmt_Write
  imports Fmt_Escape
begin

text \<open>
  Writing arguments in \<^verbatim>\<open>fmt\<close> (\<^verbatim>\<open>spdlog/fmt/bundled/format.h\<close>): padding, integers in every presentation
  with their prefixes, digit grouping of a locale, characters, strings and pointers. A writer
  gives the text that it appends to the buffer.
\<close>

section \<open>Padding\<close>

fun align_code :: "align_t \<Rightarrow> nat" where
  "align_code Align_none = 0"
| "align_code Align_left = 1"
| "align_code Align_right = 2"
| "align_code Align_center = 3"
| "align_code Align_numeric = 4"

text \<open>The shifts of the padding, as the string literals encode them, with the NUL behind.\<close>

definition shifts_left :: "nat list" where "shifts_left = [31, 31, 0, 1, 0]"

definition shifts_right :: "nat list" where "shifts_right = [0, 31, 0, 1, 0]"

definition fill_text :: "nat \<Rightarrow> string \<Rightarrow> string" where
  "fill_text n fill = concat (replicate n fill)"

definition write_padded :: "nat list \<Rightarrow> format_specs \<Rightarrow> nat \<Rightarrow> string \<Rightarrow> string" where
  "write_padded shifts specs width body =
     (let spec_width = nat (fs_width specs);
          padding = (if spec_width > width then spec_width - width else 0);
          left_padding = drop_bit (shifts ! align_code (fs_align specs)) padding;
          right_padding = padding - left_padding
      in (if left_padding \<noteq> 0 then fill_text left_padding (fs_fill specs) else []) @ body @
         (if right_padding \<noteq> 0 then fill_text right_padding (fs_fill specs) else []))"

definition write_bytes :: "string \<Rightarrow> format_specs \<Rightarrow> string" where
  "write_bytes bytes specs = write_padded shifts_left specs (length bytes) bytes"

section \<open>Digits\<close>

text \<open>What a buffer of that many characters holds, when the digits were written from its end.\<close>

definition digits_in :: "nat \<times> string \<Rightarrow> string" where
  "digits_in r = (case r of (out, digits) \<Rightarrow> replicate out (CHR 0x00) @ digits)"

definition uint_text :: "nat \<Rightarrow> nat \<Rightarrow> nat \<Rightarrow> bool \<Rightarrow> string run" where
  "uint_text bits number num_digits upper =
     bind_run (format_uint bits number num_digits upper) (\<lambda>r. Inr (digits_in r))"

definition decimal_text :: "nat \<Rightarrow> nat \<Rightarrow> string run" where
  "decimal_text number num_digits = bind_run (format_decimal number num_digits) (\<lambda>r. Inr (digits_in r))"

definition count_digits :: "nat \<Rightarrow> nat \<Rightarrow> nat" where
  "count_digits num_bits n =
     (if num_bits = 32 then unat (do_count_digits32 (of_nat n)) else do_count_digits64 n)"

section \<open>Characters and pointers\<close>

definition write_ptr :: "u64 \<Rightarrow> format_specs \<Rightarrow> string run" where
  "write_ptr address specs =
     (let num_digits = count_digits_bits 4 64 (unat address)
      in bind_run (uint_text 4 (unat address) num_digits False) (\<lambda>digits.
         Inr (write_padded shifts_right specs (num_digits + 2) (''0x'' @ digits))))"

definition write_char :: "char \<Rightarrow> format_specs \<Rightarrow> string run" where
  "write_char c specs =
     bind_run (if fs_type specs = Pres_debug then write_escaped_char c else Inr [c]) (\<lambda>body.
     Inr (write_padded shifts_left specs 1 body))"

definition check_char_specs :: "format_specs \<Rightarrow> bool run" where
  "check_char_specs specs =
     (if fs_type specs \<notin> {Pres_none, Pres_chr, Pres_debug} then Inr False
      else if fs_align specs = Align_numeric \<or> fs_sign specs \<noteq> Sign_none \<or> fs_alt specs
           then throw_format_error ''invalid format specifier for char''
      else Inr True)"

section \<open>Integers\<close>

text \<open>A prefix holds up to three characters, the first in the lowest byte, and their number in the highest byte.\<close>

function prefix_chars :: "u32 \<Rightarrow> string" where
  "prefix_chars p = (if p = 0 then [] else char_of (unat (p AND 0xff)) # prefix_chars (drop_bit 8 p))"
  by pat_completeness auto
termination
proof (relation "measure unat", goal_cases)
  case (2 p)
  then have "0 < unat p" by (simp add: unat_gt_0)
  then show ?case unfolding in_measure unat_drop_bit_eq by (simp add: drop_bit_eq_div)
qed simp

declare prefix_chars.simps [simp del]

definition prefix_text :: "u32 \<Rightarrow> string" where
  "prefix_text prefix = prefix_chars (prefix AND 0xffffff)"

definition prefix_size :: "u32 \<Rightarrow> nat" where
  "prefix_size prefix = unat (drop_bit 24 prefix)"

definition prefix_append :: "u32 \<Rightarrow> u32 \<Rightarrow> u32" where
  "prefix_append prefix added =
     (prefix OR (if prefix \<noteq> 0 then push_bit 8 added else added)) + push_bit 24 (1 + (if added > 0xff then 1 else 0))"

text \<open>The size of an integer with its prefix, and the zeros in front of the digits.\<close>

definition write_int_data :: "nat \<Rightarrow> u32 \<Rightarrow> format_specs \<Rightarrow> nat \<times> nat" where
  "write_int_data num_digits prefix specs =
     (let sz = prefix_size prefix + num_digits
      in if fs_align specs = Align_numeric then
           (let width = nat (fs_width specs) in if width > sz then (width, width - sz) else (sz, 0))
         else if fs_precision specs > int num_digits then
           (prefix_size prefix + nat (fs_precision specs), nat (fs_precision specs - int num_digits))
         else (sz, 0))"

definition write_int_digits :: "nat \<Rightarrow> u32 \<Rightarrow> format_specs \<Rightarrow> string \<Rightarrow> string" where
  "write_int_digits num_digits prefix specs digits =
     (if fs_width specs OR (fs_precision specs + 1) = 0 then
        (if prefix \<noteq> 0 then prefix_text prefix else []) @ digits
      else (case write_int_data num_digits prefix specs of
              (sz, padding) \<Rightarrow>
                write_padded shifts_right specs sz (prefix_text prefix @ replicate padding (CHR ''0'') @ digits)))"

text \<open>The two characters of a base prefix; the upper letter is the second one.\<close>

definition base_prefix :: "char \<Rightarrow> u32" where
  "base_prefix letter = push_bit 8 (uchar letter) OR uchar CHR ''0''"

datatype int_digits = Int_char | Int_digits u32 nat string

text \<open>The prefix, the number of digits and the digits of a presentation; both writers of integers use it.\<close>

definition int_presentation :: "nat \<Rightarrow> nat \<Rightarrow> u32 \<Rightarrow> format_specs \<Rightarrow> int_digits run" where
  "int_presentation num_bits abs_value prefix specs =
     (let bits = (\<lambda>b upper prefix.
            let n = count_digits_bits b num_bits abs_value
            in bind_run (uint_text b abs_value n upper) (\<lambda>digits. Inr (Int_digits prefix n digits)));
          alt = (\<lambda>letter. if fs_alt specs then prefix_append prefix (base_prefix letter) else prefix)
      in case fs_type specs of
           Pres_none \<Rightarrow> (let n = count_digits num_bits abs_value
                         in bind_run (decimal_text abs_value n) (\<lambda>digits. Inr (Int_digits prefix n digits)))
         | Pres_dec \<Rightarrow> (let n = count_digits num_bits abs_value
                        in bind_run (decimal_text abs_value n) (\<lambda>digits. Inr (Int_digits prefix n digits)))
         | Pres_hex_lower \<Rightarrow> bits 4 False (alt (CHR ''x''))
         | Pres_hex_upper \<Rightarrow> bits 4 True (alt (CHR ''X''))
         | Pres_bin_lower \<Rightarrow> bits 1 False (alt (CHR ''b''))
         | Pres_bin_upper \<Rightarrow> bits 1 False (alt (CHR ''B''))
         | Pres_oct \<Rightarrow>
             bits 3 False
               (if fs_alt specs \<and> fs_precision specs \<le> int (count_digits_bits 3 num_bits abs_value) \<and> abs_value \<noteq> 0
                then prefix_append prefix (uchar CHR ''0'') else prefix)
         | Pres_chr \<Rightarrow> Inr Int_char
         | _ \<Rightarrow> throw_format_error ''invalid format specifier'')"

definition write_int :: "nat \<Rightarrow> nat \<Rightarrow> u32 \<Rightarrow> format_specs \<Rightarrow> string run" where
  "write_int num_bits abs_value prefix specs =
     bind_run (int_presentation num_bits abs_value prefix specs) (\<lambda>d.
       case d of
         Int_char \<Rightarrow> write_char (char_of (abs_value mod 256)) specs
       | Int_digits prefix' n digits \<Rightarrow> Inr (write_int_digits n prefix' specs digits))"

text \<open>The absolute value at the width of the type, and the prefix of the sign.\<close>

definition make_write_int_arg :: "bool \<Rightarrow> 'a::len word \<Rightarrow> sign_t \<Rightarrow> 'a word \<times> u32" where
  "make_write_int_arg is_signed v sign =
     (if is_signed \<and> sint v < 0 then (0 - v, 0x1000000 OR uchar CHR ''-'')
      else (v, case sign of Sign_none \<Rightarrow> 0 | Sign_minus \<Rightarrow> 0
               | Sign_plus \<Rightarrow> 0x1000000 OR uchar CHR ''+'' | Sign_space \<Rightarrow> 0x1000000 OR uchar CHR '' ''))"

section \<open>Digit grouping\<close>

text \<open>The grouping and the separator of the global locale.\<close>

record numpunct =
  np_grouping :: string
  np_thousands_sep :: char

text \<open>The classic locale groups nothing.\<close>

definition classic_numpunct :: numpunct where
  "classic_numpunct = \<lparr>np_grouping = [], np_thousands_sep = CHR '',''\<rparr>"

definition char_int :: "char \<Rightarrow> int" where
  "char_int c = sint (of_char c :: byte)"

text \<open>The next position of a separator; the state is the rest of the groups and the position.\<close>

definition grouping_next :: "string \<Rightarrow> string \<Rightarrow> string \<times> int \<Rightarrow> (int \<times> string \<times> int) run" where
  "grouping_next grouping sep st =
     (case st of (grp, pos) \<Rightarrow>
        if sep = [] then Inr (2147483647, st)
        else (case grp of
                [] \<Rightarrow> guard_run Out_of_bounds (grouping \<noteq> [])
                        (Inr (pos + char_int (last grouping), [], pos + char_int (last grouping)))
              | g # rest \<Rightarrow>
                  if char_int g \<le> 0 \<or> char_int g = 127 then Inr (2147483647, st)
                  else Inr (pos + char_int g, rest, pos + char_int g)))"

text \<open>The loops over the positions below the number of digits, with one round more than there are digits.\<close>

fun count_separators_loop :: "nat \<Rightarrow> string \<Rightarrow> string \<Rightarrow> nat \<Rightarrow> string \<times> int \<Rightarrow> nat \<Rightarrow> nat run" where
  "count_separators_loop 0 grouping sep num_digits st num = Inl Diverge"
| "count_separators_loop (Suc fuel) grouping sep num_digits st num =
     bind_run (grouping_next grouping sep st) (\<lambda>(i, st').
       if int num_digits > i then count_separators_loop fuel grouping sep num_digits st' (num + 1) else Inr num)"

definition count_separators :: "string \<Rightarrow> string \<Rightarrow> nat \<Rightarrow> nat run" where
  "count_separators grouping sep num_digits =
     count_separators_loop (num_digits + 1) grouping sep num_digits (grouping, 0) 0"

text \<open>The separators on a stack, the last one on top.\<close>

fun separators_loop :: "nat \<Rightarrow> string \<Rightarrow> string \<Rightarrow> nat \<Rightarrow> string \<times> int \<Rightarrow> int list \<Rightarrow> int list run" where
  "separators_loop 0 grouping sep num_digits st separators = Inl Diverge"
| "separators_loop (Suc fuel) grouping sep num_digits st separators =
     bind_run (grouping_next grouping sep st) (\<lambda>(i, st').
       if i = 0 \<or> i \<ge> int num_digits then Inr separators
       else separators_loop fuel grouping sep num_digits st' (i # separators))"

fun apply_loop :: "string \<Rightarrow> string \<Rightarrow> int list \<Rightarrow> string run" where
  "apply_loop sep [] separators = Inr []"
| "apply_loop sep (d # digits) [] = Inl Out_of_bounds"
| "apply_loop sep (d # digits) (s # separators) =
     bind_run (apply_loop sep digits (if int (length (d # digits)) = s then separators else s # separators)) (\<lambda>t.
       Inr ((if int (length (d # digits)) = s then sep else []) @ [d] @ t))"

definition grouping_apply :: "string \<Rightarrow> string \<Rightarrow> string \<Rightarrow> string run" where
  "grouping_apply grouping sep digits =
     bind_run (separators_loop (length digits + 1) grouping sep (length digits) (grouping, 0) [0]) (\<lambda>separators.
       apply_loop sep digits separators)"

definition write_int_grouped :: "string \<Rightarrow> string \<Rightarrow> nat \<Rightarrow> u32 \<Rightarrow> format_specs \<Rightarrow> string run" where
  "write_int_grouped grouping sep abs_value prefix specs =
     bind_run (int_presentation 64 abs_value prefix specs) (\<lambda>d.
       case d of
         Int_char \<Rightarrow> write_char (char_of (abs_value mod 256)) specs
       | Int_digits prefix' n digits \<Rightarrow>
           bind_run (count_separators grouping sep n) (\<lambda>m.
           bind_run (grouping_apply grouping sep digits) (\<lambda>body.
             let sz = (if prefix' \<noteq> 0 then prefix_size prefix' else 0) + n + m
             in Inr (write_padded shifts_right specs sz (prefix_text prefix' @ body)))))"

text \<open>Without a facet of its own, a locale has the separator if it has a grouping.\<close>

definition facet_sep :: "numpunct \<Rightarrow> string" where
  "facet_sep np = (if np_grouping np \<noteq> [] then [np_thousands_sep np] else [])"

text \<open>\<open>write\<close> of an integer: the localized writer takes every integer.\<close>

definition write_integer :: "numpunct \<Rightarrow> nat \<Rightarrow> bool \<Rightarrow> 'a::len word \<Rightarrow> format_specs \<Rightarrow> string run" where
  "write_integer np num_bits is_signed v specs =
     (case make_write_int_arg is_signed v (fs_sign specs) of (abs_value, prefix) \<Rightarrow>
        if fs_localized specs then write_int_grouped (np_grouping np) (facet_sep np) (unat abs_value) prefix specs
        else write_int num_bits (unat abs_value) prefix specs)"

section \<open>Arguments\<close>

text \<open>
  The arguments of the types the program logs; a C string is an address with the text there, and null
  without one. Floating point numbers, 128-bit integers and user types are left out.
\<close>

datatype fmt_arg =
    Arg_int i32
  | Arg_uint u32
  | Arg_long_long u64
  | Arg_ulong_long u64
  | Arg_bool bool
  | Arg_char char
  | Arg_cstring u64 string
  | Arg_string string
  | Arg_pointer u64

fun type_of_arg :: "fmt_arg \<Rightarrow> fmt_type" where
  "type_of_arg (Arg_int _) = Int_type"
| "type_of_arg (Arg_uint _) = Uint_type"
| "type_of_arg (Arg_long_long _) = Long_long_type"
| "type_of_arg (Arg_ulong_long _) = Ulong_long_type"
| "type_of_arg (Arg_bool _) = Bool_type"
| "type_of_arg (Arg_char _) = Char_type"
| "type_of_arg (Arg_cstring _ _) = Cstring_type"
| "type_of_arg (Arg_string _) = String_type"
| "type_of_arg (Arg_pointer _) = Pointer_type"

definition write_string :: "string \<Rightarrow> format_specs \<Rightarrow> string run" where
  "write_string s specs =
     bind_run (if fs_precision specs \<ge> 0 \<and> nat (fs_precision specs) < length s
               then code_point_index s (nat (fs_precision specs)) else Inr (length s)) (\<lambda>len.
       let is_debug = fs_type specs = Pres_debug
       in bind_run (if is_debug then write_escaped_string s else Inr (take len s)) (\<lambda>body.
          bind_run (if fs_width specs \<noteq> 0
                    then (if is_debug then Inr (length body) else compute_width (take len s)) else Inr 0) (\<lambda>width.
          Inr (write_padded shifts_left specs width body))))"

definition write_cstring :: "u64 \<Rightarrow> string \<Rightarrow> format_specs \<Rightarrow> string run" where
  "write_cstring address s specs =
     (if fs_type specs = Pres_pointer then write_ptr address specs
      else if address = 0 then throw_format_error ''string pointer is null''
      else write_string s specs)"

definition write_bool :: "numpunct \<Rightarrow> bool \<Rightarrow> format_specs \<Rightarrow> string run" where
  "write_bool np b specs =
     (if fs_type specs \<noteq> Pres_none \<and> fs_type specs \<noteq> Pres_string
      then write_integer np 32 True (if b then 1 else 0 :: u32) specs
      else Inr (write_bytes (if b then ''true'' else ''false'') specs))"

definition write_char_arg :: "numpunct \<Rightarrow> char \<Rightarrow> format_specs \<Rightarrow> string run" where
  "write_char_arg np c specs =
     bind_run (check_char_specs specs) (\<lambda>char_like.
       if char_like then write_char c specs else write_integer np 32 False (uchar c) specs)"

text \<open>The visitor \<^verbatim>\<open>arg_formatter\<close>: an argument with specifications.\<close>

fun arg_formatter :: "numpunct \<Rightarrow> format_specs \<Rightarrow> fmt_arg \<Rightarrow> string run" where
  "arg_formatter np specs (Arg_int v) = write_integer np 32 True v specs"
| "arg_formatter np specs (Arg_uint v) = write_integer np 32 False v specs"
| "arg_formatter np specs (Arg_long_long v) = write_integer np 64 True v specs"
| "arg_formatter np specs (Arg_ulong_long v) = write_integer np 64 False v specs"
| "arg_formatter np specs (Arg_bool b) = write_bool np b specs"
| "arg_formatter np specs (Arg_char c) = write_char_arg np c specs"
| "arg_formatter np specs (Arg_cstring a s) = write_cstring a s specs"
| "arg_formatter np specs (Arg_string s) = write_string s specs"
| "arg_formatter np specs (Arg_pointer a) = write_ptr a specs"

text \<open>\<open>write\<close> of an integer without specifications.\<close>

definition write_plain_int :: "nat \<Rightarrow> bool \<Rightarrow> 'a::len word \<Rightarrow> string run" where
  "write_plain_int num_bits is_signed v =
     (let negative = is_signed \<and> sint v < 0;
          abs_value = (if negative then NOT v + 1 else v);
          num_digits = count_digits num_bits (unat abs_value)
      in bind_run (decimal_text (unat abs_value) num_digits) (\<lambda>digits.
         Inr ((if negative then ''-'' else []) @ digits)))"

text \<open>The visitor \<^verbatim>\<open>default_arg_formatter\<close>: the field \<^verbatim>\<open>{}\<close>.\<close>

fun default_arg_formatter :: "fmt_arg \<Rightarrow> string run" where
  "default_arg_formatter (Arg_int v) = write_plain_int 32 True v"
| "default_arg_formatter (Arg_uint v) = write_plain_int 32 False v"
| "default_arg_formatter (Arg_long_long v) = write_plain_int 64 True v"
| "default_arg_formatter (Arg_ulong_long v) = write_plain_int 64 False v"
| "default_arg_formatter (Arg_bool b) = Inr (write_bytes (if b then ''true'' else ''false'') format_specs_new)"
| "default_arg_formatter (Arg_char c) = Inr [c]"
| "default_arg_formatter (Arg_cstring a s) =
     (if a \<noteq> 0 then Inr s else throw_format_error ''string pointer is null'')"
| "default_arg_formatter (Arg_string s) = Inr s"
| "default_arg_formatter (Arg_pointer a) = write_ptr a format_specs_new"

section \<open>Dynamic widths and precisions\<close>

definition width_error :: "bool \<Rightarrow> string" where
  "width_error precision = (if precision then ''precision'' else ''width'')"

definition check_number :: "bool \<Rightarrow> bool \<Rightarrow> 'a::len word \<Rightarrow> u64 run" where
  "check_number precision is_signed v =
     (if is_signed \<and> sint v < 0 then throw_format_error (''negative '' @ width_error precision)
      else Inr (of_int (if is_signed then sint v else uint v)))"

text \<open>\<^verbatim>\<open>width_checker\<close> and \<^verbatim>\<open>precision_checker\<close>: only integers, no bool and no character.\<close>

fun spec_checker :: "bool \<Rightarrow> fmt_arg \<Rightarrow> u64 run" where
  "spec_checker precision (Arg_int v) = check_number precision True v"
| "spec_checker precision (Arg_uint v) = check_number precision False v"
| "spec_checker precision (Arg_long_long v) = check_number precision True v"
| "spec_checker precision (Arg_ulong_long v) = check_number precision False v"
| "spec_checker precision _ = throw_format_error (width_error precision @ '' is not integer'')"

definition get_dynamic_spec :: "bool \<Rightarrow> fmt_arg \<Rightarrow> int run" where
  "get_dynamic_spec precision arg =
     bind_run (spec_checker precision arg) (\<lambda>v.
       if v > 0x7fffffff then throw_format_error ''number is too big'' else Inr (uint v))"

section \<open>Writers end in a text or a format error\<close>

lemma count_digits_eq:
  assumes "num_bits = 32 \<and> n < 2 ^ 32 \<or> num_bits = 64 \<and> n < 2 ^ 64"
  shows "count_digits num_bits n = length (decimal n)"
  using assms do_count_digits32_eq [of "of_nat n"] do_count_digits64_eq [of n]
  by (auto simp: count_digits_def unat_of_nat_u32)

lemma decimal_text_eq: "decimal_text n (length (decimal n)) = Inr (decimal n)"
  by (simp add: decimal_text_def format_decimal_def format_decimal_loop_eq digits_in_def)

lemma uint_text_eq:
  assumes "0 < bits"
  shows "uint_text bits n (length (radix_digits bits n)) upper = Inr (map (digit_text bits upper) (radix_digits bits n))"
  using assms by (simp add: uint_text_def format_uint_eq digits_in_def)

lemma write_ptr_eq:
  "write_ptr a specs = Inr (write_padded shifts_right specs (length (radix_digits 4 (unat a)) + 2)
     (''0x'' @ map (digit_text 4 False) (radix_digits 4 (unat a))))"
  by (simp add: write_ptr_def count_digits_bits_eq uint_text_eq)

lemma write_char_total: "\<exists>t. write_char c specs = Inr t"
  using write_escaped_char_total [of c] by (auto simp: write_char_def)

lemma int_presentation_safe:
  assumes "num_bits = 32 \<and> n < 2 ^ 32 \<or> num_bits = 64 \<and> n < 2 ^ 64"
  shows "format_safe (int_presentation num_bits n prefix specs)"
    and "int_presentation num_bits n prefix specs = Inr (Int_digits p k ds) \<Longrightarrow> k = length ds \<and> k \<le> 64"
proof -
  have d: "length (decimal n) \<le> 20" using assms by (auto intro!: length_decimal_64)
  have r: "length (radix_digits b n) \<le> 64" if "0 < b" for b
  proof (rule radix_length_le [OF that])
    have "n < 2 ^ 64" using assms by auto
    also have "(2::nat) ^ 64 \<le> 2 ^ (b * 64)" using that by (intro power_increasing) simp_all
    finally show "n < 2 ^ (b * 64)" .
  qed simp
  have cb: "count_digits_bits b num_bits n = length (radix_digits b n)" if "0 < b" for b
    using assms that by (intro count_digits_bits_eq) auto
  note defs = int_presentation_def Let_def cb uint_text_eq count_digits_eq [OF assms] decimal_text_eq
  show "format_safe (int_presentation num_bits n prefix specs)"
    by (cases "fs_type specs") (simp_all add: defs)
  show "int_presentation num_bits n prefix specs = Inr (Int_digits p k ds) \<Longrightarrow> k = length ds \<and> k \<le> 64"
    using d r [of 1] r [of 3] r [of 4] by (cases "fs_type specs") (auto simp: defs)
qed

lemma write_int_safe:
  assumes "num_bits = 32 \<and> n < 2 ^ 32 \<or> num_bits = 64 \<and> n < 2 ^ 64"
  shows "format_safe (write_int num_bits n prefix specs)"
proof -
  have "format_safe (case d of Int_char \<Rightarrow> write_char (char_of (n mod 256)) specs
      | Int_digits prefix' k digits \<Rightarrow> Inr (write_int_digits k prefix' specs digits))" for d
    using write_char_total [of "char_of (n mod 256)" specs] by (cases d) (auto simp: format_safe_def)
  then show ?thesis
    unfolding write_int_def by (intro format_safe_bind int_presentation_safe(1) [OF assms])
qed

text \<open>Positions of separators grow: a group that is passed is positive.\<close>

definition grouping_inv :: "string \<Rightarrow> string \<times> int \<Rightarrow> bool" where
  "grouping_inv grouping st \<longleftrightarrow> (\<exists>pre. grouping = pre @ fst st \<and> list_all (\<lambda>g. 0 < char_int g) pre)"

lemma grouping_next_grows:
  assumes "grouping_inv grouping st" and "sep \<noteq> [] \<Longrightarrow> grouping \<noteq> []"
  obtains i st' where "grouping_next grouping sep st = Inr (i, st')" "grouping_inv grouping st'"
    "i = 2147483647 \<or> i = snd st' \<and> snd st < i"
proof (cases "sep = []")
  case True
  then show ?thesis using assms that [of 2147483647 st] by (cases st) (simp add: grouping_next_def)
next
  case False
  obtain grp pos where st: "st = (grp, pos)" by (cases st)
  obtain pre where pre: "grouping = pre @ grp" "list_all (\<lambda>g. 0 < char_int g) pre"
    using assms(1) st by (auto simp: grouping_inv_def)
  show ?thesis
  proof (cases grp)
    case Nil
    have "0 < char_int (last grouping)"
      using pre Nil assms(2) False by (simp add: list_all_iff)
    then show ?thesis
      using that [of "pos + char_int (last grouping)" "([], pos + char_int (last grouping))"] assms(2) False st Nil pre
      by (auto simp: grouping_next_def grouping_inv_def)
  next
    case (Cons g rest)
    show ?thesis
    proof (cases "char_int g \<le> 0 \<or> char_int g = 127")
      case True
      then show ?thesis using that [of 2147483647 st] False st Cons assms(1) by (auto simp: grouping_next_def)
    next
      case bounded: False
      have "grouping_inv grouping (rest, pos + char_int g)"
        unfolding grouping_inv_def using pre Cons bounded by (intro exI [of _ "pre @ [g]"]) simp
      then show ?thesis
        using that [of "pos + char_int g" "(rest, pos + char_int g)"] False st Cons bounded by (simp add: grouping_next_def)
    qed
  qed
qed

lemma count_separators_loop_total:
  assumes "sep \<noteq> [] \<Longrightarrow> grouping \<noteq> []" and "n \<le> 64"
  shows "grouping_inv grouping st \<Longrightarrow> int n < snd st + int fuel \<Longrightarrow> 0 < fuel \<Longrightarrow>
    \<exists>m. count_separators_loop fuel grouping sep n st num = Inr m"
proof (induction fuel arbitrary: st num)
  case (Suc fuel)
  obtain i st' where s: "grouping_next grouping sep st = Inr (i, st')" "grouping_inv grouping st'"
    "i = 2147483647 \<or> i = snd st' \<and> snd st < i"
    using grouping_next_grows [OF Suc.prems(1) assms(1)] by metis
  show ?case
  proof (cases "int n > i")
    case True
    then have "int n < snd st' + int fuel" "0 < fuel" using s(3) Suc.prems(2) assms(2) by auto
    then show ?thesis using Suc.IH [OF s(2)] s(1) True by simp
  qed (simp add: s(1))
qed simp

lemma separators_loop_total:
  assumes "sep \<noteq> [] \<Longrightarrow> grouping \<noteq> []" and "n \<le> 64"
  shows "grouping_inv grouping st \<Longrightarrow> int n < snd st + int fuel \<Longrightarrow> 0 < fuel \<Longrightarrow> seps \<noteq> [] \<Longrightarrow> last seps = 0 \<Longrightarrow>
    \<exists>seps'. separators_loop fuel grouping sep n st seps = Inr seps' \<and> seps' \<noteq> [] \<and> last seps' = 0"
proof (induction fuel arbitrary: st seps)
  case (Suc fuel)
  obtain i st' where s: "grouping_next grouping sep st = Inr (i, st')" "grouping_inv grouping st'"
    "i = 2147483647 \<or> i = snd st' \<and> snd st < i"
    using grouping_next_grows [OF Suc.prems(1) assms(1)] by metis
  show ?case
  proof (cases "i = 0 \<or> i \<ge> int n")
    case False
    then have "int n < snd st' + int fuel" "0 < fuel" using s(3) Suc.prems(2) assms(2) by auto
    then show ?thesis using Suc.IH [OF s(2), of "i # seps"] s(1) False Suc.prems(4,5) by simp
  qed (use s(1) Suc.prems in auto)
qed simp

lemma apply_loop_total: "seps \<noteq> [] \<Longrightarrow> last seps = 0 \<Longrightarrow> \<exists>t. apply_loop sep digits seps = Inr t"
proof (induction digits arbitrary: seps)
  case (Cons d digits)
  obtain s rest where seps: "seps = s # rest" using Cons.prems(1) by (cases seps) simp_all
  have "\<exists>t. apply_loop sep digits (if int (length (d # digits)) = s then rest else s # rest) = Inr t"
    using Cons.prems seps by (intro Cons.IH) (auto split: if_splits)
  then show ?case using seps by auto
qed simp

lemma grouping_total:
  assumes "sep \<noteq> [] \<Longrightarrow> grouping \<noteq> []" and "n \<le> 64" and "length digits \<le> 64"
  shows "\<exists>m. count_separators grouping sep n = Inr m" and "\<exists>t. grouping_apply grouping sep digits = Inr t"
proof -
  have inv: "grouping_inv grouping (grouping, 0)" by (simp add: grouping_inv_def)
  show "\<exists>m. count_separators grouping sep n = Inr m"
    unfolding count_separators_def by (rule count_separators_loop_total [OF assms(1,2) inv]) simp_all
  obtain seps where "separators_loop (length digits + 1) grouping sep (length digits) (grouping, 0) [0] = Inr seps"
    "seps \<noteq> []" "last seps = 0"
    using separators_loop_total [OF assms(1,3) inv, where fuel = "length digits + 1" and seps = "[0]"] by auto
  then show "\<exists>t. grouping_apply grouping sep digits = Inr t"
    using apply_loop_total [of seps sep digits] by (simp add: grouping_apply_def)
qed

lemma write_int_grouped_safe:
  assumes "n < 2 ^ 64"
  shows "format_safe (write_int_grouped (np_grouping np) (facet_sep np) n prefix specs)"
proof -
  have sep: "facet_sep np \<noteq> [] \<Longrightarrow> np_grouping np \<noteq> []" by (auto simp: facet_sep_def)
  have n: "64 = (32 :: nat) \<and> n < 2 ^ 32 \<or> 64 = (64 :: nat) \<and> n < 2 ^ 64" using assms by simp
  show ?thesis
    unfolding write_int_grouped_def
  proof (intro format_safe_bind int_presentation_safe(1) [OF n])
    fix d assume d: "int_presentation 64 n prefix specs = Inr d"
    show "format_safe (case d of Int_char \<Rightarrow> write_char (char_of (n mod 256)) specs
       | Int_digits prefix' k digits \<Rightarrow>
           bind_run (count_separators (np_grouping np) (facet_sep np) k) (\<lambda>m.
           bind_run (grouping_apply (np_grouping np) (facet_sep np) digits) (\<lambda>body.
             let sz = (if prefix' \<noteq> 0 then prefix_size prefix' else 0) + k + m
             in Inr (write_padded shifts_right specs sz (prefix_text prefix' @ body)))))"
    proof (cases d)
      case Int_char
      then show ?thesis using write_char_total [of "char_of (n mod 256)" specs] by (auto simp: format_safe_def)
    next
      case (Int_digits p k ds)
      then have "k = length ds" "k \<le> 64" using int_presentation_safe(2) [OF n] d by blast+
      then show ?thesis using grouping_total [where sep = "facet_sep np" and grouping = "np_grouping np" and n = k and digits = ds, OF sep] Int_digits by auto
    qed
  qed
qed

lemma write_integer_safe:
  fixes v :: "'a::len word"
  assumes "num_bits = 32 \<and> LENGTH('a) = 32 \<or> num_bits = 64 \<and> LENGTH('a) = 64"
  shows "format_safe (write_integer np num_bits is_signed v specs)"
proof -
  obtain a p where a: "make_write_int_arg is_signed v (fs_sign specs) = (a, p)" by fastforce
  have "unat a < 2 ^ LENGTH('a)" by (rule unsigned_less)
  then have n: "num_bits = 32 \<and> unat a < 2 ^ 32 \<or> num_bits = 64 \<and> unat a < 2 ^ 64" using assms by metis
  then have "unat a < 2 ^ 64" by auto
  from write_int_grouped_safe [OF this] write_int_safe [OF n] show ?thesis by (simp add: write_integer_def a)
qed

lemma tiles_le: "tiles off xs e \<Longrightarrow> off \<le> e"
  by (induction off xs e rule: tiles.induct) auto

lemma find_code_point_result:
  "tiles off xs e \<Longrightarrow> snd st = e \<Longrightarrow> snd (visit find_code_point xs st) \<le> e"
proof (induction off xs e arbitrary: st rule: tiles.induct)
  case (2 off c o1 n xs e)
  then have "off \<le> e" using tiles_le [of "off + n" xs e] by simp
  then show ?case using 2 by (cases st) (auto simp: find_code_point_def)
qed simp

lemma code_point_index_total: "\<exists>i. code_point_index s n = Inr i \<and> i \<le> length s"
  using find_code_point_result [OF code_points_tile [of 0 s], of "(n, length s)"]
  by (simp add: code_point_index_def for_each_codepoint_visits case_prod_beta)

lemma compute_width_total: "\<exists>w. compute_width s = Inr w"
  by (simp add: compute_width_def for_each_codepoint_visits)

lemma write_string_total: "\<exists>t. write_string s specs = Inr t"
proof -
  obtain i where i: "code_point_index s (nat (fs_precision specs)) = Inr i" using code_point_index_total by blast
  obtain e where e: "write_escaped_string s = Inr e" using write_escaped_string_total by blast
  obtain cw where cw: "\<And>x. compute_width x = Inr (cw x)" using compute_width_total by metis
  show ?thesis by (simp add: write_string_def Let_def i e cw)
qed

lemma arg_formatter_safe: "format_safe (arg_formatter np specs arg)"
proof (cases arg)
  case (Arg_bool b)
  then show ?thesis by (simp add: write_bool_def write_integer_safe)
next
  case (Arg_char c)
  obtain t where t: "write_char c specs = Inr t" using write_char_total by blast
  have "format_safe (check_char_specs specs)" by (simp add: check_char_specs_def)
  then have "format_safe (write_char_arg np c specs)"
    unfolding write_char_arg_def by (rule format_safe_bind) (simp add: t write_integer_safe)
  then show ?thesis using Arg_char by simp
next
  case (Arg_cstring a s)
  then show ?thesis using write_string_total [of s specs] by (auto simp: write_cstring_def write_ptr_eq)
next
  case (Arg_string s)
  then show ?thesis using write_string_total [of s specs] by auto
qed (simp_all add: write_integer_safe write_ptr_eq)

lemma write_plain_int_eq:
  fixes v :: "'a::len word"
  assumes "num_bits = 32 \<and> LENGTH('a) = 32 \<or> num_bits = 64 \<and> LENGTH('a) = 64"
  shows "write_plain_int num_bits is_signed v =
    Inr (if is_signed \<and> sint v < 0 then CHR ''-'' # decimal (unat (- v)) else decimal (unat v))"
proof -
  have "unat a < 2 ^ LENGTH('a)" for a :: "'a word" by (rule unsigned_less)
  then have "num_bits = 32 \<and> unat a < 2 ^ 32 \<or> num_bits = 64 \<and> unat a < 2 ^ 64" for a :: "'a word" using assms by metis
  then show ?thesis
    by (simp add: write_plain_int_def Let_def count_digits_eq decimal_text_eq minus_eq_not_plus_1)
qed

lemma default_arg_formatter_safe: "format_safe (default_arg_formatter arg)"
  by (cases arg) (simp_all add: write_plain_int_eq write_ptr_eq)

lemma get_dynamic_spec_safe: "format_safe (get_dynamic_spec precision arg)"
  unfolding get_dynamic_spec_def
  by (intro format_safe_bind; cases arg) (auto simp: check_number_def)

end
