(* ===== verification/Fmt_Format.thy ===== *)
theory Fmt_Format
  imports Fmt_Write
begin

text \<open>
  Formatting a string with arguments in \<^verbatim>\<open>fmt\<close>: the packed list of arguments (\<^verbatim>\<open>core.h\<close>), replacement
  fields, the two loops over a format string, and \<^verbatim>\<open>vformat_to\<close> with its handler (\<^verbatim>\<open>format.h\<close>).
\<close>

section \<open>Lists of arguments\<close>

text \<open>
  Up to fifteen arguments have their types in the descriptor, four bits each; more are counted
  there. Named arguments are in a list of names and indices.
\<close>

record format_args =
  fa_desc :: u64
  fa_values :: "fmt_arg list"
  fa_named :: "(string \<times> int) list"

definition is_unpacked_bit :: u64 where "is_unpacked_bit = push_bit 63 1"

definition has_named_args_bit :: u64 where "has_named_args_bit = push_bit 62 1"

definition max_packed_args :: nat where "max_packed_args = 62 div 4"

fun encode_types :: "fmt_arg list \<Rightarrow> u64" where
  "encode_types [] = 0"
| "encode_types (a # as) = of_nat (type_code (type_of_arg a)) OR push_bit 4 (encode_types as)"

definition make_format_args :: "fmt_arg list \<Rightarrow> (string \<times> int) list \<Rightarrow> format_args" where
  "make_format_args args named =
     \<lparr>fa_desc = (if length args \<le> max_packed_args then encode_types args else is_unpacked_bit OR of_nat (length args))
                OR (if named \<noteq> [] then has_named_args_bit else 0),
      fa_values = args, fa_named = named\<rparr>"

definition args_is_packed :: "format_args \<Rightarrow> bool" where
  "args_is_packed args \<longleftrightarrow> fa_desc args AND is_unpacked_bit = 0"

definition args_type :: "format_args \<Rightarrow> nat \<Rightarrow> nat" where
  "args_type args index = unat (drop_bit (index * 4) (fa_desc args) AND (push_bit 4 1 - 1))"

definition args_max_size :: "format_args \<Rightarrow> int" where
  "args_max_size args =
     (if args_is_packed args then int max_packed_args
      else sint (ucast (fa_desc args AND NOT is_unpacked_bit) :: i32))"

text \<open>An argument, or none; reading a value as another type is a bad cast.\<close>

definition args_get :: "format_args \<Rightarrow> int \<Rightarrow> fmt_arg option run" where
  "args_get args i =
     (if \<not> args_is_packed args then
        (if i < args_max_size args
         then guard_run Out_of_bounds (0 \<le> i \<and> nat i < length (fa_values args)) (Inr (Some (fa_values args ! nat i)))
         else Inr None)
      else if i \<ge> int max_packed_args then Inr None
      else guard_run Out_of_bounds (0 \<le> i)
        (if args_type args (nat i) = type_code None_type then Inr None
         else guard_run Out_of_bounds (nat i < length (fa_values args))
           (guard_run Bad_cast (type_code (type_of_arg (fa_values args ! nat i)) = args_type args (nat i))
             (Inr (Some (fa_values args ! nat i))))))"

definition args_get_id :: "format_args \<Rightarrow> string \<Rightarrow> int" where
  "args_get_id args name =
     (if fa_desc args AND has_named_args_bit = 0 then - 1
      else (case map_of (fa_named args) name of None \<Rightarrow> - 1 | Some i \<Rightarrow> i))"

definition get_arg :: "format_args \<Rightarrow> int \<Rightarrow> fmt_arg run" where
  "get_arg args i =
     bind_run (args_get args i) (\<lambda>arg.
       case arg of None \<Rightarrow> throw_format_error ''argument not found'' | Some a \<Rightarrow> Inr a)"

text \<open>A width or a precision that is an argument; a name is looked up first.\<close>

fun handle_dynamic_spec :: "bool \<Rightarrow> format_args \<Rightarrow> int \<Rightarrow> arg_ref \<Rightarrow> int run" where
  "handle_dynamic_spec precision args v Ref_none = Inr v"
| "handle_dynamic_spec precision args v (Ref_index i) = bind_run (get_arg args i) (get_dynamic_spec precision)"
| "handle_dynamic_spec precision args v (Ref_name name) =
     (if args_get_id args name \<ge> 0 then bind_run (get_arg args (args_get_id args name)) (get_dynamic_spec precision)
      else throw_format_error ''argument not found'')"

section \<open>The handler\<close>

text \<open>The text written so far, and what the parse context counts.\<close>

record format_handler =
  hf_out :: string
  hf_next_arg :: int

definition on_text :: "string \<Rightarrow> format_handler \<Rightarrow> format_handler" where
  "on_text t h = h\<lparr>hf_out := hf_out h @ t\<rparr>"

text \<open>The three forms of \<^verbatim>\<open>on_arg_id\<close>, through the adapter of a replacement field.\<close>

fun on_arg_id :: "format_args \<Rightarrow> arg_id \<Rightarrow> format_handler \<Rightarrow> (int \<times> format_handler) run" where
  "on_arg_id args Id_auto h =
     bind_run (next_arg_id (hf_next_arg h)) (\<lambda>(i, ctx). Inr (i, h\<lparr>hf_next_arg := ctx\<rparr>))"
| "on_arg_id args (Id_index i) h =
     bind_run (check_arg_id (hf_next_arg h)) (\<lambda>ctx. Inr (i, h\<lparr>hf_next_arg := ctx\<rparr>))"
| "on_arg_id args (Id_name name) h =
     (if args_get_id args name < 0 then throw_format_error ''argument not found''
      else Inr (args_get_id args name, h))"

definition on_replacement_field :: "format_args \<Rightarrow> int \<Rightarrow> format_handler \<Rightarrow> format_handler run" where
  "on_replacement_field args i h =
     bind_run (get_arg args i) (\<lambda>arg. bind_run (default_arg_formatter arg) (\<lambda>t. Inr (on_text t h)))"

definition missing_brace :: string where
  "missing_brace = ''missing '' @ [CHR 0x27, CHR ''}'', CHR 0x27] @ '' in format string''"

definition on_format_specs :: "numpunct \<Rightarrow> format_args \<Rightarrow> int \<Rightarrow> string \<Rightarrow> format_handler \<Rightarrow> (string \<times> format_handler) run" where
  "on_format_specs np args i s h =
     bind_run (get_arg args i) (\<lambda>arg.
     bind_run (parse_format_specs s format_specs_new (hf_next_arg h) (type_of_arg arg)) (\<lambda>(s', specs, ctx).
     bind_run (handle_dynamic_spec False args (fs_width specs) (fs_width_ref specs)) (\<lambda>w.
     bind_run (handle_dynamic_spec True args (fs_precision specs) (fs_precision_ref specs)) (\<lambda>p.
       if s' = [] \<or> hd s' \<noteq> CHR ''}'' then throw_format_error missing_brace
       else bind_run (arg_formatter np (specs\<lparr>fs_width := w, fs_precision := p\<rparr>) arg) (\<lambda>t.
            Inr (s', on_text t (h\<lparr>hf_next_arg := ctx\<rparr>)))))))"

section \<open>Replacement fields and format strings\<close>

definition parse_replacement_field :: "numpunct \<Rightarrow> format_args \<Rightarrow> string \<Rightarrow> format_handler \<Rightarrow> (string \<times> format_handler) run" where
  "parse_replacement_field np args s h =
     bind_run (advance s) (\<lambda>s1.
       if s1 = [] then throw_format_error ''invalid format string''
       else if hd s1 = CHR ''}'' then
         bind_run (on_arg_id args Id_auto h) (\<lambda>(i, h1).
         bind_run (on_replacement_field args i h1) (\<lambda>h2. Inr (tl s1, h2)))
       else if hd s1 = CHR ''{'' then Inr (tl s1, on_text [hd s1] h)
       else bind_run (parse_arg_id s1) (\<lambda>(aid, s2).
            bind_run (on_arg_id args aid h) (\<lambda>(i, h1).
              if s2 \<noteq> [] \<and> hd s2 = CHR ''}'' then
                bind_run (on_replacement_field args i h1) (\<lambda>h2. Inr (tl s2, h2))
              else if s2 \<noteq> [] \<and> hd s2 = CHR '':'' then
                bind_run (on_format_specs np args i (tl s2) h1) (\<lambda>(s3, h2).
                  if s3 = [] \<or> hd s3 \<noteq> CHR ''}'' then throw_format_error ''unknown format specifier''
                  else Inr (tl s3, h2))
              else throw_format_error missing_brace)))"

definition unmatched_brace :: string where
  "unmatched_brace = ''unmatched '' @ [CHR 0x27, CHR ''}'', CHR 0x27] @ '' in format string''"

text \<open>What is left of the format string gets shorter.\<close>

lemma on_format_specs_le: "on_format_specs np args i s h = Inr (s', h') \<Longrightarrow> length s' \<le> length s"
  by (auto simp: on_format_specs_def bind_run_Inr_conv split: if_splits dest!: parse_format_specs_le)

lemma parse_replacement_field_less:
  assumes "parse_replacement_field np args s h = Inr (s', h')"
  shows "length s' < length s"
  using assms
  by (auto simp: parse_replacement_field_def bind_run_Inr_conv left_over split: if_splits
      dest!: parse_arg_id_le on_format_specs_le)

section \<open>The loops over a format string\<close>

text \<open>
  The simple loop, for strings shorter than 32 characters: \<open>pending\<close> is the text from \<^verbatim>\<open>begin\<close> to \<^verbatim>\<open>p\<close>, which
  is not written yet.
\<close>

function short_loop :: "numpunct \<Rightarrow> format_args \<Rightarrow> string \<Rightarrow> string \<Rightarrow> format_handler \<Rightarrow> format_handler run" where
  "short_loop np args pending [] h = Inr (on_text pending h)"
| "short_loop np args pending (c # s) h =
     (if c = CHR ''{'' then
        (case parse_replacement_field np args (c # s) (on_text pending h) of
           Inl e \<Rightarrow> Inl e
         | Inr (s', h') \<Rightarrow> short_loop np args [] s' h')
      else if c = CHR ''}'' then
        (if s = [] \<or> hd s \<noteq> CHR ''}'' then throw_format_error unmatched_brace
         else short_loop np args [] (tl s) (on_text (pending @ [c]) h))
      else short_loop np args (pending @ [c]) s h)"
  by pat_completeness auto
termination
  by (relation "measure (\<lambda>(np, args, pending, s, h). length s)") (auto dest!: parse_replacement_field_less)

text \<open>The writer of the text between the fields, which looks for closing braces.\<close>

function write_text :: "string \<Rightarrow> format_handler \<Rightarrow> format_handler run" where
  "write_text t h =
     (case dropWhile (\<lambda>c. c \<noteq> CHR ''}'') t of
        [] \<Rightarrow> Inr (on_text t h)
      | c # rest \<Rightarrow>
          if rest = [] \<or> hd rest \<noteq> CHR ''}'' then throw_format_error unmatched_brace
          else write_text (tl rest) (on_text (takeWhile (\<lambda>c. c \<noteq> CHR ''}'') t @ [c]) h))"
  by pat_completeness auto
termination
proof (relation "measure (\<lambda>(t, h). length t)", goal_cases)
  case (2 t h c rest)
  then have "length (dropWhile (\<lambda>c. c \<noteq> CHR ''}'') t) = Suc (length rest)" by simp
  then show ?case using dropWhile_le [of "\<lambda>c. c \<noteq> CHR ''}''" t] by simp
qed simp

declare write_text.simps [simp del]

definition text_writer :: "string \<Rightarrow> format_handler \<Rightarrow> format_handler run" where
  "text_writer t h = (if t = [] then Inr h else write_text t h)"

text \<open>The loop for longer strings: up to the next opening brace, the field, and on behind it.\<close>

function memchr_loop :: "numpunct \<Rightarrow> format_args \<Rightarrow> string \<Rightarrow> format_handler \<Rightarrow> format_handler run" where
  "memchr_loop np args s h =
     (if s = [] then Inr h
      else (let text_before = takeWhile (\<lambda>c. c \<noteq> CHR ''{'') s; field = dropWhile (\<lambda>c. c \<noteq> CHR ''{'') s
            in if field = [] then text_writer s h
               else (case text_writer text_before h of
                       Inl e \<Rightarrow> Inl e
                     | Inr h1 \<Rightarrow>
                         (case parse_replacement_field np args field h1 of
                            Inl e \<Rightarrow> Inl e
                          | Inr (s', h2) \<Rightarrow> memchr_loop np args s' h2))))"
  by pat_completeness auto
termination
proof (relation "measure (\<lambda>(np, args, s, h). length s)", goal_cases)
  case (2 np args s h text_before field h1 r s' h2)
  then show ?case
    using parse_replacement_field_less [of np args field h1 s' h2] dropWhile_le [of "\<lambda>c. c \<noteq> CHR ''{''" s] by auto
qed simp

declare memchr_loop.simps [simp del]

definition parse_format_string :: "numpunct \<Rightarrow> format_args \<Rightarrow> string \<Rightarrow> format_handler \<Rightarrow> format_handler run" where
  "parse_format_string np args s h =
     (if length s < 32 then short_loop np args [] s h else memchr_loop np args s h)"

text \<open>\<open>vformat_to\<close>, with its own case for the string \<^verbatim>\<open>{}\<close>: what it appends to the buffer.\<close>

definition vformat_to :: "numpunct \<Rightarrow> string \<Rightarrow> format_args \<Rightarrow> string run" where
  "vformat_to np fmt args =
     (if length fmt = 2 \<and> fmt = ''{}'' then bind_run (get_arg args 0) default_arg_formatter
      else bind_run (parse_format_string np args fmt \<lparr>hf_out = [], hf_next_arg = 0\<rparr>) (\<lambda>h. Inr (hf_out h)))"

section \<open>Both loops are the same\<close>

lemma on_text_on_text [simp]: "on_text t2 (on_text t1 h) = on_text (t1 @ t2) h"
  by (simp add: on_text_def)

lemma on_text_Nil [simp]: "on_text [] h = h"
  by (simp add: on_text_def)

text \<open>Over a text without an opening brace, the simple loop is the writer.\<close>

lemma write_text_closing:
  "CHR ''}'' \<notin> set u \<Longrightarrow> write_text (u @ CHR ''}'' # rest) h =
     (if rest = [] \<or> hd rest \<noteq> CHR ''}'' then throw_format_error unmatched_brace
      else write_text (tl rest) (on_text (u @ [CHR ''}'']) h))"
  by (subst write_text.simps) (auto simp: dropWhile_append takeWhile_append dropWhile_eq_Nil_conv)

lemma write_text_plain: "CHR ''}'' \<notin> set t \<Longrightarrow> write_text t h = Inr (on_text t h)"
proof -
  assume "CHR ''}'' \<notin> set t"
  then have "dropWhile (\<lambda>c. c \<noteq> CHR ''}'') t = []" by (simp add: dropWhile_eq_Nil_conv) blast
  then show ?thesis by (simp only: write_text.simps [of t h] list.case)
qed

lemma short_loop_text:
  "CHR ''{'' \<notin> set t \<Longrightarrow> CHR ''}'' \<notin> set pending \<Longrightarrow>
   short_loop np args pending (t @ field) h =
     (if field = [] \<or> hd field = CHR ''{''
      then bind_run (write_text (pending @ t) h) (\<lambda>h'. short_loop np args [] field h')
      else short_loop np args pending (t @ field) h)"
proof (induction "length t" arbitrary: t pending h rule: less_induct)
  case less
  show ?case
  proof (cases "field = [] \<or> hd field = CHR ''{''")
    case True
    show ?thesis
    proof (cases t)
      case Nil
      have "short_loop np args pending field h = short_loop np args [] field (on_text pending h)"
        using True by (cases field) simp_all
      then show ?thesis using Nil True less.prems(2) by (simp add: write_text_plain)
    next
      case (Cons c u)
      show ?thesis
      proof (cases "c = CHR ''}''")
        case False
        moreover have "c \<noteq> CHR ''{''" using less.prems Cons by auto
        ultimately show ?thesis
          using less.hyps [of u "pending @ [c]" h] less.prems Cons True by simp
      next
        case closing: True
        show ?thesis
        proof (cases u)
          case Nil
          then have "field = [] \<or> hd field \<noteq> CHR ''}''" using True by auto
          then show ?thesis
            using Cons closing Nil True write_text_closing [OF less.prems(2), of "[]" h]
            by (simp add: throw_format_error_def)
        next
          case (Cons d v)
          then show ?thesis
            using \<open>t = c # u\<close> closing True write_text_closing [OF less.prems(2), of u h] less.prems
              less.hyps [of v "[]" "on_text (pending @ [c]) h"]
            by (simp add: throw_format_error_def)
        qed
      qed
    qed
  qed simp
qed

lemma text_writer_is_write_text: "text_writer t h = write_text t h"
  by (simp add: text_writer_def write_text_plain)

lemma memchr_loop_is_short_loop: "memchr_loop np args s h = short_loop np args [] s h"
proof (induction "length s" arbitrary: s h rule: less_induct)
  case less
  define u where "u = takeWhile (\<lambda>c. c \<noteq> CHR ''{'') s"
  define field where "field = dropWhile (\<lambda>c. c \<noteq> CHR ''{'') s"
  have s: "s = u @ field" by (simp add: u_def field_def)
  have u: "CHR ''{'' \<notin> set u" unfolding u_def using set_takeWhileD by fastforce
  have hd: "field = [] \<or> hd field = CHR ''{''" unfolding field_def using hd_dropWhile by blast
  have short: "short_loop np args [] s h = bind_run (write_text u h) (\<lambda>h'. short_loop np args [] field h')"
    using short_loop_text [OF u, of "[]" np args field h] hd s by simp
  have ih: "memchr_loop np args s' h2 = short_loop np args [] s' h2" if "parse_replacement_field np args field h1 = Inr (s', h2)" for s' h1 h2
    using less.hyps [of s' h2] parse_replacement_field_less [OF that] s by simp
  have long: "memchr_loop np args s h = (if s = [] then Inr h else if field = [] then text_writer s h
      else bind_run (text_writer u h) (\<lambda>h1. case parse_replacement_field np args field h1 of
                                         Inl e \<Rightarrow> Inl e | Inr (s', h2) \<Rightarrow> memchr_loop np args s' h2))"
    by (simp add: memchr_loop.simps [of np args s] u_def [symmetric] field_def [symmetric] bind_run_def Let_def)
  show ?case
  proof (cases field)
    case Nil
    then show ?thesis
      unfolding short long using s by (cases "write_text u h") (auto simp: text_writer_is_write_text write_text_plain)
  next
    case (Cons c f)
    then have c: "c = CHR ''{''" using hd by simp
    have eq: "(\<lambda>h1. case parse_replacement_field np args field h1 of Inl e \<Rightarrow> Inl e | Inr (s', h2) \<Rightarrow> memchr_loop np args s' h2)
        = short_loop np args [] field"
      by (rule ext) (use ih Cons c in \<open>auto split: sum.splits\<close>)
    have ne: "s \<noteq> []" "field \<noteq> []" using s Cons by simp_all
    show ?thesis by (simp only: short long ne if_False text_writer_is_write_text eq)
  qed
qed

section \<open>The packed list of arguments\<close>

lemma type_code_less: "type_code t < 16"
  by (cases t) simp_all

lemma bit_code: "bit (of_nat (type_code t) :: u64) k \<longleftrightarrow> k < 4 \<and> bit (type_code t) k"
proof -
  have "\<not> bit (type_code t) k" if "4 \<le> k"
  proof -
    have "(16::nat) \<le> 2 ^ k" using power_increasing [OF that, of "2::nat"] by simp
    then have "type_code t < 2 ^ k" using type_code_less [of t] by linarith
    then show ?thesis by (simp add: bit_iff_odd)
  qed
  then have "bit (type_code t) k \<Longrightarrow> k < 4" by (meson not_le)
  then show ?thesis unfolding bit_of_nat_iff by auto
qed

lemma bit_encode_types:
  "length as \<le> 15 \<Longrightarrow> bit (encode_types as) k \<longleftrightarrow>
     k div 4 < length as \<and> bit (type_code (type_of_arg (as ! (k div 4)))) (k mod 4)"
proof (induction as arbitrary: k)
  case (Cons a as)
  show ?case
  proof (cases "k < 4")
    case True
    then show ?thesis by (auto simp: bit_or_iff bit_code bit_push_bit_iff)
  next
    case False
    then have k: "k div 4 = Suc ((k - 4) div 4)" "(k - 4) mod 4 = k mod 4" by (simp_all add: div_if mod_if)
    have "bit (encode_types as) (k - 4) \<Longrightarrow> k < 64"
      using Cons k by auto
    then show ?thesis using Cons False k by (auto simp: bit_or_iff bit_code bit_push_bit_iff)
  qed
qed simp

lemma bit_flags: "bit is_unpacked_bit k \<longleftrightarrow> k = 63" "bit has_named_args_bit k \<longleftrightarrow> k = 62"
  unfolding is_unpacked_bit_def has_named_args_bit_def bit_push_bit_iff bit_1_iff by auto

lemma and_one_bit:
  assumes "\<And>k. bit (f :: u64) k \<longleftrightarrow> k = n"
  shows "w AND f = 0 \<longleftrightarrow> \<not> bit w n"
proof
  assume "w AND f = 0"
  then have "\<not> bit (w AND f) n" by simp
  then show "\<not> bit w n" using assms by (simp add: bit_and_iff)
next
  assume "\<not> bit w n"
  then show "w AND f = 0" using assms by (intro bit_word_eqI) (auto simp: bit_and_iff)
qed

lemmas and_flag_zero = and_one_bit [OF bit_flags(1)] and_one_bit [OF bit_flags(2)]

lemma args_is_packed_make: "length as < 2147483648 \<Longrightarrow> args_is_packed (make_format_args as named) \<longleftrightarrow> length as \<le> 15"
proof -
  assume n: "length as < 2147483648"
  have "\<not> bit (encode_types as) 63" if "length as \<le> 15"
    using bit_encode_types [OF that, of 63] that by simp
  then show ?thesis
    unfolding args_is_packed_def and_flag_zero
    by (auto simp: make_format_args_def max_packed_args_def bit_or_iff bit_flags)
qed

lemma args_type_make:
  assumes "length as \<le> 15" and "i < 15"
  shows "args_type (make_format_args as named) i = (if i < length as then type_code (type_of_arg (as ! i)) else 0)"
proof -
  let ?c = "if i < length as then type_code (type_of_arg (as ! i)) else 0"
  have c: "?c < 16" using type_code_less by simp
  have m: "(push_bit 4 1 - 1 :: u64) = mask 4" by (simp add: mask_eq_exp_minus_1)
  have "drop_bit (i * 4) (fa_desc (make_format_args as named)) AND mask 4 = (of_nat ?c :: u64)"
  proof (rule bit_word_eqI)
    fix j assume "j < LENGTH(64)"
    have "(i * 4 + j) div 4 = i" "(i * 4 + j) mod 4 = j" if "j < 4" using that by simp_all
    moreover have "i * 4 + j \<noteq> 62" if "j < 4" using that assms(2) by presburger
    ultimately show "bit (drop_bit (i * 4) (fa_desc (make_format_args as named)) AND mask 4) j = bit (of_nat ?c :: u64) j"
      using assms by (auto simp: make_format_args_def max_packed_args_def bit_and_iff bit_mask_iff bit_drop_bit_eq bit_or_iff
          bit_encode_types bit_code bit_flags)
  qed
  then have "args_type (make_format_args as named) i = unat (of_nat ?c :: u64)"
    unfolding args_type_def m by simp
  also have "\<dots> = ?c" using c by (simp add: unat_of_nat)
  finally show ?thesis .
qed

lemma args_max_size_make:
  assumes "15 < length as" "length as < 2147483648"
  shows "args_max_size (make_format_args as named) = int (length as)"
proof -
  let ?w = "fa_desc (make_format_args as named)"
  have "(ucast (?w AND NOT is_unpacked_bit) :: i32) = of_nat (length as)"
    using assms by (intro bit_word_eqI) (auto simp: make_format_args_def max_packed_args_def bit_unsigned_iff bit_and_iff bit_or_iff
        bit_not_iff bit_flags bit_of_nat_iff)
  then show ?thesis
    using assms args_is_packed_make [of as named] by (simp add: args_max_size_def sint_unat_small unat_of_nat)
qed

lemma args_get_make:
  assumes "length as < 2147483648" and "0 \<le> i"
  shows "args_get (make_format_args as named) i = Inr (if nat i < length as then Some (as ! nat i) else None)"
proof (cases "length as \<le> 15")
  case True
  have v: "fa_values (make_format_args as named) = as" by (simp add: make_format_args_def)
  have p: "args_is_packed (make_format_args as named)" using args_is_packed_make [OF assms(1)] True by simp
  have nz: "type_code (type_of_arg a) \<noteq> 0" for a by (cases a) simp_all
  show ?thesis
  proof (cases "i \<ge> 15")
    case True
    then show ?thesis using p \<open>length as \<le> 15\<close> by (simp add: args_get_def max_packed_args_def)
  next
    case False
    then show ?thesis
      using p True assms(2) nz args_type_make [OF True, of "nat i" named] by (simp add: args_get_def max_packed_args_def v)
  qed
next
  case False
  then show ?thesis
    using assms args_is_packed_make [OF assms(1), of named] args_max_size_make [of as named]
    by (auto simp: args_get_def) (simp_all add: make_format_args_def)
qed

text \<open>Names are looked up in the list of named arguments.\<close>

lemma args_get_id_make:
  assumes "length as < 2147483648"
  shows "args_get_id (make_format_args as named) name = (case map_of named name of None \<Rightarrow> - 1 | Some i \<Rightarrow> i)"
proof -
  have "\<not> bit (encode_types as) 62" if "length as \<le> 15"
    using bit_encode_types [OF that, of 62] that by simp
  moreover have "\<not> bit (of_nat (length as) :: u64) 62"
    using assms unfolding bit_of_nat_iff by (simp add: bit_iff_odd)
  ultimately have "bit (fa_desc (make_format_args as named)) 62 \<longleftrightarrow> named \<noteq> []"
    by (auto simp: make_format_args_def max_packed_args_def bit_or_iff bit_flags)
  then show ?thesis unfolding args_get_id_def and_flag_zero by (simp add: make_format_args_def)
qed

section \<open>Every format string ends in a text or a format error\<close>

text \<open>What a caller gives: fewer than two to the 31 arguments, and names of some of them.\<close>

definition args_ok :: "fmt_arg list \<Rightarrow> (string \<times> int) list \<Rightarrow> bool" where
  "args_ok as named \<longleftrightarrow> length as < 2147483648 \<and> list_all (\<lambda>(name, i). 0 \<le> i \<and> nat i < length as) named"

lemma named_index_ok: "args_ok as named \<Longrightarrow> map_of named name = Some i \<Longrightarrow> 0 \<le> i"
  by (auto simp: args_ok_def list_all_iff dest!: map_of_SomeD)

lemma get_arg_make:
  assumes "args_ok as named" and "0 \<le> i"
  shows "get_arg (make_format_args as named) i =
    (if nat i < length as then Inr (as ! nat i) else throw_format_error ''argument not found'')"
  using assms by (simp add: get_arg_def args_get_make args_ok_def)

lemma get_arg_safe: "args_ok as named \<Longrightarrow> 0 \<le> i \<Longrightarrow> format_safe (get_arg (make_format_args as named) i)"
  by (simp add: get_arg_make)

lemma handle_dynamic_spec_safe:
  assumes "args_ok as named" and "ref_ok ref"
  shows "format_safe (handle_dynamic_spec precision (make_format_args as named) v ref)"
  using assms by (cases ref) (auto intro!: format_safe_bind get_arg_safe get_dynamic_spec_safe)

lemma on_arg_id_safe: "format_safe (on_arg_id args aid h)"
  by (cases aid) (auto intro!: format_safe_bind arg_id_errors)

lemma on_arg_id_ok:
  assumes "args_ok as named" and "id_ok aid" and "on_arg_id (make_format_args as named) aid h = Inr (i, h')"
  shows "0 \<le> i"
  using assms by (cases aid) (auto simp: bind_run_Inr_conv next_arg_id_def split: if_splits)

lemma on_replacement_field_safe:
  "args_ok as named \<Longrightarrow> 0 \<le> i \<Longrightarrow> format_safe (on_replacement_field (make_format_args as named) i h)"
  unfolding on_replacement_field_def
  by (auto intro!: format_safe_bind get_arg_safe default_arg_formatter_safe)

lemma refs_ok_new: "refs_ok format_specs_new"
  by (simp add: refs_ok_def format_specs_new_def)

lemma on_format_specs_safe:
  assumes "args_ok as named" and "0 \<le> i"
  shows "format_safe (on_format_specs np (make_format_args as named) i s h)"
proof -
  have ok: "ref_ok (fs_width_ref specs)" "ref_ok (fs_precision_ref specs)"
    if "parse_format_specs s format_specs_new ctx t = Inr (s', specs, ctx')" for ctx t s' specs ctx'
    using parse_format_specs_safe(2) [OF refs_ok_new that] by (simp_all add: refs_ok_def)
  have rest: "format_safe (bind_run (handle_dynamic_spec False (make_format_args as named) w wref) (\<lambda>w.
      bind_run (handle_dynamic_spec True (make_format_args as named) p pref) (\<lambda>p.
        if c then throw_format_error missing_brace else bind_run (arg_formatter np (f w p) arg) (\<lambda>t. Inr (g t)))))"
    if "ref_ok wref" "ref_ok pref" for w wref p pref c f arg g
    by (intro format_safe_bind handle_dynamic_spec_safe assms that) (auto intro!: format_safe_bind arg_formatter_safe)
  show ?thesis
    unfolding on_format_specs_def
  proof (rule format_safe_bind [OF get_arg_safe [OF assms]], rule format_safe_bind [OF parse_format_specs_safe(1) [OF refs_ok_new]])
    fix arg x
    assume x: "parse_format_specs s format_specs_new (hf_next_arg h) (type_of_arg arg) = Inr x"
    obtain s' specs ctx where "x = (s', specs, ctx)" by (cases x)
    then show "format_safe (case x of (s', specs, ctx) \<Rightarrow>
        bind_run (handle_dynamic_spec False (make_format_args as named) (fs_width specs) (fs_width_ref specs)) (\<lambda>w.
        bind_run (handle_dynamic_spec True (make_format_args as named) (fs_precision specs) (fs_precision_ref specs)) (\<lambda>p.
          if s' = [] \<or> hd s' \<noteq> CHR ''}'' then throw_format_error missing_brace
          else bind_run (arg_formatter np (specs\<lparr>fs_width := w, fs_precision := p\<rparr>) arg) (\<lambda>t.
               Inr (s', on_text t (h\<lparr>hf_next_arg := ctx\<rparr>))))))"
      using ok x by (simp add: rest)
  qed
qed

lemma parse_replacement_field_safe:
  assumes "args_ok as named" and "s \<noteq> []"
  shows "format_safe (parse_replacement_field np (make_format_args as named) s h)"
proof -
  have named: "format_safe (bind_run (on_arg_id (make_format_args as named) aid h) (\<lambda>(i, h1). f i h1))"
    if "id_ok aid" "\<And>i h1. 0 \<le> i \<Longrightarrow> format_safe (f i h1)" for aid and f :: "int \<Rightarrow> format_handler \<Rightarrow> (string \<times> format_handler) run"
    using that on_arg_id_ok [OF assms(1) that(1)] by (intro format_safe_bind on_arg_id_safe) auto
  have field: "format_safe (bind_run (on_replacement_field (make_format_args as named) i h1) (\<lambda>h2. Inr (g h2)))"
    if "0 \<le> i" for i h1 and g :: "format_handler \<Rightarrow> string \<times> format_handler"
    using that by (intro format_safe_bind on_replacement_field_safe assms) simp_all
  have specs: "format_safe (bind_run (on_format_specs np (make_format_args as named) i t h1) (\<lambda>(s3, h2). if c s3 then throw_format_error m else Inr (g s3 h2)))"
    if "0 \<le> i" for i t h1 c m and g :: "string \<Rightarrow> format_handler \<Rightarrow> string \<times> format_handler"
    using that by (intro format_safe_bind on_format_specs_safe assms) auto
  show ?thesis
    unfolding parse_replacement_field_def
  proof (rule format_safe_bind [OF char_at_safe(2) [OF assms(2)]], goal_cases)
    case (1 s1)
    have aid: "format_safe (bind_run (parse_arg_id s1) (\<lambda>(aid, s2). f aid s2))"
      if "s1 \<noteq> []" "\<And>aid s2. id_ok aid \<Longrightarrow> format_safe (f aid s2)" for f :: "arg_id \<Rightarrow> string \<Rightarrow> (string \<times> format_handler) run"
      using that parse_arg_id_ok by (intro format_safe_bind parse_arg_id_safe) auto
    have auto_field: "format_safe (bind_run (on_arg_id (make_format_args as named) Id_auto h) (\<lambda>(i, h1).
        bind_run (on_replacement_field (make_format_args as named) i h1) (\<lambda>h2. Inr (tl s1, h2))))"
      by (rule named) (simp, rule field)
    have "format_safe (bind_run (parse_arg_id s1) (\<lambda>(aid, s2).
        bind_run (on_arg_id (make_format_args as named) aid h) (\<lambda>(i, h1).
          if s2 \<noteq> [] \<and> hd s2 = CHR ''}'' then
            bind_run (on_replacement_field (make_format_args as named) i h1) (\<lambda>h2. Inr (tl s2, h2))
          else if s2 \<noteq> [] \<and> hd s2 = CHR '':'' then
            bind_run (on_format_specs np (make_format_args as named) i (tl s2) h1) (\<lambda>(s3, h2).
              if s3 = [] \<or> hd s3 \<noteq> CHR ''}'' then throw_format_error ''unknown format specifier''
              else Inr (tl s3, h2))
          else throw_format_error missing_brace)))" if "s1 \<noteq> []"
      by (rule aid [OF that], rule named, assumption) (auto intro: field specs)
    with auto_field show ?case by (simp del: on_arg_id.simps)
  qed
qed

lemma short_loop_safe:
  assumes "args_ok as named"
  shows "format_safe (short_loop np (make_format_args as named) pending s h)"
proof (induction "length s" arbitrary: pending s h rule: less_induct)
  case less
  show ?case
  proof (cases s)
    case (Cons c t)
    show ?thesis
    proof (cases "c = CHR ''{''")
      case False
      then show ?thesis using less.hyps [of "tl t"] less.hyps [of t] Cons by simp
    next
      case brace: True
      note safe = parse_replacement_field_safe [OF assms, of "c # t" np "on_text pending h"]
      show ?thesis
      proof (cases "parse_replacement_field np (make_format_args as named) (c # t) (on_text pending h)")
        case (Inl e)
        then show ?thesis using safe Cons brace by simp
      next
        case (Inr r)
        obtain s' h' where r: "r = (s', h')" by (cases r)
        have "length s' < length s" using parse_replacement_field_less [OF Inr [unfolded r]] Cons by simp
        then show ?thesis using less.hyps [of s' "[]" h'] Cons Inr r brace by simp
      qed
    qed
  qed simp
qed

text \<open>\<open>vformat_to\<close> is the simple loop, its special case and the longer loop included.\<close>

lemma short_loop_field:
  "short_loop np args pending ''{}'' h =
     bind_run (on_arg_id args Id_auto (on_text pending h)) (\<lambda>(i, h1). on_replacement_field args i h1)"
  by (auto simp: parse_replacement_field_def bind_run_def split: sum.splits)

lemma vformat_to_short:
  "vformat_to np fmt args = bind_run (short_loop np args [] fmt \<lparr>hf_out = [], hf_next_arg = 0\<rparr>) (\<lambda>h. Inr (hf_out h))"
proof (cases "fmt = ''{}''")
  case True
  have "bind_run (get_arg args 0) default_arg_formatter =
      bind_run (short_loop np args [] ''{}'' \<lparr>hf_out = [], hf_next_arg = 0\<rparr>) (\<lambda>h. Inr (hf_out h))"
    unfolding short_loop_field
    by (auto simp: next_arg_id_def on_replacement_field_def on_text_def bind_run_def split: sum.splits)
  then show ?thesis by (simp add: vformat_to_def True del: short_loop.simps)
next
  case False
  then show ?thesis by (simp add: vformat_to_def parse_format_string_def memchr_loop_is_short_loop del: short_loop.simps)
qed

section \<open>Literal text and plain fields\<close>

text \<open>The simple loop may write its pending text at once.\<close>

lemma short_loop_pending: "short_loop np args pending s h = short_loop np args [] s (on_text pending h)"
proof (induction "length s" arbitrary: pending s h rule: less_induct)
  case less
  show ?case
  proof (cases s)
    case (Cons c t)
    then show ?thesis
      using less [of t "pending @ [c]" h] less [of t "[c]" "on_text pending h"] by simp
  qed simp
qed

text \<open>A format string as its author thinks of it: text, whose braces are doubled, and fields \<^verbatim>\<open>{}\<close>.\<close>

datatype piece = Literal string | Field

fun escape_braces :: "string \<Rightarrow> string" where
  "escape_braces [] = []"
| "escape_braces (c # s) = (if c = CHR ''{'' \<or> c = CHR ''}'' then [c, c] else [c]) @ escape_braces s"

fun piece_format :: "piece \<Rightarrow> string" where
  "piece_format (Literal t) = escape_braces t"
| "piece_format Field = ''{}''"

text \<open>What it should print: the text, and the arguments in their order, as many as there are.\<close>

fun render :: "piece list \<Rightarrow> fmt_arg list \<Rightarrow> string run" where
  "render [] as = Inr []"
| "render (Literal t # ps) as = bind_run (render ps as) (\<lambda>r. Inr (t @ r))"
| "render (Field # ps) [] = throw_format_error ''argument not found''"
| "render (Field # ps) (a # as) =
     bind_run (default_arg_formatter a) (\<lambda>t. bind_run (render ps as) (\<lambda>r. Inr (t @ r)))"

lemma short_loop_literal:
  "short_loop np args [] (escape_braces t @ s) h = short_loop np args [] s (on_text t h)"
proof (induction t arbitrary: h)
  case (Cons c t)
  have "short_loop np args [] (escape_braces (c # t) @ s) h = short_loop np args [] (escape_braces t @ s) (on_text [c] h)"
    using short_loop_pending [of np args "[c]" "escape_braces t @ s" h]
    by (auto simp: parse_replacement_field_def)
  then show ?case using Cons.IH by simp
qed simp

lemma bind_throw [simp]: "bind_run (throw_format_error m) f = throw_format_error m"
  by (simp add: throw_format_error_def)

lemma bind_run_assoc: "bind_run (bind_run m f) g = bind_run m (\<lambda>x. bind_run (f x) g)"
  by (cases m) simp_all

lemma short_loop_render:
  assumes "args_ok as named"
  shows "hf_next_arg h = int k \<Longrightarrow>
    bind_run (short_loop np (make_format_args as named) [] (concat (map piece_format ps)) h) (\<lambda>h. Inr (hf_out h)) =
    bind_run (render ps (drop k as)) (\<lambda>t. Inr (hf_out h @ t))"
proof (induction ps arbitrary: h k)
  case Nil
  then show ?case by simp
next
  case (Cons p ps)
  show ?case
  proof (cases p)
    case (Literal t)
    have "hf_next_arg (on_text t h) = int k" "hf_out (on_text t h) = hf_out h @ t"
      using Cons.prems by (simp_all add: on_text_def)
    then show ?thesis
      using Cons.IH [of "on_text t h" k] Literal by (simp add: short_loop_literal bind_run_assoc)
  next
    case Field
    define h1 where "h1 = h\<lparr>hf_next_arg := int k + 1\<rparr>"
    have loop: "short_loop np (make_format_args as named) [] (CHR ''{'' # CHR ''}'' # s) h =
        bind_run (on_replacement_field (make_format_args as named) (int k) h1)
          (\<lambda>h2. short_loop np (make_format_args as named) [] s h2)" for s
      using Cons.prems
      by (simp add: parse_replacement_field_def next_arg_id_def h1_def bind_run_def split: sum.splits)
    show ?thesis
    proof (cases "k < length as")
      case False
      then show ?thesis using Field assms loop by (simp add: on_replacement_field_def get_arg_make)
    next
      case True
      then have d: "drop k as = as ! k # drop (Suc k) as" by (simp add: Cons_nth_drop_Suc)
      show ?thesis
      proof (cases "default_arg_formatter (as ! k)")
        case (Inl e)
        then show ?thesis using True Field assms loop d by (simp add: on_replacement_field_def get_arg_make)
      next
        case (Inr t)
        have "hf_next_arg (on_text t h1) = int (Suc k)" "hf_out (on_text t h1) = hf_out h @ t"
          by (simp_all add: on_text_def h1_def)
        then show ?thesis
          using Cons.IH [of "on_text t h1" "Suc k"] True Field assms loop d Inr
          by (simp add: on_replacement_field_def get_arg_make bind_run_assoc)
      qed
    qed
  qed
qed

lemma vformat_render:
  assumes "args_ok as named"
  shows "vformat_to np (concat (map piece_format ps)) (make_format_args as named) = render ps as"
  using short_loop_render [OF assms, of "\<lparr>hf_out = [], hf_next_arg = 0\<rparr>" 0 np ps]
  by (simp add: vformat_to_short) (cases "render ps as"; simp)

lemma vformat_to_format_safe:
  "args_ok as named \<Longrightarrow> format_safe (vformat_to np fmt (make_format_args as named))"
  unfolding vformat_to_short by (intro format_safe_bind short_loop_safe) simp_all

section \<open>Zero-padded integers\<close>

lemma decimal_digits: "list_all is_dec (decimal n)"
proof (induction n rule: decimal.induct)
  case (1 n)
  have d: "is_dec (digit k)" if "k < 10" for k
    using that by (simp add: is_dec_char digit_def)
  show ?case
    using 1 d by (cases "n < 10") (simp_all add: decimal_digit decimal_step)
qed

lemma decimal_value: "dec_value 0 (decimal n) = n"
proof (induction n rule: decimal.induct)
  case (1 n)
  have d: "(of_char (digit k) :: nat) = 48 + k" if "k < 10" for k
    using that by (simp add: digit_def)
  show ?case
    using 1 d by (cases "n < 10") (simp_all add: decimal_digit decimal_step dec_value_append)
qed

lemma decimal_first: "0 < n \<Longrightarrow> hd (decimal n) \<noteq> CHR ''0''"
proof (induction n rule: decimal.induct)
  case (1 n)
  have "digit k \<noteq> CHR ''0''" if "0 < k" "k < 10" for k
  proof
    assume "digit k = CHR ''0''"
    then have "(of_char (digit k) :: nat) = 48" by simp
    then show False using that by (simp add: digit_def)
  qed
  then show ?case using 1 by (cases "n < 10") (simp_all add: decimal_digit decimal_step)
qed

definition zero_padded_specs :: "nat \<Rightarrow> format_specs" where
  "zero_padded_specs w =
     format_specs_new\<lparr>fs_width := int w, fs_align := Align_numeric, fs_fill := ''0'', fs_type := Pres_dec\<rparr>"

lemma parse_zero_padded:
  assumes "0 < w" "w \<le> 2147483647" "in_types t integral_set" "is_arithmetic_type t"
  shows "parse_format_specs (CHR ''0'' # decimal w @ ''d}'') format_specs_new ctx t = Inr (''}'', zero_padded_specs w, ctx)"
proof -
  obtain c cs where c: "decimal w = c # cs" by (cases "decimal w") simp_all
  have c0: "c \<noteq> CHR ''0''" using decimal_first [OF assms(1)] c by simp
  have dec: "is_dec c" using decimal_digits [of w] c by simp
  have not_align: "parse_align c = Align_none" "c \<noteq> CHR ''<''" "c \<noteq> CHR ''>''" "c \<noteq> CHR ''^''" "c \<noteq> CHR ''+''" "c \<noteq> CHR ''-''"
    "c \<noteq> CHR '' ''" "c \<noteq> CHR ''#''"
    using dec by (auto simp: is_dec_char)
  have "w < 10 ^ 10" using assms(2) by simp
  then have "length (decimal w) \<le> 10" by (rule length_decimal_less) simp
  then have num: "parse_nonnegative_int (decimal w @ ''d}'') (- 1) = Inr (int w, ''d}'')"
    using parse_nonnegative_int_exact [of "decimal w" "''d}''" "- 1"] decimal_digits [of w] assms(2)
    by (simp add: decimal_value is_dec_char)
  have d: "map_of presentations (CHR ''d'') = Some (Pres_dec, integral_set)" by (simp add: presentations_def)
  have nd: "\<not> is_dec (CHR ''d'')" by (simp add: is_dec_char)
  show ?thesis
    using c0 dec not_align num d nd assms
    by (simp add: parse_format_specs_def c)
       (simp add: specs_loop.simps specs_round_def spec_zero_def spec_width_def enter_state_def parse_dynamic_spec_def
         parse_presentation_type_def c zero_padded_specs_def format_specs_new_def)
qed

lemma minus_prefix: "prefix_size (0x1000000 OR uchar CHR ''-'') = 1" "prefix_text (0x1000000 OR uchar CHR ''-'') = ''-''"
  "prefix_size 0 = 0" "prefix_text 0 = []"
proof -
  have u: "uchar CHR ''-'' = 45" by (simp add: uchar_def)
  show "prefix_size (0x1000000 OR uchar CHR ''-'') = 1" by (simp add: prefix_size_def u)
  show "prefix_text (0x1000000 OR uchar CHR ''-'') = ''-''"
    by (simp add: prefix_text_def u prefix_chars.simps char_of_def bit_0)
  show "prefix_size 0 = 0" "prefix_text 0 = []" by (simp_all add: prefix_size_def prefix_text_def prefix_chars.simps)
qed

lemma numeric_align_text:
  assumes "fs_align specs = Align_numeric" "fs_width specs = int w" "fs_precision specs = - 1" "0 < w" "length ds = n"
  shows "write_int_digits n prefix specs ds =
    prefix_text prefix @ replicate (w - (prefix_size prefix + n)) (CHR ''0'') @ ds"
proof -
  have "fs_width specs OR (fs_precision specs + 1) \<noteq> 0" using assms by simp
  then show ?thesis
    using assms by (simp add: write_int_digits_def write_int_data_def write_padded_def Let_def)
qed

lemma unat_magnitude:
  fixes v :: i32
  shows "sint v < 0 \<Longrightarrow> unat (- v) = nat (- sint v)" and "\<not> sint v < 0 \<Longrightarrow> unat v = nat (sint v)"
proof -
  have "uint v = sint v mod 2 ^ 32" "- (2 ^ 31) \<le> sint v" "sint v < 2 ^ 31"
    using uint_sint [of v] sint_ge [of v] sint_lt [of v] by (simp_all add: take_bit_eq_mod)
  then show "sint v < 0 \<Longrightarrow> unat (- v) = nat (- sint v)" "\<not> sint v < 0 \<Longrightarrow> unat v = nat (sint v)"
    by (simp_all add: unat_eq_nat_uint uint_word_ariths mod_minus_eq)
qed

lemma write_integer_zero_padded:
  fixes v :: i32
  assumes "0 < w"
  shows "write_integer np 32 True v (zero_padded_specs w) =
    Inr (let digits = decimal (nat \<bar>sint v\<bar>); sg = (if sint v < 0 then ''-'' else [])
         in sg @ replicate (w - (length sg + length digits)) (CHR ''0'') @ digits)"
proof -
  have specs: "fs_align (zero_padded_specs w) = Align_numeric" "fs_width (zero_padded_specs w) = int w"
    "fs_precision (zero_padded_specs w) = - 1" "fs_type (zero_padded_specs w) = Pres_dec" "fs_sign (zero_padded_specs w) = Sign_none"
    "fs_localized (zero_padded_specs w) = False"
    by (simp_all add: zero_padded_specs_def format_specs_new_def)
  have less: "unat x < 2 ^ 32" for x :: i32 using unat_lt_u32 [of x] by simp
  have int_text: "int_presentation 32 (unat x) p (zero_padded_specs w) =
      Inr (Int_digits p (length (decimal (unat x))) (decimal (unat x)))" for x :: i32 and p
    using less [of x] by (simp add: int_presentation_def specs Let_def count_digits_eq decimal_text_eq)
  show ?thesis
  proof (cases "sint v < 0")
    case True
    have "unat (- v) = nat (- sint v)" by (rule unat_magnitude(1) [OF True])
    then show ?thesis
      using True specs
      by (simp add: Let_def write_integer_def make_write_int_arg_def write_int_def int_text minus_prefix
          numeric_align_text [OF specs(1-3) assms refl])
  next
    case False
    have "unat v = nat (sint v)" by (rule unat_magnitude(2) [OF False])
    then show ?thesis
      using False specs
      by (simp add: Let_def write_integer_def make_write_int_arg_def write_int_def int_text minus_prefix
          numeric_align_text [OF specs(1-3) assms refl])
  qed
qed

lemma args_ok_one: "args_ok [a] []"
  by (simp add: args_ok_def)

lemma vformat_specs:
  assumes "s \<noteq> []" "parse_format_specs (s @ ''}'') format_specs_new 1 (type_of_arg a) = Inr (''}'', specs, ctx)"
    and "fs_width_ref specs = Ref_none" "fs_precision_ref specs = Ref_none"
  shows "vformat_to np (''{:'' @ s @ ''}'') (make_format_args [a] []) = arg_formatter np specs a"
proof -
  have "parse_replacement_field np (make_format_args [a] []) (''{:'' @ s @ ''}'') \<lparr>hf_out = [], hf_next_arg = 0\<rparr> =
      bind_run (arg_formatter np specs a) (\<lambda>t. Inr ([], \<lparr>hf_out = t, hf_next_arg = ctx\<rparr>))"
    using assms by (simp add: parse_replacement_field_def parse_arg_id_def next_arg_id_def on_format_specs_def
        get_arg_make [OF args_ok_one] on_text_def bind_run_assoc)
  then show ?thesis
    by (cases "arg_formatter np specs a") (simp_all add: vformat_to_short on_text_def)
qed

section \<open>Reading a number again\<close>

fun char_digit :: "char \<Rightarrow> nat" where
  "char_digit c =
     (let n = of_char c :: nat in if n < 58 then n - 48 else if n < 91 then n - 55 else n - 87)"

definition read_radix :: "nat \<Rightarrow> string \<Rightarrow> nat" where
  "read_radix bits s = foldl (\<lambda>a c. a * 2 ^ bits + char_digit c) 0 s"

lemma char_digit_text:
  assumes "d < 2 ^ bits" "bits \<le> 4"
  shows "char_digit (digit_text bits upper d) = d"
proof (cases "bits < 4")
  case True
  then have "(2::nat) ^ bits \<le> 2 ^ 3" by (intro power_increasing) simp_all
  then have "d < 8" using assms(1) by simp
  then show ?thesis using True by (simp add: digit_text_def)
next
  case False
  then have "d < 16" "bits = 4" using assms by (cases "bits = 4"; simp)+
  have "list_all (\<lambda>d. char_digit (digit_text 4 True d) = d \<and> char_digit (digit_text 4 False d) = d) [0..<16]"
    by code_simp
  then show ?thesis using \<open>d < 16\<close> \<open>bits = 4\<close> by (cases upper) (simp_all add: list_all_iff)
qed

lemma read_radix_text:
  assumes "0 < bits" "bits \<le> 4"
  shows "read_radix bits (map (digit_text bits upper) (radix_digits bits n)) = n"
proof -
  have "foldl (\<lambda>a c. a * 2 ^ bits + char_digit c) k (map (digit_text bits upper) ds) = foldl (\<lambda>a d. a * 2 ^ bits + d) k ds"
    if "list_all (\<lambda>d. d < 2 ^ bits) ds" for k ds
    using that char_digit_text [OF _ assms(2)] by (induction ds arbitrary: k) simp_all
  moreover have "list_all (\<lambda>d. d < 2 ^ bits) (radix_digits bits n)" by (simp add: list_all_iff radix_digits_less)
  ultimately show ?thesis using radix_digits_value [OF assms(1)] by (simp add: read_radix_def)
qed

definition presented :: "presentation_type \<Rightarrow> format_specs" where
  "presented p = format_specs_new\<lparr>fs_type := p\<rparr>"

lemma parse_letter:
  assumes "map_of presentations c = Some (p, types)" "in_types t types" "parse_align c = Align_none"
    "c \<notin> set ''+- #0{.Lc}''" "\<not> is_dec c"
  shows "parse_format_specs [c, CHR ''}''] format_specs_new ctx t = Inr (''}'', presented p, ctx)"
proof -
  show ?thesis
    using assms
    by (simp add: parse_format_specs_def specs_loop.simps specs_round_def parse_presentation_type_def presented_def
        split: if_splits)
qed

lemma write_radix:
  fixes v :: u64
  assumes "bits = 4 \<and> p \<in> {Pres_hex_lower, Pres_hex_upper} \<or> bits = 3 \<and> p = Pres_oct \<or> bits = 1 \<and> p \<in> {Pres_bin_lower, Pres_bin_upper}"
  shows "write_integer np 64 False v (presented p) =
    Inr (map (digit_text bits (p = Pres_hex_upper)) (radix_digits bits (unat v)))"
proof -
  have p: "fs_type (presented p) = p" "fs_width (presented p) = 0" "fs_precision (presented p) = - 1"
    "fs_localized (presented p) = False" "fs_alt (presented p) = False" "fs_sign (presented p) = Sign_none"
    by (simp_all add: presented_def format_specs_new_def)
  have "int_presentation 64 (unat v) 0 (presented p) = Inr (Int_digits 0 (length (radix_digits bits (unat v)))
      (map (digit_text bits (p = Pres_hex_upper)) (radix_digits bits (unat v))))"
    using assms p(5) by (auto simp: int_presentation_def p(1) Let_def count_digits_bits_eq uint_text_eq)
  then show ?thesis
    by (simp add: write_integer_def make_write_int_arg_def p write_int_def write_int_digits_def)
qed

section \<open>Properties\<close>

text \<open>
  Claim C29: the two loops over a format string, the simple one for strings of fewer than 32 characters
  and the one that looks for braces first, behave alike on every string, from every state of the
  handler: the same text, the same count of arguments, and the same error.
\<close>

theorem format_loops_agree:
  "memchr_loop np args s h = short_loop np args [] s h \<and> parse_format_string np args s h = short_loop np args [] s h"
  by (simp add: parse_format_string_def memchr_loop_is_short_loop del: short_loop.simps)

text \<open>
  Claim C26: whatever the format string and the arguments, of the types the program logs, \<^verbatim>\<open>vformat_to\<close>
  returns: with a text, or with a \<^verbatim>\<open>format_error\<close>. It never reads outside the format string, an
  argument or a table, never writes outside a buffer, and every loop ends.
\<close>

theorem vformat_to_safe:
  assumes "args_ok as named"
  shows "(\<exists>t. vformat_to np fmt (make_format_args as named) = Inr t) \<or>
    (\<exists>m. vformat_to np fmt (make_format_args as named) = Inl (Uncaught (Format_error m)))"
  using vformat_to_format_safe [OF assms, of np fmt] by (cases "vformat_to np fmt (make_format_args as named)") simp_all

theorem vformat_to_safe_witness:
  "(\<exists>t. vformat_to classic_numpunct ''{:>{w}.{}s}|{'' (make_format_args [Arg_string ''ab'', Arg_int 7] [(''w'', 1)]) = Inr t) \<or>
   (\<exists>m. vformat_to classic_numpunct ''{:>{w}.{}s}|{'' (make_format_args [Arg_string ''ab'', Arg_int 7] [(''w'', 1)]) =
     Inl (Uncaught (Format_error m)))"
  by (rule vformat_to_safe) (simp add: args_ok_def)

text \<open>
  Claim C25: a format string of text, with its braces doubled, and of fields \<^verbatim>\<open>{}\<close> prints the text and
  the arguments in their order; if there are fewer arguments than fields, or an argument is a null
  C string, the first such field throws, and no argument is printed twice.
\<close>

theorem vformat_to_renders:
  assumes "args_ok as named"
  shows "vformat_to np (concat (map piece_format ps)) (make_format_args as named) = render ps as"
  by (rule vformat_render [OF assms])

theorem vformat_to_renders_witness:
  "vformat_to classic_numpunct (concat (map piece_format [Literal ''accept {client}('', Field, Literal '') '', Field]))
     (make_format_args [Arg_int 12, Arg_string ''127.0.0.1''] []) =
   render [Literal ''accept {client}('', Field, Literal '') '', Field] [Arg_int 12, Arg_string ''127.0.0.1'']"
  by (rule vformat_to_renders) (simp add: args_ok_def)

text \<open>
  Claim C30: a field \<^verbatim>\<open>{:0Nd}\<close> prints every \<^verbatim>\<open>int\<close> in decimal, with zeros between the sign and the digits up to
  \<open>N\<close> characters, for every width \<open>N\<close> that fits an \<^verbatim>\<open>int\<close>; longer numbers are printed whole.
\<close>

theorem zero_padded_field:
  fixes v :: i32
  assumes "0 < w" and "w \<le> 2147483647"
  shows "vformat_to np (''{:0'' @ decimal w @ ''d}'') (make_format_args [Arg_int v] []) =
    Inr (let digits = decimal (nat \<bar>sint v\<bar>); sg = (if sint v < 0 then ''-'' else [])
         in sg @ replicate (w - (length sg + length digits)) (CHR ''0'') @ digits)"
proof -
  have "parse_format_specs ((CHR ''0'' # decimal w @ ''d'') @ ''}'') format_specs_new 1 Int_type = Inr (''}'', zero_padded_specs w, 1)"
    using parse_zero_padded [OF assms, of Int_type 1]
    by (simp add: in_types_def integral_set_def sint_set_def uint_set_def bool_set_def char_set_def type_bit_def is_arithmetic_type_def)
  from vformat_specs [OF _ this [folded type_of_arg.simps(1) [of v]]]
  show ?thesis
    using write_integer_zero_padded [OF assms(1), of np v] by (simp add: zero_padded_specs_def format_specs_new_def)
qed

theorem zero_padded_field_witness:
  "vformat_to classic_numpunct (''{:0'' @ decimal 5 @ ''d}'') (make_format_args [Arg_int (- 42)] []) =
    Inr (let digits = decimal (nat \<bar>sint (- 42 :: i32)\<bar>); sg = (if sint (- 42 :: i32) < 0 then ''-'' else [])
         in sg @ replicate (5 - (length sg + length digits)) (CHR ''0'') @ digits)"
  by (rule zero_padded_field) simp_all

text \<open>
  An unsigned 64-bit integer printed with \<^verbatim>\<open>{:x}\<close>, \<^verbatim>\<open>{:X}\<close>, \<^verbatim>\<open>{:o}\<close> or \<^verbatim>\<open>{:b}\<close> is read back from its digits in
  that base.
\<close>

theorem radix_fields_read_back:
  fixes v :: u64
  assumes "(c, bits) \<in> {(CHR ''x'', 4), (CHR ''X'', 4), (CHR ''o'', 3), (CHR ''b'', 1), (CHR ''B'', 1)}"
  shows "\<exists>t. vformat_to np (''{:'' @ [c] @ ''}'') (make_format_args [Arg_ulong_long v] []) = Inr t \<and> read_radix bits t = unat v"
proof -
  obtain p where p: "map_of presentations c = Some (p, integral_set)"
    and pb: "bits = 4 \<and> p \<in> {Pres_hex_lower, Pres_hex_upper} \<or> bits = 3 \<and> p = Pres_oct \<or>
      bits = 1 \<and> p \<in> {Pres_bin_lower, Pres_bin_upper}"
    using assms by (auto simp: presentations_def)
  have "\<not> is_dec c" using assms by (auto simp: is_dec_char)
  then have "parse_format_specs [c, CHR ''}''] format_specs_new 1 Ulong_long_type = Inr (''}'', presented p, 1)"
    using assms p by (intro parse_letter)
      (auto simp: in_types_def integral_set_def sint_set_def uint_set_def bool_set_def char_set_def type_bit_def)
  then have "vformat_to np (''{:'' @ [c] @ ''}'') (make_format_args [Arg_ulong_long v] []) = write_integer np 64 False v (presented p)"
    using vformat_specs [of "[c]" "Arg_ulong_long v" "presented p" 1 np] by (simp add: presented_def format_specs_new_def)
  then show ?thesis
    using read_radix_text [of bits "p = Pres_hex_upper" "unat v"] pb write_radix [OF pb, of np v] by auto
qed

theorem radix_fields_read_back_witness:
  "\<exists>t. vformat_to classic_numpunct (''{:'' @ ''X'' @ ''}'') (make_format_args [Arg_ulong_long 48879] []) = Inr t \<and> read_radix 4 t = 48879"
  using radix_fields_read_back [of "CHR ''X''" 4 classic_numpunct 48879] by simp

end
