(* ===== verification/Log_Lines.thy ===== *)
theory Log_Lines
  imports Logging Net_Gate Fmt_Format
begin

text \<open>
  Log lines with arguments: \<^verbatim>\<open>logger::log_\<close> of \<^verbatim>\<open>spdlog\<close>, which formats them through \<^verbatim>\<open>fmt\<close>, and every
  log statement of the server, with its format string and arguments as the source has them.
\<close>

section \<open>Logging a format string with arguments\<close>

text \<open>Whatever formatting throws is caught, reported, and the line is lost.\<close>

definition lg_log ::
    "log_env \<Rightarrow> numpunct \<Rightarrow> slogger \<Rightarrow> source_loc \<Rightarrow> level_enum \<Rightarrow> string \<Rightarrow> fmt_arg list \<Rightarrow> spd_world \<Rightarrow> (slogger \<times> spd_world) run" where
  "lg_log env np lg loc lvl fmt args w =
     (let log_enabled = lg_should_log lg lvl; traceback_enabled = bt_enabled (sl_tracer lg)
      in if \<not> log_enabled \<and> \<not> traceback_enabled then Inr (lg, w)
         else (case vformat_to np fmt (make_format_args args []) of
                 Inl (Uncaught e) \<Rightarrow> Inr (lg, catch_report env lg loc (Some e) w)
               | Inl f \<Rightarrow> Inl f
               | Inr buf \<Rightarrow>
                   log_it env lg (log_msg_new (sw_now w) (sw_thread w) loc (sl_name lg) lvl buf)
                     log_enabled traceback_enabled w))"

text \<open>A statement \<^verbatim>\<open>LOGGER->info("...", ...)\<close> of the program.\<close>

definition write_log_args ::
    "log_env \<Rightarrow> numpunct \<Rightarrow> registry \<Rightarrow> spd_world \<Rightarrow> Logger \<Rightarrow> level_enum \<Rightarrow> string \<Rightarrow> fmt_arg list \<Rightarrow>
     (registry \<times> spd_world) run" where
  "write_log_args env np r w lg lvl fmt args =
     bind_run (deref (logger lg)) (\<lambda>a.
     bind_run (load (map_of (reg_heap r)) a) (\<lambda>l.
     bind_run (lg_log env np l source_loc_new lvl fmt args w) (\<lambda>(l', w').
     Inr (store_logger a l' r, w'))))"

text \<open>Integers narrower than an \<^verbatim>\<open>int\<close> are widened on their way to \<^verbatim>\<open>fmt\<close>.\<close>

definition map_uchar :: "u8 \<Rightarrow> fmt_arg" where "map_uchar v = Arg_uint (ucast v)"

definition map_ushort :: "u16 \<Rightarrow> fmt_arg" where "map_ushort v = Arg_uint (ucast v)"

section \<open>The log statements of the server\<close>

text \<open>
  One constructor for each statement, with what it prints: sockets, an address and port, a count, numbers and
  identifiers of requests, and the text of an exception with its address.
\<close>

datatype log_statement =
    Client_accepted i32 string u16
  | Session_ready i32
  | Parse_failed i32 u64 string
  | Not_packed i32
  | Push_failed i32
  | Request_pushed i32
  | Response_sent i32 u8
  | Session_closed i32
  | Session_error i32
  | Read_timeout i32
  | Write_timeout i32
  | Event_done i32
  | Unpack_started i32
  | Unpack_done i32
  | Phone_handled i32 string i32
  | Login_refused i32 string i32
  | Login_failed i32 string i32
  | Login_handled i32 string i32
  | Create_table_failed u64 string
  | Is_exist_failed u64 string
  | Insert_failed u64 string

fun statement_level :: "log_statement \<Rightarrow> level_enum" where
  "statement_level (Parse_failed _ _ _) = level_err"
| "statement_level (Not_packed _) = level_warn"
| "statement_level (Push_failed _) = level_err"
| "statement_level (Session_error _) = level_err"
| "statement_level (Read_timeout _) = level_err"
| "statement_level (Write_timeout _) = level_err"
| "statement_level (Login_refused _ _ _) = level_warn"
| "statement_level (Login_failed _ _ _) = level_err"
| "statement_level (Create_table_failed _ _) = level_err"
| "statement_level (Is_exist_failed _ _) = level_err"
| "statement_level (Insert_failed _ _) = level_err"
| "statement_level _ = level_info"

fun statement_format :: "log_statement \<Rightarrow> string" where
  "statement_format (Client_accepted _ _ _) = ''NetGate::ListenerCallback() - accept client({}) {}:{}''"
| "statement_format (Session_ready _) = ''NetGate::ListenerCallback() -ready to receive data from session({})''"
| "statement_format (Parse_failed _ _ _) = ''NetGate::ReqCallback() -parse message in session({}) error for {}''"
| "statement_format (Not_packed _) = ''NetGate::ReqCallback() -message in session({}) was not packed yet''"
| "statement_format (Push_failed _) = ''NetGate::ReqCallback() -message in session({}) failed to Push''"
| "statement_format (Request_pushed _) = ''NetGate::ReqCallback() -message in session({}) was packed and pushed''"
| "statement_format (Response_sent _ _) = ''NetGate::ResCallback() -complete session({}) {} time(s)'' @ [CHR 10]"
| "statement_format (Session_closed _) = ''NetGate::ErrCallback() - session({}) was closed''"
| "statement_format (Session_error _) = ''NetGate::ErrCallback() - session({}) other error occurs''"
| "statement_format (Read_timeout _) = ''NetGate::ErrCallback() - session({}) reading timeout''"
| "statement_format (Write_timeout _) = ''NetGate::ErrCallback() - session({}) writing timeout''"
| "statement_format (Event_done _) = ''NetGate::handle_results() - event of session({}) done''"
| "statement_format (Unpack_started _) = ''MsgProxy::Unpack() - unpacking message in session({})''"
| "statement_format (Unpack_done _) = ''MsgProxy::Unpack() - unpacking message in session({}) complete''"
| "statement_format (Phone_handled _ _ _) = ''PhoneReqEventHandler::Handle() - session({}) was handled ({}, {})''"
| "statement_format (Login_refused _ _ _) = ''LoginReqEventHandler::Handle() - session({}) was handled ({}, {})''"
| "statement_format (Login_failed _ _ _) = ''LoginReqEventHandler::Handle() - session({}) was handled ({}, {})''"
| "statement_format (Login_handled _ _ _) = ''LoginReqEventHandler::Handle() - session({}) was handled ({}, {})''"
| "statement_format (Create_table_failed _ _) = ''UserDAO::CreateTable() - {}''"
| "statement_format (Is_exist_failed _ _) = ''UserDAO::IsExist() - {}''"
| "statement_format (Insert_failed _ _) = ''UserDAO::Insert() - {}''"

fun statement_args :: "log_statement \<Rightarrow> fmt_arg list" where
  "statement_args (Client_accepted sock ip port) = [Arg_int sock, Arg_string ip, map_ushort port]"
| "statement_args (Session_ready sock) = [Arg_int sock]"
| "statement_args (Parse_failed sock p e) = [Arg_int sock, Arg_cstring p (c_str e)]"
| "statement_args (Not_packed sock) = [Arg_int sock]"
| "statement_args (Push_failed sock) = [Arg_int sock]"
| "statement_args (Request_pushed sock) = [Arg_int sock]"
| "statement_args (Response_sent sock n) = [Arg_int sock, map_uchar n]"
| "statement_args (Session_closed sock) = [Arg_int sock]"
| "statement_args (Session_error sock) = [Arg_int sock]"
| "statement_args (Read_timeout sock) = [Arg_int sock]"
| "statement_args (Write_timeout sock) = [Arg_int sock]"
| "statement_args (Event_done sock) = [Arg_int sock]"
| "statement_args (Unpack_started sock) = [Arg_int sock]"
| "statement_args (Unpack_done sock) = [Arg_int sock]"
| "statement_args (Phone_handled sock phone i) = [Arg_int sock, Arg_string phone, Arg_int i]"
| "statement_args (Login_refused sock phone i) = [Arg_int sock, Arg_string phone, Arg_int i]"
| "statement_args (Login_failed sock phone i) = [Arg_int sock, Arg_string phone, Arg_int i]"
| "statement_args (Login_handled sock phone i) = [Arg_int sock, Arg_string phone, Arg_int i]"
| "statement_args (Create_table_failed p e) = [Arg_cstring p (c_str e)]"
| "statement_args (Is_exist_failed p e) = [Arg_cstring p (c_str e)]"
| "statement_args (Insert_failed p e) = [Arg_cstring p (c_str e)]"

text \<open>What each should print.\<close>

definition session_text :: "string \<Rightarrow> i32 \<Rightarrow> string \<Rightarrow> string" where
  "session_text before_it sock after_it = before_it @ ''session('' @ int_text (sint sock) @ '')'' @ after_it"

definition handled_text :: "string \<Rightarrow> i32 \<Rightarrow> string \<Rightarrow> i32 \<Rightarrow> string" where
  "handled_text name sock phone i =
     session_text (name @ ''::Handle() - '') sock ('' was handled ('' @ phone @ '', '' @ int_text (sint i) @ '')'')"

fun statement_text :: "log_statement \<Rightarrow> string" where
  "statement_text (Client_accepted sock ip port) = ''NetGate::ListenerCallback() - accept client('' @ int_text (sint sock) @
     '') '' @ ip @ '':'' @ decimal (unat port)"
| "statement_text (Session_ready sock) = session_text ''NetGate::ListenerCallback() -ready to receive data from '' sock []"
| "statement_text (Parse_failed sock _ e) =
     session_text ''NetGate::ReqCallback() -parse message in '' sock ('' error for '' @ c_str e)"
| "statement_text (Not_packed sock) = session_text ''NetGate::ReqCallback() -message in '' sock '' was not packed yet''"
| "statement_text (Push_failed sock) = session_text ''NetGate::ReqCallback() -message in '' sock '' failed to Push''"
| "statement_text (Request_pushed sock) = session_text ''NetGate::ReqCallback() -message in '' sock '' was packed and pushed''"
| "statement_text (Response_sent sock n) =
     session_text ''NetGate::ResCallback() -complete '' sock ('' '' @ decimal (unat n) @ '' time(s)'' @ [CHR 10])"
| "statement_text (Session_closed sock) = session_text ''NetGate::ErrCallback() - '' sock '' was closed''"
| "statement_text (Session_error sock) = session_text ''NetGate::ErrCallback() - '' sock '' other error occurs''"
| "statement_text (Read_timeout sock) = session_text ''NetGate::ErrCallback() - '' sock '' reading timeout''"
| "statement_text (Write_timeout sock) = session_text ''NetGate::ErrCallback() - '' sock '' writing timeout''"
| "statement_text (Event_done sock) = session_text ''NetGate::handle_results() - event of '' sock '' done''"
| "statement_text (Unpack_started sock) = session_text ''MsgProxy::Unpack() - unpacking message in '' sock []"
| "statement_text (Unpack_done sock) = session_text ''MsgProxy::Unpack() - unpacking message in '' sock '' complete''"
| "statement_text (Phone_handled sock phone i) = handled_text ''PhoneReqEventHandler'' sock phone i"
| "statement_text (Login_refused sock phone i) = handled_text ''LoginReqEventHandler'' sock phone i"
| "statement_text (Login_failed sock phone i) = handled_text ''LoginReqEventHandler'' sock phone i"
| "statement_text (Login_handled sock phone i) = handled_text ''LoginReqEventHandler'' sock phone i"
| "statement_text (Create_table_failed _ e) = ''UserDAO::CreateTable() - '' @ c_str e"
| "statement_text (Is_exist_failed _ e) = ''UserDAO::IsExist() - '' @ c_str e"
| "statement_text (Insert_failed _ e) = ''UserDAO::Insert() - '' @ c_str e"

text \<open>The texts of exceptions have an address.\<close>

fun statement_ok :: "log_statement \<Rightarrow> bool" where
  "statement_ok (Parse_failed _ p _) \<longleftrightarrow> p \<noteq> 0"
| "statement_ok (Create_table_failed p _) \<longleftrightarrow> p \<noteq> 0"
| "statement_ok (Is_exist_failed p _) \<longleftrightarrow> p \<noteq> 0"
| "statement_ok (Insert_failed p _) \<longleftrightarrow> p \<noteq> 0"
| "statement_ok _ \<longleftrightarrow> True"

section \<open>Every statement prints its text\<close>

text \<open>A format string as text and fields, the inverse of \<open>piece_format\<close> for strings without doubled braces.\<close>

fun pieces :: "string \<Rightarrow> string \<Rightarrow> piece list" where
  "pieces t [] = [Literal (rev t)]"
| "pieces t (c # s) =
     (if c = CHR ''{'' then Literal (rev t) # Field # pieces [] (tl s) else pieces (c # t) s)"

lemma statement_args_ok: "args_ok (statement_args st) []"
  by (cases st) (simp_all add: args_ok_def)

lemma plain_i32: "default_arg_formatter (Arg_int v) = Inr (int_text (sint v))"
  and plain_u16: "default_arg_formatter (map_ushort p) = Inr (decimal (unat p))"
  and plain_u8: "default_arg_formatter (map_uchar n) = Inr (decimal (unat n))"
proof -
  show "default_arg_formatter (Arg_int v) = Inr (int_text (sint v))"
    using unat_magnitude [of v] by (auto simp: write_plain_int_eq int_text_def)
  have "unat p < 2 ^ LENGTH(16)" "unat n < 2 ^ LENGTH(8)" by (rule unsigned_less)+
  then have "unat (ucast p :: u32) = unat p" "unat (ucast n :: u32) = unat n"
    by (simp_all add: unsigned_ucast_eq take_bit_nat_eq_self_iff)
  then show "default_arg_formatter (map_ushort p) = Inr (decimal (unat p))"
      "default_arg_formatter (map_uchar n) = Inr (decimal (unat n))"
    by (simp_all add: map_ushort_def map_uchar_def write_plain_int_eq)
qed

lemma statement_format_pieces: "statement_format st = concat (map piece_format (pieces [] (statement_format st)))"
  by (cases st) simp_all

lemma statement_renders:
  assumes "statement_ok st"
  shows "render (pieces [] (statement_format st)) (statement_args st) = Inr (statement_text st)"
  using assms
  by (cases st) (simp_all add: plain_i32 plain_u16 plain_u8 session_text_def handled_text_def
      del: default_arg_formatter.simps(1))

lemma vformat_statement:
  assumes "statement_ok st"
  shows "vformat_to np (statement_format st) (make_format_args (statement_args st) []) = Inr (statement_text st)"
  using vformat_render [OF statement_args_ok, of np "pieces [] (statement_format st)" st] statement_renders [OF assms]
  by (simp only: statement_format_pieces [symmetric])

section \<open>A log line with arguments\<close>

lemma lg_log_text:
  "vformat_to np fmt (make_format_args args []) = Inr payload \<Longrightarrow>
   lg_log env np lg loc lvl fmt args w = lg_log_msg env lg loc lvl payload w"
  by (simp add: lg_log_def lg_log_msg_def Let_def)

text \<open>
  Claim C28: a log statement never throws and never faults because of its format string. Whatever the string and
  the arguments, the logger does what it does for the formatted text, or, if \<^verbatim>\<open>fmt\<close> refuses the string, hands
  the reason to the error handler and leaves the logger and its sinks alone; a line below the level is not even formatted.
\<close>

theorem format_errors_reported:
  assumes "args_ok args []"
  shows "(\<exists>payload. vformat_to np fmt (make_format_args args []) = Inr payload \<and>
      lg_log env np lg loc lvl fmt args w = lg_log_msg env lg loc lvl payload w) \<or>
    (\<exists>m. vformat_to np fmt (make_format_args args []) = Inl (Uncaught (Format_error m)) \<and>
      lg_log env np lg loc lvl fmt args w =
        Inr (lg, if lg_should_log lg lvl \<or> bt_enabled (sl_tracer lg)
                 then err_handler env lg (catch_text loc (Format_error m)) w else w))"
proof (cases "vformat_to np fmt (make_format_args args [])")
  case (Inr payload)
  then show ?thesis using lg_log_text by blast
next
  case (Inl e)
  then obtain m where "e = Uncaught (Format_error m)"
    using vformat_to_format_safe [OF assms, of np fmt] by (auto simp: format_safe_def)
  then show ?thesis using Inl by (simp add: lg_log_def catch_report_def)
qed

theorem format_errors_reported_witness:
  "sw_err_counter (snd (projr (lg_log noon_env classic_numpunct (slogger_new ''log'' []) source_loc_new level_info
     ''client({}) {}'' [Arg_int 7] two_sink_world))) = 1"
proof -
  let ?ps = "[Literal ''client('', Field, Literal '') '', Field]"
  have ok: "args_ok [Arg_int 7] []" by (simp add: args_ok_def)
  have "concat (map piece_format ?ps) = ''client({}) {}''" by simp
  then have bad: "vformat_to classic_numpunct ''client({}) {}'' (make_format_args [Arg_int 7] []) =
      throw_format_error ''argument not found''"
    using vformat_render [OF ok, of classic_numpunct ?ps] by (simp add: plain_i32 del: default_arg_formatter.simps(1))
  show ?thesis
    using format_errors_reported [OF ok, of classic_numpunct "''client({}) {}''" noon_env "slogger_new ''log'' []"
        source_loc_new level_info two_sink_world]
    by (simp add: bad throw_format_error_def slogger_new_def lg_should_log_def err_handler_def two_sink_world_def)
qed

section \<open>The lines of the server on the console\<close>

lemma write_log_args_line:
  assumes "logger lg = Some a" and "map_of (reg_heap r) a = Some l" and "console_logger env colors l w"
    and "lg_should_log l lvl" and "vformat_to np fmt (make_format_args args []) = Inr payload"
    and "formattable env time_local (log_msg_new (sw_now w) (sw_thread w) source_loc_new (sl_name l) lvl payload)"
  shows "\<exists>w'. write_log_args env np r w lg lvl fmt args = Inr (store_logger a l r, w') \<and>
    sw_console w' Stdout = con_flush (con_write
      (colored_line colors env (log_msg_new (sw_now w) (sw_thread w) source_loc_new (sl_name l) lvl payload)) (sw_console w Stdout))"
proof -
  obtain w' where "lg_log_msg env l source_loc_new lvl payload w = Inr (l, w')"
      "sw_console w' Stdout = con_flush (con_write
        (colored_line colors env (log_msg_new (sw_now w) (sw_thread w) source_loc_new (sl_name l) lvl payload)) (sw_console w Stdout))"
    using console_logger_line [OF assms(3,4,6)] by blast
  then show ?thesis
    using assms(1,2) lg_log_text [OF assms(5), of env l source_loc_new lvl w] by (simp add: write_log_args_def deref_def load_def)
qed


text \<open>A logger made as \<^verbatim>\<open>main\<close> makes it.\<close>

definition started_logger :: "registry \<Rightarrow> spd_world \<Rightarrow> addr \<Rightarrow> slogger \<Rightarrow> bool" where
  "started_logger r w a l \<longleftrightarrow> map_of (reg_heap r) a = Some l \<and> sl_name l = ''default'' \<and> console_logger noon_env False l w \<and>
     sl_level l = level_info \<and> sw_now w = 1688904245042000000 \<and> sw_thread w = 1 \<and>
     sw_console w Stdout = \<lparr>con_tty = False, con_shown = [], con_buffer = []\<rparr>"

lemma started_logger_exists: "\<exists>r w a l. started_logger r w a l"
proof -
  obtain r w where r: "registry_new one_sink_world = Inr (r, w)" "plain_settings r" "map fst (reg_loggers r) = [[]]"
      "sw_console w = sw_console one_sink_world" "sw_getenv w = sw_getenv one_sink_world"
      "sw_now w = sw_now one_sink_world" "sw_thread w = sw_thread one_sink_world"
    using registry_new_plain [of one_sink_world] by (elim exE conjE) simp
  have "''default'' \<notin> fst ` set (reg_loggers r)" using arg_cong [OF r(3), of set] by simp
  then have free: "map_of (reg_loggers r) ''default'' = None" by (simp add: map_of_eq_None_iff)
  obtain a r' w' l where c: "create_logger ''default'' stdout_color_sink r w = Inr (Inr a, r', w')" "map_of (reg_heap r') a = Some l" "sl_name l = ''default''"
      "console_logger noon_env (has_colors w) l w'" "sw_console w' = sw_console w" "sw_now w' = sw_now w" "sw_thread w' = sw_thread w"
    using create_console_logger [OF r(2) free, of w noon_env] by blast
  let ?l = "lg_set_level level_info l"
  have "started_logger (store_logger a ?l r') w' a ?l"
    using c r(4-7)
    by (simp add: started_logger_def map_of_store lg_set_level_def console_logger_def has_colors_def one_sink_world_def
        two_sink_world_def)
  then show ?thesis by blast
qed

lemma noon_line:
  "formattable noon_env time_local (log_msg_new 1688904245042000000 1 source_loc_new ''default'' lvl payload)"
  "colored_line False noon_env (log_msg_new 1688904245042000000 1 source_loc_new ''default'' level_info payload) =
     ''[2023-07-09 12:04:05.042] [default] [info] '' @ payload @ [CHR 10]"
proof -
  have t: "msg_tm noon_env tt m = noon" for tt m by (simp add: msg_tm_def broken_down_def noon_env_def)
  show "formattable noon_env time_local (log_msg_new 1688904245042000000 1 source_loc_new ''default'' lvl payload)"
    by (simp add: formattable_def t msg_ok_def tm_ok_def noon_def log_msg_new_def source_loc_new_def)
  let ?m = "log_msg_new 1688904245042000000 1 source_loc_new ''default'' level_info payload"
  have mdc: "env_mdc noon_env = []" by (simp add: noon_env_def)
  have "to_string_view level_info = ''info''" by code_simp
  moreover
  have "line_head noon (log_msg_new 1688904245042000000 1 source_loc_new ''default'' level_info []) =
      ''[2023-07-09 12:04:05.042] [default] [''" by code_simp
  then have "line_head noon ?m = ''[2023-07-09 12:04:05.042] [default] [''" by (simp add: line_head_def log_msg_new_def)
  ultimately show "colored_line False noon_env ?m = ''[2023-07-09 12:04:05.042] [default] [info] '' @ payload @ [CHR 10]"
    by (simp add: colored_line_def t default_eol_def line_tail_def mdc log_msg_new_def source_loc_new_def
        source_empty_def Let_def)
qed


lemma colored_line_payload:
  "\<exists>h. \<forall>payload. colored_line colors env (log_msg_new time tid source_loc_new name lvl payload) = h @ payload @ default_eol"
proof -
  let ?m = "log_msg_new time tid source_loc_new name lvl"
  let ?name = "if colors then level_code lvl @ to_string_view lvl @ ansi_reset else to_string_view lvl"
  have "colored_line colors env (?m payload) =
      (line_head (msg_tm env time_local (?m [])) (?m []) @ ?name @ line_tail (env_mdc env) (?m [])) @ payload @ default_eol" for payload
    by (simp add: colored_line_def msg_tm_def line_head_def line_tail_def log_msg_new_def Let_def)
  then show ?thesis by blast
qed

text \<open>
  A client forges lines of the log. The number of a phone request is printed as it came, so a number with line
  feeds puts any text of the client on a line of its own, between whole lines of the server.
\<close>

theorem client_forges_log_line:
  fixes forged :: string and sock number :: i32 and l :: slogger and w :: spd_world
  defines "st \<equiv> Phone_handled sock ([CHR 10] @ forged @ [CHR 10]) number"
  assumes "logger lg = Some a" and "map_of (reg_heap r) a = Some l" and "console_logger env colors l w"
    and "lg_should_log l level_info"
    and "formattable env time_local (log_msg_new (sw_now w) (sw_thread w) source_loc_new (sl_name l) level_info [])"
  shows "\<exists>w' before_it after_it. write_log_args env np r w lg level_info (statement_format st) (statement_args st) =
      Inr (store_logger a l r, w') \<and>
    con_shown (sw_console w' Stdout) = before_it @ [CHR 10] @ forged @ [CHR 10] @ after_it"
proof -
  let ?m = "log_msg_new (sw_now w) (sw_thread w) source_loc_new (sl_name l) level_info"
  have "formattable env time_local (?m t)" for t
    using assms(6) by (simp add: formattable_def msg_ok_def msg_tm_def log_msg_new_def)
  moreover have "vformat_to np (statement_format st) (make_format_args (statement_args st) []) = Inr (statement_text st)"
    by (rule vformat_statement) (simp add: st_def)
  ultimately obtain w' where w': "write_log_args env np r w lg level_info (statement_format st) (statement_args st) =
        Inr (store_logger a l r, w')"
      "sw_console w' Stdout = con_flush (con_write (colored_line colors env (?m (statement_text st))) (sw_console w Stdout))"
    using write_log_args_line [OF assms(2-5)] by blast
  define u where "u = ''PhoneReqEventHandler::Handle() - session('' @ int_text (sint sock) @ '') was handled (''"
  define v where "v = '', '' @ int_text (sint number) @ '')''"
  have "statement_text st = u @ [CHR 10] @ forged @ [CHR 10] @ v"
    by (simp add: st_def handled_text_def session_text_def u_def v_def)
  then obtain h where "colored_line colors env (?m (statement_text st)) =
      (h @ u) @ [CHR 10] @ forged @ [CHR 10] @ (v @ default_eol)"
    using colored_line_payload [of colors env "sw_now w" "sw_thread w" "sl_name l" level_info] by (metis append.assoc)
  then have "con_shown (sw_console w' Stdout) =
      (con_shown (sw_console w Stdout) @ con_buffer (sw_console w Stdout) @ h @ u) @ [CHR 10] @ forged @ [CHR 10] @ (v @ default_eol)"
    unfolding w'(2) by (simp add: con_flush_def con_write_def)
  then show ?thesis using w'(1) by blast
qed

end
